(* ===== verification/Prelude.thy ===== *)
theory Prelude
  imports Main "HOL-Library.Word" "HOL-Library.Monad_Syntax"
begin

text \<open>
  Shared vocabulary of the development: the machine integer types, Rust's \<open>Result\<close> with the
  \<open>?\<close> operator, the VM error value, the decimal rendering used by \<open>format!\<close>, and Rust's
  \<open>BTreeMap\<close> as a strictly sorted association list behind the interface locale
  \<open>ordered_map\<close>.  A panic of the source (\<open>expect\<close>, \<open>unwrap\<close>, \<open>assert!\<close>,
  \<open>unreachable!\<close>, an index out of range) is the value \<open>None\<close> of an option type; an
  \<open>Err\<close> of the source is the value \<open>Err\<close>.
\<close>

section \<open>Machine integers and byte strings\<close>

type_synonym u8 = "8 word"
type_synonym u64 = "64 word"
type_synonym u128 = "128 word"
type_synonym bytes = "u8 list"

named_theorems unat_arith_rules \<open>word comparisons and guarded word arithmetic, read through unat\<close>
named_theorems result_rules \<open>inversion rules for results\<close>

lemmas [unat_arith_rules] = word_less_nat_alt word_le_nat_alt

lemma unat_sub_le [unat_arith_rules]: "b \<le> a \<Longrightarrow> unat (a - b) = unat a - unat b" for a b :: "'a::len word"
  by (simp add: unat_sub)

lemma unat_add_le:
  fixes a b c :: "'a::len word"
  assumes "unat a + unat b \<le> unat c"
  shows "unat (a + b) = unat a + unat b"
proof -
  have "unat a + unat b < 2 ^ LENGTH('a)"
    using assms unsigned_less by (rule le_less_trans)
  then show ?thesis by (simp add: unat_word_ariths)
qed

lemma unat_max: "unat (max a b) = max (unat a) (unat b)" for a b :: "'a::len word"
  by (simp add: max_def word_le_nat_alt)

text \<open>Range facts about the unsigned reading, stated once for linear arithmetic.\<close>

lemma uint_ge_0_lt: "0 \<le> uint (w :: 'a::len word) \<and> uint w < 2 ^ LENGTH('a)"
  using uint_bounded by auto

lemma uint_add_le:
  fixes a b c :: "'a::len word"
  assumes "uint a + uint b \<le> uint c"
  shows "uint (a + b) = uint a + uint b"
  using assms unat_add_le[of a b c] unfolding uint_nat by linarith

lemma uint_sub_le: "uint b \<le> uint a \<Longrightarrow> uint (a - b) = uint a - uint b" for a b :: "'a::len word"
  using unat_sub_le[of b a] unfolding uint_nat word_le_nat_alt by linarith

lemma uint_eq_iff: "a = b \<longleftrightarrow> uint a = uint b" for a b :: "'a::len word"
  by (rule word_uint_eq_iff)

section \<open>Rust's Result\<close>

datatype ('a, 'e) result = Ok 'a | Err 'e

fun bind_ok :: "('a, 'e) result \<Rightarrow> ('a \<Rightarrow> ('b, 'e) result) \<Rightarrow> ('b, 'e) result" where
  "bind_ok (Ok x) f = f x"
| "bind_ok (Err e) f = Err e"

fun map_ok :: "('a \<Rightarrow> 'b) \<Rightarrow> ('a, 'e) result \<Rightarrow> ('b, 'e) result" where
  "map_ok f (Ok x) = Ok (f x)"
| "map_ok f (Err e) = Err e"

fun map_err :: "('e \<Rightarrow> 'f) \<Rightarrow> ('a, 'e) result \<Rightarrow> ('a, 'f) result" where
  "map_err f (Ok x) = Ok x"
| "map_err f (Err e) = Err (f e)"

fun unwrap_or :: "('a, 'e) result \<Rightarrow> 'a \<Rightarrow> 'a" where
  "unwrap_or (Ok x) d = x"
| "unwrap_or (Err e) d = d"

fun is_ok :: "('a, 'e) result \<Rightarrow> bool" where
  "is_ok (Ok x) = True"
| "is_ok (Err e) = False"

text \<open>\<open>Result::ok\<close>: forget the error.\<close>

fun ok :: "('a, 'e) result \<Rightarrow> 'a option" where
  "ok (Ok x) = Some x"
| "ok (Err e) = None"

lemma bind_ok_eq_Ok [result_rules]: "bind_ok r f = Ok y \<longleftrightarrow> (\<exists>x. r = Ok x \<and> f x = Ok y)"
  by (cases r) auto

lemma bind_ok_const_eq_Ok [result_rules]: "bind_ok r (\<lambda>_. k) = Ok y \<longleftrightarrow> is_ok r \<and> k = Ok y"
  by (cases r) auto

lemma map_ok_eq_Ok [result_rules]: "map_ok f r = Ok y \<longleftrightarrow> (\<exists>x. r = Ok x \<and> y = f x)"
  by (cases r) auto

lemma map_ok_eq_Err: "map_ok f r = Err e \<longleftrightarrow> r = Err e"
  by (cases r) auto

lemma map_err_eq_Ok [result_rules]: "map_err f r = Ok y \<longleftrightarrow> r = Ok y"
  by (cases r) auto

lemma ok_eq_Some [result_rules]: "ok r = Some y \<longleftrightarrow> r = Ok y"
  by (cases r) auto

lemma is_ok_iff: "is_ok r \<longleftrightarrow> (\<exists>x. r = Ok x)"
  by (cases r) auto

lemma is_ok_map_ok [simp]: "is_ok (map_ok f r) = is_ok r"
  by (cases r) auto

lemma ok_eq_None: "ok r = None \<longleftrightarrow> (\<exists>e. r = Err e)"
  by (cases r) auto

lemma ok_bind_ok [simp]: "ok (bind_ok r f) = Option.bind (ok r) (\<lambda>x. ok (f x))"
  by (cases r) auto

lemma ok_map_err [simp]: "ok (map_err f r) = ok r"
  by (cases r) auto

lemma ok_map_ok [simp]: "ok (map_ok f r) = map_option f (ok r)"
  by (cases r) auto

text \<open>A sequence of fallible updates, stopping at the first panic.\<close>

fun run_all :: "('u \<Rightarrow> 'm \<Rightarrow> 'm option) \<Rightarrow> 'u list \<Rightarrow> 'm \<Rightarrow> 'm option" where
  "run_all f [] m = Some m"
| "run_all f (u # us) m = Option.bind (f u m) (run_all f us)"

text \<open>\<open>collect()\<close> of an iterator whose items may panic.\<close>

fun sequence_opt :: "'a option list \<Rightarrow> 'a list option" where
  "sequence_opt [] = Some []"
| "sequence_opt (x # xs) = do { y \<leftarrow> x; ys \<leftarrow> sequence_opt xs; Some (y # ys) }"

lemma run_all_append: "run_all f (us @ vs) m = Option.bind (run_all f us m) (run_all f vs)"
  by (induction us arbitrary: m) (auto split: bind_splits)

section \<open>VM errors\<close>

text \<open>The status codes the modelled files name, and \<open>PartialVMError\<close> as they build it.\<close>

datatype status_code =
    ABORTED
  | STORAGE_ERROR
  | VM_EXTENSION_ERROR
  | OUT_OF_GAS
  | MEMORY_LIMIT_EXCEEDED
  | INVALID_MAIN_FUNCTION_SIGNATURE
  | NUMBER_OF_ARGUMENTS_MISMATCH
  | NUMBER_OF_SIGNER_ARGUMENTS_MISMATCH
  | FAILED_TO_DESERIALIZE_ARGUMENT
  | INVALID_SIGNATURE
  | SEQUENCE_NUMBER_TOO_NEW
  | UNKNOWN_STATUS
  | UNKNOWN_INVARIANT_VIOLATION_ERROR
  | INVALID_AUTH_KEY
  | SEQUENCE_NUMBER_TOO_OLD
  | SEQUENCE_NUMBER_TOO_BIG
  | SENDING_ACCOUNT_DOES_NOT_EXIST
  | INSUFFICIENT_BALANCE_FOR_TRANSACTION_FEE
  | TRANSACTION_EXPIRED
  | BAD_CHAIN_ID
  | SECONDARY_KEYS_ADDRESSES_COUNT_MISMATCH
  | UNEXPECTED_ERROR_FROM_KNOWN_MOVE_FUNCTION
  | VM_STARTUP_FAILURE
  | EXCEEDED_MAX_TRANSACTION_SIZE
  | MAX_GAS_UNITS_EXCEEDS_MAX_GAS_UNITS_BOUND
  | MAX_GAS_UNITS_BELOW_MIN_TRANSACTION_GAS_UNITS
  | GAS_UNIT_PRICE_BELOW_MIN_BOUND
  | GAS_UNIT_PRICE_ABOVE_MAX_BOUND
  | FEATURE_UNDER_GATING
  | SIGNERS_CONTAIN_DUPLICATES
  | INVALID_WRITE_SET
  | UNREACHABLE
  | DATA_FORMAT_ERROR
  | EVENT_KEY_MISMATCH
  | CONSTRAINT_NOT_SATISFIED
  | VERIFICATION_ERROR
  | CODE_DESERIALIZATION_ERROR
  | DUPLICATE_MODULE_NAME
  | INTERNAL_TYPE_ERROR

record partial_vm_error =
  major_status :: status_code
  message :: "string option"
  sub_status :: "u64 option"

text \<open>Decimal rendering of an unsigned integer, as \<open>format!("{}", n)\<close> prints it.\<close>

definition digit_char :: "nat \<Rightarrow> char" where
  "digit_char n = char_of (48 + n)"

fun show_nat :: "nat \<Rightarrow> string" where
  "show_nat n = (if n < 10 then [digit_char n] else show_nat (n div 10) @ [digit_char (n mod 10)])"

declare show_nat.simps [simp del]

section \<open>BTreeMap as a strictly sorted association list\<close>

type_synonym ('k, 'v) btree = "('k \<times> 'v) list"

definition bt_ok :: "('k::linorder, 'v) btree \<Rightarrow> bool" where
  "bt_ok m = sorted_wrt (<) (map fst m)"

fun bt_insert :: "'k::linorder \<Rightarrow> 'v \<Rightarrow> ('k, 'v) btree \<Rightarrow> ('k, 'v) btree" where
  "bt_insert k v [] = [(k, v)]"
| "bt_insert k v ((k', v') # m) =
     (if k < k' then (k, v) # (k', v') # m
      else if k = k' then (k, v) # m
      else (k', v') # bt_insert k v m)"

definition bt_remove :: "'k::linorder \<Rightarrow> ('k, 'v) btree \<Rightarrow> ('k, 'v) btree" where
  "bt_remove k m = filter (\<lambda>e. fst e \<noteq> k) m"

text \<open>The entries of \<open>range(0..hi)\<close>, ascending.\<close>

definition bt_below :: "'k::linorder \<Rightarrow> ('k, 'v) btree \<Rightarrow> ('k, 'v) btree" where
  "bt_below hi m = filter (\<lambda>e. fst e < hi) m"

text \<open>\<open>iter().collect()\<close>: later entries replace earlier ones with the same key.\<close>

fun bt_collect :: "('k::linorder \<times> 'v) list \<Rightarrow> ('k, 'v) btree \<Rightarrow> ('k, 'v) btree" where
  "bt_collect [] m = m"
| "bt_collect ((k, v) # xs) m = bt_collect xs (bt_insert k v m)"

subsection \<open>The interface clients rely on\<close>

text \<open>
  What a client of a \<open>BTreeMap\<close> uses: lookups see exactly the last insertion or removal,
  iteration is ascending without repetition, and lookup agrees with iteration.
\<close>

locale ordered_map =
  fixes get :: "'m \<Rightarrow> 'k::linorder \<Rightarrow> 'v option"
    and ins :: "'k \<Rightarrow> 'v \<Rightarrow> 'm \<Rightarrow> 'm"
    and rmv :: "'k \<Rightarrow> 'm \<Rightarrow> 'm"
    and ents :: "'m \<Rightarrow> ('k \<times> 'v) list"
    and good :: "'m \<Rightarrow> bool"
  assumes get_ins: "good m \<Longrightarrow> get (ins k v m) = (get m)(k \<mapsto> v)"
    and get_rmv: "good m \<Longrightarrow> get (rmv k m) = (get m)(k := None)"
    and ents_sorted: "good m \<Longrightarrow> sorted_wrt (<) (map fst (ents m))"
    and get_ents: "good m \<Longrightarrow> get m = map_of (ents m)"
    and good_ins: "good m \<Longrightarrow> good (ins k v m)"
    and good_rmv: "good m \<Longrightarrow> good (rmv k m)"
begin

lemma ents_distinct: "good m \<Longrightarrow> distinct (map fst (ents m))"
  using ents_sorted strict_sorted_iff by blast

lemma get_iff_ents: "good m \<Longrightarrow> get m k = Some v \<longleftrightarrow> (k, v) \<in> set (ents m)"
  by (simp add: get_ents ents_distinct)

lemma ents_ins: "good m \<Longrightarrow> set (ents (ins k v m)) = insert (k, v) {e \<in> set (ents m). fst e \<noteq> k}"
proof -
  assume g: "good m"
  have "(a, b) \<in> set (ents (ins k v m)) \<longleftrightarrow> (a, b) \<in> insert (k, v) {e \<in> set (ents m). fst e \<noteq> k}"
    for a b
    using get_iff_ents[OF good_ins[OF g], of k v a b] get_iff_ents[OF g, of a b] get_ins[OF g, of k v]
    by (auto split: if_splits)
  then show ?thesis by auto
qed

lemma ents_rmv: "good m \<Longrightarrow> set (ents (rmv k m)) = {e \<in> set (ents m). fst e \<noteq> k}"
proof -
  assume g: "good m"
  have "(a, b) \<in> set (ents (rmv k m)) \<longleftrightarrow> (a, b) \<in> {e \<in> set (ents m). fst e \<noteq> k}" for a b
    using get_iff_ents[OF good_rmv[OF g], of k a b] get_iff_ents[OF g, of a b] get_rmv[OF g, of k]
    by (auto split: if_splits)
  then show ?thesis by auto
qed

end

subsection \<open>Sorted association lists provide it\<close>

lemma bt_ok_Nil [simp]: "bt_ok []"
  by (simp add: bt_ok_def)

lemma bt_ok_Cons: "bt_ok ((k, v) # m) \<longleftrightarrow> bt_ok m \<and> (\<forall>k' \<in> fst ` set m. k < k')"
  by (auto simp: bt_ok_def)

lemma fst_set_bt_insert: "fst ` set (bt_insert k v m) = insert k (fst ` set m)"
  by (induction k v m rule: bt_insert.induct) (auto simp: image_iff)

lemma bt_ok_insert: "bt_ok m \<Longrightarrow> bt_ok (bt_insert k v m)"
  by (induction k v m rule: bt_insert.induct) (auto simp: bt_ok_Cons fst_set_bt_insert)

lemma bt_ok_remove: "bt_ok m \<Longrightarrow> bt_ok (bt_remove k m)"
  unfolding bt_ok_def bt_remove_def by (induction m) auto

lemma bt_ok_filter: "bt_ok m \<Longrightarrow> bt_ok (filter P m)"
  unfolding bt_ok_def by (induction m) auto

lemma map_of_bt_insert: "map_of (bt_insert k v m) = (map_of m)(k \<mapsto> v)"
  by (induction k v m rule: bt_insert.induct) (auto simp: fun_eq_iff)

lemma map_of_bt_remove: "map_of (bt_remove k m) = (map_of m)(k := None)"
  unfolding bt_remove_def by (induction m) (auto simp: fun_eq_iff)

interpretation bt: ordered_map map_of bt_insert bt_remove "\<lambda>m. m" bt_ok
  by unfold_locales
    (simp_all add: map_of_bt_insert map_of_bt_remove bt_ok_insert bt_ok_remove bt_ok_def[THEN iffD1])

lemma bt_ok_collect: "bt_ok m \<Longrightarrow> bt_ok (bt_collect xs m)"
  by (induction xs m rule: bt_collect.induct) (auto simp: bt_ok_insert)

lemma map_of_bt_collect: "map_of (bt_collect xs m) = map_of m ++ map_of (rev xs)"
  by (induction xs m rule: bt_collect.induct) (auto simp: map_of_bt_insert fun_eq_iff map_add_def split: option.splits)

lemma map_of_collect_distinct: "distinct (map fst xs) \<Longrightarrow> map_of (bt_collect xs m) = map_of m ++ map_of xs"
proof -
  assume "distinct (map fst xs)"
  then have "map_of (rev xs) = map_of xs" by (intro map_of_eqI) (auto simp: rev_map[symmetric])
  then show ?thesis by (simp add: map_of_bt_collect)
qed

lemma bt_remove_fresh: "k \<notin> fst ` set m \<Longrightarrow> bt_remove k m = m"
  unfolding bt_remove_def by (induction m) auto

lemma bt_remove_insert_fresh: "k \<notin> fst ` set m \<Longrightarrow> bt_remove k (bt_insert k v m) = m"
proof (induction k v m rule: bt_insert.induct)
  case (2 k v k' v' m)
  then show ?case by (auto simp: bt_remove_def) (auto intro: filter_True)
qed (simp add: bt_remove_def)

lemma bt_insert_twice: "bt_insert k w (bt_insert k v m) = bt_insert k w m"
  by (induction k v m rule: bt_insert.induct) auto

lemma bt_ok_below: "bt_ok m \<Longrightarrow> bt_ok (bt_below hi m)"
  by (simp add: bt_below_def bt_ok_filter)

lemma map_of_bt_below: "map_of (bt_below hi m) k = (if k < hi then map_of m k else None)"
  unfolding bt_below_def by (induction m) auto

text \<open>Two sorted tables with the same lookups are equal.\<close>

lemma bt_ext:
  assumes "bt_ok m" "bt_ok m'" "map_of m = map_of m'"
  shows "m = m'"
proof -
  have "set m = set m'"
    using bt.get_iff_ents[OF assms(1)] bt.get_iff_ents[OF assms(2)] assms(3) by auto
  moreover have "inj_on fst (set m \<union> set m)"
    using bt.ents_distinct[OF assms(1)] by (simp add: distinct_map)
  ultimately show ?thesis
    using assms(1,2) unfolding bt_ok_def strict_sorted_iff
    by (intro map_sorted_distinct_set_unique[where f = fst]) simp_all
qed

end
