(* ===== verification/Delta_Op.thy ===== *)
theory Delta_Op
  imports Prelude
begin

text \<open>
  The delta operations of \<^verbatim>\<open>aptos-aggregator/src/delta_change_set.rs\<close>: the guarded addition and
  subtraction, \<open>DeltaOp\<close> with its history, application to a base value, merging of two
  deltas, materialisation against a state view, and \<open>DeltaChangeSet\<close>.

  Code outside the repository appears as parameters: the BCS codec (\<open>bcs\<close>), the state view
  (\<open>get_state_value\<close>), the constructors of \<open>VMStatus\<close> (\<open>vm_error\<close>, \<open>into_vm_status\<close>) and
  \<open>WriteSetMut::new\<close>.  \<open>WriteOp\<close> is used by the source through its three constructors only.
\<close>

section \<open>Guarded arithmetic\<close>

definition EADD_OVERFLOW :: u64 where
  "EADD_OVERFLOW = 0x020001"

definition ESUB_UNDERFLOW :: u64 where
  "ESUB_UNDERFLOW = 0x020002"

definition abort_error :: "string \<Rightarrow> u64 \<Rightarrow> partial_vm_error" where
  "abort_error msg code =
     \<lparr>major_status = ABORTED, message = Some msg, sub_status = Some code\<rparr>"

definition addition :: "u128 \<Rightarrow> u128 \<Rightarrow> u128 \<Rightarrow> (u128, partial_vm_error) result" where
  "addition base value limit =
     (if limit < base \<or> value > limit - base
      then Err (abort_error
                  (''overflow when adding '' @ show_nat (unat value) @ '' to '' @ show_nat (unat base))
                  EADD_OVERFLOW)
      else Ok (base + value))"

definition subtraction :: "u128 \<Rightarrow> u128 \<Rightarrow> (u128, partial_vm_error) result" where
  "subtraction base value =
     (if value > base
      then Err (abort_error
                  (''underflow when subtracting '' @ show_nat (unat value) @ '' from '' @ show_nat (unat base))
                  ESUB_UNDERFLOW)
      else Ok (base - value))"

section \<open>DeltaOp\<close>

datatype delta_update = Plus u128 | Minus u128

record delta_op =
  op_max_positive :: u128
  op_min_negative :: u128
  op_limit :: u128
  op_update :: delta_update

definition delta_new :: "delta_update \<Rightarrow> u128 \<Rightarrow> u128 \<Rightarrow> u128 \<Rightarrow> delta_op" where
  "delta_new update limit max_positive min_negative =
     \<lparr>op_max_positive = max_positive, op_min_negative = min_negative,
      op_limit = limit, op_update = update\<rparr>"

definition get_update :: "delta_op \<Rightarrow> delta_update" where
  "get_update self = op_update self"

definition apply_to :: "delta_op \<Rightarrow> u128 \<Rightarrow> (u128, partial_vm_error) result" where
  "apply_to self base =
     bind_ok (addition base (op_max_positive self) (op_limit self)) (\<lambda>_.
     bind_ok (subtraction base (op_min_negative self)) (\<lambda>_.
     case op_update self of
       Plus value \<Rightarrow> addition base value (op_limit self)
     | Minus value \<Rightarrow> subtraction base value))"

definition shifted_max_positive_by :: "delta_op \<Rightarrow> delta_op \<Rightarrow> (u128, partial_vm_error) result" where
  "shifted_max_positive_by self delta =
     (case op_update delta of
        Plus value \<Rightarrow> addition value (op_max_positive self) (op_limit self)
      | Minus value \<Rightarrow> Ok (unwrap_or (subtraction (op_max_positive self) value) 0))"

definition shifted_min_negative_by :: "delta_op \<Rightarrow> delta_op \<Rightarrow> (u128, partial_vm_error) result" where
  "shifted_min_negative_by self delta =
     (case op_update delta of
        Plus value \<Rightarrow> Ok (unwrap_or (subtraction (op_min_negative self) value) 0)
      | Minus value \<Rightarrow> addition value (op_min_negative self) (op_limit self))"

text \<open>The two local macros of \<open>merge_onto\<close>.\<close>

definition update_same_sign ::
  "(u128 \<Rightarrow> delta_update) \<Rightarrow> u128 \<Rightarrow> u128 \<Rightarrow> u128 \<Rightarrow> (delta_update, partial_vm_error) result" where
  "update_same_sign sign limit a b = map_ok sign (addition a b limit)"

definition update_different_sign :: "u128 \<Rightarrow> u128 \<Rightarrow> (delta_update, partial_vm_error) result" where
  "update_different_sign a b =
     (if a \<ge> b then map_ok Plus (subtraction a b) else map_ok Minus (subtraction b a))"

text \<open>The \<open>match\<close> on the two signs.\<close>

definition merged_update :: "delta_op \<Rightarrow> delta_op \<Rightarrow> (delta_update, partial_vm_error) result" where
  "merged_update self previous_delta =
     (case op_update previous_delta of
        Plus prev_value \<Rightarrow>
          (case op_update self of
             Plus self_value \<Rightarrow> update_same_sign Plus (op_limit self) prev_value self_value
           | Minus self_value \<Rightarrow> update_different_sign prev_value self_value)
      | Minus prev_value \<Rightarrow>
          (case op_update self of
             Plus self_value \<Rightarrow> update_different_sign self_value prev_value
           | Minus self_value \<Rightarrow> update_same_sign Minus (op_limit self) prev_value self_value))"

text \<open>
  \<open>self.merge_onto(previous)\<close> mutates \<open>self\<close> only after every fallible step has succeeded, so the
  result is the new \<open>self\<close> or the error with \<open>self\<close> unchanged.
\<close>

definition merge_onto :: "delta_op \<Rightarrow> delta_op \<Rightarrow> (delta_op, partial_vm_error) result" where
  "merge_onto self previous_delta =
     bind_ok (shifted_max_positive_by self previous_delta) (\<lambda>shifted_max_positive.
     bind_ok (shifted_min_negative_by self previous_delta) (\<lambda>shifted_min_negative.
     bind_ok (merged_update self previous_delta) (\<lambda>update.
     Ok (self\<lparr>op_update := update,
              op_max_positive := max (op_max_positive previous_delta) shifted_max_positive,
              op_min_negative := max (op_min_negative previous_delta) shifted_min_negative\<rparr>))))"

text \<open>\<open>impl Debug for DeltaOp\<close>.\<close>

definition delta_fmt :: "delta_op \<Rightarrow> string" where
  "delta_fmt self =
     (let tail = '' ensures 0 <= result <= '' @ show_nat (unat (op_limit self)) @ '', range [-''
                 @ show_nat (unat (op_min_negative self)) @ '', ''
                 @ show_nat (unat (op_max_positive self)) @ '']''
      in case op_update self of
           Plus value \<Rightarrow> ''+'' @ show_nat (unat value) @ tail
         | Minus value \<Rightarrow> ''-'' @ show_nat (unat value) @ tail)"

definition delta_sub :: "u128 \<Rightarrow> u128 \<Rightarrow> delta_op" where
  "delta_sub v limit = delta_new (Minus v) limit 0 v"

definition delta_add :: "u128 \<Rightarrow> u128 \<Rightarrow> delta_op" where
  "delta_add v limit = delta_new (Plus v) limit v 0"

section \<open>Serialisation and materialisation\<close>

text \<open>\<open>bcs::to_bytes\<close> and \<open>bcs::from_bytes\<close> at type \<open>u128\<close>; \<open>None\<close> is their error.\<close>

record bcs_codec =
  to_bytes :: "u128 \<Rightarrow> bytes option"
  from_bytes :: "bytes \<Rightarrow> u128 option"

text \<open>Both helpers \<open>expect\<close> success: \<open>None\<close> is the panic.\<close>

definition serialize :: "bcs_codec \<Rightarrow> u128 \<Rightarrow> bytes option" where
  "serialize bcs value = to_bytes bcs value"

definition deserialize :: "bcs_codec \<Rightarrow> bytes \<Rightarrow> u128 option" where
  "deserialize bcs value_bytes = from_bytes bcs value_bytes"

datatype write_op = Creation bytes | Modification bytes | Deletion

definition try_into_write_op ::
  "bcs_codec \<Rightarrow> (status_code \<Rightarrow> 's) \<Rightarrow> (partial_vm_error \<Rightarrow> 's) \<Rightarrow>
   delta_op \<Rightarrow> ('k \<Rightarrow> (bytes option, 'se) result) \<Rightarrow> 'k \<Rightarrow> (write_op, 's) result option" where
  "try_into_write_op bcs vm_error into_vm_status self get_state_value state_key =
     (case get_state_value state_key of
        Err _ \<Rightarrow> Some (Err (vm_error STORAGE_ERROR))
      | Ok None \<Rightarrow> Some (Err (vm_error STORAGE_ERROR))
      | Ok (Some bs) \<Rightarrow>
          do { base \<leftarrow> deserialize bcs bs;
               case apply_to self base of
                 Err partial_error \<Rightarrow> Some (Err (into_vm_status partial_error))
               | Ok r \<Rightarrow> do { out \<leftarrow> serialize bcs r; Some (Ok (Modification out)) } })"

section \<open>DeltaChangeSet\<close>

type_synonym 'k delta_change_set = "('k, delta_op) btree"

definition dcs_empty :: "'k::linorder delta_change_set" where
  "dcs_empty = []"

definition dcs_len :: "'k::linorder delta_change_set \<Rightarrow> nat" where
  "dcs_len s = length s"

definition dcs_new :: "('k::linorder \<times> delta_op) list \<Rightarrow> 'k delta_change_set" where
  "dcs_new xs = bt_collect xs []"

definition dcs_insert :: "'k::linorder delta_change_set \<Rightarrow> 'k \<times> delta_op \<Rightarrow> 'k delta_change_set" where
  "dcs_insert s delta = bt_insert (fst delta) (snd delta) s"

definition dcs_remove :: "'k::linorder delta_change_set \<Rightarrow> 'k \<Rightarrow> delta_op option \<times> 'k delta_change_set" where
  "dcs_remove s key = (map_of s key, bt_remove key s)"

definition dcs_is_empty :: "'k::linorder delta_change_set \<Rightarrow> bool" where
  "dcs_is_empty s = (s = [])"

text \<open>The loop of \<open>try_into_write_set_mut\<close>: stops at the first error.\<close>

fun materialize_loop ::
  "('k \<Rightarrow> delta_op \<Rightarrow> (write_op, 's) result option) \<Rightarrow> ('k \<times> delta_op) list \<Rightarrow>
   ('k \<times> write_op) list \<Rightarrow> (('k \<times> write_op) list, 's) result option" where
  "materialize_loop f [] acc = Some (Ok acc)"
| "materialize_loop f ((state_key, delta_op) # rest) acc =
     (case f state_key delta_op of
        None \<Rightarrow> None
      | Some (Err e) \<Rightarrow> Some (Err e)
      | Some (Ok write_op) \<Rightarrow> materialize_loop f rest (acc @ [(state_key, write_op)]))"

definition try_into_write_set_mut ::
  "bcs_codec \<Rightarrow> (status_code \<Rightarrow> 's) \<Rightarrow> (partial_vm_error \<Rightarrow> 's) \<Rightarrow> (('k \<times> write_op) list \<Rightarrow> 'ws) \<Rightarrow>
   'k::linorder delta_change_set \<Rightarrow> ('k \<Rightarrow> (bytes option, 'se) result) \<Rightarrow> ('ws, 's) result option" where
  "try_into_write_set_mut bcs vm_error into_vm_status write_set_mut_new self get_state_value =
     map_option (map_ok write_set_mut_new)
       (materialize_loop
          (\<lambda>key d. try_into_write_op bcs vm_error into_vm_status d get_state_value key) self [])"

section \<open>Sequences of deltas\<close>

text \<open>
  Applying a list of deltas from the first to the last, and accumulating the deltas below an
  accumulator (listed from the nearest downwards), over any application and merge operation.
\<close>

fun seq_apply :: "('d \<Rightarrow> 'b \<Rightarrow> 'b option) \<Rightarrow> 'd list \<Rightarrow> 'b \<Rightarrow> 'b option" where
  "seq_apply act [] b = Some b"
| "seq_apply act (d # ds) b = Option.bind (act d b) (seq_apply act ds)"

fun merge_down :: "('d \<Rightarrow> 'd \<Rightarrow> 'd option) \<Rightarrow> 'd \<Rightarrow> 'd list \<Rightarrow> 'd option" where
  "merge_down mrg acc [] = Some acc"
| "merge_down mrg acc (d # ds) = Option.bind (mrg acc d) (\<lambda>a. merge_down mrg a ds)"

lemma seq_apply_append: "seq_apply act (ds @ es) b = Option.bind (seq_apply act ds b) (seq_apply act es)"
  by (induction ds arbitrary: b) (auto split: bind_split)

lemma bind_seq_apply_Nil [simp]: "Option.bind x (seq_apply act []) = x"
  by (cases x) auto

lemma seq_apply_single [simp]: "seq_apply act [d] = act d"
  by (rule ext) simp

text \<open>
  The interface a reader of deltas relies on: merging composes, within a compatibility relation
  that merging keeps.
\<close>

locale delta_action =
  fixes act :: "'d \<Rightarrow> 'b \<Rightarrow> 'b option"
    and mrg :: "'d \<Rightarrow> 'd \<Rightarrow> 'd option"
    and compat :: "'d \<Rightarrow> 'd \<Rightarrow> bool"
  assumes mrg_act: "compat e d \<Longrightarrow> Option.bind (mrg d e) (\<lambda>f. act f b) = Option.bind (act e b) (act d)"
    and compat_mrg: "compat e d \<Longrightarrow> mrg d e = Some f \<Longrightarrow> compat g d \<Longrightarrow> compat g f"
begin

lemma merge_down_compose:
  "(\<forall>e \<in> set ds. compat e acc) \<Longrightarrow>
   Option.bind (merge_down mrg acc ds) (\<lambda>f. act f b) = seq_apply act (rev ds @ [acc]) b"
proof (induction ds arbitrary: acc)
  case Nil
  show ?case by simp
next
  case (Cons d ds)
  show ?case
  proof (cases "mrg acc d")
    case None
    then have "Option.bind (act d b') (act acc) = None" for b'
      using mrg_act[of d acc b'] Cons.prems by simp
    then show ?thesis
      using None by (cases "seq_apply act (rev ds) b") (simp_all add: seq_apply_append)
  next
    case (Some f)
    have "\<forall>e \<in> set ds. compat e f"
      using Cons.prems compat_mrg[OF _ Some] by auto
    then have "Option.bind (merge_down mrg acc (d # ds)) (\<lambda>f. act f b) = seq_apply act (rev ds @ [f]) b"
      using Some Cons.IH by simp
    also have "\<dots> = seq_apply act (rev (d # ds) @ [acc]) b"
      using mrg_act[of d acc] Cons.prems Some
      by (cases "seq_apply act (rev ds) b") (simp_all add: seq_apply_append)
    finally show ?thesis .
  qed
qed

text \<open>Associativity: the two ways to merge three deltas act alike on every base.\<close>

lemma mrg_assoc:
  assumes "compat d1 d2" "compat d2 d3" "compat d1 d3"
    and d: "mrg d3 d2 = Some e" "mrg e d1 = Some f"
    and e: "mrg d2 d1 = Some e'" "mrg d3 e' = Some f'" "compat e' d3"
  shows "act f b = act f' b"
proof -
  have "act f b = Option.bind (act d1 b) (act e)"
    using mrg_act[of d1 e b] compat_mrg[OF assms(2) d(1) assms(3)] d(2) by simp
  also have "\<dots> = Option.bind (act d1 b) (\<lambda>x. Option.bind (act d2 x) (act d3))"
    using mrg_act[OF assms(2)] d(1) by (cases "act d1 b") simp_all
  also have "\<dots> = Option.bind (act e' b) (act d3)"
    using mrg_act[OF assms(1), of b] e(1) by (simp add: bind_assoc)
  also have "\<dots> = act f' b"
    using mrg_act[OF e(3), of b] e(2) by simp
  finally show ?thesis .
qed

end

section \<open>Guarded arithmetic computes exactly or fails\<close>

lemma addition_guard:
  "(limit < base \<or> value > limit - base) \<longleftrightarrow> \<not> uint base + uint value \<le> uint limit"
  for limit base "value" :: u128
proof (cases "uint base \<le> uint limit")
  case True
  then show ?thesis
    using uint_sub_le[of base limit] unfolding word_less_def by linarith
next
  case False
  then show ?thesis
    using uint_ge_0_lt[of "value"] unfolding word_less_def by linarith
qed

lemma addition_Ok [result_rules]:
  "addition base value limit = Ok r \<longleftrightarrow>
     uint base + uint value \<le> uint limit \<and> uint r = uint base + uint value"
  unfolding addition_def addition_guard
  by (auto simp: uint_eq_iff uint_add_le)

lemma is_ok_addition [result_rules]:
  "is_ok (addition base value limit) \<longleftrightarrow> uint base + uint value \<le> uint limit"
  unfolding addition_def addition_guard by auto

lemma subtraction_Ok [result_rules]:
  "subtraction base value = Ok r \<longleftrightarrow>
     uint value \<le> uint base \<and> uint r = uint base - uint value"
  using uint_sub_le[of "value" base]
  by (auto simp: subtraction_def word_less_def not_less uint_eq_iff)

lemma is_ok_subtraction [result_rules]: "is_ok (subtraction base value) \<longleftrightarrow> uint value \<le> uint base"
  by (auto simp: subtraction_def word_less_def not_less)

lemma unwrap_or_subtraction:
  "uint (unwrap_or (subtraction base value) 0) = max 0 (uint base - uint value)"
  using uint_sub_le[of "value" base]
  by (auto simp: subtraction_def word_less_def not_less max_def)

section \<open>What a delta means: a partial function on integers\<close>

text \<open>
  The specification of a delta: it shifts a base by a signed offset, and is defined exactly on the
  bases from which the whole recorded excursion \<open>[-min_negative, +max_positive]\<close> and the result
  itself stay within \<open>[0, limit]\<close>.
\<close>

fun signed_offset :: "delta_update \<Rightarrow> int" where
  "signed_offset (Plus v) = uint v"
| "signed_offset (Minus v) = - uint v"

definition delta_sem :: "delta_op \<Rightarrow> int \<Rightarrow> int option" where
  "delta_sem d b =
     (if b + uint (op_max_positive d) \<le> uint (op_limit d) \<and> uint (op_min_negative d) \<le> b \<and>
         0 \<le> b + signed_offset (op_update d) \<and> b + signed_offset (op_update d) \<le> uint (op_limit d)
      then Some (b + signed_offset (op_update d)) else None)"

lemma apply_to_Ok:
  "apply_to d base = Ok r \<longleftrightarrow> delta_sem d (uint base) = Some (uint r)"
proof (cases "op_update d")
  case (Plus v)
  then show ?thesis
    unfolding apply_to_def delta_sem_def bind_ok_const_eq_Ok is_ok_addition is_ok_subtraction
    by (auto simp: addition_Ok)
next
  case (Minus v)
  then show ?thesis
    unfolding apply_to_def delta_sem_def bind_ok_const_eq_Ok is_ok_addition is_ok_subtraction
    by (auto simp: subtraction_Ok)
      (use uint_ge_0_lt[of "op_max_positive d"] uint_ge_0_lt[of v] in linarith)
qed

lemma delta_sem_range: "delta_sem d b = Some r \<Longrightarrow> 0 \<le> r \<and> r \<le> uint (op_limit d)"
  by (auto simp: delta_sem_def split: if_splits)

lemma apply_to_refines: "map_option uint (ok (apply_to d base)) = delta_sem d (uint base)"
proof (cases "delta_sem d (uint base)")
  case None
  then have "apply_to d base \<noteq> Ok r" for r by (simp add: apply_to_Ok)
  then have "ok (apply_to d base) = None" by (cases "apply_to d base") auto
  with None show ?thesis by simp
next
  case (Some r)
  then have "0 \<le> r \<and> r < 2 ^ 128"
    using delta_sem_range[OF Some] uint_ge_0_lt[of "op_limit d"] by auto
  then have "uint (word_of_int r :: u128) = r" by (simp add: uint_word_of_int_eq take_bit_int_eq_self)
  with Some have "apply_to d base = Ok (word_of_int r)" by (simp add: apply_to_Ok)
  with Some \<open>uint (word_of_int r :: u128) = r\<close> show ?thesis by simp
qed

lemma apply_to_refines_bind:
  "map_option uint (Option.bind (ok (apply_to d base)) (\<lambda>b. ok (apply_to d' b))) =
   Option.bind (delta_sem d (uint base)) (delta_sem d')"
  by (cases "ok (apply_to d base)") (simp_all add: apply_to_refines flip: apply_to_refines[of d base])

lemma map_option_uint_inj: "map_option uint x = map_option uint y \<longleftrightarrow> x = (y :: 'a::len word option)"
  by (cases x; cases y) (auto simp: uint_eq_iff)

section \<open>Merging is sequential composition\<close>

lemma shifted_max_positive_by_Ok:
  "shifted_max_positive_by self prev = Ok r \<longleftrightarrow>
     uint r = max 0 (uint (op_max_positive self) + signed_offset (op_update prev)) \<and>
     (\<forall>v. op_update prev = Plus v \<longrightarrow> uint (op_max_positive self) + uint v \<le> uint (op_limit self))"
  by (cases "op_update prev")
    (auto simp: shifted_max_positive_by_def addition_Ok uint_eq_iff unwrap_or_subtraction add.commute)

lemma shifted_min_negative_by_Ok:
  "shifted_min_negative_by self prev = Ok r \<longleftrightarrow>
     uint r = max 0 (uint (op_min_negative self) - signed_offset (op_update prev)) \<and>
     (\<forall>v. op_update prev = Minus v \<longrightarrow> uint (op_min_negative self) + uint v \<le> uint (op_limit self))"
  by (cases "op_update prev")
    (auto simp: shifted_min_negative_by_def addition_Ok uint_eq_iff unwrap_or_subtraction add.commute)

lemma update_different_sign_Ok:
  "\<exists>u. update_different_sign a b = Ok u \<and> signed_offset u = uint a - uint b"
  using uint_sub_le[of a b] uint_sub_le[of b a]
  by (auto simp: update_different_sign_def subtraction_def word_less_def word_le_def not_le not_less)

lemma merged_update_offset:
  "merged_update self prev = Ok u \<Longrightarrow>
   signed_offset u = signed_offset (op_update prev) + signed_offset (op_update self)"
proof (cases "op_update prev"; cases "op_update self")
  fix v w
  assume "merged_update self prev = Ok u" "op_update prev = Plus v" "op_update self = Minus w"
  then show ?thesis using update_different_sign_Ok[of v w] by (auto simp: merged_update_def)
next
  fix v w
  assume "merged_update self prev = Ok u" "op_update prev = Minus v" "op_update self = Plus w"
  then show ?thesis using update_different_sign_Ok[of w v] by (auto simp: merged_update_def)
qed (auto simp: merged_update_def update_same_sign_def result_rules)

lemma is_ok_update_different_sign: "is_ok (update_different_sign a b)"
  using update_different_sign_Ok[of a b] by auto

lemma is_ok_merged_update:
  "\<bar>signed_offset (op_update prev) + signed_offset (op_update self)\<bar> \<le> uint (op_limit self) \<Longrightarrow>
   is_ok (merged_update self prev)"
  by (cases "op_update prev"; cases "op_update self")
    (auto simp: merged_update_def update_same_sign_def is_ok_addition is_ok_update_different_sign)

lemma merge_onto_Ok:
  "merge_onto self prev = Ok d \<longleftrightarrow>
     (\<exists>hi lo u. shifted_max_positive_by self prev = Ok hi \<and> shifted_min_negative_by self prev = Ok lo \<and>
        merged_update self prev = Ok u \<and>
        d = self\<lparr>op_update := u, op_max_positive := max (op_max_positive prev) hi,
                 op_min_negative := max (op_min_negative prev) lo\<rparr>)"
  unfolding merge_onto_def by (auto simp: bind_ok_eq_Ok)

lemma uint_max: "uint (max a b) = max (uint a) (uint b)" for a b :: "'a::len word"
  by (simp add: max_def word_le_def)

lemma merge_onto_limit: "merge_onto self prev = Ok d \<Longrightarrow> op_limit d = op_limit self"
  by (auto simp: merge_onto_Ok)

text \<open>The integer core: the excursion of a composition is the hull of the two excursions.\<close>

lemma window_compose:
  fixes b L :: int
  assumes "0 \<le> M1" "0 \<le> m1" "0 \<le> M2" "0 \<le> m2"
  shows "(b + max M1 (max 0 (M2 + s1)) \<le> L \<and> max m1 (max 0 (m2 - s1)) \<le> b \<and>
          0 \<le> b + (s1 + s2) \<and> b + (s1 + s2) \<le> L) \<longleftrightarrow>
         (b + M1 \<le> L \<and> m1 \<le> b \<and> 0 \<le> b + s1 \<and> b + s1 \<le> L) \<and>
         (b + s1 + M2 \<le> L \<and> m2 \<le> b + s1 \<and> 0 \<le> b + s1 + s2 \<and> b + s1 + s2 \<le> L)"
  using assms by linarith

lemma delta_sem_merged:
  assumes m: "merge_onto self prev = Ok d" and l: "op_limit prev = op_limit self"
  shows "delta_sem d b = Option.bind (delta_sem prev b) (delta_sem self)"
proof -
  from m obtain hi lo u where h: "shifted_max_positive_by self prev = Ok hi"
    "shifted_min_negative_by self prev = Ok lo" "merged_update self prev = Ok u"
    "d = self\<lparr>op_update := u, op_max_positive := max (op_max_positive prev) hi,
             op_min_negative := max (op_min_negative prev) lo\<rparr>"
    by (auto simp: merge_onto_Ok)
  let ?o = "signed_offset (op_update prev)"
  have "signed_offset u = ?o + signed_offset (op_update self)"
    using h(3) by (rule merged_update_offset)
  moreover have "uint hi = max 0 (uint (op_max_positive self) + ?o)"
    "uint lo = max 0 (uint (op_min_negative self) - ?o)"
    using h(1,2) by (simp_all add: shifted_max_positive_by_Ok shifted_min_negative_by_Ok)
  ultimately show ?thesis
    using l window_compose[of "uint (op_max_positive prev)" "uint (op_min_negative prev)"
        "uint (op_max_positive self)" "uint (op_min_negative self)" b ?o "uint (op_limit self)"
        "signed_offset (op_update self)"]
    unfolding delta_sem_def h(4) by (simp add: uint_max add.assoc)
qed

lemma sequential_implies_mergeable:
  assumes s: "Option.bind (delta_sem prev b) (delta_sem self) = Some r" and l: "op_limit prev = op_limit self"
  shows "is_ok (merge_onto self prev)"
proof -
  note nonneg = uint_ge_0_lt[of "op_max_positive prev"] uint_ge_0_lt[of "op_min_negative prev"]
  have w: "b + uint (op_max_positive prev) \<le> uint (op_limit self)" "uint (op_min_negative prev) \<le> b"
    "b + signed_offset (op_update prev) + uint (op_max_positive self) \<le> uint (op_limit self)"
    "uint (op_min_negative self) \<le> b + signed_offset (op_update prev)"
    "0 \<le> b + signed_offset (op_update prev) + signed_offset (op_update self)"
    "b + signed_offset (op_update prev) + signed_offset (op_update self) \<le> uint (op_limit self)"
    using s l by (auto simp: delta_sem_def split: if_splits bind_splits)
  have "is_ok (shifted_max_positive_by self prev) \<and> is_ok (shifted_min_negative_by self prev)"
  proof (cases "op_update prev")
    case (Plus v)
    then have "uint v + uint (op_max_positive self) \<le> uint (op_limit self)"
      using w(2,3) nonneg unfolding signed_offset.simps Plus by linarith
    with Plus show ?thesis
      by (simp add: shifted_max_positive_by_def shifted_min_negative_by_def is_ok_addition)
  next
    case (Minus v)
    then have "uint v + uint (op_min_negative self) \<le> uint (op_limit self)"
      using w(1,4) nonneg unfolding signed_offset.simps Minus by linarith
    with Minus show ?thesis
      by (simp add: shifted_max_positive_by_def shifted_min_negative_by_def is_ok_addition)
  qed
  moreover have "is_ok (merged_update self prev)"
    using w nonneg by (intro is_ok_merged_update) linarith
  ultimately show ?thesis
    by (auto simp: is_ok_iff merge_onto_def)
qed

lemma merge_onto_composes:
  assumes "op_limit prev = op_limit self"
  shows "Option.bind (ok (merge_onto self prev)) (\<lambda>d. ok (apply_to d base)) =
         Option.bind (ok (apply_to prev base)) (\<lambda>b. ok (apply_to self b))"
proof (cases "merge_onto self prev")
  case (Ok d)
  have "map_option uint (ok (apply_to d base)) =
        map_option uint (Option.bind (ok (apply_to prev base)) (\<lambda>b. ok (apply_to self b)))"
    using delta_sem_merged[OF Ok assms, of "uint base"]
    by (simp add: apply_to_refines apply_to_refines_bind)
  with Ok show ?thesis by (simp add: map_option_uint_inj)
next
  case (Err e)
  then have "Option.bind (delta_sem prev (uint base)) (delta_sem self) = None"
    using sequential_implies_mergeable[of prev "uint base" self] assms
    by (metis is_ok.simps(2) option.exhaust)
  then show ?thesis
    using Err apply_to_refines_bind[of prev base self] by simp
qed

text \<open>
  C18. Merging two deltas with the same limit is sequential composition: for every base value, the
  merge succeeds and its result applies to the base with value \<open>r\<close> exactly when applying the
  earlier delta and then the later one succeeds with value \<open>r\<close>.  So when the merge fails, the
  sequence succeeds on no base.
\<close>

theorem merge_onto_is_composition:
  assumes "op_limit prev = op_limit self"
  shows "Option.bind (ok (merge_onto self prev)) (\<lambda>d. ok (apply_to d base)) =
         Option.bind (ok (apply_to prev base)) (\<lambda>b. ok (apply_to self b))"
  using assms by (rule merge_onto_composes)

theorem merge_onto_is_composition_witness:
  "op_limit (delta_add 2 100) = op_limit (delta_sub 5 100) \<and>
   Option.bind (ok (merge_onto (delta_sub 5 100) (delta_add 2 100))) (\<lambda>d. ok (apply_to d 10)) = Some 7"
proof -
  have l: "op_limit (delta_add 2 100) = op_limit (delta_sub 5 100)"
    by (simp add: delta_add_def delta_sub_def delta_new_def)
  have "Option.bind (ok (apply_to (delta_add 2 100) 10)) (\<lambda>b. ok (apply_to (delta_sub 5 100) b)) = Some 7"
    by (simp add: delta_add_def delta_sub_def delta_new_def apply_to_def addition_def subtraction_def)
  with l show ?thesis by (simp add: merge_onto_is_composition)
qed

interpretation dop: delta_action "\<lambda>d b. ok (apply_to d b)" "\<lambda>d e. ok (merge_onto d e)"
  "\<lambda>d e. op_limit d = op_limit e"
  by unfold_locales (auto simp: merge_onto_composes merge_onto_limit ok_eq_Some)

section \<open>Histories: when a delta applies\<close>

text \<open>
  The invariant of every delta the program builds: the final offset lies within the recorded
  excursion.  It is kept by merging, and under it the two history checks decide application.
\<close>

definition delta_wf :: "delta_op \<Rightarrow> bool" where
  "delta_wf d \<longleftrightarrow> - uint (op_min_negative d) \<le> signed_offset (op_update d) \<and>
                   signed_offset (op_update d) \<le> uint (op_max_positive d)"

lemma delta_wf_add [simp]: "delta_wf (delta_add v limit)"
  by (simp add: delta_wf_def delta_add_def delta_new_def)

lemma delta_wf_sub [simp]: "delta_wf (delta_sub v limit)"
  by (simp add: delta_wf_def delta_sub_def delta_new_def)

lemma merge_onto_wf:
  assumes "merge_onto self prev = Ok d" "delta_wf self" "delta_wf prev"
  shows "delta_wf d"
proof -
  from assms(1) obtain hi lo u where h: "shifted_max_positive_by self prev = Ok hi"
    "shifted_min_negative_by self prev = Ok lo" "merged_update self prev = Ok u"
    "d = self\<lparr>op_update := u, op_max_positive := max (op_max_positive prev) hi,
             op_min_negative := max (op_min_negative prev) lo\<rparr>"
    by (auto simp: merge_onto_Ok)
  have "signed_offset u = signed_offset (op_update prev) + signed_offset (op_update self)"
    using h(3) by (rule merged_update_offset)
  then show ?thesis
    using assms(2,3) h(1,2) unfolding delta_wf_def h(4)
    by (auto simp: uint_max shifted_max_positive_by_Ok shifted_min_negative_by_Ok)
qed

lemma delta_sem_wf:
  assumes "delta_wf d"
  shows "delta_sem d b =
    (if uint (op_min_negative d) \<le> b \<and> b + uint (op_max_positive d) \<le> uint (op_limit d)
     then Some (b + signed_offset (op_update d)) else None)"
  using assms unfolding delta_wf_def delta_sem_def by auto

lemma apply_to_error:
  assumes "delta_wf d"
  shows "apply_to d base = Err e \<Longrightarrow>
    major_status e = ABORTED \<and>
    sub_status e = Some (if uint base + uint (op_max_positive d) > uint (op_limit d)
                         then EADD_OVERFLOW else ESUB_UNDERFLOW)"
proof (cases "uint base + uint (op_max_positive d) \<le> uint (op_limit d) \<and> uint (op_min_negative d) \<le> uint base")
  case True
  then have "\<exists>r. apply_to d base = Ok r"
    using delta_sem_wf[OF assms, of "uint base"] apply_to_refines[of d base]
    by (auto simp: ok_eq_Some)
  moreover assume "apply_to d base = Err e"
  ultimately show ?thesis by simp
next
  case False
  assume "apply_to d base = Err e"
  with False show ?thesis
    unfolding apply_to_def addition_def subtraction_def addition_guard
    by (auto simp: abort_error_def word_less_def not_le split: if_splits)
qed

text \<open>
  C21. For a well-formed delta the recorded history decides everything: application succeeds exactly
  when the base survives the largest excursion upwards and downwards (the final update needs no check of
  its own), the value is the base shifted by the signed update, and a failure is an abort with code
  \<open>EADD_OVERFLOW\<close> when the upward excursion exceeds the limit and \<open>ESUB_UNDERFLOW\<close> otherwise.
\<close>

theorem apply_to_decided_by_history:
  assumes "delta_wf d"
  shows "case apply_to d base of
      Ok r \<Rightarrow> uint (op_min_negative d) \<le> uint base \<and>
              uint base + uint (op_max_positive d) \<le> uint (op_limit d) \<and>
              uint r = uint base + signed_offset (op_update d) \<and> r \<le> op_limit d
    | Err e \<Rightarrow> \<not> (uint (op_min_negative d) \<le> uint base \<and>
                 uint base + uint (op_max_positive d) \<le> uint (op_limit d)) \<and>
        major_status e = ABORTED \<and>
        sub_status e = Some (if uint base + uint (op_max_positive d) > uint (op_limit d)
                             then EADD_OVERFLOW else ESUB_UNDERFLOW)"
proof (cases "apply_to d base")
  case (Ok r)
  then have "delta_sem d (uint base) = Some (uint r)" by (simp add: apply_to_Ok)
  with Ok show ?thesis
    using delta_sem_range[of d "uint base" "uint r"]
    by (auto simp: delta_sem_wf[OF assms] word_le_def split: if_splits)
next
  case (Err e)
  then have "delta_sem d (uint base) = None" using apply_to_refines[of d base] by simp
  with Err show ?thesis
    using apply_to_error[OF assms Err] by (auto simp: delta_sem_wf[OF assms] split: if_splits)
qed

theorem apply_to_decided_by_history_witness:
  "delta_wf (delta_add 5 100) \<and> apply_to (delta_add 5 100) 95 = Ok 100 \<and>
   (\<exists>e. apply_to (delta_add 5 100) 96 = Err e \<and> sub_status e = Some EADD_OVERFLOW)"
proof -
  have "apply_to (delta_add 5 100) 95 = Ok 100"
    by (simp add: delta_add_def delta_new_def apply_to_def addition_def subtraction_def)
  moreover have "\<exists>e. apply_to (delta_add 5 100) 96 = Err e"
    by (simp add: delta_add_def delta_new_def apply_to_def addition_def)
  moreover have "uint (96 :: u128) + uint (op_max_positive (delta_add 5 100)) > uint (op_limit (delta_add 5 100))"
    by (simp add: delta_add_def delta_new_def)
  ultimately show ?thesis
    using apply_to_decided_by_history[OF delta_wf_add, of 5 100 96] by auto
qed

section \<open>Materialisation\<close>

text \<open>
  The documented BCS form of a \<open>u128\<close> (sixteen bytes, least significant first), the instance at
  which facts about the codec parameter are witnessed.
\<close>

fun le_encode :: "nat \<Rightarrow> nat \<Rightarrow> bytes" where
  "le_encode 0 n = []"
| "le_encode (Suc k) n = of_nat (n mod 256) # le_encode k (n div 256)"

fun le_decode :: "bytes \<Rightarrow> nat" where
  "le_decode [] = 0"
| "le_decode (b # bs) = unat b + 256 * le_decode bs"

definition bcs_le128 :: bcs_codec where
  "bcs_le128 = \<lparr>to_bytes = (\<lambda>v. Some (le_encode 16 (unat v))),
               from_bytes = (\<lambda>bs. if length bs = 16 then Some (of_nat (le_decode bs)) else None)\<rparr>"

lemma length_le_encode [simp]: "length (le_encode k n) = k"
  by (induction k arbitrary: n) auto

lemma le_decode_encode: "le_decode (le_encode k n) = n mod 256 ^ k"
proof (induction k arbitrary: n)
  case (Suc k)
  have "n mod 256 mod 256 = n mod (256 :: nat)" by simp
  then have "unat (of_nat (n mod 256) :: u8) = n mod 256" by (simp add: unat_of_nat)
  then show ?case by (simp add: Suc mod_mult2_eq)
qed simp

lemma bcs_le128_roundtrip: "\<exists>bs. to_bytes bcs_le128 v = Some bs \<and> from_bytes bcs_le128 bs = Some v"
proof -
  have "unat v < 256 ^ 16" using unsigned_less[of v] by simp
  then show ?thesis by (simp add: bcs_le128_def le_decode_encode)
qed

lemma bcs_le128_simps [simp]:
  "to_bytes bcs_le128 v = Some (le_encode 16 (unat v))"
  "from_bytes bcs_le128 (le_encode 16 (unat v)) = Some v"
  using bcs_le128_roundtrip[of v] by (auto simp: bcs_le128_def)

text \<open>
  Materialising one delta against a state view, on every branch: a missing value or a failing view
  is a storage error, a failing application is the VM status of that failure, and a success is a
  modification that decodes to the applied value.  The only panic left is a stored value or a
  result that BCS cannot decode or encode.
\<close>

theorem try_into_write_op_branches:
  assumes codec: "\<forall>v. \<exists>bs. to_bytes bcs v = Some bs \<and> from_bytes bcs bs = Some v"
  shows "case view key of
      Err _ \<Rightarrow> try_into_write_op bcs vm_error into_vm_status d view key = Some (Err (vm_error STORAGE_ERROR))
    | Ok None \<Rightarrow> try_into_write_op bcs vm_error into_vm_status d view key = Some (Err (vm_error STORAGE_ERROR))
    | Ok (Some bs) \<Rightarrow>
        (case from_bytes bcs bs of
           None \<Rightarrow> try_into_write_op bcs vm_error into_vm_status d view key = None
         | Some base \<Rightarrow>
            (case apply_to d base of
               Err e \<Rightarrow> try_into_write_op bcs vm_error into_vm_status d view key = Some (Err (into_vm_status e))
             | Ok r \<Rightarrow> \<exists>out. try_into_write_op bcs vm_error into_vm_status d view key =
                             Some (Ok (Modification out)) \<and> from_bytes bcs out = Some r))"
  using codec
  by (auto simp: try_into_write_op_def deserialize_def serialize_def
           split: result.splits option.splits Option.bind_splits)
    (metis option.distinct(1), metis option.inject)

theorem try_into_write_op_branches_witness:
  "(\<forall>v. \<exists>bs. to_bytes bcs_le128 v = Some bs \<and> from_bytes bcs_le128 bs = Some v) \<and>
   (\<exists>out. try_into_write_op bcs_le128 id (\<lambda>_. ABORTED) (delta_add 5 100)
            (\<lambda>k :: nat. Ok (to_bytes bcs_le128 95) :: (bytes option, unit) result) 7 = Some (Ok (Modification out)) \<and>
          from_bytes bcs_le128 out = Some 100)"
proof -
  have rt: "\<forall>v. \<exists>bs. to_bytes bcs_le128 v = Some bs \<and> from_bytes bcs_le128 bs = Some v"
    by (simp add: bcs_le128_roundtrip)
  have b: "from_bytes bcs_le128 (le_encode 16 95) = Some 95"
    using bcs_le128_roundtrip[of 95] by (auto simp: bcs_le128_def)
  have a: "apply_to (delta_add 5 100) 95 = Ok 100"
    by (simp add: delta_add_def delta_new_def apply_to_def addition_def subtraction_def)
  have t: "to_bytes bcs_le128 95 = Some (le_encode 16 95)"
    by (simp add: bcs_le128_def)
  show ?thesis
    using rt a b t
      try_into_write_op_branches[OF rt,
        where view = "\<lambda>k :: nat. Ok (to_bytes bcs_le128 95) :: (bytes option, unit) result"
          and key = 7 and vm_error = id and into_vm_status = "\<lambda>_. ABORTED" and d = "delta_add 5 100"]
    by simp
qed

lemma materialize_loop_acc:
  "materialize_loop f xs acc = Some (Ok ys) \<longleftrightarrow>
   (\<exists>zs. ys = acc @ zs \<and> materialize_loop f xs [] = Some (Ok zs))"
proof (induction xs arbitrary: acc ys)
  case Nil
  show ?case by auto
next
  case (Cons x xs)
  obtain k d where x: "x = (k, d)" by fastforce
  show ?case
  proof (cases "f k d")
    case None
    then show ?thesis by (simp add: x)
  next
    case (Some r)
    then show ?thesis
      using Cons.IH[of "acc @ [(k, w)]" for w] Cons.IH[of "[(k, w)]" for w]
      by (cases r) (auto simp: x)
  qed
qed

lemma materialize_loop_Ok:
  "materialize_loop f xs [] = Some (Ok ys) \<longleftrightarrow>
   list_all2 (\<lambda>(k, d) (k', w). k' = k \<and> f k d = Some (Ok w)) xs ys"
proof (induction xs arbitrary: ys)
  case Nil
  show ?case by auto
next
  case (Cons x xs)
  obtain k d where x: "x = (k, d)" by fastforce
  have "materialize_loop f (x # xs) [] = Some (Ok ys) \<longleftrightarrow>
        (\<exists>w zs. f k d = Some (Ok w) \<and> ys = (k, w) # zs \<and> materialize_loop f xs [] = Some (Ok zs))"
    using materialize_loop_acc[of f xs "[(k, w)]" ys for w]
    by (auto simp: x split: option.splits result.splits)
  then show ?case by (auto simp: x Cons.IH list_all2_Cons1)
qed

text \<open>
  A change set materialises exactly when each of its deltas does, in key order and with one write per
  delta; in particular as many writes as deltas, which \<open>output_with_delta_writes\<close> asserts.
\<close>

theorem try_into_write_set_mut_Ok_iff:
  "try_into_write_set_mut bcs vm_error into_vm_status (\<lambda>ws. ws) self view = Some (Ok ws) \<longleftrightarrow>
   list_all2 (\<lambda>(key, d) (key', w). key' = key \<and>
      try_into_write_op bcs vm_error into_vm_status d view key = Some (Ok w)) self ws"
proof -
  have id: "map_ok (\<lambda>ws. ws) r = r" for r :: "(('a \<times> write_op) list, 'b) result"
    by (cases r) auto
  show ?thesis
    unfolding try_into_write_set_mut_def
    by (simp add: id materialize_loop_Ok case_prod_beta)
qed

end
