(* ===== verification/Aggregator_Ext.thy ===== *)
theory Aggregator_Ext
  imports Delta_Op
begin

text \<open>
  The per-transaction aggregator instances of
  \<^verbatim>\<open>aptos-aggregator/src/aggregator_extension.rs\<close>: \<open>History\<close>, \<open>Aggregator\<close> with
  \<open>add\<close>, \<open>sub\<close> and \<open>read_and_materialize\<close>, and the table \<open>AggregatorData\<close>.  Addresses are their
  256-bit value; \<open>to_vec\<close> (their byte form) and \<open>resolve_table_entry\<close> (the table resolver) are
  parameters.  The main result is that the delta an aggregator accumulates without reading storage
  acts on every stored value exactly as the operations themselves would.
\<close>

section \<open>Definitions\<close>

datatype aggregator_state = Data | PositiveDelta | NegativeDelta

type_synonym address = "256 word"

datatype aggregator_id = AggregatorID (aid_handle: address) (aid_key: address)

text \<open>The derived lexicographic order of \<open>AggregatorID\<close>, which fixes the iteration order.\<close>

instantiation aggregator_id :: linorder
begin

definition less_eq_aggregator_id :: "aggregator_id \<Rightarrow> aggregator_id \<Rightarrow> bool" where
  "less_eq_aggregator_id a b \<longleftrightarrow>
     aid_handle a < aid_handle b \<or> (aid_handle a = aid_handle b \<and> aid_key a \<le> aid_key b)"

definition less_aggregator_id :: "aggregator_id \<Rightarrow> aggregator_id \<Rightarrow> bool" where
  "less_aggregator_id a b \<longleftrightarrow>
     aid_handle a < aid_handle b \<or> (aid_handle a = aid_handle b \<and> aid_key a < aid_key b)"

instance
  by standard
    (auto simp: less_eq_aggregator_id_def less_aggregator_id_def aggregator_id.expand)

end

record history =
  hist_max_positive :: u128
  hist_min_negative :: u128

definition history_new :: history where
  "history_new = \<lparr>hist_max_positive = 0, hist_min_negative = 0\<rparr>"

definition record_positive :: "history \<Rightarrow> u128 \<Rightarrow> history" where
  "record_positive h value = h\<lparr>hist_max_positive := max (hist_max_positive h) value\<rparr>"

definition record_negative :: "history \<Rightarrow> u128 \<Rightarrow> history" where
  "record_negative h value = h\<lparr>hist_min_negative := max (hist_min_negative h) value\<rparr>"

record aggregator =
  agg_value :: u128
  agg_state :: aggregator_state
  agg_limit :: u128
  agg_history :: "history option"

text \<open>\<open>Aggregator::record\<close>; tracking a history in state \<open>Data\<close> is the \<open>unreachable!\<close> branch.\<close>

definition agg_record :: "aggregator \<Rightarrow> aggregator option" where
  "agg_record a =
     (case agg_history a of
        None \<Rightarrow> Some a
      | Some h \<Rightarrow>
          (case agg_state a of
             PositiveDelta \<Rightarrow> Some (a\<lparr>agg_history := Some (record_positive h (agg_value a))\<rparr>)
           | NegativeDelta \<Rightarrow> Some (a\<lparr>agg_history := Some (record_negative h (agg_value a))\<rparr>)
           | Data \<Rightarrow> None))"

text \<open>Run \<open>record\<close> after a successful update of the value.\<close>

fun then_record :: "(aggregator, partial_vm_error) result \<Rightarrow> (aggregator, partial_vm_error) result option" where
  "then_record (Err e) = Some (Err e)"
| "then_record (Ok a) = map_option Ok (agg_record a)"

definition agg_add :: "aggregator \<Rightarrow> u128 \<Rightarrow> (aggregator, partial_vm_error) result option" where
  "agg_add self value =
     (case agg_state self of
        Data \<Rightarrow>
          Some (map_ok (\<lambda>v. self\<lparr>agg_value := v\<rparr>) (addition (agg_value self) value (agg_limit self)))
      | PositiveDelta \<Rightarrow>
          then_record (map_ok (\<lambda>v. self\<lparr>agg_value := v\<rparr>) (addition (agg_value self) value (agg_limit self)))
      | NegativeDelta \<Rightarrow>
          then_record
            (if agg_value self \<le> value
             then map_ok (\<lambda>v. self\<lparr>agg_value := v, agg_state := PositiveDelta\<rparr>)
                    (subtraction value (agg_value self))
             else map_ok (\<lambda>v. self\<lparr>agg_value := v\<rparr>) (subtraction (agg_value self) value)))"

definition agg_sub :: "aggregator \<Rightarrow> u128 \<Rightarrow> (aggregator, partial_vm_error) result option" where
  "agg_sub self value =
     (case agg_state self of
        Data \<Rightarrow>
          Some (map_ok (\<lambda>v. self\<lparr>agg_value := v\<rparr>) (subtraction (agg_value self) value))
      | PositiveDelta \<Rightarrow>
          then_record
            (if agg_value self \<ge> value
             then map_ok (\<lambda>v. self\<lparr>agg_value := v\<rparr>) (subtraction (agg_value self) value)
             else bind_ok (subtraction (agg_limit self) value) (\<lambda>_.
                  map_ok (\<lambda>v. self\<lparr>agg_value := v, agg_state := NegativeDelta\<rparr>)
                    (subtraction value (agg_value self))))
      | NegativeDelta \<Rightarrow>
          then_record (map_ok (\<lambda>v. self\<lparr>agg_value := v\<rparr>) (addition (agg_value self) value (agg_limit self))))"

definition extension_error :: "string \<Rightarrow> partial_vm_error" where
  "extension_error msg = \<lparr>major_status = VM_EXTENSION_ERROR, message = Some msg, sub_status = None\<rparr>"

text \<open>The closure of \<open>read_and_materialize\<close> that resolves the delta against a stored value.\<close>

definition materialize_with ::
  "aggregator \<Rightarrow> u128 \<Rightarrow> (u128 \<times> aggregator, partial_vm_error) result option" where
  "materialize_with self value_from_storage =
     (case agg_history self of
        None \<Rightarrow> None
      | Some h \<Rightarrow>
          (case addition value_from_storage (hist_max_positive h) (agg_limit self) of
             Err e \<Rightarrow> Some (Err e)
           | Ok _ \<Rightarrow>
          (case subtraction value_from_storage (hist_min_negative h) of
             Err e \<Rightarrow> Some (Err e)
           | Ok _ \<Rightarrow>
          (let done = (\<lambda>v. (v, self\<lparr>agg_value := v, agg_state := Data, agg_history := None\<rparr>))
           in case agg_state self of
                PositiveDelta \<Rightarrow>
                  Some (map_ok done (addition value_from_storage (agg_value self) (agg_limit self)))
              | NegativeDelta \<Rightarrow> Some (map_ok done (subtraction value_from_storage (agg_value self)))
              | Data \<Rightarrow> None))))"

definition read_and_materialize ::
  "bcs_codec \<Rightarrow> (address \<Rightarrow> bytes) \<Rightarrow> (address \<Rightarrow> bytes \<Rightarrow> (bytes option, 'e) result) \<Rightarrow>
   aggregator \<Rightarrow> aggregator_id \<Rightarrow> (u128 \<times> aggregator, partial_vm_error) result option" where
  "read_and_materialize bcs to_vec resolve_table_entry self aid =
     (if agg_state self = Data then Some (Ok (agg_value self, self))
      else
        (case resolve_table_entry (aid_handle aid) (to_vec (aid_key aid)) of
           Err _ \<Rightarrow> Some (Err (extension_error ''could not find the value of the aggregator''))
         | Ok None \<Rightarrow> Some (Err (extension_error ''could not find the value of the aggregator''))
         | Ok (Some bs) \<Rightarrow> Option.bind (deserialize bcs bs) (materialize_with self)))"

definition agg_into :: "aggregator \<Rightarrow> u128 \<times> aggregator_state \<times> u128 \<times> history option" where
  "agg_into self = (agg_value self, agg_state self, agg_limit self, agg_history self)"

record aggregator_data =
  new_aggregators :: "aggregator_id set"
  destroyed_aggregators :: "aggregator_id set"
  aggregators :: "(aggregator_id, aggregator) btree"

definition aggregator_data_default :: aggregator_data where
  "aggregator_data_default = \<lparr>new_aggregators = {}, destroyed_aggregators = {}, aggregators = []\<rparr>"

definition delta_aggregator :: "u128 \<Rightarrow> aggregator" where
  "delta_aggregator limit =
     \<lparr>agg_value = 0, agg_state = PositiveDelta, agg_limit = limit, agg_history = Some history_new\<rparr>"

text \<open>
  \<open>get_aggregator\<close> returns a mutable reference into the table: here the instance and the table
  after \<open>or_insert_with\<close>; \<open>put_aggregator\<close> is the write through that reference.
\<close>

definition get_aggregator :: "aggregator_data \<Rightarrow> aggregator_id \<Rightarrow> u128 \<Rightarrow> aggregator \<times> aggregator_data" where
  "get_aggregator self aid limit =
     (case map_of (aggregators self) aid of
        Some a \<Rightarrow> (a, self)
      | None \<Rightarrow>
          (let a = delta_aggregator limit
           in (a, self\<lparr>aggregators := bt_insert aid a (aggregators self)\<rparr>)))"

definition put_aggregator :: "aggregator_data \<Rightarrow> aggregator_id \<Rightarrow> aggregator \<Rightarrow> aggregator_data" where
  "put_aggregator self aid a = self\<lparr>aggregators := bt_insert aid a (aggregators self)\<rparr>"

definition num_aggregators :: "aggregator_data \<Rightarrow> u128" where
  "num_aggregators self = of_nat (length (aggregators self))"

definition create_new_aggregator :: "aggregator_data \<Rightarrow> aggregator_id \<Rightarrow> u128 \<Rightarrow> aggregator_data" where
  "create_new_aggregator self aid limit =
     (let a = \<lparr>agg_value = 0, agg_state = Data, agg_limit = limit, agg_history = None\<rparr>
      in self\<lparr>aggregators := bt_insert aid a (aggregators self),
              new_aggregators := insert aid (new_aggregators self)\<rparr>)"

definition remove_aggregator :: "aggregator_data \<Rightarrow> aggregator_id \<Rightarrow> aggregator_data" where
  "remove_aggregator self aid =
     (let s = self\<lparr>aggregators := bt_remove aid (aggregators self)\<rparr>
      in if aid \<in> new_aggregators s
         then s\<lparr>new_aggregators := new_aggregators s - {aid}\<rparr>
         else s\<lparr>destroyed_aggregators := insert aid (destroyed_aggregators s)\<rparr>)"

definition aggregator_data_into ::
  "aggregator_data \<Rightarrow> aggregator_id set \<times> aggregator_id set \<times> (aggregator_id, aggregator) btree" where
  "aggregator_data_into self = (new_aggregators self, destroyed_aggregators self, aggregators self)"

section \<open>Sequences of aggregator operations\<close>

datatype agg_op = AddOp u128 | SubOp u128

fun agg_step :: "aggregator \<Rightarrow> agg_op \<Rightarrow> (aggregator, partial_vm_error) result option" where
  "agg_step a (AddOp v) = agg_add a v"
| "agg_step a (SubOp v) = agg_sub a v"

fun agg_run :: "aggregator \<Rightarrow> agg_op list \<Rightarrow> (aggregator, partial_vm_error) result option" where
  "agg_run a [] = Some (Ok a)"
| "agg_run a (op # ops) =
     (case agg_step a op of
        Some (Ok a') \<Rightarrow> agg_run a' ops
      | r \<Rightarrow> r)"

text \<open>The integer specification: every intermediate value stays within \<open>[0, L]\<close>.\<close>

fun op_offset :: "agg_op \<Rightarrow> int" where
  "op_offset (AddOp v) = uint v"
| "op_offset (SubOp v) = - uint v"

fun int_run :: "int \<Rightarrow> int \<Rightarrow> agg_op list \<Rightarrow> int option" where
  "int_run L b [] = Some b"
| "int_run L b (op # ops) =
     (let b' = b + op_offset op in if 0 \<le> b' \<and> b' \<le> L then int_run L b' ops else None)"

text \<open>The delta an aggregator in delta state stands for.\<close>

definition agg_offset :: "aggregator \<Rightarrow> int" where
  "agg_offset a = (if agg_state a = NegativeDelta then - uint (agg_value a) else uint (agg_value a))"

section \<open>The type invariant\<close>

definition agg_wf :: "aggregator \<Rightarrow> bool" where
  "agg_wf a \<longleftrightarrow>
     (case agg_history a of
        None \<Rightarrow> agg_state a = Data
      | Some h \<Rightarrow> agg_state a \<noteq> Data \<and> agg_offset a \<le> uint (hist_max_positive h) \<and>
                  - uint (hist_min_negative h) \<le> agg_offset a)"

text \<open>A delta aggregator as a triple of integers: offset, upper and lower excursion.\<close>

definition agg_view :: "aggregator \<Rightarrow> int \<Rightarrow> int \<Rightarrow> int \<Rightarrow> int \<Rightarrow> bool" where
  "agg_view a L s M m \<longleftrightarrow>
     agg_state a \<noteq> Data \<and> uint (agg_limit a) = L \<and> agg_offset a = s \<and>
     (\<exists>h. agg_history a = Some h \<and> uint (hist_max_positive h) = M \<and> uint (hist_min_negative h) = m) \<and>
     s \<le> M \<and> - m \<le> s \<and> 0 \<le> M \<and> 0 \<le> m"

lemma agg_viewI:
  assumes "agg_wf a" "agg_history a = Some h"
  shows "agg_view a (uint (agg_limit a)) (agg_offset a) (uint (hist_max_positive h)) (uint (hist_min_negative h))"
  using assms by (auto simp: agg_view_def agg_wf_def)

lemma agg_view_wf: "agg_view a L s M m \<Longrightarrow> agg_wf a"
  by (auto simp: agg_view_def agg_wf_def)

lemma agg_view_limit: "agg_view a L s M m \<Longrightarrow> uint (agg_limit a) = L"
  by (simp add: agg_view_def)

lemma agg_view_positive:
  assumes "agg_view a L s M m" "agg_history a = Some h"
  shows "agg_view (a\<lparr>agg_value := v, agg_state := PositiveDelta, agg_history := Some (record_positive h v)\<rparr>)
           L (uint v) (max M (uint v)) (max m (- uint v))"
proof -
  have "max m (- uint v) = m"
    using assms(1) uint_ge_0_lt[of v] unfolding agg_view_def by linarith
  with assms show ?thesis
    by (auto simp: agg_view_def record_positive_def agg_offset_def uint_max le_max_iff_disj)
qed

lemma agg_view_negative:
  assumes "agg_view a L s M m" "agg_history a = Some h"
  shows "agg_view (a\<lparr>agg_value := v, agg_state := NegativeDelta, agg_history := Some (record_negative h v)\<rparr>)
           L (- uint v) (max M (- uint v)) (max m (uint v))"
proof -
  have "max M (- uint v) = M"
    using assms(1) uint_ge_0_lt[of v] unfolding agg_view_def by linarith
  with assms show ?thesis
    by (auto simp: agg_view_def record_negative_def agg_offset_def uint_max le_max_iff_disj)
qed

text \<open>
  One operation in delta state: either it succeeds, shifts the offset and widens the excursion, or it
  fails and then no stored value within the excursion so far admits the operation.
\<close>

definition step_ok :: "(aggregator, partial_vm_error) result option \<Rightarrow> int \<Rightarrow> int \<Rightarrow> int \<Rightarrow> int \<Rightarrow> bool" where
  "step_ok r L s' M m \<longleftrightarrow>
     (case r of
        Some (Ok a') \<Rightarrow> agg_view a' L s' (max M s') (max m (- s'))
      | Some (Err e) \<Rightarrow> (\<forall>b. b + M \<le> L \<and> m \<le> b \<longrightarrow> \<not> (0 \<le> b + s' \<and> b + s' \<le> L))
      | None \<Rightarrow> False)"

lemma step_ok_positive:
  assumes "agg_view a L s M m" "agg_history a = Some h" "uint v = s'"
  shows "step_ok (then_record (Ok (a\<lparr>agg_value := v, agg_state := PositiveDelta\<rparr>))) L s' M m"
  using agg_view_positive[OF assms(1,2), of v] assms by (simp add: step_ok_def agg_record_def)

lemma step_ok_negative:
  assumes "agg_view a L s M m" "agg_history a = Some h" "- uint v = s'"
  shows "step_ok (then_record (Ok (a\<lparr>agg_value := v, agg_state := NegativeDelta\<rparr>))) L s' M m"
  using agg_view_negative[OF assms(1,2), of v] assms by (auto simp: step_ok_def agg_record_def)

lemma step_ok_stay_positive:
  assumes "agg_view a L s M m" "agg_history a = Some h" "agg_state a = PositiveDelta" "uint v = s'"
  shows "step_ok (then_record (Ok (a\<lparr>agg_value := v\<rparr>))) L s' M m"
proof -
  have "a\<lparr>agg_value := v\<rparr> = a\<lparr>agg_value := v, agg_state := PositiveDelta\<rparr>"
    using assms(3) by (cases a) simp
  with step_ok_positive[OF assms(1,2,4)] show ?thesis by argo
qed

lemma step_ok_stay_negative:
  assumes "agg_view a L s M m" "agg_history a = Some h" "agg_state a = NegativeDelta" "- uint v = s'"
  shows "step_ok (then_record (Ok (a\<lparr>agg_value := v\<rparr>))) L s' M m"
proof -
  have "a\<lparr>agg_value := v\<rparr> = a\<lparr>agg_value := v, agg_state := NegativeDelta\<rparr>"
    using assms(3) by (cases a) simp
  with step_ok_negative[OF assms(1,2,4)] show ?thesis by argo
qed

lemma step_ok_Err:
  "(\<And>b. b + M \<le> L \<Longrightarrow> m \<le> b \<Longrightarrow> b + s' < 0 \<or> L < b + s') \<Longrightarrow> step_ok (then_record (Err e)) L s' M m"
  by (force simp: step_ok_def not_le)

lemma agg_step_add:
  assumes v: "agg_view a L s M m"
  shows "step_ok (agg_add a n) L (s + uint n) M m"
proof -
  from v obtain h where h: "agg_history a = Some h" by (auto simp: agg_view_def)
  from v have bounds: "s \<le> M" "- m \<le> s" "0 \<le> M" "0 \<le> m" "uint (agg_limit a) = L"
    by (auto simp: agg_view_def)
  consider "agg_state a = PositiveDelta" | "agg_state a = NegativeDelta"
    using v by (cases "agg_state a") (auto simp: agg_view_def)
  then show ?thesis
  proof cases
    case 1
    then have s: "uint (agg_value a) = s" using v by (auto simp: agg_view_def agg_offset_def)
    show ?thesis
    proof (cases "addition (agg_value a) n (agg_limit a)")
      case (Ok r)
      then have "uint r = s + uint n" by (simp add: addition_Ok s)
      with 1 Ok show ?thesis
        unfolding agg_add_def by (simp del: then_record.simps add: step_ok_stay_positive[OF v h])
    next
      case (Err e)
      then have "L < s + uint n" using is_ok_addition[of "agg_value a" n "agg_limit a"] s bounds by simp
      with 1 Err show ?thesis
        unfolding agg_add_def using bounds by (auto intro!: step_ok_Err simp del: then_record.simps)
    qed
  next
    case 2
    then have s: "- uint (agg_value a) = s" using v by (auto simp: agg_view_def agg_offset_def)
    show ?thesis
    proof (cases "agg_value a \<le> n")
      case True
      then have "subtraction n (agg_value a) = Ok (n - agg_value a)" "uint (n - agg_value a) = s + uint n"
        using s uint_sub_le[of "agg_value a" n] by (auto simp: subtraction_Ok word_le_def)
      with True 2 show ?thesis
        unfolding agg_add_def by (simp del: then_record.simps add: step_ok_positive[OF v h])
    next
      case False
      then have "subtraction (agg_value a) n = Ok (agg_value a - n)" "- uint (agg_value a - n) = s + uint n"
        using s uint_sub_le[of n "agg_value a"] by (auto simp: subtraction_Ok word_le_def)
      with False 2 show ?thesis
        unfolding agg_add_def by (simp del: then_record.simps add: step_ok_stay_negative[OF v h])
    qed
  qed
qed

lemma agg_step_sub:
  assumes v: "agg_view a L s M m"
  shows "step_ok (agg_sub a n) L (s - uint n) M m"
proof -
  from v obtain h where h: "agg_history a = Some h" by (auto simp: agg_view_def)
  from v have bounds: "s \<le> M" "- m \<le> s" "0 \<le> M" "0 \<le> m" "uint (agg_limit a) = L"
    by (auto simp: agg_view_def)
  consider "agg_state a = PositiveDelta" | "agg_state a = NegativeDelta"
    using v by (cases "agg_state a") (auto simp: agg_view_def)
  then show ?thesis
  proof cases
    case 1
    then have s: "uint (agg_value a) = s" using v by (auto simp: agg_view_def agg_offset_def)
    show ?thesis
    proof (cases "n \<le> agg_value a")
      case True
      then have "subtraction (agg_value a) n = Ok (agg_value a - n)" "uint (agg_value a - n) = s - uint n"
        using s uint_sub_le[of n "agg_value a"] by (auto simp: subtraction_Ok word_le_def)
      with True 1 show ?thesis
        unfolding agg_sub_def by (simp del: then_record.simps add: step_ok_stay_positive[OF v h])
    next
      case False
      then have sub: "subtraction n (agg_value a) = Ok (n - agg_value a)" "- uint (n - agg_value a) = s - uint n"
        using s uint_sub_le[of "agg_value a" n] by (auto simp: subtraction_Ok word_le_def)
      show ?thesis
      proof (cases "subtraction (agg_limit a) n")
        case (Ok r)
        with False 1 sub show ?thesis
          unfolding agg_sub_def by (simp del: then_record.simps add: step_ok_negative[OF v h])
      next
        case (Err e)
        then have "L < uint n" using is_ok_subtraction[of "agg_limit a" n] bounds by simp
        with False 1 Err show ?thesis
          unfolding agg_sub_def using bounds by (auto intro!: step_ok_Err simp del: then_record.simps)
      qed
    qed
  next
    case 2
    then have s: "- uint (agg_value a) = s" using v by (auto simp: agg_view_def agg_offset_def)
    show ?thesis
    proof (cases "addition (agg_value a) n (agg_limit a)")
      case (Ok r)
      then have "- uint r = s - uint n" using s by (simp add: addition_Ok)
      with 2 Ok show ?thesis
        unfolding agg_sub_def by (simp del: then_record.simps add: step_ok_stay_negative[OF v h])
    next
      case (Err e)
      then have "L < - s + uint n" using is_ok_addition[of "agg_value a" n "agg_limit a"] s bounds by simp
      with 2 Err show ?thesis
        unfolding agg_sub_def using bounds by (auto intro!: step_ok_Err simp del: then_record.simps)
    qed
  qed
qed

lemma agg_step_delta:
  "agg_view a L s M m \<Longrightarrow> step_ok (agg_step a op) L (s + op_offset op) M m"
  using agg_step_add agg_step_sub by (cases op) auto

section \<open>Runs of operations\<close>

lemma agg_run_view:
  "agg_view a L s M m \<Longrightarrow>
   case agg_run a ops of
     Some (Ok a') \<Rightarrow> \<exists>s' M' m'. agg_view a' L s' M' m' \<and> M \<le> M' \<and> m \<le> m'
   | Some (Err e) \<Rightarrow> True | None \<Rightarrow> False"
proof (induction ops arbitrary: a s M m)
  case Nil
  then show ?case by auto
next
  case (Cons op ops)
  have step: "step_ok (agg_step a op) L (s + op_offset op) M m"
    using Cons.prems by (rule agg_step_delta)
  then show ?case
    using Cons.IH
    by (fastforce simp: step_ok_def split: option.splits result.splits)
qed

lemma agg_run_delta:
  assumes "agg_view a L s M m" "b + M \<le> L" "m \<le> b"
  shows "case agg_run a ops of
      Some (Ok a') \<Rightarrow> \<exists>s' M' m'. agg_view a' L s' M' m' \<and> M \<le> M' \<and> m \<le> m' \<and>
         int_run L (b + s) ops = (if b + M' \<le> L \<and> m' \<le> b then Some (b + s') else None)
    | Some (Err e) \<Rightarrow> int_run L (b + s) ops = None
    | None \<Rightarrow> False"
  using assms
proof (induction ops arbitrary: a s M m)
  case Nil
  then show ?case by auto
next
  case (Cons op ops)
  let ?s = "s + op_offset op"
  have step: "step_ok (agg_step a op) L ?s M m"
    using Cons.prems(1) by (rule agg_step_delta)
  show ?case
  proof (cases "agg_step a op")
    case None
    with step show ?thesis by (simp add: step_ok_def)
  next
    case (Some r)
    show ?thesis
    proof (cases r)
      case (Err e)
      then have "\<not> (0 \<le> b + ?s \<and> b + ?s \<le> L)"
        using step Some Cons.prems by (simp add: step_ok_def)
      then show ?thesis using Some Err by (auto simp: Let_def add.assoc)
    next
      case (Ok a1)
      then have v1: "agg_view a1 L ?s (max M ?s) (max m (- ?s))"
        using step Some by (simp add: step_ok_def)
      show ?thesis
      proof (cases "0 \<le> b + ?s \<and> b + ?s \<le> L")
        case True
        with Cons.prems have "b + max M ?s \<le> L" "max m (- ?s) \<le> b" by auto
        note IH = Cons.IH[OF v1 this]
        have eq: "agg_run a (op # ops) = agg_run a1 ops"
          "int_run L (b + s) (op # ops) = int_run L (b + ?s) ops"
          using True Some Ok by (simp_all add: Let_def add.assoc)
        show ?thesis
        proof (cases "\<exists>a2. agg_run a1 ops = Some (Ok a2)")
          case True
          with IH obtain a2 s' M' m' where "agg_run a1 ops = Some (Ok a2)" "agg_view a2 L s' M' m'"
            "M \<le> M'" "m \<le> m'"
            "int_run L (b + ?s) ops = (if b + M' \<le> L \<and> m' \<le> b then Some (b + s') else None)"
            by auto
          then show ?thesis unfolding eq by (simp only: option.case result.case) blast
        next
          case False
          with IH show ?thesis unfolding eq by (auto split: option.splits result.splits)
        qed
      next
        case False
        then have out: "\<not> (b + max M ?s \<le> L \<and> max m (- ?s) \<le> b)" by auto
        have none: "int_run L (b + s) (op # ops) = None"
          using False by (auto simp: Let_def add.assoc)
        have eq: "agg_run a (op # ops) = agg_run a1 ops" using Some Ok by simp
        show ?thesis
        proof (cases "\<exists>a2. agg_run a1 ops = Some (Ok a2)")
          case True
          with agg_run_view[OF v1, of ops] obtain a2 s' M' m' where a2: "agg_run a1 ops = Some (Ok a2)"
            "agg_view a2 L s' M' m'" "max M ?s \<le> M'" "max m (- ?s) \<le> m'"
            by auto
          with out have "\<not> (b + M' \<le> L \<and> m' \<le> b)" "M \<le> M'" "m \<le> m'" by auto
          with a2 none show ?thesis unfolding eq by (auto simp del: int_run.simps)
        next
          case False
          with agg_run_view[OF v1, of ops] none show ?thesis
            unfolding eq by (auto simp del: int_run.simps split: option.splits result.splits)
        qed
      qed
    qed
  qed
qed

lemma agg_view_delta_aggregator: "agg_view (delta_aggregator limit) (uint limit) 0 0 0"
  by (simp add: agg_view_def delta_aggregator_def history_new_def agg_offset_def)

lemma materialize_with_Ok:
  assumes "agg_view a L s M m"
  shows "materialize_with a base = Some (Ok (r, a')) \<longleftrightarrow>
    uint base + M \<le> L \<and> m \<le> uint base \<and> uint r = uint base + s \<and>
    a' = a\<lparr>agg_value := r, agg_state := Data, agg_history := None\<rparr>"
proof -
  from assms obtain h where h: "agg_history a = Some h" "uint (hist_max_positive h) = M"
    "uint (hist_min_negative h) = m" and b: "uint (agg_limit a) = L" "s \<le> M" "- m \<le> s"
    by (auto simp: agg_view_def)
  have chk: "materialize_with a base = Some (Ok (r, a')) \<longleftrightarrow>
      uint base + M \<le> L \<and> m \<le> uint base \<and>
      (case agg_state a of
         PositiveDelta \<Rightarrow> addition base (agg_value a) (agg_limit a) = Ok r
       | NegativeDelta \<Rightarrow> subtraction base (agg_value a) = Ok r
       | Data \<Rightarrow> False) \<and> a' = a\<lparr>agg_value := r, agg_state := Data, agg_history := None\<rparr>"
    using is_ok_addition[of base "hist_max_positive h" "agg_limit a"]
      is_ok_subtraction[of base "hist_min_negative h"] h b
    by (auto simp: materialize_with_def Let_def map_ok_eq_Ok split: result.splits aggregator_state.splits)
  show ?thesis
    using assms b unfolding chk
    by (cases "agg_state a") (auto simp: agg_view_def agg_offset_def addition_Ok subtraction_Ok)
qed

lemma agg_run_data:
  assumes "agg_state a = Data" "agg_history a = None" "uint (agg_limit a) = L" "uint (agg_value a) \<le> L"
  shows "\<exists>r. agg_run a ops = Some r \<and>
     map_option (\<lambda>a. uint (agg_value a)) (ok r) = int_run L (uint (agg_value a)) ops"
  using assms
proof (induction ops arbitrary: a)
  case Nil
  then show ?case by simp
next
  case (Cons op ops)
  let ?b = "uint (agg_value a) + op_offset op"
  have "\<exists>r. agg_step a op = Some r \<and>
     (if 0 \<le> ?b \<and> ?b \<le> L
      then \<exists>v. r = Ok (a\<lparr>agg_value := v\<rparr>) \<and> uint v = ?b else \<exists>e. r = Err e)"
  proof (cases op)
    case (AddOp n)
    with Cons.prems is_ok_addition[of "agg_value a" n "agg_limit a"]
      addition_Ok[of "agg_value a" n "agg_limit a"] show ?thesis
      by (cases "addition (agg_value a) n (agg_limit a)") (auto simp: agg_add_def)
  next
    case (SubOp n)
    have "uint (agg_value a) - uint n \<le> L"
      using Cons.prems(4) uint_ge_0_lt[of n] by linarith
    with SubOp Cons.prems is_ok_subtraction[of "agg_value a" n] subtraction_Ok[of "agg_value a" n]
    show ?thesis
      by (cases "subtraction (agg_value a) n") (auto simp: agg_sub_def)
  qed
  then obtain r where r: "agg_step a op = Some r"
    and cases: "if 0 \<le> ?b \<and> ?b \<le> L
      then \<exists>v. r = Ok (a\<lparr>agg_value := v\<rparr>) \<and> uint v = ?b else \<exists>e. r = Err e"
    by blast
  show ?case
  proof (cases "0 \<le> ?b \<and> ?b \<le> L")
    case True
    with cases obtain v where v: "r = Ok (a\<lparr>agg_value := v\<rparr>)" "uint v = ?b" by auto
    from Cons.IH[of "a\<lparr>agg_value := v\<rparr>"] Cons.prems True v r show ?thesis
      by (auto simp: Let_def)
  next
    case False
    with cases r show ?thesis by (auto simp: Let_def)
  qed
qed

text \<open>
  C19. Deferring reads is unobservable: over any sequence of additions and subtractions on an
  aggregator with limit \<open>limit\<close>, accumulating a delta and materialising it against the stored value
  \<open>base\<close> succeeds with \<open>r\<close> exactly when performing the same operations directly on a known value
  \<open>base\<close> succeeds with \<open>r\<close>.
\<close>

theorem deferred_reads_unobservable:
  assumes "base \<le> limit"
    and "resolve (aid_handle aid) (to_vec (aid_key aid)) = Ok (Some bs)" "from_bytes bcs bs = Some base"
  shows "(\<exists>a a'. agg_run (delta_aggregator limit) ops = Some (Ok a) \<and>
            read_and_materialize bcs to_vec resolve a aid = Some (Ok (r, a'))) \<longleftrightarrow>
         (\<exists>a. agg_run \<lparr>agg_value = base, agg_state = Data, agg_limit = limit, agg_history = None\<rparr> ops
              = Some (Ok a) \<and> agg_value a = r)"
    (is "?deferred \<longleftrightarrow> ?direct")
proof -
  let ?L = "uint limit" and ?b = "uint base"
  let ?d = "\<lparr>agg_value = base, agg_state = Data, agg_limit = limit, agg_history = None\<rparr>"
  have direct: "?direct \<longleftrightarrow> int_run ?L ?b ops = Some (uint r)"
    using agg_run_data[of ?d ?L ops] assms(1)
    by (auto simp: word_le_def uint_eq_iff ok_eq_Some)
  have run: "case agg_run (delta_aggregator limit) ops of
      Some (Ok a) \<Rightarrow> \<exists>s M m. agg_view a ?L s M m \<and> 0 \<le> M \<and> 0 \<le> m \<and>
         int_run ?L (?b + 0) ops = (if ?b + M \<le> ?L \<and> m \<le> ?b then Some (?b + s) else None)
    | Some (Err e) \<Rightarrow> int_run ?L (?b + 0) ops = None
    | None \<Rightarrow> False"
    using assms(1) by (intro agg_run_delta agg_view_delta_aggregator) (auto simp: word_le_def)
  show ?thesis
  proof (cases "\<exists>a. agg_run (delta_aggregator limit) ops = Some (Ok a)")
    case False
    with run direct show ?thesis by (auto split: option.splits result.splits)
  next
    case True
    then obtain a s M m where a: "agg_run (delta_aggregator limit) ops = Some (Ok a)"
      "agg_view a ?L s M m"
      "int_run ?L ?b ops = (if ?b + M \<le> ?L \<and> m \<le> ?b then Some (?b + s) else None)"
      using run by auto
    have "read_and_materialize bcs to_vec resolve a aid = materialize_with a base"
      using a(2) assms(2,3) by (auto simp: read_and_materialize_def agg_view_def deserialize_def)
    with a direct show ?thesis
      by (auto simp: materialize_with_Ok[OF a(2)])
  qed
qed

theorem deferred_reads_unobservable_witness:
  "(10 :: u128) \<le> 100 \<and> from_bytes bcs_le128 (le_encode 16 10) = Some 10 \<and>
   (\<exists>a a'. agg_run (delta_aggregator 100) [AddOp 5, SubOp 12] = Some (Ok a) \<and>
      read_and_materialize bcs_le128 (\<lambda>_. [])
        (\<lambda>_ _. Ok (Some (le_encode 16 10)) :: (bytes option, unit) result) a (AggregatorID 1 2) = Some (Ok (3, a')))"
proof -
  have le: "(10 :: u128) \<le> 100" by simp
  have bs: "from_bytes bcs_le128 (le_encode 16 10) = Some 10"
    using bcs_le128_roundtrip[of 10] by (auto simp: bcs_le128_def)
  have "\<exists>a. agg_run \<lparr>agg_value = 10, agg_state = Data, agg_limit = 100, agg_history = None\<rparr> [AddOp 5, SubOp 12]
          = Some (Ok a) \<and> agg_value a = 3"
    by (simp add: agg_add_def agg_sub_def addition_def subtraction_def)
  with le bs show ?thesis
    using deferred_reads_unobservable[OF le,
        where resolve = "\<lambda>_ _. Ok (Some (le_encode 16 10)) :: (bytes option, unit) result"
          and aid = "AggregatorID 1 2" and to_vec = "\<lambda>_. []" and bs = "le_encode 16 10" and bcs = bcs_le128
          and ops = "[AddOp 5, SubOp 12]" and r = 3]
    by simp
qed

section \<open>Invariants\<close>

lemma agg_wf_cases:
  assumes "agg_wf a"
  obtains (known) "agg_state a = Data" "agg_history a = None"
    | (delta) L s M m where "agg_view a L s M m"
  using assms agg_viewI[OF assms] by (cases "agg_history a") (auto simp: agg_wf_def)

lemma agg_wf_delta:
  assumes "agg_wf a" "agg_state a \<noteq> Data"
  shows "\<exists>L s M m. agg_view a L s M m"
  using assms by (cases rule: agg_wf_cases) blast+

lemma agg_step_wf:
  assumes "agg_wf a"
  shows "\<exists>r. agg_step a op = Some r \<and> (\<forall>a'. r = Ok a' \<longrightarrow> agg_wf a' \<and> agg_limit a' = agg_limit a)"
  using assms
proof (cases rule: agg_wf_cases)
  case known
  then show ?thesis
    by (cases op) (auto simp: agg_add_def agg_sub_def agg_wf_def map_ok_eq_Ok)
next
  case (delta L s M m)
  from agg_step_delta[OF delta, of op] agg_view_limit[OF delta] show ?thesis
    by (auto simp: step_ok_def uint_eq_iff dest: agg_view_wf agg_view_limit split: option.splits result.splits)
qed

lemma materialize_with_total:
  assumes "agg_view a L s M m"
  shows "\<exists>r. materialize_with a base = Some r"
  using assms
  by (auto simp: agg_view_def materialize_with_def Let_def split: result.splits aggregator_state.splits)

text \<open>A well-formed aggregator whose value, when it is known, is within the limit.\<close>

definition agg_inv :: "aggregator \<Rightarrow> bool" where
  "agg_inv a \<longleftrightarrow> agg_wf a \<and> (agg_state a = Data \<longrightarrow> agg_value a \<le> agg_limit a)"

lemma agg_step_inv:
  assumes "agg_inv a"
  shows "\<exists>r. agg_step a op = Some r \<and> (\<forall>a'. r = Ok a' \<longrightarrow> agg_inv a' \<and> agg_limit a' = agg_limit a)"
proof (cases "agg_state a = Data")
  case True
  have "agg_history a = None"
    using assms True by (auto simp: agg_inv_def agg_wf_def split: option.splits)
  then have "agg_inv (a\<lparr>agg_value := w\<rparr>) \<longleftrightarrow> w \<le> agg_limit a" for w
    using True by (simp add: agg_inv_def agg_wf_def)
  moreover have le: "uint (agg_value a) \<le> uint (agg_limit a)" using assms True by (simp add: agg_inv_def word_le_def)
  moreover have "w \<le> agg_limit a" if "addition (agg_value a) x (agg_limit a) = Ok w" for x w
    using that unfolding addition_Ok word_le_def by linarith
  moreover have "w \<le> agg_limit a" if "subtraction (agg_value a) x = Ok w" for x w
    using that le uint_ge_0_lt[of x] unfolding subtraction_Ok word_le_def by linarith
  ultimately show ?thesis
    using True by (cases op) (auto simp: agg_add_def agg_sub_def map_ok_eq_Ok)
next
  case False
  with assms obtain L s M m where v: "agg_view a L s M m"
    using agg_wf_delta unfolding agg_inv_def by blast
  have inv: "agg_inv a'" if "agg_view a' L' s' M' m'" for a' L' s' M' m'
    using agg_view_wf[OF that] that by (simp add: agg_inv_def agg_view_def)
  from agg_step_delta[OF v, of op] agg_view_limit[OF v] show ?thesis
    by (auto simp: step_ok_def uint_eq_iff dest: inv agg_view_limit split: option.splits result.splits)
qed

text \<open>
  C22. The aggregator invariant: a history is tracked exactly in the two delta states and covers the
  current value, and a known value is within the limit.  Every new aggregator has it, and \<open>add\<close>,
  \<open>sub\<close> and \<open>read_and_materialize\<close> keep it and the limit.  With it \<open>add\<close> and \<open>sub\<close> never reach their
  \<open>unreachable!\<close> branch; a read panics exactly when the value is not yet known and the resolver serves
  bytes that do not decode to a number, never for a missing history; and every value that a read
  returns is within the limit.
\<close>

theorem aggregator_invariant:
  assumes "agg_inv a"
  shows "agg_inv (delta_aggregator limit) \<and>
         agg_inv \<lparr>agg_value = 0, agg_state = Data, agg_limit = limit, agg_history = None\<rparr> \<and>
         (\<exists>r. agg_add a v = Some r \<and> (\<forall>a'. r = Ok a' \<longrightarrow> agg_inv a' \<and> agg_limit a' = agg_limit a)) \<and>
         (\<exists>r. agg_sub a v = Some r \<and> (\<forall>a'. r = Ok a' \<longrightarrow> agg_inv a' \<and> agg_limit a' = agg_limit a)) \<and>
         (read_and_materialize bcs to_vec resolve a aid = None \<longleftrightarrow>
            agg_state a \<noteq> Data \<and>
            (\<exists>bs. resolve (aid_handle aid) (to_vec (aid_key aid)) = Ok (Some bs) \<and> from_bytes bcs bs = None)) \<and>
         (\<forall>n a'. read_and_materialize bcs to_vec resolve a aid = Some (Ok (n, a')) \<longrightarrow>
            agg_inv a' \<and> agg_state a' = Data \<and> agg_value a' = n \<and> agg_limit a' = agg_limit a \<and> n \<le> agg_limit a)"
proof (intro conjI)
  show "agg_inv (delta_aggregator limit)"
    using agg_view_wf[OF agg_view_delta_aggregator] by (simp add: agg_inv_def delta_aggregator_def)
  show "agg_inv \<lparr>agg_value = 0, agg_state = Data, agg_limit = limit, agg_history = None\<rparr>"
    by (simp add: agg_inv_def agg_wf_def)
  show "\<exists>r. agg_add a v = Some r \<and> (\<forall>a'. r = Ok a' \<longrightarrow> agg_inv a' \<and> agg_limit a' = agg_limit a)"
    using agg_step_inv[OF assms, of "AddOp v"] by simp
  show "\<exists>r. agg_sub a v = Some r \<and> (\<forall>a'. r = Ok a' \<longrightarrow> agg_inv a' \<and> agg_limit a' = agg_limit a)"
    using agg_step_inv[OF assms, of "SubOp v"] by simp
  have read: "read_and_materialize bcs to_vec resolve a aid =
      (case resolve (aid_handle aid) (to_vec (aid_key aid)) of
         Ok (Some bs) \<Rightarrow> Option.bind (from_bytes bcs bs) (materialize_with a)
       | _ \<Rightarrow> Some (Err (extension_error ''could not find the value of the aggregator'')))" if "agg_state a \<noteq> Data"
    using that by (simp add: read_and_materialize_def deserialize_def split: result.splits option.splits)
  from assms have view: "\<exists>L s M m. agg_view a L s M m" if "agg_state a \<noteq> Data"
    using that agg_wf_delta by (simp add: agg_inv_def)
  show "read_and_materialize bcs to_vec resolve a aid = None \<longleftrightarrow> agg_state a \<noteq> Data \<and>
      (\<exists>bs. resolve (aid_handle aid) (to_vec (aid_key aid)) = Ok (Some bs) \<and> from_bytes bcs bs = None)"
  proof (cases "agg_state a = Data")
    case False
    with view have "\<exists>r. materialize_with a base = Some r" for base by (blast intro: materialize_with_total)
    then obtain f where "materialize_with a base = Some (f base)" for base by metis
    then show ?thesis
      using False by (auto simp: read split: result.splits option.splits bind_splits)
  qed (simp add: read_and_materialize_def)
  show "\<forall>n a'. read_and_materialize bcs to_vec resolve a aid = Some (Ok (n, a')) \<longrightarrow>
      agg_inv a' \<and> agg_state a' = Data \<and> agg_value a' = n \<and> agg_limit a' = agg_limit a \<and> n \<le> agg_limit a"
  proof (cases "agg_state a = Data")
    case True
    with assms show ?thesis by (auto simp: read_and_materialize_def agg_inv_def)
  next
    case False
    with view obtain L s M m where v: "agg_view a L s M m" by blast
    have "agg_inv a' \<and> agg_state a' = Data \<and> agg_value a' = n \<and> agg_limit a' = agg_limit a \<and> n \<le> agg_limit a"
      if "materialize_with a base = Some (Ok (n, a'))" for base n a'
      using that v unfolding materialize_with_Ok[OF v]
      by (auto simp: agg_inv_def agg_wf_def agg_view_def word_le_def)
    with False show ?thesis
      by (auto simp: read bind_eq_Some_conv split: result.splits option.splits)
  qed
qed

theorem aggregator_invariant_witness:
  "agg_inv (delta_aggregator 100) \<and>
   (\<exists>a' a''. agg_sub (delta_aggregator 100) 7 = Some (Ok a') \<and> agg_inv a' \<and> agg_limit a' = 100 \<and>
      read_and_materialize bcs_le128 (\<lambda>_. [])
        (\<lambda>_ _. Ok (Some (le_encode 16 60)) :: (bytes option, unit) result) (delta_aggregator 100) (AggregatorID 1 2) =
        Some (Ok (60, a'')) \<and> agg_inv a'' \<and> agg_state a'' = Data \<and> (60 :: u128) \<le> agg_limit (delta_aggregator 100))"
proof -
  have inv: "agg_inv (delta_aggregator 100)"
    using agg_view_wf[OF agg_view_delta_aggregator] by (simp add: agg_inv_def delta_aggregator_def)
  have s: "\<exists>a'. agg_sub (delta_aggregator 100) 7 = Some (Ok a')"
    by (simp add: delta_aggregator_def agg_sub_def subtraction_def agg_record_def history_new_def)
  have bytes: "from_bytes bcs_le128 (le_encode 16 60) = Some 60"
    using bcs_le128_roundtrip[of 60] by (auto simp: bcs_le128_def)
  have r: "\<exists>a''. read_and_materialize bcs_le128 (\<lambda>_. [])
        (\<lambda>_ _. Ok (Some (le_encode 16 60)) :: (bytes option, unit) result) (delta_aggregator 100) (AggregatorID 1 2) = Some (Ok (60, a''))"
    using bytes by (simp add: read_and_materialize_def delta_aggregator_def deserialize_def materialize_with_def
        addition_def subtraction_def history_new_def)
  note inv_ops = aggregator_invariant[OF inv, where limit = 100 and v = 7 and bcs = bcs_le128 and to_vec = "\<lambda>_. []" and aid = "AggregatorID 1 2"
    and resolve = "\<lambda>_ _. Ok (Some (le_encode 16 60)) :: (bytes option, unit) result"]
  have l: "agg_limit (delta_aggregator 100) = 100" by (simp add: delta_aggregator_def)
  from s r obtain a' a'' where run: "agg_sub (delta_aggregator 100) 7 = Some (Ok a')"
    "read_and_materialize bcs_le128 (\<lambda>_. []) (\<lambda>_ _. Ok (Some (le_encode 16 60)) :: (bytes option, unit) result)
       (delta_aggregator 100) (AggregatorID 1 2) = Some (Ok (60, a''))" by blast
  have "agg_inv a' \<and> agg_limit a' = 100 \<and> agg_inv a'' \<and> agg_state a'' = Data \<and> (60 :: u128) \<le> agg_limit (delta_aggregator 100)"
    using inv_ops run l by (metis option.inject)
  with inv run show ?thesis by blast
qed

definition aggregator_data_wf :: "aggregator_data \<Rightarrow> bool" where
  "aggregator_data_wf s \<longleftrightarrow>
     bt_ok (aggregators s) \<and> (\<forall>(i, a) \<in> set (aggregators s). agg_wf a) \<and>
     new_aggregators s \<subseteq> fst ` set (aggregators s)"

lemma aggregator_data_wf_put:
  assumes "aggregator_data_wf s" "agg_wf a"
  shows "aggregator_data_wf (s\<lparr>aggregators := bt_insert i a (aggregators s), new_aggregators := N\<rparr>) \<longleftrightarrow>
         N \<subseteq> insert i (fst ` set (aggregators s))"
  using assms bt.ents_ins[of "aggregators s" i a]
  by (auto simp: aggregator_data_wf_def bt_ok_insert fst_set_bt_insert)

lemma agg_wf_delta_aggregator [simp]: "agg_wf (delta_aggregator limit)"
  using agg_view_delta_aggregator by (rule agg_view_wf)

lemma get_aggregator_wf:
  assumes "aggregator_data_wf s" "get_aggregator s i limit = (a, s')"
  shows "agg_wf a \<and> aggregator_data_wf s' \<and> map_of (aggregators s') i = Some a"
proof (cases "map_of (aggregators s) i")
  case None
  then show ?thesis
    using assms aggregator_data_wf_put[OF assms(1) agg_wf_delta_aggregator[of limit],
        where i = i and N = "new_aggregators s"]
    by (auto simp: get_aggregator_def Let_def map_of_bt_insert aggregator_data_wf_def)
next
  case (Some b)
  then have "(i, b) \<in> set (aggregators s)" by (rule map_of_SomeD)
  with Some assms show ?thesis by (auto simp: get_aggregator_def aggregator_data_wf_def)
qed

lemma remove_aggregator_wf: "aggregator_data_wf s \<Longrightarrow> aggregator_data_wf (remove_aggregator s i)"
  using bt.ents_rmv[of "aggregators s" i]
  by (auto simp: aggregator_data_wf_def remove_aggregator_def Let_def bt_ok_remove image_iff)

lemma create_new_aggregator_wf:
  assumes "aggregator_data_wf s"
  shows "aggregator_data_wf (create_new_aggregator s i limit)"
proof -
  have "agg_wf \<lparr>agg_value = 0, agg_state = Data, agg_limit = limit, agg_history = None\<rparr>"
    by (simp add: agg_wf_def)
  from aggregator_data_wf_put[OF assms this, where i = i and N = "insert i (new_aggregators s)"] assms
  show ?thesis by (auto simp: create_new_aggregator_def Let_def aggregator_data_wf_def)
qed

lemma put_aggregator_wf:
  "aggregator_data_wf s \<Longrightarrow> agg_wf a \<Longrightarrow> aggregator_data_wf (put_aggregator s i a)"
  using aggregator_data_wf_put[where i = i and N = "new_aggregators s"]
  by (auto simp: put_aggregator_def aggregator_data_wf_def)

lemma create_remove_trace:
  assumes "aggregator_data_wf s" "map_of (aggregators s) i = None"
  shows "remove_aggregator (put_aggregator (create_new_aggregator s i limit) i a) i = s"
proof -
  from assms(2) have k: "i \<notin> fst ` set (aggregators s)" by (simp add: map_of_eq_None_iff)
  with assms(1) have "i \<notin> new_aggregators s" by (auto simp: aggregator_data_wf_def)
  with k show ?thesis
    by (simp add: remove_aggregator_def put_aggregator_def create_new_aggregator_def Let_def
        bt_insert_twice bt_remove_insert_fresh)
qed

text \<open>
  The bookkeeping of a transaction's aggregators: every operation keeps the table ordered, its
  instances well-formed and the created ids present in it, and an aggregator created and destroyed
  within one transaction, however it was changed in between, leaves no trace at all, while destroying any
  other aggregator drops its instance and marks it destroyed.
\<close>

theorem aggregator_data_bookkeeping:
  assumes "aggregator_data_wf s" "agg_wf a"
  shows "aggregator_data_wf (create_new_aggregator s i limit) \<and>
         aggregator_data_wf (snd (get_aggregator s i limit)) \<and>
         aggregator_data_wf (put_aggregator s i a) \<and>
         aggregator_data_wf (remove_aggregator s i) \<and>
         (map_of (aggregators s) i = None \<longrightarrow>
          remove_aggregator (put_aggregator (create_new_aggregator s i limit) i a) i = s) \<and>
         (i \<notin> new_aggregators s \<longrightarrow>
          map_of (aggregators (remove_aggregator s i)) i = None \<and>
          i \<in> destroyed_aggregators (remove_aggregator s i))"
proof (intro conjI impI)
  show "aggregator_data_wf (create_new_aggregator s i limit)"
    using assms(1) by (rule create_new_aggregator_wf)
  show "aggregator_data_wf (snd (get_aggregator s i limit))"
    using get_aggregator_wf[OF assms(1)] by (metis prod.collapse)
  show "aggregator_data_wf (put_aggregator s i a)"
    using assms by (rule put_aggregator_wf)
  show "aggregator_data_wf (remove_aggregator s i)"
    using assms(1) by (rule remove_aggregator_wf)
  show "remove_aggregator (put_aggregator (create_new_aggregator s i limit) i a) i = s"
    if "map_of (aggregators s) i = None"
    using assms(1) that by (rule create_remove_trace)
qed (simp_all add: remove_aggregator_def Let_def map_of_bt_remove)

theorem aggregator_data_bookkeeping_witness:
  "aggregator_data_wf aggregator_data_default \<and> agg_wf (delta_aggregator 9) \<and>
   remove_aggregator (put_aggregator (create_new_aggregator aggregator_data_default (AggregatorID 1 2) 100)
     (AggregatorID 1 2) (delta_aggregator 9)) (AggregatorID 1 2) = aggregator_data_default"
proof -
  have wf: "aggregator_data_wf aggregator_data_default"
    by (simp add: aggregator_data_wf_def aggregator_data_default_def)
  show ?thesis
    using wf aggregator_data_bookkeeping[OF wf agg_wf_delta_aggregator[of 9],
        where i = "AggregatorID 1 2" and limit = 100]
    by (auto simp: aggregator_data_default_def)
qed

text \<open>
  C23. An addition that brings a negative delta back to zero or above is not checked against the limit:
  it always succeeds, whatever the value, and leaves the difference as a positive delta.  When that
  difference is above the limit, no stored value can absorb it any more, so the transaction is bound
  to fail at the materialization instead of at the addition.  Every other addition (from a known value
  or a positive delta) of a value above the limit aborts at once.
\<close>

theorem add_crossing_zero_skips_limit:
  assumes "agg_state a = NegativeDelta" "agg_history a = Some h" "agg_value a \<le> v"
    and "agg_state p \<noteq> NegativeDelta" "agg_limit p < w"
  shows "(\<exists>a'. agg_add a v = Some (Ok a') \<and> agg_state a' = PositiveDelta \<and> agg_value a' = v - agg_value a \<and>
            agg_limit a' = agg_limit a \<and>
            (agg_limit a < v - agg_value a \<longrightarrow> (\<forall>base. \<exists>e. materialize_with a' base = Some (Err e)))) \<and>
         (\<exists>e. agg_add p w = Some (Err e))"
proof (rule conjI)
  let ?d = "v - agg_value a"
  let ?a = "a\<lparr>agg_value := ?d, agg_state := PositiveDelta, agg_history := Some (record_positive h ?d)\<rparr>"
  have "agg_add a v = Some (Ok ?a)"
    using assms(1-3) by (simp add: agg_add_def subtraction_def agg_record_def)
  moreover have "\<exists>e. materialize_with ?a base = Some (Err e)" if "agg_limit a < ?d" for base
  proof -
    have "?d \<le> hist_max_positive (record_positive h ?d)" by (simp add: record_positive_def)
    with that have "\<not> is_ok (addition base (hist_max_positive (record_positive h ?d)) (agg_limit a))"
      unfolding is_ok_addition word_le_def word_less_def using uint_ge_0_lt[of base] by linarith
    then show ?thesis
      by (cases "addition base (hist_max_positive (record_positive h ?d)) (agg_limit a)") (auto simp: materialize_with_def)
  qed
  ultimately show "\<exists>a'. agg_add a v = Some (Ok a') \<and> agg_state a' = PositiveDelta \<and> agg_value a' = ?d \<and>
      agg_limit a' = agg_limit a \<and> (agg_limit a < ?d \<longrightarrow> (\<forall>base. \<exists>e. materialize_with a' base = Some (Err e)))"
    by auto
  have "\<not> is_ok (addition (agg_value p) w (agg_limit p))"
    using assms(5) uint_ge_0_lt[of "agg_value p"] unfolding is_ok_addition word_less_def by linarith
  then show "\<exists>e. agg_add p w = Some (Err e)"
    using assms(4) by (cases "addition (agg_value p) w (agg_limit p)") (auto simp: agg_add_def split: aggregator_state.splits)
qed

theorem add_crossing_zero_skips_limit_witness:
  "\<exists>a a'. agg_run (delta_aggregator 10) [SubOp 1] = Some (Ok a) \<and> agg_add a 10000 = Some (Ok a') \<and>
     agg_limit a' < agg_value a' \<and> (\<forall>base. \<exists>e. materialize_with a' base = Some (Err e)) \<and>
     (\<exists>e. agg_add (delta_aggregator 10) 10000 = Some (Err e))"
proof -
  let ?h = "\<lparr>hist_max_positive = 0, hist_min_negative = 1\<rparr>"
  let ?a = "\<lparr>agg_value = 1, agg_state = NegativeDelta, agg_limit = 10, agg_history = Some ?h\<rparr>"
  have run: "agg_run (delta_aggregator 10) [SubOp 1] = Some (Ok ?a)"
    by (simp add: delta_aggregator_def agg_sub_def subtraction_def agg_record_def record_negative_def history_new_def)
  have p: "agg_state (delta_aggregator 10) \<noteq> NegativeDelta" "agg_limit (delta_aggregator 10) < 10000"
    by (simp_all add: delta_aggregator_def)
  from run add_crossing_zero_skips_limit[of ?a ?h 10000, OF _ _ _ p] show ?thesis by auto
qed

end
