(* ===== verification/Agg_Natives.thy ===== *)
theory Agg_Natives
  imports Aggregator_Ext
begin

text \<open>
  The native functions of the Move module \<open>aggregator\<close> and their context, from
  \<^verbatim>\<open>framework/src/natives/aggregator_natives\<close>: extracting an aggregator from Move values
  (\<^verbatim>\<open>helpers.rs\<close>), the natives \<open>new_aggregator\<close>, \<open>add\<close>, \<open>sub\<close>, \<open>read\<close> and \<open>destroy\<close>
  (\<^verbatim>\<open>aggregator_factory.rs\<close>, \<^verbatim>\<open>aggregator.rs\<close>), and the change set a transaction leaves behind
  (\<^verbatim>\<open>context.rs\<close>).  Move values, the hasher and the byte form of addresses belong to external
  libraries: their operations are the fields of the record \<open>host\<close>.  The main result is that natives plus
  change set implement a plain store of numbers.
\<close>

section \<open>Definitions\<close>

record ('v, 'st, 'sr, 'rf) host =
  pop_back_arg :: "'v list \<Rightarrow> ('v \<times> 'v list, partial_vm_error) result"
  as_u128 :: "'v \<Rightarrow> (u128, partial_vm_error) result"
  as_address :: "'v \<Rightarrow> (address, partial_vm_error) result"
  as_struct :: "'v \<Rightarrow> ('st, partial_vm_error) result"
  as_struct_ref :: "'v \<Rightarrow> ('sr, partial_vm_error) result"
  as_reference :: "'v \<Rightarrow> ('rf, partial_vm_error) result"
  borrow_field :: "'sr \<Rightarrow> nat \<Rightarrow> ('v, partial_vm_error) result"
  read_ref :: "'rf \<Rightarrow> ('v, partial_vm_error) result"
  unpack_struct :: "'st \<Rightarrow> ('v list, partial_vm_error) result"
  pack_struct :: "'v list \<Rightarrow> 'st"
  of_struct :: "'st \<Rightarrow> 'v"
  of_u128 :: "u128 \<Rightarrow> 'v"
  of_address :: "address \<Rightarrow> 'v"
  hash_updates :: "bytes list \<Rightarrow> bytes"
  address_from_bytes :: "bytes \<Rightarrow> address option"
  address_to_vec :: "address \<Rightarrow> bytes"
  codec :: bcs_codec

subsection \<open>Fields of the Move structs\<close>

definition PHANTOM_TABLE_FIELD_INDEX :: nat where "PHANTOM_TABLE_FIELD_INDEX = 0"
definition TABLE_HANDLE_FIELD_INDEX :: nat where "TABLE_HANDLE_FIELD_INDEX = 0"
definition HANDLE_FIELD_INDEX :: nat where "HANDLE_FIELD_INDEX = 0"
definition KEY_FIELD_INDEX :: nat where "KEY_FIELD_INDEX = 1"
definition LIMIT_FIELD_INDEX :: nat where "LIMIT_FIELD_INDEX = 2"

definition get_handle :: "('v, 'st, 'sr, 'rf) host \<Rightarrow> 'sr \<Rightarrow> (address, partial_vm_error) result" where
  "get_handle H aggregator_table =
     bind_ok (borrow_field H aggregator_table PHANTOM_TABLE_FIELD_INDEX) (\<lambda>v.
     bind_ok (as_struct_ref H v) (\<lambda>table.
     bind_ok (borrow_field H table TABLE_HANDLE_FIELD_INDEX) (\<lambda>w.
     bind_ok (as_reference H w) (\<lambda>rf.
     bind_ok (read_ref H rf) (as_address H)))))"

definition get_aggregator_field :: "('v, 'st, 'sr, 'rf) host \<Rightarrow> 'sr \<Rightarrow> nat \<Rightarrow> ('v, partial_vm_error) result" where
  "get_aggregator_field H ag index =
     bind_ok (borrow_field H ag index) (\<lambda>v. bind_ok (as_reference H v) (read_ref H))"

definition get_aggregator_fields ::
  "('v, 'st, 'sr, 'rf) host \<Rightarrow> 'sr \<Rightarrow> (address \<times> address \<times> u128, partial_vm_error) result" where
  "get_aggregator_fields H ag =
     bind_ok (bind_ok (get_aggregator_field H ag HANDLE_FIELD_INDEX) (as_address H)) (\<lambda>handle.
     bind_ok (bind_ok (get_aggregator_field H ag KEY_FIELD_INDEX) (as_address H)) (\<lambda>key.
     bind_ok (bind_ok (get_aggregator_field H ag LIMIT_FIELD_INDEX) (as_u128 H)) (\<lambda>limit.
     Ok (handle, key, limit))))"

definition aggregator_info ::
  "('v, 'st, 'sr, 'rf) host \<Rightarrow> 'sr \<Rightarrow> (aggregator_id \<times> u128, partial_vm_error) result" where
  "aggregator_info H ag =
     bind_ok (get_aggregator_fields H ag) (\<lambda>(handle, key, limit). Ok (AggregatorID handle key, limit))"

text \<open>\<open>fields.pop()\<close> on a vector: the last element first.\<close>

definition pop_field :: "'v list \<Rightarrow> string \<Rightarrow> ('v \<Rightarrow> ('b, partial_vm_error) result) \<Rightarrow> ('b, partial_vm_error) result" where
  "pop_field fs msg conv = (if fs = [] then Err (extension_error msg) else conv (last fs))"

definition unpack_aggregator_struct ::
  "('v, 'st, 'sr, 'rf) host \<Rightarrow> 'st \<Rightarrow> (address \<times> address \<times> u128, partial_vm_error) result option" where
  "unpack_aggregator_struct H aggregator_struct =
     (case unpack_struct H aggregator_struct of
        Err e \<Rightarrow> Some (Err e)
      | Ok fs \<Rightarrow>
          if length fs = 3 then
            Some (bind_ok (pop_field fs ''unable to pop 'limit' field'' (as_u128 H)) (\<lambda>limit.
                  bind_ok (pop_field (butlast fs) ''unable to pop `handle` field'' (as_address H)) (\<lambda>key.
                  bind_ok (pop_field (butlast (butlast fs)) ''unable to pop `handle` field'' (as_address H)) (\<lambda>handle.
                  Ok (handle, key, limit)))))
          else None)"

subsection \<open>The context\<close>

record 'e native_context =
  txn_hash :: bytes
  resolver :: "address \<Rightarrow> bytes \<Rightarrow> (bytes option, 'e) result"
  ctx_data :: aggregator_data

definition native_context_new ::
  "bytes \<Rightarrow> (address \<Rightarrow> bytes \<Rightarrow> (bytes option, 'e) result) \<Rightarrow> 'e native_context" where
  "native_context_new th res = \<lparr>txn_hash = th, resolver = res, ctx_data = aggregator_data_default\<rparr>"

datatype aggregator_change =
    ChWrite u128
  | ChMerge delta_op
  | ChDelete

type_synonym aggregator_change_set = "(aggregator_id, aggregator_change) btree"

text \<open>The change an instance stands for; \<open>history.unwrap()\<close> panics on a missing history.\<close>

definition change_of :: "aggregator \<Rightarrow> aggregator_change option" where
  "change_of ag =
     (case agg_into ag of (value, state, limit, history) \<Rightarrow>
        (case state of
           Data \<Rightarrow> Some (ChWrite value)
         | PositiveDelta \<Rightarrow>
             do { h \<leftarrow> history; Some (ChMerge (delta_new (Plus value) limit (hist_max_positive h) (hist_min_negative h))) }
         | NegativeDelta \<Rightarrow>
             do { h \<leftarrow> history; Some (ChMerge (delta_new (Minus value) limit (hist_max_positive h) (hist_min_negative h))) }))"

fun collect_changes :: "(aggregator_id \<times> aggregator) list \<Rightarrow> aggregator_change_set \<Rightarrow> aggregator_change_set option" where
  "collect_changes [] changes = Some changes"
| "collect_changes ((i, ag) # rest) changes =
     do { change \<leftarrow> change_of ag; collect_changes rest (bt_insert i change changes) }"

definition into_change_set :: "'e native_context \<Rightarrow> aggregator_change_set option" where
  "into_change_set self =
     (case aggregator_data_into (ctx_data self) of (_, destroyed, ags) \<Rightarrow>
        do { changes \<leftarrow> collect_changes ags [];
             Some (fold (\<lambda>i. bt_insert i ChDelete) (sorted_list_of_set destroyed) changes) })"

text \<open>\<open>AggregatorChangeSet::squash\<close> at one occupied entry; \<open>unreachable!\<close> after a deletion.\<close>

fun squash_change ::
  "(partial_vm_error \<Rightarrow> 'e) \<Rightarrow> aggregator_change \<Rightarrow> aggregator_change \<Rightarrow> (aggregator_change, 'e) result option" where
  "squash_change into_vm_status ChDelete _ = None"
| "squash_change into_vm_status _ (ChWrite data) = Some (Ok (ChWrite data))"
| "squash_change into_vm_status _ ChDelete = Some (Ok ChDelete)"
| "squash_change into_vm_status (ChWrite data) (ChMerge delta) =
     Some (map_err into_vm_status (map_ok ChWrite (apply_to delta data)))"
| "squash_change into_vm_status (ChMerge delta1) (ChMerge delta2) =
     Some (map_err into_vm_status (map_ok ChMerge (merge_onto delta2 delta1)))"

fun squash_changes ::
  "(partial_vm_error \<Rightarrow> 'e) \<Rightarrow> (aggregator_id \<times> aggregator_change) list \<Rightarrow> aggregator_change_set \<Rightarrow>
   (aggregator_change_set, 'e) result option" where
  "squash_changes into_vm_status [] changes = Some (Ok changes)"
| "squash_changes into_vm_status ((other_id, other_change) # rest) changes =
     (case map_of changes other_id of
        None \<Rightarrow> squash_changes into_vm_status rest (bt_insert other_id other_change changes)
      | Some entry \<Rightarrow>
          (case squash_change into_vm_status entry other_change of
             None \<Rightarrow> None
           | Some (Err e) \<Rightarrow> Some (Err e)
           | Some (Ok entry') \<Rightarrow> squash_changes into_vm_status rest (bt_insert other_id entry' changes)))"

subsection \<open>The natives\<close>

text \<open>
  A native returns its cost and the returned values, or an error; the context is passed on in both cases.
  \<open>None\<close> is a panic.
\<close>

type_synonym ('v, 'e) native_outcome = "((u64 \<times> 'v list, partial_vm_error) result \<times> 'e native_context) option"

definition fails :: "partial_vm_error \<Rightarrow> 'e native_context \<Rightarrow> ('v, 'e) native_outcome" where
  "fails e ctx = Some (Err e, ctx)"

definition pop_aggregator ::
  "('v, 'st, 'sr, 'rf) host \<Rightarrow> 'v list \<Rightarrow> (aggregator_id \<times> u128, partial_vm_error) result" where
  "pop_aggregator H args =
     bind_ok (pop_back_arg H args) (\<lambda>(v, _). bind_ok (as_struct_ref H v) (aggregator_info H))"

text \<open>The common part of \<open>native_add\<close> and \<open>native_sub\<close>: the two differ in the operation only.\<close>

definition native_update ::
  "(aggregator \<Rightarrow> u128 \<Rightarrow> (aggregator, partial_vm_error) result option) \<Rightarrow>
   ('v, 'st, 'sr, 'rf) host \<Rightarrow> u64 \<Rightarrow> 'e native_context \<Rightarrow> 'v list \<Rightarrow> ('v, 'e) native_outcome" where
  "native_update upd H base ctx args =
     (if length args = 2 then
        case bind_ok (pop_back_arg H args) (\<lambda>(v, args'). map_ok (\<lambda>value. (value, args')) (as_u128 H v)) of
          Err e \<Rightarrow> fails e ctx
        | Ok (value, args') \<Rightarrow>
        (case pop_aggregator H args' of
           Err e \<Rightarrow> fails e ctx
         | Ok (i, limit) \<Rightarrow>
             (let (ag, d) = get_aggregator (ctx_data ctx) i limit
              in case upd ag value of
                   None \<Rightarrow> None
                 | Some (Err e) \<Rightarrow> fails e (ctx\<lparr>ctx_data := d\<rparr>)
                 | Some (Ok ag') \<Rightarrow> Some (Ok (base, []), ctx\<lparr>ctx_data := put_aggregator d i ag'\<rparr>)))
      else None)"

definition native_add ::
  "('v, 'st, 'sr, 'rf) host \<Rightarrow> u64 \<Rightarrow> 'e native_context \<Rightarrow> 'v list \<Rightarrow> ('v, 'e) native_outcome" where
  "native_add = native_update agg_add"

definition native_sub ::
  "('v, 'st, 'sr, 'rf) host \<Rightarrow> u64 \<Rightarrow> 'e native_context \<Rightarrow> 'v list \<Rightarrow> ('v, 'e) native_outcome" where
  "native_sub = native_update agg_sub"

definition native_read ::
  "('v, 'st, 'sr, 'rf) host \<Rightarrow> u64 \<Rightarrow> 'e native_context \<Rightarrow> 'v list \<Rightarrow> ('v, 'e) native_outcome" where
  "native_read H base ctx args =
     (if length args = 1 then
        case pop_aggregator H args of
          Err e \<Rightarrow> fails e ctx
        | Ok (i, limit) \<Rightarrow>
            (let (ag, d) = get_aggregator (ctx_data ctx) i limit
             in case read_and_materialize (codec H) (address_to_vec H) (resolver ctx) ag i of
                  None \<Rightarrow> None
                | Some (Err e) \<Rightarrow> fails e (ctx\<lparr>ctx_data := d\<rparr>)
                | Some (Ok (v, ag')) \<Rightarrow>
                    Some (Ok (base, [of_u128 H v]), ctx\<lparr>ctx_data := put_aggregator d i ag'\<rparr>))
      else None)"

definition native_destroy ::
  "('v, 'st, 'sr, 'rf) host \<Rightarrow> u64 \<Rightarrow> 'e native_context \<Rightarrow> 'v list \<Rightarrow> ('v, 'e) native_outcome" where
  "native_destroy H base ctx args =
     (if length args = 1 then
        case bind_ok (pop_back_arg H args) (\<lambda>(v, _). as_struct H v) of
          Err e \<Rightarrow> fails e ctx
        | Ok aggregator_struct \<Rightarrow>
            (case unpack_aggregator_struct H aggregator_struct of
               None \<Rightarrow> None
             | Some (Err e) \<Rightarrow> fails e ctx
             | Some (Ok (handle, key, _)) \<Rightarrow>
                 Some (Ok (base, []),
                       ctx\<lparr>ctx_data := remove_aggregator (ctx_data ctx) (AggregatorID handle key)\<rparr>))
      else None)"

text \<open>\<open>u32::to_be_bytes\<close>.\<close>

definition to_be_bytes :: "32 word \<Rightarrow> bytes" where
  "to_be_bytes n = map (\<lambda>k. ucast (drop_bit (8 * k) n)) [3, 2, 1, 0]"

definition new_key :: "('v, 'st, 'sr, 'rf) host \<Rightarrow> 'e native_context \<Rightarrow> (address, partial_vm_error) result" where
  "new_key H ctx =
     (let num_aggregators_len = ucast (num_aggregators (ctx_data ctx));
          hash = hash_updates H [txn_hash ctx, to_be_bytes num_aggregators_len]
      in case address_from_bytes H hash of
           None \<Rightarrow> Err (extension_error ''unable to create aggregator key'')
         | Some key \<Rightarrow> Ok key)"

definition aggregator_struct_of ::
  "('v, 'st, 'sr, 'rf) host \<Rightarrow> address \<Rightarrow> address \<Rightarrow> u128 \<Rightarrow> 'v" where
  "aggregator_struct_of H handle key limit =
     of_struct H (pack_struct H [of_address H handle, of_address H key, of_u128 H limit])"

definition native_new_aggregator ::
  "('v, 'st, 'sr, 'rf) host \<Rightarrow> u64 \<Rightarrow> 'e native_context \<Rightarrow> 'v list \<Rightarrow> ('v, 'e) native_outcome" where
  "native_new_aggregator H base ctx args =
     (if length args = 2 then
        case bind_ok (pop_back_arg H args) (\<lambda>(v, args'). map_ok (\<lambda>limit. (limit, args')) (as_u128 H v)) of
          Err e \<Rightarrow> fails e ctx
        | Ok (limit, args') \<Rightarrow>
        (case bind_ok (pop_back_arg H args') (\<lambda>(v, _). bind_ok (as_struct_ref H v) (get_handle H)) of
           Err e \<Rightarrow> fails e ctx
         | Ok handle \<Rightarrow>
             (case new_key H ctx of
                Err e \<Rightarrow> fails e ctx
              | Ok key \<Rightarrow>
                  Some (Ok (base, [aggregator_struct_of H handle key limit]),
                        ctx\<lparr>ctx_data := create_new_aggregator (ctx_data ctx) (AggregatorID handle key) limit\<rparr>)))
      else None)"

end
