(* ===== verification/Agg_Store.thy ===== *)
theory Agg_Store
  imports Agg_Natives
begin

text \<open>
  What the aggregator natives promise: a transaction sees a store of numbers, each with a limit, on which
  additions and subtractions are performed at once.  The natives do not read that store but keep deltas;
  this theory proves that their results and the change set they leave are those of the plain store, that
  squashing the change sets of two sessions is running one after the other, and that the ids of new
  aggregators are not always fresh.
\<close>

section \<open>Specification\<close>

text \<open>A native call after its arguments have been read off the Move values.\<close>

datatype agg_call =
    CNew aggregator_id u128
  | CUpdate aggregator_id u128 agg_op
  | CRead aggregator_id u128
  | CDestroy aggregator_id

fun call_id :: "agg_call \<Rightarrow> aggregator_id" where
  "call_id (CNew i l) = i"
| "call_id (CUpdate i l op) = i"
| "call_id (CRead i l) = i"
| "call_id (CDestroy i) = i"

fun call_limit :: "agg_call \<Rightarrow> u128 option" where
  "call_limit (CNew i l) = Some l"
| "call_limit (CUpdate i l op) = Some l"
| "call_limit (CRead i l) = Some l"
| "call_limit (CDestroy i) = None"

type_synonym store = "aggregator_id \<Rightarrow> u128 option"

text \<open>The plain store: numbers between 0 and the limit, changed at once.\<close>

fun op_result :: "u128 \<Rightarrow> u128 \<Rightarrow> agg_op \<Rightarrow> u128 option" where
  "op_result l b (AddOp v) = (if uint b + uint v \<le> uint l then Some (b + v) else None)"
| "op_result l b (SubOp v) = (if v \<le> b then Some (b - v) else None)"

fun store_step :: "store \<Rightarrow> agg_call \<Rightarrow> (u128 list \<times> store) option" where
  "store_step st (CNew i l) = Some ([], st(i \<mapsto> 0))"
| "store_step st (CUpdate i l op) =
     do { b \<leftarrow> st i; b' \<leftarrow> op_result l b op; Some ([], st(i \<mapsto> b')) }"
| "store_step st (CRead i l) = do { b \<leftarrow> st i; Some ([b], st) }"
| "store_step st (CDestroy i) = do { b \<leftarrow> st i; Some ([], st(i := None)) }"

fun store_run :: "store \<Rightarrow> agg_call list \<Rightarrow> (u128 list list \<times> store) option" where
  "store_run st [] = Some ([], st)"
| "store_run st (c # cs) =
     do { (out, st') \<leftarrow> store_step st c; (outs, st'') \<leftarrow> store_run st' cs; Some (out # outs, st'') }"

text \<open>Applying a change set to a store.\<close>

fun apply_change :: "u128 option \<Rightarrow> aggregator_change \<Rightarrow> u128 option option" where
  "apply_change b (ChWrite v) = Some (Some v)"
| "apply_change b (ChMerge d) = do { v \<leftarrow> b; r \<leftarrow> ok (apply_to d v); Some (Some r) }"
| "apply_change b ChDelete = Some None"

definition apply_changes :: "store \<Rightarrow> aggregator_change_set \<Rightarrow> store option" where
  "apply_changes st cs =
     (if \<forall>(i, c) \<in> set cs. apply_change (st i) c \<noteq> None
      then Some (\<lambda>i. case map_of cs i of None \<Rightarrow> st i | Some c \<Rightarrow> the (apply_change (st i) c))
      else None)"

text \<open>The same calls on the code's data.\<close>

fun call_step ::
  "bcs_codec \<Rightarrow> (address \<Rightarrow> bytes) \<Rightarrow> (address \<Rightarrow> bytes \<Rightarrow> (bytes option, 'e) result) \<Rightarrow>
   aggregator_data \<Rightarrow> agg_call \<Rightarrow> (u128 list \<times> aggregator_data, partial_vm_error) result option" where
  "call_step bcs tv res d (CNew i l) = Some (Ok ([], create_new_aggregator d i l))"
| "call_step bcs tv res d (CUpdate i l op) =
     (let (ag, d') = get_aggregator d i l
      in map_option (map_ok (\<lambda>ag'. ([], put_aggregator d' i ag'))) (agg_step ag op))"
| "call_step bcs tv res d (CRead i l) =
     (let (ag, d') = get_aggregator d i l
      in map_option (map_ok (\<lambda>(v, ag'). ([v], put_aggregator d' i ag'))) (read_and_materialize bcs tv res ag i))"
| "call_step bcs tv res d (CDestroy i) = Some (Ok ([], remove_aggregator d i))"

fun call_run ::
  "bcs_codec \<Rightarrow> (address \<Rightarrow> bytes) \<Rightarrow> (address \<Rightarrow> bytes \<Rightarrow> (bytes option, 'e) result) \<Rightarrow>
   aggregator_data \<Rightarrow> agg_call list \<Rightarrow> (u128 list list \<times> aggregator_data, partial_vm_error) result option" where
  "call_run bcs tv res d [] = Some (Ok ([], d))"
| "call_run bcs tv res d (c # cs) =
     (case call_step bcs tv res d c of
        None \<Rightarrow> None
      | Some (Err e) \<Rightarrow> Some (Err e)
      | Some (Ok (out, d')) \<Rightarrow>
          map_option (map_ok (\<lambda>(outs, d''). (out # outs, d''))) (call_run bcs tv res d' cs))"

text \<open>
  What Move's linear types and the hash promise of the calls of a transaction: an id is used only while it
  is live, always with its own limit, and a new id is one never used before.
\<close>

fun linear_use :: "(aggregator_id \<Rightarrow> u128) \<Rightarrow> aggregator_id set \<Rightarrow> aggregator_id set \<Rightarrow> agg_call list \<Rightarrow> bool" where
  "linear_use lim used live [] = True"
| "linear_use lim used live (CNew i l # cs) \<longleftrightarrow>
     i \<notin> used \<and> l = lim i \<and> linear_use lim (insert i used) (insert i live) cs"
| "linear_use lim used live (CUpdate i l op # cs) \<longleftrightarrow> i \<in> live \<and> l = lim i \<and> linear_use lim used live cs"
| "linear_use lim used live (CRead i l # cs) \<longleftrightarrow> i \<in> live \<and> l = lim i \<and> linear_use lim used live cs"
| "linear_use lim used live (CDestroy i # cs) \<longleftrightarrow> i \<in> live \<and> linear_use lim used (live - {i}) cs"

text \<open>The resolver serves the values of the store.\<close>

definition serves ::
  "bcs_codec \<Rightarrow> (address \<Rightarrow> bytes) \<Rightarrow> (address \<Rightarrow> bytes \<Rightarrow> (bytes option, 'e) result) \<Rightarrow> store \<Rightarrow> bool" where
  "serves bcs tv res base \<longleftrightarrow>
     (\<forall>i. case base i of
            None \<Rightarrow> res (aid_handle i) (tv (aid_key i)) = Ok None
          | Some b \<Rightarrow> \<exists>bs. res (aid_handle i) (tv (aid_key i)) = Ok (Some bs) \<and> from_bytes bcs bs = Some b)"

section \<open>Simulation\<close>

text \<open>How an entry of the table stands for the current value, and how it can be out of range for good.\<close>

definition entry_rel :: "u128 \<Rightarrow> u128 option \<Rightarrow> aggregator \<Rightarrow> u128 option \<Rightarrow> bool" where
  "entry_rel l b ag v \<longleftrightarrow> agg_wf ag \<and> agg_limit ag = l \<and>
     (if agg_state ag = Data then v = Some (agg_value ag) \<and> agg_value ag \<le> l
      else \<exists>b' v' s M m. b = Some b' \<and> v = Some v' \<and> agg_view ag (uint l) s M m \<and>
             uint b' + M \<le> uint l \<and> m \<le> uint b' \<and> uint v' = uint b' + s)"

definition poisoned :: "store \<Rightarrow> aggregator_data \<Rightarrow> bool" where
  "poisoned base d \<longleftrightarrow>
     (\<exists>i ag b L s M m. map_of (aggregators d) i = Some ag \<and> base i = Some b \<and> agg_view ag L s M m \<and>
        i \<notin> destroyed_aggregators d \<and> \<not> (uint b + M \<le> L \<and> m \<le> uint b))"

fun slot_rel :: "u128 \<Rightarrow> u128 option \<Rightarrow> bool \<Rightarrow> aggregator option \<Rightarrow> u128 option \<Rightarrow> bool" where
  "slot_rel l b gone (Some ag) v \<longleftrightarrow> entry_rel l b ag v \<and> \<not> gone"
| "slot_rel l b gone None v \<longleftrightarrow> v = (if gone then None else b)"

definition data_rel :: "(aggregator_id \<Rightarrow> u128) \<Rightarrow> store \<Rightarrow> aggregator_data \<Rightarrow> store \<Rightarrow> bool" where
  "data_rel lim base d st \<longleftrightarrow>
     aggregator_data_wf d \<and> finite (destroyed_aggregators d) \<and>
     (\<forall>i. slot_rel (lim i) (base i) (i \<in> destroyed_aggregators d) (map_of (aggregators d) i) (st i)) \<and>
     (\<forall>i \<in> new_aggregators d. base i = None)"

text \<open>The result of a step against the specification.\<close>

definition step_rel ::
  "(aggregator_id \<Rightarrow> u128) \<Rightarrow> store \<Rightarrow> (u128 list \<times> aggregator_data, partial_vm_error) result option \<Rightarrow>
   (u128 list \<times> store) option \<Rightarrow> bool" where
  "step_rel lim base r spec \<longleftrightarrow>
     (case spec of
        Some (out, st') \<Rightarrow> \<exists>d'. r = Some (Ok (out, d')) \<and> data_rel lim base d' st'
      | None \<Rightarrow> (\<exists>e. r = Some (Err e)) \<or> (\<exists>out d'. r = Some (Ok (out, d')) \<and> aggregator_data_wf d' \<and> finite (destroyed_aggregators d') \<and> poisoned base d'))"

lemma op_result_iff:
  assumes "uint b \<le> uint l"
  shows "op_result l b op = Some r \<longleftrightarrow>
    0 \<le> uint b + op_offset op \<and> uint b + op_offset op \<le> uint l \<and> uint r = uint b + op_offset op"
proof (cases op)
  case (AddOp v)
  then show ?thesis using uint_add_le[of b v l] by (auto simp: uint_eq_iff)
next
  case (SubOp v)
  have "uint b - uint v \<le> uint l" using assms uint_ge_0_lt[of v] by linarith
  with SubOp show ?thesis
    using uint_sub_le[of v b] by (auto simp: uint_eq_iff word_le_def)
qed

lemma op_result_None:
  assumes "uint b \<le> uint l"
  shows "op_result l b op = None \<longleftrightarrow> \<not> (0 \<le> uint b + op_offset op \<and> uint b + op_offset op \<le> uint l)"
proof (cases op)
  case (SubOp v)
  have "uint b - uint v \<le> uint l" using assms uint_ge_0_lt[of v] by linarith
  with SubOp show ?thesis by (simp add: word_le_def)
qed (use uint_ge_0_lt[of b] in auto)

lemma entry_rel_delta:
  assumes "agg_view ag (uint l) s M m" "uint b + M \<le> uint l" "m \<le> uint b" "uint v = uint b + s"
  shows "entry_rel l (Some b) ag (Some v)"
proof -
  have "agg_state ag \<noteq> Data" "agg_limit ag = l" using assms(1) by (auto simp: agg_view_def uint_eq_iff)
  moreover have "\<exists>s M m. agg_view ag (uint l) s M m \<and> uint b + M \<le> uint l \<and> m \<le> uint b \<and> uint v = uint b + s"
    using assms by blast
  ultimately show ?thesis using agg_view_wf[OF assms(1)] by (simp add: entry_rel_def)
qed

text \<open>One operation on an instance against the plain number.\<close>

lemma entry_update:
  assumes "entry_rel l b ag (Some v)"
  shows "case op_result l v op of
      Some v' \<Rightarrow> \<exists>ag'. agg_step ag op = Some (Ok ag') \<and> entry_rel l b ag' (Some v')
    | None \<Rightarrow> (\<exists>e. agg_step ag op = Some (Err e)) \<or>
        (\<exists>ag' b' L s M m. agg_step ag op = Some (Ok ag') \<and> b = Some b' \<and> agg_view ag' L s M m \<and>
           \<not> (uint b' + M \<le> L \<and> m \<le> uint b'))"
proof (cases "agg_state ag = Data")
  case True
  then have h: "agg_history ag = None" "agg_value ag = v" "uint v \<le> uint l" "agg_limit ag = l"
    using assms by (auto simp: entry_rel_def agg_wf_def word_le_def split: option.splits)
  from agg_run_data[OF True h(1) _ _, of "uint l" "[op]"] h obtain r where r: "agg_run ag [op] = Some r"
    "map_option (\<lambda>a. uint (agg_value a)) (ok r) = int_run (uint l) (uint v) [op]" by auto
  have st: "agg_step ag op = Some r" using r(1) by (cases "agg_step ag op") (auto split: result.splits)
  have keep: "agg_wf ag' \<and> agg_limit ag' = l \<and> agg_state ag' = Data" if "r = Ok ag'" for ag'
    using st h(1,4) True that by (cases op) (auto simp: agg_add_def agg_sub_def map_ok_eq_Ok agg_wf_def)
  show ?thesis
  proof (cases "op_result l v op")
    case None
    with r(2) h(3) have "ok r = None" by (auto simp: op_result_None Let_def split: if_splits)
    with None st show ?thesis by (auto simp: ok_eq_None)
  next
    case (Some v')
    with h(3) have "int_run (uint l) (uint v) [op] = Some (uint v')" "uint v' \<le> uint l"
      by (auto simp: op_result_iff Let_def)
    with r(2) obtain ag' where "r = Ok ag'" "agg_value ag' = v'" "v' \<le> l"
      by (auto simp: ok_eq_Some uint_eq_iff word_le_def)
    with keep st Some show ?thesis by (auto simp: entry_rel_def)
  qed
next
  case False
  then obtain b' s M m where v: "b = Some b'" "agg_view ag (uint l) s M m" "uint b' + M \<le> uint l" "m \<le> uint b'"
    "uint v = uint b' + s" and l: "agg_limit ag = l"
    using assms by (auto simp: entry_rel_def)
  have vl: "uint v \<le> uint l" using v by (auto simp: agg_view_def)
  have step: "step_ok (agg_step ag op) (uint l) (s + op_offset op) M m" using v(2) by (rule agg_step_delta)
  let ?s = "s + op_offset op"
  show ?thesis
  proof (cases "op_result l v op")
    case None
    then have out: "\<not> (0 \<le> uint b' + ?s \<and> uint b' + ?s \<le> uint l)"
      using v(5) vl by (simp add: op_result_None add.assoc)
    then have w: "\<not> (uint b' + max M ?s \<le> uint l \<and> max m (- ?s) \<le> uint b')" by auto
    show ?thesis
    proof (cases "\<exists>ag'. agg_step ag op = Some (Ok ag')")
      case True
      then obtain ag' where "agg_step ag op = Some (Ok ag')" by auto
      moreover from this step have "agg_view ag' (uint l) ?s (max M ?s) (max m (- ?s))" by (simp add: step_ok_def)
      ultimately show ?thesis using w None v(1) by (simp only: option.case) blast
    next
      case False
      with step None show ?thesis by (auto simp: step_ok_def split: option.splits result.splits)
    qed
  next
    case (Some v')
    then have inr: "0 \<le> uint b' + ?s" "uint b' + ?s \<le> uint l" "uint v' = uint b' + ?s"
      using v(5) vl by (auto simp: op_result_iff add.assoc)
    with v(3,4) have w: "uint b' + max M ?s \<le> uint l" "max m (- ?s) \<le> uint b'" by auto
    from step inr v(3,4) obtain ag' where ag': "agg_step ag op = Some (Ok ag')"
      "agg_view ag' (uint l) ?s (max M ?s) (max m (- ?s))"
      by (auto simp: step_ok_def split: option.splits result.splits)
    from entry_rel_delta[OF ag'(2) w inr(3)] ag'(1) v(1) Some show ?thesis by simp
  qed
qed

lemma entry_read:
  assumes "entry_rel l b ag (Some v)" "serves bcs tv res base" "base i = b"
  shows "\<exists>ag'. read_and_materialize bcs tv res ag i = Some (Ok (v, ag')) \<and> entry_rel l b ag' (Some v)"
proof (cases "agg_state ag = Data")
  case True
  with assms(1) show ?thesis by (auto simp: read_and_materialize_def entry_rel_def)
next
  case False
  then obtain b' s M m where v: "b = Some b'" "agg_view ag (uint l) s M m" "uint b' + M \<le> uint l" "m \<le> uint b'"
    "uint v = uint b' + s" and l: "agg_limit ag = l"
    using assms(1) by (auto simp: entry_rel_def)
  obtain bs where bs: "res (aid_handle i) (tv (aid_key i)) = Ok (Some bs)" "from_bytes bcs bs = Some b'"
    using assms(2,3) v(1) by (force simp: serves_def split: option.splits)
  let ?ag = "ag\<lparr>agg_value := v, agg_state := Data, agg_history := None\<rparr>"
  have "materialize_with ag b' = Some (Ok (v, ?ag))" using v by (simp add: materialize_with_Ok[OF v(2)])
  moreover have "entry_rel l b ?ag (Some v)"
    using v l by (auto simp: entry_rel_def agg_wf_def agg_view_def word_le_def)
  ultimately show ?thesis using bs False by (auto simp: read_and_materialize_def deserialize_def)
qed

section \<open>Steps\<close>

lemma entry_fresh:
  assumes "uint b \<le> uint l"
  shows "entry_rel l (Some b) (delta_aggregator l) (Some b)"
  using assms by (intro entry_rel_delta[OF agg_view_delta_aggregator]) simp_all

lemma data_rel_get:
  assumes "data_rel lim base d st" "st i = Some v" "\<forall>i b. base i = Some b \<longrightarrow> b \<le> lim i"
    "get_aggregator d i (lim i) = (ag, d')"
  shows "entry_rel (lim i) (base i) ag (Some v)" "data_rel lim base d' st" "destroyed_aggregators d' = destroyed_aggregators d"
    "i \<notin> destroyed_aggregators d'"
proof -
  have c: "slot_rel (lim i) (base i) (i \<in> destroyed_aggregators d) (map_of (aggregators d) i) (Some v)"
    using assms(1,2) by (metis data_rel_def)
  have nd: "i \<notin> destroyed_aggregators d" using c by (cases "map_of (aggregators d) i") auto
  show dd: "destroyed_aggregators d' = destroyed_aggregators d"
    using assms(4) by (auto simp: get_aggregator_def Let_def split: option.splits)
  show "i \<notin> destroyed_aggregators d'" using nd dd by simp
  have new: "new_aggregators d' = new_aggregators d"
    using assms(4) by (auto simp: get_aggregator_def Let_def split: option.splits)
  show e: "entry_rel (lim i) (base i) ag (Some v)"
  proof (cases "map_of (aggregators d) i")
    case None
    with c nd have b: "base i = Some v" by simp
    with assms(3) have "uint v \<le> uint (lim i)" by (simp add: word_le_def)
    with entry_fresh None b assms(4) show ?thesis by (auto simp: get_aggregator_def Let_def)
  next
    case (Some a)
    with c assms(4) show ?thesis by (auto simp: get_aggregator_def)
  qed
  have wf: "aggregator_data_wf d'" and at: "map_of (aggregators d') i = Some ag"
    using get_aggregator_wf[OF _ assms(4)] assms(1) by (auto simp: data_rel_def)
  have other: "map_of (aggregators d') j = map_of (aggregators d) j" if "j \<noteq> i" for j
    using assms(4) that by (auto simp: get_aggregator_def Let_def map_of_bt_insert split: option.splits)
  have "slot_rel (lim j) (base j) (j \<in> destroyed_aggregators d') (map_of (aggregators d') j) (st j)" for j
    using assms(1) at e nd other[of j] assms(2) dd by (cases "j = i") (simp_all add: data_rel_def)
  with wf assms(1) dd new show "data_rel lim base d' st" by (simp add: data_rel_def)
qed

lemma data_rel_put:
  assumes "data_rel lim base d st" "entry_rel (lim i) (base i) ag v" "i \<notin> destroyed_aggregators d"
  shows "data_rel lim base (put_aggregator d i ag) (st(i := v))"
proof -
  have "agg_wf ag" using assms(2) by (simp add: entry_rel_def)
  with assms(1) have "aggregator_data_wf (put_aggregator d i ag)"
    by (auto simp: data_rel_def put_aggregator_wf)
  with assms show ?thesis
    by (simp add: data_rel_def put_aggregator_def map_of_bt_insert)
qed

lemma data_rel_create:
  assumes "data_rel lim base d st" "base i = None" "i \<notin> destroyed_aggregators d"
  shows "data_rel lim base (create_new_aggregator d i (lim i)) (st(i \<mapsto> 0))"
proof -
  let ?ag = "\<lparr>agg_value = 0, agg_state = Data, agg_limit = lim i, agg_history = None\<rparr>"
  have "entry_rel (lim i) (base i) ?ag (Some 0)" by (simp add: entry_rel_def agg_wf_def)
  moreover have "aggregator_data_wf (create_new_aggregator d i (lim i))"
    using assms(1) by (intro create_new_aggregator_wf) (simp add: data_rel_def)
  ultimately show ?thesis
    using assms by (simp add: data_rel_def create_new_aggregator_def Let_def map_of_bt_insert)
qed

lemma data_rel_remove:
  assumes "data_rel lim base d st"
  shows "data_rel lim base (remove_aggregator d i) (st(i := None))"
proof -
  have "aggregator_data_wf (remove_aggregator d i)"
    using assms by (intro remove_aggregator_wf) (simp add: data_rel_def)
  with assms show ?thesis
    by (auto simp: data_rel_def remove_aggregator_def Let_def map_of_bt_remove)
qed

text \<open>Side conditions of one call.\<close>

fun call_fine :: "(aggregator_id \<Rightarrow> u128) \<Rightarrow> store \<Rightarrow> aggregator_data \<Rightarrow> store \<Rightarrow> agg_call \<Rightarrow> bool" where
  "call_fine lim base d st (CNew i l) \<longleftrightarrow> base i = None \<and> i \<notin> destroyed_aggregators d \<and> l = lim i"
| "call_fine lim base d st (CUpdate i l op) \<longleftrightarrow> i \<in> dom st \<and> l = lim i"
| "call_fine lim base d st (CRead i l) \<longleftrightarrow> i \<in> dom st \<and> l = lim i"
| "call_fine lim base d st (CDestroy i) \<longleftrightarrow> i \<in> dom st"

lemma poisoned_put:
  assumes "base i = Some b" "agg_view ag L s M m" "\<not> (uint b + M \<le> L \<and> m \<le> uint b)" "i \<notin> destroyed_aggregators d"
  shows "poisoned base (put_aggregator d i ag)"
  unfolding poisoned_def put_aggregator_def
  by (intro exI[of _ i] exI[of _ ag] exI[of _ b] exI[of _ L] exI[of _ s] exI[of _ M] exI[of _ m])
    (use assms in \<open>simp add: map_of_bt_insert\<close>)

lemma call_step_simulates:
  assumes rel: "data_rel lim base d st" and fine: "call_fine lim base d st c"
    and base: "\<forall>i b. base i = Some b \<longrightarrow> b \<le> lim i" and srv: "serves bcs tv res base"
  shows "step_rel lim base (call_step bcs tv res d c) (store_step st c)"
proof (cases c)
  case (CNew i l)
  with data_rel_create[OF rel, of i] fine show ?thesis by (simp add: step_rel_def)
next
  case (CDestroy i)
  with data_rel_remove[OF rel, of i] fine show ?thesis by (auto simp: step_rel_def)
next
  case (CRead i l)
  obtain ag d' where g: "get_aggregator d i (lim i) = (ag, d')" by fastforce
  from CRead fine obtain v where v: "st i = Some v" "l = lim i" by auto
  note get = data_rel_get[OF rel v(1) base g]
  from entry_read[OF get(1) srv refl] obtain ag' where
    "read_and_materialize bcs tv res ag i = Some (Ok (v, ag'))" "entry_rel (lim i) (base i) ag' (Some v)" by blast
  with data_rel_put[OF get(2) _ get(4), of ag' "Some v"] g v CRead show ?thesis
    by (simp add: step_rel_def fun_upd_idem)
next
  case (CUpdate i l op)
  obtain ag d' where g: "get_aggregator d i (lim i) = (ag, d')" by fastforce
  from CUpdate fine obtain v where v: "st i = Some v" "l = lim i" by auto
  note get = data_rel_get[OF rel v(1) base g]
  show ?thesis
  proof (cases "op_result (lim i) v op")
    case (Some v')
    with entry_update[OF get(1), of op] obtain ag' where
      "agg_step ag op = Some (Ok ag')" "entry_rel (lim i) (base i) ag' (Some v')" by auto
    with data_rel_put[OF get(2) _ get(4), of ag' "Some v'"] g v CUpdate Some show ?thesis
      by (simp add: step_rel_def)
  next
    case None
    then have spec: "store_step st c = None" using CUpdate v by simp
    from entry_update[OF get(1), of op] None consider
        e where "agg_step ag op = Some (Err e)"
      | ag' b' L s M m where "agg_step ag op = Some (Ok ag')" "base i = Some b'" "agg_view ag' L s M m"
          "\<not> (uint b' + M \<le> L \<and> m \<le> uint b')" by auto
    then show ?thesis
    proof cases
      case 1
      with spec g v CUpdate show ?thesis by (simp add: step_rel_def)
    next
      case 2
      have "aggregator_data_wf (put_aggregator d' i ag')" "finite (destroyed_aggregators d')"
        using get(2) agg_view_wf[OF 2(3)] by (auto simp: data_rel_def put_aggregator_wf)
      with 2(1) poisoned_put[where base = base and i = i and d = d', OF 2(2-4) get(4)] spec g v CUpdate show ?thesis
        by (simp add: step_rel_def put_aggregator_def)
    qed
  qed
qed

section \<open>The change set\<close>

lemma change_of_view:
  assumes "agg_view ag L s M m"
  shows "\<exists>dl. change_of ag = Some (ChMerge dl) \<and> op_limit dl = agg_limit ag \<and>
    (\<forall>b r. apply_to dl b = Ok r \<longleftrightarrow> uint b + M \<le> L \<and> m \<le> uint b \<and> uint r = uint b + s)"
proof -
  from assms obtain h where h: "agg_history ag = Some h" "uint (hist_max_positive h) = M"
    "uint (hist_min_negative h) = m" and b: "uint (agg_limit ag) = L" "s \<le> M" "- m \<le> s" "agg_offset ag = s"
    by (auto simp: agg_view_def)
  define dl where "dl = delta_new (if agg_state ag = PositiveDelta then Plus (agg_value ag) else Minus (agg_value ag))
    (agg_limit ag) (hist_max_positive h) (hist_min_negative h)"
  have "change_of ag = Some (ChMerge dl)"
    using assms h(1) by (cases "agg_state ag") (auto simp: agg_view_def change_of_def agg_into_def dl_def)
  moreover have "signed_offset (op_update dl) = s"
    using assms b(4) by (cases "agg_state ag") (auto simp: agg_view_def dl_def delta_new_def agg_offset_def)
  then have "apply_to dl b = Ok r \<longleftrightarrow> uint b + M \<le> L \<and> m \<le> uint b \<and> uint r = uint b + s" for b r
    using h b unfolding apply_to_Ok delta_sem_def
    by (auto simp: dl_def delta_new_def split: if_splits)
  moreover have "op_limit dl = agg_limit ag" by (simp add: dl_def delta_new_def)
  ultimately show ?thesis by blast
qed

lemma change_of_total: "agg_wf ag \<Longrightarrow> \<exists>c. change_of ag = Some c"
  by (erule agg_wf_cases) (auto simp: change_of_def agg_into_def dest: change_of_view)

lemma collect_changes_map:
  assumes "\<forall>(i, ag) \<in> set ags. agg_wf ag" "distinct (map fst ags)" "bt_ok acc"
  shows "\<exists>cs. collect_changes ags acc = Some cs \<and> bt_ok cs \<and>
    (\<forall>i. map_of cs i = (case map_of ags i of Some ag \<Rightarrow> change_of ag | None \<Rightarrow> map_of acc i))"
  using assms
proof (induction ags arbitrary: acc)
  case Nil
  then show ?case by simp
next
  case (Cons x ags)
  obtain i ag where x: "x = (i, ag)" by fastforce
  with Cons.prems(1) obtain c where c: "change_of ag = Some c" using change_of_total by auto
  from Cons.IH[of "bt_insert i c acc"] Cons.prems obtain cs where cs: "collect_changes ags (bt_insert i c acc) = Some cs"
    "bt_ok cs" "\<forall>j. map_of cs j = (case map_of ags j of Some ag \<Rightarrow> change_of ag | None \<Rightarrow> map_of (bt_insert i c acc) j)"
    by (auto simp: bt_ok_insert)
  moreover have "map_of ags i = None" using Cons.prems(2) x by (simp add: map_of_eq_None_iff)
  ultimately show ?case using x c by (auto simp: map_of_bt_insert split: option.splits)
qed

lemma fold_delete:
  assumes "bt_ok cs"
  shows "bt_ok (fold (\<lambda>i. bt_insert i ChDelete) ds cs) \<and>
    (\<forall>i. map_of (fold (\<lambda>i. bt_insert i ChDelete) ds cs) i = (if i \<in> set ds then Some ChDelete else map_of cs i))"
  using assms by (induction ds arbitrary: cs) (auto simp: bt_ok_insert map_of_bt_insert)

lemma into_change_set_map:
  assumes "aggregator_data_wf (ctx_data ctx)" "finite (destroyed_aggregators (ctx_data ctx))"
  shows "\<exists>cs. into_change_set ctx = Some cs \<and> bt_ok cs \<and>
    (\<forall>i. map_of cs i = (if i \<in> destroyed_aggregators (ctx_data ctx) then Some ChDelete
                       else Option.bind (map_of (aggregators (ctx_data ctx)) i) change_of))"
proof -
  let ?ags = "aggregators (ctx_data ctx)"
  from assms(1) have "\<forall>(i, ag) \<in> set ?ags. agg_wf ag" "distinct (map fst ?ags)"
    using bt.ents_distinct[of ?ags] by (auto simp: aggregator_data_wf_def)
  from collect_changes_map[OF this, of "[]"] obtain cs where cs: "collect_changes ?ags [] = Some cs" "bt_ok cs"
    "\<forall>i. map_of cs i = (case map_of ?ags i of Some ag \<Rightarrow> change_of ag | None \<Rightarrow> None)" by (auto cong: option.case_cong)
  with fold_delete[OF cs(2), of "sorted_list_of_set (destroyed_aggregators (ctx_data ctx))"] assms(2) show ?thesis
    by (auto simp: into_change_set_def aggregator_data_into_def split: option.splits)
qed

lemma apply_changes_eq:
  assumes "bt_ok cs"
  shows "apply_changes st cs = Some st' \<longleftrightarrow>
    (\<forall>i. case map_of cs i of None \<Rightarrow> st' i = st i | Some c \<Rightarrow> apply_change (st i) c = Some (st' i))"
proof -
  have e: "(i, c) \<in> set cs \<longleftrightarrow> map_of cs i = Some c" for i c using bt.get_iff_ents[OF assms] by auto
  show ?thesis
  proof (cases "\<forall>(i, c) \<in> set cs. apply_change (st i) c \<noteq> None")
    case True
    have "(case map_of cs i of None \<Rightarrow> st i | Some c \<Rightarrow> the (apply_change (st i) c)) = st' i \<longleftrightarrow>
      (case map_of cs i of None \<Rightarrow> st' i = st i | Some c \<Rightarrow> apply_change (st i) c = Some (st' i))" for i
    proof (cases "map_of cs i")
      case (Some c)
      then have "apply_change (st i) c \<noteq> None" using True e by blast
      with Some show ?thesis by auto
    qed auto
    with True show ?thesis by (simp add: apply_changes_def fun_eq_iff)
  next
    case False
    then obtain i c where "map_of cs i = Some c" "apply_change (st i) c = None" using e by auto
    then have "\<not> (case map_of cs i of None \<Rightarrow> st' i = st i | Some c \<Rightarrow> apply_change (st i) c = Some (st' i))" by simp
    with False show ?thesis by (auto simp: apply_changes_def)
  qed
qed

text \<open>At the end of a transaction: the change set turns the stored values into the current ones, or fails.\<close>

lemma change_set_correct:
  assumes "data_rel lim base (ctx_data ctx) st"
  shows "\<exists>cs. into_change_set ctx = Some cs \<and> apply_changes base cs = Some st"
proof -
  let ?d = "ctx_data ctx"
  from assms into_change_set_map[of ctx] obtain cs where cs: "into_change_set ctx = Some cs" "bt_ok cs"
    "\<forall>i. map_of cs i = (if i \<in> destroyed_aggregators ?d then Some ChDelete
                     else Option.bind (map_of (aggregators ?d) i) change_of)"
    by (auto simp: data_rel_def)
  have "case map_of cs i of None \<Rightarrow> st i = base i | Some c \<Rightarrow> apply_change (base i) c = Some (st i)" for i
  proof -
    have slot: "slot_rel (lim i) (base i) (i \<in> destroyed_aggregators ?d) (map_of (aggregators ?d) i) (st i)"
      using assms by (simp add: data_rel_def)
    show ?thesis
    proof (cases "map_of (aggregators ?d) i")
      case None
      with slot cs(3) show ?thesis by simp
    next
      case (Some ag)
      with slot have e: "entry_rel (lim i) (base i) ag (st i)" "i \<notin> destroyed_aggregators ?d" by auto
      show ?thesis
      proof (cases "agg_state ag = Data")
        case True
        with e Some cs(3) show ?thesis by (simp add: entry_rel_def change_of_def agg_into_def)
      next
        case False
        with e(1) obtain b v s M m where v: "base i = Some b" "st i = Some v" "agg_view ag (uint (lim i)) s M m"
          "uint b + M \<le> uint (lim i)" "m \<le> uint b" "uint v = uint b + s" by (auto simp: entry_rel_def)
        from change_of_view[OF v(3)] v obtain dl where "change_of ag = Some (ChMerge dl)" "apply_to dl b = Ok v" by auto
        with v e(2) Some cs(3) show ?thesis by simp
      qed
    qed
  qed
  with cs(1,2) show ?thesis by (auto simp: apply_changes_eq)
qed

lemma change_set_poisoned:
  assumes "aggregator_data_wf (ctx_data ctx)" "finite (destroyed_aggregators (ctx_data ctx))" "poisoned base (ctx_data ctx)"
  shows "\<exists>cs. into_change_set ctx = Some cs \<and> apply_changes base cs = None"
proof -
  let ?d = "ctx_data ctx"
  from into_change_set_map[OF assms(1,2)] obtain cs where cs: "into_change_set ctx = Some cs" "bt_ok cs"
    "\<forall>i. map_of cs i = (if i \<in> destroyed_aggregators ?d then Some ChDelete
                     else Option.bind (map_of (aggregators ?d) i) change_of)" by auto
  from assms(3) obtain i ag b L s M m where p: "map_of (aggregators ?d) i = Some ag" "base i = Some b"
    "agg_view ag L s M m" "i \<notin> destroyed_aggregators ?d" "\<not> (uint b + M \<le> L \<and> m \<le> uint b)"
    by (auto simp: poisoned_def)
  from change_of_view[OF p(3)] p(5) obtain dl where dl: "change_of ag = Some (ChMerge dl)" "\<And>r. apply_to dl b \<noteq> Ok r"
    by auto
  then have "ok (apply_to dl b) = None" by (cases "apply_to dl b") auto
  with cs(3) p dl(1) have "map_of cs i = Some (ChMerge dl)" "apply_change (base i) (ChMerge dl) = None" by simp_all
  then have "apply_changes base cs \<noteq> Some st" for st
    unfolding apply_changes_eq[OF cs(2)] by (auto intro!: exI[of _ i])
  with cs(1) show ?thesis by (metis not_Some_eq)
qed

section \<open>Runs\<close>

lemma read_wf:
  assumes "agg_wf ag" "read_and_materialize bcs tv res ag i = Some (Ok (v, ag'))"
  shows "agg_wf ag'"
  using assms(1)
proof (cases rule: agg_wf_cases)
  case known
  with assms show ?thesis by (simp add: read_and_materialize_def)
next
  case (delta L s M m)
  then have "agg_state ag \<noteq> Data" by (simp add: agg_view_def)
  with assms(2) obtain b where "materialize_with ag b = Some (Ok (v, ag'))"
    by (auto simp: read_and_materialize_def split: result.splits option.splits bind_splits)
  then show ?thesis unfolding materialize_with_Ok[OF delta] by (simp add: agg_wf_def)
qed

lemma call_step_wf:
  assumes "call_step bcs tv res d c = Some (Ok (out, d'))" "aggregator_data_wf d" "finite (destroyed_aggregators d)"
  shows "aggregator_data_wf d' \<and> finite (destroyed_aggregators d')"
proof (cases c)
  case (CNew i l)
  with assms show ?thesis using create_new_aggregator_wf[of d i l] by (auto simp: create_new_aggregator_def Let_def)
next
  case (CDestroy i)
  with assms show ?thesis using remove_aggregator_wf[of d i] by (auto simp: remove_aggregator_def Let_def)
next
  case (CRead i l)
  obtain ag d1 where g: "get_aggregator d i l = (ag, d1)" by fastforce
  then have "destroyed_aggregators d1 = destroyed_aggregators d"
    by (auto simp: get_aggregator_def Let_def split: option.splits)
  with assms CRead g get_aggregator_wf[OF assms(2) g] show ?thesis
    by (auto simp: map_ok_eq_Ok put_aggregator_wf read_wf) (simp add: put_aggregator_def)
next
  case (CUpdate i l op)
  obtain ag d1 where g: "get_aggregator d i l = (ag, d1)" by fastforce
  then have "destroyed_aggregators d1 = destroyed_aggregators d"
    by (auto simp: get_aggregator_def Let_def split: option.splits)
  moreover have "agg_wf ag" "aggregator_data_wf d1" using get_aggregator_wf[OF assms(2) g] by auto
  ultimately show ?thesis
    using assms CUpdate g agg_step_wf[of ag op]
    by (auto simp: map_ok_eq_Ok put_aggregator_wf) (simp add: put_aggregator_def)
qed

lemma get_aggregator_frame:
  assumes "get_aggregator d i l = (ag, d')"
  shows "destroyed_aggregators d' = destroyed_aggregators d" "j \<noteq> i \<Longrightarrow> map_of (aggregators d') j = map_of (aggregators d) j"
  using assms by (auto simp: get_aggregator_def Let_def map_of_bt_insert split: option.splits)

lemma call_step_frame:
  assumes "call_step bcs tv res d c = Some (Ok (out, d'))" "call_id c \<noteq> i"
  shows "map_of (aggregators d') i = map_of (aggregators d) i \<and>
    (i \<in> destroyed_aggregators d' \<longleftrightarrow> i \<in> destroyed_aggregators d)"
proof (cases c)
  case (CRead j l)
  obtain ag d1 where g: "get_aggregator d j l = (ag, d1)" by fastforce
  with assms CRead obtain ag' where "d' = put_aggregator d1 j ag'" by (auto simp: map_ok_eq_Ok)
  with assms(2) CRead get_aggregator_frame(1)[OF g] get_aggregator_frame(2)[OF g, of i] show ?thesis
    by (simp add: put_aggregator_def map_of_bt_insert)
next
  case (CUpdate j l op)
  obtain ag d1 where g: "get_aggregator d j l = (ag, d1)" by fastforce
  with assms CUpdate obtain ag' where "d' = put_aggregator d1 j ag'" by (auto simp: map_ok_eq_Ok)
  with assms(2) CUpdate get_aggregator_frame(1)[OF g] get_aggregator_frame(2)[OF g, of i] show ?thesis
    by (simp add: put_aggregator_def map_of_bt_insert)
qed (use assms in \<open>auto simp: create_new_aggregator_def remove_aggregator_def Let_def map_of_bt_insert map_of_bt_remove split: if_splits\<close>)

fun keeps :: "store \<Rightarrow> agg_call \<Rightarrow> bool" where
  "keeps base (CNew i l) = (base i = None)"
| "keeps base (CDestroy i) = False"
| "keeps base c = True"

lemma poisoned_step:
  assumes "poisoned base d" "call_step bcs tv res d c = Some (Ok (out, d'))" "keeps base c" "serves bcs tv res base"
  shows "poisoned base d'"
proof -
  from assms(1) obtain i ag b L s M m where p: "map_of (aggregators d) i = Some ag" "base i = Some b"
    "agg_view ag L s M m" "i \<notin> destroyed_aggregators d" "\<not> (uint b + M \<le> L \<and> m \<le> uint b)"
    by (auto simp: poisoned_def)
  show ?thesis
  proof (cases "call_id c = i")
    case False
    with call_step_frame[OF assms(2), of i] p show ?thesis unfolding poisoned_def by metis
  next
    case True
    have g: "get_aggregator d i l = (ag, d)" for l using p(1) by (simp add: get_aggregator_def)
    show ?thesis
    proof (cases c)
      case (CUpdate j l op)
      with True assms(2) g[of l] obtain ag' where ag': "agg_step ag op = Some (Ok ag')" "d' = put_aggregator d i ag'"
        by (auto simp: map_ok_eq_Ok)
      let ?s = "s + op_offset op"
      from agg_step_delta[OF p(3), of op] ag'(1) have v: "agg_view ag' L ?s (max M ?s) (max m (- ?s))"
        by (simp add: step_ok_def)
      have "\<not> (uint b + max M ?s \<le> L \<and> max m (- ?s) \<le> uint b)" using p(5) by auto
      from poisoned_put[where base = base and i = i and d = d, OF p(2) v this p(4)] ag'(2) show ?thesis by simp
    next
      case (CRead j l)
      obtain bs where bs: "res (aid_handle i) (tv (aid_key i)) = Ok (Some bs)" "from_bytes bcs bs = Some b"
        using assms(4) p(2) by (force simp: serves_def split: option.splits)
      have "agg_state ag \<noteq> Data" using p(3) by (simp add: agg_view_def)
      with bs have "read_and_materialize bcs tv res ag i = materialize_with ag b"
        by (simp add: read_and_materialize_def deserialize_def)
      moreover have "materialize_with ag b \<noteq> Some (Ok r)" for r
        using materialize_with_Ok[OF p(3), of b "fst r" "snd r"] p(5) by auto
      ultimately show ?thesis using CRead True assms(2) g[of l] by (auto simp: map_ok_eq_Ok)
    qed (use True assms(3) p(2) in auto)
  qed
qed

fun no_destroy :: "agg_call list \<Rightarrow> bool" where
  "no_destroy [] = True"
| "no_destroy (c # cs) = ((\<forall>i. c \<noteq> CDestroy i) \<and> no_destroy cs)"

lemma linear_use_keeps:
  assumes "linear_use lim used live (c # cs)" "\<forall>i. c \<noteq> CDestroy i" "dom base \<subseteq> used"
  shows "keeps base c \<and> (\<exists>used' live'. linear_use lim used' live' cs \<and> used \<subseteq> used')"
proof (cases c)
  case (CNew i l)
  with assms have "base i = None" by auto
  with CNew assms(1) show ?thesis by auto
qed (use assms in auto)

lemma poisoned_run:
  assumes "poisoned base d" "aggregator_data_wf d" "finite (destroyed_aggregators d)"
    "call_run bcs tv res d cs = Some (Ok (outs, d'))" "linear_use lim used live cs" "no_destroy cs" "dom base \<subseteq> used"
    "serves bcs tv res base"
  shows "poisoned base d' \<and> aggregator_data_wf d' \<and> finite (destroyed_aggregators d')"
  using assms
proof (induction cs arbitrary: d outs used live)
  case Nil
  then show ?case by simp
next
  case (Cons c cs)
  from Cons.prems(4) obtain out d1 outs1 where s: "call_step bcs tv res d c = Some (Ok (out, d1))"
    "call_run bcs tv res d1 cs = Some (Ok (outs1, d'))"
    by (auto simp: map_ok_eq_Ok split: option.splits result.splits)
  from linear_use_keeps[OF Cons.prems(5) _ Cons.prems(7)] Cons.prems(6) obtain used' live' where
    k: "keeps base c" "linear_use lim used' live' cs" "used \<subseteq> used'" by auto
  have "poisoned base d1" using poisoned_step[OF Cons.prems(1) s(1) k(1) Cons.prems(8)] .
  with Cons.IH[OF _ _ _ s(2) k(2)] call_step_wf[OF s(1) Cons.prems(2,3)] Cons.prems(6-8) k(3) show ?case by auto
qed

text \<open>The invariant of a run: what is live is what the store holds, what was ever used stays used.\<close>

definition run_inv :: "(aggregator_id \<Rightarrow> u128) \<Rightarrow> store \<Rightarrow> aggregator_id set \<Rightarrow> aggregator_data \<Rightarrow> store \<Rightarrow> bool" where
  "run_inv lim base used d st \<longleftrightarrow> data_rel lim base d st \<and> dom base \<subseteq> used \<and> dom st \<subseteq> used \<and> destroyed_aggregators d \<subseteq> used"

lemma call_step_destroyed:
  assumes "call_step bcs tv res d c = Some (Ok (out, d'))"
  shows "destroyed_aggregators d' \<subseteq> insert (call_id c) (destroyed_aggregators d)"
proof
  fix x assume "x \<in> destroyed_aggregators d'"
  with call_step_frame[OF assms, of x] show "x \<in> insert (call_id c) (destroyed_aggregators d)" by auto
qed

lemma store_step_dom:
  assumes "store_step st c = Some (out, st')"
  shows "dom st' \<subseteq> insert (call_id c) (dom st)"
  using assms by (cases c) (auto split: bind_splits if_splits)

lemma linear_step:
  assumes "run_inv lim base used d st" "linear_use lim used (dom st) (c # cs)"
  shows "call_fine lim base d st c"
    and "store_step st c = Some (out, st') \<Longrightarrow> call_step bcs tv res d c = Some (Ok (out', d')) \<Longrightarrow>
      data_rel lim base d' st' \<Longrightarrow> \<exists>used'. run_inv lim base used' d' st' \<and> linear_use lim used' (dom st') cs"
proof -
  show "call_fine lim base d st c" using assms by (cases c) (auto simp: run_inv_def)
  assume st: "store_step st c = Some (out, st')" and step: "call_step bcs tv res d c = Some (Ok (out', d'))"
    and rel: "data_rel lim base d' st'"
  show "\<exists>used'. run_inv lim base used' d' st' \<and> linear_use lim used' (dom st') cs"
  proof (intro exI conjI)
    have sub: "call_id c \<in> used \<or> (\<exists>l. c = CNew (call_id c) l)" using assms by (cases c) (auto simp: run_inv_def)
    show "run_inv lim base (insert (call_id c) used) d' st'"
      using assms(1) rel call_step_destroyed[OF step] store_step_dom[OF st] unfolding run_inv_def by blast
    have "insert (call_id c) used = used" if "\<forall>l. c \<noteq> CNew (call_id c) l" using sub that by auto
    then show "linear_use lim (insert (call_id c) used) (dom st') cs"
      using assms(2) st by (cases c) (auto simp: insert_absorb domI split: bind_splits)
  qed
qed

lemma run_complete:
  assumes "run_inv lim base used d st" "linear_use lim used (dom st) cs" "\<forall>i b. base i = Some b \<longrightarrow> b \<le> lim i"
    "serves bcs tv res base" "store_run st cs = Some (outs, st')"
  shows "\<exists>d'. call_run bcs tv res d cs = Some (Ok (outs, d')) \<and> data_rel lim base d' st'"
  using assms
proof (induction cs arbitrary: d st outs used)
  case Nil
  then show ?case by (auto simp: run_inv_def)
next
  case (Cons c cs)
  from Cons.prems(5) obtain out st1 outs1 where s: "store_step st c = Some (out, st1)"
    "store_run st1 cs = Some (outs1, st')" "outs = out # outs1" by (auto split: bind_splits)
  note lin = linear_step[OF Cons.prems(1,2)]
  have "data_rel lim base d st" using Cons.prems(1) by (simp add: run_inv_def)
  from call_step_simulates[OF this lin(1) Cons.prems(3,4)] s(1) obtain d1 where
    d1: "call_step bcs tv res d c = Some (Ok (out, d1))" "data_rel lim base d1 st1" by (auto simp: step_rel_def)
  from lin(2)[OF s(1) d1] obtain used' where "run_inv lim base used' d1 st1" "linear_use lim used' (dom st1) cs" by auto
  from Cons.IH[OF this Cons.prems(3,4) s(2)] d1(1) s(3) show ?case by auto
qed

lemma run_sound:
  assumes "run_inv lim base used d st" "linear_use lim used (dom st) cs" "\<forall>i b. base i = Some b \<longrightarrow> b \<le> lim i"
    "serves bcs tv res base" "no_destroy cs" "call_run bcs tv res d cs = Some (Ok (outs, d'))"
  shows "(\<exists>st'. store_run st cs = Some (outs, st') \<and> data_rel lim base d' st') \<or>
         (poisoned base d' \<and> aggregator_data_wf d' \<and> finite (destroyed_aggregators d'))"
  using assms
proof (induction cs arbitrary: d st outs used)
  case Nil
  then show ?case by (auto simp: run_inv_def)
next
  case (Cons c cs)
  from Cons.prems(6) obtain out d1 outs1 where s: "call_step bcs tv res d c = Some (Ok (out, d1))"
    "call_run bcs tv res d1 cs = Some (Ok (outs1, d'))" "outs = out # outs1"
    by (auto simp: map_ok_eq_Ok split: option.splits result.splits)
  note lin = linear_step[OF Cons.prems(1,2)]
  have rel: "data_rel lim base d st" using Cons.prems(1) by (simp add: run_inv_def)
  note sim = call_step_simulates[OF rel lin(1) Cons.prems(3,4)]
  show ?case
  proof (cases "store_step st c")
    case (Some r)
    with sim s(1) obtain st1 where st1: "store_step st c = Some (out, st1)" "data_rel lim base d1 st1"
      by (cases r) (auto simp: step_rel_def)
    from lin(2)[OF st1(1) s(1) st1(2)] obtain used' where
      "run_inv lim base used' d1 st1" "linear_use lim used' (dom st1) cs" by auto
    from Cons.IH[OF this Cons.prems(3,4) _ s(2)] Cons.prems(5) st1(1) s(3) show ?thesis by auto
  next
    case None
    with sim s(1) have p: "poisoned base d1" "aggregator_data_wf d1" "finite (destroyed_aggregators d1)"
      by (auto simp: step_rel_def)
    have db: "dom base \<subseteq> used" using Cons.prems(1) by (simp add: run_inv_def)
    from linear_use_keeps[OF Cons.prems(2) _ db] Cons.prems(5) obtain used' live' where
      "linear_use lim used' live' cs" "used \<subseteq> used'" by auto
    with poisoned_run[OF p s(2)] Cons.prems(4,5) db show ?thesis by auto
  qed
qed

lemma run_inv_start:
  "run_inv lim base (dom base) aggregator_data_default base"
  by (auto simp: run_inv_def data_rel_def aggregator_data_default_def aggregator_data_wf_def)

section \<open>From Move values to calls\<close>

datatype native_fn = NewAggregator | Add | Sub | ReadFn | Destroy

text \<open>One native invocation, as the table of \<open>make_all\<close> names them; \<open>g\<close> is its base cost.\<close>

definition native_invoke ::
  "('v, 'st, 'sr, 'rf) host \<Rightarrow> u64 \<Rightarrow> 'e native_context \<Rightarrow> native_fn \<Rightarrow> 'v list \<Rightarrow> ('v, 'e) native_outcome" where
  "native_invoke H g ctx f args =
     (case f of
        NewAggregator \<Rightarrow> native_new_aggregator H g ctx args
      | Add \<Rightarrow> native_add H g ctx args
      | Sub \<Rightarrow> native_sub H g ctx args
      | ReadFn \<Rightarrow> native_read H g ctx args
      | Destroy \<Rightarrow> native_destroy H g ctx args)"

text \<open>The natives of a transaction, up to the first error.\<close>

fun native_run ::
  "('v, 'st, 'sr, 'rf) host \<Rightarrow> u64 \<Rightarrow> 'e native_context \<Rightarrow> (native_fn \<times> 'v list) list \<Rightarrow>
   ('v list list \<times> 'e native_context, partial_vm_error) result option" where
  "native_run H g ctx [] = Some (Ok ([], ctx))"
| "native_run H g ctx ((f, args) # rest) =
     (case native_invoke H g ctx f args of
        None \<Rightarrow> None
      | Some (Err e, ctx') \<Rightarrow> Some (Err e)
      | Some (Ok (cost, out), ctx') \<Rightarrow>
          map_option (map_ok (\<lambda>(outs, ctx''). (out # outs, ctx''))) (native_run H g ctx' rest))"

text \<open>The call that an invocation makes, when its arguments have the types of the Move signature.\<close>

definition popped_u128 :: "('v, 'st, 'sr, 'rf) host \<Rightarrow> 'v list \<Rightarrow> (u128 \<times> 'v list) option" where
  "popped_u128 H args = do { (v, args') \<leftarrow> ok (pop_back_arg H args); n \<leftarrow> ok (as_u128 H v); Some (n, args') }"

fun decode_call ::
  "('v, 'st, 'sr, 'rf) host \<Rightarrow> 'e native_context \<Rightarrow> native_fn \<Rightarrow> 'v list \<Rightarrow> agg_call option" where
  "decode_call H ctx NewAggregator args =
     (if length args = 2 then
        do { (limit, args') \<leftarrow> popped_u128 H args;
             (v, _) \<leftarrow> ok (pop_back_arg H args');
             r \<leftarrow> ok (as_struct_ref H v);
             handle \<leftarrow> ok (get_handle H r);
             key \<leftarrow> ok (new_key H ctx);
             Some (CNew (AggregatorID handle key) limit) }
      else None)"
| "decode_call H ctx Add args =
     (if length args = 2 then
        do { (n, args') \<leftarrow> popped_u128 H args; (i, limit) \<leftarrow> ok (pop_aggregator H args');
             Some (CUpdate i limit (AddOp n)) }
      else None)"
| "decode_call H ctx Sub args =
     (if length args = 2 then
        do { (n, args') \<leftarrow> popped_u128 H args; (i, limit) \<leftarrow> ok (pop_aggregator H args');
             Some (CUpdate i limit (SubOp n)) }
      else None)"
| "decode_call H ctx ReadFn args =
     (if length args = 1 then do { (i, limit) \<leftarrow> ok (pop_aggregator H args); Some (CRead i limit) } else None)"
| "decode_call H ctx Destroy args =
     (if length args = 1 then
        do { (v, _) \<leftarrow> ok (pop_back_arg H args); s \<leftarrow> ok (as_struct H v);
             u \<leftarrow> unpack_aggregator_struct H s; (handle, key, _) \<leftarrow> ok u;
             Some (CDestroy (AggregatorID handle key)) }
      else None)"

text \<open>The values a call hands back to Move.\<close>

fun returned :: "('v, 'st, 'sr, 'rf) host \<Rightarrow> agg_call \<Rightarrow> u128 list \<Rightarrow> 'v list" where
  "returned H (CNew i l) _ = [aggregator_struct_of H (aid_handle i) (aid_key i) l]"
| "returned H (CRead i l) out = map (of_u128 H) out"
| "returned H _ _ = []"

text \<open>The calls of a run; a key is computed from the context at its creation.\<close>

fun decodes ::
  "('v, 'st, 'sr, 'rf) host \<Rightarrow> u64 \<Rightarrow> 'e native_context \<Rightarrow> (native_fn \<times> 'v list) list \<Rightarrow> agg_call list \<Rightarrow> bool" where
  "decodes H g ctx [] cs = (cs = [])"
| "decodes H g ctx ((f, args) # rest) cs =
     (case cs of
        [] \<Rightarrow> False
      | c # cs' \<Rightarrow> decode_call H ctx f args = Some c \<and>
          (case native_invoke H g ctx f args of
             Some (Ok _, ctx') \<Rightarrow> decodes H g ctx' rest cs'
           | _ \<Rightarrow> length rest = length cs'))"

lemma popped_u128_Some:
  "popped_u128 H args = Some r \<Longrightarrow>
   bind_ok (pop_back_arg H args) (\<lambda>(v, args'). map_ok (\<lambda>n. (n, args')) (as_u128 H v)) = Ok r"
  by (auto simp: popped_u128_def ok_eq_Some split: bind_splits)

lemma native_update_call:
  assumes "length args = 2" "popped_u128 H args = Some (n, args')" "pop_aggregator H args' = Ok (i, l)"
    "\<And>ag. upd ag n = agg_step ag op"
  shows "native_update upd H g ctx args =
    (let (ag, d) = get_aggregator (ctx_data ctx) i l
     in case agg_step ag op of
          None \<Rightarrow> None
        | Some (Err e) \<Rightarrow> fails e (ctx\<lparr>ctx_data := d\<rparr>)
        | Some (Ok ag') \<Rightarrow> Some (Ok (g, []), ctx\<lparr>ctx_data := put_aggregator d i ag'\<rparr>))"
  using assms(1,3,4) popped_u128_Some[OF assms(2)] by (simp add: native_update_def)

definition outcome_of ::
  "('v, 'st, 'sr, 'rf) host \<Rightarrow> u64 \<Rightarrow> 'e native_context \<Rightarrow> agg_call \<Rightarrow>
   (u128 list \<times> aggregator_data, partial_vm_error) result option \<Rightarrow> ('v, 'e) native_outcome \<Rightarrow> bool" where
  "outcome_of H g ctx c r o' \<longleftrightarrow>
     (case r of
        None \<Rightarrow> o' = None
      | Some (Err e) \<Rightarrow> \<exists>ctx'. o' = Some (Err e, ctx')
      | Some (Ok (out, d)) \<Rightarrow> o' = Some (Ok (g, returned H c out), ctx\<lparr>ctx_data := d\<rparr>))"

lemma outcome_update:
  assumes "length args = 2" "popped_u128 H args = Some (n, args')" "pop_aggregator H args' = Ok (i, l)"
    "\<And>ag. upd ag n = agg_step ag op"
  shows "outcome_of H g ctx (CUpdate i l op)
    (call_step bcs tv res (ctx_data ctx) (CUpdate i l op)) (native_update upd H g ctx args)"
  unfolding native_update_call[where upd = upd and op = op, OF assms] outcome_of_def
  by (auto simp: fails_def Let_def split: prod.splits option.splits result.splits)

lemma native_invoke_call:
  assumes "decode_call H ctx f args = Some c"
  shows "outcome_of H g ctx c (call_step (codec H) (address_to_vec H) (resolver ctx) (ctx_data ctx) c)
    (native_invoke H g ctx f args)"
proof (cases f)
  case NewAggregator
  with assms obtain limit args' handle key where h: "length args = 2" "popped_u128 H args = Some (limit, args')"
    "bind_ok (pop_back_arg H args') (\<lambda>(v, _). bind_ok (as_struct_ref H v) (get_handle H)) = Ok handle"
    "new_key H ctx = Ok key" "c = CNew (AggregatorID handle key) limit"
    by (auto simp: ok_eq_Some split: bind_splits if_splits)
  with NewAggregator popped_u128_Some[OF h(2)] show ?thesis
    by (simp add: native_invoke_def native_new_aggregator_def outcome_of_def)
next
  case Add
  with assms obtain n args' i l where h: "length args = 2" "popped_u128 H args = Some (n, args')"
    "pop_aggregator H args' = Ok (i, l)" "c = CUpdate i l (AddOp n)"
    by (auto simp: ok_eq_Some split: bind_splits if_splits)
  with Add outcome_update[OF h(1-3), of agg_add "AddOp n"] show ?thesis
    by (simp add: native_invoke_def native_add_def)
next
  case Sub
  with assms obtain n args' i l where h: "length args = 2" "popped_u128 H args = Some (n, args')"
    "pop_aggregator H args' = Ok (i, l)" "c = CUpdate i l (SubOp n)"
    by (auto simp: ok_eq_Some split: bind_splits if_splits)
  with Sub outcome_update[OF h(1-3), of agg_sub "SubOp n"] show ?thesis
    by (simp add: native_invoke_def native_sub_def)
next
  case ReadFn
  with assms obtain i l where h: "length args = 1" "pop_aggregator H args = Ok (i, l)" "c = CRead i l"
    by (auto simp: ok_eq_Some split: bind_splits if_splits)
  with ReadFn show ?thesis
    by (auto simp: native_invoke_def native_read_def outcome_of_def fails_def Let_def
        split: prod.splits option.splits result.splits)
next
  case Destroy
  with assms obtain st handle key l where h: "length args = 1"
    "bind_ok (pop_back_arg H args) (\<lambda>(v, _). as_struct H v) = Ok st"
    "unpack_aggregator_struct H st = Some (Ok (handle, key, l))" "c = CDestroy (AggregatorID handle key)"
    by (auto simp: ok_eq_Some split: bind_splits if_splits)
  with Destroy show ?thesis by (simp add: native_invoke_def native_destroy_def outcome_of_def)
qed

lemma run_cases:
  fixes r :: "('a \<times> 'b, 'e) result option"
  obtains "r = None" | e where "r = Some (Err e)" | x y where "r = Some (Ok (x, y))"
  by (cases r) (metis result.exhaust surj_pair)+

lemma native_run_calls:
  assumes "decodes H g ctx invs cs"
  shows "native_run H g ctx invs =
    map_option (map_ok (\<lambda>(outs, d). (map2 (returned H) cs outs, ctx\<lparr>ctx_data := d\<rparr>)))
      (call_run (codec H) (address_to_vec H) (resolver ctx) (ctx_data ctx) cs)"
  using assms
proof (induction invs arbitrary: ctx cs)
  case Nil
  then show ?case by simp
next
  case (Cons inv invs)
  obtain f args where inv: "inv = (f, args)" by fastforce
  with Cons.prems obtain c cs' where cs: "cs = c # cs'" "decode_call H ctx f args = Some c"
    by (auto split: list.splits)
  let ?r = "call_step (codec H) (address_to_vec H) (resolver ctx) (ctx_data ctx) c"
  note step = native_invoke_call[OF cs(2), of g]
  show ?case
  proof (cases "\<exists>out d. ?r = Some (Ok (out, d))")
    case True
    then obtain out d where r: "?r = Some (Ok (out, d))" by auto
    with step have i: "native_invoke H g ctx f args = Some (Ok (g, returned H c out), ctx\<lparr>ctx_data := d\<rparr>)"
      by (simp add: outcome_of_def)
    with Cons.prems inv cs(1) have "decodes H g (ctx\<lparr>ctx_data := d\<rparr>) invs cs'" by simp
    from Cons.IH[OF this] i r inv cs(1) show ?thesis
      by (cases "call_run (codec H) (address_to_vec H) (resolver ctx) d cs'" rule: run_cases) auto
  next
    case False
    with step inv cs(1) show ?thesis by (auto simp: outcome_of_def split: option.splits result.splits)
  qed
qed

text \<open>
  A transaction as a whole: its natives run without error, and the change set of its context can be applied
  to the stored values.
\<close>

definition commits ::
  "('v, 'st, 'sr, 'rf) host \<Rightarrow> u64 \<Rightarrow> bytes \<Rightarrow> (address \<Rightarrow> bytes \<Rightarrow> (bytes option, 'e) result) \<Rightarrow> store \<Rightarrow>
   (native_fn \<times> 'v list) list \<Rightarrow> 'v list list \<Rightarrow> store \<Rightarrow> bool" where
  "commits H g th res base invs rets st \<longleftrightarrow>
     (\<exists>ctx cs. native_run H g (native_context_new th res) invs = Some (Ok (rets, ctx)) \<and>
        into_change_set ctx = Some cs \<and> apply_changes base cs = Some st)"

lemma commits_iff:
  assumes "decodes H g (native_context_new th res) invs calls"
  shows "commits H g th res base invs rets st \<longleftrightarrow>
    (\<exists>outs d cs. call_run (codec H) (address_to_vec H) res aggregator_data_default calls = Some (Ok (outs, d)) \<and>
       rets = map2 (returned H) calls outs \<and>
       into_change_set (\<lparr>txn_hash = th, resolver = res, ctx_data = d\<rparr>) = Some cs \<and> apply_changes base cs = Some st)"
  unfolding commits_def native_run_calls[OF assms]
  by (auto simp: native_context_new_def map_ok_eq_Ok)

text \<open>
  C20. The aggregator natives implement a plain store.  For every sequence of native calls with well-typed
  arguments, used linearly and with a fresh id for every new aggregator, over stored numbers that are within their
  limits and that the resolver serves: if performing the calls at once on the stored numbers succeeds, then the natives
  succeed with the same returned values, no \<open>unwrap\<close> panics in \<open>into_change_set\<close>, and applying that change set
  to the stored numbers gives the same final numbers.  If the natives succeed, nothing is destroyed and the
  change set applies, then performing the calls at once succeeds with the same values and the same numbers.
\<close>

theorem natives_implement_store:
  assumes "decodes H g (native_context_new th res) invs calls" "linear_use lim (dom base) (dom base) calls"
    "\<forall>i b. base i = Some b \<longrightarrow> b \<le> lim i" "serves (codec H) (address_to_vec H) res base"
  shows "(\<forall>outs. store_run base calls = Some (outs, st) \<longrightarrow> commits H g th res base invs (map2 (returned H) calls outs) st) \<and>
         (no_destroy calls \<longrightarrow> commits H g th res base invs rets st \<longrightarrow>
            (\<exists>outs. store_run base calls = Some (outs, st) \<and> rets = map2 (returned H) calls outs))"
proof (intro conjI allI impI)
  fix outs assume "store_run base calls = Some (outs, st)"
  from run_complete[OF run_inv_start assms(2-4) this] obtain d where
    d: "call_run (codec H) (address_to_vec H) res aggregator_data_default calls = Some (Ok (outs, d))"
      "data_rel lim base d st" by blast
  with change_set_correct[of lim base "\<lparr>txn_hash = th, resolver = res, ctx_data = d\<rparr>" st] show
    "commits H g th res base invs (map2 (returned H) calls outs) st"
    unfolding commits_iff[OF assms(1)] by auto
next
  assume nd: "no_destroy calls" and "commits H g th res base invs rets st"
  then obtain outs d cs where d: "call_run (codec H) (address_to_vec H) res aggregator_data_default calls = Some (Ok (outs, d))"
    "rets = map2 (returned H) calls outs"
    "into_change_set (\<lparr>txn_hash = th, resolver = res, ctx_data = d\<rparr>) = Some cs" "apply_changes base cs = Some st"
    unfolding commits_iff[OF assms(1)] by auto
  let ?ctx = "\<lparr>txn_hash = th, resolver = res, ctx_data = d\<rparr>"
  from run_sound[OF run_inv_start assms(2-4) nd d(1)] consider
      st' where "store_run base calls = Some (outs, st')" "data_rel lim base d st'"
    | "poisoned base d" "aggregator_data_wf d" "finite (destroyed_aggregators d)" by auto
  then show "\<exists>outs. store_run base calls = Some (outs, st) \<and> rets = map2 (returned H) calls outs"
  proof cases
    case 1
    with change_set_correct[of lim base ?ctx st'] d show ?thesis by auto
  next
    case 2
    with change_set_poisoned[of ?ctx base] d(3,4) show ?thesis by auto
  qed
qed

section \<open>A concrete host\<close>

datatype mval = MU128 u128 | MAddress address | MStruct "mval list" | MRef mval

definition demo_error :: partial_vm_error where
  "demo_error = extension_error ''type''"

definition demo_host :: "(mval, mval list, mval list, mval) host" where
  "demo_host =
     \<lparr>pop_back_arg = (\<lambda>args. if args = [] then Err demo_error else Ok (last args, butlast args)),
      as_u128 = (\<lambda>v. case v of MU128 n \<Rightarrow> Ok n | _ \<Rightarrow> Err demo_error),
      as_address = (\<lambda>v. case v of MAddress a \<Rightarrow> Ok a | _ \<Rightarrow> Err demo_error),
      as_struct = (\<lambda>v. case v of MStruct fs \<Rightarrow> Ok fs | _ \<Rightarrow> Err demo_error),
      as_struct_ref = (\<lambda>v. case v of MRef (MStruct fs) \<Rightarrow> Ok fs | _ \<Rightarrow> Err demo_error),
      as_reference = (\<lambda>v. case v of MRef w \<Rightarrow> Ok w | _ \<Rightarrow> Err demo_error),
      borrow_field = (\<lambda>fs k. if k < length fs then Ok (MRef (fs ! k)) else Err demo_error),
      read_ref = Ok, unpack_struct = Ok, pack_struct = (\<lambda>fs. fs), of_struct = MStruct,
      of_u128 = MU128, of_address = MAddress,
      hash_updates = concat, address_from_bytes = (\<lambda>bs. Some (ucast (last bs))), address_to_vec = (\<lambda>a. [ucast a]),
      codec = bcs_le128\<rparr>"

abbreviation demo_aggregator :: "address \<Rightarrow> u128 \<Rightarrow> mval" where
  "demo_aggregator key limit \<equiv> MStruct [MAddress 1, MAddress key, MU128 limit]"

abbreviation demo_factory :: mval where
  "demo_factory \<equiv> MRef (MStruct [MStruct [MAddress 1]])"

lemmas host_defs = demo_host_def native_invoke_def native_context_new_def popped_u128_def pop_aggregator_def
  aggregator_info_def get_aggregator_fields_def get_aggregator_field_def get_handle_def pop_field_def
  unpack_aggregator_struct_def new_key_def PHANTOM_TABLE_FIELD_INDEX_def TABLE_HANDLE_FIELD_INDEX_def
  HANDLE_FIELD_INDEX_def KEY_FIELD_INDEX_def LIMIT_FIELD_INDEX_def

lemmas native_defs = native_add_def native_sub_def native_update_def native_read_def native_destroy_def
  native_new_aggregator_def aggregator_struct_of_def fails_def

text \<open>One stored number, 10 at key 9 with limit 100, to which 5 is added before it is read.\<close>

definition demo_numbers :: store where
  "demo_numbers = (\<lambda>i. if aid_handle i = 1 \<and> (ucast (aid_key i) :: u8) = 9 then Some 10 else None)"

definition demo_resolver :: "address \<Rightarrow> bytes \<Rightarrow> (bytes option, unit) result" where
  "demo_resolver h k = (if h = 1 \<and> k = [9] then Ok (Some (le_encode 16 10)) else Ok None)"

definition demo_invocations :: "(native_fn \<times> mval list) list" where
  "demo_invocations = [(Add, [MRef (demo_aggregator 9 100), MU128 5]), (NewAggregator, [demo_factory, MU128 50])]"

definition demo_calls :: "agg_call list" where
  "demo_calls = [CUpdate (AggregatorID 1 9) 100 (AddOp 5), CNew (AggregatorID 1 1) 50]"

lemma demo_decodes: "decodes demo_host 7 (native_context_new [0] demo_resolver) demo_invocations demo_calls"
  by (simp add: demo_invocations_def demo_calls_def host_defs native_defs get_aggregator_def aggregator_data_default_def
      delta_aggregator_def agg_add_def addition_def history_new_def agg_record_def record_positive_def
      put_aggregator_def num_aggregators_def to_be_bytes_def Let_def)

lemma demo_serves: "serves (codec demo_host) (address_to_vec demo_host) demo_resolver demo_numbers"
  using bcs_le128_roundtrip[of 10]
  by (auto simp: serves_def demo_numbers_def demo_resolver_def demo_host_def bcs_le128_def)

theorem natives_implement_store_witness:
  "commits demo_host 7 [0] demo_resolver demo_numbers demo_invocations [[], [demo_aggregator 1 50]]
     (demo_numbers(AggregatorID 1 9 \<mapsto> 15, AggregatorID 1 1 \<mapsto> 0))"
proof -
  let ?lim = "\<lambda>i. if i = AggregatorID 1 1 then 50 else 100 :: u128"
  have lin: "linear_use ?lim (dom demo_numbers) (dom demo_numbers) demo_calls"
    by (simp add: demo_calls_def demo_numbers_def dom_def)
  have le: "\<forall>i b. demo_numbers i = Some b \<longrightarrow> b \<le> ?lim i" by (auto simp: demo_numbers_def)
  have run: "store_run demo_numbers demo_calls = Some ([[], []], demo_numbers(AggregatorID 1 9 \<mapsto> 15, AggregatorID 1 1 \<mapsto> 0))"
    by (simp add: demo_calls_def demo_numbers_def)
  have ret: "map2 (returned demo_host) demo_calls [[], []] = [[], [demo_aggregator 1 50]]"
    by (simp add: demo_calls_def aggregator_struct_of_def demo_host_def)
  from natives_implement_store[OF demo_decodes lin le demo_serves,
      where st = "demo_numbers(AggregatorID 1 9 \<mapsto> 15, AggregatorID 1 1 \<mapsto> 0)"] run ret
  show ?thesis by auto
qed

section \<open>Ids of new aggregators\<close>

lemma length_keys: "bt_ok m \<Longrightarrow> length m = card (fst ` set m)"
  using distinct_card[of "map fst m"] bt.ents_distinct[of m] by simp

lemma fst_set_bt_remove: "fst ` set (bt_remove k m) = fst ` set m - {k}"
  by (auto simp: bt_remove_def)

lemma new_key_depends:
  assumes "txn_hash ctx' = txn_hash ctx" "num_aggregators (ctx_data ctx') = num_aggregators (ctx_data ctx)"
  shows "new_key H ctx' = new_key H ctx"
  using assms by (simp add: new_key_def)

text \<open>The table after two creations and the destruction of the first has as many entries as before the second.\<close>

lemma num_aggregators_repeats:
  assumes "aggregator_data_wf d" "map_of (aggregators d) i = None" "map_of (aggregators d) j = None" "i \<noteq> j"
  shows "num_aggregators (remove_aggregator (create_new_aggregator (create_new_aggregator d i l) j l') i) =
         num_aggregators (create_new_aggregator d i l)"
proof -
  let ?d1 = "create_new_aggregator d i l" and ?d2 = "create_new_aggregator (create_new_aggregator d i l) j l'"
  let ?K = "fst ` set (aggregators d)"
  have wf: "bt_ok (aggregators ?d1)" "bt_ok (aggregators (remove_aggregator ?d2 i))"
    using create_new_aggregator_wf[OF assms(1), of i l]
      remove_aggregator_wf[OF create_new_aggregator_wf[OF create_new_aggregator_wf[OF assms(1)]], of i l j l' i]
    by (simp_all add: aggregator_data_wf_def)
  have "fst ` set (aggregators ?d1) = insert i ?K" "fst ` set (aggregators (remove_aggregator ?d2 i)) = insert j ?K"
    using assms(2,4) by (auto simp: create_new_aggregator_def remove_aggregator_def Let_def fst_set_bt_insert
        fst_set_bt_remove map_of_eq_None_iff)
  moreover have "i \<notin> ?K" "j \<notin> ?K" using assms(2,3) by (auto simp: map_of_eq_None_iff)
  ultimately show ?thesis
    using length_keys[OF wf(1)] length_keys[OF wf(2)] by (simp add: num_aggregators_def)
qed



section \<open>Squashing the change sets of two sessions\<close>

lemma squash_merges:
  assumes "apply_to d b = Ok r1" "apply_to e r1 = Ok r2" "op_limit d = op_limit e"
  shows "\<exists>m. merge_onto e d = Ok m \<and> apply_to m b = Ok r2"
proof -
  have "Option.bind (ok (merge_onto e d)) (\<lambda>m. ok (apply_to m b)) = Some r2"
    using merge_onto_composes[OF assms(3), of b] assms(1,2) by simp
  then show ?thesis by (auto simp: ok_eq_Some split: bind_splits)
qed

lemma squash_change_applies:
  assumes "apply_change b c1 = Some v1" "apply_change v1 c2 = Some v2" "c1 \<noteq> ChDelete"
    "\<forall>d e. c1 = ChMerge d \<longrightarrow> c2 = ChMerge e \<longrightarrow> op_limit d = op_limit e"
  shows "\<exists>c. squash_change f c1 c2 = Some (Ok c) \<and> apply_change b c = Some v2"
proof (cases c2)
  case (ChMerge e)
  with assms(2) obtain r1 r2 where r: "v1 = Some r1" "apply_to e r1 = Ok r2" "v2 = Some r2"
    by (auto simp: ok_eq_Some split: bind_splits)
  show ?thesis
  proof (cases c1)
    case (ChMerge d)
    with assms(1) r(1) obtain b0 where b0: "b = Some b0" "apply_to d b0 = Ok r1"
      by (auto simp: ok_eq_Some split: bind_splits)
    from squash_merges[OF b0(2) r(2)] assms(4) ChMerge \<open>c2 = ChMerge e\<close> obtain m where
      "merge_onto e d = Ok m" "apply_to m b0 = Ok r2" by auto
    with b0 r ChMerge \<open>c2 = ChMerge e\<close> show ?thesis by simp
  next
    case (ChWrite v)
    with assms(1) r \<open>c2 = ChMerge e\<close> show ?thesis by simp
  next
    case ChDelete
    with assms(3) show ?thesis by simp
  qed
next
  case (ChWrite v)
  with assms(2,3) show ?thesis by (cases c1) simp_all
next
  case ChDelete
  with assms(2,3) show ?thesis by (cases c1) simp_all
qed

fun slot_squashed :: "(aggregator_change \<Rightarrow> bool) \<Rightarrow> aggregator_change option \<Rightarrow> aggregator_change option \<Rightarrow>
    aggregator_change option \<Rightarrow> bool" where
  "slot_squashed P None e r \<longleftrightarrow> r = e"
| "slot_squashed P (Some c) None r \<longleftrightarrow> r = Some c"
| "slot_squashed P (Some c) (Some e) r \<longleftrightarrow> (\<exists>n. r = Some n \<and> P n)"

lemma squash_changes_map:
  assumes "distinct (map fst xs)" "bt_ok acc"
    "\<forall>i c e. map_of xs i = Some c \<longrightarrow> map_of acc i = Some e \<longrightarrow> (\<exists>n. squash_change f e c = Some (Ok n) \<and> P i n)"
  shows "\<exists>cs. squash_changes f xs acc = Some (Ok cs) \<and> bt_ok cs \<and>
    (\<forall>i. slot_squashed (P i) (map_of xs i) (map_of acc i) (map_of cs i))"
  using assms
proof (induction xs arbitrary: acc)
  case Nil
  then show ?case by auto
next
  case (Cons x xs)
  obtain i c where x: "x = (i, c)" by fastforce
  have fresh: "map_of xs i = None" "distinct (map fst xs)" using Cons.prems(1) x by (auto simp: map_of_eq_None_iff)
  define n where "n = (case map_of acc i of None \<Rightarrow> c | Some e \<Rightarrow> the (ok (the (squash_change f e c))))"
  have n: "squash_changes f (x # xs) acc = squash_changes f xs (bt_insert i n acc)"
    "slot_squashed (P i) (Some c) (map_of acc i) (Some n)"
    using Cons.prems(3)[rule_format, of i c] x by (auto simp: n_def split: option.splits)
  have "\<forall>j c e. map_of xs j = Some c \<longrightarrow> map_of (bt_insert i n acc) j = Some e \<longrightarrow>
      (\<exists>m. squash_change f e c = Some (Ok m) \<and> P j m)"
    using Cons.prems(3) x fresh(1) by (auto simp: map_of_bt_insert)
  from Cons.IH[OF fresh(2) bt_ok_insert[OF Cons.prems(2)] this] obtain cs where
    cs: "squash_changes f xs (bt_insert i n acc) = Some (Ok cs)" "bt_ok cs"
      "\<And>j. slot_squashed (P j) (map_of xs j) (map_of (bt_insert i n acc) j) (map_of cs j)" by blast
  have "slot_squashed (P j) (map_of (x # xs) j) (map_of acc j) (map_of cs j)" for j
    using cs(3)[of j] n(2) fresh(1) x by (cases "j = i") (simp_all add: map_of_bt_insert)
  with cs(1,2) n(1) show ?case by auto
qed

lemma squash_changes_deleted:
  assumes "distinct (map fst xs)" "map_of acc i = Some ChDelete" "map_of xs i \<noteq> None"
    "\<forall>j c e. map_of xs j = Some c \<longrightarrow> map_of acc j = Some e \<longrightarrow> e \<noteq> ChDelete \<longrightarrow> (\<exists>n. squash_change f e c = Some (Ok n))"
  shows "squash_changes f xs acc = None"
  using assms
proof (induction xs arbitrary: acc)
  case (Cons x xs)
  obtain j c where x: "x = (j, c)" by fastforce
  have fresh: "map_of xs j = None" "distinct (map fst xs)" using Cons.prems(1) x by (auto simp: map_of_eq_None_iff)
  show ?case
  proof (cases "map_of acc j = Some ChDelete")
    case False
    then have "j \<noteq> i" using Cons.prems(2) by auto
    have go: "squash_changes f xs (bt_insert j n acc) = None" for n
    proof (rule Cons.IH)
      show "map_of (bt_insert j n acc) i = Some ChDelete" "map_of xs i \<noteq> None"
        using Cons.prems(2,3) x \<open>j \<noteq> i\<close> by (simp_all add: map_of_bt_insert)
      show "\<forall>l c' e. map_of xs l = Some c' \<longrightarrow> map_of (bt_insert j n acc) l = Some e \<longrightarrow> e \<noteq> ChDelete \<longrightarrow>
          (\<exists>m. squash_change f e c' = Some (Ok m))"
      proof (intro allI impI)
        fix l c' e assume l: "map_of xs l = Some c'" "map_of (bt_insert j n acc) l = Some e" "e \<noteq> ChDelete"
        then have "l \<noteq> j" using fresh(1) by auto
        with l Cons.prems(4)[rule_format, of l c' e] x show "\<exists>m. squash_change f e c' = Some (Ok m)"
          by (simp add: map_of_bt_insert)
      qed
    qed fact
    show ?thesis
    proof (cases "map_of acc j")
      case (Some e)
      with Cons.prems(4)[rule_format, of j c e] False x obtain n where "squash_change f e c = Some (Ok n)" by auto
      with Some go x show ?thesis by simp
    qed (simp add: x go)
  qed (simp add: x)
qed simp

text \<open>
  C26. Squashing the aggregator changes of two sessions (the execution of a transaction and its epilogue) is
  applying one after the other: on every store on which the two apply in order, \<open>squash\<close> succeeds and the
  squashed changes lead to the same store, unless the second session has a change for an aggregator that the
  first one deleted; exactly then \<open>squash\<close> reaches its \<open>unreachable!\<close> branch and panics, although the two
  sessions apply in order.  The deltas of the two sessions for one aggregator have one limit.
\<close>

theorem context_squash_is_composition:
  assumes "bt_ok cs1" "bt_ok cs2" "apply_changes base cs1 = Some st1" "apply_changes st1 cs2 = Some st2"
    and "\<forall>i d e. map_of cs1 i = Some (ChMerge d) \<longrightarrow> map_of cs2 i = Some (ChMerge e) \<longrightarrow> op_limit d = op_limit e"
  shows "if \<exists>i. map_of cs1 i = Some ChDelete \<and> map_of cs2 i \<noteq> None
     then squash_changes f cs2 cs1 = None
     else \<exists>cs. squash_changes f cs2 cs1 = Some (Ok cs) \<and> apply_changes base cs = Some st2"
proof -
  have a1: "case map_of cs1 i of None \<Rightarrow> st1 i = base i | Some c \<Rightarrow> apply_change (base i) c = Some (st1 i)" for i
    using assms(3) by (simp add: apply_changes_eq[OF assms(1)])
  have a2: "case map_of cs2 i of None \<Rightarrow> st2 i = st1 i | Some c \<Rightarrow> apply_change (st1 i) c = Some (st2 i)" for i
    using assms(4) by (simp add: apply_changes_eq[OF assms(2)])
  have slot: "\<exists>n. squash_change f e c = Some (Ok n) \<and> apply_change (base i) n = Some (st2 i)"
    if "map_of cs2 i = Some c" "map_of cs1 i = Some e" "e \<noteq> ChDelete" for i c e
  proof (rule squash_change_applies)
    show "apply_change (base i) e = Some (st1 i)" "apply_change (st1 i) c = Some (st2 i)"
      using a1[of i] a2[of i] that by auto
    show "\<forall>d d'. e = ChMerge d \<longrightarrow> c = ChMerge d' \<longrightarrow> op_limit d = op_limit d'"
      using assms(5) that by blast
  qed fact
  note distinct = bt.ents_distinct[OF assms(2)]
  show ?thesis
  proof (cases "\<exists>i. map_of cs1 i = Some ChDelete \<and> map_of cs2 i \<noteq> None")
    case True
    then obtain i where "map_of cs1 i = Some ChDelete" "map_of cs2 i \<noteq> None" by blast
    from squash_changes_deleted[OF distinct this] slot True show ?thesis by (simp add: Bex_def) blast
  next
    case False
    with slot have "\<forall>i c e. map_of cs2 i = Some c \<longrightarrow> map_of cs1 i = Some e \<longrightarrow>
        (\<exists>n. squash_change f e c = Some (Ok n) \<and> apply_change (base i) n = Some (st2 i))" by blast
    from squash_changes_map[OF distinct assms(1) this] obtain cs where
      cs: "squash_changes f cs2 cs1 = Some (Ok cs)" "bt_ok cs"
        "\<And>i. slot_squashed (\<lambda>n. apply_change (base i) n = Some (st2 i)) (map_of cs2 i) (map_of cs1 i) (map_of cs i)" by blast
    have "case map_of cs i of None \<Rightarrow> st2 i = base i | Some c \<Rightarrow> apply_change (base i) c = Some (st2 i)" for i
      using cs(3)[of i] a1[of i] a2[of i] by (cases "map_of cs2 i"; cases "map_of cs1 i") auto
    with cs(1,2) have "\<exists>cs. squash_changes f cs2 cs1 = Some (Ok cs) \<and> apply_changes base cs = Some st2"
      by (auto simp: apply_changes_eq)
    with False show ?thesis by argo
  qed
qed

theorem context_squash_is_composition_witness:
  "(\<exists>cs. squash_changes (\<lambda>e. e) [(AggregatorID 1 9, ChMerge (delta_sub 5 100))] [(AggregatorID 1 9, ChMerge (delta_add 2 100))]
      = Some (Ok cs) \<and>
    apply_changes demo_numbers cs = Some (demo_numbers(AggregatorID 1 9 \<mapsto> 7))) \<and>
   squash_changes (\<lambda>e. e) [(AggregatorID 1 9, ChWrite 7)] [(AggregatorID 1 9, ChDelete)] = None"
proof
  let ?i = "AggregatorID 1 9"
  have s: "apply_changes demo_numbers [(?i, ChMerge (delta_add 2 100))] = Some (demo_numbers(?i \<mapsto> 12))"
    by (simp add: apply_changes_def demo_numbers_def delta_add_def delta_new_def apply_to_def addition_def subtraction_def
        fun_eq_iff)
  have t: "apply_changes (demo_numbers(?i \<mapsto> 12)) [(?i, ChMerge (delta_sub 5 100))] = Some (demo_numbers(?i \<mapsto> 7))"
    by (simp add: apply_changes_def delta_sub_def delta_new_def apply_to_def addition_def subtraction_def fun_eq_iff)
  have ok: "bt_ok [(?i, c)]" for c :: aggregator_change by (simp add: bt_ok_def)
  have kept: "(\<exists>i. map_of [(?i, ChMerge d)] i = Some ChDelete \<and> map_of [(?i, c)] i \<noteq> None) = False" for c d by simp
  have limits: "op_limit (delta_add 2 100) = 100" "op_limit (delta_sub 5 100) = 100"
    by (simp_all add: delta_add_def delta_sub_def delta_new_def)
  show "\<exists>cs. squash_changes (\<lambda>e. e) [(?i, ChMerge (delta_sub 5 100))] [(?i, ChMerge (delta_add 2 100))] = Some (Ok cs) \<and>
      apply_changes demo_numbers cs = Some (demo_numbers(?i \<mapsto> 7))"
    using context_squash_is_composition[OF ok ok s t, of "\<lambda>e. e"] unfolding kept if_False
    by (simp only: map_of.simps) (simp add: limits del: squash_changes.simps)
  have d: "apply_changes demo_numbers [(?i, ChDelete)] = Some (demo_numbers(?i := None))"
    "apply_changes (demo_numbers(?i := None)) [(?i, ChWrite 7)] = Some (demo_numbers(?i \<mapsto> 7))"
    by (simp_all add: apply_changes_def fun_eq_iff)
  show "squash_changes (\<lambda>e. e) [(?i, ChWrite 7)] [(?i, ChDelete)] = None"
    using context_squash_is_composition[OF _ _ d, of "\<lambda>e. e"] by (simp add: bt_ok_def split: if_splits)
qed

text \<open>
  The restriction to transactions without \<open>destroy\<close> in the second half of the refinement is needed: a delta
  that no stored value can absorb is forgotten with its aggregator.  Subtracting 20 from the stored 10 and
  destroying the aggregator commits, whereas the subtraction alone aborts.
\<close>

lemma destroy_discards_underflow:
  "call_run bcs_le128 tv demo_resolver aggregator_data_default
     [CUpdate (AggregatorID 1 9) 100 (SubOp 20), CDestroy (AggregatorID 1 9)] =
     Some (Ok ([[], []], aggregator_data_default\<lparr>destroyed_aggregators := {AggregatorID 1 9}\<rparr>)) \<and>
   store_run demo_numbers [CUpdate (AggregatorID 1 9) 100 (SubOp 20), CDestroy (AggregatorID 1 9)] = None"
  by (simp add: get_aggregator_def aggregator_data_default_def delta_aggregator_def agg_sub_def subtraction_def
      history_new_def agg_record_def record_negative_def put_aggregator_def remove_aggregator_def bt_remove_def
      demo_numbers_def Let_def)

end
