(* ===== verification/Agg_Transaction.thy ===== *)
theory Agg_Transaction
  imports Delta_Op
begin

text \<open>
  Change sets and transaction outputs extended with deltas, from
  \<^verbatim>\<open>aptos-aggregator/src/transaction.rs\<close>: extracting an aggregator value from a write, squashing two
  change sets, and turning an extended output into a plain one.

  Parameters stand for the types crate: \<open>change_set_new\<close> is \<open>write_set.freeze()?\<close> followed by
  \<open>ChangeSet::new\<close> (which may refuse a change set), \<open>wsm_squash\<close>, \<open>wsm_freeze\<close> and \<open>wsm_len\<close> are
  the operations of \<open>WriteSetMut\<close>, \<open>is_discarded\<close> that of \<open>TransactionStatus\<close>, and
  \<open>extract_raw_bytes\<close> the method of \<open>TransactionWrite\<close>.
\<close>

section \<open>Definitions\<close>

text \<open>\<open>AggregatorValue::from_write\<close>: the outer option is the panic on undecodable bytes.\<close>

definition from_write :: "bcs_codec \<Rightarrow> ('v \<Rightarrow> bytes option) \<Rightarrow> 'v \<Rightarrow> u128 option option" where
  "from_write bcs extract_raw_bytes write =
     (case extract_raw_bytes write of
        None \<Rightarrow> Some None
      | Some bs \<Rightarrow> map_option Some (deserialize bcs bs))"

type_synonym 'k write_set = "('k, write_op) btree"

record ('k, 'ev) change_set_ext =
  cse_deltas :: "'k delta_change_set"
  cse_change_set :: "'k write_set \<times> 'ev list"
  cse_gas_feature_version :: u64

definition change_set_ext_new ::
  "'k delta_change_set \<Rightarrow> 'k write_set \<times> 'ev list \<Rightarrow> u64 \<Rightarrow> ('k, 'ev) change_set_ext" where
  "change_set_ext_new deltas cs version =
     \<lparr>cse_deltas = deltas, cse_change_set = cs, cse_gas_feature_version = version\<rparr>"

definition cse_write_set :: "('k, 'ev) change_set_ext \<Rightarrow> 'k write_set" where
  "cse_write_set self = fst (cse_change_set self)"

definition cse_into_inner ::
  "('k, 'ev) change_set_ext \<Rightarrow> 'k delta_change_set \<times> ('k write_set \<times> 'ev list)" where
  "cse_into_inner self = (cse_deltas self, cse_change_set self)"

text \<open>The failures an \<open>anyhow::Result\<close> collects here.\<close>

datatype 'x squash_error =
    Bail string
  | BcsError
  | VmError partial_vm_error
  | ChangeSetError 'x

text \<open>\<open>bcs::to_bytes(&op.apply_to(bcs::from_bytes(data)?)?)?\<close>\<close>

definition apply_to_bytes :: "bcs_codec \<Rightarrow> delta_op \<Rightarrow> bytes \<Rightarrow> (bytes, 'x squash_error) result" where
  "apply_to_bytes bcs op data =
     (case from_bytes bcs data of
        None \<Rightarrow> Err BcsError
      | Some val \<Rightarrow>
          (case apply_to op val of
             Err e \<Rightarrow> Err (VmError e)
           | Ok r \<Rightarrow> (case to_bytes bcs r of None \<Rightarrow> Err BcsError | Some out \<Rightarrow> Ok out)))"

definition squash_delta_step ::
  "bcs_codec \<Rightarrow> 'k::linorder \<times> delta_op \<Rightarrow> 'k write_set \<times> 'k delta_change_set \<Rightarrow>
   ('k write_set \<times> 'k delta_change_set, 'x squash_error) result" where
  "squash_delta_step bcs kop st =
     (let (key, op) = kop; (write_ops, delta_ops) = st
      in case map_of write_ops key of
           Some (Creation data) \<Rightarrow>
             map_ok (\<lambda>out. (bt_insert key (Creation out) write_ops, delta_ops)) (apply_to_bytes bcs op data)
         | Some (Modification data) \<Rightarrow>
             map_ok (\<lambda>out. (bt_insert key (Modification out) write_ops, delta_ops)) (apply_to_bytes bcs op data)
         | Some Deletion \<Rightarrow> Err (Bail ''Failed to apply Aggregator delta -- value already deleted'')
         | None \<Rightarrow>
             (case map_of delta_ops key of
                Some prev \<Rightarrow>
                  (case merge_onto op prev of
                     Err e \<Rightarrow> Err (VmError e)
                   | Ok merged \<Rightarrow> Ok (write_ops, bt_insert key merged delta_ops))
              | None \<Rightarrow> Ok (write_ops, bt_insert key op delta_ops)))"

definition squash_write_step ::
  "'k::linorder \<times> write_op \<Rightarrow> 'k write_set \<times> 'k delta_change_set \<Rightarrow>
   ('k write_set \<times> 'k delta_change_set, 'x squash_error) result" where
  "squash_write_step kop st =
     (let (key, op) = kop; (write_ops, delta) = st
      in case map_of write_ops key of
           Some r \<Rightarrow>
             (case (r, op) of
                (Modification _, Creation _) \<Rightarrow> Err (Bail ''The given change sets cannot be squashed'')
              | (Creation _, Creation _) \<Rightarrow> Err (Bail ''The given change sets cannot be squashed'')
              | (Deletion, Deletion) \<Rightarrow> Err (Bail ''The given change sets cannot be squashed'')
              | (Deletion, Modification _) \<Rightarrow> Err (Bail ''The given change sets cannot be squashed'')
              | (Modification _, Modification data) \<Rightarrow> Ok (bt_insert key (Modification data) write_ops, delta)
              | (Creation _, Modification data) \<Rightarrow> Ok (bt_insert key (Creation data) write_ops, delta)
              | (Modification _, Deletion) \<Rightarrow> Ok (bt_insert key Deletion write_ops, delta)
              | (Deletion, Creation data) \<Rightarrow> Ok (bt_insert key (Modification data) write_ops, delta)
              | (Creation _, Deletion) \<Rightarrow> Ok (bt_remove key write_ops, delta))
         | None \<Rightarrow> Ok (bt_insert key op write_ops, snd (dcs_remove delta key)))"

text \<open>A \<open>for\<close> loop with \<open>?\<close>: the first error leaves the loop.\<close>

fun try_fold :: "('a \<Rightarrow> 's \<Rightarrow> ('s, 'e) result) \<Rightarrow> 'a list \<Rightarrow> 's \<Rightarrow> ('s, 'e) result" where
  "try_fold f [] s = Ok s"
| "try_fold f (x # xs) s = bind_ok (f x s) (try_fold f xs)"

definition squash_delta_change_set ::
  "bcs_codec \<Rightarrow> ('k::linorder write_set \<Rightarrow> 'ev list \<Rightarrow> u64 \<Rightarrow> ('k write_set \<times> 'ev list, 'x) result) \<Rightarrow>
   ('k, 'ev) change_set_ext \<Rightarrow> 'k delta_change_set \<Rightarrow> (('k, 'ev) change_set_ext, 'x squash_error) result" where
  "squash_delta_change_set bcs change_set_new self other =
     (let version = cse_gas_feature_version self;
          (delta_set, (write_set, events)) = cse_into_inner self
      in bind_ok (try_fold (squash_delta_step bcs) other (write_set, delta_set)) (\<lambda>(write_set, delta_set).
         bind_ok (map_err ChangeSetError (change_set_new write_set events version)) (\<lambda>cs.
         Ok \<lparr>cse_deltas = delta_set, cse_change_set = cs, cse_gas_feature_version = version\<rparr>)))"

definition squash_change_set ::
  "('k::linorder write_set \<Rightarrow> 'ev list \<Rightarrow> u64 \<Rightarrow> ('k write_set \<times> 'ev list, 'x) result) \<Rightarrow>
   ('k, 'ev) change_set_ext \<Rightarrow> 'k write_set \<times> 'ev list \<Rightarrow> (('k, 'ev) change_set_ext, 'x squash_error) result" where
  "squash_change_set change_set_new self other =
     (let version = cse_gas_feature_version self;
          (delta, (write_set, events)) = cse_into_inner self;
          (other_write_set, other_events) = other
      in bind_ok (try_fold squash_write_step other_write_set (write_set, delta)) (\<lambda>(write_set, delta).
         bind_ok (map_err ChangeSetError (change_set_new write_set (events @ other_events) version)) (\<lambda>cs.
         Ok \<lparr>cse_deltas = delta, cse_change_set = cs, cse_gas_feature_version = version\<rparr>)))"

definition squash ::
  "bcs_codec \<Rightarrow> ('k::linorder write_set \<Rightarrow> 'ev list \<Rightarrow> u64 \<Rightarrow> ('k write_set \<times> 'ev list, 'x) result) \<Rightarrow>
   ('k, 'ev) change_set_ext \<Rightarrow> ('k, 'ev) change_set_ext \<Rightarrow> (('k, 'ev) change_set_ext, 'x squash_error) result" where
  "squash bcs change_set_new self other =
     (let (delta_change_set, change_set) = cse_into_inner other
      in bind_ok (squash_change_set change_set_new self change_set) (\<lambda>s.
         squash_delta_change_set bcs change_set_new s delta_change_set))"

subsection \<open>Transaction outputs\<close>

record ('k, 'ev, 'st) transaction_output =
  out_write_set :: "'k write_set"
  out_events :: "'ev list"
  out_gas_used :: u64
  out_status :: 'st

record ('k, 'ev, 'st) transaction_output_ext =
  ext_deltas :: "'k delta_change_set"
  ext_output :: "('k, 'ev, 'st) transaction_output"

definition output_ext_new ::
  "'k delta_change_set \<Rightarrow> ('k, 'ev, 'st) transaction_output \<Rightarrow> ('k, 'ev, 'st) transaction_output_ext" where
  "output_ext_new deltas output = \<lparr>ext_deltas = deltas, ext_output = output\<rparr>"

definition output_ext_into ::
  "('k, 'ev, 'st) transaction_output_ext \<Rightarrow> 'k delta_change_set \<times> ('k, 'ev, 'st) transaction_output" where
  "output_ext_into self = (ext_deltas self, ext_output self)"

definition output_ext_from ::
  "('k::linorder, 'ev, 'st) transaction_output \<Rightarrow> ('k, 'ev, 'st) transaction_output_ext" where
  "output_ext_from output = \<lparr>ext_deltas = dcs_empty, ext_output = output\<rparr>"

text \<open>Both \<open>unwrap\<close>s of \<open>merge_delta_writes\<close> panic on an error.\<close>

definition merge_delta_writes ::
  "('k write_set \<Rightarrow> 'wsm \<Rightarrow> ('wsm', 'e1) result) \<Rightarrow> ('wsm' \<Rightarrow> ('k write_set, 'e2) result) \<Rightarrow>
   ('k, 'ev, 'st) transaction_output \<Rightarrow> 'wsm \<Rightarrow> ('k, 'ev, 'st) transaction_output option" where
  "merge_delta_writes wsm_squash wsm_freeze output delta_writes =
     do { squashed \<leftarrow> ok (wsm_squash (out_write_set output) delta_writes);
          frozen \<leftarrow> ok (wsm_freeze squashed);
          Some \<lparr>out_write_set = frozen, out_events = out_events output,
                out_gas_used = out_gas_used output, out_status = out_status output\<rparr> }"

definition into_transaction_output ::
  "bcs_codec \<Rightarrow> (status_code \<Rightarrow> 's) \<Rightarrow> (partial_vm_error \<Rightarrow> 's) \<Rightarrow> (('k \<times> write_op) list \<Rightarrow> 'wsm) \<Rightarrow>
   ('k write_set \<Rightarrow> 'wsm \<Rightarrow> ('wsm', 'e1) result) \<Rightarrow> ('wsm' \<Rightarrow> ('k write_set, 'e2) result) \<Rightarrow> ('st \<Rightarrow> bool) \<Rightarrow>
   ('k::linorder, 'ev, 'st) transaction_output_ext \<Rightarrow> ('k \<Rightarrow> (bytes option, 'se) result) \<Rightarrow>
   ('k, 'ev, 'st) transaction_output option" where
  "into_transaction_output bcs vm_error into_vm_status wsm_new wsm_squash wsm_freeze is_discarded self view =
     (let (delta_change_set, txn_output) = output_ext_into self
      in if is_discarded (out_status txn_output) \<or> dcs_is_empty delta_change_set then Some txn_output
         else
           (case try_into_write_set_mut bcs vm_error into_vm_status wsm_new delta_change_set view of
              Some (Ok materialized_deltas) \<Rightarrow>
                merge_delta_writes wsm_squash wsm_freeze txn_output materialized_deltas
            | Some (Err _) \<Rightarrow> None
            | None \<Rightarrow> None))"

definition output_with_delta_writes ::
  "('wsm \<Rightarrow> nat) \<Rightarrow> ('k write_set \<Rightarrow> 'wsm \<Rightarrow> ('wsm', 'e1) result) \<Rightarrow> ('wsm' \<Rightarrow> ('k write_set, 'e2) result) \<Rightarrow>
   ('st \<Rightarrow> bool) \<Rightarrow> ('k::linorder, 'ev, 'st) transaction_output_ext \<Rightarrow> 'wsm \<Rightarrow>
   ('k, 'ev, 'st) transaction_output option" where
  "output_with_delta_writes wsm_len wsm_squash wsm_freeze is_discarded self delta_writes =
     (let (delta_change_set, txn_output) = output_ext_into self
      in if is_discarded (out_status txn_output) \<or> dcs_is_empty delta_change_set then Some txn_output
         else if dcs_len delta_change_set \<noteq> wsm_len delta_writes then None
         else merge_delta_writes wsm_squash wsm_freeze txn_output delta_writes)"

section \<open>What a change set does to the state\<close>

text \<open>
  The effect of one key's write or delta on the stored bytes.  \<open>None\<close> is "not applicable": a creation of
  something that exists, a change or deletion of something that does not, or a delta that does not
  decode or apply.
\<close>

fun write_effect :: "write_op \<Rightarrow> bytes option \<Rightarrow> bytes option option" where
  "write_effect (Creation d) None = Some (Some d)"
| "write_effect (Creation d) (Some _) = None"
| "write_effect (Modification d) (Some _) = Some (Some d)"
| "write_effect (Modification d) None = None"
| "write_effect Deletion (Some _) = Some None"
| "write_effect Deletion None = None"

definition bytes_after :: "bcs_codec \<Rightarrow> delta_op \<Rightarrow> bytes \<Rightarrow> bytes option" where
  "bytes_after bcs d bs =
     do { v \<leftarrow> from_bytes bcs bs; r \<leftarrow> ok (apply_to d v); to_bytes bcs r }"

definition delta_effect :: "bcs_codec \<Rightarrow> delta_op \<Rightarrow> bytes option \<Rightarrow> bytes option option" where
  "delta_effect bcs d st =
     (case st of
        None \<Rightarrow> None
      | Some bs \<Rightarrow> map_option Some (bytes_after bcs d bs))"

definition key_effect :: "bcs_codec \<Rightarrow> write_op option \<Rightarrow> delta_op option \<Rightarrow> bytes option \<Rightarrow> bytes option option" where
  "key_effect bcs w d st =
     (case w of
        Some op \<Rightarrow> write_effect op st
      | None \<Rightarrow> (case d of None \<Rightarrow> Some st | Some op \<Rightarrow> delta_effect bcs op st))"

text \<open>A change set as a transformation of one key's stored bytes.\<close>

definition cse_effect :: "bcs_codec \<Rightarrow> ('k, 'ev) change_set_ext \<Rightarrow> 'k \<Rightarrow> bytes option \<Rightarrow> bytes option option" where
  "cse_effect bcs cs k = key_effect bcs (map_of (cse_write_set cs) k) (map_of (cse_deltas cs) k)"

text \<open>
  The invariant of a change set: ordered tables, and no key both written and changed by a delta.
\<close>

definition cse_wf :: "('k::linorder, 'ev) change_set_ext \<Rightarrow> bool" where
  "cse_wf cs \<longleftrightarrow> bt_ok (cse_write_set cs) \<and> bt_ok (cse_deltas cs) \<and>
     (\<forall>k. map_of (cse_write_set cs) k = None \<or> map_of (cse_deltas cs) k = None)"

section \<open>Loops that treat each key on its own\<close>

text \<open>
  The interface both squashing loops satisfy: a step on key \<open>k\<close> reads and writes the two tables at
  \<open>k\<close> only, as a function of what they hold there, and fails exactly when that function does.
\<close>

locale keyed_fold =
  fixes step :: "'k::linorder \<times> 'o \<Rightarrow> ('k, 'w) btree \<times> ('k, 'd) btree \<Rightarrow> (('k, 'w) btree \<times> ('k, 'd) btree, 'e) result"
    and local :: "'w option \<Rightarrow> 'd option \<Rightarrow> 'o \<Rightarrow> ('w option \<times> 'd option) option"
  assumes step_local: "local (map_of w k) (map_of d k) op = Some (wk, dk) \<Longrightarrow>
      \<exists>w' d'. step (k, op) (w, d) = Ok (w', d') \<and>
        map_of w' = (map_of w)(k := wk) \<and> map_of d' = (map_of d)(k := dk) \<and>
        (bt_ok w \<longrightarrow> bt_ok w') \<and> (bt_ok d \<longrightarrow> bt_ok d')"
    and step_stuck: "local (map_of w k) (map_of d k) op = None \<Longrightarrow> \<exists>e. step (k, op) (w, d) = Err e"
begin

lemma fold_local:
  assumes "distinct (map fst xs)"
    and "\<And>k op. (k, op) \<in> set xs \<Longrightarrow> local (map_of w k) (map_of d k) op \<noteq> None"
  shows "\<exists>w' d'. try_fold step xs (w, d) = Ok (w', d') \<and> (bt_ok w \<longrightarrow> bt_ok w') \<and> (bt_ok d \<longrightarrow> bt_ok d') \<and>
     (\<forall>k. (map_of w' k, map_of d' k) =
        (case map_of xs k of
           None \<Rightarrow> (map_of w k, map_of d k)
         | Some op \<Rightarrow> the (local (map_of w k) (map_of d k) op)))"
  using assms
proof (induction xs arbitrary: w d)
  case Nil
  then show ?case by simp
next
  case (Cons x xs)
  obtain k op where x: "x = (k, op)" by fastforce
  from Cons.prems(2)[of k op] obtain wk dk where l: "local (map_of w k) (map_of d k) op = Some (wk, dk)"
    by (auto simp: x)
  from step_local[OF l] obtain w1 d1 where s: "step (k, op) (w, d) = Ok (w1, d1)"
    "map_of w1 = (map_of w)(k := wk)" "map_of d1 = (map_of d)(k := dk)"
    "bt_ok w \<longrightarrow> bt_ok w1" "bt_ok d \<longrightarrow> bt_ok d1" by blast
  have fresh: "k' \<noteq> k" if "(k', op') \<in> set xs" for k' op'
    using that Cons.prems(1) by (force simp: x)
  then have "local (map_of w1 k') (map_of d1 k') op' \<noteq> None" if "(k', op') \<in> set xs" for k' op'
    using that Cons.prems(2)[of k' op'] fresh[OF that] by (simp add: s x)
  with Cons.IH[of w1 d1] Cons.prems(1) obtain w2 d2 where f: "try_fold step xs (w1, d1) = Ok (w2, d2)"
    "bt_ok w1 \<longrightarrow> bt_ok w2" "bt_ok d1 \<longrightarrow> bt_ok d2"
    "\<forall>k'. (map_of w2 k', map_of d2 k') = (case map_of xs k' of None \<Rightarrow> (map_of w1 k', map_of d1 k')
       | Some op \<Rightarrow> the (local (map_of w1 k') (map_of d1 k') op))"
    by (auto simp: x)
  have "map_of xs k = None" using Cons.prems(1) by (simp add: x map_of_eq_None_iff)
  then have "(map_of w2 k', map_of d2 k') =
      (case map_of (x # xs) k' of None \<Rightarrow> (map_of w k', map_of d k')
       | Some op \<Rightarrow> the (local (map_of w k') (map_of d k') op))" for k'
    using f(4) l by (cases "k' = k") (auto simp: x s(2,3) split: option.split)
  with s f show ?case by (auto simp: x)
qed

lemma fold_apart:
  assumes "try_fold step xs (w, d) = Ok (w', d')"
    and "bt_ok w" "bt_ok d" "\<And>k. map_of w k = None \<or> map_of d k = None"
    and "\<And>wk dk op wk' dk'. local wk dk op = Some (wk', dk') \<Longrightarrow> wk = None \<or> dk = None \<Longrightarrow> wk' = None \<or> dk' = None"
  shows "bt_ok w' \<and> bt_ok d' \<and> (\<forall>k. map_of w' k = None \<or> map_of d' k = None)"
  using assms(1-4)
proof (induction xs arbitrary: w d)
  case Nil
  then show ?case by simp
next
  case (Cons x xs)
  obtain k op where x: "x = (k, op)" by fastforce
  show ?case
  proof (cases "local (map_of w k) (map_of d k) op")
    case None
    from step_stuck[OF this] Cons.prems(1) show ?thesis by (auto simp: x)
  next
    case (Some l)
    obtain wk dk where "l = (wk, dk)" by fastforce
    note l = Some[unfolded this]
    from step_local[OF l] obtain w1 d1 where s: "step (k, op) (w, d) = Ok (w1, d1)"
      "map_of w1 = (map_of w)(k := wk)" "map_of d1 = (map_of d)(k := dk)"
      "bt_ok w \<longrightarrow> bt_ok w1" "bt_ok d \<longrightarrow> bt_ok d1" by blast
    have "wk = None \<or> dk = None" by (rule assms(5)[OF l Cons.prems(4)])
    then have "map_of w1 j = None \<or> map_of d1 j = None" for j using Cons.prems(4)[of j] by (simp add: s)
    with Cons.IH[of w1 d1] Cons.prems s show ?thesis by (simp add: x)
  qed
qed

end

text \<open>The two loops at one key.\<close>

fun key_squash_write :: "write_op option \<Rightarrow> delta_op option \<Rightarrow> write_op \<Rightarrow> (write_op option \<times> delta_op option) option" where
  "key_squash_write None d op = Some (Some op, None)"
| "key_squash_write (Some (Modification _)) d (Modification data) = Some (Some (Modification data), d)"
| "key_squash_write (Some (Creation _)) d (Modification data) = Some (Some (Creation data), d)"
| "key_squash_write (Some (Modification _)) d Deletion = Some (Some Deletion, d)"
| "key_squash_write (Some Deletion) d (Creation data) = Some (Some (Modification data), d)"
| "key_squash_write (Some (Creation _)) d Deletion = Some (None, d)"
| "key_squash_write _ _ _ = None"

definition key_squash_delta ::
  "bcs_codec \<Rightarrow> write_op option \<Rightarrow> delta_op option \<Rightarrow> delta_op \<Rightarrow> (write_op option \<times> delta_op option) option" where
  "key_squash_delta bcs w d op =
     (case w of
        Some (Creation data) \<Rightarrow>
          map_option (\<lambda>out. (Some (Creation out), d)) (bytes_after bcs op data)
      | Some (Modification data) \<Rightarrow>
          map_option (\<lambda>out. (Some (Modification out), d)) (bytes_after bcs op data)
      | Some Deletion \<Rightarrow> None
      | None \<Rightarrow>
          (case d of
             None \<Rightarrow> Some (None, Some op)
           | Some prev \<Rightarrow> map_option (\<lambda>m. (None, Some m)) (ok (merge_onto op prev))))"

interpretation sw: keyed_fold squash_write_step key_squash_write
proof
  fix w :: "('a, write_op) btree" and k and d :: "('a, delta_op) btree" and op wk dk
  assume "key_squash_write (map_of w k) (map_of d k) op = Some (wk, dk)"
  then show "\<exists>w' d'. squash_write_step (k, op) (w, d) = (Ok (w', d') :: (_, 'b squash_error) result) \<and>
      map_of w' = (map_of w)(k := wk) \<and> map_of d' = (map_of d)(k := dk) \<and>
      (bt_ok w \<longrightarrow> bt_ok w') \<and> (bt_ok d \<longrightarrow> bt_ok d')"
    by (cases "(map_of w k, map_of d k, op)" rule: key_squash_write.cases)
      (auto simp: squash_write_step_def dcs_remove_def map_of_bt_insert map_of_bt_remove bt_ok_insert bt_ok_remove)
next
  fix w :: "('a, write_op) btree" and k and d :: "('a, delta_op) btree" and op
  assume "key_squash_write (map_of w k) (map_of d k) op = None"
  then show "\<exists>e. squash_write_step (k, op) (w, d) = (Err e :: (_, 'b squash_error) result)"
    by (cases "(map_of w k, map_of d k, op)" rule: key_squash_write.cases)
      (auto simp: squash_write_step_def)
qed

lemma apply_to_bytes_Ok: "apply_to_bytes bcs op data = Ok out \<longleftrightarrow> bytes_after bcs op data = Some out"
  by (auto simp: apply_to_bytes_def bytes_after_def split: option.splits result.splits)

lemma apply_to_bytes_Err: "(\<exists>e. apply_to_bytes bcs op data = Err e) \<longleftrightarrow> bytes_after bcs op data = None"
  by (auto simp: apply_to_bytes_def bytes_after_def split: option.splits result.splits)

interpretation sd: keyed_fold "squash_delta_step bcs" "key_squash_delta bcs" for bcs
proof
  fix w :: "('a, write_op) btree" and k and d :: "('a, delta_op) btree" and op wk dk
  assume l: "key_squash_delta bcs (map_of w k) (map_of d k) op = Some (wk, dk)"
  show "\<exists>w' d'. squash_delta_step bcs (k, op) (w, d) = (Ok (w', d') :: (_, 'b squash_error) result) \<and>
      map_of w' = (map_of w)(k := wk) \<and> map_of d' = (map_of d)(k := dk) \<and>
      (bt_ok w \<longrightarrow> bt_ok w') \<and> (bt_ok d \<longrightarrow> bt_ok d')"
  proof (cases "map_of w k")
    case None
    with l show ?thesis
      by (auto simp: key_squash_delta_def squash_delta_step_def map_of_bt_insert bt_ok_insert
          ok_eq_Some split: option.splits result.splits)
  next
    case (Some r)
    with l show ?thesis
      by (cases r)
        (auto simp: key_squash_delta_def squash_delta_step_def map_of_bt_insert bt_ok_insert
              map_ok_eq_Ok apply_to_bytes_Ok)
  qed
next
  fix w :: "('a, write_op) btree" and k and d :: "('a, delta_op) btree" and op
  assume l: "key_squash_delta bcs (map_of w k) (map_of d k) op = None"
  show "\<exists>e. squash_delta_step bcs (k, op) (w, d) = (Err e :: (_, 'b squash_error) result)"
  proof (cases "map_of w k")
    case None
    with l show ?thesis
      by (auto simp: key_squash_delta_def squash_delta_step_def ok_eq_None split: option.splits)
  next
    case (Some r)
    with l show ?thesis
      by (cases r)
        (auto simp: key_squash_delta_def squash_delta_step_def map_ok_eq_Err apply_to_bytes_Err)
  qed
qed

section \<open>Squashing keeps the invariant\<close>

lemma key_squash_write_apart: "key_squash_write w d op = Some (w', d') \<Longrightarrow> w = None \<or> d = None \<Longrightarrow> w' = None \<or> d' = None"
  by (cases "(w, d, op)" rule: key_squash_write.cases) auto

lemma key_squash_delta_apart: "key_squash_delta bcs w d op = Some (w', d') \<Longrightarrow> w = None \<or> d = None \<Longrightarrow> w' = None \<or> d' = None"
  by (auto simp: key_squash_delta_def split: option.splits write_op.splits)

text \<open>Squashing keeps the invariant whatever the change sets do to the state.\<close>

lemma squash_keeps_wf:
  fixes change_set_new :: "'k::linorder write_set \<Rightarrow> 'ev list \<Rightarrow> u64 \<Rightarrow> ('k write_set \<times> 'ev list, 'x) result"
  assumes "squash bcs change_set_new self other = Ok r" "cse_wf self"
    and new: "\<And>ws ev v cs. change_set_new ws ev v = Ok cs \<Longrightarrow> cs = (ws, ev)"
  shows "cse_wf r"
proof -
  from assms(1) obtain r1 where r1: "squash_change_set change_set_new self (cse_change_set other) = Ok r1"
    "squash_delta_change_set bcs change_set_new r1 (cse_deltas other) = Ok r"
    by (auto simp: squash_def cse_into_inner_def bind_ok_eq_Ok)
  from r1(1) obtain w1 d1 cs1 where w1: "try_fold squash_write_step (cse_write_set other) (cse_write_set self, cse_deltas self) = (Ok (w1, d1) :: (_, 'x squash_error) result)"
    "change_set_new w1 (snd (cse_change_set self) @ snd (cse_change_set other)) (cse_gas_feature_version self) = Ok cs1"
    "r1 = \<lparr>cse_deltas = d1, cse_change_set = cs1, cse_gas_feature_version = cse_gas_feature_version self\<rparr>"
    by (auto simp: squash_change_set_def cse_into_inner_def cse_write_set_def Let_def bind_ok_eq_Ok map_err_eq_Ok split: prod.splits)
  from r1(2) obtain w2 d2 cs2 where w2: "try_fold (squash_delta_step bcs) (cse_deltas other) (cse_write_set r1, cse_deltas r1) = (Ok (w2, d2) :: (_, 'x squash_error) result)"
    "change_set_new w2 (snd (cse_change_set r1)) (cse_gas_feature_version r1) = Ok cs2"
    "r = \<lparr>cse_deltas = d2, cse_change_set = cs2, cse_gas_feature_version = cse_gas_feature_version r1\<rparr>"
    by (auto simp: squash_delta_change_set_def cse_into_inner_def cse_write_set_def Let_def bind_ok_eq_Ok map_err_eq_Ok split: prod.splits)
  have "bt_ok w1 \<and> bt_ok d1 \<and> (\<forall>k. map_of w1 k = None \<or> map_of d1 k = None)"
    by (rule sw.fold_apart[OF w1(1)]) (use assms(2) key_squash_write_apart in \<open>auto simp: cse_wf_def\<close>)
  moreover have "bt_ok w2 \<and> bt_ok d2 \<and> (\<forall>k. map_of w2 k = None \<or> map_of d2 k = None)"
    by (rule sd.fold_apart[OF w2(1)]) (use calculation key_squash_delta_apart new[OF w1(2)] in \<open>auto simp: w1(3) cse_write_set_def\<close>)
  ultimately show ?thesis using new[OF w2(2)] by (simp add: w2(3) cse_wf_def cse_write_set_def)
qed
section \<open>Squashing is sequential composition\<close>

lemma key_write_compose:
  assumes "key_effect bcs w d st = Some st1" "write_effect op st1 = Some st2" "w = None \<or> d = None"
  shows "\<exists>w' d'. key_squash_write w d op = Some (w', d') \<and> key_effect bcs w' d' st = Some st2 \<and>
           (w' = None \<or> d' = None) \<and> (d' = d \<or> d' = None)"
proof (cases w)
  case None
  with assms show ?thesis
    by (cases op; cases st; cases st1)
      (auto simp: key_effect_def delta_effect_def split: option.splits)
next
  case (Some r)
  with assms show ?thesis
    by (cases r; cases op; cases st; cases st1) (auto simp: key_effect_def)
qed

definition codec_ok :: "bcs_codec \<Rightarrow> bool" where
  "codec_ok bcs \<longleftrightarrow> (\<forall>v. \<exists>bs. to_bytes bcs v = Some bs \<and> from_bytes bcs bs = Some v)"

lemma codec_okD: "codec_ok bcs \<Longrightarrow> to_bytes bcs v = Some bs \<Longrightarrow> from_bytes bcs bs = Some v"
  unfolding codec_ok_def by (metis option.inject)

lemma codec_ok_total: "codec_ok bcs \<Longrightarrow> to_bytes bcs v \<noteq> None"
  unfolding codec_ok_def by (metis option.distinct(1))

lemma bytes_after_merge:
  assumes "codec_ok bcs" "op_limit prev = op_limit op"
    and "bytes_after bcs prev b = Some b1" "bytes_after bcs op b1 = Some b2"
  shows "\<exists>m. merge_onto op prev = Ok m \<and> bytes_after bcs m b = Some b2"
proof -
  from assms(3) obtain v v1 where v: "from_bytes bcs b = Some v" "apply_to prev v = Ok v1" "to_bytes bcs v1 = Some b1"
    by (auto simp: bytes_after_def bind_eq_Some_conv ok_eq_Some)
  from assms(4) codec_okD[OF assms(1) v(3)] obtain v2 where
    v2: "apply_to op v1 = Ok v2" "to_bytes bcs v2 = Some b2"
    by (auto simp: bytes_after_def bind_eq_Some_conv ok_eq_Some)
  have "Option.bind (ok (merge_onto op prev)) (\<lambda>m. ok (apply_to m v)) = Some v2"
    using merge_onto_composes[OF assms(2), of v] v v2 by simp
  then obtain m where "merge_onto op prev = Ok m" "apply_to m v = Ok v2"
    by (auto simp: bind_eq_Some_conv ok_eq_Some)
  with v v2 show ?thesis by (simp add: bytes_after_def)
qed

lemma key_delta_compose:
  assumes "codec_ok bcs" "key_effect bcs w d st = Some st1" "delta_effect bcs op st1 = Some st2"
    and "w = None \<or> d = None" "\<And>prev. d = Some prev \<Longrightarrow> op_limit prev = op_limit op"
  shows "\<exists>w' d'. key_squash_delta bcs w d op = Some (w', d') \<and> key_effect bcs w' d' st = Some st2 \<and>
           (w' = None \<or> d' = None)"
proof -
  from assms(3) obtain b1 b2 where b: "st1 = Some b1" "st2 = Some b2" "bytes_after bcs op b1 = Some b2"
    by (auto simp: delta_effect_def split: option.splits)
  show ?thesis
  proof (cases w)
    case (Some r)
    with assms(2,4) b show ?thesis
      by (cases r; cases st) (auto simp: key_effect_def key_squash_delta_def)
  next
    case None
    show ?thesis
    proof (cases d)
      case None
      with \<open>w = None\<close> assms(2,3) show ?thesis by (auto simp: key_effect_def key_squash_delta_def)
    next
      case (Some prev)
      with \<open>w = None\<close> assms(2) b obtain b0 where b0: "st = Some b0" "bytes_after bcs prev b0 = Some b1"
        by (auto simp: key_effect_def delta_effect_def split: option.splits)
      from bytes_after_merge[OF assms(1) assms(5)[OF Some] b0(2) b(3)]
      obtain m where "merge_onto op prev = Ok m" "bytes_after bcs m b0 = Some b2" by blast
      with \<open>w = None\<close> Some b0 b show ?thesis
        by (simp add: key_effect_def key_squash_delta_def delta_effect_def)
    qed
  qed
qed

text \<open>One stage: squashing the writes of \<open>other\<close>, and squashing its deltas.\<close>

lemma squash_change_set_effect:
  fixes change_set_new :: "'k::linorder write_set \<Rightarrow> 'ev list \<Rightarrow> u64 \<Rightarrow> ('k write_set \<times> 'ev list, 'x) result"
  assumes wf: "cse_wf self" and "bt_ok ows"
    and new: "\<And>ws ev v cs. change_set_new ws ev v = Ok cs \<Longrightarrow> cs = (ws, ev)"
    and e1: "\<And>k. cse_effect bcs self k (st k) = Some (st1 k)"
    and e2: "\<And>k op. map_of ows k = Some op \<Longrightarrow> write_effect op (st1 k) = Some (st2 k)"
    and e3: "\<And>k. map_of ows k = None \<Longrightarrow> st2 k = st1 k"
  shows "(\<exists>x. squash_change_set change_set_new self (ows, oev) = Err (ChangeSetError x)) \<or>
     (\<exists>r. squash_change_set change_set_new self (ows, oev) = Ok r \<and> cse_wf r \<and>
     (\<forall>k. cse_effect bcs r k (st k) = Some (st2 k)) \<and> snd (cse_change_set r) = snd (cse_change_set self) @ oev \<and>
     (\<forall>k. map_of (cse_deltas r) k = map_of (cse_deltas self) k \<or> map_of (cse_deltas r) k = None))"
proof -
  let ?w = "map_of (cse_write_set self)" and ?d = "map_of (cse_deltas self)"
  have key: "\<exists>w' d'. key_squash_write (?w k) (?d k) op = Some (w', d') \<and>
      key_effect bcs w' d' (st k) = Some (st2 k) \<and> (w' = None \<or> d' = None) \<and> (d' = ?d k \<or> d' = None)"
    if "map_of ows k = Some op" for k op
    using wf e1[of k] e2[OF that] by (intro key_write_compose) (auto simp: cse_effect_def cse_wf_def)
  have dist: "distinct (map fst ows)" using assms(2) by (rule bt.ents_distinct)
  obtain w' d' where f: "try_fold squash_write_step ows (cse_write_set self, cse_deltas self) =
      (Ok (w', d') :: (_, 'x squash_error) result)"
    "bt_ok (cse_write_set self) \<longrightarrow> bt_ok w'" "bt_ok (cse_deltas self) \<longrightarrow> bt_ok d'"
    "\<And>k. (map_of w' k, map_of d' k) = (case map_of ows k of None \<Rightarrow> (?w k, ?d k)
        | Some op \<Rightarrow> the (key_squash_write (?w k) (?d k) op))"
    using sw.fold_local[OF dist, of "cse_write_set self" "cse_deltas self"] key dist by force
  have at: "key_effect bcs (map_of w' k) (map_of d' k) (st k) = Some (st2 k) \<and>
      (map_of w' k = None \<or> map_of d' k = None) \<and> (map_of d' k = ?d k \<or> map_of d' k = None)" for k
  proof (cases "map_of ows k")
    case None
    with f(4)[of k] wf e1[of k] e3[of k] show ?thesis by (auto simp: cse_effect_def cse_wf_def)
  next
    case (Some op)
    with f(4)[of k] key[OF Some] show ?thesis by auto
  qed
  let ?new = "change_set_new w' (snd (cse_change_set self) @ oev) (cse_gas_feature_version self)"
  have "squash_change_set change_set_new self (ows, oev) =
      bind_ok (map_err ChangeSetError ?new) (\<lambda>cs. Ok \<lparr>cse_deltas = d', cse_change_set = cs,
          cse_gas_feature_version = cse_gas_feature_version self\<rparr>)"
    using f(1)
    by (cases "cse_change_set self") (simp add: squash_change_set_def cse_into_inner_def cse_write_set_def Let_def)
  then have "(\<exists>x. squash_change_set change_set_new self (ows, oev) = Err (ChangeSetError x)) \<or>
      squash_change_set change_set_new self (ows, oev) =
      Ok \<lparr>cse_deltas = d', cse_change_set = (w', snd (cse_change_set self) @ oev),
          cse_gas_feature_version = cse_gas_feature_version self\<rparr>"
    using new by (cases ?new) auto
  with at f(2,3) wf show ?thesis by (auto simp: cse_wf_def cse_effect_def cse_write_set_def)
qed

lemma squash_delta_change_set_effect:
  fixes change_set_new :: "'k::linorder write_set \<Rightarrow> 'ev list \<Rightarrow> u64 \<Rightarrow> ('k write_set \<times> 'ev list, 'x) result"
  assumes wf: "cse_wf self" and "bt_ok ods" and codec: "codec_ok bcs"
    and new: "\<And>ws ev v cs. change_set_new ws ev v = Ok cs \<Longrightarrow> cs = (ws, ev)"
    and lim: "\<And>k d1 d2. map_of (cse_deltas self) k = Some d1 \<Longrightarrow> map_of ods k = Some d2 \<Longrightarrow> op_limit d1 = op_limit d2"
    and e1: "\<And>k. cse_effect bcs self k (st k) = Some (st1 k)"
    and e2: "\<And>k op. map_of ods k = Some op \<Longrightarrow> delta_effect bcs op (st1 k) = Some (st2 k)"
    and e3: "\<And>k. map_of ods k = None \<Longrightarrow> st2 k = st1 k"
  shows "(\<exists>x. squash_delta_change_set bcs change_set_new self ods = Err (ChangeSetError x)) \<or>
     (\<exists>r. squash_delta_change_set bcs change_set_new self ods = Ok r \<and> cse_wf r \<and>
     (\<forall>k. cse_effect bcs r k (st k) = Some (st2 k)) \<and> snd (cse_change_set r) = snd (cse_change_set self))"
proof -
  let ?w = "map_of (cse_write_set self)" and ?d = "map_of (cse_deltas self)"
  have key: "\<exists>w' d'. key_squash_delta bcs (?w k) (?d k) op = Some (w', d') \<and>
      key_effect bcs w' d' (st k) = Some (st2 k) \<and> (w' = None \<or> d' = None)"
    if "map_of ods k = Some op" for k op
    using wf e1[of k] e2[OF that] lim[OF _ that]
    by (intro key_delta_compose[OF codec]) (auto simp: cse_effect_def cse_wf_def)
  have dist: "distinct (map fst ods)" using assms(2) by (rule bt.ents_distinct)
  obtain w' d' where f: "try_fold (squash_delta_step bcs) ods (cse_write_set self, cse_deltas self) =
      (Ok (w', d') :: (_, 'x squash_error) result)"
    "bt_ok (cse_write_set self) \<longrightarrow> bt_ok w'" "bt_ok (cse_deltas self) \<longrightarrow> bt_ok d'"
    "\<And>k. (map_of w' k, map_of d' k) = (case map_of ods k of None \<Rightarrow> (?w k, ?d k)
        | Some op \<Rightarrow> the (key_squash_delta bcs (?w k) (?d k) op))"
    using sd.fold_local[OF dist, where w = "cse_write_set self" and d = "cse_deltas self" and bcs = bcs] key dist by force
  have at: "key_effect bcs (map_of w' k) (map_of d' k) (st k) = Some (st2 k) \<and>
      (map_of w' k = None \<or> map_of d' k = None)" for k
  proof (cases "map_of ods k")
    case None
    with f(4)[of k] wf e1[of k] e3[of k] show ?thesis by (auto simp: cse_effect_def cse_wf_def)
  next
    case (Some op)
    with f(4)[of k] key[OF Some] show ?thesis by auto
  qed
  let ?new = "change_set_new w' (snd (cse_change_set self)) (cse_gas_feature_version self)"
  have "squash_delta_change_set bcs change_set_new self ods =
      bind_ok (map_err ChangeSetError ?new) (\<lambda>cs. Ok \<lparr>cse_deltas = d', cse_change_set = cs,
          cse_gas_feature_version = cse_gas_feature_version self\<rparr>)"
    using f(1)
    by (cases "cse_change_set self") (simp add: squash_delta_change_set_def cse_into_inner_def cse_write_set_def Let_def)
  then have "(\<exists>x. squash_delta_change_set bcs change_set_new self ods = Err (ChangeSetError x)) \<or>
      squash_delta_change_set bcs change_set_new self ods =
      Ok \<lparr>cse_deltas = d', cse_change_set = (w', snd (cse_change_set self)),
          cse_gas_feature_version = cse_gas_feature_version self\<rparr>"
    using new by (cases ?new) auto
  with at f(2,3) wf show ?thesis by (auto simp: cse_wf_def cse_effect_def cse_write_set_def)
qed

text \<open>
  C25. Squashing two change sets is sequential composition: from any state on which \<open>self\<close> and then
  \<open>other\<close> are applicable, \<open>squash\<close> fails only where the change-set constructor refuses (its size
  limits); otherwise its result, again well-formed, takes every key of that state where running the two
  in order takes it, and events are concatenated.  The change-set constructor is assumed to keep what it
  accepts, deltas of one key to share their limit, and BCS to round-trip.
\<close>

theorem squash_is_composition:
  fixes change_set_new :: "'k::linorder write_set \<Rightarrow> 'ev list \<Rightarrow> u64 \<Rightarrow> ('k write_set \<times> 'ev list, 'x) result"
  assumes wf: "cse_wf self" "cse_wf other" and codec: "codec_ok bcs"
    and new: "\<And>ws ev v cs. change_set_new ws ev v = Ok cs \<Longrightarrow> cs = (ws, ev)"
    and lim: "\<And>k d1 d2. map_of (cse_deltas self) k = Some d1 \<Longrightarrow> map_of (cse_deltas other) k = Some d2 \<Longrightarrow>
                op_limit d1 = op_limit d2"
    and e1: "\<And>k. cse_effect bcs self k (st k) = Some (st1 k)"
    and e2: "\<And>k. cse_effect bcs other k (st1 k) = Some (st2 k)"
  shows "(\<exists>x. squash bcs change_set_new self other = Err (ChangeSetError x)) \<or>
     (\<exists>r. squash bcs change_set_new self other = Ok r \<and> cse_wf r \<and>
     (\<forall>k. cse_effect bcs r k (st k) = Some (st2 k)) \<and>
     snd (cse_change_set r) = snd (cse_change_set self) @ snd (cse_change_set other))"
proof -
  define mid where "mid k = (case map_of (cse_write_set other) k of None \<Rightarrow> st1 k | Some op \<Rightarrow> st2 k)" for k
  have disj: "map_of (cse_write_set other) k = None \<or> map_of (cse_deltas other) k = None" for k
    using wf(2) by (auto simp: cse_wf_def)
  have "(\<exists>x. squash_change_set change_set_new self (cse_write_set other, snd (cse_change_set other)) = Err (ChangeSetError x)) \<or>
     (\<exists>r. squash_change_set change_set_new self (cse_write_set other, snd (cse_change_set other)) = Ok r \<and>
     cse_wf r \<and> (\<forall>k. cse_effect bcs r k (st k) = Some (mid k)) \<and>
     snd (cse_change_set r) = snd (cse_change_set self) @ snd (cse_change_set other) \<and>
     (\<forall>k. map_of (cse_deltas r) k = map_of (cse_deltas self) k \<or> map_of (cse_deltas r) k = None))"
  proof (rule squash_change_set_effect[OF wf(1) _ _ e1])
    show "bt_ok (cse_write_set other)" using wf(2) by (simp add: cse_wf_def)
    show "cs = (ws, ev)" if "change_set_new ws ev v = Ok cs" for ws ev v cs using new[OF that] .
    show "write_effect op (st1 k) = Some (mid k)" if "map_of (cse_write_set other) k = Some op" for k op
      using that e2[of k] by (simp add: mid_def cse_effect_def key_effect_def)
  qed (simp add: mid_def)
  then consider x where "squash_change_set change_set_new self (cse_change_set other) = Err (ChangeSetError x)"
    | r1 where "squash_change_set change_set_new self (cse_change_set other) = Ok r1" "cse_wf r1"
    "\<And>k. cse_effect bcs r1 k (st k) = Some (mid k)"
    "snd (cse_change_set r1) = snd (cse_change_set self) @ snd (cse_change_set other)"
    "\<And>k. map_of (cse_deltas r1) k = map_of (cse_deltas self) k \<or> map_of (cse_deltas r1) k = None"
    by (auto simp: cse_write_set_def)
  then show ?thesis
  proof cases
    case 1
    then show ?thesis by (simp add: squash_def cse_into_inner_def)
  next
    case (2 r1)
    have "(\<exists>x. squash_delta_change_set bcs change_set_new r1 (cse_deltas other) = Err (ChangeSetError x)) \<or>
       (\<exists>r. squash_delta_change_set bcs change_set_new r1 (cse_deltas other) = Ok r \<and> cse_wf r \<and>
       (\<forall>k. cse_effect bcs r k (st k) = Some (st2 k)) \<and> snd (cse_change_set r) = snd (cse_change_set r1))"
    proof (rule squash_delta_change_set_effect[OF 2(2) _ codec _ _ 2(3)])
      show "bt_ok (cse_deltas other)" using wf(2) by (simp add: cse_wf_def)
      show "cs = (ws, ev)" if "change_set_new ws ev v = Ok cs" for ws ev v cs using new[OF that] .
      show "op_limit d1 = op_limit d2"
        if "map_of (cse_deltas r1) k = Some d1" "map_of (cse_deltas other) k = Some d2" for k d1 d2
        using that 2(5)[of k] lim[of k d1 d2] by auto
      show "delta_effect bcs op (mid k) = Some (st2 k)" if "map_of (cse_deltas other) k = Some op" for k op
        using that e2[of k] disj[of k] by (auto simp: mid_def cse_effect_def key_effect_def)
      show "st2 k = mid k" if "map_of (cse_deltas other) k = None" for k
        using that e2[of k] by (auto simp: mid_def cse_effect_def key_effect_def split: option.splits)
    qed
    with 2 show ?thesis by (auto simp: squash_def cse_into_inner_def)
  qed
qed

text \<open>A concrete pair of change sets: a delta merged with a delta, and a creation undone.\<close>

definition demo_self :: "(nat, nat) change_set_ext" where
  "demo_self = change_set_ext_new [(1, delta_add 2 100)] ([(2, Creation [7])], [5]) 3"

definition demo_other :: "(nat, nat) change_set_ext" where
  "demo_other = change_set_ext_new [(1, delta_sub 5 100)] ([(2, Deletion)], [6]) 3"

definition demo_state :: "u128 \<Rightarrow> bytes option \<Rightarrow> nat \<Rightarrow> bytes option" where
  "demo_state v x k = (if k = 1 then Some (le_encode 16 (unat v)) else if k = 2 then x else None)"

lemma demo_effects:
  "cse_effect bcs_le128 demo_self k (demo_state 10 None k) = Some (demo_state 12 (Some [7]) k)"
  "cse_effect bcs_le128 demo_other k (demo_state 12 (Some [7]) k) = Some (demo_state 7 None k)"
  unfolding cse_effect_def key_effect_def delta_effect_def bytes_after_def
    demo_self_def demo_other_def demo_state_def change_set_ext_new_def cse_write_set_def
    delta_add_def delta_sub_def delta_new_def apply_to_def addition_def subtraction_def
  using bcs_le128_simps(2)[of 10] bcs_le128_simps(2)[of 12]
  by simp_all

theorem squash_is_composition_witness:
  "\<exists>r. squash bcs_le128 (\<lambda>ws ev v. Ok (ws, ev) :: (_, unit) result) demo_self demo_other = Ok r \<and>
       cse_effect bcs_le128 r 1 (demo_state 10 None 1) = Some (demo_state 7 None 1) \<and>
       cse_effect bcs_le128 r 2 None = Some None \<and> snd (cse_change_set r) = [5, 6]"
proof -
  have wf: "cse_wf demo_self" "cse_wf demo_other"
    by (auto simp: cse_wf_def demo_self_def demo_other_def change_set_ext_new_def cse_write_set_def bt_ok_def)
  have codec: "codec_ok bcs_le128" unfolding codec_ok_def using bcs_le128_roundtrip by blast
  have lim: "map_of (cse_deltas demo_self) k = Some d1 \<Longrightarrow> map_of (cse_deltas demo_other) k = Some d2 \<Longrightarrow>
      op_limit d1 = op_limit d2" for k d1 d2
    by (auto simp: demo_self_def demo_other_def change_set_ext_new_def delta_add_def delta_sub_def delta_new_def
        split: if_splits)
  let ?new = "\<lambda>ws ev v. Ok (ws, ev) :: (nat write_set \<times> nat list, unit) result"
  have no: "squash bcs_le128 ?new demo_self demo_other \<noteq> Err (ChangeSetError x)" for x
    by (simp add: squash_def squash_change_set_def squash_delta_change_set_def cse_into_inner_def
        squash_write_step_def squash_delta_step_def demo_self_def demo_other_def change_set_ext_new_def bt_remove_def
        split: result.split)
  have "(\<exists>x. squash bcs_le128 ?new demo_self demo_other = Err (ChangeSetError x)) \<or>
     (\<exists>r. squash bcs_le128 ?new demo_self demo_other = Ok r \<and> cse_wf r \<and>
     (\<forall>k. cse_effect bcs_le128 r k (demo_state 10 None k) = Some (demo_state 7 None k)) \<and>
     snd (cse_change_set r) = snd (cse_change_set demo_self) @ snd (cse_change_set demo_other))"
    by (rule squash_is_composition[where ?st1.0 = "demo_state 12 (Some [7])"])
      (use wf codec lim demo_effects in auto)
  then obtain r where "squash bcs_le128 ?new demo_self demo_other = Ok r"
    "\<And>k. cse_effect bcs_le128 r k (demo_state 10 None k) = Some (demo_state 7 None k)"
    "snd (cse_change_set r) = snd (cse_change_set demo_self) @ snd (cse_change_set demo_other)"
    using no by blast
  moreover from this(2)[of 2] have "cse_effect bcs_le128 r 2 None = Some None"
    by (simp add: demo_state_def)
  ultimately show ?thesis
    by (auto simp: demo_self_def demo_other_def change_set_ext_new_def)
qed

text \<open>
  The two ways of producing a final output agree: applying the deltas against a state view equals
  first materialising them and then attaching the writes, where the length assertion never fires, and a
  delta that does not materialise is the only source of the panic before the write sets are joined.
\<close>

theorem output_paths_agree:
  assumes "bt_ok (ext_deltas self)"
    and len: "\<forall>xs. distinct (map fst xs) \<longrightarrow> wsm_len (wsm_new xs) = length xs"
  shows "into_transaction_output bcs vm_error into_vm_status wsm_new wsm_squash wsm_freeze is_discarded self view =
     (if is_discarded (out_status (ext_output self)) \<or> dcs_is_empty (ext_deltas self) then Some (ext_output self)
      else case try_into_write_set_mut bcs vm_error into_vm_status wsm_new (ext_deltas self) view of
             Some (Ok delta_writes) \<Rightarrow>
               output_with_delta_writes wsm_len wsm_squash wsm_freeze is_discarded self delta_writes
           | _ \<Rightarrow> None)"
proof -
  have "wsm_len dw = dcs_len (ext_deltas self)"
    if dw: "try_into_write_set_mut bcs vm_error into_vm_status wsm_new (ext_deltas self) view = Some (Ok dw)" for dw
  proof -
    from dw obtain ws where ws: "dw = wsm_new ws"
      "materialize_loop (\<lambda>key d. try_into_write_op bcs vm_error into_vm_status d view key) (ext_deltas self) [] =
       Some (Ok ws)"
      by (auto simp: try_into_write_set_mut_def map_ok_eq_Ok)
    then have "list_all2 (\<lambda>x y. fst y = fst x) (ext_deltas self) ws"
      unfolding materialize_loop_Ok by (auto elim: list_all2_mono)
    then have "map fst ws = map fst (ext_deltas self)"
      by (induction rule: list_all2_induct) auto
    then show ?thesis
      using len ws(1) bt.ents_distinct[OF assms(1)] by (metis dcs_len_def length_map)
  qed
  then show ?thesis
    by (auto simp: into_transaction_output_def output_with_delta_writes_def output_ext_into_def
        split: option.splits result.splits)
qed

theorem output_paths_agree_witness:
  "bt_ok ([] :: (nat, delta_op) btree) \<and>
   into_transaction_output bcs_le128 id (\<lambda>_. ABORTED) id (\<lambda>w dw. Ok (w @ dw) :: (_, unit) result)
     (\<lambda>w. Ok w :: (_, unit) result) (\<lambda>s. s = (9 :: nat))
     (output_ext_from \<lparr>out_write_set = [(1 :: nat, Deletion)], out_events = [True], out_gas_used = 4, out_status = 3\<rparr>)
     (\<lambda>_. Ok None :: (_, unit) result) =
   Some \<lparr>out_write_set = [(1, Deletion)], out_events = [True], out_gas_used = 4, out_status = 3\<rparr>"
proof -
  let ?self = "output_ext_from \<lparr>out_write_set = [(1 :: nat, Deletion)], out_events = [True], out_gas_used = 4, out_status = 3 :: nat\<rparr>"
  have bt: "bt_ok (ext_deltas ?self)" by (simp add: output_ext_from_def dcs_empty_def)
  have len: "\<forall>xs :: (nat \<times> write_op) list. distinct (map fst xs) \<longrightarrow> length (id xs) = length xs" by simp
  show ?thesis
    using output_paths_agree[where self = ?self and wsm_len = length and wsm_new = id, OF bt len]
    by (simp add: output_ext_from_def dcs_empty_def dcs_is_empty_def)
qed

end
