(* ===== verification/MV_HashMap.thy ===== *)
theory MV_HashMap
  imports Agg_Transaction
begin

text \<open>
  The multi-version store of \<^verbatim>\<open>mvhashmap/src/lib.rs\<close>: per key, the entries of the transactions
  of the block that touched it, ordered by transaction index.  The concurrent \<open>DashMap\<close> is a map: its
  methods hold the shard of the key for their whole duration, so each operation is one atomic step on
  that key's tree.  Transaction indices and incarnations are natural numbers (\<open>usize\<close>; the code never
  does arithmetic on them here).  A panic (\<open>assert!\<close>, \<open>expect\<close>, \<open>debug_assert!\<close>, an undecodable
  aggregator value) is \<open>None\<close>.
\<close>

section \<open>Definitions\<close>

type_synonym txn_index = nat
type_synonym incarnation = nat
type_synonym version = "txn_index \<times> incarnation"

definition FLAG_DONE :: nat where
  "FLAG_DONE = 0"

definition FLAG_ESTIMATE :: nat where
  "FLAG_ESTIMATE = 1"

datatype 'v entry_cell = Write incarnation 'v | Delta delta_op

record 'v entry =
  flag :: nat
  cell :: "'v entry_cell"

definition new_write_from :: "nat \<Rightarrow> incarnation \<Rightarrow> 'v \<Rightarrow> 'v entry" where
  "new_write_from f inc data = \<lparr>flag = f, cell = Write inc data\<rparr>"

definition new_delta_from :: "nat \<Rightarrow> delta_op \<Rightarrow> 'v entry" where
  "new_delta_from f data = \<lparr>flag = f, cell = Delta data\<rparr>"

definition entry_mark_estimate :: "'v entry \<Rightarrow> 'v entry" where
  "entry_mark_estimate e = e\<lparr>flag := FLAG_ESTIMATE\<rparr>"

type_synonym 'v entry_tree = "(txn_index, 'v entry) btree"
type_synonym ('k, 'v) mvhashmap = "'k \<Rightarrow> 'v entry_tree option"

datatype mv_error =
    NotFound
  | Unresolved delta_op
  | Dependency txn_index
  | DeltaApplicationFailure

datatype 'v mv_output = Resolved u128 | Version version 'v

definition mv_new :: "('k, 'v) mvhashmap" where
  "mv_new = (\<lambda>_. None)"

definition entry_map_for_key :: "('k, 'v) mvhashmap \<Rightarrow> 'k \<Rightarrow> 'v entry_tree option \<times> ('k, 'v) mvhashmap" where
  "entry_map_for_key m key = (m key, m(key := None))"

definition tree_or_new :: "('k, 'v) mvhashmap \<Rightarrow> 'k \<Rightarrow> 'v entry_tree" where
  "tree_or_new m key = (case m key of Some t \<Rightarrow> t | None \<Rightarrow> [])"

definition add_write :: "('k, 'v) mvhashmap \<Rightarrow> 'k \<Rightarrow> version \<Rightarrow> 'v \<Rightarrow> ('k, 'v) mvhashmap option" where
  "add_write m key ver data =
     (let (txn_idx, inc) = ver;
          map = tree_or_new m key;
          prev_entry = map_of map txn_idx;
          m' = m(key \<mapsto> bt_insert txn_idx (new_write_from FLAG_DONE inc data) map)
      in if (case prev_entry of
               None \<Rightarrow> True
             | Some entry \<Rightarrow> (case cell entry of Write i _ \<Rightarrow> i < inc | Delta _ \<Rightarrow> True))
         then Some m' else None)"

definition add_delta :: "('k, 'v) mvhashmap \<Rightarrow> 'k \<Rightarrow> txn_index \<Rightarrow> delta_op \<Rightarrow> ('k, 'v) mvhashmap" where
  "add_delta m key txn_idx delta =
     m(key \<mapsto> bt_insert txn_idx (new_delta_from FLAG_DONE delta) (tree_or_new m key))"

definition mark_estimate :: "('k, 'v) mvhashmap \<Rightarrow> 'k \<Rightarrow> txn_index \<Rightarrow> ('k, 'v) mvhashmap option" where
  "mark_estimate m key txn_idx =
     do { map \<leftarrow> m key;
          entry \<leftarrow> map_of map txn_idx;
          Some (m(key \<mapsto> bt_insert txn_idx (entry_mark_estimate entry) map)) }"

definition mv_delete :: "('k, 'v) mvhashmap \<Rightarrow> 'k \<Rightarrow> txn_index \<Rightarrow> ('k, 'v) mvhashmap option" where
  "mv_delete m key txn_idx = map_option (\<lambda>map. m(key \<mapsto> bt_remove txn_idx map)) (m key)"

text \<open>The traversal of \<open>read\<close>, on the entries below the reader in descending order.\<close>

fun read_loop ::
  "bcs_codec \<Rightarrow> ('v \<Rightarrow> bytes option) \<Rightarrow> (txn_index \<times> 'v entry) list \<Rightarrow> delta_op option \<Rightarrow>
   ('v mv_output, mv_error) result option" where
  "read_loop bcs extract_raw_bytes [] accumulator =
     Some (case accumulator of Some acc \<Rightarrow> Err (Unresolved acc) | None \<Rightarrow> Err NotFound)"
| "read_loop bcs extract_raw_bytes ((idx, entry) # rest) accumulator =
     (if flag entry = FLAG_ESTIMATE then Some (Err (Dependency idx))
      else if flag entry \<noteq> FLAG_DONE then None
      else case (cell entry, accumulator) of
        (Write inc data, None) \<Rightarrow> Some (Ok (Version (idx, inc) data))
      | (Write inc data, Some acc) \<Rightarrow>
          (case from_write bcs extract_raw_bytes data of
             None \<Rightarrow> None
           | Some None \<Rightarrow> Some (Ok (Version (idx, inc) data))
           | Some (Some v) \<Rightarrow>
               Some (map_ok Resolved (map_err (\<lambda>_. DeltaApplicationFailure) (apply_to acc v))))
      | (Delta delta, Some acc) \<Rightarrow>
          (case merge_onto acc delta of
             Err _ \<Rightarrow> Some (Err DeltaApplicationFailure)
           | Ok acc' \<Rightarrow> read_loop bcs extract_raw_bytes rest (Some acc'))
      | (Delta delta, None) \<Rightarrow> read_loop bcs extract_raw_bytes rest (Some delta))"

definition mv_read ::
  "bcs_codec \<Rightarrow> ('v \<Rightarrow> bytes option) \<Rightarrow> ('k, 'v) mvhashmap \<Rightarrow> 'k \<Rightarrow> txn_index \<Rightarrow>
   ('v mv_output, mv_error) result option" where
  "mv_read bcs extract_raw_bytes m key txn_idx =
     (case m key of
        Some tree \<Rightarrow> read_loop bcs extract_raw_bytes (rev (bt_below txn_idx tree)) None
      | None \<Rightarrow> Some (Err NotFound))"

section \<open>The invariant\<close>

definition flag_ok :: "'v entry \<Rightarrow> bool" where
  "flag_ok e \<longleftrightarrow> flag e = FLAG_DONE \<or> flag e = FLAG_ESTIMATE"

definition mv_wf :: "('k, 'v) mvhashmap \<Rightarrow> bool" where
  "mv_wf m \<longleftrightarrow> (\<forall>k t. m k = Some t \<longrightarrow> bt_ok t \<and> (\<forall>x \<in> set t. flag_ok (snd x)))"

text \<open>The entry of a transaction at a key: what every operation is specified by.\<close>

definition mv_entry :: "('k, 'v) mvhashmap \<Rightarrow> 'k \<Rightarrow> txn_index \<Rightarrow> 'v entry option" where
  "mv_entry m k i = map_of (tree_or_new m k) i"

lemma flag_ok_new [simp]: "flag_ok (new_write_from FLAG_DONE i d)" "flag_ok (new_delta_from FLAG_DONE op)"
  "flag_ok (entry_mark_estimate e)"
  by (simp_all add: flag_ok_def new_write_from_def new_delta_from_def entry_mark_estimate_def)

lemma mv_wf_new: "mv_wf mv_new"
  by (simp add: mv_wf_def mv_new_def)

lemma mv_wf_tree: "mv_wf m \<Longrightarrow> bt_ok (tree_or_new m k)"
  by (auto simp: mv_wf_def tree_or_new_def split: option.split)

lemma mv_wf_flags: "mv_wf m \<Longrightarrow> x \<in> set (tree_or_new m k) \<Longrightarrow> flag_ok (snd x)"
  by (cases "m k") (auto simp: mv_wf_def tree_or_new_def)

lemma mv_wf_insert:
  assumes "mv_wf m" "flag_ok e"
  shows "mv_wf (m(k \<mapsto> bt_insert i e (tree_or_new m k)))"
  using assms mv_wf_tree[OF assms(1), of k] mv_wf_flags[OF assms(1), of _ k]
  by (auto simp: mv_wf_def bt_ok_insert bt.ents_ins)

lemma mv_wf_remove: "mv_wf m \<Longrightarrow> m k = Some t \<Longrightarrow> mv_wf (m(k \<mapsto> bt_remove i t))"
  by (auto simp: mv_wf_def bt_ok_remove bt.ents_rmv)

lemma mv_entry_insert:
  "mv_entry (m(k \<mapsto> bt_insert i e (tree_or_new m k))) k' i' = (if k' = k \<and> i' = i then Some e else mv_entry m k' i')"
  by (simp add: mv_entry_def tree_or_new_def map_of_bt_insert)

lemma mv_entry_remove:
  "m k = Some t \<Longrightarrow>
   mv_entry (m(k \<mapsto> bt_remove i t)) k' i' = (if k' = k \<and> i' = i then None else mv_entry m k' i')"
  by (simp add: mv_entry_def tree_or_new_def map_of_bt_remove)

lemma mark_estimate_eq:
  "mark_estimate m k i =
     (case mv_entry m k i of
        None \<Rightarrow> None
      | Some e \<Rightarrow> Some (m(k \<mapsto> bt_insert i (entry_mark_estimate e) (tree_or_new m k))))"
  by (auto simp: mark_estimate_def mv_entry_def tree_or_new_def split: option.split bind_splits)

text \<open>The operations as one type, to speak of sequences of them.\<close>

datatype ('k, 'v) mv_op =
    AddWrite 'k version 'v
  | AddDelta 'k txn_index delta_op
  | MarkEstimate 'k txn_index
  | DeleteEntry 'k txn_index

fun mv_apply :: "('k, 'v) mv_op \<Rightarrow> ('k, 'v) mvhashmap \<Rightarrow> ('k, 'v) mvhashmap option" where
  "mv_apply (AddWrite k ver d) m = add_write m k ver d"
| "mv_apply (AddDelta k i op) m = Some (add_delta m k i op)"
| "mv_apply (MarkEstimate k i) m = mark_estimate m k i"
| "mv_apply (DeleteEntry k i) m = mv_delete m k i"

fun op_site :: "('k, 'v) mv_op \<Rightarrow> 'k \<times> txn_index" where
  "op_site (AddWrite k ver d) = (k, fst ver)"
| "op_site (AddDelta k i op) = (k, i)"
| "op_site (MarkEstimate k i) = (k, i)"
| "op_site (DeleteEntry k i) = (k, i)"

text \<open>What an operation leaves at its own site, as a function of what was there; \<open>None\<close> is a panic.\<close>

fun site_effect :: "('k, 'v) mv_op \<Rightarrow> 'v entry option \<Rightarrow> 'v entry option option" where
  "site_effect (AddWrite k ver d) prev =
     (if \<exists>i d' f. prev = Some \<lparr>flag = f, cell = Write i d'\<rparr> \<and> snd ver \<le> i then None
      else Some (Some \<lparr>flag = FLAG_DONE, cell = Write (snd ver) d\<rparr>))"
| "site_effect (AddDelta k i op) prev = Some (Some \<lparr>flag = FLAG_DONE, cell = Delta op\<rparr>)"
| "site_effect (MarkEstimate k i) prev = map_option (\<lambda>e. Some (e\<lparr>flag := FLAG_ESTIMATE\<rparr>)) prev"
| "site_effect (DeleteEntry k i) prev = Some None"

lemma add_write_guard:
  "(case prev of None \<Rightarrow> True | Some entry \<Rightarrow> (case cell entry of Write i _ \<Rightarrow> i < inc | Delta _ \<Rightarrow> True)) =
   (\<not> (\<exists>i d' f. prev = Some \<lparr>flag = f, cell = Write i d'\<rparr> \<and> inc \<le> i))"
proof (cases prev)
  case (Some e)
  then show ?thesis by (cases e) (auto split: entry_cell.split)
qed simp

lemma mv_apply_Some:
  assumes "mv_apply op m = Some m'"
  shows "mv_wf m \<longrightarrow> mv_wf m'"
    and "site_effect op (mv_entry m (fst (op_site op)) (snd (op_site op))) =
           Some (mv_entry m' (fst (op_site op)) (snd (op_site op)))"
    and "(k, i) \<noteq> op_site op \<Longrightarrow> mv_entry m' k i = mv_entry m k i"
proof -
  show "mv_wf m \<longrightarrow> mv_wf m'" using assms
    by (cases op)
      (auto simp: add_write_def add_delta_def mark_estimate_eq mv_delete_def Let_def mv_wf_insert mv_wf_remove
        split: if_splits option.splits prod.splits)
  show "site_effect op (mv_entry m (fst (op_site op)) (snd (op_site op))) =
      Some (mv_entry m' (fst (op_site op)) (snd (op_site op)))" using assms
    by (cases op)
      (auto simp: add_write_def add_delta_def mark_estimate_eq mv_delete_def Let_def mv_entry_insert mv_entry_remove
         add_write_guard new_write_from_def new_delta_from_def entry_mark_estimate_def mv_entry_def[symmetric]
        split: if_splits option.splits prod.splits)
  show "(k, i) \<noteq> op_site op \<Longrightarrow> mv_entry m' k i = mv_entry m k i" using assms
    by (cases op)
      (auto simp: add_write_def add_delta_def mark_estimate_eq mv_delete_def Let_def mv_entry_insert mv_entry_remove
        split: if_splits option.splits prod.splits)
qed

section \<open>Reads see only lower transactions\<close>

lemma bt_below_cong:
  assumes "bt_ok t" "bt_ok t'" "\<And>i. i < hi \<Longrightarrow> map_of t i = map_of t' i"
  shows "bt_below hi t = bt_below hi t'"
proof (rule bt_ext)
  show "map_of (bt_below hi t) = map_of (bt_below hi t')"
    using assms(3) by (auto simp: map_of_bt_below)
qed (use assms in \<open>auto intro: bt_ok_below\<close>)

lemma mv_read_tree: "mv_read bcs ex m k i = read_loop bcs ex (rev (bt_below i (tree_or_new m k))) None"
  by (auto simp: mv_read_def tree_or_new_def bt_below_def split: option.split)

lemma mv_read_cong:
  assumes "mv_wf m" "mv_wf m'" "\<And>j. j < i \<Longrightarrow> mv_entry m k j = mv_entry m' k j"
  shows "mv_read bcs ex m k i = mv_read bcs ex m' k i"
  using bt_below_cong[OF mv_wf_tree[OF assms(1)] mv_wf_tree[OF assms(2)]] assms(3)
  by (simp add: mv_read_tree mv_entry_def)

text \<open>
  The contract a transaction's reads rely on: an update made on behalf of transaction \<open>j\<close> is invisible
  to every reader at or below \<open>j\<close> and at every other key.
\<close>

locale versioned_store =
  fixes upd :: "'u \<Rightarrow> 'm \<Rightarrow> 'm option"
    and rd :: "'m \<Rightarrow> 'k \<Rightarrow> nat \<Rightarrow> 'r"
    and site :: "'u \<Rightarrow> 'k \<times> nat"
    and good :: "'m \<Rightarrow> bool"
  assumes good_upd: "good m \<Longrightarrow> upd u m = Some m' \<Longrightarrow> good m'"
    and rd_upd: "good m \<Longrightarrow> upd u m = Some m' \<Longrightarrow> fst (site u) \<noteq> k \<or> i \<le> snd (site u) \<Longrightarrow> rd m' k i = rd m k i"
begin

lemma run_all_good: "good m \<Longrightarrow> run_all upd us m = Some m' \<Longrightarrow> good m'"
  by (induction us arbitrary: m) (auto simp: bind_eq_Some_conv intro: good_upd)

lemma rd_run_all:
  assumes "good m" "run_all upd us m = Some m'" "\<And>u. u \<in> set us \<Longrightarrow> fst (site u) \<noteq> k \<or> i \<le> snd (site u)"
  shows "rd m' k i = rd m k i"
  using assms
proof (induction us arbitrary: m)
  case (Cons u us)
  then obtain m1 where m1: "upd u m = Some m1" "run_all upd us m1 = Some m'"
    by (auto simp: bind_eq_Some_conv)
  with Cons show ?case using Cons.IH[OF good_upd[OF Cons.prems(1) m1(1)] m1(2)] rd_upd[OF Cons.prems(1) m1(1)]
    by auto
qed simp

end

interpretation mv: versioned_store mv_apply "mv_read bcs ex" op_site mv_wf
  for bcs and ex :: "'v \<Rightarrow> bytes option"
proof
  show "mv_wf m'" if "mv_wf m" "mv_apply u m = Some m'" for m m' and u :: "('k, 'v) mv_op"
    using mv_apply_Some(1)[OF that(2)] that(1) by blast
  show "mv_read bcs ex m' k i = mv_read bcs ex m k i"
    if "mv_wf m" "mv_apply u m = Some m'" "fst (op_site u) \<noteq> k \<or> i \<le> snd (op_site u)"
    for m m' k i and u :: "('k, 'v) mv_op"
  proof (rule mv_read_cong)
    show "mv_wf m'" using mv_apply_Some(1)[OF that(2)] that(1) by blast
    show "mv_entry m' k j = mv_entry m k j" if "j < i" for j
      using mv_apply_Some(3)[OF \<open>mv_apply u m = Some m'\<close>, of k j] \<open>fst (op_site u) \<noteq> k \<or> i \<le> snd (op_site u)\<close> that
      by (metis fst_conv leD snd_conv)
  qed fact
qed

section \<open>A read is the sequential history of the key\<close>

text \<open>
  The abstract specification: the state of one key after running the entries below the reader in
  transaction order, from the stored value \<open>base\<close> (\<open>None\<close> when storage holds no aggregator value).
\<close>

datatype 'v key_state =
    KBase
  | KWrite version 'v
  | KNum u128
  | KFail

definition key_value :: "bcs_codec \<Rightarrow> ('v \<Rightarrow> bytes option) \<Rightarrow> u128 option \<Rightarrow> 'v key_state \<Rightarrow> u128 option" where
  "key_value bcs ex base st =
     (case st of
        KBase \<Rightarrow> base
      | KWrite _ data \<Rightarrow> Option.bind (from_write bcs ex data) id
      | KNum n \<Rightarrow> Some n
      | KFail \<Rightarrow> None)"

fun num_or_fail :: "u128 option \<Rightarrow> 'v key_state" where
  "num_or_fail (Some n) = KNum n"
| "num_or_fail None = KFail"

definition key_step ::
  "bcs_codec \<Rightarrow> ('v \<Rightarrow> bytes option) \<Rightarrow> u128 option \<Rightarrow> 'v key_state \<Rightarrow> txn_index \<times> 'v entry \<Rightarrow> 'v key_state" where
  "key_step bcs ex base st x =
     (case cell (snd x) of
        Write inc data \<Rightarrow> KWrite (fst x, inc) data
      | Delta d \<Rightarrow> num_or_fail (Option.bind (key_value bcs ex base st) (\<lambda>v. ok (apply_to d v))))"

definition key_history ::
  "bcs_codec \<Rightarrow> ('v \<Rightarrow> bytes option) \<Rightarrow> u128 option \<Rightarrow> (txn_index \<times> 'v entry) list \<Rightarrow> 'v key_state" where
  "key_history bcs ex base es = foldl (key_step bcs ex base) KBase es"

text \<open>What the reader makes of a result: an unresolved delta is applied to the stored value.\<close>

fun mv_resolve :: "u128 option \<Rightarrow> ('v mv_output, mv_error) result \<Rightarrow> 'v key_state option" where
  "mv_resolve base (Ok (Version ver data)) = Some (KWrite ver data)"
| "mv_resolve base (Ok (Resolved n)) = Some (KNum n)"
| "mv_resolve base (Err NotFound) = Some KBase"
| "mv_resolve base (Err (Unresolved d)) = Some (num_or_fail (Option.bind base (\<lambda>v. ok (apply_to d v))))"
| "mv_resolve base (Err DeltaApplicationFailure) = Some KFail"
| "mv_resolve base (Err (Dependency _)) = None"

text \<open>
  Keys changed by deltas are aggregators: their deltas share a limit and every write below holds a
  decodable value.
\<close>

definition aggregator_entries :: "bcs_codec \<Rightarrow> ('v \<Rightarrow> bytes option) \<Rightarrow> u128 \<Rightarrow> (txn_index \<times> 'v entry) list \<Rightarrow> bool" where
  "aggregator_entries bcs ex limit es \<longleftrightarrow>
     (\<forall>x \<in> set es. case cell (snd x) of
        Write inc data \<Rightarrow> (\<exists>v. from_write bcs ex data = Some (Some v))
      | Delta d \<Rightarrow> op_limit d = limit)"

definition all_done :: "(txn_index \<times> 'v entry) list \<Rightarrow> bool" where
  "all_done es \<longleftrightarrow> (\<forall>x \<in> set es. flag (snd x) = FLAG_DONE)"

lemma key_history_snoc: "key_history bcs ex base (es @ [x]) = key_step bcs ex base (key_history bcs ex base es) x"
  by (simp add: key_history_def)

lemma merge_act_eq:
  assumes "op_limit d = op_limit acc"
  shows "Option.bind x (\<lambda>v. Option.bind (ok (merge_onto acc d)) (\<lambda>f. ok (apply_to f v))) =
         Option.bind (Option.bind x (\<lambda>v. ok (apply_to d v))) (\<lambda>v. ok (apply_to acc v))"
  using dop.mrg_act[of d acc] assms by (cases x) simp_all

lemma read_loop_acc:
  assumes "all_done es" "aggregator_entries bcs ex (op_limit acc) es"
  shows "\<exists>r. read_loop bcs ex es (Some acc) = Some r \<and>
     mv_resolve base r = Some (num_or_fail
       (Option.bind (key_value bcs ex base (key_history bcs ex base (rev es))) (\<lambda>v. ok (apply_to acc v))))"
  using assms
proof (induction es arbitrary: acc)
  case Nil
  then show ?case by (simp add: key_history_def key_value_def)
next
  case (Cons x es)
  obtain i e where x: "x = (i, e)" by fastforce
  have fl: "flag e = FLAG_DONE" "FLAG_DONE \<noteq> FLAG_ESTIMATE"
    using Cons.prems(1) by (auto simp: all_done_def x FLAG_DONE_def FLAG_ESTIMATE_def)
  show ?case
  proof (cases "cell e")
    case (Write inc data)
    with Cons.prems(2) obtain v where "from_write bcs ex data = Some (Some v)"
      by (auto simp: aggregator_entries_def x)
    then show ?thesis using fl Write
      by (cases "apply_to acc v") (simp_all add: x key_history_snoc key_step_def key_value_def)
  next
    case (Delta d)
    have lim: "op_limit d = op_limit acc" and rest: "all_done es" "aggregator_entries bcs ex (op_limit acc) es"
      using Cons.prems Delta by (auto simp: aggregator_entries_def all_done_def x)
    let ?st = "key_value bcs ex base (key_history bcs ex base (rev es))"
    have step: "key_value bcs ex base (num_or_fail z) = z" for z
      by (cases z) (simp_all add: key_value_def)
    show ?thesis
    proof (cases "merge_onto acc d")
      case (Ok f)
      from Cons.IH[of f] rest merge_onto_limit[OF Ok] merge_act_eq[OF lim, of ?st] show ?thesis
        by (simp add: x fl Delta Ok key_history_snoc key_step_def step)
    next
      case (Err e')
      then have "Option.bind (Option.bind ?st (\<lambda>v. ok (apply_to d v))) (\<lambda>v. ok (apply_to acc v)) = None"
        using merge_act_eq[OF lim, of ?st] by (cases ?st) simp_all
      with fl Delta Err show ?thesis
        by (simp add: x key_history_snoc key_step_def step)
    qed
  qed
qed

lemma read_loop_history:
  assumes "all_done es" and "(\<exists>x \<in> set es. \<exists>d. cell (snd x) = Delta d) \<longrightarrow> aggregator_entries bcs ex limit es"
  shows "\<exists>r. read_loop bcs ex es None = Some r \<and> mv_resolve base r = Some (key_history bcs ex base (rev es))"
proof (cases es)
  case Nil
  then show ?thesis by (simp add: key_history_def)
next
  case (Cons x rest)
  obtain i e where x: "x = (i, e)" by fastforce
  have fl: "flag e = FLAG_DONE" "FLAG_DONE \<noteq> FLAG_ESTIMATE" "all_done rest"
    using assms(1) Cons by (auto simp: all_done_def x FLAG_DONE_def FLAG_ESTIMATE_def)
  show ?thesis
  proof (cases "cell e")
    case (Write inc data)
    with fl Cons show ?thesis by (simp add: x key_history_snoc key_step_def)
  next
    case (Delta d)
    with assms(2) Cons have "aggregator_entries bcs ex (op_limit d) rest"
      by (auto simp: x aggregator_entries_def)
    from read_loop_acc[OF fl(3) this, of base] fl Delta Cons show ?thesis
      by (simp add: x key_history_snoc key_step_def)
  qed
qed

text \<open>
  The entries below a reader, from the top: the deltas above the latest write, and the rest, which is
  empty or starts with that write.
\<close>

definition is_delta :: "txn_index \<times> 'v entry \<Rightarrow> bool" where
  "is_delta x \<longleftrightarrow> (\<exists>d. cell (snd x) = Delta d)"

definition deltas_above :: "(txn_index \<times> 'v entry) list \<Rightarrow> (txn_index \<times> 'v entry) list" where
  "deltas_above es = takeWhile is_delta (rev es)"

definition from_latest_write :: "(txn_index \<times> 'v entry) list \<Rightarrow> (txn_index \<times> 'v entry) list" where
  "from_latest_write es = dropWhile is_delta (rev es)"

definition visible :: "(txn_index \<times> 'v entry) list \<Rightarrow> (txn_index \<times> 'v entry) list" where
  "visible es = deltas_above es @ take 1 (from_latest_write es)"

text \<open>The deltas of a list merged into one, each onto the next lower one; \<open>None\<close> if a merge fails.\<close>

fun merged :: "delta_op \<Rightarrow> (txn_index \<times> 'v entry) list \<Rightarrow> delta_op option" where
  "merged acc [] = Some acc"
| "merged acc (x # xs) =
     (case cell (snd x) of
        Delta d \<Rightarrow> Option.bind (ok (merge_onto acc d)) (\<lambda>f. merged f xs)
      | Write _ _ \<Rightarrow> Some acc)"

fun all_merged :: "(txn_index \<times> 'v entry) list \<Rightarrow> delta_op option" where
  "all_merged [] = None"
| "all_merged (x # xs) = (case cell (snd x) of Delta d \<Rightarrow> merged d xs | Write _ _ \<Rightarrow> None)"

lemma entries_split: "rev es = deltas_above es @ from_latest_write es"
  by (simp add: deltas_above_def from_latest_write_def)

lemma deltas_above_deltas: "\<forall>x \<in> set (deltas_above es). is_delta x"
  unfolding deltas_above_def by (metis set_takeWhileD)

lemma from_latest_write_cases:
  obtains (none) "from_latest_write es = []"
    | (wrote) j inc data rest fl where "from_latest_write es = (j, \<lparr>flag = fl, cell = Write inc data\<rparr>) # rest"
proof (cases "from_latest_write es")
  case (Cons x rest)
  then have "\<not> is_delta x" unfolding from_latest_write_def by (metis dropWhile_eq_Cons_conv)
  moreover obtain j e where "x = (j, e)" by fastforce
  ultimately show thesis
    using Cons wrote by (cases e; cases "cell e") (auto simp: is_delta_def)
qed (rule none)

lemma read_loop_deltas:
  assumes "\<forall>x \<in> set ds. is_delta x" "all_done ds"
  shows "read_loop bcs ex (ds @ rest) (Some acc) =
     (case merged acc ds of None \<Rightarrow> Some (Err DeltaApplicationFailure) | Some f \<Rightarrow> read_loop bcs ex rest (Some f))"
  using assms
proof (induction ds arbitrary: acc)
  case (Cons x ds)
  obtain i e where x: "x = (i, e)" by fastforce
  with Cons.prems obtain d where "cell e = Delta d" "flag e = FLAG_DONE" by (auto simp: is_delta_def all_done_def)
  with Cons x show ?case
    by (cases "merge_onto acc d") (simp_all add: all_done_def FLAG_DONE_def FLAG_ESTIMATE_def)
qed simp

text \<open>Only the visible entries matter, for the read and for the history.\<close>

lemma read_loop_visible: "read_loop bcs ex (rev es) acc = read_loop bcs ex (visible es) acc"
proof -
  have "read_loop bcs ex (ds @ from_latest_write es) acc = read_loop bcs ex (ds @ take 1 (from_latest_write es)) acc"
    if "\<forall>x \<in> set ds. is_delta x" for ds
    using that
  proof (induction ds arbitrary: acc)
    case Nil
    show ?case by (rule from_latest_write_cases[of es]) (simp_all split: option.split)
  next
    case (Cons x ds)
    then show ?case by (cases x; cases acc) (auto simp: is_delta_def split: result.split)
  qed
  from this[OF deltas_above_deltas] show ?thesis by (simp add: entries_split visible_def)
qed

lemma key_history_visible: "key_history bcs ex base es = key_history bcs ex base (rev (visible es))"
proof -
  have "foldl (key_step bcs ex base) KBase (rev (from_latest_write es)) =
      foldl (key_step bcs ex base) KBase (rev (take 1 (from_latest_write es)))"
    by (rule from_latest_write_cases[of es]) (simp_all add: key_step_def)
  moreover have "es = rev (from_latest_write es) @ rev (deltas_above es)"
    using entries_split[of es] by (metis rev_append rev_rev_ident)
  ultimately show ?thesis
    unfolding key_history_def visible_def by (metis foldl_append rev_append)
qed

lemma read_loop_all_merged:
  assumes "\<forall>x \<in> set ds. is_delta x" "all_done ds" "ds \<noteq> []"
  shows "read_loop bcs ex (ds @ rest) None =
     (case all_merged ds of None \<Rightarrow> Some (Err DeltaApplicationFailure) | Some f \<Rightarrow> read_loop bcs ex rest (Some f))"
proof (cases ds)
  case (Cons x ds')
  obtain i e where x: "x = (i, e)" by fastforce
  with assms Cons obtain d where "cell e = Delta d" "flag e = FLAG_DONE" by (auto simp: is_delta_def all_done_def)
  with read_loop_deltas[of ds'] assms Cons x show ?thesis
    by (simp add: all_done_def FLAG_DONE_def FLAG_ESTIMATE_def)
qed (use assms in simp)

lemma deltas_without_number:
  assumes "\<forall>x \<in> set ds. is_delta x" "key_value bcs ex base st = None" "ds \<noteq> []"
  shows "foldl (key_step bcs ex base) st ds = KFail"
  using assms
proof (induction ds arbitrary: st)
  case (Cons x ds)
  then have "key_step bcs ex base st x = KFail" by (auto simp: is_delta_def key_step_def)
  with Cons show ?case by (cases "ds = []") (auto simp: key_value_def)
qed simp

lemma visible_wrote:
  assumes "from_latest_write es = (j, \<lparr>flag = fl, cell = Write inc data\<rparr>) # rest" "all_done (visible es)"
  shows "visible es = deltas_above es @ [(j, \<lparr>flag = FLAG_DONE, cell = Write inc data\<rparr>)]"
  using assms by (simp add: visible_def all_done_def)

definition writes_numbers :: "bcs_codec \<Rightarrow> ('v \<Rightarrow> bytes option) \<Rightarrow> (txn_index \<times> 'v entry) list \<Rightarrow> bool" where
  "writes_numbers bcs ex es \<longleftrightarrow> (\<forall>x \<in> set es. \<forall>inc data. cell (snd x) = Write inc data \<longrightarrow>
     (\<exists>v. from_write bcs ex data = Some (Some v)))"

lemma visible_sequential:
  assumes "all_done (visible es)"
    and "\<forall>x \<in> set (deltas_above es). \<forall>d. cell (snd x) = Delta d \<longrightarrow> op_limit d = limit"
    and "deltas_above es \<noteq> [] \<longrightarrow> writes_numbers bcs ex (take 1 (from_latest_write es))"
  shows "\<exists>r. read_loop bcs ex (visible es) None = Some r \<and> mv_resolve base r = Some (key_history bcs ex base es)"
proof -
  have "aggregator_entries bcs ex limit (visible es)" if "\<exists>x \<in> set (visible es). is_delta x"
  proof -
    have "deltas_above es \<noteq> []"
      using that by (cases rule: from_latest_write_cases[of es]) (auto simp: visible_def is_delta_def)
    with assms(3) have "aggregator_entries bcs ex limit (take 1 (from_latest_write es))"
      by (cases rule: from_latest_write_cases[of es]) (simp_all add: aggregator_entries_def writes_numbers_def)
    moreover have "aggregator_entries bcs ex limit (deltas_above es)"
      unfolding aggregator_entries_def
    proof
      fix x assume x: "x \<in> set (deltas_above es)"
      with deltas_above_deltas obtain d where "cell (snd x) = Delta d" unfolding is_delta_def by blast
      with x assms(2) show "case cell (snd x) of Write inc data \<Rightarrow> (\<exists>v. from_write bcs ex data = Some (Some v))
          | Delta d \<Rightarrow> op_limit d = limit" by simp
    qed
    ultimately show ?thesis unfolding visible_def aggregator_entries_def set_append by blast
  qed
  with read_loop_history[OF assms(1), of bcs ex limit base] show ?thesis
    unfolding key_history_visible[of bcs ex base es] by (simp add: is_delta_def)
qed

text \<open>
  C27. A read whose visible entries (the latest write below the reader and the deltas above it) are all
  final, the deltas of one limit, is decided by the sequential history of the key.  Taking the stored
  value and running the writes and deltas of all lower transactions in block order gives what the single
  descending pass with its merged accumulator gives: the latest write with its version, the number after
  the deltas above it, the stored value, or the failure of a delta.  The two exceptions have deltas above
  a write that holds no number, where the history fails.  Above an undecodable write the read panics, and
  above a deletion it returns the deletion with its version; in both cases it reports the failure
  instead if the deltas do not even merge.  So the read panics in the first exception only.
\<close>

theorem mv_read_is_sequential:
  fixes m :: "('k, 'v) mvhashmap"
  assumes "all_done (visible (bt_below i (tree_or_new m k)))"
    and "\<forall>x \<in> set (deltas_above (bt_below i (tree_or_new m k))). \<forall>d. cell (snd x) = Delta d \<longrightarrow> op_limit d = limit"
  shows "let es = bt_below i (tree_or_new m k); read = mv_read bcs ex m k i; history = key_history bcs ex base es;
       fails = all_merged (deltas_above es) = None
     in case from_latest_write es of
          (j, e) # _ \<Rightarrow>
            (\<exists>inc data. cell e = Write inc data \<and>
              (if deltas_above es = [] then read = Some (Ok (Version (j, inc) data)) \<and> history = KWrite (j, inc) data
               else case from_write bcs ex data of
                 None \<Rightarrow> history = KFail \<and> read = (if fails then Some (Err DeltaApplicationFailure) else None)
               | Some None \<Rightarrow> history = KFail \<and>
                   read = Some (if fails then Err DeltaApplicationFailure else Ok (Version (j, inc) data))
               | Some (Some v) \<Rightarrow> \<exists>r. read = Some r \<and> mv_resolve base r = Some history))
        | [] \<Rightarrow> \<exists>r. read = Some r \<and> mv_resolve base r = Some history"
proof -
  define es where "es = bt_below i (tree_or_new m k)"
  note assms = assms[folded es_def]
  have read: "mv_read bcs ex m k i = read_loop bcs ex (visible es) None"
    by (simp add: mv_read_tree read_loop_visible es_def)
  have history: "key_history bcs ex base es = key_history bcs ex base (rev (visible es))"
    by (rule key_history_visible)
  have final: "all_done (deltas_above es)" using assms(1) by (auto simp: visible_def all_done_def)
  have seq: "\<exists>r. mv_read bcs ex m k i = Some r \<and> mv_resolve base r = Some (key_history bcs ex base es)"
    if "deltas_above es \<noteq> [] \<longrightarrow> writes_numbers bcs ex (take 1 (from_latest_write es))"
    unfolding read using assms that by (rule visible_sequential)
  show ?thesis
  proof (rule from_latest_write_cases[of es])
    assume none: "from_latest_write es = []"
    with seq show ?thesis by (simp add: Let_def writes_numbers_def flip: es_def)
  next
    fix j fl inc data rest assume w: "from_latest_write es = (j, \<lparr>flag = fl, cell = Write inc data\<rparr>) # rest"
    note vis = visible_wrote[OF w assms(1)]
    have all: "mv_read bcs ex m k i =
        (case all_merged (deltas_above es) of
           None \<Rightarrow> Some (Err DeltaApplicationFailure)
         | Some f \<Rightarrow> read_loop bcs ex [(j, \<lparr>flag = FLAG_DONE, cell = Write inc data\<rparr>)] (Some f))" if "deltas_above es \<noteq> []"
      unfolding read vis using deltas_above_deltas final that by (rule read_loop_all_merged)
    have fail: "key_history bcs ex base es = KFail"
      if "deltas_above es \<noteq> []" "Option.bind (from_write bcs ex data) id = None"
      unfolding history[unfolded vis key_history_def] key_history_def using deltas_above_deltas[of es] that
      by (simp add: key_step_def deltas_without_number key_value_def)
    have top: "mv_read bcs ex m k i = Some (Ok (Version (j, inc) data)) \<and> key_history bcs ex base es = KWrite (j, inc) data"
      if "deltas_above es = []"
      unfolding read history vis using that by (simp add: key_history_def key_step_def FLAG_DONE_def FLAG_ESTIMATE_def)
    show ?thesis
    proof (cases "deltas_above es = []")
      case True
      with top w show ?thesis by (simp add: Let_def flip: es_def)
    next
      case False
      have num: "from_write bcs ex data = Some (Some v) \<Longrightarrow>
          \<exists>r. mv_read bcs ex m k i = Some r \<and> mv_resolve base r = Some (key_history bcs ex base es)" for v
        using seq by (simp add: w writes_numbers_def)
      from all[OF False] fail[OF False] num False w show ?thesis
        by (auto simp: Let_def FLAG_DONE_def FLAG_ESTIMATE_def simp flip: es_def split: option.splits)
    qed
  qed
qed

text \<open>A key written by transaction 1, changed by the deltas of 3 and 4, with an estimate of 6 above.\<close>

definition demo_store :: "(nat, bytes) mvhashmap" where
  "demo_store = [0 \<mapsto> [(1, new_write_from FLAG_DONE 0 (le_encode 16 10)), (3, new_delta_from FLAG_DONE (delta_add 5 100)),
     (4, new_delta_from FLAG_DONE (delta_sub 2 100)), (6, new_delta_from FLAG_ESTIMATE (delta_sub 1 100))]]"

lemma demo_store_below:
  "tree_or_new demo_store 0 = [(1, new_write_from FLAG_DONE 0 (le_encode 16 10)), (3, new_delta_from FLAG_DONE (delta_add 5 100)),
     (4, new_delta_from FLAG_DONE (delta_sub 2 100)), (6, new_delta_from FLAG_ESTIMATE (delta_sub 1 100))]"
  "bt_below 5 (tree_or_new demo_store 0) = [(1, new_write_from FLAG_DONE 0 (le_encode 16 10)),
     (3, new_delta_from FLAG_DONE (delta_add 5 100)), (4, new_delta_from FLAG_DONE (delta_sub 2 100))]"
  by (simp_all add: demo_store_def tree_or_new_def bt_below_def)

lemma demo_store_wf: "mv_wf demo_store"
  by (auto simp: mv_wf_def demo_store_def bt_ok_def flag_ok_def new_write_from_def new_delta_from_def)

text \<open>The same key with an undecodable write of transaction 2 or a deletion by it in between.\<close>

definition demo_stuck :: "bytes \<Rightarrow> (nat, bytes) mvhashmap" where
  "demo_stuck data = [0 \<mapsto> [(1, new_write_from FLAG_ESTIMATE 0 []), (2, new_write_from FLAG_DONE 0 data),
     (3, new_delta_from FLAG_DONE (delta_add 5 100))]]"

theorem mv_read_is_sequential_witness:
  "(\<exists>r. mv_read bcs_le128 Some demo_store 0 5 = Some r \<and> mv_resolve None r = Some (KNum 13)) \<and>
   mv_read bcs_le128 Some (demo_stuck [1]) 0 5 = None \<and>
   mv_read bcs_le128 (\<lambda>_. None) (demo_stuck [1]) 0 5 = Some (Ok (Version (2, 0) [1]))"
proof (intro conjI)
  let ?es = "bt_below 5 (tree_or_new demo_store 0)"
  have cells: "is_delta (j, new_delta_from f d)" "\<not> is_delta (j, new_write_from f inc v)" for j f d inc and v :: bytes
    by (simp_all add: is_delta_def new_delta_from_def new_write_from_def)
  have fw: "from_write bcs_le128 Some (le_encode 16 10) = Some (Some 10)"
    using bcs_le128_simps(2)[of 10] by (simp add: from_write_def deserialize_def)
  have split: "deltas_above ?es = [(4, new_delta_from FLAG_DONE (delta_sub 2 100)), (3, new_delta_from FLAG_DONE (delta_add 5 100))]"
    "from_latest_write ?es = [(1, new_write_from FLAG_DONE 0 (le_encode 16 10))]"
    unfolding demo_store_below(2) by (simp_all add: deltas_above_def from_latest_write_def cells)
  have final: "all_done (visible ?es)"
    unfolding visible_def split by (simp add: all_done_def new_write_from_def new_delta_from_def)
  have limits: "\<forall>x \<in> set (deltas_above ?es). \<forall>d. cell (snd x) = Delta d \<longrightarrow> op_limit d = 100"
    unfolding split by (simp add: new_delta_from_def delta_add_def delta_sub_def delta_new_def)
  have history: "key_history bcs_le128 Some None ?es = KNum 13"
    unfolding demo_store_below(2)
    by (simp add: key_history_def key_step_def new_write_from_def new_delta_from_def key_value_def fw
        delta_add_def delta_sub_def delta_new_def apply_to_def addition_def subtraction_def)
  show "\<exists>r. mv_read bcs_le128 Some demo_store 0 5 = Some r \<and> mv_resolve None r = Some (KNum 13)"
    using mv_read_is_sequential[OF final limits, of bcs_le128 Some None]
    by (simp add: Let_def history split new_write_from_def fw)
  let ?st = "bt_below 5 (tree_or_new (demo_stuck [1]) 0)"
  have split: "deltas_above ?st = [(3, new_delta_from FLAG_DONE (delta_add 5 100))]"
    "from_latest_write ?st = [(2, new_write_from FLAG_DONE 0 [1]), (1, new_write_from FLAG_ESTIMATE 0 [])]"
    by (simp_all add: demo_stuck_def tree_or_new_def bt_below_def deltas_above_def from_latest_write_def cells)
  have final: "all_done (visible ?st)"
    unfolding visible_def split by (simp add: all_done_def new_write_from_def new_delta_from_def)
  have limits: "\<forall>x \<in> set (deltas_above ?st). \<forall>d. cell (snd x) = Delta d \<longrightarrow> op_limit d = 100"
    unfolding split by (simp add: new_delta_from_def delta_add_def delta_new_def)
  have fw: "from_write bcs_le128 Some [1] = None" "from_write bcs_le128 (\<lambda>_. None) [1] = Some None"
    by (simp_all add: from_write_def deserialize_def bcs_le128_def)
  show "mv_read bcs_le128 Some (demo_stuck [1]) 0 5 = None"
    using mv_read_is_sequential[OF final limits, of bcs_le128 Some None]
    by (simp add: Let_def split new_delta_from_def fw new_write_from_def)
  show "mv_read bcs_le128 (\<lambda>_. None) (demo_stuck [1]) 0 5 = Some (Ok (Version (2, 0) [1]))"
    using mv_read_is_sequential[OF final limits, of bcs_le128 "\<lambda>_. None" None]
    by (simp add: Let_def split new_delta_from_def fw new_write_from_def)
qed

section \<open>The contract of the store\<close>

fun mv_panics :: "('k, 'v) mv_op \<Rightarrow> ('k, 'v) mvhashmap \<Rightarrow> bool" where
  "mv_panics (AddWrite k ver d) m \<longleftrightarrow>
     (\<exists>f i d'. mv_entry m k (fst ver) = Some \<lparr>flag = f, cell = Write i d'\<rparr> \<and> snd ver \<le> i)"
| "mv_panics (AddDelta k i op) m \<longleftrightarrow> False"
| "mv_panics (MarkEstimate k i) m \<longleftrightarrow> mv_entry m k i = None"
| "mv_panics (DeleteEntry k i) m \<longleftrightarrow> m k = None"

lemma mv_apply_None: "mv_apply op m = None \<longleftrightarrow> mv_panics op m"
  by (cases op)
    (auto simp: add_write_def Let_def add_write_guard mv_entry_def mark_estimate_eq mv_delete_def
      split: option.splits prod.splits)

text \<open>
  C28. The contract of every operation of the store.  It panics exactly when a write does not raise the
  incarnation of its transaction's previous write, an entry to be marked is missing, or the path of a
  deletion was never written.  Otherwise the store stays well-formed, the entry at the operation's own
  key and transaction is the specified one, every other entry is untouched, and no read by a transaction
  at or below the operation's, nor of another key, changes.
\<close>

theorem mv_apply_contract:
  assumes "mv_wf m"
  shows "case mv_apply op m of
     None \<Rightarrow> mv_panics op m
   | Some m' \<Rightarrow> \<not> mv_panics op m \<and> mv_wf m' \<and>
       site_effect op (mv_entry m (fst (op_site op)) (snd (op_site op))) =
         Some (mv_entry m' (fst (op_site op)) (snd (op_site op))) \<and>
       (\<forall>k i. (k, i) \<noteq> op_site op \<longrightarrow> mv_entry m' k i = mv_entry m k i) \<and>
       (\<forall>k i. fst (op_site op) \<noteq> k \<or> i \<le> snd (op_site op) \<longrightarrow> mv_read bcs ex m' k i = mv_read bcs ex m k i)"
proof (cases "mv_apply op m")
  case None
  with mv_apply_None[of op m] show ?thesis by simp
next
  case (Some m')
  with mv_apply_None[of op m] mv_apply_Some[OF Some] assms mv.rd_upd[OF assms Some] show ?thesis
    by auto
qed

theorem mv_apply_contract_witness:
  "\<exists>m'. mv_apply (MarkEstimate 0 4) demo_store = Some m' \<and> mv_wf m' \<and>
     mv_read bcs_le128 Some m' 0 4 = mv_read bcs_le128 Some demo_store 0 4"
proof -
  have "mv_apply (MarkEstimate 0 4) demo_store \<noteq> None"
    unfolding mv_apply_None by (simp add: mv_entry_def demo_store_below)
  then show ?thesis
    using mv_apply_contract[OF demo_store_wf, of "MarkEstimate 0 4" bcs_le128 Some] by fastforce
qed

section \<open>Dependencies\<close>

definition done_delta :: "'v entry \<Rightarrow> bool" where
  "done_delta e \<longleftrightarrow> flag e = FLAG_DONE \<and> (\<exists>d. cell e = Delta d)"

text \<open>Transaction \<open>j\<close> left an estimate at \<open>k\<close>, with nothing but finished deltas between \<open>j\<close> and \<open>i\<close>.\<close>

definition blocked_by :: "('k, 'v) mvhashmap \<Rightarrow> 'k \<Rightarrow> txn_index \<Rightarrow> txn_index \<Rightarrow> bool" where
  "blocked_by m k i j \<longleftrightarrow> j < i \<and> (\<exists>e. mv_entry m k j = Some e \<and> flag e = FLAG_ESTIMATE) \<and>
     (\<forall>l e. j < l \<and> l < i \<and> mv_entry m k l = Some e \<longrightarrow> done_delta e)"

lemma read_loop_Dependency:
  "read_loop bcs ex es acc = Some (Err (Dependency j)) \<Longrightarrow>
   \<exists>above e rest. es = above @ (j, e) # rest \<and> flag e = FLAG_ESTIMATE \<and> (\<forall>x \<in> set above. done_delta (snd x))"
proof (induction bcs ex es acc rule: read_loop.induct)
  case (2 bcs ex idx entry rest acc)
  show ?case
  proof (cases "flag entry = FLAG_ESTIMATE")
    case True
    with 2(3) show ?thesis by force
  next
    case False
    with 2(3) have "flag entry = FLAG_DONE" by (auto split: if_splits)
    moreover from 2(3) False this obtain d where d: "cell entry = Delta d"
      by (auto split: entry_cell.splits option.splits simp: map_ok_eq_Err elim: map_err.elims)
    moreover from 2 False calculation obtain above e rest' where
      "rest = above @ (j, e) # rest'" "flag e = FLAG_ESTIMATE" "\<forall>x \<in> set above. done_delta (snd x)"
      by (fastforce split: option.splits result.splits)
    ultimately show ?thesis
      by (intro exI[of _ "(idx, entry) # above"]) (auto simp: done_delta_def)
  qed
qed (auto split: option.splits)

lemma read_loop_blocked:
  "\<forall>x \<in> set abv. done_delta (snd x) \<Longrightarrow> flag e = FLAG_ESTIMATE \<Longrightarrow>
   read_loop bcs ex (abv @ (j, e) # rest) acc \<in> {Some (Err (Dependency j)), Some (Err DeltaApplicationFailure)}"
proof (induction abv arbitrary: acc)
  case (Cons x abv)
  obtain i e' where x: "x = (i, e')" by fastforce
  with Cons.prems obtain d where e': "flag e' = FLAG_DONE" "cell e' = Delta d" by (auto simp: done_delta_def)
  have "FLAG_DONE \<noteq> FLAG_ESTIMATE" by (simp add: FLAG_DONE_def FLAG_ESTIMATE_def)
  with Cons e' show ?case by (cases acc) (auto simp: x split: result.split)
qed simp

text \<open>Splitting the entries below a reader at one of them.\<close>

lemma bt_below_split:
  assumes "bt_ok t" "map_of t j = Some e" "j < i"
  shows "\<exists>low high. bt_below i t = low @ (j, e) # high \<and> set high = {x \<in> set t. j < fst x \<and> fst x < i}"
proof -
  have "(j, e) \<in> set (bt_below i t)"
    using assms bt.get_iff_ents[OF assms(1), of j e] by (simp add: bt_below_def)
  then obtain low high where sp: "bt_below i t = low @ (j, e) # high" by (meson split_list)
  have ok: "bt_ok (low @ (j, e) # high)" using bt_ok_below[OF assms(1), of i] sp by simp
  have lo: "\<forall>x \<in> set low. fst x < j" and hi: "\<forall>x \<in> set high. j < fst x"
    using ok by (auto simp: bt_ok_def sorted_wrt_append)
  have "set (bt_below i t) = set low \<union> {(j, e)} \<union> set high" using sp by auto
  then have "set high = {x \<in> set (bt_below i t). j < fst x}"
    using lo hi by force
  also have "\<dots> = {x \<in> set t. j < fst x \<and> fst x < i}" by (auto simp: bt_below_def)
  finally show ?thesis using sp by blast
qed

lemma blocked_by_iff_split:
  assumes "mv_wf m"
  shows "blocked_by m k i j \<longleftrightarrow> (\<exists>above e rest. rev (bt_below i (tree_or_new m k)) = above @ (j, e) # rest \<and>
     flag e = FLAG_ESTIMATE \<and> (\<forall>x \<in> set above. done_delta (snd x)))"
    (is "_ \<longleftrightarrow> ?split")
proof
  let ?t = "tree_or_new m k"
  note ok = mv_wf_tree[OF assms, of k]
  assume b: "blocked_by m k i j"
  then obtain e where e: "map_of ?t j = Some e" "flag e = FLAG_ESTIMATE" "j < i"
    by (auto simp: blocked_by_def mv_entry_def)
  from bt_below_split[OF ok e(1,3)] obtain low high where
    sp: "bt_below i ?t = low @ (j, e) # high" "set high = {x \<in> set ?t. j < fst x \<and> fst x < i}" by blast
  have "done_delta (snd x)" if "x \<in> set high" for x
    using b that sp(2) bt.get_iff_ents[OF ok, of "fst x" "snd x"] by (auto simp: blocked_by_def mv_entry_def)
  with sp e show ?split by (intro exI[of _ "rev high"]) auto
next
  let ?t = "tree_or_new m k"
  note ok = mv_wf_tree[OF assms, of k]
  assume ?split
  then obtain above e rest where sp: "rev (bt_below i ?t) = above @ (j, e) # rest" "flag e = FLAG_ESTIMATE"
    "\<forall>x \<in> set above. done_delta (snd x)" by blast
  then have "(j, e) \<in> set (bt_below i ?t)" by (metis in_set_conv_decomp set_rev)
  then have j: "map_of ?t j = Some e" "j < i"
    using bt.get_iff_ents[OF ok, of j e] by (auto simp: bt_below_def)
  have ord: "sorted_wrt (>) (map fst (above @ (j, e) # rest))"
    using bt_ok_below[OF ok, of i] sp(1) unfolding bt_ok_def
    by (simp add: sorted_wrt_rev flip: rev_map sp(1))
  have "done_delta e'" if "j < l" "l < i" "map_of ?t l = Some e'" for l e'
  proof -
    have "(l, e') \<in> set (rev (bt_below i ?t))"
      using that bt.get_iff_ents[OF ok, of l e'] by (simp add: bt_below_def)
    then have "(l, e') \<in> set above" using sp(1) ord that(1) by (auto simp: sorted_wrt_append)
    with sp(3) show ?thesis by auto
  qed
  with j sp(2) show "blocked_by m k i j" by (auto simp: blocked_by_def mv_entry_def)
qed

text \<open>
  When a read reports a dependency on \<open>j\<close>, that transaction is lower, has left an estimate at the
  key, and only finished deltas lie between; and a read in that situation never returns a value: it
  reports the dependency, or the failure of the deltas it merged on the way down.
\<close>

theorem mv_read_dependency:
  assumes "mv_wf m"
  shows "(mv_read bcs ex m k i = Some (Err (Dependency j)) \<longrightarrow> blocked_by m k i j) \<and>
     (blocked_by m k i j \<longrightarrow>
        mv_read bcs ex m k i \<in> {Some (Err (Dependency j)), Some (Err DeltaApplicationFailure)})"
  unfolding blocked_by_iff_split[OF assms] mv_read_tree
proof (intro conjI impI)
  assume "\<exists>above e rest. rev (bt_below i (tree_or_new m k)) = above @ (j, e) # rest \<and>
     flag e = FLAG_ESTIMATE \<and> (\<forall>x \<in> set above. done_delta (snd x))"
  then show "read_loop bcs ex (rev (bt_below i (tree_or_new m k))) None \<in>
      {Some (Err (Dependency j)), Some (Err DeltaApplicationFailure)}"
    using read_loop_blocked by metis
qed (rule read_loop_Dependency)

theorem mv_read_dependency_witness:
  "mv_read bcs_le128 Some demo_store 0 9 = Some (Err (Dependency 6)) \<and> blocked_by demo_store 0 9 6"
proof -
  have "mv_read bcs_le128 Some demo_store 0 9 = Some (Err (Dependency 6))"
    by (simp add: mv_read_tree demo_store_below(1) bt_below_def new_delta_from_def)
  with mv_read_dependency[OF demo_store_wf, of bcs_le128 Some 0 9 6] show ?thesis by simp
qed

end
