(* ===== verification/Scheduler.thy ===== *)
theory Scheduler
  imports MV_HashMap
begin

text \<open>
  The collaborative scheduler of \<^verbatim>\<open>parallel-executor/src/scheduler.rs\<close>, operation by operation.
  Every atomic or mutex-protected field is a field of the record; here each method runs without
  interference from other threads (the interleaving of their atomic steps is the subject of
  \<open>Scheduler_Threads\<close>).  \<open>usize\<close> counters are natural numbers: they are bounded by the number of
  transactions or grow by one per operation.  A \<open>DependencyCondvar\<close> is represented by its identity, and
  the fresh one that \<open>wait_for_dependency\<close> allocates is passed to it.  A panic (\<open>unreachable!\<close>,
  \<open>assert!\<close>, \<open>debug_assert!\<close>, an index out of bounds) is \<open>None\<close>.
\<close>

section \<open>State\<close>

type_synonym condvar = nat

datatype transaction_status =
    ReadyToExecute incarnation "condvar option"
  | Executing incarnation
  | Suspended incarnation condvar
  | Executed incarnation
  | Aborting incarnation

text \<open>The hand-written \<open>PartialEq\<close>, which ignores condition variables.\<close>

fun status_eq :: "transaction_status \<Rightarrow> transaction_status \<Rightarrow> bool" where
  "status_eq (ReadyToExecute a _) (ReadyToExecute b _) = (a = b)"
| "status_eq (Executing a) (Executing b) = (a = b)"
| "status_eq (Suspended a _) (Suspended b _) = (a = b)"
| "status_eq (Executed a) (Executed b) = (a = b)"
| "status_eq (Aborting a) (Aborting b) = (a = b)"
| "status_eq _ _ = False"

record scheduler =
  num_txns :: nat
  execution_idx :: nat
  validation_idx :: nat
  decrease_cnt :: nat
  num_active_tasks :: nat
  done_marker :: bool
  txn_dependency :: "txn_index list list"
  txn_status :: "transaction_status list"

text \<open>A task carries its guard: the unit of \<open>num_active_tasks\<close> that it holds.\<close>

datatype scheduler_task =
    ExecutionTask version "condvar option"
  | ValidationTask version
  | NoTask
  | Done

section \<open>Operations\<close>

definition nth_opt :: "'a list \<Rightarrow> nat \<Rightarrow> 'a option" where
  "nth_opt xs i = (if i < length xs then Some (xs ! i) else None)"

definition guard_new :: "scheduler \<Rightarrow> scheduler" where
  "guard_new s = s\<lparr>num_active_tasks := num_active_tasks s + 1\<rparr>"

definition guard_drop :: "scheduler \<Rightarrow> scheduler option" where
  "guard_drop s =
     (if num_active_tasks s > 0 then Some (s\<lparr>num_active_tasks := num_active_tasks s - 1\<rparr>) else None)"

definition scheduler_new :: "nat \<Rightarrow> scheduler" where
  "scheduler_new n =
     \<lparr>num_txns = n, execution_idx = 0, validation_idx = 0, decrease_cnt = 0, num_active_tasks = 0,
      done_marker = False, txn_dependency = replicate n [], txn_status = replicate n (ReadyToExecute 0 None)\<rparr>"

definition num_txn_to_execute :: "scheduler \<Rightarrow> nat" where
  "num_txn_to_execute s = num_txns s"

definition set_status :: "scheduler \<Rightarrow> txn_index \<Rightarrow> transaction_status \<Rightarrow> scheduler" where
  "set_status s i st = s\<lparr>txn_status := (txn_status s)[i := st]\<rparr>"

definition try_abort :: "scheduler \<Rightarrow> txn_index \<Rightarrow> incarnation \<Rightarrow> (bool \<times> scheduler) option" where
  "try_abort s txn_idx inc =
     do { status \<leftarrow> nth_opt (txn_status s) txn_idx;
          Some (if status_eq status (Executed inc) then (True, set_status s txn_idx (Aborting inc))
                else (False, s)) }"

definition decrease_validation_idx :: "scheduler \<Rightarrow> nat \<Rightarrow> scheduler" where
  "decrease_validation_idx s target =
     (let prev = validation_idx s; s' = s\<lparr>validation_idx := min prev target\<rparr>
      in if prev > target then s'\<lparr>decrease_cnt := decrease_cnt s' + 1\<rparr> else s')"

definition decrease_execution_idx :: "scheduler \<Rightarrow> nat \<Rightarrow> scheduler" where
  "decrease_execution_idx s target =
     (let prev = execution_idx s; s' = s\<lparr>execution_idx := min prev target\<rparr>
      in if prev > target then s'\<lparr>decrease_cnt := decrease_cnt s' + 1\<rparr> else s')"

definition try_incarnate :: "scheduler \<Rightarrow> txn_index \<Rightarrow> (incarnation \<times> condvar option) option \<times> scheduler" where
  "try_incarnate s txn_idx =
     (if txn_idx \<ge> length (txn_status s) then (None, s)
      else case txn_status s ! txn_idx of
        ReadyToExecute inc maybe_condvar \<Rightarrow> (Some (inc, maybe_condvar), set_status s txn_idx (Executing inc))
      | _ \<Rightarrow> (None, s))"

definition is_executed :: "scheduler \<Rightarrow> txn_index \<Rightarrow> incarnation option" where
  "is_executed s txn_idx =
     (if txn_idx \<ge> length (txn_status s) then None
      else case txn_status s ! txn_idx of Executed inc \<Rightarrow> Some inc | _ \<Rightarrow> None)"

definition check_done :: "scheduler \<Rightarrow> bool \<times> scheduler" where
  "check_done s =
     (let observed_cnt = decrease_cnt s; val_idx = validation_idx s; exec_idx = execution_idx s;
          num_tasks = num_active_tasks s
      in if min exec_idx val_idx < num_txns s \<or> num_tasks > 0 then (False, s)
         else if observed_cnt = decrease_cnt s then (True, s\<lparr>done_marker := True\<rparr>)
         else (False, s))"

definition is_done :: "scheduler \<Rightarrow> bool" where
  "is_done s = done_marker s"

definition try_validate_next_version :: "scheduler \<Rightarrow> (version option \<times> scheduler) option" where
  "try_validate_next_version s =
     (if validation_idx s \<ge> num_txns s then Some (None, snd (check_done s))
      else
        let s1 = guard_new s; idx_to_validate = validation_idx s1;
            s2 = s1\<lparr>validation_idx := idx_to_validate + 1\<rparr>
        in case is_executed s2 idx_to_validate of
             Some inc \<Rightarrow> Some (Some (idx_to_validate, inc), s2)
           | None \<Rightarrow> map_option (Pair None) (guard_drop s2))"

definition try_execute_next_version :: "scheduler \<Rightarrow> ((version \<times> condvar option) option \<times> scheduler) option" where
  "try_execute_next_version s =
     (if execution_idx s \<ge> num_txns s then Some (None, snd (check_done s))
      else
        let s1 = guard_new s; idx_to_execute = execution_idx s1;
            s2 = s1\<lparr>execution_idx := idx_to_execute + 1\<rparr>
        in case try_incarnate s2 idx_to_execute of
             (Some (inc, maybe_condvar), s3) \<Rightarrow> Some (Some ((idx_to_execute, inc), maybe_condvar), s3)
           | (None, s3) \<Rightarrow> map_option (Pair None) (guard_drop s3))"

text \<open>
  The loop of \<open>next_task\<close>.  It spins while other threads hold tasks, so it is a partial function:
  \<open>None\<close> is a loop that does not end, \<open>Some None\<close> a panic.
\<close>

definition next_task_body :: "scheduler \<Rightarrow> (scheduler_task option \<times> scheduler) option" where
  "next_task_body s =
     (if is_done s then Some (Some Done, s)
      else if validation_idx s < execution_idx s then
        map_option (\<lambda>(v, s'). (map_option ValidationTask v, s')) (try_validate_next_version s)
      else
        map_option (\<lambda>(v, s'). (map_option (\<lambda>(ver, cv). ExecutionTask ver cv) v, s')) (try_execute_next_version s))"

partial_function (option) next_task :: "scheduler \<Rightarrow> (scheduler_task \<times> scheduler) option option" where
  "next_task s =
     (case next_task_body s of
        None \<Rightarrow> Some None
      | Some (Some task, s') \<Rightarrow> Some (Some (task, s'))
      | Some (None, s') \<Rightarrow> next_task s')"

definition suspend :: "scheduler \<Rightarrow> txn_index \<Rightarrow> condvar \<Rightarrow> scheduler option" where
  "suspend s txn_idx dep_condvar =
     do { status \<leftarrow> nth_opt (txn_status s) txn_idx;
          (case status of
             Executing inc \<Rightarrow> Some (set_status s txn_idx (Suspended inc dep_condvar))
           | _ \<Rightarrow> None) }"

definition resume :: "scheduler \<Rightarrow> txn_index \<Rightarrow> scheduler option" where
  "resume s txn_idx =
     do { status \<leftarrow> nth_opt (txn_status s) txn_idx;
          (case status of
             Suspended inc dep_condvar \<Rightarrow> Some (set_status s txn_idx (ReadyToExecute inc (Some dep_condvar)))
           | _ \<Rightarrow> None) }"

definition set_executed_status :: "scheduler \<Rightarrow> txn_index \<Rightarrow> incarnation \<Rightarrow> scheduler option" where
  "set_executed_status s txn_idx inc =
     do { status \<leftarrow> nth_opt (txn_status s) txn_idx;
          (if status_eq status (Executing inc) then Some (set_status s txn_idx (Executed inc)) else None) }"

definition set_aborted_status :: "scheduler \<Rightarrow> txn_index \<Rightarrow> incarnation \<Rightarrow> scheduler option" where
  "set_aborted_status s txn_idx inc =
     do { status \<leftarrow> nth_opt (txn_status s) txn_idx;
          (if status_eq status (Aborting inc) then Some (set_status s txn_idx (ReadyToExecute (inc + 1) None))
           else None) }"

definition push_dependency :: "scheduler \<Rightarrow> txn_index \<Rightarrow> txn_index \<Rightarrow> scheduler" where
  "push_dependency s dep_txn_idx txn_idx =
     s\<lparr>txn_dependency := (txn_dependency s)[dep_txn_idx := txn_dependency s ! dep_txn_idx @ [txn_idx]]\<rparr>"

definition wait_for_dependency ::
  "scheduler \<Rightarrow> txn_index \<Rightarrow> txn_index \<Rightarrow> condvar \<Rightarrow> (condvar option \<times> scheduler) option" where
  "wait_for_dependency s txn_idx dep_txn_idx dep_condvar =
     do { stored_deps \<leftarrow> nth_opt (txn_dependency s) dep_txn_idx;
          (if is_executed s dep_txn_idx \<noteq> None then Some (None, s)
           else do { s' \<leftarrow> suspend s txn_idx dep_condvar;
                     Some (Some dep_condvar, push_dependency s' dep_txn_idx txn_idx) }) }"

definition take_dependencies :: "scheduler \<Rightarrow> txn_index \<Rightarrow> (txn_index list \<times> scheduler) option" where
  "take_dependencies s txn_idx =
     do { stored_deps \<leftarrow> nth_opt (txn_dependency s) txn_idx;
          Some (stored_deps, s\<lparr>txn_dependency := (txn_dependency s)[txn_idx := []]\<rparr>) }"

definition min_list_opt :: "nat list \<Rightarrow> nat option" where
  "min_list_opt xs = (if xs = [] then None else Some (Min (set xs)))"

definition finish_execution ::
  "scheduler \<Rightarrow> txn_index \<Rightarrow> incarnation \<Rightarrow> bool \<Rightarrow> (scheduler_task \<times> scheduler) option" where
  "finish_execution s txn_idx inc revalidate_suffix =
     do { s1 \<leftarrow> set_executed_status s txn_idx inc;
          (txn_deps, s2) \<leftarrow> take_dependencies s1 txn_idx;
          s3 \<leftarrow> run_all (\<lambda>dep s. resume s dep) txn_deps s2;
          let s4 = (case min_list_opt txn_deps of Some target \<Rightarrow> decrease_execution_idx s3 target | None \<Rightarrow> s3);
          (if validation_idx s4 > txn_idx then
             if revalidate_suffix then map_option (Pair NoTask) (guard_drop (decrease_validation_idx s4 txn_idx))
             else Some (ValidationTask (txn_idx, inc), s4)
           else map_option (Pair NoTask) (guard_drop s4)) }"

definition finish_abort :: "scheduler \<Rightarrow> txn_index \<Rightarrow> incarnation \<Rightarrow> (scheduler_task \<times> scheduler) option" where
  "finish_abort s txn_idx inc =
     do { s1 \<leftarrow> set_aborted_status s txn_idx inc;
          let s2 = decrease_validation_idx s1 (txn_idx + 1);
          (if execution_idx s2 > txn_idx then
             (case try_incarnate s2 txn_idx of
                (Some (new_incarnation, maybe_condvar), s3) \<Rightarrow>
                  Some (ExecutionTask (txn_idx, new_incarnation) maybe_condvar, s3)
              | (None, s3) \<Rightarrow> map_option (Pair NoTask) (guard_drop s3))
           else map_option (Pair NoTask) (guard_drop s2)) }"

section \<open>The status diagram\<close>

inductive status_step :: "transaction_status \<Rightarrow> transaction_status \<Rightarrow> bool" where
  incarnated: "status_step (ReadyToExecute inc cv) (Executing inc)"
| suspended: "status_step (Executing inc) (Suspended inc cv)"
| resumed: "status_step (Suspended inc cv) (ReadyToExecute inc (Some cv))"
| finished: "status_step (Executing inc) (Executed inc)"
| aborted: "status_step (Executed inc) (Aborting inc)"
| abort_finished: "status_step (Aborting inc) (ReadyToExecute (inc + 1) None)"

inductive_simps status_step_simps [simp]:
  "status_step (ReadyToExecute inc cv) st" "status_step (Executing inc) st" "status_step (Suspended inc cv) st"
  "status_step (Executed inc) st" "status_step (Aborting inc) st"

abbreviation status_reaches :: "transaction_status \<Rightarrow> transaction_status \<Rightarrow> bool" where
  "status_reaches \<equiv> status_step\<^sup>*\<^sup>*"

text \<open>Statuses of the whole table, compared transaction by transaction.\<close>

definition table_reaches :: "transaction_status list \<Rightarrow> transaction_status list \<Rightarrow> bool" where
  "table_reaches ss ts = list_all2 status_reaches ss ts"

lemma table_reaches_refl [simp]: "table_reaches ss ss"
  by (simp add: table_reaches_def list_all2_refl)

lemma table_reaches_trans: "table_reaches ss ts \<Longrightarrow> table_reaches ts us \<Longrightarrow> table_reaches ss us"
  unfolding table_reaches_def by (erule (1) list_all2_trans[rotated]) (rule rtranclp_trans)

lemma table_reaches_update: "i < length ss \<Longrightarrow> status_reaches (ss ! i) st \<Longrightarrow> table_reaches ss (ss[i := st])"
  by (auto simp: table_reaches_def list_all2_conv_all_nth nth_list_update)

lemma table_reaches_step: "i < length ss \<Longrightarrow> status_step (ss ! i) st \<Longrightarrow> table_reaches ss (ss[i := st])"
  by (simp add: table_reaches_update r_into_rtranclp)

lemma nth_opt_eq_Some [simp]: "nth_opt xs i = Some x \<longleftrightarrow> i < length xs \<and> x = xs ! i"
  by (auto simp: nth_opt_def)

lemma nth_opt_eq_None [simp]: "nth_opt xs i = None \<longleftrightarrow> length xs \<le> i"
  by (auto simp: nth_opt_def)

lemma status_eq_simps [simp]:
  "status_eq st (Executed inc) \<longleftrightarrow> st = Executed inc"
  "status_eq st (Executing inc) \<longleftrightarrow> st = Executing inc"
  "status_eq st (Aborting inc) \<longleftrightarrow> st = Aborting inc"
  by (cases st; simp)+

text \<open>What each primitive does to the table, as one inversion rule.\<close>

lemma try_abort_Some:
  "try_abort s i inc = Some (b, s') \<longleftrightarrow> i < length (txn_status s) \<and>
     (b \<longleftrightarrow> txn_status s ! i = Executed inc) \<and> s' = (if b then set_status s i (Aborting inc) else s)"
  by (auto simp: try_abort_def bind_eq_Some_conv)

lemma try_incarnate_cases:
  "try_incarnate s i = (None, s) \<and> (\<nexists>inc cv. i < length (txn_status s) \<and> txn_status s ! i = ReadyToExecute inc cv) \<or>
   (\<exists>inc cv. i < length (txn_status s) \<and> txn_status s ! i = ReadyToExecute inc cv \<and>
      try_incarnate s i = (Some (inc, cv), set_status s i (Executing inc)))"
  by (auto simp: try_incarnate_def split: transaction_status.split)

lemma suspend_Some:
  "suspend s i cv = Some s' \<longleftrightarrow>
     i < length (txn_status s) \<and> (\<exists>inc. txn_status s ! i = Executing inc \<and> s' = set_status s i (Suspended inc cv))"
  by (auto simp: suspend_def bind_eq_Some_conv split: transaction_status.splits)

lemma resume_Some:
  "resume s i = Some s' \<longleftrightarrow> i < length (txn_status s) \<and>
     (\<exists>inc cv. txn_status s ! i = Suspended inc cv \<and> s' = set_status s i (ReadyToExecute inc (Some cv)))"
  by (auto simp: resume_def bind_eq_Some_conv split: transaction_status.splits)

lemma set_executed_status_Some:
  "set_executed_status s i inc = Some s' \<longleftrightarrow>
     i < length (txn_status s) \<and> txn_status s ! i = Executing inc \<and> s' = set_status s i (Executed inc)"
  by (auto simp: set_executed_status_def bind_eq_Some_conv)

lemma set_aborted_status_Some:
  "set_aborted_status s i inc = Some s' \<longleftrightarrow>
     i < length (txn_status s) \<and> txn_status s ! i = Aborting inc \<and> s' = set_status s i (ReadyToExecute (inc + 1) None)"
  by (auto simp: set_aborted_status_def bind_eq_Some_conv)

lemma guard_drop_Some:
  "guard_drop s = Some s' \<longleftrightarrow> num_active_tasks s > 0 \<and> s' = s\<lparr>num_active_tasks := num_active_tasks s - 1\<rparr>"
  by (auto simp: guard_drop_def)

lemmas primitive_Some = try_abort_Some suspend_Some resume_Some set_executed_status_Some set_aborted_status_Some
  guard_drop_Some

text \<open>Operations on the counters leave the tables alone.\<close>

lemma counters_frame [simp]:
  "txn_status (decrease_validation_idx s t) = txn_status s"
  "txn_status (decrease_execution_idx s t) = txn_status s"
  "txn_dependency (decrease_validation_idx s t) = txn_dependency s"
  "txn_dependency (decrease_execution_idx s t) = txn_dependency s"
  "num_txns (decrease_validation_idx s t) = num_txns s"
  "num_txns (decrease_execution_idx s t) = num_txns s"
  "num_active_tasks (decrease_validation_idx s t) = num_active_tasks s"
  "num_active_tasks (decrease_execution_idx s t) = num_active_tasks s"
  "txn_status (guard_new s) = txn_status s" "txn_dependency (guard_new s) = txn_dependency s"
  "num_txns (guard_new s) = num_txns s" "num_active_tasks (guard_new s) = num_active_tasks s + 1"
  "txn_status (snd (check_done s)) = txn_status s" "txn_dependency (snd (check_done s)) = txn_dependency s"
  "num_txns (snd (check_done s)) = num_txns s" "num_active_tasks (snd (check_done s)) = num_active_tasks s"
  by (simp_all add: decrease_validation_idx_def decrease_execution_idx_def guard_new_def check_done_def Let_def)

lemma set_status_frame [simp]:
  "txn_status (set_status s i st) = (txn_status s)[i := st]" "txn_dependency (set_status s i st) = txn_dependency s"
  "num_txns (set_status s i st) = num_txns s" "num_active_tasks (set_status s i st) = num_active_tasks s"
  "execution_idx (set_status s i st) = execution_idx s" "validation_idx (set_status s i st) = validation_idx s"
  "decrease_cnt (set_status s i st) = decrease_cnt s" "done_marker (set_status s i st) = done_marker s"
  by (simp_all add: set_status_def)

text \<open>The public operations as one type.\<close>

datatype sched_op =
    TryAbort txn_index incarnation
  | NextTaskIteration
  | WaitForDependency txn_index txn_index condvar
  | FinishExecution txn_index incarnation bool
  | FinishAbort txn_index incarnation

fun sched_apply :: "sched_op \<Rightarrow> scheduler \<Rightarrow> scheduler option" where
  "sched_apply (TryAbort i inc) s = map_option snd (try_abort s i inc)"
| "sched_apply NextTaskIteration s = map_option snd (next_task_body s)"
| "sched_apply (WaitForDependency i dep cv) s = map_option snd (wait_for_dependency s i dep cv)"
| "sched_apply (FinishExecution i inc b) s = map_option snd (finish_execution s i inc b)"
| "sched_apply (FinishAbort i inc) s = map_option snd (finish_abort s i inc)"

lemma try_incarnate_reaches: "try_incarnate s i = (r, s') \<Longrightarrow> table_reaches (txn_status s) (txn_status s')"
  using try_incarnate_cases[of s i] by (auto intro!: table_reaches_step)

lemma run_resume_reaches: "run_all (\<lambda>dep s. resume s dep) deps s = Some s' \<Longrightarrow> table_reaches (txn_status s) (txn_status s')"
proof (induction deps arbitrary: s)
  case (Cons d deps)
  then obtain s1 where s1: "resume s d = Some s1" "run_all (\<lambda>dep s. resume s dep) deps s1 = Some s'"
    by (auto simp: bind_eq_Some_conv)
  then have "table_reaches (txn_status s) (txn_status s1)"
    by (auto simp: resume_Some intro!: table_reaches_step)
  with Cons.IH[OF s1(2)] show ?case by (rule table_reaches_trans[rotated])
qed simp

lemma next_task_body_reaches:
  assumes "next_task_body s = Some (r, s')"
  shows "table_reaches (txn_status s) (txn_status s')"
  using assms
  by (auto simp: next_task_body_def try_validate_next_version_def try_execute_next_version_def Let_def guard_drop_Some
      split: if_splits option.splits prod.splits dest!: try_incarnate_reaches)

lemma sched_apply_reaches:
  assumes "sched_apply op s = Some s'"
  shows "table_reaches (txn_status s) (txn_status s')"
proof (cases op)
  case (TryAbort i inc)
  with assms show ?thesis by (auto simp: try_abort_Some intro!: table_reaches_step split: if_splits)
next
  case NextTaskIteration
  with assms show ?thesis by (auto intro: next_task_body_reaches)
next
  case (WaitForDependency i dep cv)
  with assms show ?thesis
    by (auto simp: wait_for_dependency_def bind_eq_Some_conv suspend_Some push_dependency_def
        split: if_splits intro!: table_reaches_step)
next
  case (FinishExecution i inc b)
  with assms obtain s1 deps s2 s3 where s1: "set_executed_status s i inc = Some s1"
    "take_dependencies s1 i = Some (deps, s2)" "run_all (\<lambda>dep s. resume s dep) deps s2 = Some s3"
    "txn_status s' = txn_status s3"
    by (auto simp: finish_execution_def bind_eq_Some_conv Let_def guard_drop_Some split: if_splits option.splits)
  have "table_reaches (txn_status s) (txn_status s1)"
    using s1(1) by (auto simp: set_executed_status_Some intro!: table_reaches_step)
  moreover have "txn_status s2 = txn_status s1"
    using s1(2) by (auto simp: take_dependencies_def bind_eq_Some_conv)
  ultimately show ?thesis using run_resume_reaches[OF s1(3)] s1(4) table_reaches_trans by simp
next
  case (FinishAbort i inc)
  with assms obtain s1 where s1: "set_aborted_status s i inc = Some s1"
    "table_reaches (txn_status s1) (txn_status s')"
    by (auto simp: finish_abort_def bind_eq_Some_conv Let_def guard_drop_Some split: if_splits prod.splits option.splits
        dest!: try_incarnate_reaches)
  then have "table_reaches (txn_status s) (txn_status s1)"
    by (auto simp: set_aborted_status_Some intro!: table_reaches_step)
  with s1(2) show ?thesis by (rule table_reaches_trans[rotated])
qed

lemma run_sched_reaches: "run_all sched_apply ops s = Some s' \<Longrightarrow> table_reaches (txn_status s) (txn_status s')"
proof (induction ops arbitrary: s)
  case (Cons op ops)
  then obtain s1 where "sched_apply op s = Some s1" "run_all sched_apply ops s1 = Some s'"
    by (auto simp: bind_eq_Some_conv)
  with Cons.IH sched_apply_reaches table_reaches_trans show ?case by blast
qed simp

text \<open>The progress of a version: incarnations never decrease, and within one no status is left twice.\<close>

fun status_rank :: "transaction_status \<Rightarrow> nat" where
  "status_rank (ReadyToExecute inc _) = 3 * inc"
| "status_rank (Executing inc) = 3 * inc"
| "status_rank (Suspended inc _) = 3 * inc"
| "status_rank (Executed inc) = 3 * inc + 1"
| "status_rank (Aborting inc) = 3 * inc + 2"

lemma status_step_rank: "status_step st st' \<Longrightarrow> status_rank st \<le> status_rank st'"
  by (induction rule: status_step.induct) auto

lemma status_reaches_rank: "status_reaches st st' \<Longrightarrow> status_rank st \<le> status_rank st'"
  by (induction rule: rtranclp_induct) (auto dest: status_step_rank)

lemma table_reaches_nth:
  "table_reaches ss ts \<Longrightarrow> i < length ss \<Longrightarrow> length ts = length ss \<and> status_reaches (ss ! i) (ts ! i)"
  by (simp add: table_reaches_def list_all2_conv_all_nth)

text \<open>
  C29. A version that was aborted once is never aborted again: after a successful \<open>try_abort(i, inc)\<close>,
  whatever operations follow, \<open>try_abort(i, inc)\<close> returns false, and from before the abort to the end the
  status of each transaction has moved along the documented diagram only.
\<close>

theorem abort_at_most_once:
  assumes "try_abort s i inc = Some (True, s1)" "run_all sched_apply ops s1 = Some s2"
  shows "table_reaches (txn_status s) (txn_status s2) \<and> try_abort s2 i inc = Some (False, s2)"
proof -
  from assms(1) have i: "i < length (txn_status s)" "s1 = set_status s i (Aborting inc)" "txn_status s ! i = Executed inc"
    by (auto simp: try_abort_Some)
  note r = run_sched_reaches[OF assms(2)]
  have st: "table_reaches (txn_status s) (txn_status s1)"
    using i by (auto intro!: table_reaches_step)
  have "status_reaches (Aborting inc) (txn_status s2 ! i)" "i < length (txn_status s2)"
    using table_reaches_nth[OF r, of i] i by auto
  then have "txn_status s2 ! i \<noteq> Executed inc"
    using status_reaches_rank by fastforce
  with \<open>i < length (txn_status s2)\<close> table_reaches_trans[OF st r] show ?thesis
    by (simp add: try_abort_Some)
qed

definition demo_sched :: scheduler where
  "demo_sched = (scheduler_new 2)\<lparr>txn_status := [Executed 0, Executing 0], execution_idx := 2, validation_idx := 1,
     num_active_tasks := 2\<rparr>"

theorem abort_at_most_once_witness:
  "\<exists>s2. run_all sched_apply [FinishAbort 0 0, FinishExecution 0 1 False] (set_status demo_sched 0 (Aborting 0)) = Some s2 \<and>
     try_abort s2 0 0 = Some (False, s2)"
proof -
  have a: "try_abort demo_sched 0 0 = Some (True, set_status demo_sched 0 (Aborting 0))"
    by (simp add: demo_sched_def scheduler_new_def try_abort_Some)
  obtain s2 where r: "run_all sched_apply [FinishAbort 0 0, FinishExecution 0 1 False] (set_status demo_sched 0 (Aborting 0)) = Some s2"
    by (simp add: demo_sched_def scheduler_new_def finish_abort_def finish_execution_def set_aborted_status_def
        set_executed_status_def nth_opt_def try_incarnate_def Let_def take_dependencies_def min_list_opt_def set_status_def
        decrease_validation_idx_def numeral_2_eq_2)
  from abort_at_most_once[OF a r] r show ?thesis by blast
qed

section \<open>Termination of \<open>next_task\<close>\<close>

definition idx_distance :: "scheduler \<Rightarrow> nat" where
  "idx_distance s = (num_txns s - validation_idx s) + (num_txns s - execution_idx s) + (if done_marker s then 0 else 1)"

definition sched_sized :: "scheduler \<Rightarrow> bool" where
  "sched_sized s \<longleftrightarrow> length (txn_status s) = num_txns s \<and> length (txn_dependency s) = num_txns s"

lemma try_incarnate_active: "try_incarnate s i = (r, s') \<Longrightarrow> num_active_tasks s' = num_active_tasks s"
  using try_incarnate_cases[of s i] by auto

lemma next_task_body_no_panic: "next_task_body s \<noteq> None"
  by (auto simp: next_task_body_def try_validate_next_version_def try_execute_next_version_def Let_def guard_drop_def
      split: option.split prod.split dest!: try_incarnate_active)

text \<open>One turn of the loop with no task outstanding: it ends with a task, or an index or the marker advances.\<close>

lemma next_task_body_progress:
  assumes "next_task_body s = Some (None, s')" "num_active_tasks s = 0"
  shows "num_active_tasks s' = 0 \<and> idx_distance s' < idx_distance s"
proof (cases "validation_idx s < execution_idx s")
  case True
  with assms show ?thesis
    by (auto simp: next_task_body_def try_validate_next_version_def is_done_def check_done_def Let_def guard_new_def
        guard_drop_def idx_distance_def split: if_splits option.splits)
next
  case False
  show ?thesis
  proof (cases "num_txns s \<le> execution_idx s")
    case True
    with False assms show ?thesis
      by (auto simp: next_task_body_def try_execute_next_version_def is_done_def check_done_def Let_def idx_distance_def
          split: if_splits)
  next
    case c: False
    let ?s = "guard_new s\<lparr>execution_idx := execution_idx s + 1\<rparr>"
    have "try_incarnate ?s (execution_idx s) = (None, ?s)"
      using try_incarnate_cases[of ?s "execution_idx s"] assms(1) False c
      by (auto simp: next_task_body_def try_execute_next_version_def is_done_def guard_new_def Let_def split: if_splits)
    with False c assms show ?thesis
      by (auto simp: next_task_body_def try_execute_next_version_def is_done_def Let_def guard_new_def guard_drop_def
          idx_distance_def split: if_splits)
  qed
qed

text \<open>
  C30. \<open>next_task\<close> returns: when no other task is outstanding the loop ends, without a panic, with an
  execution task, a validation task or \<open>Done\<close>, never with \<open>NoTask\<close>; a returned task holds one unit of
  the active-task counter, and \<open>Done\<close> is returned only with the marker set.
\<close>

theorem next_task_returns:
  assumes "num_active_tasks s = 0"
  shows "\<exists>task s'. next_task s = Some (Some (task, s')) \<and> task \<noteq> NoTask \<and>
     (if task = Done then done_marker s' else num_active_tasks s' = 1)"
  using assms
proof (induction "idx_distance s" arbitrary: s rule: less_induct)
  case less
  obtain r s' where b: "next_task_body s = Some (r, s')"
    using next_task_body_no_panic[of s] by fastforce
  show ?case
  proof (cases r)
    case None
    with b less.prems next_task_body_progress[of s s'] less.hyps[of s'] show ?thesis
      by (subst next_task.simps) simp
  next
    case (Some task)
    have "task \<noteq> NoTask \<and> (if task = Done then done_marker s' else num_active_tasks s' = 1)"
      using b Some less.prems
      by (auto simp: next_task_body_def try_validate_next_version_def try_execute_next_version_def is_done_def Let_def
          split: if_splits option.splits prod.splits dest!: try_incarnate_active)
    with b Some show ?thesis by (subst next_task.simps) simp
  qed
qed

theorem next_task_returns_witness:
  "num_active_tasks (scheduler_new 3) = 0 \<and> (\<exists>task s'. next_task (scheduler_new 3) = Some (Some (task, s')) \<and> task \<noteq> NoTask)"
  using next_task_returns[of "scheduler_new 3"] by (auto simp: scheduler_new_def)

section \<open>Dependencies between transactions\<close>

text \<open>
  The invariant of the dependency lists: they hold exactly the suspended transactions, each once, below a
  transaction of lower index that has not finished executing (no zombie dependency).
\<close>

fun is_suspended :: "transaction_status \<Rightarrow> bool" where
  "is_suspended (Suspended _ _) = True"
| "is_suspended _ = False"

fun is_executed_status :: "transaction_status \<Rightarrow> bool" where
  "is_executed_status (Executed _) = True"
| "is_executed_status _ = False"

definition waits_for :: "txn_index list list \<Rightarrow> txn_index \<Rightarrow> txn_index \<Rightarrow> bool" where
  "waits_for deps j i \<longleftrightarrow> i < length deps \<and> j \<in> set (deps ! i)"

definition deps_wf :: "nat \<Rightarrow> transaction_status list \<Rightarrow> txn_index list list \<Rightarrow> bool" where
  "deps_wf n sts deps \<longleftrightarrow> length sts = n \<and> length deps = n \<and>
     (\<forall>i < n. distinct (deps ! i)) \<and>
     (\<forall>i i' j. waits_for deps j i \<and> waits_for deps j i' \<longrightarrow> i = i') \<and>
     (\<forall>i j. waits_for deps j i \<longrightarrow> i < j \<and> j < n \<and> is_suspended (sts ! j) \<and> \<not> is_executed_status (sts ! i)) \<and>
     (\<forall>j < n. is_suspended (sts ! j) \<longrightarrow> (\<exists>i. waits_for deps j i))"

lemma waits_for_update:
  "waits_for (deps[i := xs]) j i' \<longleftrightarrow> (if i' = i \<and> i < length deps then j \<in> set xs else waits_for deps j i')"
  by (auto simp: waits_for_def nth_list_update)

lemma deps_wfI:
  assumes "length sts = n" "length deps = n" "\<And>i. i < n \<Longrightarrow> distinct (deps ! i)"
    and "\<And>i i' j. waits_for deps j i \<Longrightarrow> waits_for deps j i' \<Longrightarrow> i = i'"
    and "\<And>i j. waits_for deps j i \<Longrightarrow> i < j \<and> j < n \<and> is_suspended (sts ! j) \<and> \<not> is_executed_status (sts ! i)"
    and "\<And>j. j < n \<Longrightarrow> is_suspended (sts ! j) \<Longrightarrow> \<exists>i. waits_for deps j i"
  shows "deps_wf n sts deps"
  using assms unfolding deps_wf_def by blast

lemma deps_wfD:
  assumes "deps_wf n sts deps"
  shows "length sts = n" "length deps = n" "i < n \<Longrightarrow> distinct (deps ! i)"
    "waits_for deps j i \<Longrightarrow> waits_for deps j i' \<Longrightarrow> i = i'"
    "waits_for deps j i \<Longrightarrow> i < j \<and> j < n \<and> is_suspended (sts ! j) \<and> \<not> is_executed_status (sts ! i)"
    "j < n \<Longrightarrow> is_suspended (sts ! j) \<Longrightarrow> \<exists>i. waits_for deps j i"
  using assms unfolding deps_wf_def by blast+

definition sched_wf :: "scheduler \<Rightarrow> bool" where
  "sched_wf s = deps_wf (num_txns s) (txn_status s) (txn_dependency s)"

lemma is_executed_eq_None:
  "length (txn_status s) = n \<Longrightarrow> is_executed s i = None \<longleftrightarrow> n \<le> i \<or> \<not> is_executed_status (txn_status s ! i)"
  by (auto simp: is_executed_def split: transaction_status.splits)

lemma sched_wf_new: "sched_wf (scheduler_new n)"
  by (auto simp: sched_wf_def deps_wf_def scheduler_new_def waits_for_def)

lemma deps_wf_update:
  assumes wf: "deps_wf n sts deps" and i: "i < n" "\<not> is_suspended (sts ! i)" "\<not> is_suspended st"
    and ex: "is_executed_status st \<Longrightarrow> deps ! i = []"
  shows "deps_wf n (sts[i := st]) deps"
proof (rule deps_wfI)
  note D = deps_wfD[OF wf]
  show "l < j \<and> j < n \<and> is_suspended (sts[i := st] ! j) \<and> \<not> is_executed_status (sts[i := st] ! l)"
    if "waits_for deps j l" for l j
    using D(5)[OF that] that i(2) ex D(1) i(1) by (auto simp: nth_list_update waits_for_def)
  show "\<exists>l. waits_for deps j l" if "j < n" "is_suspended (sts[i := st] ! j)" for j
    using D(6)[OF that(1)] that i(3) D(1) by (cases "j = i") (auto simp: nth_list_update)
qed (use deps_wfD[OF wf] in auto)

lemma deps_wf_suspend:
  assumes wf: "deps_wf n sts deps" and i: "i < n" "dep < i" "\<not> is_suspended (sts ! i)" "\<not> is_executed_status (sts ! dep)"
    "\<not> is_executed_status (sts ! i)"
  shows "deps_wf n (sts[i := Suspended inc cv]) (deps[dep := deps ! dep @ [i]])"
proof -
  note D = deps_wfD[OF wf]
  let ?sts = "sts[i := Suspended inc cv]" and ?deps = "deps[dep := deps ! dep @ [i]]"
  have fresh: "\<not> waits_for deps i l" for l using D(5) i(3) by blast
  have W: "waits_for ?deps j l \<longleftrightarrow> waits_for deps j l \<or> j = i \<and> l = dep" for j l
    using i D(2) by (auto simp: waits_for_update) (auto simp: waits_for_def)
  show ?thesis
  proof (rule deps_wfI)
    show "distinct (?deps ! l)" if "l < n" for l
      using D(3)[OF that] fresh[of l] that D(2) i by (auto simp: nth_list_update waits_for_def)
    show "l = l'" if "waits_for ?deps j l" "waits_for ?deps j l'" for l l' j
      using that D(4) fresh by (auto simp: W)
    show "l < j \<and> j < n \<and> is_suspended (?sts ! j) \<and> \<not> is_executed_status (?sts ! l)" if "waits_for ?deps j l" for l j
      using that D(1) D(5) i by (auto simp: W nth_list_update)
    show "\<exists>l. waits_for ?deps j l" if "j < n" "is_suspended (?sts ! j)" for j
      using that D(1) D(6)[of j] by (cases "j = i") (auto simp: W nth_list_update)
  qed (use D in auto)
qed

text \<open>Resuming a list of distinct suspended transactions succeeds and touches only their statuses.\<close>

fun resumed_status :: "transaction_status \<Rightarrow> transaction_status" where
  "resumed_status (Suspended inc cv) = ReadyToExecute inc (Some cv)"
| "resumed_status st = st"

lemma run_resume:
  assumes "distinct deps" "\<forall>j \<in> set deps. j < length (txn_status s) \<and> is_suspended (txn_status s ! j)"
  shows "\<exists>sts. run_all (\<lambda>dep s. resume s dep) deps s = Some (s\<lparr>txn_status := sts\<rparr>) \<and>
     length sts = length (txn_status s) \<and>
     (\<forall>j. sts ! j = (if j \<in> set deps then resumed_status (txn_status s ! j) else txn_status s ! j))"
  using assms
proof (induction deps arbitrary: s)
  case Nil
  show ?case by (intro exI[of _ "txn_status s"]) simp
next
  case (Cons d deps)
  then obtain inc cv where d: "d < length (txn_status s)" "txn_status s ! d = Suspended inc cv"
    by (auto elim: is_suspended.elims)
  let ?s = "set_status s d (ReadyToExecute inc (Some cv))"
  have "\<forall>j \<in> set deps. j < length (txn_status ?s) \<and> is_suspended (txn_status ?s ! j)"
    using Cons.prems by (auto simp: nth_list_update)
  from Cons.IH[OF _ this] Cons.prems(1) obtain sts where
    sts: "run_all (\<lambda>dep s. resume s dep) deps ?s = Some (?s\<lparr>txn_status := sts\<rparr>)" "length sts = length (txn_status s)"
    "\<forall>j. sts ! j = (if j \<in> set deps then resumed_status (txn_status ?s ! j) else txn_status ?s ! j)"
    by auto
  have "resume s d = Some ?s" using d by (simp add: resume_Some)
  moreover have "?s\<lparr>txn_status := sts\<rparr> = s\<lparr>txn_status := sts\<rparr>" by (simp add: set_status_def)
  ultimately show ?case
    using sts d Cons.prems(1) by (intro exI[of _ sts]) (auto simp: nth_list_update)
qed

lemma resumed_status_simps [simp]:
  "\<not> is_suspended (resumed_status st)" "is_executed_status (resumed_status st) = is_executed_status st"
  by (cases st; simp)+

lemma deps_wf_resume:
  assumes wf: "deps_wf n sts deps" and i: "i < n" and len: "length sts' = n"
    and sts': "\<And>j. sts' ! j = (if j \<in> set (deps ! i) then resumed_status (sts ! j) else sts ! j)"
  shows "deps_wf n sts' (deps[i := []])"
proof -
  note D = deps_wfD[OF wf]
  have W: "waits_for (deps[i := []]) j l \<longleftrightarrow> waits_for deps j l \<and> l \<noteq> i" for j l
    using i D(2) by (auto simp: waits_for_update)
  have mem: "j \<in> set (deps ! i) \<longleftrightarrow> waits_for deps j i" for j using i D(2) by (simp add: waits_for_def)
  show ?thesis
  proof (rule deps_wfI)
    show "distinct (deps[i := []] ! l)" if "l < n" for l
      using D(3)[OF that] that D(2) i by (auto simp: nth_list_update)
    show "l = l'" if "waits_for (deps[i := []]) j l" "waits_for (deps[i := []]) j l'" for l l' j
      using that D(4) by (auto simp: W)
    show "l < j \<and> j < n \<and> is_suspended (sts' ! j) \<and> \<not> is_executed_status (sts' ! l)"
      if "waits_for (deps[i := []]) j l" for l j
      using that D(5)[of j l] D(4)[of j l i] by (auto simp: W sts' mem)
    show "\<exists>l. waits_for (deps[i := []]) j l" if "j < n" "is_suspended (sts' ! j)" for j
      using that D(6)[of j] by (auto simp: W sts' mem split: if_splits)
  qed (use D len in auto)
qed

text \<open>What the callers guarantee: they hold the task of the version they report on.\<close>

fun op_pre :: "sched_op \<Rightarrow> scheduler \<Rightarrow> bool" where
  "op_pre (TryAbort i inc) s \<longleftrightarrow> i < num_txns s"
| "op_pre NextTaskIteration s \<longleftrightarrow> True"
| "op_pre (WaitForDependency i dep cv) s \<longleftrightarrow> dep < i \<and> i < num_txns s \<and> (\<exists>inc. txn_status s ! i = Executing inc)"
| "op_pre (FinishExecution i inc b) s \<longleftrightarrow> i < num_txns s \<and> txn_status s ! i = Executing inc \<and> num_active_tasks s > 0"
| "op_pre (FinishAbort i inc) s \<longleftrightarrow> i < num_txns s \<and> txn_status s ! i = Aborting inc \<and> num_active_tasks s > 0"

lemma sched_wf_cong:
  "txn_status s' = txn_status s \<Longrightarrow> txn_dependency s' = txn_dependency s \<Longrightarrow> num_txns s' = num_txns s \<Longrightarrow>
   sched_wf s' = sched_wf s"
  by (simp add: sched_wf_def)

lemma sched_wf_sized: "sched_wf s \<Longrightarrow> length (txn_status s) = num_txns s \<and> length (txn_dependency s) = num_txns s"
  by (simp add: sched_wf_def deps_wf_def)

lemma sched_wf_set_status:
  "sched_wf s \<Longrightarrow> i < num_txns s \<Longrightarrow> \<not> is_suspended (txn_status s ! i) \<Longrightarrow> \<not> is_suspended st \<Longrightarrow>
   (is_executed_status st \<Longrightarrow> txn_dependency s ! i = []) \<Longrightarrow> sched_wf (set_status s i st)"
  by (simp add: sched_wf_def deps_wf_update)

lemma try_incarnate_wf:
  assumes "sched_wf s" "try_incarnate s i = (r, s')"
  shows "sched_wf s'"
  using try_incarnate_cases[of s i] assms sched_wf_sized[OF assms(1)] sched_wf_set_status[of s i "Executing _"]
  by auto

lemma next_task_body_wf: "sched_wf s \<Longrightarrow> next_task_body s = Some (r, s') \<Longrightarrow> sched_wf s'"
  by (auto simp: next_task_body_def try_validate_next_version_def try_execute_next_version_def Let_def guard_drop_Some
      sched_wf_cong[of "snd (check_done s)" s]
      split: if_splits option.splits prod.splits
      intro: sched_wf_cong[THEN iffD2, rotated -1]
      dest!: try_incarnate_wf[rotated])

lemma finish_execution_wf:
  assumes wf: "sched_wf s" and pre: "op_pre (FinishExecution i inc b) s"
  shows "\<exists>task s'. finish_execution s i inc b = Some (task, s') \<and> sched_wf s'"
proof -
  let ?sts = "(txn_status s)[i := Executed inc]" and ?deps = "txn_dependency s"
  note len = sched_wf_sized[OF wf]
  note D = deps_wfD[OF wf[unfolded sched_wf_def]]
  from pre len have i: "i < length (txn_status s)" "txn_status s ! i = Executing inc" "i < num_txns s" by auto
  let ?s1 = "set_status s i (Executed inc)"
  let ?s2 = "?s1\<lparr>txn_dependency := ?deps[i := []]\<rparr>"
  have susp: "\<forall>j \<in> set (?deps ! i). j < length (txn_status ?s2) \<and> is_suspended (txn_status ?s2 ! j)"
  proof
    fix j assume "j \<in> set (?deps ! i)"
    then have "i < j" "j < num_txns s" "is_suspended (txn_status s ! j)"
      using D(5)[of j i] i len by (auto simp: waits_for_def)
    then show "j < length (txn_status ?s2) \<and> is_suspended (txn_status ?s2 ! j)"
      using len by (simp add: nth_list_update)
  qed
  from run_resume[OF D(3)[OF i(3)] susp] obtain sts where
    run: "run_all (\<lambda>dep s. resume s dep) (?deps ! i) ?s2 = Some (?s2\<lparr>txn_status := sts\<rparr>)"
      "length sts = num_txns s"
      "\<And>j. sts ! j = (if j \<in> set (?deps ! i) then resumed_status (?sts ! j) else ?sts ! j)"
    using len by auto
  have "deps_wf (num_txns s) ((sts)[i := Executing inc]) (?deps[i := []])"
  proof (rule deps_wf_resume[OF wf[unfolded sched_wf_def] i(3)])
    have "i \<notin> set (?deps ! i)" using D(5)[of i i] i len by (auto simp: waits_for_def)
    then show "(sts)[i := Executing inc] ! j =
        (if j \<in> set (?deps ! i) then resumed_status (txn_status s ! j) else txn_status s ! j)" for j
      using run(2) run(3)[of j] i by (cases "j = i") (auto simp: nth_list_update)
  qed (use run in simp)
  moreover have sti: "sts ! i = Executed inc"
    using run(3)[of i] i len D(5)[of i i] by (auto simp: waits_for_def split: if_splits)
  then have "sts[i := Executed inc] = sts" by (metis list_update_id)
  ultimately have wf3: "deps_wf (num_txns s) sts (?deps[i := []])"
    using deps_wf_update[of "num_txns s" "sts[i := Executing inc]" "?deps[i := []]" i "Executed inc"] run(2) i len
    by simp
  let ?s3 = "?s2\<lparr>txn_status := sts\<rparr>"
  let ?s4 = "case min_list_opt (?deps ! i) of Some t \<Rightarrow> decrease_execution_idx ?s3 t | None \<Rightarrow> ?s3"
  have s4: "sched_wf ?s4" "num_active_tasks ?s4 > 0"
    using wf3 pre by (auto simp: sched_wf_def split: option.split)
  have "finish_execution s i inc b =
      (if validation_idx ?s4 > i then
         if b then map_option (Pair NoTask) (guard_drop (decrease_validation_idx ?s4 i))
         else Some (ValidationTask (i, inc), ?s4)
       else map_option (Pair NoTask) (guard_drop ?s4))"
    using i len run(1) by (simp add: finish_execution_def set_executed_status_def nth_opt_def take_dependencies_def Let_def)
  with s4 show ?thesis
    by (auto simp: guard_drop_def sched_wf_def)
qed

lemma finish_abort_wf:
  assumes wf: "sched_wf s" and pre: "op_pre (FinishAbort i inc) s"
  shows "\<exists>task s'. finish_abort s i inc = Some (task, s') \<and> sched_wf s'"
proof -
  let ?s1 = "set_status s i (ReadyToExecute (inc + 1) None)"
  let ?s2 = "decrease_validation_idx ?s1 (i + 1)"
  have wf2: "sched_wf ?s2"
    using sched_wf_set_status[OF wf, of i "ReadyToExecute (inc + 1) None"] pre by (simp add: sched_wf_def)
  obtain r s3 where t: "try_incarnate ?s2 i = (r, s3)" by fastforce
  have "sched_wf s3" "num_active_tasks s3 > 0"
    using try_incarnate_wf[OF wf2 t] try_incarnate_active[OF t] pre by auto
  moreover have "set_aborted_status s i inc = Some ?s1"
    using pre sched_wf_sized[OF wf] by (simp add: set_aborted_status_def nth_opt_def)
  ultimately show ?thesis
    using t wf2 pre
    by (auto simp: finish_abort_def Let_def guard_drop_def sched_wf_def split: option.split)
qed

text \<open>
  C31. Dependencies are never lost and no operation panics.  As long as callers report only on versions
  whose task they hold and wait only on lower transactions, every operation succeeds and keeps the
  invariant: a transaction is suspended exactly when it is listed, once, under one lower transaction that
  has not finished executing, whose \<open>finish_execution\<close> will resume it.
\<close>

theorem dependencies_never_lost:
  assumes "sched_wf s" "op_pre op s"
  shows "\<exists>s'. sched_apply op s = Some s' \<and> sched_wf s'"
proof (cases op)
  case (TryAbort i inc)
  with assms sched_wf_sized[OF assms(1)] sched_wf_set_status[OF assms(1), of i "Aborting inc"] show ?thesis
    by (auto simp: try_abort_def nth_opt_def)
next
  case NextTaskIteration
  with next_task_body_no_panic[of s] next_task_body_wf[OF assms(1)] show ?thesis by auto
next
  case (WaitForDependency i dep cv)
  with assms obtain inc where i: "dep < i" "i < num_txns s" "txn_status s ! i = Executing inc" by auto
  note len = sched_wf_sized[OF assms(1)]
  show ?thesis
  proof (cases "is_executed s dep")
    case None
    then have "\<not> is_executed_status (txn_status s ! dep)"
      using is_executed_eq_None[of s "num_txns s" dep] len i by auto
    from deps_wf_suspend[OF assms(1)[unfolded sched_wf_def] i(2,1) _ this] i None WaitForDependency len show ?thesis
      by (simp add: wait_for_dependency_def nth_opt_def suspend_def push_dependency_def sched_wf_def)
  next
    case (Some x)
    with WaitForDependency assms(1) i len show ?thesis by (simp add: wait_for_dependency_def nth_opt_def)
  qed
next
  case (FinishExecution i inc b)
  with finish_execution_wf[OF assms(1), of i inc b] assms(2) show ?thesis by auto
next
  case (FinishAbort i inc)
  with finish_abort_wf[OF assms(1), of i inc] assms(2) show ?thesis by auto
qed

theorem dependencies_never_lost_witness:
  "\<exists>s'. sched_apply (WaitForDependency 1 0 7) ((scheduler_new 2)\<lparr>txn_status := [Executing 0, Executing 0]\<rparr>) = Some s' \<and> sched_wf s'"
proof -
  let ?s = "(scheduler_new 2)\<lparr>txn_status := [Executing 0, Executing 0]\<rparr>"
  have no: "\<not> waits_for [[], []] j i" for j i
    by (cases i) (auto simp: waits_for_def)
  have "deps_wf 2 [Executing 0, Executing 0] [[], []]"
    by (rule deps_wfI) (use no in \<open>auto simp: less_2_cases_iff\<close>)
  then have "sched_wf ?s"
    by (simp add: sched_wf_def scheduler_new_def numeral_2_eq_2)
  moreover have "op_pre (WaitForDependency 1 0 7) ?s" by (simp add: scheduler_new_def)
  ultimately show ?thesis by (rule dependencies_never_lost)
qed

end
