(* ===== verification/Scheduler_Threads.thy ===== *)
theory Scheduler_Threads
  imports Scheduler
begin

text \<open>
  The worker threads of \<^verbatim>\<open>parallel-executor/src/executor.rs\<close> (\<open>work_task_with_scope\<close>) running the
  scheduler of \<^verbatim>\<open>scheduler.rs\<close> concurrently.  A program counter names the point a thread has reached
  between two atomic accesses; a step is one atomic load, store, \<open>fetch_add\<close>, \<open>fetch_min\<close> or one critical
  section of a mutex, built from the primitives of \<open>Scheduler\<close>.  The outcome of executing and of
  validating a transaction (a dependency found, the read set valid or not, writes outside the previous
  write set) is left open, so the theorems hold for every virtual machine and every store.  A failing
  \<open>assert!\<close>, \<open>unreachable!\<close> or index leads to the program counter \<open>Panicked\<close>.
\<close>

section \<open>Threads\<close>

datatype pc =
    Loop
  | LoadVal
  | LoadExec nat
  | ValCheck
  | ValGuard
  | ValFetch
  | ValStatus txn_index
  | ExeCheck
  | ExeGuard
  | ExeFetch
  | TryInc txn_index
  | Cd0
  | Cd1 nat
  | Cd2 nat nat
  | Cd3 nat nat nat
  | Cd4 nat
  | Cd5
  | DropGuard
  | Run version
  | WaitLock version txn_index condvar
  | WaitCheck version txn_index condvar
  | WaitSuspend version txn_index condvar
  | WaitPush version txn_index condvar
  | Blocked version condvar
  | Notify version condvar
  | Fin version bool
  | FinTake version bool
  | FinResume version bool "txn_index list" "txn_index option"
  | FinDecE version bool txn_index
  | FinCntE version bool
  | FinLoad version bool
  | FinDecV txn_index
  | CntDrop
  | Validate version
  | AbortMark version
  | AbDecV txn_index
  | AbCntV txn_index
  | AbLoad txn_index
  | Stopped
  | Panicked

text \<open>What the threads share; \<open>locked\<close> are the dependency mutexes held across several steps.\<close>

record shared =
  sch :: scheduler
  locked :: "txn_index set"
  resolved :: "condvar set"
  next_cv :: condvar

abbreviation with_sch :: "shared \<Rightarrow> scheduler \<Rightarrow> shared" where
  "with_sch sh s \<equiv> sh\<lparr>sch := s\<rparr>"

fun min_acc :: "txn_index option \<Rightarrow> txn_index \<Rightarrow> txn_index" where
  "min_acc None d = d"
| "min_acc (Some m) d = min m d"

inductive tstep :: "shared \<Rightarrow> pc \<Rightarrow> shared \<Rightarrow> pc \<Rightarrow> bool" where
  next_loop: "tstep sh Loop sh (if done_marker (sch sh) then Stopped else LoadVal)"
| next_val: "tstep sh LoadVal sh (LoadExec (validation_idx (sch sh)))"
| next_exec: "tstep sh (LoadExec v) sh (if v < execution_idx (sch sh) then ValCheck else ExeCheck)"
| val_check: "tstep sh ValCheck sh (if validation_idx (sch sh) \<ge> num_txns (sch sh) then Cd0 else ValGuard)"
| val_guard: "tstep sh ValGuard (with_sch sh (guard_new (sch sh))) ValFetch"
| val_fetch: "tstep sh ValFetch (with_sch sh ((sch sh)\<lparr>validation_idx := validation_idx (sch sh) + 1\<rparr>))
    (ValStatus (validation_idx (sch sh)))"
| val_status: "tstep sh (ValStatus i) sh
    (case is_executed (sch sh) i of Some inc \<Rightarrow> Validate (i, inc) | None \<Rightarrow> DropGuard)"
| exe_check: "tstep sh ExeCheck sh (if execution_idx (sch sh) \<ge> num_txns (sch sh) then Cd0 else ExeGuard)"
| exe_guard: "tstep sh ExeGuard (with_sch sh (guard_new (sch sh))) ExeFetch"
| exe_fetch: "tstep sh ExeFetch (with_sch sh ((sch sh)\<lparr>execution_idx := execution_idx (sch sh) + 1\<rparr>))
    (TryInc (execution_idx (sch sh)))"
| inc_run: "try_incarnate (sch sh) i = (Some (inc, None), s') \<Longrightarrow> tstep sh (TryInc i) (with_sch sh s') (Run (i, inc))"
| inc_notify: "try_incarnate (sch sh) i = (Some (inc, Some cv), s') \<Longrightarrow>
    tstep sh (TryInc i) (with_sch sh s') (Notify (i, inc) cv)"
| inc_none: "try_incarnate (sch sh) i = (None, s') \<Longrightarrow> tstep sh (TryInc i) (with_sch sh s') DropGuard"
| cd_cnt: "tstep sh Cd0 sh (Cd1 (decrease_cnt (sch sh)))"
| cd_val: "tstep sh (Cd1 c) sh (Cd2 c (validation_idx (sch sh)))"
| cd_exec: "tstep sh (Cd2 c v) sh (Cd3 c v (execution_idx (sch sh)))"
| cd_tasks: "tstep sh (Cd3 c v e) sh
    (if min e v < num_txns (sch sh) \<or> num_active_tasks (sch sh) > 0 then Loop else Cd4 c)"
| cd_recheck: "tstep sh (Cd4 c) sh (if c = decrease_cnt (sch sh) then Cd5 else Loop)"
| cd_store: "tstep sh Cd5 (with_sch sh ((sch sh)\<lparr>done_marker := True\<rparr>)) Loop"
| drop: "guard_drop (sch sh) = Some s' \<Longrightarrow> tstep sh DropGuard (with_sch sh s') Loop"
| drop_panic: "guard_drop (sch sh) = None \<Longrightarrow> tstep sh DropGuard sh Panicked"
| notify: "tstep sh (Notify v cv) (sh\<lparr>resolved := insert cv (resolved sh)\<rparr>) DropGuard"
| run_dep: "dep < fst v \<Longrightarrow> tstep sh (Run v) (sh\<lparr>next_cv := next_cv sh + 1\<rparr>) (WaitLock v dep (next_cv sh))"
| run_fin: "tstep sh (Run v) sh (Fin v b)"
| wait_lock: "dep < length (txn_dependency (sch sh)) \<Longrightarrow> dep \<notin> locked sh \<Longrightarrow>
    tstep sh (WaitLock v dep cv) (sh\<lparr>locked := insert dep (locked sh)\<rparr>) (WaitCheck v dep cv)"
| wait_panic: "\<not> dep < length (txn_dependency (sch sh)) \<Longrightarrow> tstep sh (WaitLock v dep cv) sh Panicked"
| wait_resolved: "is_executed (sch sh) dep \<noteq> None \<Longrightarrow>
    tstep sh (WaitCheck v dep cv) (sh\<lparr>locked := locked sh - {dep}\<rparr>) (Run v)"
| wait_unresolved: "is_executed (sch sh) dep = None \<Longrightarrow> tstep sh (WaitCheck v dep cv) sh (WaitSuspend v dep cv)"
| wait_suspend: "suspend (sch sh) (fst v) cv = Some s' \<Longrightarrow>
    tstep sh (WaitSuspend v dep cv) (with_sch sh s') (WaitPush v dep cv)"
| suspend_panic: "suspend (sch sh) (fst v) cv = None \<Longrightarrow> tstep sh (WaitSuspend v dep cv) sh Panicked"
| wait_push: "tstep sh (WaitPush v dep cv)
    (sh\<lparr>sch := push_dependency (sch sh) dep (fst v), locked := locked sh - {dep}\<rparr>) (Blocked v cv)"
| wake: "cv \<in> resolved sh \<Longrightarrow> tstep sh (Blocked v cv) sh (Run v)"
| fin_set: "set_executed_status (sch sh) (fst v) (snd v) = Some s' \<Longrightarrow> tstep sh (Fin v b) (with_sch sh s') (FinTake v b)"
| fin_panic: "set_executed_status (sch sh) (fst v) (snd v) = None \<Longrightarrow> tstep sh (Fin v b) sh Panicked"
| fin_take: "fst v \<notin> locked sh \<Longrightarrow> take_dependencies (sch sh) (fst v) = Some (deps, s') \<Longrightarrow>
    tstep sh (FinTake v b) (with_sch sh s') (FinResume v b deps None)"
| take_panic: "take_dependencies (sch sh) (fst v) = None \<Longrightarrow> tstep sh (FinTake v b) sh Panicked"
| fin_resume: "resume (sch sh) d = Some s' \<Longrightarrow>
    tstep sh (FinResume v b (d # ds) m) (with_sch sh s') (FinResume v b ds (Some (min_acc m d)))"
| resume_panic: "resume (sch sh) d = None \<Longrightarrow> tstep sh (FinResume v b (d # ds) m) sh Panicked"
| fin_no_deps: "tstep sh (FinResume v b [] None) sh (FinLoad v b)"
| fin_deps: "tstep sh (FinResume v b [] (Some m)) sh (FinDecE v b m)"
| fin_dec_exec: "tstep sh (FinDecE v b m) (with_sch sh ((sch sh)\<lparr>execution_idx := min (execution_idx (sch sh)) m\<rparr>))
    (if execution_idx (sch sh) > m then FinCntE v b else FinLoad v b)"
| fin_cnt_exec: "tstep sh (FinCntE v b) (with_sch sh ((sch sh)\<lparr>decrease_cnt := decrease_cnt (sch sh) + 1\<rparr>)) (FinLoad v b)"
| fin_load: "tstep sh (FinLoad v b) sh
    (if validation_idx (sch sh) > fst v then if b then FinDecV (fst v) else Validate v else DropGuard)"
| fin_dec_val: "tstep sh (FinDecV i) (with_sch sh ((sch sh)\<lparr>validation_idx := min (validation_idx (sch sh)) i\<rparr>))
    (if validation_idx (sch sh) > i then CntDrop else DropGuard)"
| cnt_drop: "tstep sh CntDrop (with_sch sh ((sch sh)\<lparr>decrease_cnt := decrease_cnt (sch sh) + 1\<rparr>)) DropGuard"
| valid: "tstep sh (Validate v) sh DropGuard"
| invalid: "try_abort (sch sh) (fst v) (snd v) = Some (aborted, s') \<Longrightarrow>
    tstep sh (Validate v) (with_sch sh s') (if aborted then AbortMark v else DropGuard)"
| abort_panic: "try_abort (sch sh) (fst v) (snd v) = None \<Longrightarrow> tstep sh (Validate v) sh Panicked"
| abort_set: "set_aborted_status (sch sh) (fst v) (snd v) = Some s' \<Longrightarrow>
    tstep sh (AbortMark v) (with_sch sh s') (AbDecV (fst v))"
| set_aborted_panic: "set_aborted_status (sch sh) (fst v) (snd v) = None \<Longrightarrow> tstep sh (AbortMark v) sh Panicked"
| abort_dec_val: "tstep sh (AbDecV i) (with_sch sh ((sch sh)\<lparr>validation_idx := min (validation_idx (sch sh)) (i + 1)\<rparr>))
    (if validation_idx (sch sh) > i + 1 then AbCntV i else AbLoad i)"
| abort_cnt_val: "tstep sh (AbCntV i) (with_sch sh ((sch sh)\<lparr>decrease_cnt := decrease_cnt (sch sh) + 1\<rparr>)) (AbLoad i)"
| abort_load: "tstep sh (AbLoad i) sh (if execution_idx (sch sh) > i then TryInc i else DropGuard)"

text \<open>A run of \<open>concurrency_level\<close> threads: any thread may take the next step.\<close>

type_synonym conf = "shared \<times> (nat \<Rightarrow> pc)"

inductive reach :: "nat \<Rightarrow> nat \<Rightarrow> conf \<Rightarrow> bool" for threads n where
  start: "reach threads n
    (\<lparr>sch = scheduler_new n, locked = {}, resolved = {}, next_cv = 0\<rparr>, \<lambda>t. if t < threads then Loop else Stopped)"
| step: "reach threads n (sh, pcs) \<Longrightarrow> t < threads \<Longrightarrow> tstep sh (pcs t) sh' p' \<Longrightarrow> reach threads n (sh', pcs(t := p'))"

section \<open>What a program counter holds\<close>

text \<open>A unit of the active-task counter.\<close>

fun guards :: "pc \<Rightarrow> nat" where
  "guards Loop = 0" | "guards LoadVal = 0" | "guards (LoadExec _) = 0"
| "guards ValCheck = 0" | "guards ValGuard = 0" | "guards ExeCheck = 0" | "guards ExeGuard = 0"
| "guards Cd0 = 0" | "guards (Cd1 _) = 0" | "guards (Cd2 _ _) = 0" | "guards (Cd3 _ _ _) = 0" | "guards (Cd4 _) = 0"
| "guards Cd5 = 0" | "guards Stopped = 0" | "guards Panicked = 0"
| "guards _ = 1"

text \<open>The version whose status only this thread may change.\<close>

fun owned_version :: "pc \<Rightarrow> version option" where
  "owned_version (Run v) = Some v"
| "owned_version (WaitLock v _ _) = Some v"
| "owned_version (WaitCheck v _ _) = Some v"
| "owned_version (WaitSuspend v _ _) = Some v"
| "owned_version (WaitPush v _ _) = Some v"
| "owned_version (Blocked v _) = Some v"
| "owned_version (Fin v _) = Some v"
| "owned_version (AbortMark v) = Some v"
| "owned_version _ = None"

definition owns :: "pc \<Rightarrow> txn_index \<Rightarrow> nat" where
  "owns p i = (if map_option fst (owned_version p) = Some i then 1 else 0)"

text \<open>A suspended transaction that the thread is about to list or to resume.\<close>

fun tokens :: "pc \<Rightarrow> txn_index \<Rightarrow> nat" where
  "tokens (WaitPush v _ _) j = (if fst v = j then 1 else 0)"
| "tokens (FinResume _ _ ds _) j = count_list ds j"
| "tokens _ j = 0"

text \<open>A dependency mutex.\<close>

fun holds_lock :: "pc \<Rightarrow> txn_index \<Rightarrow> nat" where
  "holds_lock (WaitCheck _ dep _) i = (if dep = i then 1 else 0)"
| "holds_lock (WaitSuspend _ dep _) i = (if dep = i then 1 else 0)"
| "holds_lock (WaitPush _ dep _) i = (if dep = i then 1 else 0)"
| "holds_lock _ i = 0"

text \<open>The condition variable the thread created and still uses.\<close>

fun waits_on :: "pc \<Rightarrow> condvar option" where
  "waits_on (WaitLock _ _ cv) = Some cv"
| "waits_on (WaitCheck _ _ cv) = Some cv"
| "waits_on (WaitSuspend _ _ cv) = Some cv"
| "waits_on (WaitPush _ _ cv) = Some cv"
| "waits_on (Blocked _ cv) = Some cv"
| "waits_on _ = None"

text \<open>An index has been decreased, \<open>decrease_cnt\<close> not yet increased.\<close>

fun pending_cnt :: "pc \<Rightarrow> bool" where
  "pending_cnt (FinCntE _ _) = True"
| "pending_cnt (AbCntV _) = True"
| "pending_cnt CntDrop = True"
| "pending_cnt _ = False"

text \<open>The thread will itself see to the execution of a ready transaction \<open>i\<close>.\<close>

fun responsible :: "pc \<Rightarrow> txn_index \<Rightarrow> bool" where
  "responsible (TryInc k) i = (k = i)"
| "responsible (FinResume _ _ _ (Some m)) i = (m \<le> i)"
| "responsible (FinDecE _ _ m) i = (m \<le> i)"
| "responsible (AbDecV k) i = (k = i)"
| "responsible (AbCntV k) i = (k = i)"
| "responsible (AbLoad k) i = (k = i)"
| "responsible _ i = False"

text \<open>The program counters that remain possible once the work is finished.\<close>

fun harmless :: "nat \<Rightarrow> pc \<Rightarrow> bool" where
  "harmless n ValFetch = True"
| "harmless n ExeFetch = True"
| "harmless n DropGuard = True"
| "harmless n (ValStatus i) = (n \<le> i)"
| "harmless n (TryInc i) = (n \<le> i)"
| "harmless n Panicked = False"
| "harmless n p = (guards p = 0)"

end
