(* ===== verification/Scheduler_Safety.thy ===== *)
theory Scheduler_Safety
  imports Scheduler_Threads
begin

text \<open>
  Safety of the scheduler under every interleaving of its threads, by one inductive invariant over
  \<open>reach\<close>: each conjunct is a predicate of its own with its own step lemma.  Counting conjuncts are sums
  over the threads (guards, owners, tokens of suspended transactions, mutexes), so that a step changes one
  summand; the correctness of \<open>check_done\<close> is the conjunct \<open>inv_done\<close>, which records what a thread in
  the middle of its five reads may still conclude.
\<close>

section \<open>The invariant\<close>

text \<open>A sum over the threads after one of them moved.\<close>

lemma sum_step:
  fixes f :: "pc \<Rightarrow> nat" and threads :: nat
  assumes "t < threads"
  shows "(\<Sum>x<threads. f ((pcs(t := p)) x)) + f (pcs t) = (\<Sum>x<threads. f (pcs x)) + f p"
proof -
  have "(\<Sum>x<threads. f ((pcs(t := p)) x)) = f p + (\<Sum>x\<in>{..<threads} - {t}. f (pcs x))"
    using assms by (simp add: sum.remove[of "{..<threads}" t])
  moreover have "(\<Sum>x<threads. f (pcs x)) = f (pcs t) + (\<Sum>x\<in>{..<threads} - {t}. f (pcs x))"
    using assms by (simp add: sum.remove[of "{..<threads}" t])
  ultimately show ?thesis by simp
qed

lemma sum_two_le:
  fixes f :: "pc \<Rightarrow> nat" and threads :: nat
  assumes "t < threads" "t' < threads" "t \<noteq> t'"
  shows "f (pcs t) + f (pcs t') \<le> (\<Sum>x<threads. f (pcs x))"
proof -
  have "(\<Sum>x\<in>{t, t'}. f (pcs x)) \<le> (\<Sum>x<threads. f (pcs x))"
    using assms by (intro sum_mono2) auto
  with assms show ?thesis by simp
qed

lemma nth_upd: "xs[k := y] ! i = (if i = k \<and> k < length xs then y else xs ! i)"
  by (cases "k < length xs") (auto simp: list_update_beyond)

lemma sum_one_le: "t < threads \<Longrightarrow> f (pcs t) \<le> (\<Sum>x<threads. f (pcs x))" for f :: "pc \<Rightarrow> nat" and threads :: nat
  by (rule member_le_sum) auto

text \<open>Statuses that have an owning thread.\<close>

fun has_owner :: "transaction_status \<Rightarrow> nat" where
  "has_owner (ReadyToExecute _ None) = 0"
| "has_owner (Executed _) = 0"
| "has_owner _ = 1"

text \<open>What a program counter knows of the status table.\<close>

fun local_ok :: "transaction_status list \<Rightarrow> condvar set \<Rightarrow> pc \<Rightarrow> bool" where
  "local_ok sts rs (Run v) \<longleftrightarrow> fst v < length sts \<and> sts ! fst v = Executing (snd v)"
| "local_ok sts rs (WaitLock v dep cv) \<longleftrightarrow> cv \<notin> rs \<and> dep < fst v \<and> fst v < length sts \<and> sts ! fst v = Executing (snd v)"
| "local_ok sts rs (WaitCheck v dep cv) \<longleftrightarrow> cv \<notin> rs \<and> dep < fst v \<and> fst v < length sts \<and> sts ! fst v = Executing (snd v)"
| "local_ok sts rs (WaitSuspend v dep cv) \<longleftrightarrow> cv \<notin> rs \<and> dep < fst v \<and> fst v < length sts \<and> sts ! fst v = Executing (snd v)"
| "local_ok sts rs (WaitPush v dep cv) \<longleftrightarrow> cv \<notin> rs \<and> dep < fst v \<and> fst v < length sts \<and> sts ! fst v = Suspended (snd v) cv"
| "local_ok sts rs (Blocked v cv) \<longleftrightarrow> fst v < length sts \<and>
     (sts ! fst v = Executing (snd v) \<or>
      cv \<notin> rs \<and> (sts ! fst v = Suspended (snd v) cv \<or> sts ! fst v = ReadyToExecute (snd v) (Some cv)))"
| "local_ok sts rs (Fin v b) \<longleftrightarrow> fst v < length sts \<and> sts ! fst v = Executing (snd v)"
| "local_ok sts rs (FinTake v b) \<longleftrightarrow> fst v < length sts"
| "local_ok sts rs (FinResume v b ds m) \<longleftrightarrow> fst v < length sts \<and> (\<forall>d \<in> set ds. d < length sts)"
| "local_ok sts rs (FinDecE v b m) \<longleftrightarrow> fst v < length sts"
| "local_ok sts rs (FinCntE v b) \<longleftrightarrow> fst v < length sts"
| "local_ok sts rs (FinLoad v b) \<longleftrightarrow> fst v < length sts"
| "local_ok sts rs (Validate v) \<longleftrightarrow> fst v < length sts"
| "local_ok sts rs (AbortMark v) \<longleftrightarrow> fst v < length sts \<and> sts ! fst v = Aborting (snd v)"
| "local_ok sts rs Panicked \<longleftrightarrow> False"
| "local_ok sts rs p \<longleftrightarrow> True"

lemma local_ok_update: "local_ok sts rs p \<Longrightarrow> owns p k = 0 \<Longrightarrow> local_ok (sts[k := st]) rs p"
  by (cases p) (auto simp: owns_def nth_upd split: if_splits)

lemma local_ok_incarnate:
  "local_ok sts rs p \<Longrightarrow> sts ! k = ReadyToExecute inc cv \<Longrightarrow> local_ok (sts[k := Executing inc]) rs p"
  by (cases p) (auto simp: nth_upd)

lemma local_ok_resume:
  "local_ok sts rs p \<Longrightarrow> sts ! k = Suspended inc cv \<Longrightarrow> tokens p k = 0 \<Longrightarrow>
   local_ok (sts[k := ReadyToExecute inc (Some cv)]) rs p"
  by (cases p) (auto simp: nth_upd split: if_splits)

lemma local_ok_owner: "local_ok sts rs p \<Longrightarrow> owned_version p = Some v \<Longrightarrow> fst v < length sts \<and> has_owner (sts ! fst v) = 1"
  by (cases p) auto

definition inv_len :: "nat \<Rightarrow> conf \<Rightarrow> bool" where
  "inv_len n c \<longleftrightarrow> num_txns (sch (fst c)) = n \<and> length (txn_status (sch (fst c))) = n \<and>
     length (txn_dependency (sch (fst c))) = n \<and>
     (\<forall>i < n. \<forall>j \<in> set (txn_dependency (sch (fst c)) ! i). j < n)"

definition inv_guard :: "nat \<Rightarrow> conf \<Rightarrow> bool" where
  "inv_guard threads c \<longleftrightarrow> num_active_tasks (sch (fst c)) = (\<Sum>t<threads. guards (snd c t))"

definition inv_own :: "nat \<Rightarrow> nat \<Rightarrow> conf \<Rightarrow> bool" where
  "inv_own threads n c \<longleftrightarrow> (\<forall>i < n. (\<Sum>t<threads. owns (snd c t) i) = has_owner (txn_status (sch (fst c)) ! i))"

definition inv_tok :: "nat \<Rightarrow> nat \<Rightarrow> conf \<Rightarrow> bool" where
  "inv_tok threads n c \<longleftrightarrow> (\<forall>j < n. (\<Sum>i<n. count_list (txn_dependency (sch (fst c)) ! i) j) +
     (\<Sum>t<threads. tokens (snd c t) j) = (if is_suspended (txn_status (sch (fst c)) ! j) then 1 else 0))"

definition inv_local :: "nat \<Rightarrow> conf \<Rightarrow> bool" where
  "inv_local threads c \<longleftrightarrow> (\<forall>t < threads. local_ok (txn_status (sch (fst c))) (resolved (fst c)) (snd c t))"

lemma try_incarnate_Some:
  "try_incarnate s i = (Some (inc, cv), s') \<longleftrightarrow>
     i < length (txn_status s) \<and> txn_status s ! i = ReadyToExecute inc cv \<and> s' = set_status s i (Executing inc)"
  using try_incarnate_cases[of s i] by auto

lemma try_incarnate_None:
  "try_incarnate s i = (None, s') \<longleftrightarrow>
     s' = s \<and> (\<nexists>inc cv. i < length (txn_status s) \<and> txn_status s ! i = ReadyToExecute inc cv)"
  using try_incarnate_cases[of s i] by auto

lemma take_dependencies_Some:
  "take_dependencies s i = Some (deps, s') \<longleftrightarrow> i < length (txn_dependency s) \<and> deps = txn_dependency s ! i \<and>
     s' = s\<lparr>txn_dependency := (txn_dependency s)[i := []]\<rparr>"
  by (auto simp: take_dependencies_def bind_eq_Some_conv)

lemma primitive_None:
  "guard_drop s = None \<longleftrightarrow> num_active_tasks s = 0"
  "suspend s i cv = None \<longleftrightarrow> \<not> (i < length (txn_status s) \<and> (\<exists>inc. txn_status s ! i = Executing inc))"
  "resume s i = None \<longleftrightarrow> \<not> (i < length (txn_status s) \<and> is_suspended (txn_status s ! i))"
  "set_executed_status s i inc = None \<longleftrightarrow> \<not> (i < length (txn_status s) \<and> txn_status s ! i = Executing inc)"
  "set_aborted_status s i inc = None \<longleftrightarrow> \<not> (i < length (txn_status s) \<and> txn_status s ! i = Aborting inc)"
  "try_abort s i inc = None \<longleftrightarrow> length (txn_status s) \<le> i"
  "take_dependencies s i = None \<longleftrightarrow> length (txn_dependency s) \<le> i"
  by (auto simp: guard_drop_def suspend_def resume_def set_executed_status_def set_aborted_status_def try_abort_def
      take_dependencies_def split: transaction_status.splits bind_splits if_splits)

lemmas step_simps = primitive_Some primitive_None try_incarnate_Some try_incarnate_None take_dependencies_Some

lemma no_panic_step:
  assumes step: "tstep sh (pcs t) sh' p'" and t: "t < threads"
    and len: "inv_len n (sh, pcs)" and guard: "inv_guard threads (sh, pcs)"
    and tok: "inv_tok threads n (sh, pcs)" and loc: "inv_local threads (sh, pcs)"
  shows "p' \<noteq> Panicked"
proof -
  have l: "local_ok (txn_status (sch sh)) (resolved sh) (pcs t)" using loc t by (simp add: inv_local_def)
  have g: "guards (pcs t) \<le> num_active_tasks (sch sh)"
    using sum_one_le[OF t, of guards pcs] guard by (simp add: inv_guard_def)
  have k: "is_suspended (txn_status (sch sh) ! d)" if "tokens (pcs t) d > 0" "d < n" for d
    using tok that sum_one_le[OF t, of "\<lambda>p. tokens p d" pcs] by (fastforce simp: inv_tok_def split: if_splits)
  show ?thesis
    using step l g len k
    by (cases rule: tstep.cases) (auto simp: step_simps inv_len_def split: if_splits option.splits)
qed

lemma len_step:
  assumes "tstep sh (pcs t) sh' p'" "inv_len n (sh, pcs)" "inv_local threads (sh, pcs)" "t < threads"
  shows "inv_len n (sh', pcs(t := p'))"
proof -
  have "local_ok (txn_status (sch sh)) (resolved sh) (pcs t)" using assms by (simp add: inv_local_def)
  with assms(1,2) show ?thesis
    by (cases rule: tstep.cases)
      (auto simp: inv_len_def step_simps push_dependency_def nth_upd split: if_splits, metis order.strict_trans)
qed

lemma guard_step:
  assumes "tstep sh (pcs t) sh' p'" "inv_guard threads (sh, pcs)" "t < threads" "p' \<noteq> Panicked"
  shows "inv_guard threads (sh', pcs(t := p'))"
  using assms(1,2,4) sum_step[OF assms(3), of guards pcs p']
  by (cases rule: tstep.cases)
    (auto simp: inv_guard_def step_simps push_dependency_def guard_new_def split: if_splits option.splits)


lemma own_step:
  assumes step: "tstep sh (pcs t) sh' p'" and t: "t < threads" and np: "p' \<noteq> Panicked"
    and len: "inv_len n (sh, pcs)" and own: "inv_own threads n (sh, pcs)" and loc: "inv_local threads (sh, pcs)"
  shows "inv_own threads n (sh', pcs(t := p'))"
proof -
  have l: "local_ok (txn_status (sch sh)) (resolved sh) (pcs t)" using loc t by (simp add: inv_local_def)
  have "(\<Sum>x<threads. owns ((pcs(t := p')) x) i) = has_owner (txn_status (sch sh') ! i)" if i: "i < n" for i
  proof -
    have o: "(\<Sum>x<threads. owns (pcs x) i) = has_owner (txn_status (sch sh) ! i)" using own i by (simp add: inv_own_def)
    note S = sum_step[OF t, of "\<lambda>p. owns p i" pcs p']
    from o S have "(\<Sum>x<threads. owns ((pcs(t := p')) x) i) + owns (pcs t) i = has_owner (txn_status (sch sh) ! i) + owns p' i"
      by simp
    moreover have "has_owner (txn_status (sch sh') ! i) + owns (pcs t) i = has_owner (txn_status (sch sh) ! i) + owns p' i"
      using step np l len i
      by (cases rule: tstep.cases)
        (auto simp: step_simps inv_len_def owns_def push_dependency_def guard_new_def nth_upd split: if_splits option.splits)
    ultimately show ?thesis by linarith
  qed
  then show ?thesis by (simp add: inv_own_def)
qed

lemma count_take:
  assumes "i < n" "length deps = n"
  shows "(\<Sum>l<n. count_list (deps[i := xs] ! l) j) + count_list (deps ! i) j =
         (\<Sum>l<n. count_list (deps ! l) j) + count_list xs (j :: nat)"
proof -
  have "(\<Sum>l<n. count_list (deps[i := xs] ! l) j) = count_list xs j + (\<Sum>l\<in>{..<n} - {i}. count_list (deps ! l) j)"
    using assms by (subst sum.remove[of _ i]) (auto intro!: sum.cong)
  moreover have "(\<Sum>l<n. count_list (deps ! l) j) = count_list (deps ! i) j + (\<Sum>l\<in>{..<n} - {i}. count_list (deps ! l) j)"
    using assms by (subst sum.remove[of _ i]) auto
  ultimately show ?thesis by simp
qed

lemma tok_step:
  assumes step: "tstep sh (pcs t) sh' p'" and t: "t < threads" and np: "p' \<noteq> Panicked"
    and len: "inv_len n (sh, pcs)" and tok: "inv_tok threads n (sh, pcs)" and loc: "inv_local threads (sh, pcs)"
  shows "inv_tok threads n (sh', pcs(t := p'))"
proof -
  let ?D = "\<lambda>sh j. \<Sum>i<n. count_list (txn_dependency (sch sh) ! i) j"
  let ?S = "\<lambda>sh j. if is_suspended (txn_status (sch sh) ! j) then 1 else 0"
  have l: "local_ok (txn_status (sch sh)) (resolved sh) (pcs t)" using loc t by (simp add: inv_local_def)
  have "?D sh' j + (\<Sum>x<threads. tokens ((pcs(t := p')) x) j) = ?S sh' j" if j: "j < n" for j
  proof -
    have o: "?D sh j + (\<Sum>x<threads. tokens (pcs x) j) = ?S sh j"
      using tok j by (simp add: inv_tok_def)
    have le: "tokens (pcs t) j \<le> ?S sh j"
      using o sum_one_le[OF t, of "\<lambda>p. tokens p j" pcs] by simp
    note S = sum_step[OF t, of "\<lambda>p. tokens p j" pcs p']
    have "?D sh' j + tokens p' j + ?S sh j = ?D sh j + tokens (pcs t) j + ?S sh' j"
      using step
    proof (cases rule: tstep.cases)
      case (wait_push v dep cv)
      then show ?thesis using l len count_take[of dep n "txn_dependency (sch sh)" "txn_dependency (sch sh) ! dep @ [fst v]" j]
        by (auto simp: push_dependency_def inv_len_def)
    next
      case (fin_take v deps s' b)
      then show ?thesis using len count_take[of "fst v" n "txn_dependency (sch sh)" "[]" j]
        by (auto simp: step_simps inv_len_def)
    qed (use np l len j le in \<open>auto simp: step_simps inv_len_def guard_new_def nth_upd split: if_splits option.splits\<close>)
    with o S show ?thesis by linarith
  qed
  then show ?thesis by (simp add: inv_tok_def)
qed


text \<open>The condition variables: fresh when created, used by one thread, and resolved only for a running version.\<close>

fun notifies :: "pc \<Rightarrow> (version \<times> condvar) option" where
  "notifies (Notify v cv) = Some (v, cv)"
| "notifies _ = None"

definition inv_fresh :: "nat \<Rightarrow> conf \<Rightarrow> bool" where
  "inv_fresh threads c \<longleftrightarrow> (\<forall>cv \<in> resolved (fst c). cv < next_cv (fst c)) \<and>
     (\<forall>t < threads. \<forall>cv. waits_on (snd c t) = Some cv \<longrightarrow> cv < next_cv (fst c)) \<and>
     (\<forall>t < threads. \<forall>v cv. notifies (snd c t) = Some (v, cv) \<longrightarrow> cv < next_cv (fst c))"

definition inv_unique :: "nat \<Rightarrow> conf \<Rightarrow> bool" where
  "inv_unique threads c \<longleftrightarrow> (\<forall>t < threads. \<forall>t' < threads. \<forall>cv.
     waits_on (snd c t) = Some cv \<longrightarrow> waits_on (snd c t') = Some cv \<longrightarrow> t = t')"

definition inv_notify :: "nat \<Rightarrow> conf \<Rightarrow> bool" where
  "inv_notify threads c \<longleftrightarrow> (\<forall>t < threads. \<forall>t' < threads. \<forall>v cv.
     notifies (snd c t) = Some (v, cv) \<longrightarrow> waits_on (snd c t') = Some cv \<longrightarrow>
     snd c t' = Blocked v cv \<and> txn_status (sch (fst c)) ! fst v = Executing (snd v))"

text \<open>No two threads own the same transaction, and none owns one whose status has no owner.\<close>

lemma unowned:
  assumes "inv_own threads n (sh, pcs)" "t' < threads" "i < n" "has_owner (txn_status (sch sh) ! i) = 0"
  shows "owns (pcs t') i = 0"
  using assms sum_one_le[OF assms(2), of "\<lambda>p. owns p i" pcs] by (simp add: inv_own_def)

lemma owned_once:
  assumes "inv_own threads n (sh, pcs)" "t < threads" "t' < threads" "t' \<noteq> t" "i < n" "owns (pcs t) i = 1"
  shows "owns (pcs t') i = 0"
proof -
  have "owns (pcs t') i + owns (pcs t) i \<le> has_owner (txn_status (sch sh) ! i)"
    using assms sum_two_le[OF assms(3,2,4), of "\<lambda>p. owns p i" pcs] by (simp add: inv_own_def)
  moreover have "has_owner st \<le> 1" for st by (cases st rule: has_owner.cases) auto
  ultimately show ?thesis using assms(6) by (metis add_le_same_cancel2 le_trans le_zero_eq)
qed

lemma token_once:
  assumes "inv_tok threads n (sh, pcs)" "t < threads" "t' < threads" "t' \<noteq> t" "i < n" "tokens (pcs t) i > 0"
  shows "tokens (pcs t') i = 0"
proof -
  have "tokens (pcs t') i + tokens (pcs t) i \<le> 1"
    using assms(1,5) sum_two_le[OF assms(3,2,4), of "\<lambda>p. tokens p i" pcs] by (fastforce simp: inv_tok_def split: if_splits)
  with assms(6) show ?thesis by linarith
qed

lemma local_ok_resolve: "local_ok sts rs p \<Longrightarrow> waits_on p \<noteq> Some cv \<Longrightarrow> local_ok sts (insert cv rs) p"
  by (cases p) auto

lemma cv_notified:
  assumes "inv_notify threads (sh, pcs)" "t < threads" "notifies (pcs t) = Some (v, cv)" "t' < threads"
  shows "waits_on (pcs t') = Some cv \<longrightarrow> pcs t' = Blocked v cv \<and> txn_status (sch sh) ! fst v = Executing (snd v)"
  using assms unfolding inv_notify_def fst_conv snd_conv by blast

lemma local_step:
  assumes step: "tstep sh (pcs t) sh' p'" and t: "t < threads" and np: "p' \<noteq> Panicked"
    and len: "inv_len n (sh, pcs)" and own: "inv_own threads n (sh, pcs)" and tok: "inv_tok threads n (sh, pcs)"
    and loc: "inv_local threads (sh, pcs)" and cv: "inv_notify threads (sh, pcs)" and fr: "inv_fresh threads (sh, pcs)"
  shows "inv_local threads (sh', pcs(t := p'))"
proof -
  have L: "\<And>x. x < threads \<Longrightarrow> local_ok (txn_status (sch sh)) (resolved sh) (pcs x)" using loc by (simp add: inv_local_def)
  note l = L[OF t]
  have self: "local_ok (txn_status (sch sh')) (resolved sh') p'"
    using step np l len fr
    by (cases rule: tstep.cases)
      (auto simp: step_simps inv_len_def push_dependency_def guard_new_def nth_upd is_executed_def inv_fresh_def
        split: if_splits option.splits transaction_status.splits)
  have others: "local_ok (txn_status (sch sh')) (resolved sh') (pcs x)" if x: "x < threads" "x \<noteq> t" for x
    using step
  proof (cases rule: tstep.cases)
    case (inc_run i inc s')
    then show ?thesis using local_ok_incarnate[OF L[OF x(1)]] by (auto simp: step_simps)
  next
    case (inc_notify i inc cv s')
    then show ?thesis using local_ok_incarnate[OF L[OF x(1)]] by (auto simp: step_simps)
  next
    case (notify v cv')
    then have N: "waits_on (pcs x) = Some cv' \<longrightarrow>
        pcs x = Blocked v cv' \<and> txn_status (sch sh) ! fst v = Executing (snd v)"
      using cv_notified[OF cv t, of v cv' x] x(1) by simp
    show ?thesis
    proof (cases "waits_on (pcs x) = Some cv'")
      case True
      with N notify L[OF x(1)] show ?thesis by simp
    next
      case False
      with notify local_ok_resolve[OF L[OF x(1)]] show ?thesis by simp
    qed
  next
    case (wait_suspend v cv s' dep)
    have "owns (pcs x) (fst v) = 0"
      using wait_suspend l len owned_once[OF own t x(1,2)] by (auto simp: inv_len_def owns_def)
    with wait_suspend local_ok_update[OF L[OF x(1)]] show ?thesis by (auto simp: step_simps)
  next
    case (fin_set v s' b)
    have "owns (pcs x) (fst v) = 0"
      using fin_set l len owned_once[OF own t x(1,2)] by (auto simp: inv_len_def owns_def)
    with fin_set local_ok_update[OF L[OF x(1)]] show ?thesis by (auto simp: step_simps)
  next
    case (abort_set v s')
    have "owns (pcs x) (fst v) = 0"
      using abort_set l len owned_once[OF own t x(1,2)] by (auto simp: inv_len_def owns_def)
    with abort_set local_ok_update[OF L[OF x(1)]] show ?thesis by (auto simp: step_simps)
  next
    case (fin_resume d s' v b ds m)
    have "tokens (pcs x) d = 0"
      using fin_resume l len token_once[OF tok t x(1,2), of d] by (auto simp: inv_len_def)
    with fin_resume local_ok_resume[OF L[OF x(1)]] show ?thesis by (auto simp: step_simps)
  next
    case (invalid v aborted s')
    have "txn_status (sch sh) ! fst v = Executed (snd v) \<Longrightarrow> owns (pcs x) (fst v) = 0"
      using invalid l len unowned[OF own x(1), of "fst v"] by (auto simp: inv_len_def)
    with invalid L[OF x(1)] local_ok_update[OF L[OF x(1)]] show ?thesis by (auto simp: step_simps)
  qed (use L[OF x(1)] in \<open>auto simp: step_simps push_dependency_def guard_new_def\<close>)
  from self others show ?thesis by (simp add: inv_local_def)
qed


lemma owner_exists:
  assumes "inv_own threads n (sh, pcs)" "i < n" "has_owner (txn_status (sch sh) ! i) = 1"
  shows "\<exists>t < threads. \<exists>v. owned_version (pcs t) = Some v \<and> fst v = i"
proof -
  have "(\<Sum>t<threads. owns (pcs t) i) \<noteq> 0" using assms by (simp add: inv_own_def)
  then obtain t where "t < threads" "owns (pcs t) i \<noteq> 0" by (meson lessThan_iff sum.not_neutral_contains_not_neutral)
  then show ?thesis by (auto simp: owns_def split: if_splits)
qed

lemma resumed_is_blocked:
  assumes own: "inv_own threads n (sh, pcs)" and loc: "inv_local threads (sh, pcs)"
    and i: "i < n" "txn_status (sch sh) ! i = ReadyToExecute inc (Some cv)"
  shows "\<exists>t < threads. pcs t = Blocked (i, inc) cv"
proof -
  from owner_exists[OF own i(1)] i(2) obtain t v where t: "t < threads" "owned_version (pcs t) = Some v" "fst v = i" by auto
  have "local_ok (txn_status (sch sh)) (resolved sh) (pcs t)" using loc t(1) by (simp add: inv_local_def)
  with t i(2) show ?thesis by (cases "pcs t"; cases v) auto
qed

lemma executing_kept:
  assumes step: "tstep sh p sh' p'" and l: "local_ok (txn_status (sch sh)) (resolved sh) p"
    and k: "txn_status (sch sh) ! k = Executing inc" "owns p k = 0"
  shows "txn_status (sch sh') ! k = Executing inc"
  using step l k
  by (cases rule: tstep.cases) (auto simp: step_simps push_dependency_def guard_new_def nth_upd owns_def split: if_splits)

lemma waits_on_step:
  "tstep sh p sh' p' \<Longrightarrow> waits_on p' = waits_on p \<or> waits_on p' = None \<or>
     waits_on p' = Some (next_cv sh) \<and> next_cv sh' = Suc (next_cv sh) \<and> resolved sh' = resolved sh"
  by (cases rule: tstep.cases) (auto split: if_splits option.splits)

lemma next_cv_mono: "tstep sh p sh' p' \<Longrightarrow> next_cv sh \<le> next_cv sh'"
  by (cases rule: tstep.cases) auto

lemma notifies_step:
  "tstep sh p sh' p' \<Longrightarrow> notifies p' = Some (v, cv) \<Longrightarrow>
   fst v < length (txn_status (sch sh)) \<and> txn_status (sch sh) ! fst v = ReadyToExecute (snd v) (Some cv) \<and>
   txn_status (sch sh') ! fst v = Executing (snd v)"
  by (cases rule: tstep.cases) (auto simp: step_simps nth_upd split: if_splits option.splits)

lemma resolved_step: "tstep sh p sh' p' \<Longrightarrow> cv \<in> resolved sh' \<Longrightarrow> cv \<in> resolved sh \<or> (\<exists>v. notifies p = Some (v, cv))"
  by (cases rule: tstep.cases) auto

lemma fresh_step:
  assumes step: "tstep sh (pcs t) sh' p'" and t: "t < threads"
    and len: "inv_len n (sh, pcs)" and own: "inv_own threads n (sh, pcs)"
    and loc: "inv_local threads (sh, pcs)" and fr: "inv_fresh threads (sh, pcs)"
  shows "inv_fresh threads (sh', pcs(t := p'))"
proof -
  note F = fr[unfolded inv_fresh_def fst_conv snd_conv] and mono = next_cv_mono[OF step]
  have "cv < next_cv sh'" if "cv \<in> resolved sh'" for cv
    using resolved_step[OF step that] F t mono by (meson less_le_trans)
  moreover have "cv < next_cv sh'" if "x < threads" "waits_on ((pcs(t := p')) x) = Some cv" for x cv
  proof -
    have "cv < next_cv sh \<or> cv = next_cv sh \<and> next_cv sh' = Suc (next_cv sh)"
      using waits_on_step[OF step] F t that by (cases "x = t") auto
    with mono show ?thesis by linarith
  qed
  moreover have "cv < next_cv sh'" if x: "x < threads" "notifies ((pcs(t := p')) x) = Some (v, cv)" for x v cv
  proof (cases "x = t")
    case True
    with x notifies_step[OF step] len resumed_is_blocked[OF own loc, of "fst v" "snd v" cv]
    obtain y where "y < threads" "pcs y = Blocked v cv" by (auto simp: inv_len_def)
    with F have "cv < next_cv sh" by (metis waits_on.simps(5))
    with mono show ?thesis by linarith
  next
    case False
    with x fr have "cv < next_cv sh" unfolding inv_fresh_def fst_conv snd_conv by (metis fun_upd_other)
    with mono show ?thesis by linarith
  qed
  ultimately show ?thesis by (auto simp: inv_fresh_def)
qed

lemma unique_step:
  assumes step: "tstep sh (pcs t) sh' p'" and t: "t < threads"
    and fr: "inv_fresh threads (sh, pcs)" and un: "inv_unique threads (sh, pcs)"
  shows "inv_unique threads (sh', pcs(t := p'))"
proof -
  have W: "cv < next_cv sh" if "x < threads" "waits_on (pcs x) = Some cv" for x cv
    using fr that by (simp add: inv_fresh_def)
  have U: "x = y" if "x < threads" "y < threads" "waits_on (pcs x) = Some cv" "waits_on (pcs y) = Some cv" for x y cv
    using un that unfolding inv_unique_def by simp
  have K: "x = t" if "x < threads" "waits_on (pcs x) = Some cv" "waits_on p' = Some cv" for x cv
    using waits_on_step[OF step] that W[OF that(1,2)] U[OF that(1) t that(2)] by auto
  have "x = y" if "x < threads" "y < threads" "waits_on ((pcs(t := p')) x) = Some cv"
      "waits_on ((pcs(t := p')) y) = Some cv" for x y cv
    using that K U by (metis fun_upd_other fun_upd_same)
  then show ?thesis unfolding inv_unique_def fst_conv snd_conv by (intro allI impI)
qed

lemma notify_step:
  assumes step: "tstep sh (pcs t) sh' p'" and t: "t < threads"
    and len: "inv_len n (sh, pcs)" and own: "inv_own threads n (sh, pcs)" and loc: "inv_local threads (sh, pcs)"
    and fr: "inv_fresh threads (sh, pcs)" and un: "inv_unique threads (sh, pcs)" and no: "inv_notify threads (sh, pcs)"
  shows "inv_notify threads (sh', pcs(t := p'))"
proof -
  have L: "local_ok (txn_status (sch sh)) (resolved sh) (pcs t)" using loc t by (simp add: inv_local_def)
  have U: "x = y" if "x < threads" "y < threads" "waits_on (pcs x) = Some cv" "waits_on (pcs y) = Some cv" for x y cv
    using un that unfolding inv_unique_def by simp
  have "(pcs(t := p')) y = Blocked v cv \<and> txn_status (sch sh') ! fst v = Executing (snd v)"
    if x: "x < threads" "notifies ((pcs(t := p')) x) = Some (v, cv)"
      and y: "y < threads" "waits_on ((pcs(t := p')) y) = Some cv" for x y v cv
  proof (cases "x = t")
    case True
    note N = notifies_step[OF step, of v cv]
    from True x N len resumed_is_blocked[OF own loc, of "fst v" "snd v" cv]
    obtain z where z: "z < threads" "pcs z = Blocked v cv" by (auto simp: inv_len_def)
    have "waits_on p' = None" using True x by (cases p') auto
    with y U[OF y(1) z(1), of cv] z have "y = z" "y \<noteq> t" by (auto split: if_splits)
    with z N True x show ?thesis by auto
  next
    case False
    with x have nx: "notifies (pcs x) = Some (v, cv)" by simp
    have cv: "cv < next_cv sh" using fr x(1) nx by (auto simp: inv_fresh_def)
    have "waits_on (pcs y) = Some cv"
      using y waits_on_step[OF step] cv by (cases "y = t") auto
    with cv_notified[OF no x(1) nx y(1)] have b: "pcs y = Blocked v cv" "txn_status (sch sh) ! fst v = Executing (snd v)"
      by auto
    have "y \<noteq> t"
    proof
      assume "y = t"
      with b step have "p' = Run v" by (auto elim: tstep.cases)
      with \<open>y = t\<close> y show False by simp
    qed
    moreover have "owns (pcs t) (fst v) = 0"
    proof (rule owned_once[OF own y(1) t])
      show "fst v < n" using loc y(1) b(1) len by (fastforce simp: inv_local_def inv_len_def)
    qed (use \<open>y \<noteq> t\<close> b in \<open>auto simp: owns_def\<close>)
    ultimately show ?thesis using b executing_kept[OF step L b(2)] by simp
  qed
  then show ?thesis unfolding inv_notify_def by simp
qed


subsection \<open>Mutexes and wake-ups\<close>

definition inv_lock :: "nat \<Rightarrow> conf \<Rightarrow> bool" where
  "inv_lock threads c \<longleftrightarrow> (\<forall>i. (\<Sum>t<threads. holds_lock (snd c t) i) = (if i \<in> locked (fst c) then 1 else 0))"

lemma lock_step:
  assumes step: "tstep sh (pcs t) sh' p'" and t: "t < threads" and np: "p' \<noteq> Panicked"
    and lock: "inv_lock threads (sh, pcs)"
  shows "inv_lock threads (sh', pcs(t := p'))"
proof -
  have "(\<Sum>x<threads. holds_lock ((pcs(t := p')) x) i) = (if i \<in> locked sh' then 1 else 0)" for i
  proof -
    have o: "(\<Sum>x<threads. holds_lock (pcs x) i) = (if i \<in> locked sh then 1 else 0)" using lock by (simp add: inv_lock_def)
    have le: "holds_lock (pcs t) i \<le> (if i \<in> locked sh then 1 else 0)"
      using o sum_one_le[OF t, of "\<lambda>p. holds_lock p i" pcs] by simp
    note S = sum_step[OF t, of "\<lambda>p. holds_lock p i" pcs p']
    have "(if i \<in> locked sh' then 1 else 0) + holds_lock (pcs t) i = (if i \<in> locked sh then 1 else 0) + holds_lock p' i"
      using step np le
      by (cases rule: tstep.cases) (auto split: if_splits option.splits)
    with o S show ?thesis by linarith
  qed
  then show ?thesis by (simp add: inv_lock_def)
qed

text \<open>A thread that will list a transaction below \<open>i\<close>, and one that will take \<open>i\<close>'s list.\<close>

fun lists_under :: "pc \<Rightarrow> txn_index \<Rightarrow> bool" where
  "lists_under (WaitSuspend _ dep _) i = (dep = i)"
| "lists_under (WaitPush _ dep _) i = (dep = i)"
| "lists_under _ i = False"

fun takes_list :: "pc \<Rightarrow> txn_index \<Rightarrow> bool" where
  "takes_list (FinTake v _) i = (fst v = i)"
| "takes_list _ i = False"

definition inv_wake :: "nat \<Rightarrow> nat \<Rightarrow> conf \<Rightarrow> bool" where
  "inv_wake threads n c \<longleftrightarrow> (\<forall>i < n. txn_dependency (sch (fst c)) ! i \<noteq> [] \<or> (\<exists>t < threads. lists_under (snd c t) i) \<longrightarrow>
     \<not> is_executed_status (txn_status (sch (fst c)) ! i) \<or> (\<exists>t < threads. takes_list (snd c t) i))"

lemma wake_local:
  assumes "tstep sh p sh' p'" "\<not> takes_list p i" "i < length (txn_status (sch sh))"
    "length (txn_dependency (sch sh)) = length (txn_status (sch sh))"
    "is_executed_status (txn_status (sch sh') ! i)" "\<not> takes_list p' i"
  shows "is_executed_status (txn_status (sch sh) ! i) \<and>
     (txn_dependency (sch sh') ! i \<noteq> [] \<longrightarrow> txn_dependency (sch sh) ! i \<noteq> [] \<or> lists_under p i) \<and>
     (lists_under p' i \<longrightarrow> lists_under p i)"
  using assms
  by (cases rule: tstep.cases)
    (auto simp: step_simps is_executed_eq_None push_dependency_def guard_new_def nth_upd
      split: if_splits option.splits)

lemma wake_step:
  assumes step: "tstep sh (pcs t) sh' p'" and t: "t < threads" and len: "inv_len n (sh, pcs)"
    and lock: "inv_lock threads (sh, pcs)" and wake: "inv_wake threads n (sh, pcs)"
  shows "inv_wake threads n (sh', pcs(t := p'))"
proof -
  have free: "\<not> lists_under (pcs x) i" if "x < threads" "i \<notin> locked sh" for x i
  proof -
    have "holds_lock (pcs x) i = 0"
      using lock that sum_one_le[OF that(1), of "\<lambda>p. holds_lock p i" pcs] by (simp add: inv_lock_def)
    then show ?thesis by (cases "pcs x") auto
  qed
  have "\<exists>x < threads. takes_list ((pcs(t := p')) x) i"
    if i: "i < n" and c: "txn_dependency (sch sh') ! i \<noteq> [] \<or> (\<exists>x < threads. lists_under ((pcs(t := p')) x) i)"
      and e: "is_executed_status (txn_status (sch sh') ! i)" for i
  proof (rule ccontr)
    assume none: "\<not> (\<exists>x < threads. takes_list ((pcs(t := p')) x) i)"
    then have np': "\<not> takes_list p' i" using t by auto
    show False
    proof (cases "takes_list (pcs t) i")
      case True
      then obtain v b where v: "pcs t = FinTake v b" "fst v = i" by (cases "pcs t") auto
      have "txn_dependency (sch sh') ! i = [] \<and> i \<notin> locked sh \<and> \<not> lists_under p' i"
        using step v len i by (cases rule: tstep.cases) (auto simp: step_simps inv_len_def)
      with c free[of _ i] t show False by (auto split: if_splits)
    next
      case False
      note W = wake_local[OF step False _ _ e np']
      have l: "i < length (txn_status (sch sh))" "length (txn_dependency (sch sh)) = length (txn_status (sch sh))"
        using len i by (auto simp: inv_len_def)
      have "txn_dependency (sch sh) ! i \<noteq> [] \<or> (\<exists>x < threads. lists_under (pcs x) i)"
        using c W[OF l] t by (auto split: if_splits)
      with wake i W[OF l] obtain x where "x < threads" "takes_list (pcs x) i" by (auto simp: inv_wake_def)
      with False none show False by (auto split: if_splits)
    qed
  qed
  then show ?thesis unfolding inv_wake_def by auto
qed

text \<open>Transactions are listed under lower ones.\<close>

definition inv_lower :: "nat \<Rightarrow> conf \<Rightarrow> bool" where
  "inv_lower n c \<longleftrightarrow> (\<forall>i < n. \<forall>j \<in> set (txn_dependency (sch (fst c)) ! i). i < j)"

lemma lower_local:
  assumes "tstep sh p sh' p'" "local_ok (txn_status (sch sh)) (resolved sh) p" "i < length (txn_dependency (sch sh))"
    "j \<in> set (txn_dependency (sch sh') ! i)"
  shows "j \<in> set (txn_dependency (sch sh) ! i) \<or> i < j"
  using assms
  by (cases rule: tstep.cases)
    (auto simp: step_simps push_dependency_def guard_new_def nth_upd split: if_splits option.splits)

lemma lower_step:
  assumes step: "tstep sh (pcs t) sh' p'" and t: "t < threads" and len: "inv_len n (sh, pcs)"
    and loc: "inv_local threads (sh, pcs)" and low: "inv_lower n (sh, pcs)"
  shows "inv_lower n (sh', pcs(t := p'))"
proof -
  have "local_ok (txn_status (sch sh)) (resolved sh) (pcs t)" using loc t by (simp add: inv_local_def)
  note lower_local[OF step this]
  with len low show ?thesis unfolding inv_lower_def inv_len_def fst_conv by metis
qed

subsection \<open>Ready transactions are not forgotten\<close>

fun is_ready :: "transaction_status \<Rightarrow> bool" where
  "is_ready (ReadyToExecute _ _) = True"
| "is_ready _ = False"

definition inv_ready :: "nat \<Rightarrow> nat \<Rightarrow> conf \<Rightarrow> bool" where
  "inv_ready threads n c \<longleftrightarrow> (\<forall>i < n. is_ready (txn_status (sch (fst c)) ! i) \<longrightarrow>
     execution_idx (sch (fst c)) \<le> i \<or> (\<exists>t < threads. responsible (snd c t) i))"

lemma min_acc_le: "min_acc m d \<le> d" "min_acc (Some k) d \<le> k"
  by (cases m; simp)+

lemma ready_local:
  assumes "tstep sh p sh' p'" "p' \<noteq> Panicked" "i < length (txn_status (sch sh))" "is_ready (txn_status (sch sh') ! i)"
    "is_ready (txn_status (sch sh) ! i) \<longrightarrow> execution_idx (sch sh) \<le> i \<or> responsible p i"
  shows "execution_idx (sch sh') \<le> i \<or> responsible p' i"
  using assms min_acc_le
  by (cases rule: tstep.cases)
    (auto simp: step_simps push_dependency_def guard_new_def nth_upd intro: order.trans split: if_splits option.splits
      elim!: is_ready.elims responsible.elims)


lemma ready_step:
  assumes step: "tstep sh (pcs t) sh' p'" and t: "t < threads" and np: "p' \<noteq> Panicked"
    and len: "inv_len n (sh, pcs)" and ready: "inv_ready threads n (sh, pcs)"
  shows "inv_ready threads n (sh', pcs(t := p'))"
proof -
  have "execution_idx (sch sh') \<le> i \<or> (\<exists>x < threads. responsible ((pcs(t := p')) x) i)"
    if i: "i < n" "is_ready (txn_status (sch sh') ! i)" for i
  proof (cases "\<exists>x < threads. x \<noteq> t \<and> responsible (pcs x) i")
    case True
    then show ?thesis by auto
  next
    case False
    with ready i have "is_ready (txn_status (sch sh) ! i) \<longrightarrow> execution_idx (sch sh) \<le> i \<or> responsible (pcs t) i"
      by (auto simp: inv_ready_def)
    with ready_local[OF step np _ i(2)] i(1) len have "execution_idx (sch sh') \<le> i \<or> responsible p' i"
      by (simp add: inv_len_def)
    with t show ?thesis by auto
  qed
  then show ?thesis by (simp add: inv_ready_def)
qed

subsection \<open>Detecting completion\<close>

definition quiet :: "nat \<Rightarrow> nat \<Rightarrow> conf \<Rightarrow> bool" where
  "quiet threads n c \<longleftrightarrow> n \<le> validation_idx (sch (fst c)) \<and> n \<le> execution_idx (sch (fst c)) \<and>
     (\<forall>i < n. is_executed_status (txn_status (sch (fst c)) ! i)) \<and> (\<forall>t < threads. harmless n (snd c t))"

lemma quiet_step:
  assumes step: "tstep sh (pcs t) sh' p'" and t: "t < threads" and len: "inv_len n (sh, pcs)"
    and np: "p' \<noteq> Panicked" and q: "quiet threads n (sh, pcs)"
  shows "quiet threads n (sh', pcs(t := p'))"
proof -
  have h: "harmless n (pcs t)" using q t by (simp add: quiet_def)
  have "n \<le> validation_idx (sch sh') \<and> n \<le> execution_idx (sch sh') \<and> txn_status (sch sh') = txn_status (sch sh) \<and>
      harmless n p'"
    using step h len np q
    by (cases rule: tstep.cases)
      (auto simp: step_simps quiet_def inv_len_def guard_new_def is_executed_def split: if_splits option.splits)
  with q show ?thesis by (auto simp: quiet_def)
qed

definition pending :: "nat \<Rightarrow> (nat \<Rightarrow> pc) \<Rightarrow> bool" where
  "pending threads pcs \<longleftrightarrow> (\<exists>t < threads. pending_cnt (pcs t))"

text \<open>Having seen an index at the end, it still is, unless the counter tells.\<close>

definition still :: "nat \<Rightarrow> conf \<Rightarrow> nat \<Rightarrow> bool \<Rightarrow> bool" where
  "still threads c cnt seen \<longleftrightarrow> seen \<or> cnt < decrease_cnt (sch (fst c)) \<or> pending threads (snd c)"

lemma still_True [simp]: "still threads c k True"
  by (simp add: still_def)

fun cd_ok :: "nat \<Rightarrow> nat \<Rightarrow> conf \<Rightarrow> pc \<Rightarrow> bool" where
  "cd_ok threads n c (Cd1 k) \<longleftrightarrow> k \<le> decrease_cnt (sch (fst c))"
| "cd_ok threads n c (Cd2 k v) \<longleftrightarrow> k \<le> decrease_cnt (sch (fst c)) \<and>
     (n \<le> v \<longrightarrow> still threads c k (n \<le> validation_idx (sch (fst c))))"
| "cd_ok threads n c (Cd3 k v e) \<longleftrightarrow> k \<le> decrease_cnt (sch (fst c)) \<and>
     (n \<le> v \<longrightarrow> still threads c k (n \<le> validation_idx (sch (fst c)))) \<and>
     (n \<le> e \<longrightarrow> still threads c k (n \<le> execution_idx (sch (fst c))))"
| "cd_ok threads n c (Cd4 k) \<longleftrightarrow> k \<le> decrease_cnt (sch (fst c)) \<and> (k < decrease_cnt (sch (fst c)) \<or> quiet threads n c)"
| "cd_ok threads n c Cd5 \<longleftrightarrow> quiet threads n c"
| "cd_ok threads n c p \<longleftrightarrow> True"

definition inv_done :: "nat \<Rightarrow> nat \<Rightarrow> conf \<Rightarrow> bool" where
  "inv_done threads n c \<longleftrightarrow> (done_marker (sch (fst c)) \<longrightarrow> quiet threads n c) \<and> (\<forall>t < threads. cd_ok threads n c (snd c t))"

lemma decrease_local:
  "tstep sh p sh' p' \<Longrightarrow> (validation_idx (sch sh') < validation_idx (sch sh) \<longrightarrow> pending_cnt p') \<and>
     (execution_idx (sch sh') < execution_idx (sch sh) \<longrightarrow> pending_cnt p') \<and>
     decrease_cnt (sch sh) \<le> decrease_cnt (sch sh') \<and>
     (pending_cnt p \<longrightarrow> decrease_cnt (sch sh') = Suc (decrease_cnt (sch sh)))"
  by (cases rule: tstep.cases)
    (auto simp: step_simps push_dependency_def guard_new_def split: if_splits option.splits)

lemma still_step:
  assumes step: "tstep sh (pcs t) sh' p'" and t: "t < threads" and k: "k \<le> decrease_cnt (sch sh)"
  shows "still threads (sh, pcs) k (n \<le> validation_idx (sch sh)) \<Longrightarrow>
           still threads (sh', pcs(t := p')) k (n \<le> validation_idx (sch sh'))"
    and "still threads (sh, pcs) k (n \<le> execution_idx (sch sh)) \<Longrightarrow>
           still threads (sh', pcs(t := p')) k (n \<le> execution_idx (sch sh'))"
proof -
  note D = decrease_local[OF step]
  have P: "pending threads (pcs(t := p')) \<or> k < decrease_cnt (sch sh')" if "pending threads pcs"
  proof -
    from that obtain x where x: "x < threads" "pending_cnt (pcs x)" by (auto simp: pending_def)
    show ?thesis
    proof (cases "x = t")
      case True
      with x D k show ?thesis by auto
    next
      case False
      with x show ?thesis by (auto simp: pending_def)
    qed
  qed
  have Q: "pending threads (pcs(t := p'))" if "pending_cnt p'" using that t by (auto simp: pending_def)
  show "still threads (sh', pcs(t := p')) k (n \<le> validation_idx (sch sh'))"
    if "still threads (sh, pcs) k (n \<le> validation_idx (sch sh))"
    using that D P Q by (auto simp: still_def)
  show "still threads (sh', pcs(t := p')) k (n \<le> execution_idx (sch sh'))"
    if "still threads (sh, pcs) k (n \<le> execution_idx (sch sh))"
    using that D P Q by (auto simp: still_def)
qed

lemma cd_ok_step_other:
  assumes step: "tstep sh (pcs t) sh' p'" and t: "t < threads" and len: "inv_len n (sh, pcs)" and np: "p' \<noteq> Panicked"
    and "cd_ok threads n (sh, pcs) p"
  shows "cd_ok threads n (sh', pcs(t := p')) p"
proof -
  have le: "decrease_cnt (sch sh) \<le> decrease_cnt (sch sh')" using decrease_local[OF step] by blast
  note Q = quiet_step[OF step t len np]
  show ?thesis using assms(5) le Q still_step[where n = n and pcs = pcs and t = t and threads = threads, OF step t]
    by (cases p) (auto simp del: fun_upd_apply)
qed

text \<open>With no guard held, nothing is under way.\<close>

lemma owner_guard: "owned_version p = Some v \<Longrightarrow> guards p = 1"
  by (cases p) auto

lemma responsible_guard: "responsible p i \<Longrightarrow> guards p = 1"
  by (cases p) auto

lemma pending_guard: "pending_cnt p \<Longrightarrow> guards p = 1"
  by (cases p) auto

lemma harmless_idle: "guards p = 0 \<Longrightarrow> p \<noteq> Panicked \<Longrightarrow> harmless n p"
  by (cases p) auto

lemma idle_quiet:
  assumes guard: "inv_guard threads (sh, pcs)" and zero: "num_active_tasks (sch sh) = 0"
    and own: "inv_own threads n (sh, pcs)" and loc: "inv_local threads (sh, pcs)" and ready: "inv_ready threads n (sh, pcs)"
    and idx: "n \<le> validation_idx (sch sh)" "n \<le> execution_idx (sch sh)"
  shows "quiet threads n (sh, pcs)"
proof -
  have g: "guards (pcs t) = 0" if "t < threads" for t
    using guard zero that by (simp add: inv_guard_def)
  have "is_executed_status (txn_status (sch sh) ! i)" if i: "i < n" for i
  proof (rule ccontr)
    assume ne: "\<not> is_executed_status (txn_status (sch sh) ! i)"
    show False
    proof (cases "has_owner (txn_status (sch sh) ! i) = 1")
      case True
      from owner_exists[OF own i True] owner_guard g show False by fastforce
    next
      case False
      with ne have "is_ready (txn_status (sch sh) ! i)"
        by (cases "txn_status (sch sh) ! i" rule: has_owner.cases) auto
      with ready i idx(2) obtain t where "t < threads" "responsible (pcs t) i" by (auto simp: inv_ready_def)
      with responsible_guard g show False by fastforce
    qed
  qed
  moreover have "harmless n (pcs t)" if "t < threads" for t
    using harmless_idle[OF g[OF that]] loc that by (force simp: inv_local_def)
  ultimately show ?thesis using idx by (simp add: quiet_def)
qed

lemma done_step:
  assumes step: "tstep sh (pcs t) sh' p'" and t: "t < threads" and np: "p' \<noteq> Panicked" and len: "inv_len n (sh, pcs)"
    and guard: "inv_guard threads (sh, pcs)" and own: "inv_own threads n (sh, pcs)" and loc: "inv_local threads (sh, pcs)"
    and ready: "inv_ready threads n (sh, pcs)" and dn: "inv_done threads n (sh, pcs)"
  shows "inv_done threads n (sh', pcs(t := p'))"
proof -
  have old: "cd_ok threads n (sh, pcs) (pcs x)" if "x < threads" for x using dn that by (simp add: inv_done_def)
  note Q = quiet_step[OF step t len np]
  have nopend: "\<not> pending threads pcs" if "num_active_tasks (sch sh) = 0"
    using guard that pending_guard by (force simp: inv_guard_def pending_def)
  have self: "cd_ok threads n (sh', pcs(t := p')) p'"
    using step
  proof (cases rule: tstep.cases)
    case (cd_tasks c v e)
    show ?thesis
    proof (cases "min e v < n \<or> num_active_tasks (sch sh) > 0")
      case True
      with cd_tasks len show ?thesis by (simp add: inv_len_def)
    next
      case False
      have "c \<le> decrease_cnt (sch sh)" "c < decrease_cnt (sch sh) \<or> n \<le> validation_idx (sch sh) \<and> n \<le> execution_idx (sch sh)"
        using old[OF t] cd_tasks False nopend by (auto simp: still_def)
      with False idle_quiet[OF guard _ own loc ready] Q cd_tasks len show ?thesis
        by (auto simp: inv_len_def simp del: fun_upd_apply)
    qed
  next
    case (cd_exec c v)
    have "k \<le> decrease_cnt (sch sh) \<Longrightarrow> still threads (sh, pcs) k (n \<le> validation_idx (sch sh)) \<Longrightarrow>
        still threads (sh', pcs(t := p')) k (n \<le> validation_idx (sch sh'))" for k
      by (rule still_step(1)[where pcs = pcs and t = t, OF step t])
    with cd_exec old[OF t] show ?thesis by (auto simp del: fun_upd_apply)
  next
    case (cd_recheck c)
    with old[OF t] Q show ?thesis by (auto simp del: fun_upd_apply)
  qed (use old[OF t] in \<open>auto simp: still_def split: if_splits option.splits\<close>)
  have dm: "done_marker (sch sh) \<or> pcs t = Cd5" if "done_marker (sch sh')"
    using step that by (cases rule: tstep.cases) (auto simp: step_simps push_dependency_def guard_new_def split: if_splits)
  have "quiet threads n (sh', pcs(t := p'))" if "done_marker (sch sh')"
    using dm[OF that] Q dn old[OF t] by (auto simp: inv_done_def simp del: fun_upd_apply)
  moreover have "cd_ok threads n (sh', pcs(t := p')) ((pcs(t := p')) x)" if "x < threads" for x
    using self cd_ok_step_other[OF step t len np old[OF that]] by (cases "x = t") simp_all
  ultimately show ?thesis by (simp add: inv_done_def)
qed

section \<open>Every reachable configuration\<close>

definition inv_all :: "nat \<Rightarrow> nat \<Rightarrow> conf \<Rightarrow> bool" where
  "inv_all threads n c \<longleftrightarrow> inv_len n c \<and> inv_guard threads c \<and> inv_own threads n c \<and> inv_tok threads n c \<and>
     inv_local threads c \<and> inv_fresh threads c \<and> inv_unique threads c \<and> inv_notify threads c \<and> inv_lock threads c \<and>
     inv_wake threads n c \<and> inv_ready threads n c \<and> inv_done threads n c \<and> inv_lower n c"

lemma inv_start:
  "inv_all threads n
    (\<lparr>sch = scheduler_new n, locked = {}, resolved = {}, next_cv = 0\<rparr>, \<lambda>t. if t < threads then Loop else Stopped)"
  by (auto simp: inv_all_def inv_len_def inv_guard_def inv_own_def inv_tok_def inv_local_def inv_fresh_def inv_unique_def
      inv_notify_def inv_lock_def inv_wake_def inv_ready_def inv_done_def inv_lower_def scheduler_new_def owns_def)

lemma inv_step:
  assumes "inv_all threads n (sh, pcs)" "t < threads" "tstep sh (pcs t) sh' p'"
  shows "inv_all threads n (sh', pcs(t := p')) \<and> p' \<noteq> Panicked"
proof -
  have i: "inv_len n (sh, pcs)" "inv_guard threads (sh, pcs)" "inv_own threads n (sh, pcs)" "inv_tok threads n (sh, pcs)"
    "inv_local threads (sh, pcs)" "inv_fresh threads (sh, pcs)" "inv_unique threads (sh, pcs)" "inv_notify threads (sh, pcs)"
    "inv_lock threads (sh, pcs)" "inv_wake threads n (sh, pcs)" "inv_ready threads n (sh, pcs)" "inv_done threads n (sh, pcs)"
    "inv_lower n (sh, pcs)"
    using assms(1) by (simp_all add: inv_all_def)
  note st = assms(3,2)
  note np = no_panic_step[OF st i(1,2,4,5)]
  show ?thesis
    unfolding inv_all_def
    using np len_step[OF assms(3) i(1,5) assms(2)] guard_step[OF assms(3) i(2) assms(2) np] own_step[OF st np i(1,3,5)]
      tok_step[OF st np i(1,4,5)] local_step[OF st np i(1,3,4,5,8,6)] fresh_step[OF st i(1,3,5,6)] unique_step[OF st i(6,7)]
      notify_step[OF st i(1,3,5,6,7,8)] lock_step[OF st np i(9)] wake_step[OF st i(1,9,10)] ready_step[OF st np i(1,11)]
      done_step[OF st np i(1,2,3,5,11,12)] lower_step[OF st i(1,5,13)]
    by blast
qed

lemma reach_inv: "reach threads n c \<Longrightarrow> inv_all threads n c"
proof (induction rule: reach.induct)
  case start
  show ?case by (rule inv_start)
next
  case (step sh pcs t sh' p')
  with inv_step show ?case by blast
qed


text \<open>
  C15. When the scheduler announces completion it has completed: in every interleaving of any number of
  threads, once \<open>done_marker\<close> is set every transaction is executed, both indices have passed the end of
  the block, and no thread executes, validates or aborts anything any more or ever will.  The lock-free
  \<open>check_done\<close>, which reads five shared variables one after the other while they change, never fires early.
\<close>

theorem done_marker_means_completed:
  assumes "reach threads n (sh, pcs)" "done_marker (sch sh)"
  shows "(\<forall>i < n. \<exists>inc. txn_status (sch sh) ! i = Executed inc) \<and>
     n \<le> validation_idx (sch sh) \<and> n \<le> execution_idx (sch sh) \<and> (\<forall>t < threads. harmless n (pcs t))"
proof -
  have "quiet threads n (sh, pcs)" using reach_inv[OF assms(1)] assms(2) by (simp add: inv_all_def inv_done_def)
  then show ?thesis by (auto simp: quiet_def elim!: is_executed_status.elims)
qed

text \<open>
  C14. No thread ever panics in the scheduler, and tasks are exclusive: in every reachable configuration
  no assertion, \<open>unreachable!\<close> or index of the scheduler has failed, the active-task counter equals the
  number of threads that hold a guard, and a transaction has exactly one owning thread while it is being
  executed, suspended or aborted, and none when it is executed or ready for a first task.
\<close>

theorem tasks_are_exclusive:
  assumes "reach threads n (sh, pcs)"
  shows "(\<forall>t < threads. pcs t \<noteq> Panicked) \<and> num_active_tasks (sch sh) = (\<Sum>t<threads. guards (pcs t)) \<and>
     (\<forall>i < n. card {t. t < threads \<and> owns (pcs t) i = 1} = has_owner (txn_status (sch sh) ! i))"
proof -
  note inv = reach_inv[OF assms, unfolded inv_all_def]
  have "pcs t \<noteq> Panicked" if "t < threads" for t
    using inv that by (force simp: inv_local_def)
  moreover have "card {t. t < threads \<and> owns (pcs t) i = 1} = (\<Sum>t<threads. owns (pcs t) i)" for i
  proof -
    have "(\<Sum>t<threads. owns (pcs t) i) = (\<Sum>t\<in>{t. t < threads \<and> owns (pcs t) i = 1}. 1)"
      by (rule sum.mono_neutral_cong_right) (auto simp: owns_def)
    then show ?thesis by simp
  qed
  ultimately show ?thesis using inv by (auto simp: inv_guard_def inv_own_def)
qed

lemma suspended_listed:
  assumes "reach threads n (sh, pcs)" "j < n" "txn_status (sch sh) ! j = Suspended inc cv"
  shows "(\<exists>t < threads. tokens (pcs t) j > 0) \<or>
     (\<exists>i < j. j \<in> set (txn_dependency (sch sh) ! i) \<and>
        ((\<forall>k. txn_status (sch sh) ! i \<noteq> Executed k) \<or> (\<exists>t < threads. takes_list (pcs t) i)))"
proof -
  note inv = reach_inv[OF assms(1), unfolded inv_all_def]
  have "(\<Sum>i<n. count_list (txn_dependency (sch sh) ! i) j) + (\<Sum>t<threads. tokens (pcs t) j) = 1"
    using inv assms(2,3) by (auto simp: inv_tok_def)
  then consider "(\<Sum>t<threads. tokens (pcs t) j) \<noteq> 0" | "(\<Sum>i<n. count_list (txn_dependency (sch sh) ! i) j) \<noteq> 0"
    by linarith
  then show ?thesis
  proof cases
    case 1
    then show ?thesis by auto
  next
    case 2
    then obtain i where i: "i < n" "j \<in> set (txn_dependency (sch sh) ! i)"
      by (auto simp: count_list_0_iff)
    then have "i < j" using inv by (auto simp: inv_lower_def)
    moreover have "\<not> is_executed_status (txn_status (sch sh) ! i) \<or> (\<exists>t < threads. takes_list (pcs t) i)"
      using inv i by (auto simp: inv_wake_def)
    ultimately show ?thesis using i by (metis is_executed_status.simps(1))
  qed
qed

text \<open>
  C17. No wake-up is lost: in every reachable configuration a suspended transaction is either about to be
  listed or about to be resumed by some thread, or it is listed under a lower transaction that has not
  finished executing or whose \<open>finish_execution\<close> still has to take the list.
\<close>

theorem no_lost_wakeup:
  assumes "reach threads n (sh, pcs)" "j < n" "txn_status (sch sh) ! j = Suspended inc cv"
  shows "(\<exists>t < threads. tokens (pcs t) j > 0) \<or>
     (\<exists>i < j. j \<in> set (txn_dependency (sch sh) ! i) \<and>
        ((\<forall>k. txn_status (sch sh) ! i \<noteq> Executed k) \<or> (\<exists>t < threads. takes_list (pcs t) i)))"
  by (rule suspended_listed[OF assms])

section \<open>Concrete runs\<close>

text \<open>
  A driver for examples: the next step of a thread whose validations succeed and whose execution meets the
  given dependency, if any.
\<close>

fun drive :: "txn_index option \<Rightarrow> shared \<times> pc \<Rightarrow> shared \<times> pc" where
  "drive d (sh, Loop) = (sh, if done_marker (sch sh) then Stopped else LoadVal)"
| "drive d (sh, LoadVal) = (sh, LoadExec (validation_idx (sch sh)))"
| "drive d (sh, LoadExec v) = (sh, if v < execution_idx (sch sh) then ValCheck else ExeCheck)"
| "drive d (sh, ValCheck) = (sh, if validation_idx (sch sh) \<ge> num_txns (sch sh) then Cd0 else ValGuard)"
| "drive d (sh, ValGuard) = (with_sch sh (guard_new (sch sh)), ValFetch)"
| "drive d (sh, ValFetch) = (with_sch sh ((sch sh)\<lparr>validation_idx := validation_idx (sch sh) + 1\<rparr>), ValStatus (validation_idx (sch sh)))"
| "drive d (sh, ValStatus i) = (sh, case is_executed (sch sh) i of Some inc \<Rightarrow> Validate (i, inc) | None \<Rightarrow> DropGuard)"
| "drive d (sh, Validate v) = (sh, DropGuard)"
| "drive d (sh, ExeCheck) = (sh, if execution_idx (sch sh) \<ge> num_txns (sch sh) then Cd0 else ExeGuard)"
| "drive d (sh, ExeGuard) = (with_sch sh (guard_new (sch sh)), ExeFetch)"
| "drive d (sh, ExeFetch) = (with_sch sh ((sch sh)\<lparr>execution_idx := execution_idx (sch sh) + 1\<rparr>), TryInc (execution_idx (sch sh)))"
| "drive d (sh, TryInc i) = (case try_incarnate (sch sh) i of
     (Some (inc, None), s') \<Rightarrow> (with_sch sh s', Run (i, inc))
   | (Some (inc, Some cv), s') \<Rightarrow> (with_sch sh s', Notify (i, inc) cv)
   | (None, s') \<Rightarrow> (with_sch sh s', DropGuard))"
| "drive None (sh, Run v) = (sh, Fin v False)"
| "drive (Some dep) (sh, Run v) = (if dep < fst v then (sh\<lparr>next_cv := next_cv sh + 1\<rparr>, WaitLock v dep (next_cv sh)) else (sh, Run v))"
| "drive d (sh, WaitLock v dep cv) =
     (if dep < length (txn_dependency (sch sh)) \<and> dep \<notin> locked sh
      then (sh\<lparr>locked := insert dep (locked sh)\<rparr>, WaitCheck v dep cv) else (sh, WaitLock v dep cv))"
| "drive d (sh, WaitCheck v dep cv) =
     (if is_executed (sch sh) dep \<noteq> None then (sh\<lparr>locked := locked sh - {dep}\<rparr>, Run v) else (sh, WaitSuspend v dep cv))"
| "drive d (sh, WaitSuspend v dep cv) = (case suspend (sch sh) (fst v) cv of
     Some s' \<Rightarrow> (with_sch sh s', WaitPush v dep cv) | None \<Rightarrow> (sh, Panicked))"
| "drive d (sh, WaitPush v dep cv) =
     (sh\<lparr>sch := push_dependency (sch sh) dep (fst v), locked := locked sh - {dep}\<rparr>, Blocked v cv)"
| "drive d (sh, Fin v b) = (case set_executed_status (sch sh) (fst v) (snd v) of
     Some s' \<Rightarrow> (with_sch sh s', FinTake v b) | None \<Rightarrow> (sh, Panicked))"
| "drive d (sh, FinTake v b) = (if fst v \<in> locked sh then (sh, FinTake v b) else case take_dependencies (sch sh) (fst v) of
     Some (deps, s') \<Rightarrow> (with_sch sh s', FinResume v b deps None) | None \<Rightarrow> (sh, Panicked))"
| "drive d (sh, FinResume v b [] None) = (sh, FinLoad v b)"
| "drive d (sh, FinLoad v b) = (sh, if validation_idx (sch sh) > fst v then if b then FinDecV (fst v) else Validate v else DropGuard)"
| "drive d (sh, DropGuard) = (case guard_drop (sch sh) of Some s' \<Rightarrow> (with_sch sh s', Loop) | None \<Rightarrow> (sh, Panicked))"
| "drive d (sh, Cd0) = (sh, Cd1 (decrease_cnt (sch sh)))"
| "drive d (sh, Cd1 c) = (sh, Cd2 c (validation_idx (sch sh)))"
| "drive d (sh, Cd2 c v) = (sh, Cd3 c v (execution_idx (sch sh)))"
| "drive d (sh, Cd3 c v e) = (sh, if min e v < num_txns (sch sh) \<or> num_active_tasks (sch sh) > 0 then Loop else Cd4 c)"
| "drive d (sh, Cd4 c) = (sh, if c = decrease_cnt (sch sh) then Cd5 else Loop)"
| "drive d (sh, Cd5) = (with_sch sh ((sch sh)\<lparr>done_marker := True\<rparr>), Loop)"
| "drive d (sh, p) = (sh, p)"

lemma val_status_cases:
  "is_executed (sch sh) i = None \<Longrightarrow> tstep sh (ValStatus i) sh DropGuard"
  "is_executed (sch sh) i = Some inc \<Longrightarrow> tstep sh (ValStatus i) sh (Validate (i, inc))"
  using tstep.val_status[of sh i] by simp_all

lemmas drive_intros = tstep.intros val_status_cases tstep.val_fetch[simplified] tstep.exe_fetch[simplified]
  tstep.run_dep[simplified]
  tstep.fin_set[where v = "(i, inc)", unfolded fst_conv snd_conv] tstep.fin_panic[where v = "(i, inc)", unfolded fst_conv snd_conv]
  tstep.fin_load[where v = "(i, inc)", unfolded fst_conv]
  tstep.wait_suspend[where v = "(i, inc)", unfolded fst_conv] tstep.suspend_panic[where v = "(i, inc)", unfolded fst_conv]
  tstep.wait_push[where v = "(i, inc)", unfolded fst_conv]
  for i inc

lemma drive_step:
  assumes "drive d (sh, p) = (sh', p')"
  shows "(sh', p') = (sh, p) \<or> tstep sh p sh' p'"
proof (cases "\<exists>v b dep cv. p = FinTake v b \<or> p = Run v \<or> p = WaitLock v dep cv \<or> p = WaitCheck v dep cv")
  case True
  then consider v b where "p = FinTake v b" | v where "p = Run v" | v dep cv where "p = WaitLock v dep cv"
    | v dep cv where "p = WaitCheck v dep cv" by blast
  then show ?thesis
  proof cases
    case (1 v b)
    with assms show ?thesis
      by (cases "fst v \<in> locked sh")
        (simp_all split: option.splits prod.splits, auto intro: tstep.fin_take tstep.take_panic)
  next
    case (2 v)
    with assms show ?thesis
      by (cases d) (simp_all split: if_splits, auto intro: tstep.run_fin tstep.run_dep[simplified])
  next
    case (3 v dep cv)
    with assms show ?thesis by (simp split: if_splits) (auto intro: tstep.wait_lock)
  next
    case (4 v dep cv)
    with assms show ?thesis
      by (simp split: if_splits) (auto intro!: tstep.wait_resolved tstep.wait_unresolved)
  qed
next
  case False
  with assms show ?thesis
    by (cases "(d, sh, p)" rule: drive.cases)
      (auto intro: drive_intros split del: if_split split: option.splits prod.splits)
qed

fun drive_all :: "(nat \<times> txn_index option) list \<Rightarrow> conf \<Rightarrow> conf" where
  "drive_all [] c = c"
| "drive_all ((t, d) # ts) (sh, pcs) = (let (sh', p') = drive d (sh, pcs t) in drive_all ts (sh', pcs(t := p')))"

lemma drive_reach:
  "reach threads n c \<Longrightarrow> \<forall>x \<in> set ts. fst x < threads \<Longrightarrow> reach threads n (drive_all ts c)"
proof (induction ts c rule: drive_all.induct)
  case (2 t d ts sh pcs)
  obtain sh' p' where s: "drive d (sh, pcs t) = (sh', p')" by fastforce
  from drive_step[OF s] have "reach threads n (sh', pcs(t := p'))"
    using "2.prems" reach.step[OF "2.prems"(1), of t sh' p'] by (auto simp del: fun_upd_apply simp: fun_upd_triv)
  with 2 s show ?case by (simp del: fun_upd_apply)
qed simp

definition start_conf :: "nat \<Rightarrow> nat \<Rightarrow> conf" where
  "start_conf threads n =
     (\<lparr>sch = scheduler_new n, locked = {}, resolved = {}, next_cv = 0\<rparr>, \<lambda>t. if t < threads then Loop else Stopped)"

lemma reach_start: "reach threads n (start_conf threads n)"
  unfolding start_conf_def by (rule reach.start)

lemmas drive_defs = start_conf_def scheduler_new_def guard_new_def guard_drop_def try_incarnate_def set_status_def
  set_executed_status_def nth_opt_def take_dependencies_def is_executed_def suspend_def push_dependency_def

text \<open>A block of one transaction executed, validated and found complete by one thread.\<close>

definition demo_done :: conf where
  "demo_done = drive_all (replicate 33 (0, None)) (start_conf 1 1)"

lemma demo_done_end:
  "fst demo_done = \<lparr>sch = \<lparr>num_txns = 1, execution_idx = 1, validation_idx = 1, decrease_cnt = 0, num_active_tasks = 0,
      done_marker = True, txn_dependency = [[]], txn_status = [Executed 0]\<rparr>, locked = {}, resolved = {}, next_cv = 0\<rparr> \<and>
   snd demo_done 0 = Stopped"
  by (simp add: demo_done_def eval_nat_numeral drive_defs)

lemma demo_done_reach: "reach 1 1 demo_done"
  unfolding demo_done_def by (rule drive_reach[OF reach_start]) simp

text \<open>Two threads: the second executes transaction 1 and waits for transaction 0, which the first executes.\<close>

definition demo_wait :: conf where
  "demo_wait = drive_all (replicate 7 (0, None) @ replicate 21 (1, Some 0)) (start_conf 2 2)"

lemma demo_wait_end:
  "txn_status (sch (fst demo_wait)) = [Executing 0, Suspended 0 0] \<and> txn_dependency (sch (fst demo_wait)) = [[1], []] \<and>
   snd demo_wait 0 = Run (0, 0) \<and> snd demo_wait 1 = Blocked (1, 0) 0"
  by (simp add: demo_wait_def eval_nat_numeral drive_defs)

lemma demo_wait_reach: "reach 2 2 demo_wait"
  unfolding demo_wait_def by (rule drive_reach[OF reach_start]) auto

section \<open>The theorems at concrete configurations\<close>

theorem done_marker_means_completed_witness:
  "done_marker (sch (fst demo_done)) \<and> txn_status (sch (fst demo_done)) ! 0 = Executed 0 \<and> harmless 1 (snd demo_done 0)"
proof -
  have r: "reach 1 1 (fst demo_done, snd demo_done)" using demo_done_reach by simp
  have d: "done_marker (sch (fst demo_done))" using demo_done_end by simp
  from done_marker_means_completed[OF r d] have "harmless 1 (snd demo_done 0)" by simp
  with d demo_done_end show ?thesis by simp
qed

theorem tasks_are_exclusive_witness:
  "num_active_tasks (sch (fst demo_wait)) = (\<Sum>t<2. guards (snd demo_wait t)) \<and>
   card {t. t < 2 \<and> owns (snd demo_wait t) 1 = 1} = 1"
proof -
  have r: "reach 2 2 (fst demo_wait, snd demo_wait)" using demo_wait_reach by simp
  from tasks_are_exclusive[OF r] demo_wait_end show ?thesis by simp
qed

theorem no_lost_wakeup_witness:
  "txn_status (sch (fst demo_wait)) ! 1 = Suspended 0 0 \<and>
   ((\<exists>t < 2. tokens (snd demo_wait t) 1 > 0) \<or> 1 \<in> set (txn_dependency (sch (fst demo_wait)) ! 0))"
proof -
  have r: "reach 2 2 (fst demo_wait, snd demo_wait)" using demo_wait_reach by simp
  have s: "txn_status (sch (fst demo_wait)) ! 1 = Suspended 0 0" using demo_wait_end by simp
  from no_lost_wakeup[OF r _ s] s show ?thesis by auto
qed

end
