(* ===== verification/Scheduler_Progress.thy ===== *)
theory Scheduler_Progress
  imports Scheduler_Safety
begin

text \<open>
  Freedom from deadlock.  Threads block on condition variables while the transaction they depend on is
  executed by somebody else; a comment in \<open>MVHashMapView::read\<close> argues informally that not all of them can
  end up waiting.  This theory proves it: three further invariants of the interleaved machine (a ready
  transaction always has a thread that is not held up above it, a stopped thread has seen the done marker,
  a resumed thread is being notified) and, from them, that some thread can always take a step.
\<close>

section \<open>Further invariants\<close>

text \<open>The thread is not running or waiting at an index that would keep it from a ready transaction \<open>i\<close>.\<close>

fun free_for :: "pc \<Rightarrow> txn_index \<Rightarrow> bool" where
  "free_for (Run v) i = (fst v < i)"
| "free_for (WaitLock v _ _) i = (fst v < i)"
| "free_for (WaitCheck v _ _) i = (fst v < i)"
| "free_for (WaitSuspend v _ _) i = (fst v < i)"
| "free_for (WaitPush v _ _) i = (fst v < i)"
| "free_for (Blocked v _) i = (fst v < i)"
| "free_for (TryInc k) i = (k \<le> i)"
| "free_for Stopped i = False"
| "free_for Panicked i = False"
| "free_for _ i = True"

definition inv_free :: "nat \<Rightarrow> nat \<Rightarrow> conf \<Rightarrow> bool" where
  "inv_free threads n c \<longleftrightarrow>
     (\<forall>i < n. is_ready (txn_status (sch (fst c)) ! i) \<longrightarrow> (\<exists>t < threads. free_for (snd c t) i))"

definition inv_stop :: "nat \<Rightarrow> conf \<Rightarrow> bool" where
  "inv_stop threads c \<longleftrightarrow> (\<forall>t < threads. snd c t = Stopped \<longrightarrow> done_marker (sch (fst c)))"

definition inv_awake :: "nat \<Rightarrow> conf \<Rightarrow> bool" where
  "inv_awake threads c \<longleftrightarrow> (\<forall>t < threads. \<forall>v cv. snd c t = Blocked v cv \<longrightarrow> cv \<notin> resolved (fst c) \<longrightarrow>
     txn_status (sch (fst c)) ! fst v = Executing (snd v) \<longrightarrow> (\<exists>t' < threads. snd c t' = Notify v cv))"

lemma responsible_free: "responsible p i \<Longrightarrow> free_for p i"
  by (cases p) auto

lemma free_local:
  assumes "tstep sh p sh' p'" "p' \<noteq> Panicked" "i < length (txn_status (sch sh))"
    "is_ready (txn_status (sch sh') ! i)" "\<not> free_for p' i"
  shows "is_ready (txn_status (sch sh) ! i) \<and>
     (free_for p i \<longrightarrow> done_marker (sch sh) \<or> i < execution_idx (sch sh) \<and> \<not> responsible p i)"
  using assms
  by (cases rule: tstep.cases)
    (auto simp: step_simps push_dependency_def guard_new_def nth_upd split: if_splits option.splits)

lemma free_step:
  assumes step: "tstep sh (pcs t) sh' p'" and t: "t < threads" and np: "p' \<noteq> Panicked"
    and len: "inv_len n (sh, pcs)" and ready: "inv_ready threads n (sh, pcs)" and dn: "inv_done threads n (sh, pcs)"
    and free: "inv_free threads n (sh, pcs)"
  shows "inv_free threads n (sh', pcs(t := p'))"
  unfolding inv_free_def fst_conv snd_conv
proof (intro allI impI)
  fix i assume i: "i < n" "is_ready (txn_status (sch sh') ! i)"
  show "\<exists>x < threads. free_for ((pcs(t := p')) x) i"
  proof (cases "free_for p' i")
    case True
    with t show ?thesis by auto
  next
    case False
    have "i < length (txn_status (sch sh))" using len i by (simp add: inv_len_def)
    note l = free_local[OF step np this i(2) False]
    with free i obtain x where x: "x < threads" "free_for (pcs x) i" by (auto simp: inv_free_def)
    have "\<not> done_marker (sch sh)"
      using dn l i by (force simp: inv_done_def quiet_def elim!: is_ready.elims is_executed_status.elims)
    then have "x \<noteq> t \<or> (\<exists>y < threads. y \<noteq> t \<and> responsible (pcs y) i)"
      using l x ready i unfolding inv_ready_def by fastforce
    then show ?thesis using x responsible_free by fastforce
  qed
qed

lemma stop_step:
  assumes "tstep sh (pcs t) sh' p'" "inv_stop threads (sh, pcs)"
  shows "inv_stop threads (sh', pcs(t := p'))"
  using assms
  by (cases rule: tstep.cases)
    (auto simp: inv_stop_def step_simps push_dependency_def guard_new_def split: if_splits option.splits)

lemma becomes_executing:
  "tstep sh p sh' p' \<Longrightarrow> txn_status (sch sh') ! i = Executing k \<Longrightarrow>
   txn_status (sch sh) ! i = Executing k \<or> txn_status (sch sh) ! i = ReadyToExecute k None \<or>
   (\<exists>cv. txn_status (sch sh) ! i = ReadyToExecute k (Some cv) \<and> p' = Notify (i, k) cv)"
  by (cases rule: tstep.cases)
    (auto simp: step_simps push_dependency_def guard_new_def nth_upd split: if_splits option.splits)

lemma becomes_blocked:
  "tstep sh p sh' p' \<Longrightarrow> p' = Blocked v cv \<Longrightarrow> (\<exists>dep. p = WaitPush v dep cv) \<and> txn_status (sch sh') = txn_status (sch sh)"
  by (cases rule: tstep.cases) (auto simp: push_dependency_def split: if_splits option.splits)

lemma notify_resolves: "tstep sh (Notify v cv) sh' p' \<Longrightarrow> cv \<in> resolved sh'"
  by (cases rule: tstep.cases) auto

lemma resolved_mono: "tstep sh p sh' p' \<Longrightarrow> resolved sh \<subseteq> resolved sh'"
  by (cases rule: tstep.cases) auto

lemma awake_step:
  assumes step: "tstep sh (pcs t) sh' p'" and t: "t < threads"
    and loc: "inv_local threads (sh, pcs)" and aw: "inv_awake threads (sh, pcs)"
  shows "inv_awake threads (sh', pcs(t := p'))"
  unfolding inv_awake_def fst_conv snd_conv
proof (intro allI impI)
  fix x v cv
  assume x: "x < threads" "(pcs(t := p')) x = Blocked v cv" "cv \<notin> resolved sh'" "txn_status (sch sh') ! fst v = Executing (snd v)"
  have L: "local_ok (txn_status (sch sh)) (resolved sh) (pcs y)" if "y < threads" for y
    using loc that by (simp add: inv_local_def)
  have "x \<noteq> t"
  proof
    assume "x = t"
    with x becomes_blocked[OF step] L[OF t] show False by auto
  qed
  with x have b: "pcs x = Blocked v cv" by simp
  have r: "cv \<notin> resolved sh" using resolved_mono[OF step] x(3) by blast
  from becomes_executing[OF step x(4)] L[OF x(1)] b r consider
    "txn_status (sch sh) ! fst v = Executing (snd v)" | "p' = Notify v cv" by (cases v) auto
  then show "\<exists>y < threads. (pcs(t := p')) y = Notify v cv"
  proof cases
    case 1
    with aw b x(1) r obtain y where y: "y < threads" "pcs y = Notify v cv"
      unfolding inv_awake_def fst_conv snd_conv by blast
    with notify_resolves step x(3) have "y \<noteq> t" by metis
    with y show ?thesis by auto
  next
    case 2
    with t show ?thesis by auto
  qed
qed

definition inv_progress :: "nat \<Rightarrow> nat \<Rightarrow> conf \<Rightarrow> bool" where
  "inv_progress threads n c \<longleftrightarrow> inv_free threads n c \<and> inv_stop threads c \<and> inv_awake threads c"

lemma reach_progress:
  "reach threads n c \<Longrightarrow> 0 < threads \<Longrightarrow> inv_progress threads n c"
proof (induction rule: reach.induct)
  case start
  then show ?case by (auto simp: inv_progress_def inv_free_def inv_stop_def inv_awake_def)
next
  case (step sh pcs t sh' p')
  note inv = reach_inv[OF step.hyps(1)] and np = inv_step[OF reach_inv[OF step.hyps(1)] step.hyps(2,3)]
  from step inv show ?case
    unfolding inv_progress_def inv_all_def
    using free_step[where pcs = pcs and t = t, OF step.hyps(3,2) conjunct2[OF np]]
      stop_step[where pcs = pcs and t = t, OF step.hyps(3)] awake_step[where pcs = pcs and t = t, OF step.hyps(3,2)] by blast
qed

section \<open>Which threads cannot move\<close>

definition can_step :: "shared \<Rightarrow> pc \<Rightarrow> bool" where
  "can_step sh p \<longleftrightarrow> (\<exists>sh' p'. tstep sh p sh' p')"

lemma can_stepI: "tstep sh p sh' p' \<Longrightarrow> can_step sh p"
  by (auto simp: can_step_def)

lemma stuck_cases:
  assumes "\<not> can_step sh p" "p \<noteq> Stopped" "p \<noteq> Panicked"
  obtains v cv where "p = Blocked v cv" "cv \<notin> resolved sh"
  | v dep cv where "p = WaitLock v dep cv" "dep \<in> locked sh"
  | v b where "p = FinTake v b" "fst v \<in> locked sh"
proof -
  have n: "\<not> tstep sh p sh' p'" for sh' p' using assms(1) by (auto simp: can_step_def)
  have "(\<exists>v cv. p = Blocked v cv \<and> cv \<notin> resolved sh) \<or> (\<exists>v dep cv. p = WaitLock v dep cv \<and> dep \<in> locked sh) \<or>
      (\<exists>v b. p = FinTake v b \<and> fst v \<in> locked sh)"
  proof (cases p)
    case (TryInc i)
    obtain r s' where "try_incarnate (sch sh) i = (r, s')" by fastforce
    with n TryInc show ?thesis by (cases r) (auto intro: tstep.intros, metis not_Some_eq tstep.inc_none tstep.inc_run tstep.inc_notify)
  next
    case (FinResume v b ds m)
    with n show ?thesis
      by (cases ds; cases m) (auto intro: tstep.intros, (metis option.exhaust tstep.fin_resume tstep.resume_panic)+)
  next
    case (WaitSuspend v dep cv)
    with n show ?thesis by (metis option.exhaust tstep.wait_suspend tstep.suspend_panic)
  next
    case (WaitCheck v dep cv)
    with n show ?thesis by (metis tstep.wait_resolved tstep.wait_unresolved)
  next
    case (Fin v b)
    with n show ?thesis by (metis option.exhaust tstep.fin_set tstep.fin_panic)
  next
    case (FinTake v b)
    with n show ?thesis by (metis option.exhaust surj_pair tstep.fin_take tstep.take_panic)
  next
    case (AbortMark v)
    with n show ?thesis by (metis option.exhaust tstep.abort_set tstep.set_aborted_panic)
  next
    case DropGuard
    with n show ?thesis by (metis option.exhaust tstep.drop tstep.drop_panic)
  next
    case (WaitLock v dep cv)
    with n show ?thesis by (metis tstep.wait_lock tstep.wait_panic)
  next
    case (Blocked v cv)
    with n show ?thesis by (metis tstep.wake)
  qed (use n assms(2,3) in \<open>blast intro: tstep.intros\<close>)+
  with that show ?thesis by blast
qed

section \<open>Some thread can always move\<close>

lemma stuck_unlocked:
  assumes "inv_all threads n (sh, pcs)" "\<And>t. t < threads \<Longrightarrow> \<not> can_step sh (pcs t)"
  shows "i \<notin> locked sh"
proof
  assume "i \<in> locked sh"
  then have "(\<Sum>t<threads. holds_lock (pcs t) i) \<noteq> 0" using assms(1) by (simp add: inv_all_def inv_lock_def)
  then obtain t where t: "t < threads" "holds_lock (pcs t) i \<noteq> 0"
    by (meson lessThan_iff sum.not_neutral_contains_not_neutral)
  then have "pcs t \<noteq> Stopped" "pcs t \<noteq> Panicked" by auto
  from stuck_cases[OF assms(2)[OF t(1)] this] t(2) show False by cases auto
qed

text \<open>If no thread can move and not all have stopped, then every thread waits on a condition variable.\<close>

lemma stuck_blocked:
  assumes r: "reach threads n (sh, pcs)" and no: "\<And>t. t < threads \<Longrightarrow> \<not> can_step sh (pcs t)"
    and t0: "t0 < threads" "pcs t0 \<noteq> Stopped" and t: "t < threads"
  shows "\<exists>v cv. pcs t = Blocked v cv \<and> cv \<notin> resolved sh"
proof -
  note inv = reach_inv[OF r]
  have b: "\<exists>v cv. pcs x = Blocked v cv \<and> cv \<notin> resolved sh" if "x < threads" "pcs x \<noteq> Stopped" for x
  proof -
    have "pcs x \<noteq> Panicked" using inv that(1) by (force simp: inv_all_def inv_local_def)
    from stuck_cases[OF no[OF that(1)] that(2) this] stuck_unlocked[OF inv no] show ?thesis by cases auto
  qed
  have "pcs t \<noteq> Stopped"
  proof
    assume "pcs t = Stopped"
    then have "done_marker (sch sh)"
      using reach_progress[OF r] t by (auto simp: inv_progress_def inv_stop_def)
    then have "harmless n (pcs t0)" using inv t0(1) by (simp add: inv_all_def inv_done_def quiet_def)
    with b[OF t0] show False by auto
  qed
  with b t show ?thesis by blast
qed

lemma not_all_blocked:
  assumes r: "reach threads n (sh, pcs)" and t: "0 < threads"
    and all: "\<And>t. t < threads \<Longrightarrow> \<exists>v cv. pcs t = Blocked v cv \<and> cv \<notin> resolved sh"
  shows False
proof -
  note inv = reach_inv[OF r, unfolded inv_all_def] and prog = reach_progress[OF r t, unfolded inv_progress_def]
  define idx where "idx x = (case pcs x of Blocked v _ \<Rightarrow> fst v | _ \<Rightarrow> 0)" for x
  obtain x where x: "x < threads" "\<And>y. y < threads \<Longrightarrow> idx x \<le> idx y"
    using ex_has_least_nat[of "\<lambda>x. x < threads" 0 idx] t by auto
  obtain v cv where b: "pcs x = Blocked v cv" "cv \<notin> resolved sh" using all[OF x(1)] by blast
  have least: "\<not> (pcs y = Blocked w c \<and> fst w < fst v)" if "y < threads" for y w c
    using x(2)[OF that] b by (auto simp: idx_def)
  have ready: "\<not> is_ready (txn_status (sch sh) ! i)" if i: "i < n" "i \<le> fst v" for i
  proof
    assume "is_ready (txn_status (sch sh) ! i)"
    with prog i(1) obtain y where y: "y < threads" "free_for (pcs y) i" by (auto simp: inv_free_def)
    with all[OF y(1)] least[OF y(1)] i(2) show False by force
  qed
  have lt: "fst v < n" and st: "txn_status (sch sh) ! fst v = Executing (snd v) \<or> txn_status (sch sh) ! fst v = Suspended (snd v) cv \<or>
      txn_status (sch sh) ! fst v = ReadyToExecute (snd v) (Some cv)"
    using inv x(1) b by (auto simp: inv_local_def inv_len_def dest!: spec[of _ x])
  have ne: "txn_status (sch sh) ! fst v \<noteq> Executing (snd v)"
  proof
    assume "txn_status (sch sh) ! fst v = Executing (snd v)"
    with prog x(1) b obtain y where "y < threads" "pcs y = Notify v cv"
      unfolding inv_awake_def fst_conv snd_conv by blast
    with all show False by fastforce
  qed
  have "txn_status (sch sh) ! fst v = Suspended (snd v) cv" using st ne ready[OF lt] by auto
  moreover have "tokens (pcs y) j = 0" "\<not> takes_list (pcs y) j" if "y < threads" for y j
    using all[OF that] by auto
  ultimately obtain i where i: "i < fst v" "\<And>k. txn_status (sch sh) ! i \<noteq> Executed k"
    using suspended_listed[OF r lt] by (metis less_numeral_extra(3))
  have "has_owner (txn_status (sch sh) ! i) = 1"
    using i ready[of i] lt by (cases "txn_status (sch sh) ! i") auto
  with owner_exists[of threads n sh pcs i] inv i(1) lt obtain y w where "y < threads" "owned_version (pcs y) = Some w" "fst w = i"
    by (auto simp: inv_own_def)
  with all least i(1) show False by (metis option.inject owned_version.simps(6))
qed

text \<open>
  C16. No deadlock: in every interleaving of any number of worker threads, as long as one thread has not
  stopped, some thread can take its next step.  In particular the threads never all wait for each other
  on condition variables or dependency mutexes.
\<close>

theorem no_deadlock:
  assumes "reach threads n (sh, pcs)" "t < threads" "pcs t \<noteq> Stopped"
  shows "\<exists>t' < threads. \<exists>sh' p'. tstep sh (pcs t') sh' p'"
proof (rule ccontr)
  assume "\<not> ?thesis"
  then have no: "\<not> can_step sh (pcs x)" if "x < threads" for x using that by (auto simp: can_step_def)
  show False
    using not_all_blocked[OF assms(1) _ stuck_blocked[OF assms(1) no assms(2,3)]] assms(2) by auto
qed

theorem no_deadlock_witness:
  "snd demo_wait 1 = Blocked (1, 0) 0 \<and> (\<exists>t < 2. \<exists>sh' p'. tstep (fst demo_wait) (snd demo_wait t) sh' p')"
proof -
  have r: "reach 2 2 (fst demo_wait, snd demo_wait)" using demo_wait_reach by simp
  have b: "snd demo_wait 1 = Blocked (1, 0) 0" using demo_wait_end by simp
  have "snd demo_wait 1 \<noteq> Stopped" using b by simp
  from no_deadlock[OF r _ this] b show ?thesis by auto
qed

end
