(* ===== verification/Access_Paths.thy ===== *)
theory Access_Paths
  imports Prelude
begin

text \<open>
  Access paths, from \<^verbatim>\<open>aptos-vm/src/access_path_cache.rs\<close>: the trait \<open>AccessPathCache\<close> as a locale, its two
  implementations (none, and ordered maps that remember the serialised paths) as interpretations, and the
  fact that a client cannot tell them apart.  The serialisation of module ids and struct tags is a parameter.
\<close>

section \<open>Definitions\<close>

record ('mid, 'tag, 'a) path_ops =
  mid_address :: "'mid \<Rightarrow> 'a"
  mid_access_vector :: "'mid \<Rightarrow> bytes"
  tag_access_vector :: "'tag \<Rightarrow> bytes"

type_synonym 'a access_path = "'a \<times> bytes"

text \<open>The implementation for \<open>()\<close>; \<open>AccessPath::from(&module_id)\<close> is the path made of its address and access vector.\<close>

definition unit_get_module_path :: "('mid, 'tag, 'a) path_ops \<Rightarrow> unit \<Rightarrow> 'mid \<Rightarrow> 'a access_path \<times> unit" where
  "unit_get_module_path P self module_id = ((mid_address P module_id, mid_access_vector P module_id), self)"

definition unit_get_resource_path :: "('mid, 'tag, 'a) path_ops \<Rightarrow> unit \<Rightarrow> 'a \<Rightarrow> 'tag \<Rightarrow> 'a access_path \<times> unit" where
  "unit_get_resource_path P self addr struct_tag = ((addr, tag_access_vector P struct_tag), self)"

record ('mid, 'tag) btree_access_path_cache =
  path_modules :: "('mid, bytes) btree"
  path_resources :: "('tag, bytes) btree"

definition access_path_cache_new :: "('mid, 'tag) btree_access_path_cache" where
  "access_path_cache_new = \<lparr>path_modules = [], path_resources = []\<rparr>"

definition btree_get_module_path ::
  "('mid::linorder, 'tag, 'a) path_ops \<Rightarrow> ('mid, 'tag) btree_access_path_cache \<Rightarrow> 'mid \<Rightarrow>
   'a access_path \<times> ('mid, 'tag) btree_access_path_cache" where
  "btree_get_module_path P self module_id =
     (let addr = mid_address P module_id
      in case map_of (path_modules self) module_id of
           None \<Rightarrow>
             (let v = mid_access_vector P module_id
              in ((addr, v), self\<lparr>path_modules := bt_insert module_id v (path_modules self)\<rparr>))
         | Some v \<Rightarrow> ((addr, v), self))"

definition btree_get_resource_path ::
  "('mid, 'tag::linorder, 'a) path_ops \<Rightarrow> ('mid, 'tag) btree_access_path_cache \<Rightarrow> 'a \<Rightarrow> 'tag \<Rightarrow>
   'a access_path \<times> ('mid, 'tag) btree_access_path_cache" where
  "btree_get_resource_path P self addr struct_tag =
     (case map_of (path_resources self) struct_tag of
        None \<Rightarrow>
          (let v = tag_access_vector P struct_tag
           in ((addr, v), self\<lparr>path_resources := bt_insert struct_tag v (path_resources self)\<rparr>))
      | Some v \<Rightarrow> ((addr, v), self))"

section \<open>A cache is transparent\<close>

text \<open>
  The contract of the trait: in every state the implementation reaches, the path asked for is the one
  without a cache.
\<close>

locale access_path_cache =
  fixes P :: "('mid, 'tag, 'a) path_ops" and reached :: "'c \<Rightarrow> bool"
    and module_path :: "'c \<Rightarrow> 'mid \<Rightarrow> 'a access_path \<times> 'c" and resource_path :: "'c \<Rightarrow> 'a \<Rightarrow> 'tag \<Rightarrow> 'a access_path \<times> 'c"
  assumes module_law: "reached c \<Longrightarrow> module_path c m = (p, c') \<Longrightarrow> p = fst (unit_get_module_path P () m) \<and> reached c'"
    and resource_law: "reached c \<Longrightarrow> resource_path c a t = (p, c') \<Longrightarrow> p = fst (unit_get_resource_path P () a t) \<and> reached c'"
begin

text \<open>The paths of one account's changes, resources first, as a client asks for them.\<close>

fun account_paths :: "'c \<Rightarrow> 'a \<Rightarrow> 'tag list \<Rightarrow> 'mid list \<Rightarrow> 'a access_path list \<times> 'c" where
  "account_paths c addr (t # ts) ms =
     (let (p, c1) = resource_path c addr t; (ps, c2) = account_paths c1 addr ts ms in (p # ps, c2))"
| "account_paths c addr [] (m # ms) =
     (let (p, c1) = module_path c m; (ps, c2) = account_paths c1 addr [] ms in (p # ps, c2))"
| "account_paths c addr [] [] = ([], c)"

lemma account_paths_plain:
  "reached c \<Longrightarrow> account_paths c addr ts ms = (ps, c') \<Longrightarrow>
     ps = map (\<lambda>t. (addr, tag_access_vector P t)) ts @ map (\<lambda>m. (mid_address P m, mid_access_vector P m)) ms \<and> reached c'"
proof (induction c addr ts ms arbitrary: ps c' rule: account_paths.induct)
  case (1 c addr t ts ms)
  obtain p c1 where r: "resource_path c addr t = (p, c1)" by fastforce
  obtain ps1 c2 where a: "account_paths c1 addr ts ms = (ps1, c2)" by fastforce
  from resource_law[OF "1.prems"(1) r] have p: "p = (addr, tag_access_vector P t)" "reached c1"
    by (simp_all add: unit_get_resource_path_def)
  from "1.IH"[OF _ refl p(2) a] r "1.prems"(2) a p(1) show ?case by (auto simp: Let_def)
next
  case (2 c addr m ms)
  obtain p c1 where r: "module_path c m = (p, c1)" by fastforce
  obtain ps1 c2 where a: "account_paths c1 addr [] ms = (ps1, c2)" by fastforce
  from module_law[OF "2.prems"(1) r] have p: "p = (mid_address P m, mid_access_vector P m)" "reached c1"
    by (simp_all add: unit_get_module_path_def)
  from "2.IH"[OF _ refl p(2) a] r "2.prems"(2) a p(1) show ?case by (auto simp: Let_def)
qed simp

end

interpretation no_cache: access_path_cache P "\<lambda>_. True" "unit_get_module_path P" "unit_get_resource_path P" for P
  by unfold_locales (auto simp: unit_get_module_path_def unit_get_resource_path_def)

text \<open>The invariant of the ordered maps: an entry is the serialisation of its key.\<close>

definition path_cache_ok :: "('mid::linorder, 'tag::linorder, 'a) path_ops \<Rightarrow> ('mid, 'tag) btree_access_path_cache \<Rightarrow> bool" where
  "path_cache_ok P c \<longleftrightarrow>
     bt_ok (path_modules c) \<and> bt_ok (path_resources c) \<and>
     (\<forall>m v. map_of (path_modules c) m = Some v \<longrightarrow> v = mid_access_vector P m) \<and>
     (\<forall>t v. map_of (path_resources c) t = Some v \<longrightarrow> v = tag_access_vector P t)"

lemma path_cache_new_ok: "path_cache_ok P access_path_cache_new"
  by (simp add: path_cache_ok_def access_path_cache_new_def bt_ok_def)

interpretation path_cache: access_path_cache P "path_cache_ok P" "btree_get_module_path P" "btree_get_resource_path P" for P
  by unfold_locales
    (auto simp: path_cache_ok_def btree_get_module_path_def btree_get_resource_path_def unit_get_module_path_def
      unit_get_resource_path_def Let_def map_of_bt_insert bt_ok_insert split: option.splits if_splits)

lemma path_cache_transparent:
  "fst (path_cache.account_paths P access_path_cache_new addr ts ms) = fst (no_cache.account_paths P () addr ts ms)"
  using path_cache.account_paths_plain[OF path_cache_new_ok prod.collapse[symmetric], of P addr ts ms]
    no_cache.account_paths_plain[OF TrueI prod.collapse[symmetric], of P "()" addr ts ms]
  by simp

end
