(* ===== verification/Gas_Params.thy ===== *)
theory Gas_Params
  imports Prelude
begin

text \<open>
  The gas parameters of \<open>aptos-gas\<close>: the quantities they are measured in
  (\<open>algebra.rs\<close>), the two macros that turn a table of parameters into a struct with a mapping to
  and from the on-chain gas schedule (\<open>params.rs\<close>, \<open>natives.rs\<close>), every table of the crate
  (\<open>instr.rs\<close>, \<open>transaction.rs\<close>, \<open>misc.rs\<close>, \<open>move_stdlib.rs\<close>,
  \<open>aptos_framework.rs\<close>, \<open>table.rs\<close>), and the struct that joins them (\<open>gas_meter.rs\<close>).
  The lemmas decide when a schedule is accepted and what it is read as, and show that writing the
  parameters of a node on chain and reading them back loses nothing.
\<close>

section \<open>Gas quantities\<close>

text \<open>
  \<open>GasQuantity\<close> belongs to \<open>move_core_types\<close>: a \<open>u64\<close> whose unit is a phantom type.
  Its operations are an argument of every definition that calculates with it; \<open>gas_ops_ok\<close> states
  the documented behaviour, arithmetic that saturates, a subtraction that reports a deficit, and
  conversions between units by a multiplier or, rounding down, by a ratio.
\<close>

record gas_ops =
  gq_add :: "u64 \<Rightarrow> u64 \<Rightarrow> u64"
  gq_mul :: "u64 \<Rightarrow> u64 \<Rightarrow> u64"
  gq_checked_sub :: "u64 \<Rightarrow> u64 \<Rightarrow> u64 option"
  gq_to_unit :: "u64 \<Rightarrow> u64 \<Rightarrow> u64"
  gq_round_down :: "u64 \<Rightarrow> u64 \<times> u64 \<Rightarrow> u64"

definition MAX_U64 :: nat where
  "MAX_U64 = 2 ^ 64 - 1"

definition gas_ops_ok :: "gas_ops \<Rightarrow> bool" where
  "gas_ops_ok q \<longleftrightarrow>
     (\<forall>a b. unat (gq_add q a b) = min (unat a + unat b) MAX_U64) \<and>
     (\<forall>a b. unat (gq_mul q a b) = min (unat a * unat b) MAX_U64) \<and>
     (\<forall>a b. gq_checked_sub q a b = (if b \<le> a then Some (a - b) else None)) \<and>
     (\<forall>a k. k \<noteq> 0 \<longrightarrow> unat (gq_to_unit q a k) = min (unat a * unat k) MAX_U64) \<and>
     (\<forall>a n d. n \<noteq> 0 \<longrightarrow> d \<noteq> 0 \<longrightarrow> unat (gq_round_down q a (n, d)) = min (unat a * unat n div unat d) MAX_U64)"

section \<open>Parameter tables\<close>

text \<open>
  One line of a macro invocation: the field of the Rust struct (a path for the native functions), the
  key under the prefix of the table, the initial value, and the two markers a line may carry.
\<close>

record gas_entry =
  p_name :: string
  p_key :: string
  p_initial :: u64
  p_optional :: bool
  p_test_only :: bool

record gas_table =
  tab_prefix :: string
  tab_entries :: "gas_entry list"

type_synonym params = "string \<Rightarrow> u64"
type_synonym gas_schedule = "string \<rightharpoonup> u64"

definition par :: "string \<Rightarrow> string \<Rightarrow> u64 \<Rightarrow> gas_entry" where
  "par name key init = \<lparr>p_name = name, p_key = key, p_initial = init, p_optional = False, p_test_only = False\<rparr>"

definition opt_par :: "string \<Rightarrow> string \<Rightarrow> u64 \<Rightarrow> gas_entry" where
  "opt_par name key init = \<lparr>p_name = name, p_key = key, p_initial = init, p_optional = True, p_test_only = False\<rparr>"

definition test_par :: "string \<Rightarrow> string \<Rightarrow> u64 \<Rightarrow> gas_entry" where
  "test_par name key init = \<lparr>p_name = name, p_key = key, p_initial = init, p_optional = False, p_test_only = True\<rparr>"

definition full_key :: "string \<Rightarrow> gas_entry \<Rightarrow> string" where
  "full_key pre e = pre @ ''.'' @ p_key e"

text \<open>A line marked \<open>test_only\<close> is compiled in only with the feature \<open>testing\<close>.\<close>

definition active :: "bool \<Rightarrow> gas_table \<Rightarrow> gas_entry list" where
  "active testing t = filter (\<lambda>e. testing \<or> \<not> p_test_only e) (tab_entries t)"

definition zeros :: params where
  "zeros = (\<lambda>_. 0)"

fun expand_get :: "string \<Rightarrow> gas_schedule \<Rightarrow> gas_entry list \<Rightarrow> params \<Rightarrow> params option" where
  "expand_get pre gas_schedule [] params = Some params"
| "expand_get pre gas_schedule (e # es) params =
     (case gas_schedule (full_key pre e) of
        Some val \<Rightarrow> expand_get pre gas_schedule es (params(p_name e := val))
      | None \<Rightarrow> if p_optional e then expand_get pre gas_schedule es params else None)"

definition from_on_chain_gas_schedule :: "bool \<Rightarrow> gas_table \<Rightarrow> gas_schedule \<Rightarrow> params option" where
  "from_on_chain_gas_schedule testing t gas_schedule = expand_get (tab_prefix t) gas_schedule (active testing t) zeros"

definition to_on_chain_gas_schedule :: "bool \<Rightarrow> gas_table \<Rightarrow> params \<Rightarrow> (string \<times> u64) list" where
  "to_on_chain_gas_schedule testing t params =
     map (\<lambda>e. (full_key (tab_prefix t) e, params (p_name e))) (active testing t)"

definition initial :: "bool \<Rightarrow> gas_table \<Rightarrow> params" where
  "initial testing t = fold (\<lambda>e params. params(p_name e := p_initial e)) (active testing t) zeros"

section \<open>The tables\<close>

definition MUL :: u64 where
  "MUL = 20"

definition LATEST_GAS_FEATURE_VERSION :: u64 where
  "LATEST_GAS_FEATURE_VERSION = 3"

definition instr_table :: gas_table where
  "instr_table = \<lparr>tab_prefix = ''instr'', tab_entries = [
    par ''nop'' ''nop'' (10 * MUL),
    par ''ret'' ''ret'' (60 * MUL),
    par ''abort'' ''abort'' (60 * MUL),
    par ''br_true'' ''br_true'' (120 * MUL),
    par ''br_false'' ''br_false'' (120 * MUL),
    par ''branch'' ''branch'' (80 * MUL),
    par ''pop'' ''pop'' (40 * MUL),
    par ''ld_u8'' ''ld_u8'' (60 * MUL),
    par ''ld_u64'' ''ld_u64'' (60 * MUL),
    par ''ld_u128'' ''ld_u128'' (80 * MUL),
    par ''ld_true'' ''ld_true'' (60 * MUL),
    par ''ld_false'' ''ld_false'' (60 * MUL),
    par ''ld_const_base'' ''ld_const.base'' (650 * MUL),
    par ''ld_const_per_byte'' ''ld_const.per_byte'' (35 * MUL),
    par ''imm_borrow_loc'' ''imm_borrow_loc'' (60 * MUL),
    par ''mut_borrow_loc'' ''mut_borrow_loc'' (60 * MUL),
    par ''imm_borrow_field'' ''imm_borrow_field'' (200 * MUL),
    par ''mut_borrow_field'' ''mut_borrow_field'' (200 * MUL),
    par ''imm_borrow_field_generic'' ''imm_borrow_field_generic'' (200 * MUL),
    par ''mut_borrow_field_generic'' ''mut_borrow_field_generic'' (200 * MUL),
    par ''copy_loc_base'' ''copy_loc.base'' (80 * MUL),
    par ''copy_loc_per_abs_val_unit'' ''copy_loc.per_abs_val_unit'' (4 * MUL),
    par ''move_loc_base'' ''move_loc.base'' (120 * MUL),
    par ''st_loc_base'' ''st_loc.base'' (120 * MUL),
    par ''call_base'' ''call.base'' (1000 * MUL),
    par ''call_per_arg'' ''call.per_arg'' (100 * MUL),
    opt_par ''call_per_local'' ''call.per_local'' (100 * MUL),
    par ''call_generic_base'' ''call_generic.base'' (1000 * MUL),
    par ''call_generic_per_ty_arg'' ''call_generic.per_ty_arg'' (100 * MUL),
    par ''call_generic_per_arg'' ''call_generic.per_arg'' (100 * MUL),
    opt_par ''call_generic_per_local'' ''call_generic.per_local'' (100 * MUL),
    par ''pack_base'' ''pack.base'' (220 * MUL),
    par ''pack_per_field'' ''pack.per_field'' (40 * MUL),
    par ''pack_generic_base'' ''pack_generic.base'' (220 * MUL),
    par ''pack_generic_per_field'' ''pack_generic.per_field'' (40 * MUL),
    par ''unpack_base'' ''unpack.base'' (220 * MUL),
    par ''unpack_per_field'' ''unpack.per_field'' (40 * MUL),
    par ''unpack_generic_base'' ''unpack_generic.base'' (220 * MUL),
    par ''unpack_generic_per_field'' ''unpack_generic.per_field'' (40 * MUL),
    par ''read_ref_base'' ''read_ref.base'' (200 * MUL),
    par ''read_ref_per_abs_val_unit'' ''read_ref.per_abs_val_unit'' (4 * MUL),
    par ''write_ref_base'' ''write_ref.base'' (200 * MUL),
    par ''freeze_ref'' ''freeze_ref'' (10 * MUL),
    par ''cast_u8'' ''cast_u8'' (120 * MUL),
    par ''cast_u64'' ''cast_u64'' (120 * MUL),
    par ''cast_u128'' ''cast_u128'' (120 * MUL),
    par ''add'' ''add'' (160 * MUL),
    par ''sub'' ''sub'' (160 * MUL),
    par ''mul'' ''mul'' (160 * MUL),
    par ''mod_'' ''mod'' (160 * MUL),
    par ''div'' ''div'' (160 * MUL),
    par ''bit_or'' ''bit_or'' (160 * MUL),
    par ''bit_and'' ''bit_and'' (160 * MUL),
    par ''xor'' ''bit_xor'' (160 * MUL),
    par ''shl'' ''bit_shl'' (160 * MUL),
    par ''shr'' ''bit_shr'' (160 * MUL),
    par ''or'' ''or'' (160 * MUL),
    par ''and'' ''and'' (160 * MUL),
    par ''not'' ''not'' (160 * MUL),
    par ''lt'' ''lt'' (160 * MUL),
    par ''gt'' ''gt'' (160 * MUL),
    par ''le'' ''le'' (160 * MUL),
    par ''ge'' ''ge'' (160 * MUL),
    par ''eq_base'' ''eq.base'' (100 * MUL),
    par ''eq_per_abs_val_unit'' ''eq.per_abs_val_unit'' (4 * MUL),
    par ''neq_base'' ''neq.base'' (100 * MUL),
    par ''neq_per_abs_val_unit'' ''neq.per_abs_val_unit'' (4 * MUL),
    par ''imm_borrow_global_base'' ''imm_borrow_global.base'' (500 * MUL),
    par ''imm_borrow_global_generic_base'' ''imm_borrow_global_generic.base'' (500 * MUL),
    par ''mut_borrow_global_base'' ''mut_borrow_global.base'' (500 * MUL),
    par ''mut_borrow_global_generic_base'' ''mut_borrow_global_generic.base'' (500 * MUL),
    par ''exists_base'' ''exists.base'' (250 * MUL),
    par ''exists_generic_base'' ''exists_generic.base'' (250 * MUL),
    par ''move_from_base'' ''move_from.base'' (350 * MUL),
    par ''move_from_generic_base'' ''move_from_generic.base'' (350 * MUL),
    par ''move_to_base'' ''move_to.base'' (500 * MUL),
    par ''move_to_generic_base'' ''move_to_generic.base'' (500 * MUL),
    par ''vec_len_base'' ''vec_len.base'' (220 * MUL),
    par ''vec_imm_borrow_base'' ''vec_imm_borrow.base'' (330 * MUL),
    par ''vec_mut_borrow_base'' ''vec_mut_borrow.base'' (330 * MUL),
    par ''vec_push_back_base'' ''vec_push_back.base'' (380 * MUL),
    par ''vec_pop_back_base'' ''vec_pop_back.base'' (260 * MUL),
    par ''vec_swap_base'' ''vec_swap.base'' (300 * MUL),
    par ''vec_pack_base'' ''vec_pack.base'' (600 * MUL),
    par ''vec_pack_per_elem'' ''vec_pack.per_elem'' (40 * MUL),
    par ''vec_unpack_base'' ''vec_unpack.base'' (500 * MUL),
    par ''vec_unpack_per_expected_elem'' ''vec_unpack.per_expected_elem'' (40 * MUL)]\<rparr>"

definition txn_table :: "u64 \<Rightarrow> gas_table" where
  "txn_table GAS_UNIT_PRICE = \<lparr>tab_prefix = ''txn'', tab_entries = [
    par ''min_transaction_gas_units'' ''min_transaction_gas_units'' 1500000,
    par ''large_transaction_cutoff'' ''large_transaction_cutoff'' 600,
    par ''intrinsic_gas_per_byte'' ''intrinsic_gas_per_byte'' 2000,
    par ''maximum_number_of_gas_units'' ''maximum_number_of_gas_units'' 2000000,
    par ''min_price_per_gas_unit'' ''min_price_per_gas_unit'' GAS_UNIT_PRICE,
    par ''max_price_per_gas_unit'' ''max_price_per_gas_unit'' 10000000000,
    par ''max_transaction_size_in_bytes'' ''max_transaction_size_in_bytes'' (64 * 1024),
    par ''gas_unit_scaling_factor'' ''gas_unit_scaling_factor'' 10000,
    par ''load_data_base'' ''load_data.base'' 16000,
    par ''load_data_per_byte'' ''load_data.per_byte'' 1000,
    par ''load_data_failure'' ''load_data.failure'' 0,
    par ''write_data_per_op'' ''write_data.per_op'' 160000,
    par ''write_data_per_new_item'' ''write_data.new_item'' 1280000,
    par ''write_data_per_byte_in_key'' ''write_data.per_byte_in_key'' 10000,
    par ''write_data_per_byte_in_val'' ''write_data.per_byte_in_val'' 10000,
    opt_par ''memory_quota'' ''memory_quota'' 10000000]\<rparr>"

definition abs_val_table :: gas_table where
  "abs_val_table = \<lparr>tab_prefix = ''misc.abs_val'', tab_entries = [
    par ''u8'' ''u8'' 40,
    par ''u64'' ''u64'' 40,
    par ''u128'' ''u128'' 40,
    par ''bool'' ''bool'' 40,
    par ''address'' ''address'' 40,
    par ''struct_'' ''struct'' 40,
    par ''vector'' ''vector'' 40,
    par ''reference'' ''reference'' 40,
    par ''per_u8_packed'' ''per_u8_packed'' 1,
    par ''per_u64_packed'' ''per_u64_packed'' 8,
    par ''per_u128_packed'' ''per_u128_packed'' 16,
    par ''per_bool_packed'' ''per_bool_packed'' 1,
    par ''per_address_packed'' ''per_address_packed'' 32]\<rparr>"

definition move_stdlib_table :: gas_table where
  "move_stdlib_table = \<lparr>tab_prefix = ''move_stdlib'', tab_entries = [
    par ''bcs.to_bytes.per_byte_serialized'' ''bcs.to_bytes.per_byte_serialized'' (10 * MUL),
    par ''bcs.to_bytes.failure'' ''bcs.to_bytes.failure'' (1000 * MUL),
    par ''hash.sha2_256.base'' ''hash.sha2_256.base'' (3000 * MUL),
    par ''hash.sha2_256.per_byte'' ''hash.sha2_256.per_byte'' (50 * MUL),
    par ''hash.sha3_256.base'' ''hash.sha3_256.base'' (4000 * MUL),
    par ''hash.sha3_256.per_byte'' ''hash.sha3_256.per_byte'' (45 * MUL),
    par ''signer.borrow_address.base'' ''signer.borrow_address.base'' (200 * MUL),
    par ''string.check_utf8.base'' ''string.check_utf8.base'' (300 * MUL),
    par ''string.check_utf8.per_byte'' ''string.check_utf8.per_byte'' (8 * MUL),
    par ''string.is_char_boundary.base'' ''string.is_char_boundary.base'' (300 * MUL),
    par ''string.sub_string.base'' ''string.sub_string.base'' (400 * MUL),
    par ''string.sub_string.per_byte'' ''string.sub_string.per_byte'' (3 * MUL),
    par ''string.index_of.base'' ''string.index_of.base'' (400 * MUL),
    par ''string.index_of.per_byte_pattern'' ''string.index_of.per_byte_pattern'' (20 * MUL),
    par ''string.index_of.per_byte_searched'' ''string.index_of.per_byte_searched'' (10 * MUL),
    test_par ''unit_test.create_signers_for_testing.base_cost'' ''unit_test.create_signers_for_testing.base'' 1,
    test_par ''unit_test.create_signers_for_testing.unit_cost'' ''unit_test.create_signers_for_testing.unit'' 1]\<rparr>"

definition aptos_framework_table :: gas_table where
  "aptos_framework_table = \<lparr>tab_prefix = ''aptos_framework'', tab_entries = [
    par ''account.create_address.base'' ''account.create_address.base'' (300 * MUL),
    par ''account.create_signer.base'' ''account.create_signer.base'' (300 * MUL),
    par ''bls12381.base'' ''bls12381.base'' (150 * MUL),
    par ''bls12381.per_pubkey_deserialize'' ''bls12381.per_pubkey_deserialize'' (109000 * MUL),
    par ''bls12381.per_pubkey_aggregate'' ''bls12381.per_pubkey_aggregate'' (4200 * MUL),
    par ''bls12381.per_pubkey_subgroup_check'' ''bls12381.per_pubkey_subgroup_check'' (370000 * MUL),
    par ''bls12381.per_sig_deserialize'' ''bls12381.per_sig_deserialize'' (222000 * MUL),
    par ''bls12381.per_sig_aggregate'' ''bls12381.per_sig_aggregate'' (11650 * MUL),
    par ''bls12381.per_sig_subgroup_check'' ''bls12381.per_sig_subgroup_check'' (460500 * MUL),
    par ''bls12381.per_sig_verify'' ''bls12381.per_sig_verify'' (8485000 * MUL),
    par ''bls12381.per_pop_verify'' ''bls12381.per_pop_verify'' (10300000 * MUL),
    par ''bls12381.per_pairing'' ''bls12381.per_pairing'' (4013000 * MUL),
    par ''bls12381.per_msg_hashing'' ''bls12381.per_msg_hashing'' (1540000 * MUL),
    par ''bls12381.per_byte_hashing'' ''bls12381.per_byte_hashing'' (50 * MUL),
    par ''ed25519.base'' ''signature.base'' (150 * MUL),
    par ''ed25519.per_pubkey_deserialize'' ''signature.per_pubkey_deserialize'' (38000 * MUL),
    par ''ed25519.per_pubkey_small_order_check'' ''signature.per_pubkey_small_order_check'' (6350 * MUL),
    par ''ed25519.per_sig_deserialize'' ''signature.per_sig_deserialize'' (375 * MUL),
    par ''ed25519.per_sig_strict_verify'' ''signature.per_sig_strict_verify'' (267000 * MUL),
    par ''ed25519.per_msg_hashing_base'' ''signature.per_msg_hashing_base'' (3240 * MUL),
    par ''ed25519.per_msg_byte_hashing'' ''signature.per_msg_byte_hashing'' (60 * MUL),
    par ''secp256k1.base'' ''secp256k1.base'' (150 * MUL),
    par ''secp256k1.ecdsa_recover'' ''secp256k1.ecdsa_recover'' (1610000 * MUL),
    par ''ristretto255.basepoint_mul'' ''ristretto255.basepoint_mul'' (128000 * MUL),
    par ''ristretto255.basepoint_double_mul'' ''ristretto255.basepoint_double_mul'' (440000 * MUL),
    par ''ristretto255.point_add'' ''ristretto255.point_add'' (2135 * MUL),
    par ''ristretto255.point_compress'' ''ristretto255.point_compress'' (40000 * MUL),
    par ''ristretto255.point_decompress'' ''ristretto255.point_decompress'' (40500 * MUL),
    par ''ristretto255.point_equals'' ''ristretto255.point_equals'' (2300 * MUL),
    par ''ristretto255.point_from_64_uniform_bytes'' ''ristretto255.point_from_64_uniform_bytes'' (81500 * MUL),
    par ''ristretto255.point_identity'' ''ristretto255.point_identity'' (150 * MUL),
    par ''ristretto255.point_mul'' ''ristretto255.point_mul'' (471000 * MUL),
    par ''ristretto255.point_neg'' ''ristretto255.point_neg'' (360 * MUL),
    par ''ristretto255.point_sub'' ''ristretto255.point_sub'' (2130 * MUL),
    par ''ristretto255.point_parse_arg'' ''ristretto255.point_parse_arg'' (150 * MUL),
    par ''ristretto255.sha512_per_byte'' ''ristretto255.scalar_sha512_per_byte'' (60 * MUL),
    par ''ristretto255.sha512_per_hash'' ''ristretto255.scalar_sha512_per_hash'' (3240 * MUL),
    par ''ristretto255.scalar_add'' ''ristretto255.scalar_add'' (770 * MUL),
    par ''ristretto255.scalar_reduced_from_32_bytes'' ''ristretto255.scalar_reduced_from_32_bytes'' (710 * MUL),
    par ''ristretto255.scalar_uniform_from_64_bytes'' ''ristretto255.scalar_uniform_from_64_bytes'' (1245 * MUL),
    par ''ristretto255.scalar_from_u128'' ''ristretto255.scalar_from_u128'' (175 * MUL),
    par ''ristretto255.scalar_from_u64'' ''ristretto255.scalar_from_u64'' (175 * MUL),
    par ''ristretto255.scalar_invert'' ''ristretto255.scalar_invert'' (110000 * MUL),
    par ''ristretto255.scalar_is_canonical'' ''ristretto255.scalar_is_canonical'' (1150 * MUL),
    par ''ristretto255.scalar_mul'' ''ristretto255.scalar_mul'' (1065 * MUL),
    par ''ristretto255.scalar_neg'' ''ristretto255.scalar_neg'' (725 * MUL),
    par ''ristretto255.scalar_sub'' ''ristretto255.scalar_sub'' (1060 * MUL),
    par ''ristretto255.scalar_parse_arg'' ''ristretto255.scalar_parse_arg'' (150 * MUL),
    par ''hash.sip_hash.base'' ''hash.sip_hash.base'' (1000 * MUL),
    par ''hash.sip_hash.per_byte'' ''hash.sip_hash.per_byte'' (20 * MUL),
    opt_par ''hash.keccak256.base'' ''hash.keccak256.base'' (4000 * MUL),
    opt_par ''hash.keccak256.per_byte'' ''hash.keccak256.per_byte'' (45 * MUL),
    par ''type_info.type_of.base'' ''type_info.type_of.base'' (300 * MUL),
    par ''type_info.type_of.per_byte_in_str'' ''type_info.type_of.per_abstract_memory_unit'' (5 * MUL),
    par ''type_info.type_name.base'' ''type_info.type_name.base'' (300 * MUL),
    par ''type_info.type_name.per_byte_in_str'' ''type_info.type_name.per_abstract_memory_unit'' (5 * MUL),
    par ''util.from_bytes.base'' ''util.from_bytes.base'' (300 * MUL),
    par ''util.from_bytes.per_byte'' ''util.from_bytes.per_byte'' (5 * MUL),
    par ''transaction_context.get_script_hash.base'' ''transaction_context.get_script_hash.base'' (200 * MUL),
    par ''code.request_publish.base'' ''code.request_publish.base'' (500 * MUL),
    par ''code.request_publish.per_byte'' ''code.request_publish.per_byte'' (2 * MUL),
    par ''event.write_to_event_store.base'' ''event.write_to_event_store.base'' 500000,
    par ''event.write_to_event_store.per_abstract_value_unit'' ''event.write_to_event_store.per_abstract_memory_unit'' 5000,
    par ''state_storage.get_usage.base_cost'' ''state_storage.get_usage.base'' (500 * MUL),
    par ''aggregator.add.base'' ''aggregator.add.base'' (300 * MUL),
    par ''aggregator.read.base'' ''aggregator.read.base'' (300 * MUL),
    par ''aggregator.sub.base'' ''aggregator.sub.base'' (300 * MUL),
    par ''aggregator.destroy.base'' ''aggregator.destroy.base'' (500 * MUL),
    par ''aggregator_factory.new_aggregator.base'' ''aggregator_factory.new_aggregator.base'' (500 * MUL)]\<rparr>"

definition table_table :: gas_table where
  "table_table = \<lparr>tab_prefix = ''table'', tab_entries = [
    par ''common.load_base'' ''common.load.base'' 8000,
    par ''common.load_per_byte'' ''common.load.per_byte'' 1000,
    par ''common.load_failure'' ''common.load.failure'' 0,
    par ''new_table_handle.base'' ''new_table_handle.base'' (1000 * MUL),
    par ''add_box.base'' ''add_box.base'' (1200 * MUL),
    par ''add_box.per_byte_serialized'' ''add_box.per_byte_serialized'' (10 * MUL),
    par ''borrow_box.base'' ''borrow_box.base'' (1200 * MUL),
    par ''borrow_box.per_byte_serialized'' ''borrow_box.per_byte_serialized'' (10 * MUL),
    par ''contains_box.base'' ''contains_box.base'' (1200 * MUL),
    par ''contains_box.per_byte_serialized'' ''contains_box.per_byte_serialized'' (10 * MUL),
    par ''remove_box.base'' ''remove_box.base'' (1200 * MUL),
    par ''remove_box.per_byte_serialized'' ''remove_box.per_byte_serialized'' (10 * MUL),
    par ''destroy_empty_box.base'' ''destroy_empty_box.base'' (1200 * MUL),
    par ''drop_unchecked_box.base'' ''drop_unchecked_box.base'' (100 * MUL)]\<rparr>"

section \<open>All parameters of a node\<close>

record native_gas_parameters =
  move_stdlib :: params
  aptos_framework :: params
  table_ext :: params

record aptos_gas_parameters =
  misc :: params
  instr :: params
  txn :: params
  natives :: native_gas_parameters

definition native_from_on_chain :: "bool \<Rightarrow> gas_schedule \<Rightarrow> native_gas_parameters option" where
  "native_from_on_chain testing gas_schedule = do {
     a \<leftarrow> from_on_chain_gas_schedule testing move_stdlib_table gas_schedule;
     b \<leftarrow> from_on_chain_gas_schedule testing aptos_framework_table gas_schedule;
     c \<leftarrow> from_on_chain_gas_schedule testing table_table gas_schedule;
     Some \<lparr>move_stdlib = a, aptos_framework = b, table_ext = c\<rparr> }"

definition native_to_on_chain :: "bool \<Rightarrow> native_gas_parameters \<Rightarrow> (string \<times> u64) list" where
  "native_to_on_chain testing p =
     to_on_chain_gas_schedule testing move_stdlib_table (move_stdlib p) @
     to_on_chain_gas_schedule testing aptos_framework_table (aptos_framework p) @
     to_on_chain_gas_schedule testing table_table (table_ext p)"

definition native_zeros :: native_gas_parameters where
  "native_zeros = \<lparr>move_stdlib = zeros, aptos_framework = zeros, table_ext = zeros\<rparr>"

definition native_initial :: "bool \<Rightarrow> native_gas_parameters" where
  "native_initial testing =
     \<lparr>move_stdlib = initial testing move_stdlib_table, aptos_framework = initial testing aptos_framework_table,
      table_ext = initial testing table_table\<rparr>"

definition misc_from_on_chain :: "bool \<Rightarrow> gas_schedule \<Rightarrow> params option" where
  "misc_from_on_chain testing gas_schedule = from_on_chain_gas_schedule testing abs_val_table gas_schedule"

definition misc_to_on_chain :: "bool \<Rightarrow> params \<Rightarrow> (string \<times> u64) list" where
  "misc_to_on_chain testing p = to_on_chain_gas_schedule testing abs_val_table p"

definition aptos_from_on_chain :: "bool \<Rightarrow> u64 \<Rightarrow> gas_schedule \<Rightarrow> aptos_gas_parameters option" where
  "aptos_from_on_chain testing price gas_schedule = do {
     a \<leftarrow> misc_from_on_chain testing gas_schedule;
     b \<leftarrow> from_on_chain_gas_schedule testing instr_table gas_schedule;
     c \<leftarrow> from_on_chain_gas_schedule testing (txn_table price) gas_schedule;
     d \<leftarrow> native_from_on_chain testing gas_schedule;
     Some \<lparr>misc = a, instr = b, txn = c, natives = d\<rparr> }"

definition aptos_to_on_chain :: "bool \<Rightarrow> u64 \<Rightarrow> aptos_gas_parameters \<Rightarrow> (string \<times> u64) list" where
  "aptos_to_on_chain testing price p =
     to_on_chain_gas_schedule testing instr_table (instr p) @
     to_on_chain_gas_schedule testing (txn_table price) (txn p) @
     native_to_on_chain testing (natives p) @ misc_to_on_chain testing (misc p)"

definition aptos_zeros :: aptos_gas_parameters where
  "aptos_zeros = \<lparr>misc = zeros, instr = zeros, txn = zeros, natives = native_zeros\<rparr>"

definition aptos_initial :: "bool \<Rightarrow> u64 \<Rightarrow> aptos_gas_parameters" where
  "aptos_initial testing price =
     \<lparr>misc = initial testing abs_val_table, instr = initial testing instr_table,
      txn = initial testing (txn_table price), natives = native_initial testing\<rparr>"

text \<open>The schedule proposed for the chain by the generator (\<open>gen.rs\<close>).\<close>

definition current_gas_schedule :: "bool \<Rightarrow> u64 \<Rightarrow> u64 \<times> (string \<times> u64) list" where
  "current_gas_schedule testing price =
     (LATEST_GAS_FEATURE_VERSION, aptos_to_on_chain testing price (aptos_initial testing price))"

section \<open>Which schedules are accepted\<close>

definition gas_tables :: "u64 \<Rightarrow> gas_table list" where
  "gas_tables price =
     [instr_table, txn_table price, abs_val_table, move_stdlib_table, aptos_framework_table, table_table]"

text \<open>Keys and fields are unique in every table, as the unit tests of the two macros demand.\<close>

definition keys_unique :: "gas_table \<Rightarrow> bool" where
  "keys_unique t \<longleftrightarrow> distinct (map p_key (tab_entries t)) \<and> distinct (map p_name (tab_entries t))"

lemmas entry_defs = par_def opt_par_def test_par_def

lemma instr_unique: "keys_unique instr_table"
  unfolding keys_unique_def by (simp add: instr_table_def entry_defs)

lemma txn_unique: "keys_unique (txn_table price)"
  unfolding keys_unique_def by (simp add: txn_table_def entry_defs)

lemma abs_val_unique: "keys_unique abs_val_table"
  unfolding keys_unique_def by (simp add: abs_val_table_def entry_defs)

lemma move_stdlib_unique: "keys_unique move_stdlib_table"
  unfolding keys_unique_def by (simp add: move_stdlib_table_def entry_defs)

lemma aptos_framework_unique: "keys_unique aptos_framework_table"
  unfolding keys_unique_def by (simp add: aptos_framework_table_def entry_defs)

lemma table_unique: "keys_unique table_table"
  unfolding keys_unique_def by (simp add: table_table_def entry_defs)

lemma tables_unique: "t \<in> set (gas_tables price) \<Longrightarrow> keys_unique t"
  by (auto simp: gas_tables_def instr_unique txn_unique abs_val_unique move_stdlib_unique
      aptos_framework_unique table_unique)

lemma keys_unique_active:
  assumes "keys_unique t"
  shows "distinct (map p_name (active testing t))" "distinct (map (full_key (tab_prefix t)) (active testing t))"
proof -
  have "inj_on (full_key (tab_prefix t)) (set (active testing t))" "distinct (active testing t)"
    using assms by (auto simp: keys_unique_def active_def distinct_map full_key_def inj_on_def)
  then show "distinct (map (full_key (tab_prefix t)) (active testing t))" by (simp add: distinct_map)
  show "distinct (map p_name (active testing t))"
    using assms by (simp add: keys_unique_def active_def distinct_map_filter)
qed

definition read_field :: "string \<Rightarrow> gas_schedule \<Rightarrow> gas_entry list \<Rightarrow> params \<Rightarrow> params" where
  "read_field pre sched es q n =
     (case find (\<lambda>e. p_name e = n) es of
        Some e \<Rightarrow> (case sched (full_key pre e) of Some v \<Rightarrow> v | None \<Rightarrow> q n)
      | None \<Rightarrow> q n)"

lemma expand_get_spec:
  assumes "distinct (map p_name es)"
  shows "expand_get pre sched es q =
     (if \<exists>e \<in> set es. \<not> p_optional e \<and> sched (full_key pre e) = None then None
      else Some (read_field pre sched es q))"
  using assms
proof (induction es arbitrary: q)
  case Nil
  show ?case by (simp add: read_field_def fun_eq_iff)
next
  case (Cons e es)
  then have fresh: "find (\<lambda>e'. p_name e' = p_name e) es = None"
    by (auto simp: find_None_iff) (metis image_eqI)
  have upd: "read_field pre sched es (q(p_name e := v)) = read_field pre sched (e # es) q"
    if "sched (full_key pre e) = Some v" for v
    using that fresh by (auto simp: read_field_def fun_eq_iff split: option.split)
  have skip: "read_field pre sched es q = read_field pre sched (e # es) q" if "sched (full_key pre e) = None"
    using that fresh by (auto simp: read_field_def fun_eq_iff)
  show ?case using Cons upd skip by (auto split: option.split)
qed

lemma table_prefixes [simp]:
  "tab_prefix instr_table = ''instr''" "tab_prefix (txn_table price) = ''txn''"
  "tab_prefix abs_val_table = ''misc.abs_val''" "tab_prefix move_stdlib_table = ''move_stdlib''"
  "tab_prefix aptos_framework_table = ''aptos_framework''" "tab_prefix table_table = ''table''"
  by (simp_all add: instr_table_def txn_table_def abs_val_table_def move_stdlib_table_def
      aptos_framework_table_def table_table_def)

text \<open>
  When a schedule is accepted and what is read from it, for every parameter table of the crate: it is
  rejected exactly when the key of a required parameter is missing; otherwise each field has the value
  the schedule gives its key, an optional parameter that is missing is zero, and entries the table does
  not name play no part.
\<close>

theorem gas_schedule_accepted:
  assumes "t \<in> set (gas_tables price)"
  shows "from_on_chain_gas_schedule testing t sched =
     (if \<exists>e \<in> set (active testing t). \<not> p_optional e \<and> sched (full_key (tab_prefix t) e) = None then None
      else Some (\<lambda>n. case find (\<lambda>e. p_name e = n) (active testing t) of
                       Some e \<Rightarrow> (case sched (full_key (tab_prefix t) e) of Some v \<Rightarrow> v | None \<Rightarrow> 0)
                     | None \<Rightarrow> 0))"
  unfolding from_on_chain_gas_schedule_def
    expand_get_spec[OF keys_unique_active(1)[OF tables_unique[OF assms]]]
  by (simp add: read_field_def zeros_def fun_eq_iff)

theorem gas_schedule_accepted_witness:
  "from_on_chain_gas_schedule False table_table (\<lambda>_. None) = None \<and>
   map_option (\<lambda>p. (p ''memory_quota'', p ''large_transaction_cutoff''))
     (from_on_chain_gas_schedule False (txn_table 100) ((\<lambda>_. Some 7)(''txn.memory_quota'' := None))) = Some (0, 7)"
proof
  show "from_on_chain_gas_schedule False table_table (\<lambda>_. None) = None"
    using gas_schedule_accepted[of table_table 0 False "\<lambda>_. None"]
    by (simp add: gas_tables_def table_table_def active_def entry_defs)
  let ?s = "(\<lambda>_. Some 7)(''txn.memory_quota'' := None) :: gas_schedule"
  have a: "active False (txn_table 100) = tab_entries (txn_table 100)"
    by (simp add: active_def txn_table_def entry_defs)
  have r: "\<not> (\<exists>e \<in> set (tab_entries (txn_table 100)). \<not> p_optional e \<and> ?s (full_key ''txn'' e) = None)"
    by (simp add: txn_table_def entry_defs full_key_def)
  have f: "find (\<lambda>e. p_name e = ''memory_quota'') (tab_entries (txn_table 100)) =
      Some (opt_par ''memory_quota'' ''memory_quota'' 10000000)"
    "find (\<lambda>e. p_name e = ''large_transaction_cutoff'') (tab_entries (txn_table 100)) =
      Some (par ''large_transaction_cutoff'' ''large_transaction_cutoff'' 600)"
    by (simp_all add: txn_table_def entry_defs)
  have "txn_table 100 \<in> set (gas_tables 100)" by (simp add: gas_tables_def)
  from gas_schedule_accepted[OF this, of False ?s]
  show "map_option (\<lambda>p. (p ''memory_quota'', p ''large_transaction_cutoff''))
     (from_on_chain_gas_schedule False (txn_table 100) ?s) = Some (0, 7)"
    using r unfolding a table_prefixes by (simp only: if_False option.map f) (simp add: entry_defs full_key_def)
qed

section \<open>Round trip\<close>

text \<open>
  A parameter struct that is zero outside the fields its table maps.  The Rust struct of the standard library
  has further fields (\<^verbatim>\<open>allow_unmapped\<close> counts those of \<^verbatim>\<open>bcs\<close>, \<^verbatim>\<open>hash\<close> and
  \<^verbatim>\<open>vector\<close>), which are never written to a schedule and are zero after reading one.
\<close>

definition declared :: "bool \<Rightarrow> gas_table \<Rightarrow> params \<Rightarrow> bool" where
  "declared testing t p \<longleftrightarrow> (\<forall>n. n \<notin> p_name ` set (active testing t) \<longrightarrow> p n = 0)"

definition aptos_params_ok :: "bool \<Rightarrow> u64 \<Rightarrow> aptos_gas_parameters \<Rightarrow> bool" where
  "aptos_params_ok testing price p \<longleftrightarrow>
     declared testing abs_val_table (misc p) \<and> declared testing instr_table (instr p) \<and>
     declared testing (txn_table price) (txn p) \<and> declared testing move_stdlib_table (move_stdlib (natives p)) \<and>
     declared testing aptos_framework_table (aptos_framework (natives p)) \<and>
     declared testing table_table (table_ext (natives p))"

lemma initial_declared: "declared testing t (initial testing t)"
proof -
  have "fold (\<lambda>e params. params(p_name e := p_initial e)) es q n = q n" if "n \<notin> p_name ` set es"
    for es :: "gas_entry list" and q :: params and n
    using that by (induction es arbitrary: q) auto
  then show ?thesis by (simp add: declared_def initial_def zeros_def)
qed

lemma aptos_initial_ok: "aptos_params_ok testing price (aptos_initial testing price)"
  by (simp add: aptos_params_ok_def aptos_initial_def native_initial_def initial_declared)

lemma table_roundtrip:
  assumes u: "keys_unique t" and d: "declared testing t p"
    and s: "\<And>k v. (k, v) \<in> set (to_on_chain_gas_schedule testing t p) \<Longrightarrow> sched k = Some v"
  shows "from_on_chain_gas_schedule testing t sched = Some p"
proof -
  let ?pre = "tab_prefix t" and ?es = "active testing t"
  have v: "sched (full_key ?pre e) = Some (p (p_name e))" if "e \<in> set ?es" for e
    using s that by (auto simp: to_on_chain_gas_schedule_def)
  have "read_field ?pre sched ?es zeros = p"
  proof
    fix n
    show "read_field ?pre sched ?es zeros n = p n"
    proof (cases "find (\<lambda>e. p_name e = n) ?es")
      case None
      then have "n \<notin> p_name ` set ?es" by (auto simp: find_None_iff)
      with None d show ?thesis by (simp add: read_field_def declared_def zeros_def)
    next
      case (Some e)
      then have "e \<in> set ?es" "p_name e = n" by (auto simp: find_Some_iff)
      with Some v show ?thesis by (simp add: read_field_def)
    qed
  qed
  with v show ?thesis
    unfolding from_on_chain_gas_schedule_def expand_get_spec[OF keys_unique_active(1)[OF u]] by auto
qed

lemma fst_to_on_chain: "map fst (to_on_chain_gas_schedule testing t p) = map (full_key (tab_prefix t)) (active testing t)"
  by (simp add: to_on_chain_gas_schedule_def)

lemma on_chain_keys_distinct: "distinct (map fst (aptos_to_on_chain testing price p))"
proof -
  have d: "distinct (map fst (to_on_chain_gas_schedule testing t q))" if "keys_unique t" for t q
    unfolding fst_to_on_chain by (rule keys_unique_active(2)[OF that])
  have k: "fst ` set (to_on_chain_gas_schedule testing t q) = full_key (tab_prefix t) ` set (active testing t)" for t q
    using arg_cong[OF fst_to_on_chain, of set testing t q] by simp
  show ?thesis
    unfolding aptos_to_on_chain_def native_to_on_chain_def misc_to_on_chain_def map_append distinct_append
    by (auto simp: d instr_unique txn_unique abs_val_unique move_stdlib_unique aptos_framework_unique
        table_unique k full_key_def)
qed

text \<open>
  C36. Nothing is lost on chain: if a schedule contains the entries written for a node's parameters, then
  reading it gives exactly these parameters back, whatever further entries it has, provided the fields that
  no table maps are zero.  All six tables take part, and no key of one collides with a key of another.
\<close>

theorem gas_schedule_roundtrip:
  assumes ok: "aptos_params_ok testing price p"
    and sub: "map_of (aptos_to_on_chain testing price p) \<subseteq>\<^sub>m sched"
  shows "aptos_from_on_chain testing price sched = Some p"
proof -
  have s: "sched k = Some v" if "(k, v) \<in> set (aptos_to_on_chain testing price p)" for k v
    using map_of_is_SomeI[OF on_chain_keys_distinct that] sub by (metis domI map_le_def)
  note r = table_roundtrip[where testing = testing and sched = sched]
  have "from_on_chain_gas_schedule testing abs_val_table sched = Some (misc p)"
    "from_on_chain_gas_schedule testing instr_table sched = Some (instr p)"
    "from_on_chain_gas_schedule testing (txn_table price) sched = Some (txn p)"
    "from_on_chain_gas_schedule testing move_stdlib_table sched = Some (move_stdlib (natives p))"
    "from_on_chain_gas_schedule testing aptos_framework_table sched = Some (aptos_framework (natives p))"
    "from_on_chain_gas_schedule testing table_table sched = Some (table_ext (natives p))"
    using ok unfolding aptos_params_ok_def
    by (auto intro!: r abs_val_unique instr_unique txn_unique move_stdlib_unique aptos_framework_unique
        table_unique s simp: aptos_to_on_chain_def native_to_on_chain_def misc_to_on_chain_def)
  then show ?thesis
    by (simp add: aptos_from_on_chain_def native_from_on_chain_def misc_from_on_chain_def)
qed

theorem gas_schedule_roundtrip_witness:
  "aptos_from_on_chain False 100 (map_of (snd (current_gas_schedule False 100))) = Some (aptos_initial False 100)"
  using gas_schedule_roundtrip[OF aptos_initial_ok map_le_refl]
  by (simp add: current_gas_schedule_def)

end
