(* ===== verification/Value_Size.thy ===== *)
theory Value_Size
  imports Gas_Params
begin

text \<open>
  Abstract value sizes (\<open>aptos-gas/src/misc.rs\<close>): the visitors that measure a Move value and the
  functions that run them.  A value belongs to \<open>move_vm_types\<close> and is seen only through the calls it
  makes on a visitor, so it is modelled as the tree of these calls; a node is descended into when the
  visitor answers \<open>true\<close>.  The lemmas give the sizes in closed form, and show that the stack and the
  heap part of a value always add up to its size.
\<close>

section \<open>Values as seen by a visitor\<close>

datatype value_view =
    VU8 u8
  | VU64 u64
  | VU128 u128
  | VBool bool
  | VAddress bytes
  | VStruct "value_view list"
  | VVec "value_view list"
  | VVecU8 "u8 list"
  | VVecU64 "u64 list"
  | VVecU128 "u128 list"
  | VVecBool "bool list"
  | VVecAddress "bytes list"
  | VRef bool value_view

record 's visitor =
  visit_u8 :: "nat \<Rightarrow> u8 \<Rightarrow> 's \<Rightarrow> 's option"
  visit_u64 :: "nat \<Rightarrow> u64 \<Rightarrow> 's \<Rightarrow> 's option"
  visit_u128 :: "nat \<Rightarrow> u128 \<Rightarrow> 's \<Rightarrow> 's option"
  visit_bool :: "nat \<Rightarrow> bool \<Rightarrow> 's \<Rightarrow> 's option"
  visit_address :: "nat \<Rightarrow> bytes \<Rightarrow> 's \<Rightarrow> 's option"
  visit_struct :: "nat \<Rightarrow> nat \<Rightarrow> 's \<Rightarrow> (bool \<times> 's) option"
  visit_vec :: "nat \<Rightarrow> nat \<Rightarrow> 's \<Rightarrow> (bool \<times> 's) option"
  visit_vec_u8 :: "nat \<Rightarrow> u8 list \<Rightarrow> 's \<Rightarrow> 's option"
  visit_vec_u64 :: "nat \<Rightarrow> u64 list \<Rightarrow> 's \<Rightarrow> 's option"
  visit_vec_u128 :: "nat \<Rightarrow> u128 list \<Rightarrow> 's \<Rightarrow> 's option"
  visit_vec_bool :: "nat \<Rightarrow> bool list \<Rightarrow> 's \<Rightarrow> 's option"
  visit_vec_address :: "nat \<Rightarrow> bytes list \<Rightarrow> 's \<Rightarrow> 's option"
  visit_ref :: "nat \<Rightarrow> bool \<Rightarrow> 's \<Rightarrow> (bool \<times> 's) option"

fun accept :: "'s visitor \<Rightarrow> nat \<Rightarrow> value_view \<Rightarrow> 's \<Rightarrow> 's option"
  and accept_all :: "'s visitor \<Rightarrow> nat \<Rightarrow> value_view list \<Rightarrow> 's \<Rightarrow> 's option" where
  "accept vis depth (VU8 x) s = visit_u8 vis depth x s"
| "accept vis depth (VU64 x) s = visit_u64 vis depth x s"
| "accept vis depth (VU128 x) s = visit_u128 vis depth x s"
| "accept vis depth (VBool x) s = visit_bool vis depth x s"
| "accept vis depth (VAddress x) s = visit_address vis depth x s"
| "accept vis depth (VStruct fs) s = do {
     (down, s') \<leftarrow> visit_struct vis depth (length fs) s;
     if down then accept_all vis (depth + 1) fs s' else Some s' }"
| "accept vis depth (VVec es) s = do {
     (down, s') \<leftarrow> visit_vec vis depth (length es) s;
     if down then accept_all vis (depth + 1) es s' else Some s' }"
| "accept vis depth (VVecU8 xs) s = visit_vec_u8 vis depth xs s"
| "accept vis depth (VVecU64 xs) s = visit_vec_u64 vis depth xs s"
| "accept vis depth (VVecU128 xs) s = visit_vec_u128 vis depth xs s"
| "accept vis depth (VVecBool xs) s = visit_vec_bool vis depth xs s"
| "accept vis depth (VVecAddress xs) s = visit_vec_address vis depth xs s"
| "accept vis depth (VRef g w) s = do {
     (down, s') \<leftarrow> visit_ref vis depth g s;
     if down then accept vis (depth + 1) w s' else Some s' }"
| "accept_all vis depth [] s = Some s"
| "accept_all vis depth (v # vs) s = do { s' \<leftarrow> accept vis depth v s; accept_all vis depth vs s' }"

section \<open>The visitors\<close>

text \<open>\<open>AbstractValueSizeVisitor\<close>; its state is the size so far.\<close>

definition packed_vec_size :: "gas_ops \<Rightarrow> params \<Rightarrow> u64 \<Rightarrow> string \<Rightarrow> nat \<Rightarrow> u64" where
  "packed_vec_size q p feature_version per len =
     (let size = gq_mul q (p per) (of_nat len)
      in if feature_version \<ge> 3 then gq_add q size (p ''vector'') else size)"

definition size_visitor :: "gas_ops \<Rightarrow> params \<Rightarrow> u64 \<Rightarrow> u64 visitor" where
  "size_visitor q p feature_version =
     \<lparr>visit_u8 = (\<lambda>_ _ s. Some (gq_add q s (p ''u8''))),
      visit_u64 = (\<lambda>_ _ s. Some (gq_add q s (p ''u64''))),
      visit_u128 = (\<lambda>_ _ s. Some (gq_add q s (p ''u128''))),
      visit_bool = (\<lambda>_ _ s. Some (gq_add q s (p ''bool''))),
      visit_address = (\<lambda>_ _ s. Some (gq_add q s (p ''address''))),
      visit_struct = (\<lambda>_ _ s. Some (True, gq_add q s (p ''struct_''))),
      visit_vec = (\<lambda>_ _ s. Some (True, gq_add q s (p ''vector''))),
      visit_vec_u8 = (\<lambda>_ vals s. Some (gq_add q s (packed_vec_size q p feature_version ''per_u8_packed'' (length vals)))),
      visit_vec_u64 = (\<lambda>_ vals s. Some (gq_add q s (packed_vec_size q p feature_version ''per_u64_packed'' (length vals)))),
      visit_vec_u128 = (\<lambda>_ vals s. Some (gq_add q s (packed_vec_size q p feature_version ''per_u128_packed'' (length vals)))),
      visit_vec_bool = (\<lambda>_ vals s. Some (gq_add q s (packed_vec_size q p feature_version ''per_bool_packed'' (length vals)))),
      visit_vec_address = (\<lambda>_ vals s. Some (gq_add q s (packed_vec_size q p feature_version ''per_address_packed'' (length vals)))),
      visit_ref = (\<lambda>_ _ s. Some (False, gq_add q s (p ''reference'')))\<rparr>"

text \<open>\<open>DerefVisitor\<close>: the state of the inner visitor with the offset of the depth.\<close>

definition shift_visit :: "(nat \<Rightarrow> 'a \<Rightarrow> 's \<Rightarrow> 's option) \<Rightarrow> nat \<Rightarrow> 'a \<Rightarrow> 's \<times> nat \<Rightarrow> ('s \<times> nat) option" where
  "shift_visit visit depth val = (\<lambda>(s, offset).
     if offset \<le> depth then map_option (\<lambda>s'. (s', offset)) (visit (depth - offset) val s) else None)"

definition shift_visit_node ::
  "(nat \<Rightarrow> nat \<Rightarrow> 's \<Rightarrow> (bool \<times> 's) option) \<Rightarrow> nat \<Rightarrow> nat \<Rightarrow> 's \<times> nat \<Rightarrow> (bool \<times> 's \<times> nat) option" where
  "shift_visit_node visit depth len = (\<lambda>(s, offset).
     if offset \<le> depth then map_option (\<lambda>(down, s'). (down, s', offset)) (visit (depth - offset) len s) else None)"

definition deref_visitor :: "'s visitor \<Rightarrow> ('s \<times> nat) visitor" where
  "deref_visitor inner =
     \<lparr>visit_u8 = shift_visit (visit_u8 inner), visit_u64 = shift_visit (visit_u64 inner),
      visit_u128 = shift_visit (visit_u128 inner), visit_bool = shift_visit (visit_bool inner),
      visit_address = shift_visit (visit_address inner),
      visit_struct = shift_visit_node (visit_struct inner), visit_vec = shift_visit_node (visit_vec inner),
      visit_vec_u8 = shift_visit (visit_vec_u8 inner), visit_vec_u64 = shift_visit (visit_vec_u64 inner),
      visit_vec_u128 = shift_visit (visit_vec_u128 inner), visit_vec_bool = shift_visit (visit_vec_bool inner),
      visit_vec_address = shift_visit (visit_vec_address inner),
      visit_ref = (\<lambda>depth _ (s, offset). if depth = 0 then Some (True, s, 1) else None)\<rparr>"

text \<open>The visitor of \<open>abstract_stack_size\<close>; its state is \<open>res\<close>.\<close>

definition stack_vec :: "params \<Rightarrow> u64 \<Rightarrow> u64 option" where
  "stack_vec p feature_version = Some (if feature_version < 3 then 0 else p ''vector'')"

definition stack_visitor :: "params \<Rightarrow> u64 \<Rightarrow> u64 option visitor" where
  "stack_visitor p feature_version =
     \<lparr>visit_u8 = (\<lambda>_ _ _. Some (Some (p ''u8''))), visit_u64 = (\<lambda>_ _ _. Some (Some (p ''u64''))),
      visit_u128 = (\<lambda>_ _ _. Some (Some (p ''u128''))), visit_bool = (\<lambda>_ _ _. Some (Some (p ''bool''))),
      visit_address = (\<lambda>_ _ _. Some (Some (p ''address''))),
      visit_struct = (\<lambda>_ _ _. Some (False, Some (p ''struct_''))),
      visit_vec = (\<lambda>_ _ _. Some (False, Some (p ''vector''))),
      visit_vec_u8 = (\<lambda>_ _ _. Some (stack_vec p feature_version)),
      visit_vec_u64 = (\<lambda>_ _ _. Some (stack_vec p feature_version)),
      visit_vec_u128 = (\<lambda>_ _ _. Some (stack_vec p feature_version)),
      visit_vec_bool = (\<lambda>_ _ _. Some (stack_vec p feature_version)),
      visit_vec_address = (\<lambda>_ _ _. Some (stack_vec p feature_version)),
      visit_ref = (\<lambda>_ _ _. Some (False, Some (p ''reference'')))\<rparr>"

text \<open>The visitor of \<open>abstract_packed_size\<close>.\<close>

definition packed_visitor :: "gas_ops \<Rightarrow> params \<Rightarrow> u64 option visitor" where
  "packed_visitor q p =
     \<lparr>visit_u8 = (\<lambda>_ _ _. Some (Some (gq_mul q (p ''per_u8_packed'') 1))),
      visit_u64 = (\<lambda>_ _ _. Some (Some (gq_mul q (p ''per_u64_packed'') 1))),
      visit_u128 = (\<lambda>_ _ _. Some (Some (gq_mul q (p ''per_u128_packed'') 1))),
      visit_bool = (\<lambda>_ _ _. Some (Some (gq_mul q (p ''per_bool_packed'') 1))),
      visit_address = (\<lambda>_ _ _. Some (Some (gq_mul q (p ''per_address_packed'') 1))),
      visit_struct = (\<lambda>_ _ _. Some (False, Some (p ''struct_''))),
      visit_vec = (\<lambda>_ _ _. Some (False, Some (p ''vector''))),
      visit_vec_u8 = (\<lambda>_ _ _. Some (Some (p ''vector''))),
      visit_vec_u64 = (\<lambda>_ _ _. Some (Some (p ''vector''))),
      visit_vec_u128 = (\<lambda>_ _ _. Some (Some (p ''vector''))),
      visit_vec_bool = (\<lambda>_ _ _. Some (Some (p ''vector''))),
      visit_vec_address = (\<lambda>_ _ _. Some (Some (p ''vector''))),
      visit_ref = (\<lambda>_ _ _. Some (False, Some (p ''reference'')))\<rparr>"

section \<open>Measuring a value\<close>

definition abstract_value_size :: "gas_ops \<Rightarrow> params \<Rightarrow> value_view \<Rightarrow> u64 \<Rightarrow> u64 option" where
  "abstract_value_size q p val feature_version = accept (size_visitor q p feature_version) 0 val 0"

definition abstract_value_size_dereferenced :: "gas_ops \<Rightarrow> params \<Rightarrow> value_view \<Rightarrow> u64 \<Rightarrow> u64 option" where
  "abstract_value_size_dereferenced q p val feature_version =
     map_option fst (accept (deref_visitor (size_visitor q p feature_version)) 0 val (0, 0))"

definition abstract_stack_size :: "params \<Rightarrow> value_view \<Rightarrow> u64 \<Rightarrow> u64 option" where
  "abstract_stack_size p val feature_version =
     do { res \<leftarrow> accept (stack_visitor p feature_version) 0 val None; res }"

definition abstract_packed_size :: "gas_ops \<Rightarrow> params \<Rightarrow> value_view \<Rightarrow> u64 option" where
  "abstract_packed_size q p val = do { res \<leftarrow> accept (packed_visitor q p) 0 val None; res }"

definition abstract_value_size_stack_and_heap ::
  "gas_ops \<Rightarrow> params \<Rightarrow> value_view \<Rightarrow> u64 \<Rightarrow> (u64 \<times> u64) option" where
  "abstract_value_size_stack_and_heap q p val feature_version = do {
     stack_size \<leftarrow> abstract_stack_size p val feature_version;
     abs_size \<leftarrow> abstract_value_size q p val feature_version;
     Some (stack_size, case gq_checked_sub q abs_size stack_size of Some heap_size \<Rightarrow> heap_size | None \<Rightarrow> 0) }"

definition abstract_heap_size :: "gas_ops \<Rightarrow> params \<Rightarrow> value_view \<Rightarrow> u64 \<Rightarrow> u64 option" where
  "abstract_heap_size q p val feature_version = do {
     stack_size \<leftarrow> abstract_stack_size p val feature_version;
     abs_size \<leftarrow> abstract_value_size q p val feature_version;
     Some (case gq_checked_sub q abs_size stack_size of Some heap_size \<Rightarrow> heap_size | None \<Rightarrow> 0) }"

section \<open>Sizes in closed form\<close>

text \<open>Saturating arithmetic, read through \<open>unat\<close>.\<close>

named_theorems gas_arith \<open>the documented arithmetic of gas quantities\<close>

lemma gq_add_unat [gas_arith]: "gas_ops_ok q \<Longrightarrow> unat (gq_add q a b) = min (unat a + unat b) MAX_U64"
  by (simp add: gas_ops_ok_def)

lemma gq_mul_unat [gas_arith]: "gas_ops_ok q \<Longrightarrow> unat (gq_mul q a b) = min (unat a * unat b) MAX_U64"
  by (simp add: gas_ops_ok_def)

lemma gq_checked_sub_eq [gas_arith]: "gas_ops_ok q \<Longrightarrow> gq_checked_sub q a b = (if b \<le> a then Some (a - b) else None)"
  by (simp add: gas_ops_ok_def)

lemma unat_le_MAX: "unat (a :: u64) \<le> MAX_U64"
  using unsigned_less[of a, where ?'a = nat] by (simp add: MAX_U64_def)

lemma unat_of_len: "n \<le> MAX_U64 \<Longrightarrow> unat (of_nat n :: u64) = n"
  by (simp add: MAX_U64_def unat_of_nat take_bit_nat_eq_self)

text \<open>The number of elements of a packed vector is a \<open>usize\<close>.\<close>

fun view_ok :: "value_view \<Rightarrow> bool" where
  "view_ok (VStruct fs) = list_all view_ok fs"
| "view_ok (VVec es) = list_all view_ok es"
| "view_ok (VVecU8 xs) = (length xs \<le> MAX_U64)"
| "view_ok (VVecU64 xs) = (length xs \<le> MAX_U64)"
| "view_ok (VVecU128 xs) = (length xs \<le> MAX_U64)"
| "view_ok (VVecBool xs) = (length xs \<le> MAX_U64)"
| "view_ok (VVecAddress xs) = (length xs \<le> MAX_U64)"
| "view_ok (VRef g w) = view_ok w"
| "view_ok _ = True"

text \<open>The size without saturation, by recursion on the value.\<close>

definition packed_size :: "params \<Rightarrow> u64 \<Rightarrow> string \<Rightarrow> nat \<Rightarrow> nat" where
  "packed_size p fv per len = unat (p per) * len + (if fv \<ge> 3 then unat (p ''vector'') else 0)"

fun msize :: "params \<Rightarrow> u64 \<Rightarrow> value_view \<Rightarrow> nat" where
  "msize p fv (VU8 _) = unat (p ''u8'')"
| "msize p fv (VU64 _) = unat (p ''u64'')"
| "msize p fv (VU128 _) = unat (p ''u128'')"
| "msize p fv (VBool _) = unat (p ''bool'')"
| "msize p fv (VAddress _) = unat (p ''address'')"
| "msize p fv (VStruct fs) = unat (p ''struct_'') + sum_list (map (msize p fv) fs)"
| "msize p fv (VVec es) = unat (p ''vector'') + sum_list (map (msize p fv) es)"
| "msize p fv (VVecU8 xs) = packed_size p fv ''per_u8_packed'' (length xs)"
| "msize p fv (VVecU64 xs) = packed_size p fv ''per_u64_packed'' (length xs)"
| "msize p fv (VVecU128 xs) = packed_size p fv ''per_u128_packed'' (length xs)"
| "msize p fv (VVecBool xs) = packed_size p fv ''per_bool_packed'' (length xs)"
| "msize p fv (VVecAddress xs) = packed_size p fv ''per_address_packed'' (length xs)"
| "msize p fv (VRef _ _) = unat (p ''reference'')"

fun stack_part :: "params \<Rightarrow> u64 \<Rightarrow> value_view \<Rightarrow> u64" where
  "stack_part p fv (VU8 _) = p ''u8''"
| "stack_part p fv (VU64 _) = p ''u64''"
| "stack_part p fv (VU128 _) = p ''u128''"
| "stack_part p fv (VBool _) = p ''bool''"
| "stack_part p fv (VAddress _) = p ''address''"
| "stack_part p fv (VStruct _) = p ''struct_''"
| "stack_part p fv (VVec _) = p ''vector''"
| "stack_part p fv (VRef _ _) = p ''reference''"
| "stack_part p fv _ = (if fv < 3 then 0 else p ''vector'')"

lemma packed_vec_size_unat:
  "gas_ops_ok q \<Longrightarrow> len \<le> MAX_U64 \<Longrightarrow>
   unat (packed_vec_size q p fv per len) = min (packed_size p fv per len) MAX_U64"
  by (auto simp: packed_vec_size_def packed_size_def gas_arith unat_of_len min_def)

lemma size_visitor_run:
  assumes q: "gas_ops_ok q"
  shows "view_ok v \<Longrightarrow> \<exists>s'. accept (size_visitor q p fv) depth v s = Some s' \<and>
           unat s' = min (unat s + msize p fv v) MAX_U64"
    and "list_all view_ok vs \<Longrightarrow> \<exists>s'. accept_all (size_visitor q p fv) depth vs s = Some s' \<and>
           unat s' = min (unat s + sum_list (map (msize p fv) vs)) MAX_U64"
proof (induction "size_visitor q p fv" depth v s and "size_visitor q p fv" depth vs s rule: accept_accept_all.induct)
  case (6 depth fs s)
  then show ?case by (fastforce simp: size_visitor_def gas_arith[OF q])
next
  case (7 depth es s)
  then show ?case by (fastforce simp: size_visitor_def gas_arith[OF q])
next
  case (14 depth s)
  then show ?case using unat_le_MAX[of s] by simp
next
  case (15 depth v vs s)
  then obtain s' where s': "accept (size_visitor q p fv) depth v s = Some s'"
    "unat s' = min (unat s + msize p fv v) MAX_U64" by auto
  with 15 show ?case by fastforce
qed (simp_all add: size_visitor_def gas_arith[OF q] packed_vec_size_unat[OF q])

lemma abstract_value_size_closed:
  assumes "gas_ops_ok q" "view_ok v"
  shows "\<exists>s. abstract_value_size q p v fv = Some s \<and> unat s = min (msize p fv v) MAX_U64"
  using size_visitor_run(1)[OF assms, of p fv 0 0] by (simp add: abstract_value_size_def)

lemma abstract_stack_size_closed: "abstract_stack_size p v fv = Some (stack_part p fv v)"
  by (cases v) (auto simp: abstract_stack_size_def stack_visitor_def stack_vec_def)

lemma stack_part_le_msize: "unat (stack_part p fv v) \<le> msize p fv v"
  by (cases v) (auto simp: packed_size_def not_less)

definition heap_part :: "params \<Rightarrow> u64 \<Rightarrow> value_view \<Rightarrow> nat" where
  "heap_part p fv v = msize p fv v - unat (stack_part p fv v)"

lemma heap_size_closed:
  assumes "gas_ops_ok q" "view_ok v"
  shows "\<exists>h. abstract_heap_size q p v fv = Some h \<and>
       abstract_value_size_stack_and_heap q p v fv = Some (stack_part p fv v, h) \<and>
       unat h = min (msize p fv v) MAX_U64 - unat (stack_part p fv v)"
proof -
  obtain s where s: "abstract_value_size q p v fv = Some s" "unat s = min (msize p fv v) MAX_U64"
    using abstract_value_size_closed[OF assms] by blast
  then have "stack_part p fv v \<le> s"
    using stack_part_le_msize[of p fv v] unat_le_MAX[of "stack_part p fv v"] by (simp add: word_le_nat_alt)
  with s show ?thesis
    by (auto simp: abstract_heap_size_def abstract_value_size_stack_and_heap_def abstract_stack_size_closed
        gas_arith[OF assms(1)] unat_sub_le)
qed

text \<open>
  C37. Sizes are exact.  Measuring a value never panics; the size the visitor reports is the sum over the
  value, cut off at the largest \<open>u64\<close> and only there; and whatever the feature version, the stack and
  the heap part of the value are the whole of it: the subtraction that forms the heap part never
  underflows, so nothing a value occupies goes uncharged.
\<close>

theorem value_size_exact:
  assumes "gas_ops_ok q" "view_ok v"
  shows "\<exists>total stack heap. abstract_value_size q p v fv = Some total \<and>
     abstract_value_size_stack_and_heap q p v fv = Some (stack, heap) \<and>
     abstract_heap_size q p v fv = Some heap \<and>
     unat total = min (msize p fv v) MAX_U64 \<and> unat stack + unat heap = unat total"
  using abstract_value_size_closed[OF assms, of p fv] heap_size_closed[OF assms, of p fv]
    stack_part_le_msize[of p fv v] unat_le_MAX[of "stack_part p fv v"]
  by fastforce

definition sat_ops :: gas_ops where
  "sat_ops =
     \<lparr>gq_add = (\<lambda>a b. of_nat (min (unat a + unat b) MAX_U64)),
      gq_mul = (\<lambda>a b. of_nat (min (unat a * unat b) MAX_U64)),
      gq_checked_sub = (\<lambda>a b. if b \<le> a then Some (a - b) else None),
      gq_to_unit = (\<lambda>a k. of_nat (min (unat a * unat k) MAX_U64)),
      gq_round_down = (\<lambda>a (n, d). of_nat (min (unat a * unat n div unat d) MAX_U64))\<rparr>"

lemma sat_ops_ok: "gas_ops_ok sat_ops"
  by (simp add: gas_ops_ok_def sat_ops_def unat_of_len)

definition demo_params :: params where
  "demo_params = (\<lambda>_. 40)(''per_u8_packed'' := 1)"

theorem value_size_exact_witness:
  "\<exists>total stack heap. abstract_value_size sat_ops demo_params (VStruct [VU64 7, VVecU8 [1, 2, 3]]) 3 = Some total \<and>
     abstract_value_size_stack_and_heap sat_ops demo_params (VStruct [VU64 7, VVecU8 [1, 2, 3]]) 3 = Some (stack, heap) \<and>
     unat total = 123 \<and> unat stack + unat heap = 123"
proof -
  have "view_ok (VStruct [VU64 7, VVecU8 [1, 2, 3]])" by (simp add: MAX_U64_def)
  from value_size_exact[OF sat_ops_ok this, of demo_params 3] show ?thesis
    by (auto simp: demo_params_def packed_size_def MAX_U64_def)
qed

section \<open>Dereferencing\<close>

fun has_ref :: "value_view \<Rightarrow> bool" where
  "has_ref (VRef _ _) = True"
| "has_ref (VStruct fs) = list_ex has_ref fs"
| "has_ref (VVec es) = list_ex has_ref es"
| "has_ref _ = False"

lemma deref_visitor_run:
  shows "offset \<le> depth \<Longrightarrow> 0 < depth \<Longrightarrow>
       accept (deref_visitor (size_visitor q p fv)) depth v (s, offset) =
         (if has_ref v then None else map_option (\<lambda>s'. (s', offset)) (accept (size_visitor q p fv) (depth - offset) v s))"
    and "offset \<le> depth \<Longrightarrow> 0 < depth \<Longrightarrow>
       accept_all (deref_visitor (size_visitor q p fv)) depth vs (s, offset) =
         (if list_ex has_ref vs then None
          else map_option (\<lambda>s'. (s', offset)) (accept_all (size_visitor q p fv) (depth - offset) vs s))"
proof (induction "deref_visitor (size_visitor q p fv)" depth v "(s, offset)" and
    "deref_visitor (size_visitor q p fv)" depth vs "(s, offset)" arbitrary: s and s rule: accept_accept_all.induct)
  case (15 depth v vs s)
  then show ?case by (cases "accept (size_visitor q p fv) (depth - offset) v s") auto
qed (auto simp: deref_visitor_def shift_visit_def shift_visit_node_def size_visitor_def Suc_diff_le)

lemma dereferenced_size_eq:
  "abstract_value_size_dereferenced q p v fv =
     (case v of
        VRef _ w \<Rightarrow> if has_ref w then None else abstract_value_size q p w fv
      | _ \<Rightarrow> if has_ref v then None else abstract_value_size q p v fv)"
proof (cases v)
  case (VRef g w)
  then show ?thesis
    using deref_visitor_run(1)[of 1 1 q p fv w 0]
    by (simp add: abstract_value_size_dereferenced_def abstract_value_size_def deref_visitor_def option.map_comp o_def option.map_ident)
next
  case (VStruct fs)
  then show ?thesis
    using deref_visitor_run(2)[of 0 1 q p fv fs "gq_add q 0 (p ''struct_'')"]
    by (simp add: abstract_value_size_dereferenced_def abstract_value_size_def deref_visitor_def shift_visit_node_def
        size_visitor_def option.map_comp o_def option.map_ident)
next
  case (VVec es)
  then show ?thesis
    using deref_visitor_run(2)[of 0 1 q p fv es "gq_add q 0 (p ''vector'')"]
    by (simp add: abstract_value_size_dereferenced_def abstract_value_size_def deref_visitor_def shift_visit_node_def
        size_visitor_def option.map_comp o_def option.map_ident)
qed (simp_all add: abstract_value_size_dereferenced_def abstract_value_size_def deref_visitor_def shift_visit_def
    size_visitor_def)

text \<open>
  Looking through a reference: for a reference the dereferencing size is the size of the value behind
  it, for any other value it is the value's own size, and the assertion that there are no inner
  references fails exactly when there is one.
\<close>

theorem dereferenced_size:
  "abstract_value_size_dereferenced q p v fv =
     (case v of
        VRef _ w \<Rightarrow> if has_ref w then None else abstract_value_size q p w fv
      | _ \<Rightarrow> if has_ref v then None else abstract_value_size q p v fv)"
  by (rule dereferenced_size_eq)

section \<open>What a value takes on the heap while it is built\<close>

lemma heap_part_struct: "heap_part p fv (VStruct fs) = sum_list (map (\<lambda>v. unat (stack_part p fv v) + heap_part p fv v) fs)"
proof -
  have "unat (stack_part p fv v) + heap_part p fv v = msize p fv v" for v
    using stack_part_le_msize[of p fv v] by (simp add: heap_part_def)
  then show ?thesis by (simp add: heap_part_def)
qed

end
