(* ===== verification/Gas_Txn.thy ===== *)
theory Gas_Txn
  imports Value_Size Delta_Op
begin

text \<open>
  Gas for transactions and storage (\<open>aptos-gas/src/transaction.rs\<close>): the storage prices, the gas of
  a write set under either schedule, the intrinsic gas of a transaction and the conversion between
  internal and external gas.  \<open>StateKey\<close> is not part of the repository: the size and the encoding of a
  key are arguments.  The lemmas give every cost in closed form.
\<close>

section \<open>Storage prices\<close>

record storage_gas_parameters =
  per_item_read :: u64
  per_item_create :: u64
  per_item_write :: u64
  per_byte_read :: u64
  per_byte_create :: u64
  per_byte_write :: u64

definition storage_zeros :: storage_gas_parameters where
  "storage_zeros =
     \<lparr>per_item_read = 0, per_item_create = 0, per_item_write = 0,
      per_byte_read = 0, per_byte_create = 0, per_byte_write = 0\<rparr>"

record 'k key_ops =
  key_size :: "'k \<Rightarrow> u64"
  key_encode :: "'k \<Rightarrow> bytes option"

definition len_u64 :: "'a list \<Rightarrow> u64" where
  "len_u64 xs = of_nat (length xs)"

definition write_op_size :: "gas_ops \<Rightarrow> 'k key_ops \<Rightarrow> 'k \<Rightarrow> bytes \<Rightarrow> u64 \<Rightarrow> u64 option" where
  "write_op_size q ko key val feature_version =
     (let value_size = len_u64 val
      in if feature_version > 2 then
           Some (case gq_checked_sub q (gq_add q (key_size ko key) value_size) 1024 of Some r \<Rightarrow> r | None \<Rightarrow> 0)
         else do {
           encoded \<leftarrow> key_encode ko key;
           Some (gq_add q (len_u64 encoded) value_size) })"

fun storage_counts ::
  "gas_ops \<Rightarrow> 'k key_ops \<Rightarrow> u64 \<Rightarrow> ('k \<times> write_op) list \<Rightarrow> u64 \<times> u64 \<times> u64 \<times> u64 \<Rightarrow> (u64 \<times> u64 \<times> u64 \<times> u64) option" where
  "storage_counts q ko fv [] counts = Some counts"
| "storage_counts q ko fv ((key, op) # ops) (num_items_create, num_items_write, num_bytes_create, num_bytes_write) =
     (case op of
        Creation data \<Rightarrow> do {
          size \<leftarrow> write_op_size q ko key data fv;
          storage_counts q ko fv ops
            (gq_add q num_items_create 1, num_items_write, gq_add q num_bytes_create size, num_bytes_write) }
      | Modification data \<Rightarrow> do {
          size \<leftarrow> write_op_size q ko key data fv;
          storage_counts q ko fv ops
            (num_items_create, gq_add q num_items_write 1, num_bytes_create, gq_add q num_bytes_write size) }
      | Deletion \<Rightarrow>
          storage_counts q ko fv ops (num_items_create, num_items_write, num_bytes_create, num_bytes_write))"

definition storage_write_set_gas ::
  "gas_ops \<Rightarrow> 'k key_ops \<Rightarrow> storage_gas_parameters \<Rightarrow> ('k \<times> write_op) list \<Rightarrow> u64 \<Rightarrow> u64 option" where
  "storage_write_set_gas q ko sp ops feature_version = do {
     (num_items_create, num_items_write, num_bytes_create, num_bytes_write)
       \<leftarrow> storage_counts q ko feature_version ops (0, 0, 0, 0);
     Some (gq_add q (gq_add q (gq_add q
       (gq_mul q num_items_create (per_item_create sp))
       (gq_mul q num_items_write (per_item_write sp)))
       (gq_mul q num_bytes_create (per_byte_create sp)))
       (gq_mul q num_bytes_write (per_byte_write sp))) }"

section \<open>Transaction parameters\<close>

definition scaling_factor :: "params \<Rightarrow> u64" where
  "scaling_factor p = (if p ''gas_unit_scaling_factor'' = 0 then 1 else p ''gas_unit_scaling_factor'')"

definition multiplier :: "params \<Rightarrow> u64" where
  "multiplier p = scaling_factor p"

definition ratio :: "params \<Rightarrow> u64 \<times> u64" where
  "ratio p = (1, scaling_factor p)"

definition calculate_intrinsic_gas :: "gas_ops \<Rightarrow> params \<Rightarrow> u64 \<Rightarrow> u64 option" where
  "calculate_intrinsic_gas q p transaction_size =
     (if transaction_size > p ''large_transaction_cutoff'' then do {
        excess \<leftarrow> gq_checked_sub q transaction_size (p ''large_transaction_cutoff'');
        Some (gq_add q (p ''min_transaction_gas_units'') (gq_mul q excess (p ''intrinsic_gas_per_byte''))) }
      else Some (p ''min_transaction_gas_units''))"

fun txn_counts ::
  "gas_ops \<Rightarrow> 'k key_ops \<Rightarrow> params \<Rightarrow> ('k \<times> write_op) list \<Rightarrow> u64 \<times> u64 \<times> u64 \<times> u64 \<Rightarrow> (u64 \<times> u64 \<times> u64 \<times> u64) option" where
  "txn_counts q ko p [] counts = Some counts"
| "txn_counts q ko p ((key, op) # ops) (num_ops, num_new_items, num_bytes_key, num_bytes_val) = do {
     num_bytes_key' \<leftarrow>
       (if p ''write_data_per_byte_in_key'' > 0
        then do { encoded \<leftarrow> key_encode ko key; Some (gq_add q num_bytes_key (len_u64 encoded)) }
        else Some num_bytes_key);
     txn_counts q ko p ops
       (case op of
          Creation data \<Rightarrow> (gq_add q num_ops 1, gq_add q num_new_items 1, num_bytes_key', gq_add q num_bytes_val (len_u64 data))
        | Modification data \<Rightarrow> (gq_add q num_ops 1, num_new_items, num_bytes_key', gq_add q num_bytes_val (len_u64 data))
        | Deletion \<Rightarrow> (gq_add q num_ops 1, num_new_items, num_bytes_key', num_bytes_val)) }"

definition txn_write_set_gas :: "gas_ops \<Rightarrow> 'k key_ops \<Rightarrow> params \<Rightarrow> ('k \<times> write_op) list \<Rightarrow> u64 option" where
  "txn_write_set_gas q ko p ops = do {
     (num_ops, num_new_items, num_bytes_key, num_bytes_val) \<leftarrow> txn_counts q ko p ops (0, 0, 0, 0);
     let cost_ops = gq_mul q (p ''write_data_per_op'') num_ops;
         cost_new_items = gq_mul q (p ''write_data_per_new_item'') num_new_items;
         cost_bytes = gq_add q (gq_mul q (p ''write_data_per_byte_in_key'') num_bytes_key)
                               (gq_mul q (p ''write_data_per_byte_in_val'') num_bytes_val)
     in Some (gq_add q (gq_add q cost_ops cost_new_items) cost_bytes) }"

section \<open>Costs in closed form\<close>

lemma sat_mult: "min (min n MAX_U64 * k) MAX_U64 = min (n * k) MAX_U64"
proof (cases "k = 0 \<or> n \<le> MAX_U64")
  case False
  then have "MAX_U64 \<le> MAX_U64 * k" "MAX_U64 \<le> n * k" by (auto simp: Suc_le_eq intro: order_trans[of _ n])
  moreover have "min n MAX_U64 = MAX_U64" using False by simp
  ultimately show ?thesis by (simp only: min.absorb2)
qed auto

lemma sat_mult': "min (k * min n MAX_U64) MAX_U64 = min (k * n) MAX_U64"
  using sat_mult[of n k] by (simp add: mult.commute)

lemma sat_add: "min (min a MAX_U64 + min b MAX_U64) MAX_U64 = min (a + b) MAX_U64"
  by (auto simp: min_def)

lemma sat_add_left: "min (min a MAX_U64 + b) MAX_U64 = min (a + b) MAX_U64"
  by (auto simp: min_def)

lemma sat_acc: "min (a + (min m MAX_U64 + n)) MAX_U64 = min (a + (m + n)) MAX_U64"
  by (auto simp: min_def)

lemmas sat_simps = sat_mult sat_mult' sat_add sat_add_left

lemma unat_len_u64: "length xs \<le> MAX_U64 \<Longrightarrow> unat (len_u64 xs) = length xs"
  by (simp add: len_u64_def unat_of_len)

lemma scaling_factor_pos: "scaling_factor p \<noteq> 0"
  by (simp add: scaling_factor_def)

text \<open>The price of one write, without saturation: the bytes it is charged for and its two rates.\<close>

definition op_bytes :: "'k key_ops \<Rightarrow> u64 \<Rightarrow> 'k \<Rightarrow> bytes \<Rightarrow> nat" where
  "op_bytes ko fv key data =
     (if fv > 2 then min (unat (key_size ko key) + length data) MAX_U64 - 1024
      else length (the (key_encode ko key)) + length data)"

fun op_cost :: "'k key_ops \<Rightarrow> storage_gas_parameters \<Rightarrow> u64 \<Rightarrow> 'k \<times> write_op \<Rightarrow> nat" where
  "op_cost ko sp fv (key, Creation data) = unat (per_item_create sp) + op_bytes ko fv key data * unat (per_byte_create sp)"
| "op_cost ko sp fv (key, Modification data) = unat (per_item_write sp) + op_bytes ko fv key data * unat (per_byte_write sp)"
| "op_cost ko sp fv (key, Deletion) = 0"

definition writes_ok :: "'k key_ops \<Rightarrow> u64 \<Rightarrow> ('k \<times> write_op) list \<Rightarrow> bool" where
  "writes_ok ko fv ops \<longleftrightarrow> (\<forall>(key, op) \<in> set ops.
     (\<forall>data. op = Creation data \<or> op = Modification data \<longrightarrow> length data \<le> MAX_U64) \<and>
     (fv \<le> 2 \<longrightarrow> (\<exists>bs. key_encode ko key = Some bs \<and> length bs \<le> MAX_U64)))"

lemma write_op_size_closed:
  assumes "gas_ops_ok q" "writes_ok ko fv [(key, op)]" "op = Creation data \<or> op = Modification data"
  shows "\<exists>s. write_op_size q ko key data fv = Some s \<and> unat s = min (op_bytes ko fv key data) MAX_U64"
proof (cases "fv > 2")
  case True
  let ?s = "gq_add q (key_size ko key) (len_u64 data)"
  have s: "unat ?s = min (unat (key_size ko key) + length data) MAX_U64"
    using assms by (auto simp: gas_arith writes_ok_def unat_len_u64)
  have "unat (1024 :: u64) = 1024" by simp
  then show ?thesis
    using True s unfolding write_op_size_def op_bytes_def
    by (auto simp: gas_arith[OF assms(1)] word_le_nat_alt unat_sub_le Let_def min_def)
next
  case False
  with assms show ?thesis
    by (auto simp: write_op_size_def op_bytes_def gas_arith writes_ok_def unat_len_u64 not_less Let_def)
qed

fun count_create count_write :: "'k \<times> write_op \<Rightarrow> nat" where
  "count_create (key, op) = (case op of Creation _ \<Rightarrow> 1 | _ \<Rightarrow> 0)"
| "count_write (key, op) = (case op of Modification _ \<Rightarrow> 1 | _ \<Rightarrow> 0)"

fun bytes_create bytes_write :: "'k key_ops \<Rightarrow> u64 \<Rightarrow> 'k \<times> write_op \<Rightarrow> nat" where
  "bytes_create ko fv (key, op) = (case op of Creation data \<Rightarrow> op_bytes ko fv key data | _ \<Rightarrow> 0)"
| "bytes_write ko fv (key, op) = (case op of Modification data \<Rightarrow> op_bytes ko fv key data | _ \<Rightarrow> 0)"

lemma storage_counts_closed:
  assumes q: "gas_ops_ok q" and "writes_ok ko fv ops"
  shows "\<exists>a' b' c' d'. storage_counts q ko fv ops (a, b, c, d) = Some (a', b', c', d') \<and>
     unat a' = min (unat a + sum_list (map count_create ops)) MAX_U64 \<and>
     unat b' = min (unat b + sum_list (map count_write ops)) MAX_U64 \<and>
     unat c' = min (unat c + sum_list (map (bytes_create ko fv) ops)) MAX_U64 \<and>
     unat d' = min (unat d + sum_list (map (bytes_write ko fv) ops)) MAX_U64"
  using assms(2)
proof (induction ops arbitrary: a b c d)
  case Nil
  then show ?case by (simp add: min.absorb1 unat_le_MAX)
next
  case (Cons x ops)
  obtain key op where x: "x = (key, op)" by fastforce
  have ok: "writes_ok ko fv [(key, op)]" "writes_ok ko fv ops" using Cons.prems by (auto simp: writes_ok_def x)
  note IH = Cons.IH[OF ok(2)]
  show ?case
  proof (cases op)
    case (Creation data)
    with write_op_size_closed[OF q ok(1)] obtain s where s: "write_op_size q ko key data fv = Some s"
      "unat s = min (op_bytes ko fv key data) MAX_U64" by blast
    from IH[of "gq_add q a 1" b "gq_add q c s" d] show ?thesis
      by (simp only: x Creation s gas_arith[OF q] sat_acc sat_add_left add.assoc storage_counts.simps write_op.case
          bind.bind_lunit list.map sum_list.Cons count_create.simps count_write.simps bytes_create.simps
          bytes_write.simps unat_1 add_0)
  next
    case (Modification data)
    with write_op_size_closed[OF q ok(1)] obtain s where s: "write_op_size q ko key data fv = Some s"
      "unat s = min (op_bytes ko fv key data) MAX_U64" by blast
    from IH[of a "gq_add q b 1" c "gq_add q d s"] show ?thesis
      by (simp only: x Modification s gas_arith[OF q] sat_acc sat_add_left add.assoc storage_counts.simps write_op.case
          bind.bind_lunit list.map sum_list.Cons count_create.simps count_write.simps bytes_create.simps
          bytes_write.simps unat_1 add_0)
  next
    case Deletion
    with IH[of a b c d] show ?thesis by (auto simp: x)
  qed
qed

lemma op_cost_sum:
  "sum_list (map (op_cost ko sp fv) ops) =
     sum_list (map count_create ops) * unat (per_item_create sp) + sum_list (map count_write ops) * unat (per_item_write sp) +
     sum_list (map (bytes_create ko fv) ops) * unat (per_byte_create sp) +
     sum_list (map (bytes_write ko fv) ops) * unat (per_byte_write sp)"
proof (induction ops)
  case (Cons x ops)
  then show ?case by (cases x; cases "snd x") (auto simp: algebra_simps)
qed simp

lemma storage_gas_closed:
  assumes q: "gas_ops_ok q" and ok: "writes_ok ko fv ops"
  shows "\<exists>cost. storage_write_set_gas q ko sp ops fv = Some cost \<and>
     unat cost = min (sum_list (map (op_cost ko sp fv) ops)) MAX_U64"
proof -
  obtain a b c d where abcd: "storage_counts q ko fv ops (0, 0, 0, 0) = Some (a, b, c, d)"
    "unat a = min (sum_list (map count_create ops)) MAX_U64" "unat b = min (sum_list (map count_write ops)) MAX_U64"
    "unat c = min (sum_list (map (bytes_create ko fv) ops)) MAX_U64"
    "unat d = min (sum_list (map (bytes_write ko fv) ops)) MAX_U64"
    using storage_counts_closed[OF assms, of 0 0 0 0] by auto
  then show ?thesis
    by (simp add: storage_write_set_gas_def gas_arith[OF q] sat_simps op_cost_sum)
qed

text \<open>
  C38. Writes are paid for one by one: the storage gas of a write set is the sum of the prices of its
  writes, a creation and a modification each at their own rates per item and per byte beyond the first
  1024 free ones (from feature version 3 on), a deletion free; the total is cut off at the largest
  \<open>u64\<close>, and no panic occurs when the keys can be encoded.
\<close>

theorem storage_gas_is_sum:
  assumes q: "gas_ops_ok q" and ok: "writes_ok ko fv ops"
  shows "\<exists>cost. storage_write_set_gas q ko sp ops fv = Some cost \<and>
     unat cost = min (sum_list (map (op_cost ko sp fv) ops)) MAX_U64"
  by (rule storage_gas_closed[OF assms])

definition demo_keys :: "nat key_ops" where
  "demo_keys = \<lparr>key_size = of_nat, key_encode = (\<lambda>k. Some [of_nat k])\<rparr>"

definition demo_storage :: storage_gas_parameters where
  "demo_storage = storage_zeros\<lparr>per_item_create := 500, per_byte_create := 3, per_item_write := 50\<rparr>"

theorem storage_gas_is_sum_witness:
  "\<exists>cost. storage_write_set_gas sat_ops demo_keys demo_storage [(1026, Creation [7]), (9, Deletion), (2, Modification [])] 3 = Some cost \<and>
     unat cost = 559"
proof -
  have "writes_ok demo_keys 3 [(1026, Creation [7]), (9, Deletion), (2, Modification [])]"
    by (auto simp: writes_ok_def MAX_U64_def)
  from storage_gas_is_sum[OF sat_ops_ok this, of demo_storage] show ?thesis
    by (simp add: demo_keys_def demo_storage_def storage_zeros_def op_bytes_def MAX_U64_def)
qed

text \<open>The schedule of feature version 0: every write pays per operation, new items on top.\<close>

definition val_bytes :: "write_op \<Rightarrow> nat" where
  "val_bytes op = (case op of Creation data \<Rightarrow> length data | Modification data \<Rightarrow> length data | Deletion \<Rightarrow> 0)"

definition key_bytes :: "'k key_ops \<Rightarrow> 'k \<Rightarrow> nat" where
  "key_bytes ko key = length (the (key_encode ko key))"

definition txn_op_cost :: "'k key_ops \<Rightarrow> params \<Rightarrow> 'k \<times> write_op \<Rightarrow> nat" where
  "txn_op_cost ko p x =
     unat (p ''write_data_per_op'') + unat (p ''write_data_per_new_item'') * count_create x +
     unat (p ''write_data_per_byte_in_key'') * key_bytes ko (fst x) +
     unat (p ''write_data_per_byte_in_val'') * val_bytes (snd x)"

lemma txn_counts_closed:
  assumes q: "gas_ops_ok q" and "writes_ok ko 0 ops"
  shows "\<exists>a' b' c' d'. txn_counts q ko p ops (a, b, c, d) = Some (a', b', c', d') \<and>
     unat a' = min (unat a + length ops) MAX_U64 \<and>
     unat b' = min (unat b + sum_list (map count_create ops)) MAX_U64 \<and>
     (p ''write_data_per_byte_in_key'' > 0 \<longrightarrow> unat c' = min (unat c + sum_list (map (\<lambda>x. key_bytes ko (fst x)) ops)) MAX_U64) \<and>
     unat d' = min (unat d + sum_list (map (\<lambda>x. val_bytes (snd x)) ops)) MAX_U64"
  using assms(2)
proof (induction ops arbitrary: a b c d)
  case Nil
  then show ?case by (simp add: min.absorb1 unat_le_MAX)
next
  case (Cons x ops)
  obtain key op where x: "x = (key, op)" by fastforce
  have ok: "writes_ok ko 0 ops" using Cons.prems by (auto simp: writes_ok_def)
  obtain bs where bs: "key_encode ko key = Some bs" "length bs \<le> MAX_U64" using Cons.prems by (auto simp: writes_ok_def x)
  have data: "length data \<le> MAX_U64" if "op = Creation data \<or> op = Modification data" for data
    using Cons.prems that by (auto simp: writes_ok_def x)
  define c1 where "c1 = (if p ''write_data_per_byte_in_key'' > 0 then gq_add q c (len_u64 bs) else c)"
  have c1: "p ''write_data_per_byte_in_key'' > 0 \<Longrightarrow> unat c1 = min (unat c + length bs) MAX_U64"
    using bs by (simp add: c1_def gas_arith[OF q] unat_len_u64)
  have run: "txn_counts q ko p (x # ops) (a, b, c, d) = txn_counts q ko p ops
      (gq_add q a 1, if count_create x = 1 then gq_add q b 1 else b, c1,
       if op = Deletion then d else gq_add q d (of_nat (val_bytes op)))"
    using bs by (cases op) (simp_all add: x c1_def val_bytes_def len_u64_def)
  have vb: "unat (of_nat (val_bytes op) :: u64) = val_bytes op"
    using data by (cases op) (simp_all add: val_bytes_def unat_of_len)
  have d1: "unat (if op = Deletion then d else gq_add q d (of_nat (val_bytes op))) = min (unat d + val_bytes op) MAX_U64"
    using vb unat_le_MAX[of d] by (auto simp: gas_arith[OF q] val_bytes_def)
  have b1: "unat (if count_create x = 1 then gq_add q b 1 else b) = min (unat b + count_create x) MAX_U64"
    using unat_le_MAX[of b] by (cases op) (auto simp: gas_arith[OF q] x)
  obtain a' b' c' d' where r: "txn_counts q ko p (x # ops) (a, b, c, d) = Some (a', b', c', d')"
    "unat a' = min (unat (gq_add q a 1) + length ops) MAX_U64"
    "unat b' = min (unat (if count_create x = 1 then gq_add q b 1 else b) + sum_list (map count_create ops)) MAX_U64"
    "p ''write_data_per_byte_in_key'' > 0 \<Longrightarrow> unat c' = min (unat c1 + sum_list (map (\<lambda>x. key_bytes ko (fst x)) ops)) MAX_U64"
    "unat d' = min (unat (if op = Deletion then d else gq_add q d (of_nat (val_bytes op))) + sum_list (map (\<lambda>x. val_bytes (snd x)) ops)) MAX_U64"
    using Cons.IH[OF ok] unfolding run by blast
  have "key_bytes ko key = length bs" using bs by (simp add: key_bytes_def)
  with r(1) show ?case
    using r(2-5) unfolding b1 d1 by (auto simp: c1 gas_arith[OF q] sat_add_left add.assoc x)
qed

lemma txn_op_cost_sum:
  "sum_list (map (txn_op_cost ko p) ops) =
     unat (p ''write_data_per_op'') * length ops + unat (p ''write_data_per_new_item'') * sum_list (map count_create ops) +
     (unat (p ''write_data_per_byte_in_key'') * sum_list (map (\<lambda>x. key_bytes ko (fst x)) ops) +
      unat (p ''write_data_per_byte_in_val'') * sum_list (map (\<lambda>x. val_bytes (snd x)) ops))"
  by (induction ops) (auto simp: txn_op_cost_def algebra_simps)

lemma txn_gas_closed:
  assumes q: "gas_ops_ok q" and ok: "writes_ok ko 0 ops"
  shows "\<exists>cost. txn_write_set_gas q ko p ops = Some cost \<and>
     unat cost = min (sum_list (map (txn_op_cost ko p) ops)) MAX_U64"
proof -
  obtain a b c d where r: "txn_counts q ko p ops (0, 0, 0, 0) = Some (a, b, c, d)"
    "unat a = min (length ops) MAX_U64" "unat b = min (sum_list (map count_create ops)) MAX_U64"
    "p ''write_data_per_byte_in_key'' > 0 \<Longrightarrow> unat c = min (sum_list (map (\<lambda>x. key_bytes ko (fst x)) ops)) MAX_U64"
    "unat d = min (sum_list (map (\<lambda>x. val_bytes (snd x)) ops)) MAX_U64"
    using txn_counts_closed[OF assms, of p 0 0 0 0] by auto
  have c: "min (unat (p ''write_data_per_byte_in_key'') * unat c) MAX_U64 =
      min (unat (p ''write_data_per_byte_in_key'') * sum_list (map (\<lambda>x. key_bytes ko (fst x)) ops)) MAX_U64"
    using r(4) by (cases "p ''write_data_per_byte_in_key'' = 0") (simp_all add: word_gt_0 sat_simps)
  show ?thesis
    by (simp add: txn_write_set_gas_def r(1) gas_arith[OF q] c) (simp add: r sat_simps txn_op_cost_sum)
qed

lemma intrinsic_gas_closed:
  assumes "gas_ops_ok q"
  shows "\<exists>g. calculate_intrinsic_gas q p sz = Some g \<and>
     unat g = min (unat (p ''min_transaction_gas_units'') +
        (unat sz - unat (p ''large_transaction_cutoff'')) * unat (p ''intrinsic_gas_per_byte'')) MAX_U64"
proof (cases "sz > p ''large_transaction_cutoff''")
  case True
  then show ?thesis
    by (simp add: calculate_intrinsic_gas_def gas_arith[OF assms] unat_sub_le less_imp_le)
next
  case False
  then show ?thesis
    using unat_le_MAX[of "p ''min_transaction_gas_units''"]
    by (simp add: calculate_intrinsic_gas_def word_le_nat_alt word_less_nat_alt not_less)
qed

end
