(* ===== verification/Gas_Meter.thy ===== *)
theory Gas_Meter
  imports Gas_Txn
begin

text \<open>
  The gas meter of the VM (\<open>aptos-gas/src/gas_meter.rs\<close>, with the instruction costs of
  \<open>instr.rs\<close>): its state, every charging method, and the meter as a machine that is driven by the
  calls of the VM.  The operations of \<open>GasQuantity\<close>, the encoding of state keys and the address of the
  core modules are arguments.
\<close>

section \<open>State and basic operations\<close>

record gas_meter =
  feature_version :: u64
  gas_params :: aptos_gas_parameters
  storage_gas_params :: "storage_gas_parameters option"
  balance :: u64
  memory_quota :: u64
  is_call_table :: bool

type_synonym charged = "(unit, status_code) result \<times> gas_meter"

definition meter_new ::
  "gas_ops \<Rightarrow> u64 \<Rightarrow> aptos_gas_parameters \<Rightarrow> storage_gas_parameters option \<Rightarrow> u64 \<Rightarrow> gas_meter option" where
  "meter_new q gas_feature_version params storage gas =
     (if (gas_feature_version = 0 \<and> storage = None) \<or> (gas_feature_version > 0 \<and> storage \<noteq> None)
      then Some \<lparr>feature_version = gas_feature_version, gas_params = params, storage_gas_params = storage,
                 balance = gq_to_unit q gas (multiplier (txn params)), memory_quota = txn params ''memory_quota'',
                 is_call_table = False\<rparr>
      else None)"

definition balance_of :: "gas_ops \<Rightarrow> gas_meter \<Rightarrow> u64" where
  "balance_of q m = gq_round_down q (balance m) (ratio (txn (gas_params m)))"

definition charge :: "gas_ops \<Rightarrow> u64 \<Rightarrow> gas_meter \<Rightarrow> charged" where
  "charge q amount m =
     (case gq_checked_sub q (balance m) amount of
        Some new_balance \<Rightarrow> (Ok (), m\<lparr>balance := new_balance\<rparr>)
      | None \<Rightarrow> (Err OUT_OF_GAS, m\<lparr>balance := 0\<rparr>))"

definition use_heap_memory :: "gas_ops \<Rightarrow> u64 \<Rightarrow> gas_meter \<Rightarrow> charged" where
  "use_heap_memory q amount m =
     (if feature_version m \<ge> 3 then
        case gq_checked_sub q (memory_quota m) amount of
          Some remaining_quota \<Rightarrow> (Ok (), m\<lparr>memory_quota := remaining_quota\<rparr>)
        | None \<Rightarrow> (Err MEMORY_LIMIT_EXCEEDED, m\<lparr>memory_quota := 0\<rparr>)
      else (Ok (), m))"

definition release_heap_memory :: "gas_ops \<Rightarrow> u64 \<Rightarrow> gas_meter \<Rightarrow> gas_meter" where
  "release_heap_memory q amount m =
     (if feature_version m \<ge> 3 then m\<lparr>memory_quota := gq_add q (memory_quota m) amount\<rparr> else m)"

text \<open>Rust's \<open>?\<close>: go on with the updated meter only when the first part succeeded.\<close>

fun and_then :: "charged \<Rightarrow> (gas_meter \<Rightarrow> charged option) \<Rightarrow> charged option" where
  "and_then (Ok _, m) f = f m"
| "and_then (Err e, m) f = Some (Err e, m)"

fun fold_sizes :: "gas_ops \<Rightarrow> (value_view \<Rightarrow> u64 option) \<Rightarrow> value_view list \<Rightarrow> u64 \<Rightarrow> u64 option" where
  "fold_sizes q f [] acc = Some acc"
| "fold_sizes q f (v # vs) acc = do { s \<leftarrow> f v; fold_sizes q f vs (gq_add q acc s) }"

definition heap_size :: "gas_ops \<Rightarrow> gas_meter \<Rightarrow> value_view \<Rightarrow> u64 option" where
  "heap_size q m v = abstract_heap_size q (misc (gas_params m)) v (feature_version m)"

definition stack_size :: "gas_meter \<Rightarrow> value_view \<Rightarrow> u64 option" where
  "stack_size m v = abstract_stack_size (misc (gas_params m)) v (feature_version m)"

definition packed :: "gas_ops \<Rightarrow> gas_meter \<Rightarrow> value_view \<Rightarrow> u64 option" where
  "packed q m v = abstract_packed_size q (misc (gas_params m)) v"

section \<open>The charging methods\<close>

datatype simple_instruction =
    NopI | RetI | AbortI | BrTrueI | BrFalseI | BranchI
  | LdU8I | LdU64I | LdU128I | LdTrueI | LdFalseI
  | ImmBorrowLocI | MutBorrowLocI | ImmBorrowFieldI | MutBorrowFieldI
  | ImmBorrowFieldGenericI | MutBorrowFieldGenericI | FreezeRefI
  | CastU8I | CastU64I | CastU128I
  | AddI | SubI | MulI | ModI | DivI
  | BitOrI | BitAndI | XorI | ShlI | ShrI
  | OrI | AndI | NotI | LtI | GtI | LeI | GeI

fun simple_instr_cost :: "params \<Rightarrow> simple_instruction \<Rightarrow> u64" where
  "simple_instr_cost p NopI = p ''nop''"
| "simple_instr_cost p AbortI = p ''abort''"
| "simple_instr_cost p RetI = p ''ret''"
| "simple_instr_cost p BrTrueI = p ''br_true''"
| "simple_instr_cost p BrFalseI = p ''br_false''"
| "simple_instr_cost p BranchI = p ''branch''"
| "simple_instr_cost p LdU8I = p ''ld_u8''"
| "simple_instr_cost p LdU64I = p ''ld_u64''"
| "simple_instr_cost p LdU128I = p ''ld_u128''"
| "simple_instr_cost p LdTrueI = p ''ld_true''"
| "simple_instr_cost p LdFalseI = p ''ld_false''"
| "simple_instr_cost p ImmBorrowLocI = p ''imm_borrow_loc''"
| "simple_instr_cost p MutBorrowLocI = p ''mut_borrow_loc''"
| "simple_instr_cost p ImmBorrowFieldI = p ''imm_borrow_field''"
| "simple_instr_cost p MutBorrowFieldI = p ''mut_borrow_field''"
| "simple_instr_cost p ImmBorrowFieldGenericI = p ''imm_borrow_field_generic''"
| "simple_instr_cost p MutBorrowFieldGenericI = p ''mut_borrow_field_generic''"
| "simple_instr_cost p FreezeRefI = p ''freeze_ref''"
| "simple_instr_cost p CastU8I = p ''cast_u8''"
| "simple_instr_cost p CastU64I = p ''cast_u64''"
| "simple_instr_cost p CastU128I = p ''cast_u128''"
| "simple_instr_cost p AddI = p ''add''"
| "simple_instr_cost p SubI = p ''sub''"
| "simple_instr_cost p MulI = p ''mul''"
| "simple_instr_cost p ModI = p ''mod_''"
| "simple_instr_cost p DivI = p ''div''"
| "simple_instr_cost p BitOrI = p ''bit_or''"
| "simple_instr_cost p BitAndI = p ''bit_and''"
| "simple_instr_cost p XorI = p ''xor''"
| "simple_instr_cost p ShlI = p ''shl''"
| "simple_instr_cost p ShrI = p ''shr''"
| "simple_instr_cost p OrI = p ''or''"
| "simple_instr_cost p AndI = p ''and''"
| "simple_instr_cost p NotI = p ''not''"
| "simple_instr_cost p LtI = p ''lt''"
| "simple_instr_cost p GtI = p ''gt''"
| "simple_instr_cost p LeI = p ''le''"
| "simple_instr_cost p GeI = p ''ge''"

definition charge_simple_instr :: "gas_ops \<Rightarrow> simple_instruction \<Rightarrow> gas_meter \<Rightarrow> charged option" where
  "charge_simple_instr q i m = Some (charge q (simple_instr_cost (instr (gas_params m)) i) m)"

definition charge_native_function_before_execution ::
  "gas_ops \<Rightarrow> value_view list \<Rightarrow> gas_meter \<Rightarrow> charged option" where
  "charge_native_function_before_execution q args m =
     (if is_call_table m then Some (Ok (), m)
      else do {
        released \<leftarrow> fold_sizes q (heap_size q m) args 0;
        Some (Ok (), release_heap_memory q released m) })"

definition charge_native_function ::
  "gas_ops \<Rightarrow> u64 \<Rightarrow> value_view list option \<Rightarrow> gas_meter \<Rightarrow> charged option" where
  "charge_native_function q amount ret_vals m =
     (case ret_vals of
        Some vals \<Rightarrow> do {
          used \<leftarrow> fold_sizes q (heap_size q m) vals 0;
          and_then (use_heap_memory q used m) (\<lambda>m. Some (charge q amount m)) }
      | None \<Rightarrow> Some (charge q amount m))"

definition charge_load_resource ::
  "gas_ops \<Rightarrow> (u64 \<times> value_view) option \<Rightarrow> gas_meter \<Rightarrow> charged option" where
  "charge_load_resource q loaded m =
     (if feature_version m = 0 then
        let p = txn (gas_params m)
        in Some (charge q (gq_add q (p ''load_data_base'')
             (case loaded of Some (num_bytes, _) \<Rightarrow> gq_mul q (p ''load_data_per_byte'') num_bytes
                           | None \<Rightarrow> p ''load_data_failure'')) m)
      else do {
        r \<leftarrow> (case loaded of
                Some (_, val) \<Rightarrow> do { used \<leftarrow> heap_size q m val; Some (use_heap_memory q used m) }
              | None \<Rightarrow> Some (Ok (), m));
        and_then r (\<lambda>m. do {
          sp \<leftarrow> storage_gas_params m;
          Some (charge q (gq_add q (gq_mul q (per_item_read sp) 1)
             (case loaded of Some (num_bytes, _) \<Rightarrow> gq_mul q (per_byte_read sp) num_bytes | None \<Rightarrow> 0)) m) }) })"

definition charge_pop :: "gas_ops \<Rightarrow> value_view \<Rightarrow> gas_meter \<Rightarrow> charged option" where
  "charge_pop q popped_val m = do {
     released \<leftarrow> heap_size q m popped_val;
     let m = release_heap_memory q released m
     in Some (charge q (instr (gas_params m) ''pop'') m) }"

definition charge_call :: "gas_ops \<Rightarrow> value_view list \<Rightarrow> u64 \<Rightarrow> gas_meter \<Rightarrow> charged option" where
  "charge_call q args num_locals m =
     (let p = instr (gas_params m);
          cost = gq_add q (p ''call_base'') (gq_mul q (p ''call_per_arg'') (len_u64 args));
          cost = (if feature_version m \<ge> 3 then gq_add q cost (gq_mul q (p ''call_per_local'') num_locals) else cost)
      in Some (charge q cost m))"

definition charge_call_generic ::
  "gas_ops \<Rightarrow> bytes \<Rightarrow> bytes \<times> string \<Rightarrow> 'ty list \<Rightarrow> value_view list \<Rightarrow> u64 \<Rightarrow> gas_meter \<Rightarrow> charged option" where
  "charge_call_generic q core_code_address module_id ty_args args num_locals m =
     (let m = m\<lparr>is_call_table := (fst module_id = core_code_address \<and> snd module_id = ''table'')\<rparr>;
          p = instr (gas_params m);
          cost = gq_add q (gq_add q (p ''call_generic_base'')
                   (gq_mul q (p ''call_generic_per_ty_arg'') (len_u64 ty_args)))
                   (gq_mul q (p ''call_generic_per_arg'') (len_u64 args));
          cost = (if feature_version m \<ge> 3 then gq_add q cost (gq_mul q (p ''call_generic_per_local'') num_locals) else cost)
      in Some (charge q cost m))"

definition charge_ld_const :: "gas_ops \<Rightarrow> u64 \<Rightarrow> gas_meter \<Rightarrow> charged option" where
  "charge_ld_const q sz m =
     (let p = instr (gas_params m)
      in Some (charge q (gq_add q (p ''ld_const_base'') (gq_mul q (p ''ld_const_per_byte'') sz)) m))"

definition charge_ld_const_after_deserialization :: "gas_ops \<Rightarrow> value_view \<Rightarrow> gas_meter \<Rightarrow> charged option" where
  "charge_ld_const_after_deserialization q val m = do {
     used \<leftarrow> heap_size q m val;
     and_then (use_heap_memory q used m) (\<lambda>m. Some (Ok (), m)) }"

definition charge_deep_copy :: "gas_ops \<Rightarrow> string \<Rightarrow> string \<Rightarrow> value_view \<Rightarrow> gas_meter \<Rightarrow> charged option" where
  "charge_deep_copy q base per_unit val m = do {
     (stack, heap) \<leftarrow> abstract_value_size_stack_and_heap q (misc (gas_params m)) val (feature_version m);
     and_then (use_heap_memory q heap m) (\<lambda>m.
       let p = instr (gas_params m)
       in Some (charge q (gq_add q (p base) (gq_mul q (p per_unit) (gq_add q stack heap))) m)) }"

definition charge_copy_loc :: "gas_ops \<Rightarrow> value_view \<Rightarrow> gas_meter \<Rightarrow> charged option" where
  "charge_copy_loc q val m = charge_deep_copy q ''copy_loc_base'' ''copy_loc_per_abs_val_unit'' val m"

definition charge_move_loc :: "gas_ops \<Rightarrow> value_view \<Rightarrow> gas_meter \<Rightarrow> charged option" where
  "charge_move_loc q val m = Some (charge q (instr (gas_params m) ''move_loc_base'') m)"

definition charge_store_loc :: "gas_ops \<Rightarrow> value_view \<Rightarrow> gas_meter \<Rightarrow> charged option" where
  "charge_store_loc q val m = Some (charge q (instr (gas_params m) ''st_loc_base'') m)"

definition charge_pack :: "gas_ops \<Rightarrow> bool \<Rightarrow> value_view list \<Rightarrow> gas_meter \<Rightarrow> charged option" where
  "charge_pack q is_generic args m = do {
     used \<leftarrow> fold_sizes q (stack_size m) args 0;
     and_then (use_heap_memory q used m) (\<lambda>m.
       let p = instr (gas_params m);
           cost = (if \<not> is_generic then gq_add q (p ''pack_base'') (gq_mul q (p ''pack_per_field'') (len_u64 args))
                   else gq_add q (p ''pack_generic_base'') (gq_mul q (p ''pack_generic_per_field'') (len_u64 args)))
       in Some (charge q cost m)) }"

definition charge_unpack :: "gas_ops \<Rightarrow> bool \<Rightarrow> value_view list \<Rightarrow> gas_meter \<Rightarrow> charged option" where
  "charge_unpack q is_generic args m = do {
     released \<leftarrow> fold_sizes q (stack_size m) args 0;
     let m = release_heap_memory q released m;
         p = instr (gas_params m);
         cost = (if \<not> is_generic then gq_add q (p ''unpack_base'') (gq_mul q (p ''unpack_per_field'') (len_u64 args))
                 else gq_add q (p ''unpack_generic_base'') (gq_mul q (p ''unpack_generic_per_field'') (len_u64 args)))
     in Some (charge q cost m) }"

definition charge_read_ref :: "gas_ops \<Rightarrow> value_view \<Rightarrow> gas_meter \<Rightarrow> charged option" where
  "charge_read_ref q val m = charge_deep_copy q ''read_ref_base'' ''read_ref_per_abs_val_unit'' val m"

definition charge_write_ref :: "gas_ops \<Rightarrow> value_view \<Rightarrow> value_view \<Rightarrow> gas_meter \<Rightarrow> charged option" where
  "charge_write_ref q new_val old_val m = do {
     released \<leftarrow> heap_size q m old_val;
     let m = release_heap_memory q released m
     in Some (charge q (instr (gas_params m) ''write_ref_base'') m) }"

definition charge_compare ::
  "gas_ops \<Rightarrow> string \<Rightarrow> string \<Rightarrow> value_view \<Rightarrow> value_view \<Rightarrow> gas_meter \<Rightarrow> charged option" where
  "charge_compare q base per_unit lhs rhs m = do {
     released_lhs \<leftarrow> heap_size q m lhs;
     let m = release_heap_memory q released_lhs m
     in do {
       released_rhs \<leftarrow> heap_size q m rhs;
       let m = release_heap_memory q released_rhs m;
           p = instr (gas_params m)
       in do {
         size_lhs \<leftarrow> abstract_value_size_dereferenced q (misc (gas_params m)) lhs (feature_version m);
         size_rhs \<leftarrow> abstract_value_size_dereferenced q (misc (gas_params m)) rhs (feature_version m);
         Some (charge q (gq_add q (p base) (gq_mul q (p per_unit) (gq_add q size_lhs size_rhs))) m) } } }"

definition charge_eq :: "gas_ops \<Rightarrow> value_view \<Rightarrow> value_view \<Rightarrow> gas_meter \<Rightarrow> charged option" where
  "charge_eq q lhs rhs m = charge_compare q ''eq_base'' ''eq_per_abs_val_unit'' lhs rhs m"

definition charge_neq :: "gas_ops \<Rightarrow> value_view \<Rightarrow> value_view \<Rightarrow> gas_meter \<Rightarrow> charged option" where
  "charge_neq q lhs rhs m = charge_compare q ''neq_base'' ''neq_per_abs_val_unit'' lhs rhs m"

definition charge_borrow_global :: "gas_ops \<Rightarrow> bool \<Rightarrow> bool \<Rightarrow> gas_meter \<Rightarrow> charged option" where
  "charge_borrow_global q is_mut is_generic m =
     Some (charge q (instr (gas_params m)
       (case (is_mut, is_generic) of
          (False, False) \<Rightarrow> ''imm_borrow_global_base''
        | (False, True) \<Rightarrow> ''imm_borrow_global_generic_base''
        | (True, False) \<Rightarrow> ''mut_borrow_global_base''
        | (True, True) \<Rightarrow> ''mut_borrow_global_generic_base'')) m)"

definition charge_exists :: "gas_ops \<Rightarrow> bool \<Rightarrow> gas_meter \<Rightarrow> charged option" where
  "charge_exists q is_generic m =
     Some (charge q (instr (gas_params m) (if \<not> is_generic then ''exists_base'' else ''exists_generic_base'')) m)"

definition charge_move_from :: "gas_ops \<Rightarrow> bool \<Rightarrow> gas_meter \<Rightarrow> charged option" where
  "charge_move_from q is_generic m =
     Some (charge q (instr (gas_params m) (if \<not> is_generic then ''move_from_base'' else ''move_from_generic_base'')) m)"

definition charge_move_to :: "gas_ops \<Rightarrow> bool \<Rightarrow> gas_meter \<Rightarrow> charged option" where
  "charge_move_to q is_generic m =
     Some (charge q (instr (gas_params m) (if \<not> is_generic then ''move_to_base'' else ''move_to_generic_base'')) m)"

definition charge_vec_pack :: "gas_ops \<Rightarrow> value_view list \<Rightarrow> gas_meter \<Rightarrow> charged option" where
  "charge_vec_pack q args m = do {
     used \<leftarrow> fold_sizes q (packed q m) args 0;
     and_then (use_heap_memory q used m) (\<lambda>m.
       let p = instr (gas_params m)
       in Some (charge q (gq_add q (p ''vec_pack_base'') (gq_mul q (p ''vec_pack_per_elem'') (len_u64 args))) m)) }"

definition charge_vec_unpack :: "gas_ops \<Rightarrow> u64 \<Rightarrow> value_view list \<Rightarrow> gas_meter \<Rightarrow> charged option" where
  "charge_vec_unpack q expect_num_elements elems m = do {
     released \<leftarrow> fold_sizes q (packed q m) elems 0;
     let m = release_heap_memory q released m;
         p = instr (gas_params m)
     in Some (charge q (gq_add q (p ''vec_unpack_base'')
                (gq_mul q (p ''vec_unpack_per_expected_elem'') expect_num_elements)) m) }"

definition charge_vec_len :: "gas_ops \<Rightarrow> gas_meter \<Rightarrow> charged option" where
  "charge_vec_len q m = Some (charge q (instr (gas_params m) ''vec_len_base'') m)"

definition charge_vec_borrow :: "gas_ops \<Rightarrow> bool \<Rightarrow> gas_meter \<Rightarrow> charged option" where
  "charge_vec_borrow q is_mut m =
     Some (charge q (instr (gas_params m) (if \<not> is_mut then ''vec_imm_borrow_base'' else ''vec_mut_borrow_base'')) m)"

definition charge_vec_push_back :: "gas_ops \<Rightarrow> value_view \<Rightarrow> gas_meter \<Rightarrow> charged option" where
  "charge_vec_push_back q val m = do {
     used \<leftarrow> packed q m val;
     and_then (use_heap_memory q used m) (\<lambda>m. Some (charge q (instr (gas_params m) ''vec_push_back_base'') m)) }"

definition charge_vec_pop_back :: "gas_ops \<Rightarrow> value_view option \<Rightarrow> gas_meter \<Rightarrow> charged option" where
  "charge_vec_pop_back q val m = do {
     m \<leftarrow> (case val of Some v \<Rightarrow> do { released \<leftarrow> packed q m v; Some (release_heap_memory q released m) }
                     | None \<Rightarrow> Some m);
     Some (charge q (instr (gas_params m) ''vec_pop_back_base'') m) }"

definition charge_vec_swap :: "gas_ops \<Rightarrow> gas_meter \<Rightarrow> charged option" where
  "charge_vec_swap q m = Some (charge q (instr (gas_params m) ''vec_swap_base'') m)"

definition charge_drop_frame :: "gas_ops \<Rightarrow> value_view list \<Rightarrow> gas_meter \<Rightarrow> charged option" where
  "charge_drop_frame q locals m = do {
     released \<leftarrow> fold_sizes q (heap_size q m) locals 0;
     Some (Ok (), release_heap_memory q released m) }"

definition charge_intrinsic_gas_for_transaction :: "gas_ops \<Rightarrow> u64 \<Rightarrow> gas_meter \<Rightarrow> charged option" where
  "charge_intrinsic_gas_for_transaction q txn_size m = do {
     cost \<leftarrow> calculate_intrinsic_gas q (txn (gas_params m)) txn_size;
     Some (charge q cost m) }"

definition charge_write_set_gas :: "gas_ops \<Rightarrow> 'k key_ops \<Rightarrow> ('k \<times> write_op) list \<Rightarrow> gas_meter \<Rightarrow> charged option" where
  "charge_write_set_gas q ko ops m = do {
     cost \<leftarrow> (if feature_version m = 0 then txn_write_set_gas q ko (txn (gas_params m)) ops
              else do { sp \<leftarrow> storage_gas_params m; storage_write_set_gas q ko sp ops (feature_version m) });
     Some (charge q cost m) }"

section \<open>The meter as a machine\<close>

text \<open>The calls a VM makes on its meter; the arguments a method ignores are left out.\<close>

datatype 'k meter_call =
    SimpleInstr simple_instruction
  | NativeBefore "value_view list"
  | Native u64 "value_view list option"
  | LoadResource "(u64 \<times> value_view) option"
  | Pop value_view
  | Call "value_view list" u64
  | CallGeneric "bytes \<times> string" "string list" "value_view list" u64
  | LdConst u64
  | LdConstAfter value_view
  | CopyLoc value_view
  | MoveLoc value_view
  | StoreLoc value_view
  | Pack bool "value_view list"
  | Unpack bool "value_view list"
  | ReadRef value_view
  | WriteRef value_view value_view
  | EqV value_view value_view
  | NeqV value_view value_view
  | BorrowGlobal bool bool
  | ExistsG bool
  | MoveFrom bool
  | MoveTo bool
  | VecPack "value_view list"
  | VecUnpack u64 "value_view list"
  | VecLen
  | VecBorrow bool
  | VecPushBack value_view
  | VecPopBack "value_view option"
  | VecSwap
  | DropFrame "value_view list"
  | Intrinsic u64
  | WriteSet "('k \<times> write_op) list"

fun meter_step :: "gas_ops \<Rightarrow> bytes \<Rightarrow> 'k key_ops \<Rightarrow> 'k meter_call \<Rightarrow> gas_meter \<Rightarrow> charged option" where
  "meter_step q core ko (SimpleInstr i) m = charge_simple_instr q i m"
| "meter_step q core ko (NativeBefore args) m = charge_native_function_before_execution q args m"
| "meter_step q core ko (Native amount rets) m = charge_native_function q amount rets m"
| "meter_step q core ko (LoadResource loaded) m = charge_load_resource q loaded m"
| "meter_step q core ko (Pop v) m = charge_pop q v m"
| "meter_step q core ko (Call args locals) m = charge_call q args locals m"
| "meter_step q core ko (CallGeneric mid tys args locals) m = charge_call_generic q core mid tys args locals m"
| "meter_step q core ko (LdConst n) m = charge_ld_const q n m"
| "meter_step q core ko (LdConstAfter v) m = charge_ld_const_after_deserialization q v m"
| "meter_step q core ko (CopyLoc v) m = charge_copy_loc q v m"
| "meter_step q core ko (MoveLoc v) m = charge_move_loc q v m"
| "meter_step q core ko (StoreLoc v) m = charge_store_loc q v m"
| "meter_step q core ko (Pack g args) m = charge_pack q g args m"
| "meter_step q core ko (Unpack g args) m = charge_unpack q g args m"
| "meter_step q core ko (ReadRef v) m = charge_read_ref q v m"
| "meter_step q core ko (WriteRef new old) m = charge_write_ref q new old m"
| "meter_step q core ko (EqV l r) m = charge_eq q l r m"
| "meter_step q core ko (NeqV l r) m = charge_neq q l r m"
| "meter_step q core ko (BorrowGlobal mt g) m = charge_borrow_global q mt g m"
| "meter_step q core ko (ExistsG g) m = charge_exists q g m"
| "meter_step q core ko (MoveFrom g) m = charge_move_from q g m"
| "meter_step q core ko (MoveTo g) m = charge_move_to q g m"
| "meter_step q core ko (VecPack args) m = charge_vec_pack q args m"
| "meter_step q core ko (VecUnpack n elems) m = charge_vec_unpack q n elems m"
| "meter_step q core ko VecLen m = charge_vec_len q m"
| "meter_step q core ko (VecBorrow mt) m = charge_vec_borrow q mt m"
| "meter_step q core ko (VecPushBack v) m = charge_vec_push_back q v m"
| "meter_step q core ko (VecPopBack v) m = charge_vec_pop_back q v m"
| "meter_step q core ko VecSwap m = charge_vec_swap q m"
| "meter_step q core ko (DropFrame locals) m = charge_drop_frame q locals m"
| "meter_step q core ko (Intrinsic n) m = charge_intrinsic_gas_for_transaction q n m"
| "meter_step q core ko (WriteSet ops) m = charge_write_set_gas q ko ops m"

end
