(* ===== verification/Gas_Account.thy ===== *)
theory Gas_Account
  imports Gas_Meter
begin

text \<open>
  What the gas meter promises.  The abstract meter is an account of two natural numbers, a budget and a
  memory quota; a price list in closed form and a memory effect per call say what a call does to it.  The
  refinement theorem shows that every charging method implements its entry; the locale \<open>metering\<close>
  carries the contract to whole executions, and the meter is an instance of it.
\<close>

section \<open>The abstract meter\<close>

text \<open>
  What a call costs and what it does to the memory quota, as natural numbers without saturation.  The
  price list reads the parameters of the meter only, never its balance or quota.
\<close>

definition vsize :: "gas_meter \<Rightarrow> value_view \<Rightarrow> nat" where
  "vsize m v = min (msize (misc (gas_params m)) (feature_version m) v) MAX_U64"

definition vstack :: "gas_meter \<Rightarrow> value_view \<Rightarrow> nat" where
  "vstack m v = unat (stack_part (misc (gas_params m)) (feature_version m) v)"

definition vheap :: "gas_meter \<Rightarrow> value_view \<Rightarrow> nat" where
  "vheap m v = vsize m v - vstack m v"

definition vderef :: "gas_meter \<Rightarrow> value_view \<Rightarrow> nat" where
  "vderef m v = (case v of VRef _ w \<Rightarrow> vsize m w | _ \<Rightarrow> vsize m v)"

fun vpacked_key :: "value_view \<Rightarrow> string" where
  "vpacked_key (VU8 _) = ''per_u8_packed''"
| "vpacked_key (VU64 _) = ''per_u64_packed''"
| "vpacked_key (VU128 _) = ''per_u128_packed''"
| "vpacked_key (VBool _) = ''per_bool_packed''"
| "vpacked_key (VAddress _) = ''per_address_packed''"
| "vpacked_key (VStruct _) = ''struct_''"
| "vpacked_key (VRef _ _) = ''reference''"
| "vpacked_key _ = ''vector''"

definition vpacked :: "gas_meter \<Rightarrow> value_view \<Rightarrow> nat" where
  "vpacked m v = unat (misc (gas_params m) (vpacked_key v))"

datatype mem_effect = Keep | Use nat | Release nat

definition total_of :: "(value_view \<Rightarrow> nat) \<Rightarrow> value_view list \<Rightarrow> nat" where
  "total_of f vs = sum_list (map f vs)"

fun mem_of :: "gas_meter \<Rightarrow> 'k meter_call \<Rightarrow> mem_effect" where
  "mem_of m (NativeBefore args) = (if is_call_table m then Keep else Release (total_of (vheap m) args))"
| "mem_of m (Native _ (Some rets)) = Use (total_of (vheap m) rets)"
| "mem_of m (LoadResource (Some (_, v))) = Use (vheap m v)"
| "mem_of m (Pop v) = Release (vheap m v)"
| "mem_of m (LdConstAfter v) = Use (vheap m v)"
| "mem_of m (CopyLoc v) = Use (vheap m v)"
| "mem_of m (Pack _ args) = Use (total_of (vstack m) args)"
| "mem_of m (Unpack _ args) = Release (total_of (vstack m) args)"
| "mem_of m (ReadRef v) = Use (vheap m v)"
| "mem_of m (WriteRef _ old) = Release (vheap m old)"
| "mem_of m (EqV l r) = Release (vheap m l + vheap m r)"
| "mem_of m (NeqV l r) = Release (vheap m l + vheap m r)"
| "mem_of m (VecPack args) = Use (total_of (vpacked m) args)"
| "mem_of m (VecUnpack _ elems) = Release (total_of (vpacked m) elems)"
| "mem_of m (VecPushBack v) = Use (vpacked m v)"
| "mem_of m (VecPopBack (Some v)) = Release (vpacked m v)"
| "mem_of m (DropFrame locals) = Release (total_of (vheap m) locals)"
| "mem_of m _ = Keep"

definition iprice :: "gas_meter \<Rightarrow> string \<Rightarrow> nat" where
  "iprice m name = unat (instr (gas_params m) name)"

definition tprice :: "gas_meter \<Rightarrow> string \<Rightarrow> nat" where
  "tprice m name = unat (txn (gas_params m) name)"

fun price_of :: "'k key_ops \<Rightarrow> gas_meter \<Rightarrow> 'k meter_call \<Rightarrow> nat" where
  "price_of ko m (SimpleInstr i) = unat (simple_instr_cost (instr (gas_params m)) i)"
| "price_of ko m (NativeBefore _) = 0"
| "price_of ko m (Native amount _) = unat amount"
| "price_of ko m (LoadResource loaded) =
     (if feature_version m = 0 then tprice m ''load_data_base'' +
        (case loaded of Some (n, _) \<Rightarrow> tprice m ''load_data_per_byte'' * unat n | None \<Rightarrow> tprice m ''load_data_failure'')
      else unat (per_item_read (the (storage_gas_params m))) +
        (case loaded of Some (n, _) \<Rightarrow> unat (per_byte_read (the (storage_gas_params m))) * unat n | None \<Rightarrow> 0))"
| "price_of ko m (Pop _) = iprice m ''pop''"
| "price_of ko m (Call args locals) = iprice m ''call_base'' + iprice m ''call_per_arg'' * length args +
     (if feature_version m \<ge> 3 then iprice m ''call_per_local'' * unat locals else 0)"
| "price_of ko m (CallGeneric _ tys args locals) = iprice m ''call_generic_base'' +
     iprice m ''call_generic_per_ty_arg'' * length tys + iprice m ''call_generic_per_arg'' * length args +
     (if feature_version m \<ge> 3 then iprice m ''call_generic_per_local'' * unat locals else 0)"
| "price_of ko m (LdConst n) = iprice m ''ld_const_base'' + iprice m ''ld_const_per_byte'' * unat n"
| "price_of ko m (LdConstAfter _) = 0"
| "price_of ko m (CopyLoc v) = iprice m ''copy_loc_base'' + iprice m ''copy_loc_per_abs_val_unit'' * vsize m v"
| "price_of ko m (MoveLoc _) = iprice m ''move_loc_base''"
| "price_of ko m (StoreLoc _) = iprice m ''st_loc_base''"
| "price_of ko m (Pack g args) =
     (if g then iprice m ''pack_generic_base'' + iprice m ''pack_generic_per_field'' * length args
      else iprice m ''pack_base'' + iprice m ''pack_per_field'' * length args)"
| "price_of ko m (Unpack g args) =
     (if g then iprice m ''unpack_generic_base'' + iprice m ''unpack_generic_per_field'' * length args
      else iprice m ''unpack_base'' + iprice m ''unpack_per_field'' * length args)"
| "price_of ko m (ReadRef v) = iprice m ''read_ref_base'' + iprice m ''read_ref_per_abs_val_unit'' * vsize m v"
| "price_of ko m (WriteRef _ _) = iprice m ''write_ref_base''"
| "price_of ko m (EqV l r) = iprice m ''eq_base'' + iprice m ''eq_per_abs_val_unit'' * (vderef m l + vderef m r)"
| "price_of ko m (NeqV l r) = iprice m ''neq_base'' + iprice m ''neq_per_abs_val_unit'' * (vderef m l + vderef m r)"
| "price_of ko m (BorrowGlobal mt g) = iprice m
     (if mt then if g then ''mut_borrow_global_generic_base'' else ''mut_borrow_global_base''
      else if g then ''imm_borrow_global_generic_base'' else ''imm_borrow_global_base'')"
| "price_of ko m (ExistsG g) = iprice m (if g then ''exists_generic_base'' else ''exists_base'')"
| "price_of ko m (MoveFrom g) = iprice m (if g then ''move_from_generic_base'' else ''move_from_base'')"
| "price_of ko m (MoveTo g) = iprice m (if g then ''move_to_generic_base'' else ''move_to_base'')"
| "price_of ko m (VecPack args) = iprice m ''vec_pack_base'' + iprice m ''vec_pack_per_elem'' * length args"
| "price_of ko m (VecUnpack n _) = iprice m ''vec_unpack_base'' + iprice m ''vec_unpack_per_expected_elem'' * unat n"
| "price_of ko m VecLen = iprice m ''vec_len_base''"
| "price_of ko m (VecBorrow mt) = iprice m (if mt then ''vec_mut_borrow_base'' else ''vec_imm_borrow_base'')"
| "price_of ko m (VecPushBack _) = iprice m ''vec_push_back_base''"
| "price_of ko m (VecPopBack _) = iprice m ''vec_pop_back_base''"
| "price_of ko m VecSwap = iprice m ''vec_swap_base''"
| "price_of ko m (DropFrame _) = 0"
| "price_of ko m (Intrinsic n) = tprice m ''min_transaction_gas_units'' +
     (unat n - tprice m ''large_transaction_cutoff'') * tprice m ''intrinsic_gas_per_byte''"
| "price_of ko m (WriteSet ops) =
     (if feature_version m = 0 then sum_list (map (txn_op_cost ko (txn (gas_params m))) ops)
      else sum_list (map (op_cost ko (the (storage_gas_params m)) (feature_version m)) ops))"

type_synonym account = "nat \<times> nat"

fun spend :: "nat \<Rightarrow> account \<Rightarrow> (unit, status_code) result \<times> account" where
  "spend price (budget, quota) =
     (if min price MAX_U64 \<le> budget then (Ok (), budget - min price MAX_U64, quota) else (Err OUT_OF_GAS, 0, quota))"

fun account_step :: "bool \<Rightarrow> mem_effect \<Rightarrow> nat \<Rightarrow> account \<Rightarrow> (unit, status_code) result \<times> account" where
  "account_step tracked Keep price (budget, quota) = spend price (budget, quota)"
| "account_step tracked (Release n) price (budget, quota) =
     spend price (budget, if tracked then min (quota + n) MAX_U64 else quota)"
| "account_step tracked (Use n) price (budget, quota) =
     (if \<not> tracked then spend price (budget, quota)
      else if min n MAX_U64 \<le> quota then spend price (budget, quota - min n MAX_U64)
      else (Err MEMORY_LIMIT_EXCEEDED, budget, 0))"

definition account_of :: "gas_meter \<Rightarrow> account" where
  "account_of m = (unat (balance m), unat (memory_quota m))"

section \<open>Every method implements its entry\<close>

definition frame :: "gas_meter \<Rightarrow> gas_meter \<Rightarrow> bool" where
  "frame m m' \<longleftrightarrow> feature_version m' = feature_version m \<and> gas_params m' = gas_params m \<and>
     storage_gas_params m' = storage_gas_params m"

definition implements :: "charged option \<Rightarrow> gas_meter \<Rightarrow> (unit, status_code) result \<times> account \<Rightarrow> bool" where
  "implements out m spec \<longleftrightarrow> (\<exists>r m'. out = Some (r, m') \<and> (r, account_of m') = spec \<and> frame m m')"

abbreviation tracked :: "gas_meter \<Rightarrow> bool" where
  "tracked m \<equiv> feature_version m \<ge> 3"

lemma frame_refl [simp]: "frame m m"
  by (simp add: frame_def)

lemma charge_implements:
  assumes q: "gas_ops_ok q" and c: "unat cost = min price MAX_U64" and m0: "account_of m = a" "frame m0 m"
  shows "implements (Some (charge q cost m)) m0 (spend price a)"
  using assms by (auto simp: implements_def charge_def gas_arith account_of_def frame_def word_le_nat_alt unat_sub_le)

lemma keep_implements:
  assumes "gas_ops_ok q" "unat cost = min price MAX_U64"
  shows "implements (Some (charge q cost m)) m (account_step t Keep price (account_of m))"
  using charge_implements[OF assms, of m "account_of m" m] by (simp add: account_of_def)

lemma use_implements:
  assumes q: "gas_ops_ok q" and n: "unat used = min n MAX_U64"
    and k: "\<And>m'. frame m m' \<Longrightarrow> implements (k m') m (spend price (account_of m'))"
  shows "implements (and_then (use_heap_memory q used m) k) m (account_step (tracked m) (Use n) price (account_of m))"
proof (cases "tracked m \<and> \<not> used \<le> memory_quota m")
  case True
  then show ?thesis
    using n by (simp add: use_heap_memory_def gas_arith[OF q] implements_def account_of_def frame_def word_le_nat_alt)
next
  case False
  let ?m = "snd (use_heap_memory q used m)"
  have "and_then (use_heap_memory q used m) k = k ?m" "frame m ?m"
    "account_step (tracked m) (Use n) price (account_of m) = spend price (account_of ?m)"
    using False n by (auto simp: use_heap_memory_def gas_arith[OF q] account_of_def frame_def word_le_nat_alt unat_sub_le)
  with k show ?thesis by simp
qed

lemma release_frame [simp]: "frame m (release_heap_memory q n m)"
  "gas_params (release_heap_memory q n m) = gas_params m"
  "feature_version (release_heap_memory q n m) = feature_version m"
  by (simp_all add: release_heap_memory_def frame_def)

lemma release_account:
  "gas_ops_ok q \<Longrightarrow> account_of (release_heap_memory q released m) =
     (unat (balance m), if tracked m then min (unat (memory_quota m) + unat released) MAX_U64 else unat (memory_quota m))"
  by (simp add: release_heap_memory_def account_of_def gas_arith)

lemma release_implements:
  assumes q: "gas_ops_ok q" and n: "unat released = min n MAX_U64" and c: "unat cost = min price MAX_U64"
  shows "implements (Some (charge q cost (release_heap_memory q released m))) m
     (account_step (tracked m) (Release n) price (account_of m))"
proof -
  have "min (unat (memory_quota m) + min n MAX_U64) MAX_U64 = min (unat (memory_quota m) + n) MAX_U64"
    by (auto simp: min_def)
  then show ?thesis
    using charge_implements[OF q c release_account[OF q, of released m] release_frame(1)]
    by (auto simp: account_of_def n)
qed

lemma free_implements: "out = Some (Ok (), m') \<Longrightarrow> frame m m' \<Longrightarrow> spend 0 (account_of m') = spec \<Longrightarrow> implements out m spec"
  by (auto simp: implements_def account_of_def)

subsection \<open>Sizes\<close>

lemma heap_size_spec:
  "gas_ops_ok q \<Longrightarrow> view_ok v \<Longrightarrow> \<exists>h. heap_size q m v = Some h \<and> unat h = vheap m v"
  using heap_size_closed[of q v "misc (gas_params m)" "feature_version m"]
  by (auto simp: heap_size_def vheap_def vsize_def vstack_def)

lemma stack_size_spec: "\<exists>h. stack_size m v = Some h \<and> unat h = vstack m v"
  by (simp add: stack_size_def abstract_stack_size_closed vstack_def)

lemma packed_spec: "gas_ops_ok q \<Longrightarrow> \<exists>h. packed q m v = Some h \<and> unat h = vpacked m v"
  by (cases v) (simp_all add: packed_def abstract_packed_size_def packed_visitor_def vpacked_def gas_arith
      unat_le_MAX min.absorb1)

lemma fold_sizes_spec:
  assumes q: "gas_ops_ok q" and f: "\<And>v. v \<in> set vs \<Longrightarrow> \<exists>h. f v = Some h \<and> unat h = g v"
  shows "\<exists>h. fold_sizes q f vs acc = Some h \<and> unat h = min (unat acc + total_of g vs) MAX_U64"
  using f
proof (induction vs arbitrary: acc)
  case Nil
  then show ?case by (simp add: total_of_def min.absorb1 unat_le_MAX)
next
  case (Cons v vs)
  then obtain h where h: "f v = Some h" "unat h = g v" by auto
  from Cons.IH[of "gq_add q acc h"] Cons.prems obtain h' where
    "fold_sizes q f vs (gq_add q acc h) = Some h'" "unat h' = min (unat (gq_add q acc h) + total_of g vs) MAX_U64" by auto
  with h show ?case by (simp add: total_of_def gas_arith[OF q] sat_add_left add.assoc)
qed

lemma heap_total_spec:
  "gas_ops_ok q \<Longrightarrow> list_all view_ok vs \<Longrightarrow>
   \<exists>h. fold_sizes q (heap_size q m) vs 0 = Some h \<and> unat h = min (total_of (vheap m) vs) MAX_U64"
  using fold_sizes_spec[of q vs "heap_size q m" "vheap m" 0] heap_size_spec[of q _ m] by (auto simp: list_all_iff)

lemma stack_total_spec:
  "gas_ops_ok q \<Longrightarrow> \<exists>h. fold_sizes q (stack_size m) vs 0 = Some h \<and> unat h = min (total_of (vstack m) vs) MAX_U64"
  using fold_sizes_spec[of q vs "stack_size m" "vstack m" 0] stack_size_spec[of m] by auto

lemma packed_total_spec:
  "gas_ops_ok q \<Longrightarrow> \<exists>h. fold_sizes q (packed q m) vs 0 = Some h \<and> unat h = min (total_of (vpacked m) vs) MAX_U64"
  using fold_sizes_spec[of q vs "packed q m" "vpacked m" 0] packed_spec[of q m] by auto

lemma vheap_le: "vheap m v \<le> MAX_U64"
  by (simp add: vheap_def vsize_def)

lemma deref_spec:
  assumes "gas_ops_ok q" "view_ok v" "\<not> has_ref (case v of VRef _ w \<Rightarrow> w | _ \<Rightarrow> v)"
  shows "\<exists>s. abstract_value_size_dereferenced q (misc (gas_params m)) v (feature_version m) = Some s \<and> unat s = vderef m v"
proof (cases "\<exists>g w. v = VRef g w")
  case True
  then obtain g w where "v = VRef g w" by blast
  with assms abstract_value_size_closed[OF assms(1), of w] show ?thesis
    by (simp add: dereferenced_size_eq vderef_def vsize_def)
next
  case False
  with assms abstract_value_size_closed[OF assms(1,2)] show ?thesis
    by (cases v) (auto simp: dereferenced_size_eq vderef_def vsize_def)
qed

subsection \<open>Method by method\<close>

definition meter_ok :: "gas_meter \<Rightarrow> bool" where
  "meter_ok m \<longleftrightarrow> (feature_version m > 0 \<longrightarrow> storage_gas_params m \<noteq> None)"

definition comparable_ok :: "value_view \<Rightarrow> bool" where
  "comparable_ok v \<longleftrightarrow> view_ok v \<and> \<not> has_ref (case v of VRef _ w \<Rightarrow> w | _ \<Rightarrow> v)"

fun call_ok :: "'k key_ops \<Rightarrow> gas_meter \<Rightarrow> 'k meter_call \<Rightarrow> bool" where
  "call_ok ko m (NativeBefore args) = list_all view_ok args"
| "call_ok ko m (Native _ (Some rets)) = list_all view_ok rets"
| "call_ok ko m (LoadResource (Some (_, v))) = view_ok v"
| "call_ok ko m (Pop v) = view_ok v"
| "call_ok ko m (Call args _) = (length args \<le> MAX_U64)"
| "call_ok ko m (CallGeneric _ tys args _) = (length tys \<le> MAX_U64 \<and> length args \<le> MAX_U64)"
| "call_ok ko m (LdConstAfter v) = view_ok v"
| "call_ok ko m (CopyLoc v) = view_ok v"
| "call_ok ko m (Pack _ args) = (length args \<le> MAX_U64)"
| "call_ok ko m (Unpack _ args) = (length args \<le> MAX_U64)"
| "call_ok ko m (ReadRef v) = view_ok v"
| "call_ok ko m (WriteRef _ old) = view_ok old"
| "call_ok ko m (EqV l r) = (comparable_ok l \<and> comparable_ok r)"
| "call_ok ko m (NeqV l r) = (comparable_ok l \<and> comparable_ok r)"
| "call_ok ko m (VecPack args) = (length args \<le> MAX_U64)"
| "call_ok ko m (DropFrame locals) = list_all view_ok locals"
| "call_ok ko m (WriteSet ops) = writes_ok ko (feature_version m) ops"
| "call_ok ko m _ = True"

lemma account_step_Keep: "account_step t Keep price a = spend price a"
  by (cases a) simp

lemma account_step_untracked: "\<not> t \<Longrightarrow> account_step t e price a = spend price a"
  by (cases a; cases e) simp_all

lemma account_step_Release: "account_step t (Release n) price (account_of m) =
    spend price (unat (balance m), if t then min (unat (memory_quota m) + n) MAX_U64 else unat (memory_quota m))"
  by (simp add: account_of_def)

declare spend.simps [simp del] account_step.simps [simp del]

lemmas price_simps = iprice_def tprice_def sat_simps unat_len_u64 unat_le_MAX min.absorb1

lemma deep_copy_implements:
  assumes q: "gas_ops_ok q" and v: "view_ok v"
  shows "implements (charge_deep_copy q base per v m) m
     (account_step (tracked m) (Use (vheap m v)) (iprice m base + iprice m per * vsize m v) (account_of m))"
proof -
  let ?p = "misc (gas_params m)" and ?fv = "feature_version m"
  from heap_size_closed[OF q v, of ?p ?fv] obtain h where
    h: "abstract_value_size_stack_and_heap q ?p v ?fv = Some (stack_part ?p ?fv v, h)" "unat h = vheap m v"
    by (auto simp: vheap_def vsize_def vstack_def)
  have sum: "unat (stack_part ?p ?fv v) + vheap m v = vsize m v"
    using stack_part_le_msize[of ?p ?fv v] unat_le_MAX[of "stack_part ?p ?fv v"]
    by (simp add: vheap_def vsize_def vstack_def)
  have cost: "unat (gq_add q (instr (gas_params m) base) (gq_mul q (instr (gas_params m) per)
      (gq_add q (stack_part ?p ?fv v) h))) = min (iprice m base + iprice m per * vsize m v) MAX_U64"
    by (simp add: gas_arith[OF q] price_simps h sum)
  have n: "unat h = min (vheap m v) MAX_U64" using h vheap_le[of m v] by simp
  show ?thesis
    unfolding charge_deep_copy_def h(1)
    by (simp add: Let_def) (rule use_implements[OF q n], use cost in \<open>auto simp: frame_def intro!: charge_implements[OF q]\<close>)
qed

lemma compare_implements:
  assumes q: "gas_ops_ok q" and l: "comparable_ok l" and r: "comparable_ok r"
  shows "implements (charge_compare q base per l r m) m
     (account_step (tracked m) (Release (vheap m l + vheap m r)) (iprice m base + iprice m per * (vderef m l + vderef m r)) (account_of m))"
proof -
  obtain hl hr where h: "heap_size q m l = Some hl" "unat hl = vheap m l" "heap_size q m r = Some hr" "unat hr = vheap m r"
    using heap_size_spec[OF q, of l m] heap_size_spec[OF q, of r m] l r by (auto simp: comparable_ok_def)
  obtain sl sr where s: "abstract_value_size_dereferenced q (misc (gas_params m)) l (feature_version m) = Some sl" "unat sl = vderef m l"
    "abstract_value_size_dereferenced q (misc (gas_params m)) r (feature_version m) = Some sr" "unat sr = vderef m r"
    using deref_spec[OF q, of l m] deref_spec[OF q, of r m] l r by (auto simp: comparable_ok_def)
  let ?m1 = "release_heap_memory q hl m"
  let ?m2 = "release_heap_memory q hr ?m1"
  have hr: "heap_size q ?m1 r = Some hr" using h(3) by (simp add: heap_size_def)
  have cost: "unat (gq_add q (instr (gas_params m) base) (gq_mul q (instr (gas_params m) per) (gq_add q sl sr))) =
      min (iprice m base + iprice m per * (vderef m l + vderef m r)) MAX_U64"
    by (simp add: gas_arith[OF q] price_simps s)
  have fr: "frame m ?m2" by (simp add: release_heap_memory_def frame_def)
  have acc: "account_of ?m2 = (unat (balance m), if tracked m then min (unat (memory_quota m) + (vheap m l + vheap m r)) MAX_U64
      else unat (memory_quota m))"
    using h by (simp add: account_of_def release_heap_memory_def gas_arith[OF q] sat_add_left add.assoc)
  have "charge_compare q base per l r m = Some (charge q (gq_add q (instr (gas_params m) base) (gq_mul q (instr (gas_params m) per) (gq_add q sl sr))) ?m2)"
    by (simp add: charge_compare_def h hr s Let_def)
  with charge_implements[OF q cost acc fr] show ?thesis by (simp add: account_step_Release)
qed

lemma native_before_implements:
  assumes q: "gas_ops_ok q" and v: "list_all view_ok args"
  shows "implements (charge_native_function_before_execution q args m) m
     (account_step (tracked m) (if is_call_table m then Keep else Release (total_of (vheap m) args)) 0 (account_of m))"
proof (cases "is_call_table m")
  case True
  then show ?thesis
    by (auto simp: charge_native_function_before_execution_def account_step_Keep intro!: free_implements)
next
  case False
  from heap_total_spec[OF q v, of m] obtain h where
    h: "fold_sizes q (heap_size q m) args 0 = Some h" "unat h = min (total_of (vheap m) args) MAX_U64" by auto
  from release_implements[OF q h(2), of 0 0 m] False h show ?thesis
    by (auto simp: charge_native_function_before_execution_def implements_def charge_def gas_arith[OF q] frame_def)
qed

lemma native_implements:
  assumes q: "gas_ops_ok q" and v: "list_all view_ok rets"
  shows "implements (charge_native_function q amount (Some rets) m) m
     (account_step (tracked m) (Use (total_of (vheap m) rets)) (unat amount) (account_of m))"
proof -
  from heap_total_spec[OF q v, of m] obtain h where
    h: "fold_sizes q (heap_size q m) rets 0 = Some h" "unat h = min (total_of (vheap m) rets) MAX_U64" by auto
  then show ?thesis
    by (auto simp: charge_native_function_def price_simps intro!: use_implements[OF q] charge_implements[OF q])
qed

lemma load_resource_implements:
  assumes q: "gas_ops_ok q" and m: "meter_ok m" and v: "call_ok ko m (LoadResource loaded)"
  shows "implements (charge_load_resource q loaded m) m
     (account_step (tracked m) (mem_of m (LoadResource loaded)) (price_of ko m (LoadResource loaded)) (account_of m))"
proof (cases "feature_version m = 0")
  case True
  have "\<not> tracked m" using True by simp
  then show ?thesis
    by (cases loaded)
      (auto simp: charge_load_resource_def True gas_arith[OF q] price_simps Let_def account_step_untracked
        intro!: charge_implements[OF q])
next
  case False
  with m obtain sp where sp: "storage_gas_params m = Some sp" by (auto simp: meter_ok_def word_neq_0_conv)
  show ?thesis
  proof (cases loaded)
    case None
    with False sp show ?thesis
      by (auto simp: charge_load_resource_def gas_arith[OF q] price_simps intro!: keep_implements[OF q])
  next
    case (Some x)
    obtain n v where x: "x = (n, v)" by fastforce
    from heap_size_spec[OF q, of v m] assms(3) Some x obtain h where h: "heap_size q m v = Some h" "unat h = vheap m v" by auto
    with False sp vheap_le[of m v] show ?thesis
      by (auto simp: Some x charge_load_resource_def gas_arith[OF q] price_simps frame_def
          intro!: use_implements[OF q] charge_implements[OF q])
  qed
qed

lemma release_one_implements:
  assumes "gas_ops_ok q" "view_ok v"
  shows "implements (charge_pop q v m) m (account_step (tracked m) (Release (vheap m v)) (iprice m ''pop'') (account_of m))"
    and "implements (charge_write_ref q w v m) m (account_step (tracked m) (Release (vheap m v)) (iprice m ''write_ref_base'') (account_of m))"
  using heap_size_spec[OF assms, of m] vheap_le[of m v]
  by (auto simp: charge_pop_def charge_write_ref_def Let_def price_simps intro!: release_implements[OF assms(1)])

lemma ld_const_after_implements:
  assumes q: "gas_ops_ok q" and v: "view_ok v"
  shows "implements (charge_ld_const_after_deserialization q v m) m
     (account_step (tracked m) (Use (vheap m v)) 0 (account_of m))"
proof -
  from heap_size_spec[OF assms, of m] obtain h where h: "heap_size q m v = Some h" "unat h = min (vheap m v) MAX_U64"
    using vheap_le[of m v] by auto
  have k: "implements (Some (Ok (), m')) m (spend 0 (account_of m'))" if "frame m m'" for m'
    by (rule free_implements[OF refl that refl])
  from use_implements[OF q h(2) k] show ?thesis by (simp add: charge_ld_const_after_deserialization_def h)
qed

lemma pack_implements:
  assumes q: "gas_ops_ok q" and l: "length args \<le> MAX_U64"
  shows "implements (charge_pack q g args m) m (account_step (tracked m) (Use (total_of (vstack m) args))
      (price_of ko m (Pack g args)) (account_of m))"
    and "implements (charge_unpack q g args m) m (account_step (tracked m) (Release (total_of (vstack m) args))
      (price_of ko m (Unpack g args)) (account_of m))"
  using stack_total_spec[OF q, of m args] l
  by (auto simp: charge_pack_def charge_unpack_def Let_def gas_arith[OF q] price_simps frame_def
      intro!: use_implements[OF q] release_implements[OF q] charge_implements[OF q])

lemma vec_pack_implements:
  assumes q: "gas_ops_ok q" and l: "length args \<le> MAX_U64"
  shows "implements (charge_vec_pack q args m) m (account_step (tracked m) (Use (total_of (vpacked m) args))
      (price_of ko m (VecPack args)) (account_of m))"
  using packed_total_spec[OF q, of m args] l
  by (auto simp: charge_vec_pack_def Let_def gas_arith[OF q] price_simps frame_def
      intro!: use_implements[OF q] charge_implements[OF q])

lemma vec_unpack_implements:
  assumes q: "gas_ops_ok q"
  shows "implements (charge_vec_unpack q n elems m) m (account_step (tracked m) (Release (total_of (vpacked m) elems))
      (price_of ko m (VecUnpack n elems)) (account_of m))"
  using packed_total_spec[OF q, of m elems]
  by (auto simp: charge_vec_unpack_def Let_def gas_arith[OF q] price_simps intro!: release_implements[OF q])

lemma vpacked_le: "vpacked m v \<le> MAX_U64"
  by (simp add: vpacked_def unat_le_MAX)

lemma vec_push_implements:
  assumes q: "gas_ops_ok q"
  shows "implements (charge_vec_push_back q v m) m (account_step (tracked m) (Use (vpacked m v))
      (iprice m ''vec_push_back_base'') (account_of m))"
    and "implements (charge_vec_pop_back q (Some v) m) m (account_step (tracked m) (Release (vpacked m v))
      (iprice m ''vec_pop_back_base'') (account_of m))"
  using packed_spec[OF q, of m v] vpacked_le[of m v]
  by (auto simp: charge_vec_push_back_def charge_vec_pop_back_def price_simps frame_def
      intro!: use_implements[OF q] release_implements[OF q] charge_implements[OF q])

lemma drop_frame_implements:
  assumes q: "gas_ops_ok q" and v: "list_all view_ok locals"
  shows "implements (charge_drop_frame q locals m) m (account_step (tracked m) (Release (total_of (vheap m) locals)) 0 (account_of m))"
proof -
  from heap_total_spec[OF q v, of m] obtain h where
    h: "fold_sizes q (heap_size q m) locals 0 = Some h" "unat h = min (total_of (vheap m) locals) MAX_U64" by auto
  from release_implements[OF q h(2), of 0 0 m] h show ?thesis
    by (auto simp: charge_drop_frame_def implements_def charge_def gas_arith[OF q] frame_def)
qed

lemma transaction_implements:
  assumes q: "gas_ops_ok q"
  shows "implements (charge_intrinsic_gas_for_transaction q n m) m
      (account_step (tracked m) Keep (price_of ko m (Intrinsic n)) (account_of m))"
    and "meter_ok m \<Longrightarrow> writes_ok ko (feature_version m) ops \<Longrightarrow> implements (charge_write_set_gas q ko ops m) m
      (account_step (tracked m) Keep (price_of ko m (WriteSet ops)) (account_of m))"
proof -
  show "implements (charge_intrinsic_gas_for_transaction q n m) m
      (account_step (tracked m) Keep (price_of ko m (Intrinsic n)) (account_of m))"
    using intrinsic_gas_closed[OF q, of "txn (gas_params m)" n]
    by (auto simp: charge_intrinsic_gas_for_transaction_def tprice_def intro!: keep_implements[OF q])
  show "implements (charge_write_set_gas q ko ops m) m
      (account_step (tracked m) Keep (price_of ko m (WriteSet ops)) (account_of m))"
    if "meter_ok m" "writes_ok ko (feature_version m) ops"
    using that txn_gas_closed[OF q, of ko ops "txn (gas_params m)"]
      storage_gas_closed[OF q that(2), of "the (storage_gas_params m)"]
    by (auto simp: charge_write_set_gas_def meter_ok_def word_neq_0_conv intro!: keep_implements[OF q])
qed

lemma call_implements:
  assumes q: "gas_ops_ok q" and c: "call_ok ko m c"
  shows "c = Call args locals \<Longrightarrow> implements (charge_call q args locals m) m
      (account_step (tracked m) Keep (price_of ko m c) (account_of m))"
    and "c = CallGeneric mid tys args locals \<Longrightarrow> implements (charge_call_generic q core mid tys args locals m) m
      (account_step (tracked m) Keep (price_of ko m c) (account_of m))"
  using c
  by (auto simp: charge_call_def charge_call_generic_def Let_def gas_arith[OF q] price_simps account_of_def frame_def
      account_step_Keep intro!: charge_implements[OF q])

lemmas flat_defs = charge_simple_instr_def charge_move_loc_def charge_store_loc_def charge_borrow_global_def
  charge_exists_def charge_move_from_def charge_move_to_def charge_vec_len_def charge_vec_borrow_def
  charge_vec_swap_def charge_ld_const_def
  charge_copy_loc_def charge_read_ref_def charge_eq_def charge_neq_def

text \<open>The result of any call on a well-formed meter, entry by entry of the price list.\<close>

lemma meter_step_implements:
  assumes q: "gas_ops_ok q" and m: "meter_ok m" and c: "call_ok ko m c"
  shows "implements (meter_step q core ko c m) m (account_step (tracked m) (mem_of m c) (price_of ko m c) (account_of m))"
proof (cases c)
  case (Native amount rets)
  with c show ?thesis
    by (cases rets)
      (auto simp: native_implements[OF q] charge_native_function_def[where ret_vals = None] price_simps intro!: keep_implements[OF q])
next
  case (VecPopBack v)
  with c show ?thesis
    by (cases v)
      (auto simp: vec_push_implements[OF q, unfolded iprice_def] charge_vec_pop_back_def[where val = None] price_simps intro!: keep_implements[OF q])
next
  case (LoadResource loaded)
  from load_resource_implements[OF q m c[unfolded LoadResource]] show ?thesis
    by (simp only: LoadResource meter_step.simps)
next
  case (CallGeneric mid tys args locals)
  with call_implements(2)[OF q c] show ?thesis by simp
next
  case (Call args locals)
  with call_implements(1)[OF q c] show ?thesis by simp
next
  case (Pack g args)
  with pack_implements[OF q] c show ?thesis by simp
next
  case (Unpack g args)
  with pack_implements[OF q] c show ?thesis by simp
next
  case (VecPack args)
  with vec_pack_implements[OF q] c show ?thesis by simp
next
  case (VecUnpack n elems)
  with vec_unpack_implements[OF q] c show ?thesis by simp
next
  case (WriteSet ops)
  from transaction_implements(2)[OF q m c[unfolded WriteSet call_ok.simps]] show ?thesis
    by (simp only: WriteSet meter_step.simps mem_of.simps)
next
  case (Intrinsic n)
  with transaction_implements(1)[OF q] show ?thesis by simp
next
  case (BorrowGlobal mt g)
  then show ?thesis by (cases mt; cases g) (auto simp: flat_defs price_simps intro!: keep_implements[OF q])
qed (use c in \<open>auto simp: flat_defs gas_arith[OF q] price_simps native_before_implements[OF q]
    release_one_implements[OF q, unfolded iprice_def] Let_def ld_const_after_implements[OF q] deep_copy_implements[OF q, unfolded iprice_def]
    compare_implements[OF q, unfolded iprice_def] vec_push_implements[OF q, unfolded iprice_def]
    drop_frame_implements[OF q] intro!: keep_implements[OF q]\<close>)

text \<open>
  C34. Every charging method implements its entry of the price list: on a meter that was constructed, with
  well-formed arguments, it returns, and the balance and the memory quota change exactly as the account
  prescribes: first the memory effect, refused when the quota is short, then the price, refused with an
  empty balance when it cannot be paid; parameters and feature version stay.
\<close>

theorem meter_implements_account:
  assumes "gas_ops_ok q" "meter_ok m" "call_ok ko m c"
  shows "\<exists>r m'. meter_step q core ko c m = Some (r, m') \<and>
     (r, account_of m') = account_step (feature_version m \<ge> 3) (mem_of m c) (price_of ko m c) (account_of m) \<and>
     frame m m'"
  using meter_step_implements[OF assms] by (auto simp: implements_def)

definition demo_meter :: gas_meter where
  "demo_meter = \<lparr>feature_version = 3,
     gas_params = aptos_zeros\<lparr>misc := demo_params, instr := (\<lambda>_. 10)\<rparr>,
     storage_gas_params = Some demo_storage, balance = 1000, memory_quota = 500, is_call_table = False\<rparr>"

lemma demo_meter_ok: "meter_ok demo_meter"
  by (simp add: meter_ok_def demo_meter_def)

theorem meter_implements_account_witness:
  "\<exists>m'. meter_step sat_ops [] demo_keys (Pack False [VU64 1, VBool True]) demo_meter = Some (Ok (), m') \<and>
     account_of m' = (970, 420)"
proof -
  have "call_ok demo_keys demo_meter (Pack False [VU64 1, VBool True])" by (simp add: MAX_U64_def)
  from meter_implements_account[OF sat_ops_ok demo_meter_ok this, of "[]"] show ?thesis
    by (auto simp: account_step.simps spend.simps account_of_def demo_meter_def aptos_zeros_def demo_params_def
        iprice_def vstack_def total_of_def MAX_U64_def)
qed

section \<open>Whole executions\<close>

fun run_calls ::
  "('c \<Rightarrow> 'm \<Rightarrow> ((unit, status_code) result \<times> 'm) option) \<Rightarrow> 'c list \<Rightarrow> 'm \<Rightarrow> ((unit, status_code) result \<times> 'm) option" where
  "run_calls step [] m = Some (Ok (), m)"
| "run_calls step (c # cs) m = do {
     (r, m') \<leftarrow> step c m;
     case r of Ok _ \<Rightarrow> run_calls step cs m' | Err e \<Rightarrow> Some (Err e, m') }"

text \<open>
  The contract a metered interpreter relies on: a call returns, a successful one takes its price from the
  budget, one that runs out of gas could not be paid and empties the budget, any other failure takes
  nothing, and prices do not change on the way.
\<close>

locale metering =
  fixes step :: "'c \<Rightarrow> 'm \<Rightarrow> ((unit, status_code) result \<times> 'm) option"
    and good :: "'c \<Rightarrow> 'm \<Rightarrow> bool"
    and budget :: "'m \<Rightarrow> nat"
    and price :: "'c \<Rightarrow> 'm \<Rightarrow> nat"
  assumes returns: "good c m \<Longrightarrow> \<exists>r m'. step c m = Some (r, m')"
    and paid: "good c m \<Longrightarrow> step c m = Some (Ok u, m') \<Longrightarrow> budget m' + price c m = budget m"
    and out_of_gas: "good c m \<Longrightarrow> step c m = Some (Err OUT_OF_GAS, m') \<Longrightarrow> budget m < price c m \<and> budget m' = 0"
    and other: "good c m \<Longrightarrow> step c m = Some (Err e, m') \<Longrightarrow> e \<noteq> OUT_OF_GAS \<Longrightarrow> budget m' = budget m"
    and stable: "good c m \<Longrightarrow> step c m = Some (r, m') \<Longrightarrow> price c' m' = price c' m \<and> (good c' m \<longrightarrow> good c' m')"
begin

lemma run_exact:
  "\<forall>c \<in> set cs. good c m \<Longrightarrow> \<exists>r m'. run_calls step cs m = Some (r, m') \<and>
     (case r of
        Ok _ \<Rightarrow> budget m' + sum_list (map (\<lambda>c. price c m) cs) = budget m
      | Err e \<Rightarrow> if e = OUT_OF_GAS then budget m < sum_list (map (\<lambda>c. price c m) cs) \<and> budget m' = 0
                 else budget m' \<le> budget m)"
proof (induction cs arbitrary: m)
  case (Cons c cs)
  then have g: "good c m" by simp
  from returns[OF g] obtain r m' where s: "step c m = Some (r, m')" by blast
  have st: "price c' m' = price c' m" "good c' m \<Longrightarrow> good c' m'" for c' using stable[OF g s] by blast+
  show ?case
  proof (cases r)
    case (Err e)
    with s out_of_gas[OF g] other[OF g] show ?thesis
      by (cases "e = OUT_OF_GAS") (force simp: Err)+
  next
    case (Ok u)
    have p: "budget m' + price c m = budget m" using paid[OF g] s Ok by blast
    from Cons.IH[of m'] Cons.prems st(2) obtain r'' m'' where "run_calls step cs m' = Some (r'', m'')"
      "case r'' of Ok _ \<Rightarrow> budget m'' + sum_list (map (\<lambda>c. price c m') cs) = budget m'
       | Err e \<Rightarrow> if e = OUT_OF_GAS then budget m' < sum_list (map (\<lambda>c. price c m') cs) \<and> budget m'' = 0
                 else budget m'' \<le> budget m'" by auto
    with p s Ok st(1) show ?thesis by (cases r'') auto
  qed
qed simp

end

definition call_good :: "gas_ops \<Rightarrow> 'k key_ops \<Rightarrow> 'k meter_call \<Rightarrow> gas_meter \<Rightarrow> bool" where
  "call_good q ko c m \<longleftrightarrow> gas_ops_ok q \<and> meter_ok m \<and> call_ok ko m c"

definition call_price :: "'k key_ops \<Rightarrow> 'k meter_call \<Rightarrow> gas_meter \<Rightarrow> nat" where
  "call_price ko c m = min (price_of ko m c) MAX_U64"

lemma frame_price: "frame m m' \<Longrightarrow> price_of ko m' c = price_of ko m c"
  by (cases c) (auto simp: frame_def iprice_def tprice_def vsize_def vderef_def split: option.split value_view.split)

lemma frame_call_ok: "frame m m' \<Longrightarrow> call_ok ko m' c = call_ok ko m c"
  by (induction ko m c rule: call_ok.induct) (auto simp: frame_def)

lemma account_step_result:
  assumes "(r, a') = account_step t e price a"
  shows "r = Ok u \<Longrightarrow> fst a' + min price MAX_U64 = fst a"
    and "r = Err OUT_OF_GAS \<Longrightarrow> fst a < min price MAX_U64 \<and> fst a' = 0"
    and "r = Err x \<Longrightarrow> x \<noteq> OUT_OF_GAS \<Longrightarrow> fst a' = fst a"
  using assms by (cases a; cases e; auto simp: account_step.simps spend.simps split: if_splits)+

interpretation gm: metering "meter_step q core ko" "call_good q ko" "\<lambda>m. unat (balance m)" "call_price ko" for q core ko
proof
  fix c m r m' c' and u :: unit and e
  assume g: "call_good q ko c m"
  note spec = meter_step_implements[OF g[unfolded call_good_def, THEN conjunct1] g[unfolded call_good_def, THEN conjunct2, THEN conjunct1]
      g[unfolded call_good_def, THEN conjunct2, THEN conjunct2], of core, unfolded implements_def]
  show "\<exists>r m'. meter_step q core ko c m = Some (r, m')" using spec by blast
  show "unat (balance m') + call_price ko c m = unat (balance m)" if "meter_step q core ko c m = Some (Ok u, m')"
    using spec that account_step_result(1) by (fastforce simp: account_of_def call_price_def)
  show "unat (balance m) < call_price ko c m \<and> unat (balance m') = 0" if "meter_step q core ko c m = Some (Err OUT_OF_GAS, m')"
    using spec that account_step_result(2) by (fastforce simp: account_of_def call_price_def)
  show "unat (balance m') = unat (balance m)" if "meter_step q core ko c m = Some (Err e, m')" "e \<noteq> OUT_OF_GAS"
    using spec that account_step_result(3) by (fastforce simp: account_of_def)
  show "call_price ko c' m' = call_price ko c' m \<and> (call_good q ko c' m \<longrightarrow> call_good q ko c' m')"
    if "meter_step q core ko c m = Some (r, m')"
  proof -
    have "frame m m'" using spec that by auto
    then show ?thesis
      by (auto simp: call_price_def frame_price call_good_def frame_call_ok) (auto simp: meter_ok_def frame_def)
  qed
qed

text \<open>
  C35. Gas accounting is exact over whole executions: if all calls of an execution succeed, the balance went
  down by exactly the sum of their prices; if it ends out of gas, that sum exceeded the balance and
  nothing is left; a memory failure leaves what the calls before it had not spent.  Gas is never created.
\<close>

theorem gas_is_exact:
  assumes "gas_ops_ok q" "meter_ok m" "\<forall>c \<in> set cs. call_ok ko m c"
  shows "\<exists>r m'. run_calls (meter_step q core ko) cs m = Some (r, m') \<and>
     (case r of
        Ok _ \<Rightarrow> unat (balance m') + sum_list (map (\<lambda>c. min (price_of ko m c) MAX_U64) cs) = unat (balance m)
      | Err e \<Rightarrow> if e = OUT_OF_GAS
                 then unat (balance m) < sum_list (map (\<lambda>c. min (price_of ko m c) MAX_U64) cs) \<and> balance m' = 0
                 else unat (balance m') \<le> unat (balance m))"
proof -
  have "\<forall>c \<in> set cs. call_good q ko c m" using assms by (simp add: call_good_def)
  from gm.run_exact[OF this, of core] show ?thesis unfolding call_price_def unat_eq_0 by blast
qed

theorem gas_is_exact_witness:
  "\<exists>m'. run_calls (meter_step sat_ops [] demo_keys) [VecLen, SimpleInstr AddI, Pop (VU8 3)] demo_meter = Some (Ok (), m') \<and>
     unat (balance m') = 970"
proof -
  let ?cs = "[VecLen, SimpleInstr AddI, Pop (VU8 3)] :: nat meter_call list"
  have "\<forall>c \<in> set ?cs. call_ok demo_keys demo_meter c" by simp
  note exact = gas_is_exact[OF sat_ops_ok demo_meter_ok this, of "[]"]
  obtain m' where m': "run_calls (meter_step sat_ops [] demo_keys) ?cs demo_meter = Some (Ok (), m')"
    by (simp add: charge_vec_len_def charge_simple_instr_def charge_pop_def charge_def demo_meter_def sat_ops_def
        aptos_zeros_def heap_size_def abstract_heap_size_def abstract_stack_size_def abstract_value_size_def stack_visitor_def
        size_visitor_def release_heap_memory_def Let_def)
  have p: "sum_list (map (\<lambda>c. min (price_of demo_keys demo_meter c) MAX_U64) ?cs) = 30"
    by (simp add: iprice_def demo_meter_def MAX_U64_def)
  have b: "unat (balance demo_meter) = 1000" by (simp add: demo_meter_def)
  from exact[unfolded m' p b] m' show ?thesis by auto
qed

section \<open>Starting and reading the meter\<close>

text \<open>
  The balance a meter shows: with a consistent configuration the constructor succeeds, and the gas read
  back is the gas put in, rounded by nothing, unless the conversion to internal units saturates; with an
  inconsistent configuration (storage prices missing or superfluous for the feature version) it panics.
\<close>

theorem meter_balance_roundtrip:
  assumes q: "gas_ops_ok q"
  shows "if (fv = 0) = (storage = None)
     then \<exists>m. meter_new q fv params storage gas = Some m \<and> meter_ok m \<and>
       unat (balance_of q m) = min (unat gas) (MAX_U64 div unat (scaling_factor (txn params)))
     else meter_new q fv params storage gas = None"
proof -
  let ?s = "scaling_factor (txn params)"
  have s: "0 < unat ?s" using scaling_factor_pos[of "txn params"] by (simp add: unat_gt_0)
  have g: "unat (gq_to_unit q gas ?s) = min (unat gas * unat ?s) MAX_U64"
    using q scaling_factor_pos[of "txn params"] by (simp add: gas_ops_ok_def)
  have r: "unat (gq_round_down q a (1, ?s)) = unat a div unat ?s" for a
    using q scaling_factor_pos[of "txn params"] unat_le_MAX[of a]
    by (simp add: gas_ops_ok_def) (meson div_le_dividend min.absorb1 order_trans)
  have "min (unat gas * unat ?s) MAX_U64 div unat ?s = min (unat gas) (MAX_U64 div unat ?s)"
    using s by (simp add: min_def div_le_mono less_eq_div_iff_mult_less_eq)
  then show ?thesis
    by (auto simp: meter_new_def balance_of_def multiplier_def ratio_def r g meter_ok_def word_gt_0)
qed

theorem meter_balance_roundtrip_witness:
  "\<exists>m. meter_new sat_ops 3 aptos_zeros (Some demo_storage) 1234 = Some m \<and> unat (balance_of sat_ops m) = 1234"
  using meter_balance_roundtrip[OF sat_ops_ok, of 3 "Some demo_storage" aptos_zeros 1234]
  by (auto simp: scaling_factor_def aptos_zeros_def zeros_def MAX_U64_def)

section \<open>Memory\<close>

lemma vheap_struct:
  assumes "msize (misc (gas_params m)) (feature_version m) (VStruct fs) \<le> MAX_U64"
  shows "vheap m (VStruct fs) = total_of (vstack m) fs + total_of (vheap m) fs"
proof -
  let ?p = "misc (gas_params m)" and ?fv = "feature_version m"
  have "msize ?p ?fv f \<le> MAX_U64" if "f \<in> set fs" for f
    using assms member_le_sum_list[of "msize ?p ?fv f" "map (msize ?p ?fv) fs"] that by simp
  then have "vheap m f = heap_part ?p ?fv f" if "f \<in> set fs" for f
    using that by (simp add: vheap_def vsize_def vstack_def heap_part_def)
  then have "total_of (vheap m) fs = sum_list (map (heap_part ?p ?fv) fs)"
    unfolding total_of_def by (intro arg_cong[of _ _ sum_list] map_cong) simp_all
  moreover have "vheap m (VStruct fs) = heap_part ?p ?fv (VStruct fs)"
    using assms by (simp add: vheap_def vsize_def vstack_def heap_part_def)
  moreover have "vstack m = (\<lambda>f. unat (stack_part ?p ?fv f))" by (simp add: vstack_def fun_eq_iff)
  ultimately show ?thesis by (simp add: heap_part_struct sum_list_addf total_of_def)
qed

text \<open>
  Memory is given back: packing values into a struct and dropping the struct returns to the quota
  exactly what the packing took plus the heap the fields held before (from feature version 3 on, for a
  struct whose size does not saturate): building and dropping values neither leaks quota nor creates it.
\<close>

theorem pack_then_pop_conserves_memory:
  assumes q: "gas_ops_ok q" and m: "meter_ok m" and v: "feature_version m \<ge> 3"
    and len: "length fs \<le> MAX_U64" "list_all view_ok fs"
    and size: "msize (misc (gas_params m)) (feature_version m) (VStruct fs) \<le> MAX_U64"
    and pack: "meter_step q core ko (Pack g fs) m = Some (Ok (), m1)"
    and pop: "meter_step q core ko (Pop (VStruct fs)) m1 = Some (r, m2)"
  shows "unat (memory_quota m2) = min (unat (memory_quota m) + total_of (vheap m) fs) MAX_U64"
proof -
  from meter_step_implements[OF q m, of ko "Pack g fs" core] len(1) pack
  have 1: "(Ok (), account_of m1) = account_step True (Use (total_of (vstack m) fs)) (price_of ko m (Pack g fs)) (account_of m)"
    "frame m m1" using v by (auto simp: implements_def simp del: price_of.simps)
  have m1: "meter_ok m1" "feature_version m1 \<ge> 3" using 1(2) m v by (auto simp: frame_def meter_ok_def)
  have vh: "vheap m1 x = vheap m x" for x using 1(2) by (simp add: frame_def vheap_def vsize_def vstack_def)
  from meter_step_implements[OF q m1(1), of ko "Pop (VStruct fs)" core] len(2) pop
  have 2: "(r, account_of m2) = account_step True (Release (vheap m (VStruct fs))) (iprice m1 ''pop'') (account_of m1)"
    using m1(2) by (auto simp: implements_def vh)
  from 1(1) have used: "min (total_of (vstack m) fs) MAX_U64 \<le> unat (memory_quota m)"
    "unat (memory_quota m1) = unat (memory_quota m) - min (total_of (vstack m) fs) MAX_U64"
    by (auto simp: account_of_def account_step.simps spend.simps split: if_splits)
  have "total_of (vstack m) fs \<le> MAX_U64"
    using vheap_struct[OF size] vheap_le[of m "VStruct fs"] by simp
  moreover have "unat (memory_quota m2) = min (unat (memory_quota m1) + vheap m (VStruct fs)) MAX_U64"
    using 2 by (auto simp: account_of_def account_step.simps spend.simps split: if_splits)
  ultimately show ?thesis using used by (simp add: vheap_struct[OF size])
qed

definition demo_fields :: "value_view list" where
  "demo_fields = [VVecU8 [1, 2, 3], VU64 5]"

theorem pack_then_pop_conserves_memory_witness:
  "\<exists>m1 r m2. meter_step sat_ops [] demo_keys (Pack False demo_fields) demo_meter = Some (Ok (), m1) \<and>
     meter_step sat_ops [] demo_keys (Pop (VStruct demo_fields)) m1 = Some (r, m2) \<and> unat (memory_quota m2) = 503"
proof -
  have ok: "length demo_fields \<le> MAX_U64" "list_all view_ok demo_fields" by (simp_all add: demo_fields_def MAX_U64_def)
  have sizes: "msize demo_params 3 (VStruct demo_fields) = 123"
    by (simp add: demo_fields_def demo_params_def packed_size_def)
  have d: "misc (gas_params demo_meter) = demo_params" "feature_version demo_meter = 3" "unat (memory_quota demo_meter) = 500"
    by (simp_all add: demo_meter_def)
  have h: "total_of (vheap demo_meter) demo_fields = 3" "total_of (vstack demo_meter) demo_fields = 80"
    by (simp_all add: total_of_def vheap_def vsize_def vstack_def d demo_fields_def demo_params_def packed_size_def MAX_U64_def)
  from meter_step_implements[OF sat_ops_ok demo_meter_ok, of demo_keys "Pack False demo_fields" "[]"] ok obtain m1 where
    m1: "meter_step sat_ops [] demo_keys (Pack False demo_fields) demo_meter = Some (Ok (), m1)" "frame demo_meter m1"
    by (auto simp: implements_def d h account_of_def account_step.simps spend.simps iprice_def MAX_U64_def)
      (auto simp: demo_meter_def demo_fields_def)
  then have "meter_ok m1" using demo_meter_ok by (simp add: frame_def meter_ok_def)
  from meter_step_implements[OF sat_ops_ok this, of demo_keys "Pop (VStruct demo_fields)" "[]"] ok obtain r m2 where
    m2: "meter_step sat_ops [] demo_keys (Pop (VStruct demo_fields)) m1 = Some (r, m2)" by (auto simp: implements_def)
  have "unat (memory_quota m2) = min (unat (memory_quota demo_meter) + total_of (vheap demo_meter) demo_fields) MAX_U64"
    by (rule pack_then_pop_conserves_memory[OF sat_ops_ok demo_meter_ok _ ok _ m1(1) m2])
      (simp_all add: d sizes MAX_U64_def del: msize.simps)
  with m1(1) m2 show ?thesis by (auto simp: d h MAX_U64_def)
qed

text \<open>
  C40. The table flag outlives the call it was set for.  A generic call of a function of the table module
  sets \<open>is_call_table\<close>, a plain call leaves it as it is: when the next native function is reached
  through a plain call, its arguments are not given back to the quota, although nothing enters a table.
\<close>

theorem table_flag_is_stale:
  assumes "meter_step q core ko (CallGeneric (core, ''table'') tys args locals) m = Some (r, m1)"
    and "meter_step q core ko (Call args' locals') m1 = Some (r', m2)"
  shows "meter_step q core ko (NativeBefore args') m2 = Some (Ok (), m2)"
proof -
  have "is_call_table m1"
    using assms(1) by (auto simp: charge_call_generic_def Let_def charge_def split: option.splits)
  then have "is_call_table m2"
    using assms(2) by (auto simp: charge_call_def Let_def charge_def split: option.splits)
  then show ?thesis by (simp add: charge_native_function_before_execution_def)
qed

theorem table_flag_is_stale_witness:
  "\<exists>r m1 r' m2. meter_step sat_ops [1] demo_keys (CallGeneric ([1], ''table'') [] [] 0) demo_meter = Some (r, m1) \<and>
     meter_step sat_ops [1] demo_keys (Call demo_fields 0) m1 = Some (r', m2) \<and>
     meter_step sat_ops [1] demo_keys (NativeBefore demo_fields) m2 = Some (Ok (), m2)"
proof -
  obtain r m1 where 1: "meter_step sat_ops [1] demo_keys (CallGeneric ([1], ''table'') [] [] 0) demo_meter = Some (r, m1)"
    by (simp add: charge_call_generic_def Let_def) (metis surj_pair)
  obtain r' m2 where 2: "meter_step sat_ops [1] demo_keys (Call demo_fields 0) m1 = Some (r', m2)"
    by (simp add: charge_call_def Let_def) (metis surj_pair)
  from table_flag_is_stale[OF 1 2] 1 2 show ?thesis by blast
qed

end
