(* ===== verification/Utf8.thy ===== *)
theory Utf8
  imports Prelude
begin

text \<open>
  Validation of UTF-8 as \<open>std::str::from_utf8\<close> of the standard library performs it, byte by byte, which
  \<open>check_string\<close> of \<^verbatim>\<open>aptos-vm/src/transaction_arg_validation.rs\<close> and \<open>get_move_string\<close> of
  \<^verbatim>\<open>framework/src/natives/code.rs\<close> rely on.  The result: it accepts exactly the encodings of
  sequences of Unicode scalar values.
\<close>

section \<open>The validator\<close>

definition cont :: "u8 \<Rightarrow> bool" where
  "cont b \<longleftrightarrow> 0x80 \<le> b \<and> b \<le> 0xBF"

definition second_of_three :: "u8 \<Rightarrow> u8 \<Rightarrow> bool" where
  "second_of_three b0 b1 \<longleftrightarrow>
     b0 = 0xE0 \<and> 0xA0 \<le> b1 \<and> b1 \<le> 0xBF \<or>
     0xE1 \<le> b0 \<and> b0 \<le> 0xEC \<and> cont b1 \<or>
     b0 = 0xED \<and> 0x80 \<le> b1 \<and> b1 \<le> 0x9F \<or>
     0xEE \<le> b0 \<and> b0 \<le> 0xEF \<and> cont b1"

definition second_of_four :: "u8 \<Rightarrow> u8 \<Rightarrow> bool" where
  "second_of_four b0 b1 \<longleftrightarrow>
     b0 = 0xF0 \<and> 0x90 \<le> b1 \<and> b1 \<le> 0xBF \<or>
     0xF1 \<le> b0 \<and> b0 \<le> 0xF3 \<and> cont b1 \<or>
     b0 = 0xF4 \<and> 0x80 \<le> b1 \<and> b1 \<le> 0x8F"

fun from_utf8 :: "bytes \<Rightarrow> bool" where
  "from_utf8 [] = True"
| "from_utf8 (b0 # bs) =
     (if b0 < 0x80 then from_utf8 bs
      else if 0xC2 \<le> b0 \<and> b0 \<le> 0xDF then
        (case bs of b1 # rest \<Rightarrow> cont b1 \<and> from_utf8 rest | _ \<Rightarrow> False)
      else if 0xE0 \<le> b0 \<and> b0 \<le> 0xEF then
        (case bs of b1 # b2 # rest \<Rightarrow> second_of_three b0 b1 \<and> cont b2 \<and> from_utf8 rest | _ \<Rightarrow> False)
      else if 0xF0 \<le> b0 \<and> b0 \<le> 0xF4 then
        (case bs of b1 # b2 # b3 # rest \<Rightarrow> second_of_four b0 b1 \<and> cont b2 \<and> cont b3 \<and> from_utf8 rest | _ \<Rightarrow> False)
      else False)"

section \<open>The encoding\<close>

definition scalar :: "nat \<Rightarrow> bool" where
  "scalar u \<longleftrightarrow> u < 0xD800 \<or> 0xE000 \<le> u \<and> u < 0x110000"

definition utf8_char :: "nat \<Rightarrow> bytes" where
  "utf8_char u =
     (if u < 0x80 then [of_nat u]
      else if u < 0x800 then [of_nat (0xC0 + u div 64), of_nat (0x80 + u mod 64)]
      else if u < 0x10000 then
        [of_nat (0xE0 + u div 4096), of_nat (0x80 + u div 64 mod 64), of_nat (0x80 + u mod 64)]
      else
        [of_nat (0xF0 + u div 262144), of_nat (0x80 + u div 4096 mod 64), of_nat (0x80 + u div 64 mod 64),
         of_nat (0x80 + u mod 64)])"

definition utf8 :: "nat list \<Rightarrow> bytes" where
  "utf8 us = concat (map utf8_char us)"

lemma unat_byte: "n < 256 \<Longrightarrow> unat (of_nat n :: u8) = n"
  by (simp add: unat_of_nat)

lemma byte_eq_nat: "b = c \<longleftrightarrow> unat b = unat c" for b c :: u8
  by (rule word_unat_eq_iff)

lemmas byte_rules = word_le_nat_alt word_less_nat_alt byte_eq_nat

lemma digits3: "u = u div 4096 * 4096 + u div 64 mod 64 * 64 + u mod 64" for u :: nat
proof -
  have "u div 4096 = u div 64 div 64" by (simp flip: div_mult2_eq)
  then show ?thesis using div_mult_mod_eq[of u 64] div_mult_mod_eq[of "u div 64" 64] by linarith
qed

lemma digits4: "u = u div 262144 * 262144 + u div 4096 mod 64 * 4096 + u div 64 mod 64 * 64 + u mod 64" for u :: nat
proof -
  have "u div 262144 = u div 4096 div 64" by (simp flip: div_mult2_eq)
  then show ?thesis using digits3[of u] div_mult_mod_eq[of "u div 4096" 64] by linarith
qed

lemma horner: "b < 64 \<Longrightarrow> (a * 64 + b) div 64 = a" "b < 64 \<Longrightarrow> (a * 64 + b) mod 64 = b" for a b :: nat
  by simp_all

lemma div_4096: "u div 4096 = u div 64 div 64" "u div 262144 = u div 64 div 64 div 64" for u :: nat
  by (simp_all flip: div_mult2_eq)

lemma mod64_le [simp]: "u mod 64 \<le> 63" for u :: nat
  using mod_less_divisor[of 64 u] by linarith

text \<open>Every encoded character is skipped as a whole.\<close>

lemma from_utf8_char2:
  assumes "0x80 \<le> u" "u < 0x800"
  shows "from_utf8 (utf8_char u @ bs) = from_utf8 bs"
proof -
  have "u div 64 < 32" "2 \<le> u div 64" "u mod 64 < 64" using assms by auto
  then show ?thesis
    using assms by (simp add: utf8_char_def byte_rules cont_def unat_byte del: of_nat_add)
qed

lemma from_utf8_char3:
  assumes "0x800 \<le> u" "u < 0x10000" "scalar u"
  shows "from_utf8 (utf8_char u @ bs) = from_utf8 bs"
proof -
  define a b c where "a = u div 4096" and "b = u div 64 mod 64" and "c = u mod 64"
  have u: "u = a * 4096 + b * 64 + c" unfolding a_def b_def c_def by (rule digits3)
  have lt: "a < 16" "b < 64" "c < 64" using assms(2) by (auto simp: a_def b_def c_def)
  have "a = 0 \<Longrightarrow> 32 \<le> b" "a = 13 \<Longrightarrow> b < 32" using assms u lt by (auto simp: scalar_def)
  with lt show ?thesis
    using assms
    by (auto simp: utf8_char_def byte_rules cont_def second_of_three_def unat_byte simp del: of_nat_add
        simp flip: a_def b_def c_def)
qed

lemma from_utf8_char4:
  assumes "0x10000 \<le> u" "scalar u"
  shows "from_utf8 (utf8_char u @ bs) = from_utf8 bs"
proof -
  define a b c d where "a = u div 262144" and "b = u div 4096 mod 64" and "c = u div 64 mod 64" and "d = u mod 64"
  have u: "u = a * 262144 + b * 4096 + c * 64 + d" unfolding a_def b_def c_def d_def by (rule digits4)
  have lt: "b < 64" "c < 64" "d < 64" by (auto simp: b_def c_def d_def)
  have "a = 0 \<and> 16 \<le> b \<or> 1 \<le> a \<and> a \<le> 3 \<or> a = 4 \<and> b \<le> 15"
    using assms u lt unfolding scalar_def by linarith
  with lt show ?thesis
    using assms
    by (auto simp: utf8_char_def byte_rules cont_def second_of_four_def unat_byte simp del: of_nat_add
        simp flip: a_def b_def c_def d_def)
qed

lemma from_utf8_char: "scalar u \<Longrightarrow> from_utf8 (utf8_char u @ bs) = from_utf8 bs"
proof -
  assume s: "scalar u"
  consider "u < 0x80" | "0x80 \<le> u" "u < 0x800" | "0x800 \<le> u" "u < 0x10000" | "0x10000 \<le> u" by linarith
  then show ?thesis
  proof cases
    case 1
    then show ?thesis by (simp add: utf8_char_def byte_rules unat_byte)
  qed (use s from_utf8_char2 from_utf8_char3 from_utf8_char4 in auto)
qed

lemma from_utf8_utf8: "\<forall>u \<in> set us. scalar u \<Longrightarrow> from_utf8 (utf8 us)"
  by (induction us) (auto simp: utf8_def from_utf8_char)

text \<open>Conversely an accepted first character decodes.\<close>

lemma byte_of_unat: "unat b = n \<Longrightarrow> of_nat n = b" for b :: u8
  by auto

lemma decode2:
  assumes "0xC2 \<le> b0" "b0 \<le> 0xDF" "cont b1"
  shows "\<exists>u. scalar u \<and> utf8_char u = [b0, b1]"
proof -
  define x y where "x = unat b0 - 0xC0" and "y = unat b1 - 0x80"
  have b: "unat b0 = 0xC0 + x" "2 \<le> x" "x < 32" "unat b1 = 0x80 + y" "y < 64"
    using assms by (auto simp: byte_rules cont_def x_def y_def)
  define u where "u = x * 64 + y"
  have d: "u div 64 = x" "u mod 64 = y" using b(5) by (simp_all add: u_def horner)
  have r: "0x80 \<le> u" "u < 0x800" using b by (auto simp: u_def)
  have "utf8_char u = [b0, b1]"
    using r byte_of_unat[OF b(1)] byte_of_unat[OF b(4)] by (simp add: utf8_char_def d del: of_nat_add)
  moreover have "scalar u" using r by (simp add: scalar_def)
  ultimately show ?thesis by blast
qed

lemma decode3:
  assumes "second_of_three b0 b1" "cont b2"
  shows "\<exists>u. scalar u \<and> utf8_char u = [b0, b1, b2]"
proof -
  define x y z where "x = unat b0 - 0xE0" and "y = unat b1 - 0x80" and "z = unat b2 - 0x80"
  have b: "unat b0 = 0xE0 + x" "x < 16" "unat b1 = 0x80 + y" "y < 64" "unat b2 = 0x80 + z" "z < 64"
    and s: "x = 0 \<Longrightarrow> 32 \<le> y" "x = 13 \<Longrightarrow> y < 32"
    using assms by (auto simp: byte_rules cont_def second_of_three_def x_def y_def z_def)
  define u where "u = (x * 64 + y) * 64 + z"
  have d: "u div 4096 = x" "u div 64 mod 64 = y" "u mod 64 = z"
    unfolding u_def div_4096 horner[OF b(6)] horner[OF b(4)] by simp_all
  have "0x800 \<le> u" using s(1) unfolding u_def by (cases "x = 0") auto
  moreover have "u < 0x10000" using b(2,4,6) unfolding u_def by simp
  moreover have "scalar u"
  proof (cases "x \<le> 13")
    case True
    then have "u < 0xD800" using b(4,6) s(2) unfolding u_def by (cases "x = 13") auto
    then show ?thesis by (simp add: scalar_def)
  next
    case False
    then have "0xE000 \<le> u" unfolding u_def by simp
    with \<open>u < 0x10000\<close> show ?thesis by (simp add: scalar_def)
  qed
  ultimately have r: "0x800 \<le> u" "u < 0x10000" "scalar u" by blast+
  have "utf8_char u = [b0, b1, b2]"
    using r byte_of_unat[OF b(1)] byte_of_unat[OF b(3)] byte_of_unat[OF b(5)]
    by (simp add: utf8_char_def d del: of_nat_add)
  with r(3) show ?thesis by blast
qed

lemma decode4:
  assumes "second_of_four b0 b1" "cont b2" "cont b3"
  shows "\<exists>u. scalar u \<and> utf8_char u = [b0, b1, b2, b3]"
proof -
  define x y z w where "x = unat b0 - 0xF0" and "y = unat b1 - 0x80" and "z = unat b2 - 0x80" and "w = unat b3 - 0x80"
  have b: "unat b0 = 0xF0 + x" "x \<le> 4" "unat b1 = 0x80 + y" "y < 64" "unat b2 = 0x80 + z" "z < 64"
    "unat b3 = 0x80 + w" "w < 64"
    and s: "x = 0 \<Longrightarrow> 16 \<le> y" "x = 4 \<Longrightarrow> y < 16"
    using assms by (auto simp: byte_rules cont_def second_of_four_def x_def y_def z_def w_def)
  define u where "u = ((x * 64 + y) * 64 + z) * 64 + w"
  have d: "u div 262144 = x" "u div 4096 mod 64 = y" "u div 64 mod 64 = z" "u mod 64 = w"
    unfolding u_def div_4096 horner[OF b(8)] horner[OF b(6)] horner[OF b(4)] by simp_all
  have r: "0x10000 \<le> u" using s(1) unfolding u_def by (cases "x = 0") auto
  have "u < 0x110000" using b(2,4,6,8) s(2) unfolding u_def by (cases "x = 4") auto
  with r have sc: "scalar u" by (simp add: scalar_def)
  have "utf8_char u = [b0, b1, b2, b3]"
    using r byte_of_unat[OF b(1)] byte_of_unat[OF b(3)] byte_of_unat[OF b(5)] byte_of_unat[OF b(7)]
    by (simp add: utf8_char_def d del: of_nat_add)
  with sc show ?thesis by blast
qed

lemma decode_first:
  assumes "from_utf8 (b # bs)"
  shows "\<exists>u rest. scalar u \<and> b # bs = utf8_char u @ rest \<and> from_utf8 rest"
proof -
  consider "b < 0x80" "from_utf8 bs"
    | b1 rest where "bs = b1 # rest" "0xC2 \<le> b" "b \<le> 0xDF" "cont b1" "from_utf8 rest"
    | b1 b2 rest where "bs = b1 # b2 # rest" "second_of_three b b1" "cont b2" "from_utf8 rest"
    | b1 b2 b3 rest where "bs = b1 # b2 # b3 # rest" "second_of_four b b1" "cont b2" "cont b3" "from_utf8 rest"
    using assms by (auto split: if_splits list.splits)
  then show ?thesis
  proof cases
    case 1
    then have "scalar (unat b)" "utf8_char (unat b) = [b]" by (auto simp: scalar_def utf8_char_def byte_rules)
    with 1(2) show ?thesis by (metis append_Cons append_Nil)
  next
    case 2
    with decode2[OF 2(2-4)] show ?thesis by (metis append_Cons append_Nil)
  next
    case 3
    with decode3[OF 3(2,3)] show ?thesis by (metis append_Cons append_Nil)
  next
    case 4
    with decode4[OF 4(2-4)] show ?thesis by (metis append_Cons append_Nil)
  qed
qed

lemma utf8_char_nonempty: "0 < length (utf8_char u)"
  by (simp add: utf8_char_def)

lemma from_utf8_iff: "from_utf8 bs \<longleftrightarrow> (\<exists>us. (\<forall>u \<in> set us. scalar u) \<and> bs = utf8 us)"
proof
  assume "from_utf8 bs"
  then show "\<exists>us. (\<forall>u \<in> set us. scalar u) \<and> bs = utf8 us"
  proof (induction bs rule: length_induct)
    case (1 bs)
    show ?case
    proof (cases bs)
      case Nil
      then show ?thesis by (auto simp: utf8_def intro!: exI[of _ "[]"])
    next
      case (Cons b bs')
      with decode_first 1(2) obtain u rest where u: "scalar u" "bs = utf8_char u @ rest" "from_utf8 rest" by blast
      have "length rest < length bs" using u(2) utf8_char_nonempty[of u] by (simp del: length_greater_0_conv)
      with 1(1) u(3) obtain us where "\<forall>u \<in> set us. scalar u" "rest = utf8 us" by blast
      with u show ?thesis by (intro exI[of _ "u # us"]) (simp add: utf8_def)
    qed
  qed
qed (auto intro: from_utf8_utf8)

end
