(* ===== verification/Txn_Args.thy ===== *)
theory Txn_Args
  imports Utf8
begin

text \<open>
  Validation of the arguments of an entry function, from
  \<^verbatim>\<open>aptos-vm/src/transaction_arg_validation.rs\<close>: the signers in front of the parameters, the types a
  transaction may pass, and the walk over the serialised strings.  Parameters are the session's struct
  table, the reader of a ULEB128 number and the serialisation of a signer (external libraries).  The result
  characterises exactly which transactions are accepted and with which arguments.
\<close>

section \<open>Definitions\<close>

text \<open>The runtime types the match arms of the source distinguish.\<close>

datatype move_type =
    TBool
  | TU8
  | TU64
  | TU128
  | TAddress
  | TSigner
  | TVector move_type
  | TStruct nat
  | TStructInstantiation nat "move_type list"
  | TReference move_type
  | TMutableReference move_type
  | TTyParam nat

record 'a arg_env =
  get_struct_type :: "nat \<Rightarrow> (string \<times> string) option"
  read_uleb128 :: "bytes \<Rightarrow> (u64 \<times> nat) option"
  serialize_signer :: "'a \<Rightarrow> bytes option"

record loaded_function =
  fn_parameters :: "move_type list"
  fn_return :: "move_type list"

definition check_string :: "bytes \<Rightarrow> (unit, status_code) result" where
  "check_string s = (if from_utf8 s then Ok () else Err FAILED_TO_DESERIALIZE_ARGUMENT)"

definition STRING_NAME :: string where
  "STRING_NAME = ''0x1::string::String''"

definition ALLOWED_STRUCTS :: "string \<rightharpoonup> (bytes \<Rightarrow> (unit, status_code) result) option" where
  "ALLOWED_STRUCTS = [STRING_NAME \<mapsto> Some check_string]"

definition full_name :: "string \<times> string \<Rightarrow> string" where
  "full_name st = fst st @ ''::'' @ snd st"

definition struct_arg :: "'a arg_env \<Rightarrow> nat \<Rightarrow> bool \<times> bool" where
  "struct_arg env idx =
     (case get_struct_type env idx of
        Some st \<Rightarrow>
          (case ALLOWED_STRUCTS (full_name st) of
             None \<Rightarrow> (False, False)
           | Some validator \<Rightarrow> (True, validator \<noteq> None))
      | None \<Rightarrow> (False, False))"

primrec is_valid_txn_arg :: "'a arg_env \<Rightarrow> move_type \<Rightarrow> bool \<times> bool" where
  "is_valid_txn_arg env TBool = (True, False)"
| "is_valid_txn_arg env TU8 = (True, False)"
| "is_valid_txn_arg env TU64 = (True, False)"
| "is_valid_txn_arg env TU128 = (True, False)"
| "is_valid_txn_arg env TAddress = (True, False)"
| "is_valid_txn_arg env TSigner = (False, False)"
| "is_valid_txn_arg env (TVector inner) = is_valid_txn_arg env inner"
| "is_valid_txn_arg env (TStruct idx) = struct_arg env idx"
| "is_valid_txn_arg env (TStructInstantiation idx tys) = struct_arg env idx"
| "is_valid_txn_arg env (TReference t) = (False, False)"
| "is_valid_txn_arg env (TMutableReference t) = (False, False)"
| "is_valid_txn_arg env (TTyParam n) = (False, False)"

text \<open>The cursor is a position in the argument.\<close>

definition get_len :: "'a arg_env \<Rightarrow> bytes \<Rightarrow> nat \<Rightarrow> (nat \<times> nat, status_code) result" where
  "get_len env arg pos =
     (case read_uleb128 env (drop pos arg) of
        None \<Rightarrow> Err FAILED_TO_DESERIALIZE_ARGUMENT
      | Some (len, used) \<Rightarrow> Ok (unat len, pos + used))"

definition validate_struct ::
  "'a arg_env \<Rightarrow> bytes \<Rightarrow> nat \<Rightarrow> nat \<Rightarrow> nat \<Rightarrow> (nat, status_code) result option" where
  "validate_struct env arg arg_len idx pos =
     (case get_len env arg pos of
        Err e \<Rightarrow> Some (Err e)
      | Ok (len, current_pos) \<Rightarrow>
          if 2 ^ 64 \<le> current_pos + len \<or> current_pos + len > arg_len then Some (Err FAILED_TO_DESERIALIZE_ARGUMENT)
          else if current_pos + len > length arg then Some (Err FAILED_TO_DESERIALIZE_ARGUMENT)
          else
            (let s = take len (drop current_pos arg)
             in do { st \<leftarrow> get_struct_type env idx;
                     option_validator \<leftarrow> ALLOWED_STRUCTS (full_name st);
                     Some (case option_validator of
                             None \<Rightarrow> Ok (current_pos + len)
                           | Some validator \<Rightarrow> map_ok (\<lambda>_. current_pos + len) (validator s)) }))"

fun repeat_validate :: "(nat \<Rightarrow> (nat, status_code) result option) \<Rightarrow> nat \<Rightarrow> nat \<Rightarrow> (nat, status_code) result option" where
  "repeat_validate f 0 pos = Some (Ok pos)"
| "repeat_validate f (Suc len) pos =
     (case f pos of
        Some (Ok pos') \<Rightarrow> repeat_validate f len pos'
      | r \<Rightarrow> r)"

primrec validate_arg ::
  "'a arg_env \<Rightarrow> bytes \<Rightarrow> nat \<Rightarrow> move_type \<Rightarrow> nat \<Rightarrow> (nat, status_code) result option" where
  "validate_arg env arg arg_len (TVector inner) = (\<lambda>pos.
     case get_len env arg pos of
       Err e \<Rightarrow> Some (Err e)
     | Ok (len, pos') \<Rightarrow> repeat_validate (validate_arg env arg arg_len inner) len pos')"
| "validate_arg env arg arg_len (TStruct idx) = validate_struct env arg arg_len idx"
| "validate_arg env arg arg_len (TStructInstantiation idx tys) = validate_struct env arg arg_len idx"
| "validate_arg env arg arg_len TBool = (\<lambda>_. None)"
| "validate_arg env arg arg_len TU8 = (\<lambda>_. None)"
| "validate_arg env arg arg_len TU64 = (\<lambda>_. None)"
| "validate_arg env arg arg_len TU128 = (\<lambda>_. None)"
| "validate_arg env arg arg_len TAddress = (\<lambda>_. None)"
| "validate_arg env arg arg_len TSigner = (\<lambda>_. None)"
| "validate_arg env arg arg_len (TReference t) = (\<lambda>_. None)"
| "validate_arg env arg arg_len (TMutableReference t) = (\<lambda>_. None)"
| "validate_arg env arg arg_len (TTyParam n) = (\<lambda>_. None)"

fun validate_args ::
  "'a arg_env \<Rightarrow> nat list \<Rightarrow> nat \<Rightarrow> (move_type \<times> bytes) list \<Rightarrow> (unit, status_code) result option" where
  "validate_args env idxs idx [] = Some (Ok ())"
| "validate_args env idxs idx ((ty, arg) # rest) =
     (if idx \<notin> set idxs then validate_args env idxs (Suc idx) rest
      else
        case validate_arg env arg (length arg) ty 0 of
          None \<Rightarrow> None
        | Some (Err e) \<Rightarrow> Some (Err e)
        | Some (Ok _) \<Rightarrow> validate_args env idxs (Suc idx) rest)"

fun signer_param :: "move_type \<Rightarrow> bool" where
  "signer_param TSigner = True"
| "signer_param (TReference inner_type) = (inner_type = TSigner)"
| "signer_param _ = False"

definition signer_param_cnt :: "move_type list \<Rightarrow> nat" where
  "signer_param_cnt tys = length (filter signer_param tys)"

text \<open>The loop over the parameters after the signers: which of them need validation.\<close>

fun needs_validation :: "'a arg_env \<Rightarrow> nat \<Rightarrow> move_type list \<Rightarrow> nat list \<Rightarrow> (nat list, status_code) result" where
  "needs_validation env idx [] acc = Ok acc"
| "needs_validation env idx (ty # tys) acc =
     (let (valid, validation) = is_valid_txn_arg env ty
      in if \<not> valid then Err INVALID_MAIN_FUNCTION_SIGNATURE
         else needs_validation env (Suc idx) tys (if validation then acc @ [idx] else acc))"

definition combine_args ::
  "'a arg_env \<Rightarrow> nat \<Rightarrow> 'a list \<Rightarrow> bytes list \<Rightarrow> (bytes list, status_code) result option" where
  "combine_args env cnt senders args =
     (if cnt = 0 then Some (Ok args)
      else if length senders \<noteq> cnt then Some (Err NUMBER_OF_SIGNER_ARGUMENTS_MISMATCH)
      else map_option (\<lambda>ss. Ok (ss @ args)) (sequence_opt (map (serialize_signer env) senders)))"

definition validate_combine_signer_and_txn_args ::
  "'a arg_env \<Rightarrow> 'a list \<Rightarrow> bytes list \<Rightarrow> loaded_function \<Rightarrow> (bytes list, status_code) result option" where
  "validate_combine_signer_and_txn_args env senders args func =
     (if fn_return func \<noteq> [] then Some (Err INVALID_MAIN_FUNCTION_SIGNATURE)
      else
        (let cnt = signer_param_cnt (fn_parameters func)
         in case needs_validation env cnt (drop cnt (fn_parameters func)) [] of
              Err e \<Rightarrow> Some (Err e)
            | Ok idxs \<Rightarrow>
                if cnt + length args \<noteq> length (fn_parameters func) then Some (Err NUMBER_OF_ARGUMENTS_MISMATCH)
                else
                  (case combine_args env cnt senders args of
                     None \<Rightarrow> None
                   | Some (Err e) \<Rightarrow> Some (Err e)
                   | Some (Ok combined_args) \<Rightarrow>
                       if idxs = [] then Some (Ok combined_args)
                       else map_option (map_ok (\<lambda>_. combined_args))
                              (validate_args env idxs 0 (zip (fn_parameters func) combined_args)))))"

section \<open>Specification\<close>

text \<open>A serialised argument made of strings: a text, or a vector of such arguments.\<close>

datatype texts = Text "nat list" | Texts "texts list"

definition is_string :: "'a arg_env \<Rightarrow> nat \<Rightarrow> bool" where
  "is_string env idx \<longleftrightarrow> map_option full_name (get_struct_type env idx) = Some STRING_NAME"

fun string_type :: "'a arg_env \<Rightarrow> move_type \<Rightarrow> bool" where
  "string_type env (TVector inner) = string_type env inner"
| "string_type env (TStruct idx) = is_string env idx"
| "string_type env (TStructInstantiation idx tys) = is_string env idx"
| "string_type env _ = False"

fun arg_type :: "'a arg_env \<Rightarrow> move_type \<Rightarrow> bool" where
  "arg_type env (TVector inner) = arg_type env inner"
| "arg_type env ty = (ty \<in> {TBool, TU8, TU64, TU128, TAddress} \<or> string_type env ty)"

text \<open>The elements of a vector one after the other.\<close>

fun chain :: "('b \<Rightarrow> nat \<Rightarrow> nat \<Rightarrow> bool) \<Rightarrow> 'b list \<Rightarrow> nat \<Rightarrow> nat \<Rightarrow> bool" where
  "chain R [] p q \<longleftrightarrow> p = q"
| "chain R (x # xs) p q \<longleftrightarrow> (\<exists>m. R x p m \<and> chain R xs m q)"

text \<open>
  How a value lies in the bytes of an argument between two positions: a ULEB128 length, then for a text the
  UTF-8 encoding of that many bytes, for a vector that many elements.
\<close>

definition text_at :: "'a arg_env \<Rightarrow> bytes \<Rightarrow> texts \<Rightarrow> nat \<Rightarrow> nat \<Rightarrow> bool" where
  "text_at env arg v p q \<longleftrightarrow>
     (\<exists>us len used. v = Text us \<and> (\<forall>u \<in> set us. scalar u) \<and> read_uleb128 env (drop p arg) = Some (len, used) \<and>
        q = p + used + unat len \<and> q \<le> length arg \<and>
        take (unat len) (drop (p + used) arg) = utf8 us)"

primrec layout :: "'a arg_env \<Rightarrow> bytes \<Rightarrow> move_type \<Rightarrow> texts \<Rightarrow> nat \<Rightarrow> nat \<Rightarrow> bool" where
  "layout env arg (TVector inner) = (\<lambda>v p q.
     \<exists>vs len used. v = Texts vs \<and> read_uleb128 env (drop p arg) = Some (len, used) \<and>
       length vs = unat len \<and> chain (layout env arg inner) vs (p + used) q)"
| "layout env arg (TStruct idx) = text_at env arg"
| "layout env arg (TStructInstantiation idx tys) = text_at env arg"
| "layout env arg TBool = (\<lambda>_ _ _. False)"
| "layout env arg TU8 = (\<lambda>_ _ _. False)"
| "layout env arg TU64 = (\<lambda>_ _ _. False)"
| "layout env arg TU128 = (\<lambda>_ _ _. False)"
| "layout env arg TAddress = (\<lambda>_ _ _. False)"
| "layout env arg TSigner = (\<lambda>_ _ _. False)"
| "layout env arg (TReference t) = (\<lambda>_ _ _. False)"
| "layout env arg (TMutableReference t) = (\<lambda>_ _ _. False)"
| "layout env arg (TTyParam n) = (\<lambda>_ _ _. False)"

section \<open>The walk over one argument\<close>

lemma check_string_Ok: "check_string s = Ok u \<longleftrightarrow> (\<exists>us. (\<forall>u \<in> set us. scalar u) \<and> s = utf8 us)"
  by (simp add: check_string_def from_utf8_iff)

lemma validate_struct_iff:
  assumes "is_string env idx" "length arg < 2 ^ 64"
  shows "validate_struct env arg (length arg) idx pos \<noteq> None \<and>
    (validate_struct env arg (length arg) idx pos = Some (Ok q) \<longleftrightarrow> (\<exists>v. text_at env arg v pos q))"
proof -
  from assms(1) obtain st where st: "get_struct_type env idx = Some st" "full_name st = STRING_NAME"
    by (auto simp: is_string_def)
  then have "ALLOWED_STRUCTS (full_name st) = Some (Some check_string)" by (simp add: ALLOWED_STRUCTS_def)
  with st have run: "validate_struct env arg (length arg) idx pos =
      (case read_uleb128 env (drop pos arg) of
         None \<Rightarrow> Some (Err FAILED_TO_DESERIALIZE_ARGUMENT)
       | Some (len, used) \<Rightarrow>
           if length arg < pos + used + unat len then Some (Err FAILED_TO_DESERIALIZE_ARGUMENT)
           else Some (map_ok (\<lambda>_. pos + used + unat len) (check_string (take (unat len) (drop (pos + used) arg)))))"
    using assms(2) by (auto simp: validate_struct_def get_len_def Let_def split: option.splits)
  show ?thesis
  proof (cases "read_uleb128 env (drop pos arg)")
    case None
    then show ?thesis by (simp add: run text_at_def)
  next
    case (Some r)
    obtain len used where r: "r = (len, used)" by fastforce
    let ?s = "take (unat len) (drop (pos + used) arg)"
    have "(\<exists>v. text_at env arg v pos q) \<longleftrightarrow>
        pos + used + unat len \<le> length arg \<and> q = pos + used + unat len \<and> (\<exists>us. (\<forall>u \<in> set us. scalar u) \<and> ?s = utf8 us)"
      using Some r by (auto simp: text_at_def)
    with Some r show ?thesis by (auto simp: run map_ok_eq_Ok check_string_Ok)
  qed
qed

lemma repeat_validate_iff:
  assumes "\<And>p. f p \<noteq> None" "\<And>p q. f p = Some (Ok q) \<longleftrightarrow> (\<exists>v. R v p q)"
  shows "repeat_validate f n p \<noteq> None \<and>
    (repeat_validate f n p = Some (Ok q) \<longleftrightarrow> (\<exists>vs. length vs = n \<and> chain R vs p q))"
proof (induction n arbitrary: p)
  case 0
  then show ?case by auto
next
  case (Suc n)
  have chain: "(\<exists>vs. length vs = Suc n \<and> chain R vs p q) \<longleftrightarrow>
      (\<exists>m. (\<exists>v. R v p m) \<and> (\<exists>vs. length vs = n \<and> chain R vs m q))"
  proof
    assume "\<exists>m. (\<exists>v. R v p m) \<and> (\<exists>vs. length vs = n \<and> chain R vs m q)"
    then obtain m v vs where "R v p m" "length vs = n" "chain R vs m q" by blast
    then show "\<exists>vs. length vs = Suc n \<and> chain R vs p q" by (intro exI[of _ "v # vs"]) auto
  qed (auto simp: length_Suc_conv, blast)
  show ?case
  proof (cases "f p")
    case None
    with assms(1)[of p] show ?thesis by simp
  next
    case (Some r)
    show ?thesis
    proof (cases r)
      case (Ok m)
      then have "(\<exists>v. R v p m') \<longleftrightarrow> m' = m" for m' unfolding assms(2)[symmetric] using Some by auto
      with Some Ok Suc.IH[of m] chain show ?thesis by simp
    next
      case (Err e)
      then have "\<not> R v p m'" for v m' using Some assms(2)[of p m'] by auto
      with Some Err chain show ?thesis by simp
    qed
  qed
qed

lemma validate_arg_iff:
  assumes "string_type env ty" "length arg < 2 ^ 64"
  shows "validate_arg env arg (length arg) ty p \<noteq> None \<and>
    (validate_arg env arg (length arg) ty p = Some (Ok q) \<longleftrightarrow> (\<exists>v. layout env arg ty v p q))"
  using assms(1)
proof (induction ty arbitrary: p q)
  case (TVector inner)
  then have ih: "\<And>p. validate_arg env arg (length arg) inner p \<noteq> None"
    "\<And>p q. validate_arg env arg (length arg) inner p = Some (Ok q) \<longleftrightarrow> (\<exists>v. layout env arg inner v p q)"
    by auto
  note rep = repeat_validate_iff[where f = "validate_arg env arg (length arg) inner" and R = "layout env arg inner", OF ih]
  show ?case
  proof (cases "read_uleb128 env (drop p arg)")
    case None
    then show ?thesis by (simp add: get_len_def)
  next
    case (Some r)
    with rep[of "unat (fst r)" "p + snd r" q] show ?thesis by (cases r) (auto simp: get_len_def)
  qed
next
  case (TStruct idx)
  then show ?case using validate_struct_iff[OF _ assms(2), of env idx p q] by simp
next
  case (TStructInstantiation idx tys)
  then show ?case using validate_struct_iff[OF _ assms(2), of env idx p q] by simp
qed simp_all

section \<open>The arguments together\<close>

lemma is_valid_txn_arg_eq: "is_valid_txn_arg env ty = (arg_type env ty, string_type env ty)"
  by (induction ty) (auto simp: struct_arg_def is_string_def ALLOWED_STRUCTS_def split: option.splits)

lemma arg_not_signer: "arg_type env ty \<Longrightarrow> \<not> signer_param ty"
  by (cases ty) auto

lemma needs_validation_eq:
  "needs_validation env idx tys acc =
     (if \<forall>t \<in> set tys. arg_type env t
      then Ok (acc @ map ((+) idx) (filter (\<lambda>i. string_type env (tys ! i)) [0..<length tys]))
      else Err INVALID_MAIN_FUNCTION_SIGNATURE)"
proof (induction tys arbitrary: idx acc)
  case Nil
  then show ?case by simp
next
  case (Cons ty tys)
  have "[0..<length (ty # tys)] = 0 # map Suc [0..<length tys]" by (simp add: upt_conv_Cons map_Suc_upt del: upt_Suc)
  then have "map ((+) idx) (filter (\<lambda>i. string_type env ((ty # tys) ! i)) [0..<length (ty # tys)]) =
      (if string_type env ty then [idx] else []) @
      map ((+) (Suc idx)) (filter (\<lambda>i. string_type env (tys ! i)) [0..<length tys])"
    by (simp add: filter_map comp_def)
  with Cons.IH show ?case by (auto simp: is_valid_txn_arg_eq simp del: upt_Suc)
qed

lemma validate_args_iff:
  assumes "\<And>i. i < length xs \<Longrightarrow> idx + i \<in> set idxs \<Longrightarrow>
    validate_arg env (snd (xs ! i)) (length (snd (xs ! i))) (fst (xs ! i)) 0 \<noteq> None"
  shows "validate_args env idxs idx xs \<noteq> None \<and>
    (validate_args env idxs idx xs = Some (Ok ()) \<longleftrightarrow>
      (\<forall>i < length xs. idx + i \<in> set idxs \<longrightarrow>
        (\<exists>q. validate_arg env (snd (xs ! i)) (length (snd (xs ! i))) (fst (xs ! i)) 0 = Some (Ok q))))"
  using assms
proof (induction xs arbitrary: idx)
  case Nil
  then show ?case by simp
next
  case (Cons x xs)
  obtain ty arg where x: "x = (ty, arg)" by fastforce
  have ih: "validate_args env idxs (Suc idx) xs \<noteq> None \<and>
    (validate_args env idxs (Suc idx) xs = Some (Ok ()) \<longleftrightarrow>
      (\<forall>i < length xs. Suc idx + i \<in> set idxs \<longrightarrow>
        (\<exists>q. validate_arg env (snd (xs ! i)) (length (snd (xs ! i))) (fst (xs ! i)) 0 = Some (Ok q))))"
    using Cons.prems[of "Suc i" for i] by (intro Cons.IH) auto
  show ?case
    using Cons.prems[of 0] ih unfolding x
    by (auto simp: All_less_Suc2 split: option.splits result.splits)
qed

lemma signers_in_front:
  assumes "\<forall>t \<in> set (drop (signer_param_cnt tys) tys). arg_type env t"
  shows "\<forall>t \<in> set (take (signer_param_cnt tys) tys). signer_param t"
proof -
  let ?n = "signer_param_cnt tys"
  have "filter signer_param (drop ?n tys) = []" using assms arg_not_signer by (auto simp: filter_empty_conv)
  then have "length (filter signer_param (take ?n tys)) = ?n"
    by (metis append_Nil2 append_take_drop_id filter_append signer_param_cnt_def)
  moreover have "length (take ?n tys) = ?n" by (simp add: signer_param_cnt_def)
  ultimately show ?thesis by (metis filter_id_conv length_filter_less nat_neq_iff)
qed

lemma signer_param_cnt_split:
  assumes "\<forall>t \<in> set sig. signer_param t" "\<forall>t \<in> set rest. arg_type env t"
  shows "signer_param_cnt (sig @ rest) = length sig"
proof -
  have "filter signer_param rest = []" using assms(2) arg_not_signer by (auto simp: filter_empty_conv)
  moreover have "filter signer_param sig = sig" using assms(1) by simp
  ultimately show ?thesis by (simp add: signer_param_cnt_def)
qed

text \<open>The transactions that may pass, and the arguments the function then gets.\<close>

definition accepted ::
  "'a arg_env \<Rightarrow> ('a \<Rightarrow> bytes) \<Rightarrow> 'a list \<Rightarrow> bytes list \<Rightarrow> loaded_function \<Rightarrow> bytes list \<Rightarrow> bool" where
  "accepted env sb senders args func combined \<longleftrightarrow>
     fn_return func = [] \<and>
     (\<exists>sig rest. fn_parameters func = sig @ rest \<and> (\<forall>t \<in> set sig. signer_param t) \<and> (\<forall>t \<in> set rest. arg_type env t) \<and>
        (sig \<noteq> [] \<longrightarrow> length senders = length sig) \<and>
        list_all2 (\<lambda>t a. string_type env t \<longrightarrow> (\<exists>v q. layout env a t v 0 q)) rest args \<and>
        combined = (if sig = [] then [] else map sb senders) @ args)"

lemma sequence_opt_Some: "sequence_opt (map (\<lambda>x. Some (f x)) xs) = Some (map f xs)"
  by (induction xs) auto

text \<open>Under the static checks the walk over the arguments is the condition on the strings.\<close>

lemma validate_combined:
  assumes "\<forall>t \<in> set rest. arg_type env t" "length args = length rest" "\<forall>a \<in> set args. length a < 2 ^ 64"
    "length pre = length sig" "idxs = map ((+) (length sig)) (filter (\<lambda>i. string_type env (rest ! i)) [0..<length rest])"
  shows "validate_args env idxs 0 (zip (sig @ rest) (pre @ args)) \<noteq> None \<and>
    (validate_args env idxs 0 (zip (sig @ rest) (pre @ args)) = Some (Ok ()) \<longleftrightarrow>
       list_all2 (\<lambda>t a. string_type env t \<longrightarrow> (\<exists>v q. layout env a t v 0 q)) rest args)"
proof -
  let ?xs = "zip (sig @ rest) (pre @ args)"
  have xs: "?xs = zip sig pre @ zip rest args" using assms(4) by simp
  have mem: "i \<in> set idxs \<longleftrightarrow> (\<exists>j < length rest. i = length sig + j \<and> string_type env (rest ! j))" for i
    using assms(5) by auto
  have at: "fst (?xs ! (length sig + j)) = rest ! j" "snd (?xs ! (length sig + j)) = args ! j" if "j < length rest" for j
    using that assms(2,4) unfolding xs by (simp_all add: nth_append)
  have va: "validate_arg env (args ! j) (length (args ! j)) (rest ! j) p \<noteq> None"
    "validate_arg env (args ! j) (length (args ! j)) (rest ! j) p = Some (Ok q) \<longleftrightarrow> (\<exists>v. layout env (args ! j) (rest ! j) v p q)"
    if "j < length rest" "string_type env (rest ! j)" for j p q
    using validate_arg_iff[OF that(2), of "args ! j" p q] that(1) assms(2,3) by auto
  have "validate_args env idxs 0 ?xs \<noteq> None \<and> (validate_args env idxs 0 ?xs = Some (Ok ()) \<longleftrightarrow>
      (\<forall>i < length ?xs. 0 + i \<in> set idxs \<longrightarrow>
        (\<exists>q. validate_arg env (snd (?xs ! i)) (length (snd (?xs ! i))) (fst (?xs ! i)) 0 = Some (Ok q))))"
    using va(1) by (intro validate_args_iff) (auto simp: mem at simp del: nth_zip zip_append)
  moreover have "(\<forall>i < length ?xs. 0 + i \<in> set idxs \<longrightarrow>
        (\<exists>q. validate_arg env (snd (?xs ! i)) (length (snd (?xs ! i))) (fst (?xs ! i)) 0 = Some (Ok q))) \<longleftrightarrow>
      (\<forall>j < length rest. string_type env (rest ! j) \<longrightarrow> (\<exists>v q. layout env (args ! j) (rest ! j) v 0 q))"
  proof -
    let ?V = "\<lambda>i. \<exists>q. validate_arg env (snd (?xs ! i)) (length (snd (?xs ! i))) (fst (?xs ! i)) 0 = Some (Ok q)"
    have "(\<forall>i < length ?xs. 0 + i \<in> set idxs \<longrightarrow> ?V i) \<longleftrightarrow>
        (\<forall>j < length rest. string_type env (rest ! j) \<longrightarrow> ?V (length sig + j))"
      using assms(2,4) by (auto simp: mem simp del: nth_zip zip_append)
    moreover have "?V (length sig + j) \<longleftrightarrow> (\<exists>v q. layout env (args ! j) (rest ! j) v 0 q)"
      if "j < length rest" "string_type env (rest ! j)" for j
      unfolding at[OF that(1)] va(2)[OF that] by blast
    ultimately show ?thesis by blast
  qed
  ultimately show ?thesis using assms(2) by (simp add: list_all2_conv_all_nth)
qed

text \<open>The split of the parameters is the one the code computes.\<close>

lemma accepted_iff:
  assumes "n = signer_param_cnt (fn_parameters func)" "sig = take n (fn_parameters func)" "rest = drop n (fn_parameters func)"
  shows "accepted env sb senders args func combined \<longleftrightarrow>
    (fn_return func = [] \<and> (\<forall>t \<in> set rest. arg_type env t) \<and> (sig \<noteq> [] \<longrightarrow> length senders = length sig) \<and>
     length args = length rest) \<and>
    list_all2 (\<lambda>t a. string_type env t \<longrightarrow> (\<exists>v q. layout env a t v 0 q)) rest args \<and>
    combined = (if sig = [] then [] else map sb senders) @ args" (is "?acc \<longleftrightarrow> ?static \<and> ?texts \<and> ?comb")
proof
  assume ?acc
  then obtain sig' rest' where h: "fn_return func = []" "fn_parameters func = sig' @ rest'"
    "\<forall>t \<in> set sig'. signer_param t" "\<forall>t \<in> set rest'. arg_type env t" "sig' \<noteq> [] \<longrightarrow> length senders = length sig'"
    "list_all2 (\<lambda>t a. string_type env t \<longrightarrow> (\<exists>v q. layout env a t v 0 q)) rest' args"
    "combined = (if sig' = [] then [] else map sb senders) @ args" by (auto simp: accepted_def)
  then have "n = length sig'" using signer_param_cnt_split[OF h(3,4)] assms(1) by simp
  then have "sig = sig'" "rest = rest'" using h(2) assms(2,3) by simp_all
  with h show "?static \<and> ?texts \<and> ?comb" by (auto dest: list_all2_lengthD)
next
  assume "?static \<and> ?texts \<and> ?comb"
  then show ?acc
    unfolding accepted_def using signers_in_front[of "fn_parameters func" env] assms
    by (intro conjI exI[of _ sig] exI[of _ rest]) auto
qed

text \<open>
  C33. Which entry-function arguments are accepted: the validation never panics, and it accepts exactly the
  transactions whose function returns nothing, whose parameters are signers followed by admissible
  types, whose senders are as many as the signer parameters if there are any of these, and whose arguments
  match the remaining parameters in number and, where strings are involved, start with nested vectors of
  UTF-8 encoded texts (further bytes are not looked at); the function then gets the serialised signers followed by the arguments.
\<close>

theorem accepted_arguments:
  assumes "\<forall>s. serialize_signer env s = Some (sb s)" "\<forall>a \<in> set args. length a < 2 ^ 64"
  shows "validate_combine_signer_and_txn_args env senders args func \<noteq> None \<and>
    (validate_combine_signer_and_txn_args env senders args func = Some (Ok combined) \<longleftrightarrow>
      accepted env sb senders args func combined)"
proof -
  let ?tys = "fn_parameters func"
  let ?n = "signer_param_cnt ?tys"
  let ?sig = "take ?n ?tys" and ?rest = "drop ?n ?tys"
  let ?pre = "if ?sig = [] then [] else map sb senders"
  let ?static = "fn_return func = [] \<and> (\<forall>t \<in> set ?rest. arg_type env t) \<and> (?sig \<noteq> [] \<longrightarrow> length senders = length ?sig) \<and>
    length args = length ?rest"
  let ?texts = "list_all2 (\<lambda>t a. string_type env t \<longrightarrow> (\<exists>v q. layout env a t v 0 q)) ?rest args"
  have len: "length ?sig = ?n" by (simp add: signer_param_cnt_def)
  have acc: "accepted env sb senders args func combined \<longleftrightarrow> ?static \<and> ?texts \<and> combined = ?pre @ args"
    by (rule accepted_iff[OF refl refl refl])
  have ser: "serialize_signer env = (\<lambda>s. Some (sb s))" using assms(1) by auto
  show ?thesis
  proof (cases ?static)
    case True
    then have pre: "length ?pre = length ?sig" by auto
    let ?idxs = "map ((+) ?n) (filter (\<lambda>i. string_type env (?rest ! i)) [0..<length ?rest])"
    have comb: "combine_args env ?n senders args = Some (Ok (?pre @ args))"
      using True len by (auto simp: combine_args_def sequence_opt_Some ser)
    have "\<forall>t \<in> set ?rest. arg_type env t" "length args = length ?rest" using True by auto
    note v = validate_combined[OF this assms(2) pre, of ?idxs]
    have run: "validate_combine_signer_and_txn_args env senders args func =
        (if ?idxs = [] then Some (Ok (?pre @ args))
         else map_option (map_ok (\<lambda>_. ?pre @ args)) (validate_args env ?idxs 0 (zip ?tys (?pre @ args))))"
      using True comb len by (simp add: validate_combine_signer_and_txn_args_def needs_validation_eq Let_def)
    show ?thesis
    proof (cases "?idxs = []")
      case empty: True
      then have ?texts using True by (auto simp: list_all2_conv_all_nth filter_empty_conv)
      with run empty True acc show ?thesis by auto
    next
      case False
      with run v len True acc show ?thesis by (auto simp: map_ok_eq_Ok)
    qed
  next
    case False
    then show ?thesis
      using acc len
      by (auto simp: validate_combine_signer_and_txn_args_def needs_validation_eq combine_args_def sequence_opt_Some ser Let_def)
  qed
qed

text \<open>A function of a signer, a number and a vector of strings, called by address 7.\<close>

definition demo_env :: "nat arg_env" where
  "demo_env = \<lparr>get_struct_type = (\<lambda>i. if i = 0 then Some (''0x1::string'', ''String'') else None),
     read_uleb128 = (\<lambda>bs. case bs of b # _ \<Rightarrow> if b < 0x80 then Some (ucast b, 1) else None | [] \<Rightarrow> None),
     serialize_signer = (\<lambda>s. Some [of_nat s])\<rparr>"

definition demo_function :: loaded_function where
  "demo_function = \<lparr>fn_parameters = [TReference TSigner, TU8, TVector (TStruct 0)], fn_return = []\<rparr>"

theorem accepted_arguments_witness:
  "accepted demo_env (\<lambda>s. [of_nat s]) [7] [[5], [1, 3, 0xE2, 0x82, 0xAC]] demo_function [[7], [5], [1, 3, 0xE2, 0x82, 0xAC]]"
proof -
  have ser: "\<forall>s. serialize_signer demo_env s = Some [of_nat s]" by (simp add: demo_env_def)
  have len: "\<forall>a \<in> set [[5], [1, 3, 0xE2, 0x82, 0xAC]]. length (a :: bytes) < 2 ^ 64" by simp
  have "validate_combine_signer_and_txn_args demo_env [7] [[5], [1, 3, 0xE2, 0x82, 0xAC]] demo_function =
      Some (Ok [[7], [5], [1, 3, 0xE2, 0x82, 0xAC]])"
    by (simp add: validate_combine_signer_and_txn_args_def Let_def demo_function_def demo_env_def signer_param_cnt_def
        struct_arg_def full_name_def ALLOWED_STRUCTS_def STRING_NAME_def combine_args_def get_len_def validate_struct_def
        check_string_def second_of_three_def cont_def)
  with accepted_arguments[OF ser len] show ?thesis by blast
qed

end
