(* ===== verification/Vm_Errors.thy ===== *)
theory Vm_Errors
  imports Prelude
begin

unbundle bit_operations_syntax

text \<open>
  The conversion of the errors of the prologue and the epilogue, from \<^verbatim>\<open>aptos-vm/src/errors.rs\<close>: aborts
  of the account module become validation codes, everything else an invariant violation.  \<open>VMStatus\<close> has
  the four constructors that the source matches on; the locations of an abort and the details of an
  execution failure are type parameters, and \<open>is_account_module_abort\<close> is the method of
  \<open>TransactionValidation\<close>.  Logging is left out.
\<close>

section \<open>Definitions\<close>

datatype ('loc, 'ef) vm_status =
    Executed
  | MoveAbort 'loc u64
  | ExecutionFailure 'ef
  | StatusError status_code

definition EBAD_ACCOUNT_AUTHENTICATION_KEY :: u64 where "EBAD_ACCOUNT_AUTHENTICATION_KEY = 1001"
definition ESEQUENCE_NUMBER_TOO_OLD :: u64 where "ESEQUENCE_NUMBER_TOO_OLD = 1002"
definition ESEQUENCE_NUMBER_TOO_NEW :: u64 where "ESEQUENCE_NUMBER_TOO_NEW = 1003"
definition EACCOUNT_DOES_NOT_EXIST :: u64 where "EACCOUNT_DOES_NOT_EXIST = 1004"
definition ECANT_PAY_GAS_DEPOSIT :: u64 where "ECANT_PAY_GAS_DEPOSIT = 1005"
definition ETRANSACTION_EXPIRED :: u64 where "ETRANSACTION_EXPIRED = 1006"
definition EBAD_CHAIN_ID :: u64 where "EBAD_CHAIN_ID = 1007"
definition ESEQUENCE_NUMBER_TOO_BIG :: u64 where "ESEQUENCE_NUMBER_TOO_BIG = 1008"
definition ESECONDARY_KEYS_ADDRESSES_COUNT_MISMATCH :: u64 where
  "ESECONDARY_KEYS_ADDRESSES_COUNT_MISMATCH = 1009"
definition INVALID_ARGUMENT :: u8 where "INVALID_ARGUMENT = 1"
definition LIMIT_EXCEEDED :: u8 where "LIMIT_EXCEEDED = 2"

definition error_split :: "u64 \<Rightarrow> u8 \<times> u64" where
  "error_split code =
     (let reason = code AND 0xffff; category = ucast (drop_bit 16 code AND 0xff) in (category, reason))"

text \<open>The arms of the match, in order.\<close>

definition prologue_abort_code :: "u8 \<times> u64 \<Rightarrow> status_code option" where
  "prologue_abort_code s =
     (if s = (INVALID_ARGUMENT, EBAD_ACCOUNT_AUTHENTICATION_KEY) then Some INVALID_AUTH_KEY
      else if s = (INVALID_ARGUMENT, ESEQUENCE_NUMBER_TOO_OLD) then Some SEQUENCE_NUMBER_TOO_OLD
      else if s = (INVALID_ARGUMENT, ESEQUENCE_NUMBER_TOO_NEW) then Some SEQUENCE_NUMBER_TOO_NEW
      else if s = (INVALID_ARGUMENT, EACCOUNT_DOES_NOT_EXIST) then Some SENDING_ACCOUNT_DOES_NOT_EXIST
      else if s = (INVALID_ARGUMENT, ECANT_PAY_GAS_DEPOSIT) then Some INSUFFICIENT_BALANCE_FOR_TRANSACTION_FEE
      else if s = (INVALID_ARGUMENT, ETRANSACTION_EXPIRED) then Some TRANSACTION_EXPIRED
      else if s = (INVALID_ARGUMENT, EBAD_CHAIN_ID) then Some BAD_CHAIN_ID
      else if s = (LIMIT_EXCEEDED, ESEQUENCE_NUMBER_TOO_BIG) then Some SEQUENCE_NUMBER_TOO_BIG
      else if s = (INVALID_ARGUMENT, ESECONDARY_KEYS_ADDRESSES_COUNT_MISMATCH) then Some SECONDARY_KEYS_ADDRESSES_COUNT_MISMATCH
      else None)"

text \<open>The argument is \<open>error.into_vm_status()\<close>; the source always returns an error.\<close>

definition convert_prologue_error ::
  "('loc \<Rightarrow> bool) \<Rightarrow> ('loc, 'ef) vm_status \<Rightarrow> (unit, ('loc, 'ef) vm_status) result" where
  "convert_prologue_error is_account_module_abort status =
     Err (case status of
            Executed \<Rightarrow> Executed
          | MoveAbort location code \<Rightarrow>
              if \<not> is_account_module_abort location then StatusError UNEXPECTED_ERROR_FROM_KNOWN_MOVE_FUNCTION
              else
                (case prologue_abort_code (error_split code) of
                   Some new_major_status \<Rightarrow> StatusError new_major_status
                 | None \<Rightarrow> StatusError UNEXPECTED_ERROR_FROM_KNOWN_MOVE_FUNCTION)
          | ExecutionFailure _ \<Rightarrow> StatusError UNEXPECTED_ERROR_FROM_KNOWN_MOVE_FUNCTION
          | StatusError _ \<Rightarrow> StatusError UNEXPECTED_ERROR_FROM_KNOWN_MOVE_FUNCTION)"

definition convert_epilogue_error ::
  "('loc \<Rightarrow> bool) \<Rightarrow> ('loc, 'ef) vm_status \<Rightarrow> (unit, ('loc, 'ef) vm_status) result" where
  "convert_epilogue_error is_account_module_abort status =
     Err (case status of
            Executed \<Rightarrow> Executed
          | MoveAbort location code \<Rightarrow>
              if \<not> is_account_module_abort location then StatusError UNEXPECTED_ERROR_FROM_KNOWN_MOVE_FUNCTION
              else if error_split code = (LIMIT_EXCEEDED, ECANT_PAY_GAS_DEPOSIT) then MoveAbort location code
              else StatusError UNEXPECTED_ERROR_FROM_KNOWN_MOVE_FUNCTION
          | _ \<Rightarrow> StatusError UNEXPECTED_ERROR_FROM_KNOWN_MOVE_FUNCTION)"

definition expect_only_successful_execution :: "('loc, 'ef) vm_status \<Rightarrow> (unit, ('loc, 'ef) vm_status) result" where
  "expect_only_successful_execution status =
     Err (case status of Executed \<Rightarrow> Executed | _ \<Rightarrow> StatusError UNEXPECTED_ERROR_FROM_KNOWN_MOVE_FUNCTION)"

section \<open>Which aborts are recognised\<close>

lemmas prologue_codes =
  EBAD_ACCOUNT_AUTHENTICATION_KEY_def ESEQUENCE_NUMBER_TOO_OLD_def ESEQUENCE_NUMBER_TOO_NEW_def EACCOUNT_DOES_NOT_EXIST_def
  ECANT_PAY_GAS_DEPOSIT_def ETRANSACTION_EXPIRED_def EBAD_CHAIN_ID_def ESEQUENCE_NUMBER_TOO_BIG_def
  ESECONDARY_KEYS_ADDRESSES_COUNT_MISMATCH_def INVALID_ARGUMENT_def LIMIT_EXCEEDED_def

text \<open>An abort code made of a category and a reason is split into them again.\<close>

lemma error_split_canonical:
  assumes "reason < 0x10000"
  shows "error_split (push_bit 16 (ucast category) OR reason) = (category, reason)"
proof -
  have r: "\<not> bit reason n" if "16 \<le> n" for n
  proof -
    have "unat reason < 2 ^ 16" using assms by (simp add: word_less_nat_alt)
    then have "unat reason < 2 ^ n" using that by (meson less_le_trans one_le_numeral power_increasing)
    then have "\<not> bit (unat reason) n" by (simp add: bit_iff_odd)
    then show ?thesis by (simp add: bit_unsigned_iff)
  qed
  have masks: "(0xff :: u64) = mask 8" "(0xffff :: u64) = mask 16" by (simp_all add: mask_eq_exp_minus_1)
  show ?thesis
    unfolding error_split_def Let_def masks
    by (rule prod_eqI; rule bit_word_eqI) (auto simp: bit_simps r intro: ccontr)
qed

text \<open>The only abort that means a sequence number from the future.\<close>

lemma prologue_too_new_iff:
  "prologue_abort_code s = Some SEQUENCE_NUMBER_TOO_NEW \<longleftrightarrow> s = (INVALID_ARGUMENT, ESEQUENCE_NUMBER_TOO_NEW)"
  by (auto simp: prologue_abort_code_def prologue_codes)

lemma prologue_converts_too_new_iff:
  "convert_prologue_error acc status = Err (StatusError SEQUENCE_NUMBER_TOO_NEW) \<longleftrightarrow>
     (\<exists>location code. status = MoveAbort location code \<and> acc location \<and>
        error_split code = (INVALID_ARGUMENT, ESEQUENCE_NUMBER_TOO_NEW))"
  by (auto simp: convert_prologue_error_def prologue_too_new_iff[symmetric] split: vm_status.split option.split)

text \<open>Distinct recognised aborts have distinct codes.\<close>

lemma prologue_abort_code_inj:
  "prologue_abort_code s = Some c \<Longrightarrow> prologue_abort_code s' = Some c \<Longrightarrow> s = s'"
  by (auto simp: prologue_abort_code_def prologue_codes split: if_splits)

end
