(* ===== verification/Txn_IO.thy ===== *)
theory Txn_IO
  imports MV_HashMap
begin

text \<open>
  Inputs and outputs of the last execution of each transaction, from
  \<^verbatim>\<open>parallel-executor/src/txn_last_input_output.rs\<close>, with the status and error types of
  \<^verbatim>\<open>task.rs\<close> and \<^verbatim>\<open>errors.rs\<close>.  The output of a transaction is abstract in the source (trait
  \<open>TransactionOutput\<close>): its \<open>get_writes\<close> and \<open>get_deltas\<close> are parameters, bundled in a record.  A
  \<open>HashSet\<close> of keys is a list without repetition in an unspecified order.  \<open>StateKey\<close> and \<open>AccessPath\<close>
  belong to the types crate; what \<open>module_path\<close> uses of them are parameters.
\<close>

section \<open>Definitions\<close>

datatype ('t, 'e) execution_status = Success 't | Abort 'e | SkipRest 't

datatype 'e par_error = InvariantViolation | ModulePathReadWrite | UserError 'e

definition module_path :: "('k \<Rightarrow> 'p option) \<Rightarrow> ('p \<Rightarrow> bool) \<Rightarrow> 'k \<Rightarrow> 'p option" where
  "module_path as_access_path is_code key =
     (case as_access_path key of
        Some ap \<Rightarrow> if is_code ap then Some ap else None
      | None \<Rightarrow> None)"

record ('t, 'k, 'v) output_ops =
  get_writes :: "'t \<Rightarrow> ('k \<times> 'v) list"
  get_deltas :: "'t \<Rightarrow> ('k \<times> delta_op) list"
  skip_output :: 't

datatype read_kind =
    KindVersion txn_index incarnation
  | KindResolved u128
  | KindUnresolved delta_op
  | KindStorage
  | KindDeltaApplicationFailure

record 'k read_descriptor =
  access_path :: 'k
  kind :: read_kind

definition from_version :: "'k \<Rightarrow> txn_index \<Rightarrow> incarnation \<Rightarrow> 'k read_descriptor" where
  "from_version k i inc = \<lparr>access_path = k, kind = KindVersion i inc\<rparr>"

definition from_resolved :: "'k \<Rightarrow> u128 \<Rightarrow> 'k read_descriptor" where
  "from_resolved k v = \<lparr>access_path = k, kind = KindResolved v\<rparr>"

definition from_unresolved :: "'k \<Rightarrow> delta_op \<Rightarrow> 'k read_descriptor" where
  "from_unresolved k d = \<lparr>access_path = k, kind = KindUnresolved d\<rparr>"

definition from_storage :: "'k \<Rightarrow> 'k read_descriptor" where
  "from_storage k = \<lparr>access_path = k, kind = KindStorage\<rparr>"

definition from_delta_application_failure :: "'k \<Rightarrow> 'k read_descriptor" where
  "from_delta_application_failure k = \<lparr>access_path = k, kind = KindDeltaApplicationFailure\<rparr>"

definition validate_version :: "'k read_descriptor \<Rightarrow> version \<Rightarrow> bool" where
  "validate_version r ver = (kind r = KindVersion (fst ver) (snd ver))"

definition validate_resolved :: "'k read_descriptor \<Rightarrow> u128 \<Rightarrow> bool" where
  "validate_resolved r v = (kind r = KindResolved v)"

definition validate_unresolved :: "'k read_descriptor \<Rightarrow> delta_op \<Rightarrow> bool" where
  "validate_unresolved r d = (kind r = KindUnresolved d)"

definition validate_storage :: "'k read_descriptor \<Rightarrow> bool" where
  "validate_storage r = (kind r = KindStorage)"

definition validate_delta_application_failure :: "'k read_descriptor \<Rightarrow> bool" where
  "validate_delta_application_failure r = (kind r = KindDeltaApplicationFailure)"

record ('k, 't, 'e, 'p) last_io =
  inputs :: "'k read_descriptor list option list"
  outputs :: "('t, 'e par_error) execution_status option list"
  module_writes :: "'p set"
  module_reads :: "'p set"
  module_read_write_intersection :: bool

definition last_io_new :: "nat \<Rightarrow> ('k, 't, 'e, 'p) last_io" where
  "last_io_new num_txns =
     \<lparr>inputs = replicate num_txns None, outputs = replicate num_txns None, module_writes = {}, module_reads = {},
      module_read_write_intersection = False\<rparr>"

text \<open>The flag principle: insert first, then look; the loop stops at the first hit.\<close>

fun append_and_check :: "'p list \<Rightarrow> 'p set \<Rightarrow> 'p set \<Rightarrow> bool \<times> 'p set" where
  "append_and_check [] to_append to_check = (False, to_append)"
| "append_and_check (path # paths) to_append to_check =
     (let to_append' = insert path to_append
      in if path \<in> to_check then (True, to_append') else append_and_check paths to_append' to_check)"

definition filter_map :: "('a \<Rightarrow> 'b option) \<Rightarrow> 'a list \<Rightarrow> 'b list" where
  "filter_map f xs = map the (filter (\<lambda>x. x \<noteq> None) (map f xs))"

fun status_output :: "('t, 'e) execution_status \<Rightarrow> 't option" where
  "status_output (Success t) = Some t"
| "status_output (SkipRest t) = Some t"
| "status_output (Abort e) = None"

definition written_modules ::
  "('t, 'k, 'v) output_ops \<Rightarrow> ('k \<Rightarrow> 'p option) \<Rightarrow> ('t, 'e) execution_status \<Rightarrow> 'p list" where
  "written_modules ops mpath output =
     (case status_output output of
        Some t \<Rightarrow> filter_map (\<lambda>(k, v). mpath k) (get_writes ops t)
      | None \<Rightarrow> [])"

definition read_modules :: "('k \<Rightarrow> 'p option) \<Rightarrow> 'k read_descriptor list \<Rightarrow> 'p list" where
  "read_modules mpath input = filter_map (\<lambda>desc. mpath (access_path desc)) input"

definition record_io ::
  "('t, 'k, 'v) output_ops \<Rightarrow> ('k \<Rightarrow> 'p option) \<Rightarrow> ('k, 't, 'e, 'p) last_io \<Rightarrow> txn_index \<Rightarrow>
   'k read_descriptor list \<Rightarrow> ('t, 'e par_error) execution_status \<Rightarrow> ('k, 't, 'e, 'p) last_io option" where
  "record_io ops mpath io txn_idx input output =
     (let io1 =
        (if module_read_write_intersection io then io
         else
           let (hit1, reads') = append_and_check (read_modules mpath input) (module_reads io) (module_writes io);
               io_r = io\<lparr>module_reads := reads'\<rparr>
           in if hit1 then io_r\<lparr>module_read_write_intersection := True\<rparr>
              else
                let (hit2, writes') =
                      append_and_check (written_modules ops mpath output) (module_writes io_r) (module_reads io_r);
                    io_w = io_r\<lparr>module_writes := writes'\<rparr>
                in if hit2 then io_w\<lparr>module_read_write_intersection := True\<rparr> else io_w)
      in if txn_idx < length (inputs io1) \<and> txn_idx < length (outputs io1)
         then Some (io1\<lparr>inputs := (inputs io1)[txn_idx := Some input], outputs := (outputs io1)[txn_idx := Some output]\<rparr>)
         else None)"

definition module_publishing_may_race :: "('k, 't, 'e, 'p) last_io \<Rightarrow> bool" where
  "module_publishing_may_race io = module_read_write_intersection io"

definition read_set :: "('k, 't, 'e, 'p) last_io \<Rightarrow> txn_index \<Rightarrow> 'k read_descriptor list option option" where
  "read_set io txn_idx = (if txn_idx < length (inputs io) then Some (inputs io ! txn_idx) else None)"

definition modified_keys ::
  "('t, 'k, 'v) output_ops \<Rightarrow> ('k, 't, 'e, 'p) last_io \<Rightarrow> txn_index \<Rightarrow> 'k list option" where
  "modified_keys ops io txn_idx =
     (if txn_idx < length (outputs io) then
        Some (case outputs io ! txn_idx of
                None \<Rightarrow> []
              | Some txn_output \<Rightarrow>
                  (case status_output txn_output of
                     Some t \<Rightarrow> remdups (map fst (get_writes ops t) @ map fst (get_deltas ops t))
                   | None \<Rightarrow> []))
      else None)"

definition take_output ::
  "('k, 't, 'e, 'p) last_io \<Rightarrow> txn_index \<Rightarrow> (('t, 'e par_error) execution_status \<times> ('k, 't, 'e, 'p) last_io) option" where
  "take_output io txn_idx =
     (if txn_idx < length (outputs io) then
        (case outputs io ! txn_idx of
           Some output \<Rightarrow> Some (output, io\<lparr>outputs := (outputs io)[txn_idx := None]\<rparr>)
         | None \<Rightarrow> None)
      else None)"

section \<open>Module publishing races are detected\<close>

lemma append_and_check_spec:
  "append_and_check ps A C = (hit, A') \<Longrightarrow>
     A \<subseteq> A' \<and> A' \<subseteq> A \<union> set ps \<and> (hit \<longleftrightarrow> set ps \<inter> C \<noteq> {}) \<and> (\<not> hit \<longrightarrow> A' = A \<union> set ps) \<and> (hit \<longrightarrow> A' \<inter> C \<noteq> {})"
proof (induction ps A C arbitrary: hit A' rule: append_and_check.induct)
  case (2 p ps A C)
  show ?case
  proof (cases "p \<in> C")
    case True
    with "2.prems" show ?thesis by auto
  next
    case False
    with "2.prems" have "append_and_check ps (insert p A) C = (hit, A')" by simp
    note ih = "2.IH"[OF refl False this]
    have "insert p (set ps) \<inter> C = set ps \<inter> C" "A \<union> insert p (set ps) = insert p A \<union> set ps" using False by auto
    with ih show ?thesis by simp
  qed
qed auto

text \<open>The executions recorded so far: who read and who wrote which module.\<close>

definition race_free :: "('k, 't, 'e, 'p) last_io \<Rightarrow> 'p set \<Rightarrow> 'p set \<Rightarrow> bool" where
  "race_free io R W \<longleftrightarrow>
     (if module_read_write_intersection io then R \<inter> W \<noteq> {}
      else module_reads io = R \<and> module_writes io = W \<and> R \<inter> W = {})"

lemma record_io_race:
  assumes "race_free io R W" "record_io ops mpath io i input output = Some io'"
  shows "race_free io' (R \<union> set (read_modules mpath input)) (W \<union> set (written_modules ops mpath output))"
proof (cases "module_read_write_intersection io")
  case True
  with assms show ?thesis by (auto simp: record_io_def race_free_def Let_def split: if_splits)
next
  case False
  obtain h1 r' where a1: "append_and_check (read_modules mpath input) (module_reads io) (module_writes io) = (h1, r')" by fastforce
  obtain h2 w' where a2: "append_and_check (written_modules ops mpath output) (module_writes io) r' = (h2, w')" by fastforce
  note s1 = append_and_check_spec[OF a1] and s2 = append_and_check_spec[OF a2]
  from False assms a1 a2 show ?thesis
    using s1 s2
    by (auto simp: record_io_def race_free_def Let_def split: if_splits)
qed

fun record_all ::
  "('t, 'k, 'v) output_ops \<Rightarrow> ('k \<Rightarrow> 'p option) \<Rightarrow>
   (txn_index \<times> 'k read_descriptor list \<times> ('t, 'e par_error) execution_status) list \<Rightarrow>
   ('k, 't, 'e, 'p) last_io \<Rightarrow> ('k, 't, 'e, 'p) last_io option" where
  "record_all ops mpath [] io = Some io"
| "record_all ops mpath ((i, input, output) # es) io =
     Option.bind (record_io ops mpath io i input output) (record_all ops mpath es)"

lemma record_all_race:
  assumes "record_all ops mpath es io = Some io'" "race_free io R W"
  shows "race_free io' (R \<union> (\<Union>(i, input, output) \<in> set es. set (read_modules mpath input)))
           (W \<union> (\<Union>(i, input, output) \<in> set es. set (written_modules ops mpath output)))"
  using assms
proof (induction ops mpath es io arbitrary: R W rule: record_all.induct)
  case (2 ops mpath i inp out es io)
  then obtain io1 where io1: "record_io ops mpath io i inp out = Some io1" "record_all ops mpath es io1 = Some io'"
    by (auto simp: bind_eq_Some_conv)
  from "2.IH"[OF io1(1,2) record_io_race[OF "2.prems"(2) io1(1)]] show ?case by (simp add: Un_assoc)
qed simp

text \<open>
  Module publishing races are detected exactly: after any sequence of recorded executions of a
  block, speculative ones included, the race flag is set if and only if some module path was both read by
  one of them and written by one of them.
\<close>

theorem module_race_detected:
  fixes io :: "('k, 't, 'e, 'p) last_io"
  assumes "record_all ops mpath es (last_io_new n) = Some io"
  shows "module_publishing_may_race io \<longleftrightarrow>
     (\<exists>(i, input, output) \<in> set es. \<exists>(i', input', output') \<in> set es.
        set (read_modules mpath input) \<inter> set (written_modules ops mpath output') \<noteq> {})"
proof -
  have "race_free (last_io_new n :: ('k, 't, 'e, 'p) last_io) {} {}" by (simp add: race_free_def last_io_new_def)
  from record_all_race[OF assms this] show ?thesis
    unfolding race_free_def module_publishing_may_race_def by (auto split: if_splits prod.splits) blast+
qed

definition demo_ops :: "((nat \<times> nat) list, nat, nat) output_ops" where
  "demo_ops = \<lparr>get_writes = id, get_deltas = (\<lambda>_. []), skip_output = []\<rparr>"

theorem module_race_detected_witness:
  "\<exists>io :: (nat, (nat \<times> nat) list, unit, nat) last_io.
     record_all demo_ops Some [(0, [from_storage 4], Success []), (1, [], Success [(4, 1)])] (last_io_new 2) = Some io \<and>
     module_publishing_may_race io"
proof -
  let ?es = "[(0, [from_storage 4], Success []), (1, [], Success [(4, 1)])]
    :: (nat \<times> nat read_descriptor list \<times> ((nat \<times> nat) list, unit par_error) execution_status) list"
  obtain io :: "(nat, (nat \<times> nat) list, unit, nat) last_io" where
    io: "record_all demo_ops Some ?es (last_io_new 2) = Some io"
    by (simp add: record_io_def last_io_new_def numeral_2_eq_2 read_modules_def written_modules_def filter_map_def
        demo_ops_def from_storage_def)
  from module_race_detected[OF io] have "module_publishing_may_race io"
    by (auto simp: read_modules_def written_modules_def filter_map_def demo_ops_def from_storage_def)
  with io show ?thesis by blast
qed

end
