(* ===== verification/Output_Resolver.thy ===== *)
theory Output_Resolver
  imports MV_HashMap
begin

text \<open>
  Materialising the deltas of a finished block, from
  \<^verbatim>\<open>parallel-executor/src/output_delta_resolver.rs\<close>: for every aggregator key the entries of the
  multi-version store are replayed in transaction order on the stored value, and each delta becomes a
  write of its transaction.  Every \<open>expect\<close> and index of the source is a panic, \<open>None\<close> here.
\<close>

section \<open>Definitions\<close>

type_synonym 'k delta_writes = "('k \<times> write_op) list list"

definition push_write :: "'k delta_writes \<Rightarrow> nat \<Rightarrow> 'k \<times> write_op \<Rightarrow> 'k delta_writes option" where
  "push_write ret idx w = (if idx < length ret then Some (ret[idx := ret ! idx @ [w]]) else None)"

fun resolve_entries ::
  "bcs_codec \<Rightarrow> ('v \<Rightarrow> bytes option) \<Rightarrow> 'k \<Rightarrow> (txn_index \<times> 'v entry) list \<Rightarrow> u128 option \<Rightarrow>
   'k delta_writes \<Rightarrow> 'k delta_writes option" where
  "resolve_entries bcs extract_raw_bytes key [] latest_value ret = Some ret"
| "resolve_entries bcs extract_raw_bytes key ((idx, entry) # rest) latest_value ret =
     (case cell entry of
        Write _ data \<Rightarrow>
          (case from_write bcs extract_raw_bytes data of
             None \<Rightarrow> None
           | Some v \<Rightarrow> resolve_entries bcs extract_raw_bytes key rest v ret)
      | Delta delta \<Rightarrow>
          do { latest \<leftarrow> latest_value;
               aggregator_value \<leftarrow> ok (apply_to delta latest);
               data \<leftarrow> serialize bcs aggregator_value;
               ret' \<leftarrow> push_write ret idx (key, Modification data);
               resolve_entries bcs extract_raw_bytes key rest (Some aggregator_value) ret' })"

definition storage_latest :: "bcs_codec \<Rightarrow> (bytes option, 'er) result \<Rightarrow> u128 option option" where
  "storage_latest bcs storage_val =
     (case storage_val of
        Ok (Some bs) \<Rightarrow> map_option Some (deserialize bcs bs)
      | _ \<Rightarrow> Some None)"

fun resolve_keys ::
  "bcs_codec \<Rightarrow> ('v \<Rightarrow> bytes option) \<Rightarrow> ('k, 'v) mvhashmap \<Rightarrow> ('k \<times> (bytes option, 'er) result) list \<Rightarrow>
   'k delta_writes \<Rightarrow> 'k delta_writes option" where
  "resolve_keys bcs extract_raw_bytes m [] ret = Some ret"
| "resolve_keys bcs extract_raw_bytes m ((key, storage_val) # keys) ret =
     do { latest_value \<leftarrow> storage_latest bcs storage_val;
          let (maybe_entries, m') = entry_map_for_key m key;
          indexed_entries \<leftarrow> maybe_entries;
          ret' \<leftarrow> resolve_entries bcs extract_raw_bytes key indexed_entries latest_value ret;
          resolve_keys bcs extract_raw_bytes m' keys ret' }"

definition resolve ::
  "bcs_codec \<Rightarrow> ('v \<Rightarrow> bytes option) \<Rightarrow> ('k, 'v) mvhashmap \<Rightarrow> ('k \<times> (bytes option, 'er) result) list \<Rightarrow>
   nat \<Rightarrow> 'k delta_writes option" where
  "resolve bcs extract_raw_bytes m aggregator_keys block_size =
     resolve_keys bcs extract_raw_bytes m aggregator_keys (replicate block_size [])"

section \<open>Resolution replays the sequential history\<close>

text \<open>What transaction \<open>idx\<close> must receive for a key: the value of the history right after its delta.\<close>

definition expected_write ::
  "bcs_codec \<Rightarrow> ('v \<Rightarrow> bytes option) \<Rightarrow> u128 option \<Rightarrow> 'k \<Rightarrow> (txn_index \<times> 'v entry) list \<Rightarrow> txn_index \<Rightarrow>
   ('k \<times> write_op) list" where
  "expected_write bcs ex base key es idx =
     (case map_of es idx of
        Some e \<Rightarrow>
          (case (cell e, key_history bcs ex base (filter (\<lambda>x. fst x \<le> idx) es)) of
             (Delta _, KNum n) \<Rightarrow> [(key, Modification (the (serialize bcs n)))]
           | _ \<Rightarrow> [])
      | None \<Rightarrow> [])"

definition writes_decode :: "bcs_codec \<Rightarrow> ('v \<Rightarrow> bytes option) \<Rightarrow> (txn_index \<times> 'v entry) list \<Rightarrow> bool" where
  "writes_decode bcs ex es \<longleftrightarrow> (\<forall>x \<in> set es. \<forall>inc data. cell (snd x) = Write inc data \<longrightarrow> from_write bcs ex data \<noteq> None)"

lemma filter_le_prefix:
  assumes "bt_ok (pre @ (idx, e) # rest)"
  shows "filter (\<lambda>x. fst x \<le> idx) (pre @ (idx, e) # rest) = pre @ [(idx, e)]"
proof -
  have "\<forall>x \<in> set pre. fst x < idx" "\<forall>x \<in> set rest. idx < fst x"
    using assms by (auto simp: bt_ok_def sorted_wrt_append)
  then have "filter (\<lambda>x. fst x \<le> idx) pre = pre" "filter (\<lambda>x. fst x \<le> idx) rest = []"
    by (force simp: filter_id_conv filter_empty_conv)+
  then show ?thesis by simp
qed

lemma map_of_middle:
  assumes "bt_ok (pre @ (idx, e) # rest)"
  shows "map_of (pre @ (idx, e) # rest) idx = Some e"
  using bt.get_iff_ents[OF assms, of idx e] by simp

lemma resolve_entries_spec:
  assumes "codec_ok bcs" "bt_ok (pre @ es)" "writes_decode bcs ex es" "\<forall>x \<in> set es. fst x < length ret"
    and "\<forall>p x q d. es = p @ x # q \<and> cell (snd x) = Delta d \<longrightarrow> key_history bcs ex base (pre @ p @ [x]) \<noteq> KFail"
  shows "\<exists>ret'. resolve_entries bcs ex key es (key_value bcs ex base (key_history bcs ex base pre)) ret = Some ret' \<and>
     length ret' = length ret \<and>
     (\<forall>idx < length ret. ret' ! idx = ret ! idx @
        (if idx \<in> fst ` set es then expected_write bcs ex base key (pre @ es) idx else []))"
  using assms
proof (induction es arbitrary: pre ret)
  case Nil
  then show ?case by simp
next
  case (Cons x es)
  obtain idx e where x: "x = (idx, e)" by fastforce
  let ?h = "key_history bcs ex base pre" and ?h' = "key_history bcs ex base (pre @ [x])"
  have ok: "bt_ok ((pre @ [x]) @ es)" using Cons.prems(2) by simp
  have fresh: "idx \<notin> fst ` set es" using Cons.prems(2) by (auto simp: bt_ok_def sorted_wrt_append x)
  have nf: "\<forall>p y q d. es = p @ y # q \<and> cell (snd y) = Delta d \<longrightarrow> key_history bcs ex base ((pre @ [x]) @ p @ [y]) \<noteq> KFail"
  proof (intro allI impI)
    fix p y q d assume "es = p @ y # q \<and> cell (snd y) = Delta d"
    with Cons.prems(5)[rule_format, of "x # p" y q d] show "key_history bcs ex base ((pre @ [x]) @ p @ [y]) \<noteq> KFail"
      by simp
  qed
  have step: "?h' = key_step bcs ex base ?h x" by (rule key_history_snoc)
  show ?case
  proof (cases "cell e")
    case (Write inc data)
    with Cons.prems(3) obtain v where v: "from_write bcs ex data = Some v" by (auto simp: writes_decode_def x)
    have "key_value bcs ex base ?h' = v" using step Write v by (simp add: x key_step_def key_value_def)
    moreover have "expected_write bcs ex base key (pre @ x # es) idx = []"
      using map_of_middle[of pre idx e es] Cons.prems(2) Write by (simp add: expected_write_def x)
    moreover have "writes_decode bcs ex es" using Cons.prems(3) by (simp add: writes_decode_def)
    ultimately obtain ret' where r: "resolve_entries bcs ex key es v ret = Some ret'" "length ret' = length ret"
      "\<And>i. i < length ret \<Longrightarrow> ret' ! i = ret ! i @ (if i \<in> fst ` set es then expected_write bcs ex base key (pre @ x # es) i else [])"
      "expected_write bcs ex base key (pre @ x # es) idx = []"
      using Cons.IH[OF Cons.prems(1) ok _ _ nf, of ret] Cons.prems(4) by auto
    have "resolve_entries bcs ex key (x # es) (key_value bcs ex base ?h) ret = Some ret'"
      using Write v r(1) by (simp add: x)
    moreover have "ret' ! i = ret ! i @ (if i \<in> fst ` set (x # es) then expected_write bcs ex base key (pre @ x # es) i else [])"
      if "i < length ret" for i
      using r(3)[OF that] r(4) fresh by (cases "i = idx") (auto simp: x)
    ultimately show ?thesis using r(2) by auto
  next
    case (Delta d)
    have "?h' \<noteq> KFail" using Cons.prems(5)[rule_format, of "[]" x es d] Delta by (simp add: x)
    then obtain n where n: "Option.bind (key_value bcs ex base ?h) (\<lambda>v. ok (apply_to d v)) = Some n" "?h' = KNum n"
      using step Delta by (cases "Option.bind (key_value bcs ex base ?h) (\<lambda>v. ok (apply_to d v))") (auto simp: x key_step_def)
    then obtain l where l: "key_value bcs ex base ?h = Some l" "ok (apply_to d l) = Some n" by (auto simp: bind_eq_Some_conv)
    obtain bs where bs: "serialize bcs n = Some bs" using codec_ok_total[OF Cons.prems(1)] by (auto simp: serialize_def)
    let ?ret = "ret[idx := ret ! idx @ [(key, Modification bs)]]"
    have idx: "idx < length ret" using Cons.prems(4) by (simp add: x)
    have ew: "expected_write bcs ex base key (pre @ x # es) idx = [(key, Modification bs)]"
      using map_of_middle[of pre idx e es] filter_le_prefix[of pre idx e es] Cons.prems(2) Delta n(2) bs
      by (simp add: expected_write_def x)
    have "key_value bcs ex base ?h' = Some n" using n(2) by (simp add: key_value_def)
    moreover have "writes_decode bcs ex es" using Cons.prems(3) by (simp add: writes_decode_def)
    ultimately obtain ret' where r: "resolve_entries bcs ex key es (Some n) ?ret = Some ret'" "length ret' = length ret"
      "\<And>i. i < length ret \<Longrightarrow> ret' ! i = ?ret ! i @ (if i \<in> fst ` set es then expected_write bcs ex base key (pre @ x # es) i else [])"
      using Cons.IH[OF Cons.prems(1) ok _ _ nf, of ?ret] Cons.prems(4) by auto
    have "resolve_entries bcs ex key (x # es) (Some l) ret = Some ret'"
      using Delta l(2) bs idx r(1) by (simp add: x push_write_def)
    moreover have "ret' ! i = ret ! i @ (if i \<in> fst ` set (x # es) then expected_write bcs ex base key (pre @ x # es) i else [])"
      if "i < length ret" for i
      using r(3)[OF that] ew fresh idx by (cases "i = idx") (auto simp: x)
    ultimately show ?thesis using l(1) r(2) by auto
  qed
qed

text \<open>The whole resolution, key after key.\<close>

definition resolvable ::
  "bcs_codec \<Rightarrow> ('v \<Rightarrow> bytes option) \<Rightarrow> ('k, 'v) mvhashmap \<Rightarrow> nat \<Rightarrow> 'k \<Rightarrow> (bytes option, 'er) result \<Rightarrow> u128 option \<Rightarrow> bool" where
  "resolvable bcs ex m n key sv base \<longleftrightarrow> storage_latest bcs sv = Some base \<and> m key \<noteq> None \<and>
     writes_decode bcs ex (tree_or_new m key) \<and> (\<forall>x \<in> set (tree_or_new m key). fst x < n) \<and>
     (\<forall>p x q d. tree_or_new m key = p @ x # q \<and> cell (snd x) = Delta d \<longrightarrow> key_history bcs ex base (p @ [x]) \<noteq> KFail)"

lemma expected_write_absent: "idx \<notin> fst ` set es \<Longrightarrow> expected_write bcs ex base key es idx = []"
  by (auto simp: expected_write_def dest: map_of_SomeD split: option.split) (metis fst_conv image_eqI map_of_SomeD)

lemma resolve_keys_spec:
  assumes "codec_ok bcs" "mv_wf m" "distinct (map fst keys)"
    and "\<And>key sv. (key, sv) \<in> set keys \<Longrightarrow> resolvable bcs ex m (length ret) key sv (base key)"
  shows "\<exists>ret'. resolve_keys bcs ex m keys ret = Some ret' \<and> length ret' = length ret \<and>
     (\<forall>idx < length ret. ret' ! idx = ret ! idx @
        concat (map (\<lambda>(key, sv). expected_write bcs ex (base key) key (tree_or_new m key) idx) keys))"
  using assms
proof (induction keys arbitrary: m ret)
  case Nil
  then show ?case by simp
next
  case (Cons k keys)
  obtain key sv where k: "k = (key, sv)" by fastforce
  let ?t = "tree_or_new m key" and ?m = "m(key := None)"
  have R: "resolvable bcs ex m (length ret) key sv (base key)" using Cons.prems(4)[of key sv] by (simp add: k)
  have kb: "key_value bcs ex (base key) (key_history bcs ex (base key) []) = base key"
    by (simp add: key_history_def key_value_def)
  have "\<exists>ret1. resolve_entries bcs ex key ?t (key_value bcs ex (base key) (key_history bcs ex (base key) [])) ret = Some ret1 \<and>
     length ret1 = length ret \<and> (\<forall>idx < length ret. ret1 ! idx = ret ! idx @
        (if idx \<in> fst ` set ?t then expected_write bcs ex (base key) key ([] @ ?t) idx else []))"
    by (rule resolve_entries_spec[OF Cons.prems(1)])
      (use R mv_wf_tree[OF Cons.prems(2), of key] in \<open>auto simp: resolvable_def\<close>)
  then obtain ret1 where r1: "resolve_entries bcs ex key ?t (base key) ret = Some ret1" "length ret1 = length ret"
    "\<And>idx. idx < length ret \<Longrightarrow> ret1 ! idx = ret ! idx @ expected_write bcs ex (base key) key ?t idx"
    using expected_write_absent[of _ ?t bcs ex "base key" key] by (auto simp: kb)
  have wf: "mv_wf ?m" using Cons.prems(2) by (auto simp: mv_wf_def)
  have same: "tree_or_new ?m k' = tree_or_new m k'" "resolvable bcs ex ?m (length ret1) k' sv' (base k')"
    if "(k', sv') \<in> set keys" for k' sv'
  proof -
    have "k' \<noteq> key" using Cons.prems(3) that by (force simp: k)
    then show "tree_or_new ?m k' = tree_or_new m k'" by (simp add: tree_or_new_def)
    with \<open>k' \<noteq> key\<close> Cons.prems(4)[of k' sv'] that r1(2) show "resolvable bcs ex ?m (length ret1) k' sv' (base k')"
      by (simp add: resolvable_def k)
  qed
  have "\<exists>ret'. resolve_keys bcs ex ?m keys ret1 = Some ret' \<and> length ret' = length ret1 \<and>
     (\<forall>idx < length ret1. ret' ! idx = ret1 ! idx @
        concat (map (\<lambda>(key, sv). expected_write bcs ex (base key) key (tree_or_new ?m key) idx) keys))"
  proof (rule Cons.IH[OF Cons.prems(1) wf])
    show "distinct (map fst keys)" using Cons.prems(3) by simp
  qed (rule same(2))
  moreover have "map (\<lambda>(key, sv). expected_write bcs ex (base key) key (tree_or_new ?m key) idx) keys =
      map (\<lambda>(key, sv). expected_write bcs ex (base key) key (tree_or_new m key) idx) keys" for idx
    using same(1) by (intro map_cong) auto
  moreover have "m key = Some ?t" "storage_latest bcs sv = Some (base key)"
    using R by (auto simp: resolvable_def tree_or_new_def)
  ultimately show ?case
    using r1 by (auto simp: k entry_map_for_key_def)
qed

text \<open>
  C39. Delta resolution is complete and sequential: when no delta of the block fails on the sequential
  history of its key, \<open>resolve\<close> panics nowhere and gives every transaction, for each aggregator key in
  order, exactly one write per delta of it, holding the serialised value of the sequential history right
  after that delta; transactions without a delta at a key receive nothing for it.
\<close>

theorem resolve_is_sequential:
  assumes "codec_ok bcs" "mv_wf m" "distinct (map fst keys)"
    and "\<And>key sv. (key, sv) \<in> set keys \<Longrightarrow> resolvable bcs ex m n key sv (base key)"
  shows "\<exists>ret. resolve bcs ex m keys n = Some ret \<and> length ret = n \<and>
     (\<forall>idx < n. ret ! idx =
        concat (map (\<lambda>(key, sv). expected_write bcs ex (base key) key (tree_or_new m key) idx) keys))"
  using resolve_keys_spec[OF assms(1-3), of ex "replicate n []" base] assms(4) by (simp add: resolve_def)

text \<open>The store without the estimate, resolved: the deltas of transactions 3 and 4 on the write of 1.\<close>

definition demo_final :: "(nat, bytes) mvhashmap" where
  "demo_final = [0 \<mapsto> [(1, new_write_from FLAG_DONE 0 (le_encode 16 10)), (3, new_delta_from FLAG_DONE (delta_add 5 100))]]"

theorem resolve_is_sequential_witness:
  "\<exists>ret. resolve bcs_le128 Some demo_final [(0, Ok None :: (_, unit) result)] 4 = Some ret \<and>
     ret ! 1 = [] \<and> ret ! 3 = [(0, Modification (le_encode 16 15))]"
proof -
  have t: "tree_or_new demo_final 0 =
      [(1, new_write_from FLAG_DONE 0 (le_encode 16 10)), (3, new_delta_from FLAG_DONE (delta_add 5 100))]"
    by (simp add: demo_final_def tree_or_new_def)
  have wf: "mv_wf demo_final"
    by (auto simp: mv_wf_def demo_final_def bt_ok_def)
  have codec: "codec_ok bcs_le128" unfolding codec_ok_def using bcs_le128_roundtrip by blast
  have fw: "from_write bcs_le128 Some (le_encode 16 10) = Some (Some 10)"
    using bcs_le128_simps(2)[of 10] by (simp add: from_write_def deserialize_def)
  have h: "key_history bcs_le128 Some None (tree_or_new demo_final 0) = KNum 15"
    unfolding t by (simp add: key_history_def key_step_def new_write_from_def new_delta_from_def key_value_def fw
        delta_add_def delta_new_def apply_to_def addition_def subtraction_def)
  have "resolvable bcs_le128 Some demo_final 4 0 (Ok None :: (_, unit) result) None"
    using h unfolding resolvable_def t
    by (auto simp: storage_latest_def demo_final_def writes_decode_def new_write_from_def new_delta_from_def fw
        append_eq_Cons_conv Cons_eq_append_conv)
  then have "\<exists>ret. resolve bcs_le128 Some demo_final [(0, Ok None :: (_, unit) result)] 4 = Some ret \<and> length ret = 4 \<and>
     (\<forall>idx < 4. ret ! idx = concat (map (\<lambda>(key, sv). expected_write bcs_le128 Some ((\<lambda>_. None) key) key
        (tree_or_new demo_final key) idx) [(0, Ok None :: (_, unit) result)]))"
    using resolve_is_sequential[where base = "\<lambda>_. None" and keys = "[(0, Ok None :: (_, unit) result)]" and n = 4 and ex = Some,
        OF codec wf] by simp
  moreover have "expected_write bcs_le128 Some None 0 (tree_or_new demo_final 0) 3 = [(0 :: nat, Modification (le_encode 16 15))]"
    using h unfolding t by (simp add: expected_write_def new_delta_from_def serialize_def)
  moreover have "expected_write bcs_le128 Some None 0 (tree_or_new demo_final 0) 1 = ([] :: (nat \<times> write_op) list)"
    unfolding t by (simp add: expected_write_def new_write_from_def)
  ultimately show ?thesis by auto
qed

end
