(* ===== verification/Programs.thy ===== *)
theory Programs
  imports Prelude
begin

text \<open>
  Programs that read the state: the code of the Move VM reads storage through a \<open>StateView\<close> that the
  caller supplies, so its behaviour is an interaction tree that asks for keys one after the other, each
  question depending on the answers so far, and ends with a result or a panic.  The same tree runs against
  the multi-version store (\<open>Par_Executor\<close>), the block cache (\<open>Seq_Adapter\<close>) or a view layered over another
  one (\<open>Data_Cache\<close>).
\<close>

section \<open>Definitions\<close>

datatype ('k, 'a, 'r) prog =
    Return 'r
  | Panic
  | Read 'k "'a \<Rightarrow> ('k, 'a, 'r) prog"

primrec run_prog :: "('k \<Rightarrow> 'a option) \<Rightarrow> ('k, 'a, 'r) prog \<Rightarrow> 'r option" where
  "run_prog answer (Return r) = Some r"
| "run_prog answer Panic = None"
| "run_prog answer (Read key f) =
     (case answer key of Some a \<Rightarrow> run_prog answer (f a) | None \<Rightarrow> None)"

primrec prog_bind :: "('k, 'a, 'r) prog \<Rightarrow> ('r \<Rightarrow> ('k, 'a, 's) prog) \<Rightarrow> ('k, 'a, 's) prog" where
  "prog_bind (Return r) g = g r"
| "prog_bind Panic g = Panic"
| "prog_bind (Read key f) g = Read key (\<lambda>a. prog_bind (f a) g)"

definition prog_map :: "('r \<Rightarrow> 's) \<Rightarrow> ('k, 'a, 'r) prog \<Rightarrow> ('k, 'a, 's) prog" where
  "prog_map g p = prog_bind p (\<lambda>r. Return (g r))"

text \<open>\<open>?\<close> inside a program: an error is the result of the rest.\<close>

definition prog_try ::
  "('k, 'a, ('r, 'e) result) prog \<Rightarrow> ('r \<Rightarrow> ('k, 'a, ('s, 'e) result) prog) \<Rightarrow> ('k, 'a, ('s, 'e) result) prog" where
  "prog_try p g = prog_bind p (\<lambda>r. case r of Ok x \<Rightarrow> g x | Err e \<Rightarrow> Return (Err e))"

text \<open>A value that may be a panic, as a program.\<close>

definition prog_of_option :: "'r option \<Rightarrow> ('k, 'a, 'r) prog" where
  "prog_of_option x = (case x of Some r \<Rightarrow> Return r | None \<Rightarrow> Panic)"

text \<open>The results a program can return, over all answers.\<close>

primrec returns :: "('r \<Rightarrow> bool) \<Rightarrow> ('k, 'a, 'r) prog \<Rightarrow> bool" where
  "returns P (Return r) \<longleftrightarrow> P r"
| "returns P Panic \<longleftrightarrow> True"
| "returns P (Read key f) \<longleftrightarrow> (\<forall>a. returns P (f a))"

section \<open>Running and composing\<close>

lemma run_prog_bind [simp]:
  "run_prog answer (prog_bind p g) = Option.bind (run_prog answer p) (\<lambda>r. run_prog answer (g r))"
  by (induction p) (auto split: option.split)

lemma run_prog_map [simp]: "run_prog answer (prog_map g p) = map_option g (run_prog answer p)"
  by (simp add: prog_map_def map_conv_bind_option comp_def)

lemma run_prog_cong: "(\<And>k. f k = g k) \<Longrightarrow> run_prog f p = run_prog g p"
  by (induction p) (auto split: option.split)

lemma run_returns: "run_prog answer p = Some r \<Longrightarrow> returns P p \<Longrightarrow> P r"
  by (induction p) (auto split: option.splits)

lemma returns_bind: "returns Q p \<Longrightarrow> (\<And>r. Q r \<Longrightarrow> returns P (g r)) \<Longrightarrow> returns P (prog_bind p g)"
  by (induction p) auto

lemma returns_bind_any: "(\<And>r. returns P (g r)) \<Longrightarrow> returns P (prog_bind p g)"
  by (induction p) auto

lemma returns_map: "returns (\<lambda>r. P (g r)) p \<Longrightarrow> returns P (prog_map g p)"
  unfolding prog_map_def by (rule returns_bind) auto

lemma returns_mono: "returns Q p \<Longrightarrow> (\<And>r. Q r \<Longrightarrow> P r) \<Longrightarrow> returns P p"
  by (induction p) auto

lemma run_prog_of_option [simp]: "run_prog answer (prog_of_option x) = x"
  by (cases x) (simp_all add: prog_of_option_def)

lemma returns_of_option: "(\<And>r. x = Some r \<Longrightarrow> P r) \<Longrightarrow> returns P (prog_of_option x)"
  by (simp add: prog_of_option_def split: option.split)

end
