(* ===== verification/Par_Executor.thy ===== *)
theory Par_Executor
  imports Scheduler Txn_IO Output_Resolver Programs
begin

text \<open>
  The parallel transaction executor of \<^verbatim>\<open>parallel-executor/src/executor.rs\<close>: the view through which
  a transaction reads the multi-version store, \<open>execute\<close>, \<open>validate\<close> and the collection of the final
  outputs.  The virtual machine (trait \<open>ExecutorTask\<close>) is a parameter: a transaction is an interaction
  tree (\<open>Programs\<close>) that asks the view for keys one after the other and ends with a status, so any deterministic
  program is covered; \<open>client\<close> turns a \<open>ReadResult\<close> into what the program sees (for the Move VM this is
  \<open>VersionedView::get_state_value\<close>, modelled in \<open>Parallel_VM\<close>).
\<close>

section \<open>Definitions\<close>

datatype 'v read_result = Value 'v | U128 u128 | UnresolvedDelta delta_op | NoValue

text \<open>
  One turn of the loop of \<open>MVHashMapView::read\<close>: \<open>Inl dep\<close> is a dependency, after which the code waits and
  reads again; \<open>Inr\<close> is the answer together with the captured descriptor.
\<close>

definition view_read ::
  "bcs_codec \<Rightarrow> ('v \<Rightarrow> bytes option) \<Rightarrow> ('k, 'v) mvhashmap \<Rightarrow> txn_index \<Rightarrow> 'k \<Rightarrow>
   (txn_index + 'v read_result \<times> 'k read_descriptor) option" where
  "view_read bcs ex m idx key =
     (case mv_read bcs ex m key idx of
        None \<Rightarrow> None
      | Some (Ok (Version ver v)) \<Rightarrow> Some (Inr (Value v, from_version key (fst ver) (snd ver)))
      | Some (Ok (Resolved value)) \<Rightarrow> Some (Inr (U128 value, from_resolved key value))
      | Some (Err NotFound) \<Rightarrow> Some (Inr (NoValue, from_storage key))
      | Some (Err (Unresolved delta)) \<Rightarrow> Some (Inr (UnresolvedDelta delta, from_unresolved key delta))
      | Some (Err (Dependency dep_idx)) \<Rightarrow> Some (Inl dep_idx)
      | Some (Err DeltaApplicationFailure) \<Rightarrow> Some (Inr (U128 0, from_delta_application_failure key)))"

type_synonym ('k, 'a, 't, 'e) vm = "('k, 'a, ('t, 'e) execution_status) prog"

text \<open>
  An execution whose \<open>n\<close>-th read is answered from \<open>stores n\<close>, the store at the moment of that read (other
  threads change it in between).  It returns the status and the captured reads.
\<close>

primrec run_vm ::
  "bcs_codec \<Rightarrow> ('v \<Rightarrow> bytes option) \<Rightarrow> ('k \<Rightarrow> 'v read_result \<Rightarrow> 'a option) \<Rightarrow> (nat \<Rightarrow> ('k, 'v) mvhashmap) \<Rightarrow>
   txn_index \<Rightarrow> ('k, 'a, 't, 'e) vm \<Rightarrow> nat \<Rightarrow> 'k read_descriptor list \<Rightarrow>
   (('t, 'e) execution_status \<times> 'k read_descriptor list) option" where
  "run_vm bcs ex client stores idx (Return status) n reads = Some (status, reads)"
| "run_vm bcs ex client stores idx Panic n reads = None"
| "run_vm bcs ex client stores idx (Read key f) n reads =
     (case view_read bcs ex (stores n) idx key of
        Some (Inr (result, desc)) \<Rightarrow>
          (case client key result of
             Some a \<Rightarrow> run_vm bcs ex client stores idx (f a) (Suc n) (reads @ [desc])
           | None \<Rightarrow> None)
      | _ \<Rightarrow> None)"

text \<open>The closure \<open>apply_updates\<close>: the store, the keys of the previous output not yet met, and the flag.\<close>

fun apply_writes ::
  "version \<Rightarrow> ('k \<times> 'v) list \<Rightarrow> ('k, 'v) mvhashmap \<times> 'k list \<times> bool \<Rightarrow> (('k, 'v) mvhashmap \<times> 'k list \<times> bool) option" where
  "apply_writes ver [] st = Some st"
| "apply_writes ver ((k, v) # ws) (m, prev, outside) =
     do { m' \<leftarrow> add_write m k ver v;
          apply_writes ver ws (m', removeAll k prev, outside \<or> k \<notin> set prev) }"

fun apply_deltas ::
  "txn_index \<Rightarrow> ('k \<times> delta_op) list \<Rightarrow> ('k, 'v) mvhashmap \<times> 'k list \<times> bool \<Rightarrow> ('k, 'v) mvhashmap \<times> 'k list \<times> bool" where
  "apply_deltas idx [] st = st"
| "apply_deltas idx ((k, d) # ds) (m, prev, outside) =
     apply_deltas idx ds (add_delta m k idx d, removeAll k prev, outside \<or> k \<notin> set prev)"

definition apply_updates ::
  "('t, 'k, 'v) output_ops \<Rightarrow> version \<Rightarrow> 't \<Rightarrow> ('k, 'v) mvhashmap \<times> 'k list \<times> bool \<Rightarrow>
   (('k, 'v) mvhashmap \<times> 'k list \<times> bool) option" where
  "apply_updates ops ver t st =
     map_option (apply_deltas (fst ver) (get_deltas ops t)) (apply_writes ver (get_writes ops t) st)"

fun wrap_abort :: "('t, 'e) execution_status \<Rightarrow> ('t, 'e par_error) execution_status" where
  "wrap_abort (Success t) = Success t"
| "wrap_abort (SkipRest t) = SkipRest t"
| "wrap_abort (Abort err) = Abort (UserError err)"

definition install_output ::
  "('t, 'k, 'v) output_ops \<Rightarrow> ('k, 'v) mvhashmap \<Rightarrow> 'k list \<Rightarrow> version \<Rightarrow> ('t, 'e) execution_status \<Rightarrow>
   (('k, 'v) mvhashmap \<times> bool) option" where
  "install_output ops m prev_modified_keys ver execute_result =
     do { (m1, stale, updates_outside) \<leftarrow>
            (case status_output execute_result of
               Some t \<Rightarrow> apply_updates ops ver t (m, prev_modified_keys, False)
             | None \<Rightarrow> Some (m, prev_modified_keys, False));
          m2 \<leftarrow> run_all (\<lambda>k m. mv_delete m k (fst ver)) stale m1;
          Some (m2, updates_outside) }"

text \<open>\<open>execute\<close>, given the result of the VM: \<open>m\<close> is the store when the updates are applied.\<close>

definition execute_txn ::
  "('t, 'k, 'v) output_ops \<Rightarrow> ('k \<Rightarrow> 'p option) \<Rightarrow> version \<Rightarrow> ('t, 'e) execution_status \<times> 'k read_descriptor list \<Rightarrow>
   ('k, 'v) mvhashmap \<Rightarrow> ('k, 't, 'e, 'p) last_io \<Rightarrow> scheduler \<Rightarrow>
   (scheduler_task \<times> ('k, 'v) mvhashmap \<times> ('k, 't, 'e, 'p) last_io \<times> scheduler) option" where
  "execute_txn ops mpath ver vm_result m io s =
     (let (idx_to_execute, inc) = ver; (execute_result, captured_reads) = vm_result
      in do { prev_modified_keys \<leftarrow> modified_keys ops io idx_to_execute;
              (m', updates_outside) \<leftarrow> install_output ops m prev_modified_keys ver execute_result;
              io' \<leftarrow> record_io ops mpath io idx_to_execute captured_reads (wrap_abort execute_result);
              (task, s') \<leftarrow> finish_execution s idx_to_execute inc updates_outside;
              Some (task, m', io', s') })"

definition read_valid ::
  "bcs_codec \<Rightarrow> ('v \<Rightarrow> bytes option) \<Rightarrow> ('k, 'v) mvhashmap \<Rightarrow> txn_index \<Rightarrow> 'k read_descriptor \<Rightarrow> bool option" where
  "read_valid bcs ex m idx r =
     (case mv_read bcs ex m (access_path r) idx of
        None \<Rightarrow> None
      | Some (Ok (Version ver _)) \<Rightarrow> Some (validate_version r ver)
      | Some (Ok (Resolved value)) \<Rightarrow> Some (validate_resolved r value)
      | Some (Err (Dependency _)) \<Rightarrow> Some False
      | Some (Err (Unresolved delta)) \<Rightarrow> Some (validate_unresolved r delta)
      | Some (Err NotFound) \<Rightarrow> Some (validate_storage r)
      | Some (Err DeltaApplicationFailure) \<Rightarrow> Some (validate_delta_application_failure r))"

fun reads_valid ::
  "bcs_codec \<Rightarrow> ('v \<Rightarrow> bytes option) \<Rightarrow> ('k, 'v) mvhashmap \<Rightarrow> txn_index \<Rightarrow> 'k read_descriptor list \<Rightarrow> bool option" where
  "reads_valid bcs ex m idx [] = Some True"
| "reads_valid bcs ex m idx (r # rs) =
     (case read_valid bcs ex m idx r of
        None \<Rightarrow> None
      | Some False \<Rightarrow> Some False
      | Some True \<Rightarrow> reads_valid bcs ex m idx rs)"

definition validate_txn ::
  "bcs_codec \<Rightarrow> ('v \<Rightarrow> bytes option) \<Rightarrow> ('t, 'k, 'v) output_ops \<Rightarrow> version \<Rightarrow>
   ('k, 'v) mvhashmap \<Rightarrow> ('k, 't, 'e, 'p) last_io \<Rightarrow> scheduler \<Rightarrow>
   (scheduler_task \<times> ('k, 'v) mvhashmap \<times> scheduler) option" where
  "validate_txn bcs ex ops ver m io s =
     (let (idx_to_validate, inc) = ver
      in do { maybe_reads \<leftarrow> read_set io idx_to_validate;
              reads \<leftarrow> maybe_reads;
              valid \<leftarrow> reads_valid bcs ex m idx_to_validate reads;
              (aborted, s1) \<leftarrow> (if valid then Some (False, s) else try_abort s idx_to_validate inc);
              (if aborted then
                 do { keys \<leftarrow> modified_keys ops io idx_to_validate;
                      m' \<leftarrow> run_all (\<lambda>k m. mark_estimate m k idx_to_validate) keys m;
                      (task, s2) \<leftarrow> finish_abort s1 idx_to_validate inc;
                      Some (task, m', s2) }
               else map_option (\<lambda>s2. (NoTask, m, s2)) (guard_drop s1)) })"

text \<open>The loop over the recorded outputs at the end of \<open>execute_transactions_parallel\<close>.\<close>

fun collect_outputs ::
  "txn_index \<Rightarrow> nat \<Rightarrow> ('k, 't, 'e, 'p) last_io \<Rightarrow> 't list \<Rightarrow> ('t list \<times> 'e par_error option) option" where
  "collect_outputs idx 0 io final_results = Some (final_results, None)"
| "collect_outputs idx (Suc k) io final_results =
     (case take_output io idx of
        None \<Rightarrow> None
      | Some (Success t, io') \<Rightarrow> collect_outputs (Suc idx) k io' (final_results @ [t])
      | Some (SkipRest t, io') \<Rightarrow> Some (final_results @ [t], None)
      | Some (Abort err, io') \<Rightarrow> Some (final_results, Some err))"

definition block_result ::
  "('t, 'k, 'v) output_ops \<Rightarrow> nat \<Rightarrow> ('k, 't, 'e, 'p) last_io \<Rightarrow> ('t list, 'e par_error) result option" where
  "block_result ops block_size io =
     (if block_size = 0 then Some (Ok [])
      else
        do { (final_results, maybe_err) \<leftarrow>
               (if module_publishing_may_race io then Some ([], Some ModulePathReadWrite)
                else collect_outputs 0 block_size io []);
             Some (case maybe_err of
                     Some err \<Rightarrow> Err err
                   | None \<Rightarrow> Ok (final_results @ replicate (block_size - length final_results) (skip_output ops))) })"

section \<open>Installing an output\<close>

text \<open>The entry an output leaves at a key.\<close>

definition out_entry :: "('t, 'k, 'v) output_ops \<Rightarrow> incarnation \<Rightarrow> ('t, 'e) execution_status \<Rightarrow> 'k \<Rightarrow> 'v entry option" where
  "out_entry ops inc status k =
     (case status_output status of
        None \<Rightarrow> None
      | Some t \<Rightarrow>
          (case map_of (get_deltas ops t) k of
             Some d \<Rightarrow> Some (new_delta_from FLAG_DONE d)
           | None \<Rightarrow> map_option (new_write_from FLAG_DONE inc) (map_of (get_writes ops t) k)))"

text \<open>What the types behind \<open>get_writes\<close> and \<open>get_deltas\<close> promise: no key twice.\<close>

definition output_keys_ok :: "('t, 'k, 'v) output_ops \<Rightarrow> 't \<Rightarrow> bool" where
  "output_keys_ok ops t \<longleftrightarrow> distinct (map fst (get_writes ops t)) \<and> distinct (map fst (get_deltas ops t)) \<and>
     fst ` set (get_writes ops t) \<inter> fst ` set (get_deltas ops t) = {}"

text \<open>Entries at a transaction's own index come from earlier incarnations.\<close>

definition older_write :: "incarnation \<Rightarrow> 'v entry option \<Rightarrow> bool" where
  "older_write inc e \<longleftrightarrow> (\<forall>f i d. e = Some \<lparr>flag = f, cell = Write i d\<rparr> \<longrightarrow> i < inc)"

lemma add_write_older:
  assumes "mv_wf m" "older_write inc (mv_entry m k idx)"
  shows "\<exists>m'. add_write m k (idx, inc) v = Some m' \<and> mv_wf m' \<and>
     (\<forall>k' j. mv_entry m' k' j = (if k' = k \<and> j = idx then Some (new_write_from FLAG_DONE inc v) else mv_entry m k' j))"
proof -
  let ?m = "m(k \<mapsto> bt_insert idx (new_write_from FLAG_DONE inc v) (tree_or_new m k))"
  have "add_write m k (idx, inc) v = Some ?m"
    using assms(2) by (auto simp: add_write_def Let_def add_write_guard older_write_def mv_entry_def)
  then show ?thesis using mv_wf_insert[OF assms(1)] by (simp add: mv_entry_insert)
qed

lemma apply_writes_spec:
  assumes "mv_wf m" "distinct (map fst ws)" "\<And>k. k \<in> fst ` set ws \<Longrightarrow> older_write inc (mv_entry m k idx)"
  shows "\<exists>m'. apply_writes (idx, inc) ws (m, prev, outside) =
       Some (m', filter (\<lambda>k. k \<notin> fst ` set ws) prev, outside \<or> (\<exists>k \<in> fst ` set ws. k \<notin> set prev)) \<and> mv_wf m' \<and>
     (\<forall>k j. mv_entry m' k j =
        (case map_of ws k of Some v \<Rightarrow> if j = idx then Some (new_write_from FLAG_DONE inc v) else mv_entry m k j
         | None \<Rightarrow> mv_entry m k j))"
  using assms
proof (induction ws arbitrary: m prev outside)
  case Nil
  then show ?case by simp
next
  case (Cons w ws)
  obtain k v where w: "w = (k, v)" by fastforce
  have k: "k \<notin> fst ` set ws" using Cons.prems(2) by (simp add: w)
  then have kn: "map_of ws k = None" by (simp add: map_of_eq_None_iff)
  from add_write_older[OF Cons.prems(1) Cons.prems(3)[of k], of v] obtain m1 where
    m1: "add_write m k (idx, inc) v = Some m1" "mv_wf m1"
      "\<And>k' j. mv_entry m1 k' j = (if k' = k \<and> j = idx then Some (new_write_from FLAG_DONE inc v) else mv_entry m k' j)"
    by (auto simp: w)
  have "older_write inc (mv_entry m1 k' idx)" if "k' \<in> fst ` set ws" for k'
    using Cons.prems(3)[of k'] that k m1(3)[of k' idx] by (auto simp: w)
  from Cons.IH[OF m1(2) _ this, of "removeAll k prev" "outside \<or> k \<notin> set prev"] Cons.prems(2) obtain m' where
    m': "apply_writes (idx, inc) ws (m1, removeAll k prev, outside \<or> k \<notin> set prev) =
       Some (m', filter (\<lambda>k. k \<notin> fst ` set ws) (removeAll k prev),
         (outside \<or> k \<notin> set prev) \<or> (\<exists>k' \<in> fst ` set ws. k' \<notin> set (removeAll k prev)))" "mv_wf m'"
      "\<And>k' j. mv_entry m' k' j = (case map_of ws k' of Some v \<Rightarrow> if j = idx then Some (new_write_from FLAG_DONE inc v) else mv_entry m1 k' j
         | None \<Rightarrow> mv_entry m1 k' j)"
    by auto
  have f: "filter (\<lambda>k. k \<notin> fst ` set ws) (removeAll k prev) = filter (\<lambda>k'. k' \<notin> fst ` set (w # ws)) prev"
    by (auto simp: w removeAll_filter_not_eq intro: filter_cong)
  have o: "((outside \<or> k \<notin> set prev) \<or> (\<exists>k' \<in> fst ` set ws. k' \<notin> set (removeAll k prev))) =
      (outside \<or> (\<exists>k' \<in> fst ` set (w # ws). k' \<notin> set prev))"
    using k by (auto simp: w)
  have "mv_entry m' k' j = (case map_of (w # ws) k' of Some v \<Rightarrow> if j = idx then Some (new_write_from FLAG_DONE inc v) else mv_entry m k' j
         | None \<Rightarrow> mv_entry m k' j)" for k' j
    using m'(3)[of k' j] m1(3)[of k' j] kn by (auto simp: w split: option.split)
  with m'(1,2) m1(1) f o show ?case by (simp add: w)
qed

lemma apply_deltas_spec:
  assumes "mv_wf m" "distinct (map fst ds)"
  shows "\<exists>m'. apply_deltas idx ds (m, prev, outside) =
       (m', filter (\<lambda>k. k \<notin> fst ` set ds) prev, outside \<or> (\<exists>k \<in> fst ` set ds. k \<notin> set prev)) \<and> mv_wf m' \<and>
     (\<forall>k j. mv_entry m' k j =
        (case map_of ds k of Some d \<Rightarrow> if j = idx then Some (new_delta_from FLAG_DONE d) else mv_entry m k j
         | None \<Rightarrow> mv_entry m k j))"
  using assms
proof (induction ds arbitrary: m prev outside)
  case Nil
  then show ?case by simp
next
  case (Cons x ds)
  obtain k d where x: "x = (k, d)" by fastforce
  have k: "k \<notin> fst ` set ds" using Cons.prems(2) by (simp add: x)
  then have kn: "map_of ds k = None" by (simp add: map_of_eq_None_iff)
  let ?m = "add_delta m k idx d"
  have m1: "mv_wf ?m" "\<And>k' j. mv_entry ?m k' j = (if k' = k \<and> j = idx then Some (new_delta_from FLAG_DONE d) else mv_entry m k' j)"
    using Cons.prems(1) by (simp_all add: add_delta_def mv_wf_insert mv_entry_insert)
  from Cons.IH[OF m1(1), of "removeAll k prev" "outside \<or> k \<notin> set prev"] Cons.prems(2) obtain m' where
    m': "apply_deltas idx ds (?m, removeAll k prev, outside \<or> k \<notin> set prev) =
       (m', filter (\<lambda>k. k \<notin> fst ` set ds) (removeAll k prev),
         (outside \<or> k \<notin> set prev) \<or> (\<exists>k' \<in> fst ` set ds. k' \<notin> set (removeAll k prev)))" "mv_wf m'"
      "\<And>k' j. mv_entry m' k' j = (case map_of ds k' of Some d \<Rightarrow> if j = idx then Some (new_delta_from FLAG_DONE d) else mv_entry ?m k' j
         | None \<Rightarrow> mv_entry ?m k' j)"
    by auto
  have f: "filter (\<lambda>k. k \<notin> fst ` set ds) (removeAll k prev) = filter (\<lambda>k'. k' \<notin> fst ` set (x # ds)) prev"
    by (auto simp: x removeAll_filter_not_eq intro: filter_cong)
  have o: "((outside \<or> k \<notin> set prev) \<or> (\<exists>k' \<in> fst ` set ds. k' \<notin> set (removeAll k prev))) =
      (outside \<or> (\<exists>k' \<in> fst ` set (x # ds). k' \<notin> set prev))"
    using k by (auto simp: x)
  have "mv_entry m' k' j = (case map_of (x # ds) k' of Some d \<Rightarrow> if j = idx then Some (new_delta_from FLAG_DONE d) else mv_entry m k' j
         | None \<Rightarrow> mv_entry m k' j)" for k' j
    using m'(3)[of k' j] m1(2)[of k' j] kn by (auto simp: x split: option.split)
  with m'(1,2) f o show ?case by (simp add: x)
qed

lemma run_delete_spec:
  assumes "mv_wf m" "distinct ks" "\<And>k. k \<in> set ks \<Longrightarrow> mv_entry m k idx \<noteq> None"
  shows "\<exists>m'. run_all (\<lambda>k m. mv_delete m k idx) ks m = Some m' \<and> mv_wf m' \<and>
     (\<forall>k j. mv_entry m' k j = (if k \<in> set ks \<and> j = idx then None else mv_entry m k j))"
  using assms
proof (induction ks arbitrary: m)
  case (Cons k ks)
  obtain t where t: "m k = Some t"
    using Cons.prems(3)[of k] by (auto simp: mv_entry_def tree_or_new_def split: option.splits)
  let ?m = "m(k \<mapsto> bt_remove idx t)"
  have wf: "mv_wf ?m" by (rule mv_wf_remove[where m = m, OF Cons.prems(1) t])
  have e: "mv_entry ?m k' j = (if k' = k \<and> j = idx then None else mv_entry m k' j)" for k' j
    by (rule mv_entry_remove[where m = m, OF t])
  have "mv_entry ?m k' idx \<noteq> None" if "k' \<in> set ks" for k'
    using Cons.prems(2) Cons.prems(3)[of k'] that e[of k' idx] by auto
  from Cons.IH[OF wf _ this] Cons.prems(2) obtain m' where
    m': "run_all (\<lambda>k m. mv_delete m k idx) ks ?m = Some m'" "mv_wf m'"
      "\<And>k' j. mv_entry m' k' j = (if k' \<in> set ks \<and> j = idx then None else mv_entry ?m k' j)" by (auto simp del: fun_upd_apply)
  have "mv_entry m' k' j = (if k' \<in> set (k # ks) \<and> j = idx then None else mv_entry m k' j)" for k' j
    using m'(3)[of k' j] e[of k' j] by auto
  moreover have "run_all (\<lambda>k m. mv_delete m k idx) (k # ks) m = Some m'"
    using m'(1) t by (simp add: mv_delete_def)
  ultimately show ?case using m'(2) by blast
qed simp

text \<open>
  C32. An execution leaves exactly its output in the store.  If the store holds at the transaction's index
  exactly the keys of its previous output, with writes of earlier incarnations only, then applying the
  updates and deleting the stale keys panics nowhere; afterwards the entries at the transaction's index
  are those of the new output and no others, every other transaction's entries are untouched, and
  \<open>updates_outside\<close> is set exactly when the output modifies a key the previous one did not.
\<close>

theorem install_output_exact:
  assumes wf: "mv_wf m" and prev: "distinct prev" "\<And>k. k \<in> set prev \<longleftrightarrow> mv_entry m k idx \<noteq> None"
    and old: "\<And>k. older_write inc (mv_entry m k idx)"
    and out: "\<And>t. status_output status = Some t \<Longrightarrow> output_keys_ok ops t"
  shows "\<exists>m' outside. install_output ops m prev (idx, inc) status = Some (m', outside) \<and> mv_wf m' \<and>
     (\<forall>k j. mv_entry m' k j = (if j = idx then out_entry ops inc status k else mv_entry m k j)) \<and>
     (outside \<longleftrightarrow> (\<exists>k. out_entry ops inc status k \<noteq> None \<and> mv_entry m k idx = None))"
proof (cases "status_output status")
  case None
  from run_delete_spec[OF wf prev(1), of idx] prev(2) obtain m' where
    "run_all (\<lambda>k m. mv_delete m k idx) prev m = Some m'" "mv_wf m'"
    "\<And>k j. mv_entry m' k j = (if k \<in> set prev \<and> j = idx then None else mv_entry m k j)" by auto
  with None prev(2) show ?thesis by (auto simp: install_output_def out_entry_def)
next
  case (Some t)
  let ?W = "get_writes ops t" and ?D = "get_deltas ops t"
  have ok: "distinct (map fst ?W)" "distinct (map fst ?D)" "fst ` set ?W \<inter> fst ` set ?D = {}"
    using out[OF Some] by (auto simp: output_keys_ok_def)
  from apply_writes_spec[OF wf ok(1) old, where prev = prev and outside = False] obtain m1 where
    m1: "apply_writes (idx, inc) ?W (m, prev, False) =
       Some (m1, filter (\<lambda>k. k \<notin> fst ` set ?W) prev, \<exists>k \<in> fst ` set ?W. k \<notin> set prev)" "mv_wf m1"
      "\<And>k j. mv_entry m1 k j = (case map_of ?W k of Some v \<Rightarrow> if j = idx then Some (new_write_from FLAG_DONE inc v)
         else mv_entry m k j | None \<Rightarrow> mv_entry m k j)" by auto
  let ?prev1 = "filter (\<lambda>k. k \<notin> fst ` set ?W) prev"
  from apply_deltas_spec[OF m1(2) ok(2), where prev = ?prev1 and idx = idx and outside = "\<exists>k \<in> fst ` set ?W. k \<notin> set prev"]
  obtain m2 where m2: "apply_deltas idx ?D (m1, ?prev1, \<exists>k \<in> fst ` set ?W. k \<notin> set prev) =
       (m2, filter (\<lambda>k. k \<notin> fst ` set ?D) ?prev1,
        (\<exists>k \<in> fst ` set ?W. k \<notin> set prev) \<or> (\<exists>k \<in> fst ` set ?D. k \<notin> set ?prev1))" "mv_wf m2"
      "\<And>k j. mv_entry m2 k j = (case map_of ?D k of Some d \<Rightarrow> if j = idx then Some (new_delta_from FLAG_DONE d)
         else mv_entry m1 k j | None \<Rightarrow> mv_entry m1 k j)" by auto
  let ?stale = "filter (\<lambda>k. k \<notin> fst ` set ?D) ?prev1"
  have oe: "mv_entry m2 k j = (if j = idx \<and> out_entry ops inc status k \<noteq> None then out_entry ops inc status k else mv_entry m k j)"
    for k j using m1(3)[of k j] m2(3)[of k j] Some by (auto simp: out_entry_def split: option.splits)
  have keys: "out_entry ops inc status k \<noteq> None \<longleftrightarrow> k \<in> fst ` set ?W \<or> k \<in> fst ` set ?D" for k
    using Some map_of_eq_None_iff[of ?W k] map_of_eq_None_iff[of ?D k] by (auto simp: out_entry_def split: option.split)
  have "\<exists>m'. run_all (\<lambda>k m. mv_delete m k idx) ?stale m2 = Some m' \<and> mv_wf m' \<and>
     (\<forall>k j. mv_entry m' k j = (if k \<in> set ?stale \<and> j = idx then None else mv_entry m2 k j))"
    by (rule run_delete_spec[OF m2(2)]) (use prev keys oe in auto)
  then obtain m' where m': "run_all (\<lambda>k m. mv_delete m k idx) ?stale m2 = Some m'" "mv_wf m'"
    "\<And>k j. mv_entry m' k j = (if k \<in> set ?stale \<and> j = idx then None else mv_entry m2 k j)" by blast
  have "k \<in> set ?stale \<longleftrightarrow> k \<in> set prev \<and> out_entry ops inc status k = None" for k
    using keys[of k] by (simp del: not_None_eq) blast
  then have "mv_entry m' k j = (if j = idx then out_entry ops inc status k else mv_entry m k j)" for k j
    using m'(3)[of k j] oe[of k j] prev(2)[of k] by (cases "j = idx"; cases "out_entry ops inc status k") simp_all
  moreover have "((\<exists>k \<in> fst ` set ?W. k \<notin> set prev) \<or> (\<exists>k \<in> fst ` set ?D. k \<notin> set ?prev1)) \<longleftrightarrow>
      (\<exists>k. out_entry ops inc status k \<noteq> None \<and> mv_entry m k idx = None)"
    unfolding keys using ok(3) prev(2) by auto
  ultimately show ?thesis
    using m1(1) m2(1) m'(1,2) Some by (simp add: install_output_def apply_updates_def)
qed

definition demo_prev :: "(nat, nat) mvhashmap" where
  "demo_prev = [4 \<mapsto> [(1, new_write_from FLAG_DONE 0 7)]]"

theorem install_output_exact_witness:
  "\<exists>m'. install_output demo_ops demo_prev [4] (1, 1) (Success [(5, 9)] :: (_, unit) execution_status) = Some (m', True) \<and>
     mv_entry m' 4 1 = None \<and> mv_entry m' 5 1 = Some (new_write_from FLAG_DONE 1 9)"
proof -
  have e: "mv_entry demo_prev k i = (if k = 4 \<and> i = 1 then Some (new_write_from FLAG_DONE 0 7) else None)" for k i
    by (simp add: mv_entry_def demo_prev_def tree_or_new_def)
  have wf: "mv_wf demo_prev" by (auto simp: mv_wf_def demo_prev_def bt_ok_def)
  have "\<exists>m' outside. install_output demo_ops demo_prev [4] (1, 1) (Success [(5, 9)] :: (_, unit) execution_status) = Some (m', outside) \<and>
     mv_wf m' \<and> (\<forall>k j. mv_entry m' k j = (if j = 1 then out_entry demo_ops 1 (Success [(5, 9)] :: (_, unit) execution_status) k
       else mv_entry demo_prev k j)) \<and>
     (outside \<longleftrightarrow> (\<exists>k. out_entry demo_ops 1 (Success [(5, 9)] :: (_, unit) execution_status) k \<noteq> None \<and> mv_entry demo_prev k 1 = None))"
    by (rule install_output_exact[OF wf])
      (auto simp: e older_write_def new_write_from_def output_keys_ok_def demo_ops_def split: if_splits)
  then show ?thesis by (auto simp: e out_entry_def demo_ops_def split: if_splits)
qed

section \<open>Validated blocks are serializable\<close>

text \<open>
  The reference: transactions one after the other on a state that maps each key to its value so far,
  with neither versions nor speculation, stopping where the code stops.
\<close>

datatype 'v seq_value = SBase | SVal 'v | SNum u128 | SFail

fun seq_answer :: "'v seq_value \<Rightarrow> 'v read_result" where
  "seq_answer SBase = NoValue"
| "seq_answer (SVal v) = Value v"
| "seq_answer (SNum n) = U128 n"
| "seq_answer SFail = U128 0"

definition seq_number :: "bcs_codec \<Rightarrow> ('v \<Rightarrow> bytes option) \<Rightarrow> u128 option \<Rightarrow> 'v seq_value \<Rightarrow> u128 option" where
  "seq_number bcs ex base st =
     (case st of
        SBase \<Rightarrow> base
      | SVal v \<Rightarrow> Option.bind (from_write bcs ex v) id
      | SNum n \<Rightarrow> Some n
      | SFail \<Rightarrow> None)"

definition seq_vm ::
  "('k \<Rightarrow> 'v read_result \<Rightarrow> 'a option) \<Rightarrow> ('k \<Rightarrow> 'v seq_value) \<Rightarrow> ('k, 'a, 't, 'e) vm \<Rightarrow> ('t, 'e) execution_status option" where
  "seq_vm client S = run_prog (\<lambda>key. client key (seq_answer (S key)))"

lemma seq_vm_simps [simp]:
  "seq_vm client S (Return status) = Some status"
  "seq_vm client S Panic = None"
  "seq_vm client S (Read key f) =
     (case client key (seq_answer (S key)) of Some a \<Rightarrow> seq_vm client S (f a) | None \<Rightarrow> None)"
  by (simp_all add: seq_vm_def split: option.split)

definition seq_update ::
  "bcs_codec \<Rightarrow> ('v \<Rightarrow> bytes option) \<Rightarrow> ('k \<Rightarrow> u128 option) \<Rightarrow> ('t, 'k, 'v) output_ops \<Rightarrow> ('t, 'e) execution_status \<Rightarrow>
   ('k \<Rightarrow> 'v seq_value) \<Rightarrow> 'k \<Rightarrow> 'v seq_value" where
  "seq_update bcs ex base ops status S k =
     (case status_output status of
        None \<Rightarrow> S k
      | Some t \<Rightarrow>
          (case map_of (get_deltas ops t) k of
             Some d \<Rightarrow>
               (case Option.bind (seq_number bcs ex (base k) (S k)) (\<lambda>v. ok (apply_to d v)) of
                  Some n \<Rightarrow> SNum n
                | None \<Rightarrow> SFail)
           | None \<Rightarrow> (case map_of (get_writes ops t) k of Some v \<Rightarrow> SVal v | None \<Rightarrow> S k)))"

fun seq_block ::
  "bcs_codec \<Rightarrow> ('v \<Rightarrow> bytes option) \<Rightarrow> ('k \<Rightarrow> u128 option) \<Rightarrow> ('t, 'k, 'v) output_ops \<Rightarrow>
   ('k \<Rightarrow> 'v read_result \<Rightarrow> 'a option) \<Rightarrow> ('k \<Rightarrow> 'v seq_value) \<Rightarrow> ('k, 'a, 't, 'e) vm list \<Rightarrow> ('t list, 'e) result option" where
  "seq_block bcs ex base ops client S [] = Some (Ok [])"
| "seq_block bcs ex base ops client S (vm # vms) =
     (case seq_vm client S vm of
        None \<Rightarrow> None
      | Some (Success t) \<Rightarrow>
          map_option (map_ok ((#) t)) (seq_block bcs ex base ops client (seq_update bcs ex base ops (Success t :: ('t, 'e) execution_status) S) vms)
      | Some (SkipRest t) \<Rightarrow> Some (Ok [t])
      | Some (Abort e) \<Rightarrow> Some (Err e))"

text \<open>
  The interface to the program that reads: it sees an unresolved delta as the number that the delta makes
  of the stored value.
\<close>

locale state_client =
  fixes client :: "'k \<Rightarrow> 'v read_result \<Rightarrow> 'a option"
    and base :: "'k \<Rightarrow> u128 option"
  assumes client_unresolved: "Option.bind (base k) (\<lambda>v. ok (apply_to d v)) = Some n \<Longrightarrow>
    client k (UnresolvedDelta d) = client k (U128 n)"

text \<open>The state before transaction \<open>i\<close>, given the outputs of the block.\<close>

primrec seq_state ::
  "bcs_codec \<Rightarrow> ('v \<Rightarrow> bytes option) \<Rightarrow> ('k \<Rightarrow> u128 option) \<Rightarrow> ('t, 'k, 'v) output_ops \<Rightarrow>
   (nat \<Rightarrow> ('t, 'e) execution_status) \<Rightarrow> nat \<Rightarrow> 'k \<Rightarrow> 'v seq_value" where
  "seq_state bcs ex base ops outs 0 = (\<lambda>_. SBase)"
| "seq_state bcs ex base ops outs (Suc i) = seq_update bcs ex base ops (outs i) (seq_state bcs ex base ops outs i)"

text \<open>A value recorded under a version is the same in every store of the run: a version is executed once.\<close>

definition agrees :: "('k \<Rightarrow> version \<Rightarrow> 'v) \<Rightarrow> ('k, 'v) mvhashmap \<Rightarrow> bool" where
  "agrees hist m \<longleftrightarrow> (\<forall>k i e inc v. mv_entry m k i = Some e \<and> cell e = Write inc v \<longrightarrow> v = hist k (i, inc))"

definition holds_outputs ::
  "('t, 'k, 'v) output_ops \<Rightarrow> nat \<Rightarrow> (nat \<Rightarrow> incarnation) \<Rightarrow> (nat \<Rightarrow> ('t, 'e) execution_status) \<Rightarrow> ('k, 'v) mvhashmap \<Rightarrow> bool" where
  "holds_outputs ops n incs outs m \<longleftrightarrow>
     (\<forall>k i. mv_entry m k i = (if i < n then out_entry ops (incs i) (outs i) k else None))"

text \<open>Keys changed by deltas are aggregators throughout the block.\<close>

definition aggregators_ok ::
  "bcs_codec \<Rightarrow> ('v \<Rightarrow> bytes option) \<Rightarrow> ('k \<Rightarrow> u128) \<Rightarrow> ('k, 'v) mvhashmap \<Rightarrow> bool" where
  "aggregators_ok bcs ex limit m \<longleftrightarrow>
     (\<forall>k. (\<exists>x \<in> set (tree_or_new m k). \<exists>d. cell (snd x) = Delta d) \<longrightarrow>
          aggregator_entries bcs ex (limit k) (tree_or_new m k))"

fun abs_state :: "'v key_state \<Rightarrow> 'v seq_value" where
  "abs_state KBase = SBase"
| "abs_state (KWrite _ v) = SVal v"
| "abs_state (KNum n) = SNum n"
| "abs_state KFail = SFail"

lemma seq_number_abs: "seq_number bcs ex base (abs_state st) = key_value bcs ex base st"
  by (cases st) (simp_all add: seq_number_def key_value_def)

lemma abs_num_or_fail: "abs_state (num_or_fail x) = (case x of Some n \<Rightarrow> SNum n | None \<Rightarrow> SFail)"
  by (cases x) simp_all

lemma bt_below_Suc:
  assumes "bt_ok t"
  shows "bt_below (Suc i) t = bt_below i t @ (case map_of t i of Some e \<Rightarrow> [(i, e)] | None \<Rightarrow> [])" (is "_ = ?r")
proof (rule bt_ext)
  show "bt_ok ?r"
    using bt_ok_below[OF assms, of i] by (auto simp: bt_ok_def sorted_wrt_append bt_below_def split: option.split)
  show "map_of (bt_below (Suc i) t) = map_of ?r"
    by (auto simp: fun_eq_iff map_of_bt_below map_add_def less_Suc_eq split: option.split)
qed (rule bt_ok_below[OF assms])

text \<open>The history of a key in the final store is the sequential state.\<close>

lemma history_is_seq_state:
  assumes wf: "mv_wf m" and h: "holds_outputs ops n incs outs m" and i: "i \<le> n"
  shows "abs_state (key_history bcs ex (base k) (bt_below i (tree_or_new m k))) = seq_state bcs ex base ops outs i k"
  using i
proof (induction i)
  case 0
  show ?case by (simp add: bt_below_def key_history_def)
next
  case (Suc i)
  let ?t = "tree_or_new m k" and ?h = "key_history bcs ex (base k) (bt_below i (tree_or_new m k))"
  have e: "map_of ?t i = out_entry ops (incs i) (outs i) k"
    using h Suc.prems by (simp add: holds_outputs_def mv_entry_def)
  have ih: "abs_state ?h = seq_state bcs ex base ops outs i k" using Suc by simp
  note below = bt_below_Suc[OF mv_wf_tree[OF wf, of k], of i]
  show ?case
  proof (cases "out_entry ops (incs i) (outs i) k")
    case None
    then have "seq_update bcs ex base ops (outs i) (seq_state bcs ex base ops outs i) k = seq_state bcs ex base ops outs i k"
      by (auto simp: out_entry_def seq_update_def split: option.splits)
    with None e ih show ?thesis by (simp add: below)
  next
    case (Some en)
    have "abs_state (key_step bcs ex (base k) ?h (i, en)) = seq_update bcs ex base ops (outs i) (seq_state bcs ex base ops outs i) k"
      using Some ih seq_number_abs[of bcs ex "base k" ?h]
      by (auto simp: out_entry_def seq_update_def key_step_def new_write_from_def new_delta_from_def abs_num_or_fail
          split: option.splits)
    with Some e show ?thesis by (simp add: below key_history_snoc)
  qed
qed

text \<open>A versioned answer comes from an entry of the store.\<close>

lemma read_loop_Version:
  "read_loop bcs ex es acc = Some (Ok (Version (j, inc) v)) \<Longrightarrow> \<exists>e. (j, e) \<in> set es \<and> cell e = Write inc v"
proof (induction es arbitrary: acc)
  case (Cons x es)
  obtain i e where x: "x = (i, e)" by fastforce
  show ?case
  proof (cases "cell e")
    case (Write inc' data)
    with Cons.prems show ?thesis
      by (auto simp: x map_ok_eq_Ok split: if_splits option.splits)
  next
    case (Delta d)
    with Cons.prems obtain acc' where "read_loop bcs ex es acc' = Some (Ok (Version (j, inc) v))"
      by (auto simp: x split: if_splits option.splits result.splits)
    from Cons.IH[OF this] show ?thesis by auto
  qed
qed (auto split: option.splits)

lemma mv_read_Version:
  assumes "mv_wf m" "agrees hist m" "mv_read bcs ex m k i = Some (Ok (Version ver v))"
  shows "v = hist k ver"
proof -
  obtain j inc where ver: "ver = (j, inc)" by fastforce
  from read_loop_Version[of bcs ex "rev (bt_below i (tree_or_new m k))" None j inc v] assms(3)
  obtain e where "(j, e) \<in> set (tree_or_new m k)" "cell e = Write inc v"
    by (auto simp: mv_read_tree ver bt_below_def)
  with assms(2) bt.get_iff_ents[OF mv_wf_tree[OF assms(1)], of k j e] show ?thesis
    by (auto simp: agrees_def mv_entry_def ver)
qed

lemma descriptor_path: "view_read bcs ex m i k = Some (Inr (r, d)) \<Longrightarrow> access_path d = k"
  by (auto simp: view_read_def from_version_def from_resolved_def from_storage_def from_unresolved_def
      from_delta_application_failure_def split: option.splits result.splits mv_output.splits mv_error.splits)

lemmas descriptor_defs = from_version_def from_resolved_def from_storage_def from_unresolved_def
  from_delta_application_failure_def validate_version_def validate_resolved_def validate_storage_def
  validate_unresolved_def validate_delta_application_failure_def

text \<open>
  An answer whose descriptor validates against another store is the answer that store gives, up to the
  form in which a delta is resolved.
\<close>

lemma validated_answer:
  assumes v: "view_read bcs ex st i k = Some (Inr (r, d))" and st: "mv_wf st" "agrees hist st"
    and m: "mv_wf m" "agrees hist m" and valid: "read_valid bcs ex m i d = Some True"
    and res: "mv_read bcs ex m k i = Some res" "mv_resolve b res = Some H"
  shows "r = seq_answer (abs_state H) \<or> (\<exists>dl. r = UnresolvedDelta dl \<and> H = num_or_fail (Option.bind b (\<lambda>v. ok (apply_to dl v))))"
proof -
  note path = descriptor_path[OF v]
  obtain out where out: "mv_read bcs ex st k i = Some out" using v by (auto simp: view_read_def split: option.splits)
  have agree: "x = hist k ver" if "out = Ok (Version ver x)" for ver x
    using mv_read_Version[OF st] out that by blast
  have agree': "x = hist k ver" if "res = Ok (Version ver x)" for ver x
    using mv_read_Version[OF m] res(1) that by blast
  show ?thesis
    using v valid res out agree agree' path
    by (cases d; cases res; cases out)
      (auto simp: view_read_def read_valid_def descriptor_defs split: mv_output.splits mv_error.splits)
qed

context state_client
begin

lemma seen_answer:
  assumes "r = seq_answer (abs_state H) \<or> (\<exists>d. r = UnresolvedDelta d \<and> H = num_or_fail (Option.bind (base k) (\<lambda>v. ok (apply_to d v))))"
    and "H \<noteq> KFail"
  shows "client k r = client k (seq_answer (abs_state H))"
proof -
  have "client k (UnresolvedDelta d) = client k (seq_answer (abs_state H))"
    if "H = num_or_fail (Option.bind (base k) (\<lambda>v. ok (apply_to d v)))" for d
    using that assms(2) client_unresolved[of k d]
    by (cases "Option.bind (base k) (\<lambda>v. ok (apply_to d v))") auto
  with assms(1) show ?thesis by auto
qed

text \<open>Replaying a validated execution on the sequential state gives the same status.\<close>

lemma replay:
  assumes run: "run_vm bcs ex client stores i prog n reads0 = Some (status, reads)"
    and st: "\<And>t. mv_wf (stores t) \<and> agrees hist (stores t)" and m: "mv_wf m" "agrees hist m"
    and valid: "\<And>d. d \<in> set reads \<Longrightarrow> read_valid bcs ex m i d = Some True"
    and H: "\<And>k. \<exists>res. mv_read bcs ex m k i = Some res \<and> mv_resolve (base k) res = Some (H k)"
    and nofail: "\<And>k. H k \<noteq> KFail"
  shows "set reads0 \<subseteq> set reads \<and> seq_vm client (\<lambda>k. abs_state (H k)) prog = Some status"
  using run
proof (induction prog arbitrary: n reads0)
  case (Return x)
  then show ?case by simp
next
  case Panic
  then show ?case by simp
next
  case (Read key f)
  from Read.prems obtain r d a where s: "view_read bcs ex (stores n) i key = Some (Inr (r, d))" "client key r = Some a"
    "run_vm bcs ex client stores i (f a) (Suc n) (reads0 @ [d]) = Some (status, reads)"
    by (auto split: option.splits sum.splits)
  from Read.IH[OF _ s(3)] have ih: "set (reads0 @ [d]) \<subseteq> set reads" "seq_vm client (\<lambda>k. abs_state (H k)) (f a) = Some status"
    by auto
  obtain res where res: "mv_read bcs ex m key i = Some res" "mv_resolve (base key) res = Some (H key)" using H by blast
  have "client key r = client key (seq_answer (abs_state (H key)))"
    using seen_answer[OF validated_answer[OF s(1) _ _ m valid res] nofail] st[of n] ih(1) by auto
  with s(2) ih show ?case by simp
qed

end

text \<open>The results of a list of statuses: up to the first that skips the rest or aborts.\<close>

fun settle :: "('t, 'e) execution_status list \<Rightarrow> ('t list, 'e) result" where
  "settle [] = Ok []"
| "settle (Success t # ss) = map_ok ((#) t) (settle ss)"
| "settle (SkipRest t # ss) = Ok [t]"
| "settle (Abort e # ss) = Err e"

text \<open>A validated block: what the executor has established when the scheduler is done.\<close>

definition validated_block ::
  "bcs_codec \<Rightarrow> ('v \<Rightarrow> bytes option) \<Rightarrow> ('t, 'k, 'v) output_ops \<Rightarrow> ('k \<Rightarrow> 'v read_result \<Rightarrow> 'a option) \<Rightarrow>
   ('k, 'a, 't, 'e) vm list \<Rightarrow> ('k, 'v) mvhashmap \<Rightarrow> (nat \<Rightarrow> incarnation) \<Rightarrow> (nat \<Rightarrow> ('t, 'e) execution_status) \<Rightarrow>
   (nat \<Rightarrow> 'k read_descriptor list) \<Rightarrow> ('k \<Rightarrow> version \<Rightarrow> 'v) \<Rightarrow> bool" where
  "validated_block bcs ex ops client vms m incs outs readss hist \<longleftrightarrow>
     mv_wf m \<and> agrees hist m \<and> holds_outputs ops (length vms) incs outs m \<and>
     (\<forall>i < length vms. reads_valid bcs ex m i (readss i) = Some True) \<and>
     (\<forall>i < length vms. \<exists>stores. (\<forall>t. mv_wf (stores t) \<and> agrees hist (stores t)) \<and>
        run_vm bcs ex client stores i (vms ! i) 0 [] = Some (outs i, readss i))"

lemma reads_valid_all: "reads_valid bcs ex m i rs = Some True \<Longrightarrow> d \<in> set rs \<Longrightarrow> read_valid bcs ex m i d = Some True"
  by (induction rs) (auto split: option.splits bool.splits)

lemma holds_outputs_done: "holds_outputs ops n incs outs m \<Longrightarrow> mv_wf m \<Longrightarrow> all_done (tree_or_new m k)"
  unfolding all_done_def
proof
  fix x assume h: "holds_outputs ops n incs outs m" "mv_wf m" "x \<in> set (tree_or_new m k)"
  obtain i e where x: "x = (i, e)" by fastforce
  with h bt.get_iff_ents[OF mv_wf_tree[OF h(2)], of k i e] have "mv_entry m k i = Some e" by (simp add: mv_entry_def)
  with h(1) have "out_entry ops (incs i) (outs i) k = Some e" by (auto simp: holds_outputs_def split: if_splits)
  then show "flag (snd x) = FLAG_DONE"
    by (auto simp: x out_entry_def new_write_from_def new_delta_from_def split: option.splits)
qed

lemma aggregators_below:
  assumes "aggregators_ok bcs ex limit m"
  shows "(\<exists>x \<in> set (bt_below i (tree_or_new m k)). \<exists>d. cell (snd x) = Delta d) \<longrightarrow>
     aggregator_entries bcs ex (limit k) (bt_below i (tree_or_new m k))"
proof
  assume "\<exists>x \<in> set (bt_below i (tree_or_new m k)). \<exists>d. cell (snd x) = Delta d"
  then have "\<exists>x \<in> set (tree_or_new m k). \<exists>d. cell (snd x) = Delta d" unfolding bt_below_def set_filter by blast
  with assms have "aggregator_entries bcs ex (limit k) (tree_or_new m k)"
    unfolding aggregators_ok_def by blast
  then show "aggregator_entries bcs ex (limit k) (bt_below i (tree_or_new m k))"
    unfolding aggregator_entries_def bt_below_def by simp
qed

text \<open>The status of every transaction of a validated block is the sequential one.\<close>

context state_client
begin

lemma validated_status:
  assumes vb: "validated_block bcs ex ops client vms m incs outs readss hist" and agg: "aggregators_ok bcs ex limit m"
    and nofail: "\<And>k. seq_state bcs ex base ops outs i k \<noteq> SFail" and i: "i < length vms"
  shows "seq_vm client (seq_state bcs ex base ops outs i) (vms ! i) = Some (outs i)"
proof -
  from vb have m: "mv_wf m" "agrees hist m" and h: "holds_outputs ops (length vms) incs outs m"
    and valid: "reads_valid bcs ex m i (readss i) = Some True"
    using i by (auto simp: validated_block_def)
  from vb i obtain stores where st: "\<And>t. mv_wf (stores t) \<and> agrees hist (stores t)"
    and run: "run_vm bcs ex client stores i (vms ! i) 0 [] = Some (outs i, readss i)"
    unfolding validated_block_def by blast
  define H where "H k = key_history bcs ex (base k) (bt_below i (tree_or_new m k))" for k
  have abs: "abs_state (H k) = seq_state bcs ex base ops outs i k" for k
    unfolding H_def using history_is_seq_state[OF m(1) h] i by simp
  have res: "\<exists>res. mv_read bcs ex m k i = Some res \<and> mv_resolve (base k) res = Some (H k)" for k
  proof -
    have "all_done (bt_below i (tree_or_new m k))"
      using holds_outputs_done[OF h m(1), of k] by (auto simp: all_done_def bt_below_def)
    then show ?thesis
      unfolding H_def using read_loop_history[of "rev (bt_below i (tree_or_new m k))" bcs ex "limit k" "base k"]
        aggregators_below[OF agg, of i k]
      by (simp add: mv_read_tree all_done_def aggregator_entries_def)
  qed
  have "H k \<noteq> KFail" for k using abs[of k] nofail[of k] by auto
  from replay[OF run st m reads_valid_all[OF valid] res this] show ?thesis by (simp add: abs)
qed

lemma seq_block_from:
  assumes vb: "validated_block bcs ex ops client vms m incs outs readss hist" and agg: "aggregators_ok bcs ex limit m"
    and nofail: "\<And>i k. i < length vms \<Longrightarrow> seq_state bcs ex base ops outs i k \<noteq> SFail" and i: "i \<le> length vms"
  shows "seq_block bcs ex base ops client (seq_state bcs ex base ops outs i) (drop i vms) =
     Some (settle (map outs [i..<length vms]))"
  using i
proof (induction "length vms - i" arbitrary: i)
  case 0
  then show ?case by simp
next
  case (Suc x)
  then have i: "i < length vms" by simp
  have ih: "seq_block bcs ex base ops client (seq_state bcs ex base ops outs (Suc i)) (drop (Suc i) vms) =
     Some (settle (map outs [Suc i..<length vms]))"
    using Suc.hyps(1)[of "Suc i"] Suc.hyps(2) i by simp
  have "drop i vms = vms ! i # drop (Suc i) vms" using i by (simp add: Cons_nth_drop_Suc)
  moreover have "[i..<length vms] = i # [Suc i..<length vms]" using i by (simp add: upt_conv_Cons)
  ultimately show ?case
    using validated_status[OF vb agg nofail[OF i] i] ih by (cases "outs i") auto
qed

end

text \<open>Collecting the recorded outputs settles the statuses.\<close>

fun wrap_result :: "('t list, 'e) result \<Rightarrow> ('t list, 'e par_error) result" where
  "wrap_result (Ok ts) = Ok ts"
| "wrap_result (Err e) = Err (UserError e)"

lemma collect_outputs_settle:
  assumes "\<And>j. i \<le> j \<Longrightarrow> j < i + k \<Longrightarrow> j < length (outputs io) \<and> outputs io ! j = Some (wrap_abort (outs j))"
  shows "\<exists>ts err. collect_outputs i k io acc = Some (acc @ ts, err) \<and>
     (case err of None \<Rightarrow> settle (map outs [i..<i + k]) = Ok ts
      | Some e \<Rightarrow> \<exists>u. e = UserError u \<and> settle (map outs [i..<i + k]) = Err u)"
  using assms
proof (induction k arbitrary: i io acc)
  case 0
  then show ?case by simp
next
  case (Suc k)
  have u: "[i..<i + Suc k] = i # [Suc i..<Suc i + k]" by (simp add: upt_conv_Cons)
  have i: "i < length (outputs io)" "outputs io ! i = Some (wrap_abort (outs i))" using Suc.prems[of i] by auto
  let ?io = "io\<lparr>outputs := (outputs io)[i := None]\<rparr>"
  have t: "take_output io i = Some (wrap_abort (outs i), ?io)" using i by (simp add: take_output_def)
  show ?case
  proof (cases "outs i")
    case (Success t')
    have "\<And>j. Suc i \<le> j \<Longrightarrow> j < Suc i + k \<Longrightarrow> j < length (outputs ?io) \<and> outputs ?io ! j = Some (wrap_abort (outs j))"
      using Suc.prems by auto
    from Suc.IH[OF this, where acc = "acc @ [t']"] obtain ts err where
      c: "collect_outputs (Suc i) k ?io (acc @ [t']) = Some ((acc @ [t']) @ ts, err)"
        "case err of None \<Rightarrow> settle (map outs [Suc i..<Suc i + k]) = Ok ts
         | Some e \<Rightarrow> \<exists>u. e = UserError u \<and> settle (map outs [Suc i..<Suc i + k]) = Err u" by blast
    show ?thesis
      unfolding u list.map Success settle.simps
      by (intro exI[of _ "t' # ts"] exI[of _ err]) (use c t Success in \<open>auto split: option.splits simp del: upt_Suc\<close>)
  next
    case (Abort e)
    with t show ?thesis unfolding u by (intro exI[of _ "[]"]) simp
  next
    case (SkipRest t')
    with t show ?thesis unfolding u by simp
  qed
qed

lemma settle_length: "settle ss = Ok ts \<Longrightarrow> length ts \<le> length ss"
  by (induction ss arbitrary: ts rule: settle.induct) (auto simp: map_ok_eq_Ok)

lemma block_result_settle:
  assumes "n > 0" "\<not> module_publishing_may_race io"
    and "length (outputs io) = n" "\<And>j. j < n \<Longrightarrow> outputs io ! j = Some (wrap_abort (outs j))"
  shows "block_result ops n io =
     Some (map_ok (\<lambda>ts. ts @ replicate (n - length ts) (skip_output ops)) (wrap_result (settle (map outs [0..<n]))))"
  using collect_outputs_settle[of 0 n io outs "[]"] assms
  by (auto simp: block_result_def split: option.splits)

end
