(* ===== verification/Parallel_VM.thy ===== *)
theory Parallel_VM
  imports Par_Executor
begin

text \<open>
  The Move VM's use of the parallel executor, from \<^verbatim>\<open>aptos-vm/src/parallel_executor\<close>: the state view
  of a transaction (\<open>VersionedView\<close>), the outputs it hands to the executor, the classification of an
  execution's result and the final assembly of the block's outputs.  The storage below
  (\<open>base_get\<close>), the execution of a single transaction, the event type and the write-set types are
  parameters.
\<close>

section \<open>Definitions\<close>

datatype 'er view_error = StateError 'er | StorageError | DeltaError partial_vm_error

definition versioned_get ::
  "bcs_codec \<Rightarrow> ('k \<Rightarrow> (bytes option, 'er) result) \<Rightarrow> 'k \<Rightarrow> write_op read_result \<Rightarrow>
   (bytes option, 'er view_error) result option" where
  "versioned_get bcs base_get state_key r =
     (case r of
        Value v \<Rightarrow>
          Some (Ok (case v of Modification w \<Rightarrow> Some w | Creation w \<Rightarrow> Some w | Deletion \<Rightarrow> None))
      | U128 v \<Rightarrow> map_option (\<lambda>bs. Ok (Some bs)) (serialize bcs v)
      | UnresolvedDelta delta \<Rightarrow>
          (case base_get state_key of
             Err e \<Rightarrow> Some (Err (StateError e))
           | Ok None \<Rightarrow> Some (Err StorageError)
           | Ok (Some bs) \<Rightarrow>
               (case deserialize bcs bs of
                  None \<Rightarrow> None
                | Some stored \<Rightarrow>
                    (case apply_to delta stored of
                       Err pe \<Rightarrow> Some (Err (DeltaError pe))
                     | Ok res \<Rightarrow> map_option (\<lambda>bs. Ok (Some bs)) (serialize bcs res))))
      | NoValue \<Rightarrow> Some (map_err StateError (base_get state_key)))"

definition aptos_ops ::
  "'st \<Rightarrow> (('k::linorder, 'ev, 'st) transaction_output_ext, 'k, write_op) output_ops" where
  "aptos_ops retry =
     \<lparr>get_writes = (\<lambda>t. out_write_set (ext_output t)),
      get_deltas = ext_deltas,
      skip_output = output_ext_from \<lparr>out_write_set = [], out_events = [], out_gas_used = 0, out_status = retry\<rparr>\<rparr>"

definition should_restart_execution :: "('ev \<Rightarrow> 'ek) \<Rightarrow> 'ek \<Rightarrow> ('k, 'ev, 'st) transaction_output \<Rightarrow> bool" where
  "should_restart_execution event_key new_epoch_event_key vm_output =
     list_ex (\<lambda>event. event_key event = new_epoch_event_key) (out_events vm_output)"

definition execute_transaction ::
  "('ev \<Rightarrow> 'ek) \<Rightarrow> 'ek \<Rightarrow> (('k, 'ev, 'st) transaction_output_ext, 'e) result \<Rightarrow>
   (('k, 'ev, 'st) transaction_output_ext, 'e) execution_status" where
  "execute_transaction event_key new_epoch_event_key r =
     (case r of
        Ok output_ext \<Rightarrow>
          if should_restart_execution event_key new_epoch_event_key (ext_output output_ext) then SkipRest output_ext else Success output_ext
      | Err err \<Rightarrow> Abort err)"

text \<open>The aggregator keys of the results, each once, with its stored value.\<close>

fun aggregator_keys ::
  "('k \<Rightarrow> (bytes option, 'er) result) \<Rightarrow> 'k list \<Rightarrow> ('k \<times> (bytes option, 'er) result) list \<Rightarrow>
   ('k \<times> (bytes option, 'er) result) list" where
  "aggregator_keys base_get [] acc = acc"
| "aggregator_keys base_get (key # keys) acc =
     aggregator_keys base_get keys (if key \<in> fst ` set acc then acc else acc @ [(key, base_get key)])"

definition delta_keys :: "('k, 'ev, 'st) transaction_output_ext list \<Rightarrow> 'k list" where
  "delta_keys results = concat (map (\<lambda>res. map fst (ext_deltas res)) results)"

definition assemble_outputs ::
  "bcs_codec \<Rightarrow> (write_op \<Rightarrow> bytes option) \<Rightarrow> ('k \<Rightarrow> (bytes option, 'er) result) \<Rightarrow>
   (('k \<times> write_op) list \<Rightarrow> 'wsm) \<Rightarrow> ('wsm \<Rightarrow> nat) \<Rightarrow> ('k write_set \<Rightarrow> 'wsm \<Rightarrow> ('wsm', 'e1) result) \<Rightarrow>
   ('wsm' \<Rightarrow> ('k write_set, 'e2) result) \<Rightarrow> ('st \<Rightarrow> bool) \<Rightarrow>
   ('k::linorder, write_op) mvhashmap \<Rightarrow> ('k, 'ev, 'st) transaction_output_ext list \<Rightarrow>
   ('k, 'ev, 'st) transaction_output list option" where
  "assemble_outputs bcs ex base_get wsm_new wsm_len wsm_squash wsm_freeze is_discarded m results =
     do { materialized_deltas \<leftarrow>
            resolve bcs ex m (aggregator_keys base_get (delta_keys results) []) (length results);
          sequence_opt (map (\<lambda>(res, delta_writes).
            output_with_delta_writes wsm_len wsm_squash wsm_freeze is_discarded res (wsm_new delta_writes))
            (zip results materialized_deltas)) }"

section \<open>The view satisfies the client contract\<close>

definition base_number :: "bcs_codec \<Rightarrow> ('k \<Rightarrow> (bytes option, 'er) result) \<Rightarrow> 'k \<Rightarrow> u128 option" where
  "base_number bcs base_get k = (case base_get k of Ok (Some bs) \<Rightarrow> deserialize bcs bs | _ \<Rightarrow> None)"

interpretation vv: state_client "versioned_get bcs base_get" "base_number bcs base_get" for bcs base_get
proof
  fix k d n
  assume "Option.bind (base_number bcs base_get k) (\<lambda>v. ok (apply_to d v)) = Some n"
  then show "versioned_get bcs base_get k (UnresolvedDelta d) = versioned_get bcs base_get k (U128 n)"
    by (auto simp: base_number_def versioned_get_def bind_eq_Some_conv ok_eq_Some split: result.splits option.splits)
qed

text \<open>
  C1. Parallel execution is serializable.  Take a block whose every transaction was executed, possibly
  against a changing store, whose captured reads all validate against the final store, and whose final
  store holds exactly the recorded outputs; versions identify values, deltas are applied to aggregator
  keys only and none fails in block order.  Then the result of the parallel executor is that of running
  the transactions one after the other: the same outputs up to the first transaction that skips the rest,
  padded with skip outputs, or the error of the first transaction that aborts.
\<close>

theorem parallel_equals_sequential:
  fixes outs :: "nat \<Rightarrow> ('t, 'e) execution_status"
  assumes vb: "validated_block bcs ex ops (versioned_get bcs base_get) vms m incs outs readss hist"
    and agg: "aggregators_ok bcs ex limit m"
    and nofail: "\<And>i k. i < length vms \<Longrightarrow> seq_state bcs ex (base_number bcs base_get) ops outs i k \<noteq> SFail"
    and io: "outputs io = map (\<lambda>i. Some (wrap_abort (outs i))) [0..<length vms]" "\<not> module_publishing_may_race io"
    and ne: "vms \<noteq> []"
  shows "\<exists>r. seq_block bcs ex (base_number bcs base_get) ops (versioned_get bcs base_get) (\<lambda>_. SBase) vms = Some r \<and>
     block_result ops (length vms) io =
       Some (map_ok (\<lambda>ts. ts @ replicate (length vms - length ts) (skip_output ops)) (wrap_result r))"
proof -
  have "seq_block bcs ex (base_number bcs base_get) ops (versioned_get bcs base_get) (\<lambda>_. SBase) vms =
      Some (settle (map outs [0..<length vms]))"
    using vv.seq_block_from[OF vb agg nofail, of 0] by simp
  moreover have "block_result ops (length vms) io =
      Some (map_ok (\<lambda>ts. ts @ replicate (length vms - length ts) (skip_output ops)) (wrap_result (settle (map outs [0..<length vms]))))"
    by (rule block_result_settle) (use io ne in auto)
  ultimately show ?thesis by blast
qed

subsection \<open>A concrete block\<close>

text \<open>Transaction 0 creates key 0; transaction 1 reads it and copies it to key 1.\<close>

definition demo_out_ops :: "((nat \<times> write_op) list, nat, write_op) output_ops" where
  "demo_out_ops = \<lparr>get_writes = id, get_deltas = (\<lambda>_. []), skip_output = []\<rparr>"

definition demo_vms :: "(nat, (bytes option, unit view_error) result, (nat \<times> write_op) list, unit) vm list" where
  "demo_vms =
     [Return (Success [(0, Creation [7])]),
      Read 0 (\<lambda>a. Return (case a of Ok (Some b) \<Rightarrow> Success [(1, Creation b)] | _ \<Rightarrow> Abort ()))]"

definition demo_block_store :: "(nat, write_op) mvhashmap" where
  "demo_block_store =
     [0 \<mapsto> [(0, new_write_from FLAG_DONE 0 (Creation [7]))], 1 \<mapsto> [(1, new_write_from FLAG_DONE 0 (Creation [7]))]]"

definition demo_outs :: "nat \<Rightarrow> ((nat \<times> write_op) list, unit) execution_status" where
  "demo_outs i = Success [(i, Creation [7])]"

definition demo_reads :: "nat \<Rightarrow> nat read_descriptor list" where
  "demo_reads i = (if i = 1 then [from_version 0 0 0] else [])"

definition demo_io :: "(nat, (nat \<times> write_op) list, unit, nat) last_io" where
  "demo_io = \<lparr>inputs = [Some [], Some [from_version 0 0 0]], outputs = [Some (Success [(0, Creation [7])]), Some (Success [(1, Creation [7])])],
     module_writes = {}, module_reads = {}, module_read_write_intersection = False\<rparr>"

lemma demo_store_entry:
  "mv_entry demo_block_store k i = (if k = i \<and> i < 2 then Some (new_write_from FLAG_DONE 0 (Creation [7])) else None)"
  by (auto simp: mv_entry_def demo_block_store_def tree_or_new_def)

lemma demo_store_block_wf: "mv_wf demo_block_store"
  by (auto simp: mv_wf_def demo_block_store_def bt_ok_def split: if_splits)

lemma demo_read: "mv_read bcs (\<lambda>_. None) demo_block_store 0 1 = Some (Ok (Version (0, 0) (Creation [7])))"
  by (simp add: mv_read_def demo_block_store_def bt_below_def new_write_from_def FLAG_DONE_def FLAG_ESTIMATE_def)

lemma demo_validated:
  "validated_block bcs_le128 (\<lambda>_. None) demo_out_ops (versioned_get bcs_le128 (\<lambda>_. Ok None :: (_, unit) result))
     demo_vms demo_block_store (\<lambda>_. 0) demo_outs demo_reads (\<lambda>_ _. Creation [7])"
proof -
  have ag: "agrees (\<lambda>_ _. Creation [7]) demo_block_store"
    by (auto simp: agrees_def demo_store_entry new_write_from_def split: if_splits)
  have ho: "holds_outputs demo_out_ops 2 (\<lambda>_. 0) demo_outs demo_block_store"
    by (auto simp: holds_outputs_def demo_store_entry out_entry_def demo_out_ops_def demo_outs_def)
  have rv: "reads_valid bcs_le128 (\<lambda>_. None) demo_block_store i (demo_reads i) = Some True" if "i < 2" for i
    using that demo_read[of bcs_le128]
    by (auto simp: demo_reads_def read_valid_def from_version_def validate_version_def)
  have run: "run_vm bcs_le128 (\<lambda>_. None) (versioned_get bcs_le128 (\<lambda>_. Ok None :: (_, unit) result)) (\<lambda>_. demo_block_store) i
      (demo_vms ! i) 0 [] = Some (demo_outs i, demo_reads i)" if "i < 2" for i
    using that demo_read[of bcs_le128]
    by (auto simp: less_2_cases_iff demo_vms_def demo_outs_def demo_reads_def view_read_def versioned_get_def)
  have "length demo_vms = 2" by (simp add: demo_vms_def)
  with ag ho rv run demo_store_block_wf show ?thesis
    unfolding validated_block_def by (metis (no_types, lifting))
qed

theorem parallel_equals_sequential_witness:
  "seq_block bcs_le128 (\<lambda>_. None) (\<lambda>_. None) demo_out_ops (versioned_get bcs_le128 (\<lambda>_. Ok None :: (_, unit) result)) (\<lambda>_. SBase) demo_vms =
     Some (Ok [[(0, Creation [7])], [(1, Creation [7])]]) \<and>
   block_result demo_out_ops 2 demo_io = Some (Ok [[(0, Creation [7])], [(1, Creation [7])]])"
proof -
  let ?bg = "\<lambda>_::nat. Ok None :: (bytes option, unit) result"
  have n: "length demo_vms = 2" by (simp add: demo_vms_def)
  have nb: "base_number bcs_le128 ?bg = (\<lambda>_. None)" by (simp add: base_number_def fun_eq_iff)
  have agg: "aggregators_ok bcs_le128 (\<lambda>_. None) (\<lambda>_. 0) demo_block_store"
    by (auto simp: aggregators_ok_def demo_block_store_def tree_or_new_def new_write_from_def split: if_splits option.splits)
  have upd: "seq_update bcs_le128 (\<lambda>_. None) (\<lambda>_. None) demo_out_ops (demo_outs i) S k = (if k = i then SVal (Creation [7]) else S k)" for i S k
    by (simp add: seq_update_def demo_outs_def demo_out_ops_def)
  have nf: "seq_state bcs_le128 (\<lambda>_. None) (base_number bcs_le128 ?bg) demo_out_ops demo_outs i k \<noteq> SFail" if "i < length demo_vms" for i k
    using that unfolding n nb by (auto simp: less_2_cases_iff upd split: if_splits)
  have sb: "seq_block bcs_le128 (\<lambda>_. None) (\<lambda>_. None) demo_out_ops (versioned_get bcs_le128 ?bg) (\<lambda>_. SBase) demo_vms =
     Some (Ok [[(0, Creation [7])], [(1, Creation [7])]])"
    by (simp add: demo_vms_def seq_update_def demo_out_ops_def versioned_get_def)
  have "\<exists>r. seq_block bcs_le128 (\<lambda>_. None) (base_number bcs_le128 ?bg) demo_out_ops (versioned_get bcs_le128 ?bg) (\<lambda>_. SBase) demo_vms = Some r \<and>
     block_result demo_out_ops (length demo_vms) demo_io =
       Some (map_ok (\<lambda>ts. ts @ replicate (length demo_vms - length ts) (skip_output demo_out_ops)) (wrap_result r))"
  proof (rule parallel_equals_sequential[OF demo_validated agg nf])
    show "outputs demo_io = map (\<lambda>i. Some (wrap_abort (demo_outs i))) [0..<length demo_vms]"
      by (simp add: demo_io_def demo_vms_def demo_outs_def numeral_2_eq_2)
    show "\<not> module_publishing_may_race demo_io" by (simp add: module_publishing_may_race_def demo_io_def)
    show "demo_vms \<noteq> []" by (simp add: demo_vms_def)
  qed
  with sb show ?thesis unfolding nb n by simp
qed

section \<open>Every delta of the block is materialised\<close>

lemma aggregator_keys_distinct:
  "distinct (map fst acc) \<Longrightarrow> distinct (map fst (aggregator_keys base_get keys acc))"
  by (induction keys arbitrary: acc) simp_all

lemma aggregator_keys_domain:
  "fst ` set (aggregator_keys base_get keys acc) = fst ` set acc \<union> set keys"
proof (induction keys arbitrary: acc)
  case (Cons key keys)
  then show ?case by (cases "key \<in> fst ` set acc") (simp_all add: insert_absorb)
qed simp

lemma aggregator_keys_value:
  "p \<in> set (aggregator_keys base_get keys acc) \<Longrightarrow> (\<And>q. q \<in> set acc \<Longrightarrow> snd q = base_get (fst q)) \<Longrightarrow>
   snd p = base_get (fst p)"
proof (induction keys arbitrary: acc)
  case (Cons key keys)
  show ?case
    by (rule Cons.IH[OF Cons.prems(1)[unfolded aggregator_keys.simps]])
      (auto split: if_splits dest: Cons.prems(2))
qed simp

lemma expected_write_keys:
  assumes "resolvable bcs ex m n key sv base" "mv_wf m"
  shows "map fst (expected_write bcs ex base key (tree_or_new m key) idx) =
     (if \<exists>e d. mv_entry m key idx = Some e \<and> cell e = Delta d then [key] else [])"
proof (cases "\<exists>e d. mv_entry m key idx = Some e \<and> cell e = Delta d")
  case True
  then obtain e d where e: "map_of (tree_or_new m key) idx = Some e" "cell e = Delta d" by (auto simp: mv_entry_def)
  from map_of_SomeD[OF e(1)] obtain p q where t: "tree_or_new m key = p @ (idx, e) # q" by (meson split_list)
  have ok: "bt_ok (p @ (idx, e) # q)" using mv_wf_tree[OF assms(2), of key] t by simp
  have nf: "key_history bcs ex base (p @ [(idx, e)]) \<noteq> KFail"
    using assms(1) t e(2) unfolding resolvable_def by (metis snd_conv)
  moreover have "key_history bcs ex base (p @ [(idx, e)]) = num_or_fail
      (Option.bind (key_value bcs ex base (key_history bcs ex base p)) (\<lambda>v. ok (apply_to d v)))"
    using e(2) by (simp add: key_history_snoc key_step_def)
  ultimately obtain n' where "key_history bcs ex base (p @ [(idx, e)]) = KNum n'"
    by (metis num_or_fail.elims)
  with e filter_le_prefix[OF ok] show ?thesis by (simp add: expected_write_def t mv_entry_def)
next
  case False
  then show ?thesis by (auto simp: expected_write_def mv_entry_def split: option.split entry_cell.split)
qed

lemma expected_writes_keys:
  assumes "\<And>key sv. (key, sv) \<in> set K \<Longrightarrow> resolvable bcs ex m n key sv (base key)" "mv_wf m"
  shows "map fst (concat (map (\<lambda>(key, sv). expected_write bcs ex (base key) key (tree_or_new m key) idx) K)) =
     filter (\<lambda>k. \<exists>e d. mv_entry m k idx = Some e \<and> cell e = Delta d) (map fst K)"
  using assms(1)
proof (induction K)
  case (Cons p K)
  obtain key sv where p: "p = (key, sv)" by fastforce
  from Cons.prems[of key sv] have R: "resolvable bcs ex m n key sv (base key)" by (simp add: p)
  from Cons.IH[OF Cons.prems] expected_write_keys[OF R assms(2), of idx] show ?case by (simp add: p)
qed simp

text \<open>
  The final assembly cannot trip over its own assertion.  If the store holds, at each transaction that
  kept its output, exactly the deltas of that output, and the deltas of the block do not fail in order,
  then the resolver returns and hands each transaction exactly one write per delta of its output: the
  length comparison in \<open>output_with_delta_writes\<close> holds for every transaction of the block.
\<close>

theorem deltas_fully_materialised:
  fixes m :: "('k::linorder, write_op) mvhashmap" and results :: "('k, 'ev, 'st) transaction_output_ext list"
  assumes codec: "codec_ok bcs" and wf: "mv_wf m"
    and own: "\<And>idx k. idx < length results \<Longrightarrow> ext_deltas (results ! idx) \<noteq> [] \<Longrightarrow>
       k \<in> fst ` set (ext_deltas (results ! idx)) \<longleftrightarrow> (\<exists>e d. mv_entry m k idx = Some e \<and> cell e = Delta d)"
    and bt: "\<And>res. res \<in> set results \<Longrightarrow> bt_ok (ext_deltas res)"
    and res: "\<And>k. k \<in> set (delta_keys results) \<Longrightarrow> resolvable bcs ex m (length results) k (base_get k) (base k)"
    and len: "\<And>ws. distinct (map fst ws) \<Longrightarrow> wsm_len (wsm_new ws) = length ws"
  shows "\<exists>ret. resolve bcs ex m (aggregator_keys base_get (delta_keys results) []) (length results) = Some ret \<and>
     length ret = length results \<and>
     (\<forall>idx < length results. ext_deltas (results ! idx) = [] \<or>
        fst ` set (ret ! idx) = fst ` set (ext_deltas (results ! idx)) \<and>
        dcs_len (ext_deltas (results ! idx)) = wsm_len (wsm_new (ret ! idx)))"
proof -
  let ?K = "aggregator_keys base_get (delta_keys results) []"
  have K: "distinct (map fst ?K)" by (rule aggregator_keys_distinct) simp
  have Kdom: "fst ` set ?K = set (delta_keys results)" by (simp add: aggregator_keys_domain)
  have Kval: "sv = base_get k" if "(k, sv) \<in> set ?K" for k sv
    using aggregator_keys_value[OF that] by simp
  have R: "resolvable bcs ex m (length results) k sv (base k)" if "(k, sv) \<in> set ?K" for k sv
    using res[of k] Kdom Kval[OF that] that by force
  have "\<exists>ret. resolve bcs ex m ?K (length results) = Some ret \<and> length ret = length results \<and>
      (\<forall>idx < length results. ret ! idx =
        concat (map (\<lambda>(key, sv). expected_write bcs ex (base key) key (tree_or_new m key) idx) ?K))"
    using resolve_keys_spec[where bcs = bcs and ex = ex and m = m and keys = ?K and base = base
        and ret = "replicate (length results) []", OF codec wf K] R by (simp add: resolve_def)
  then obtain ret where ret: "resolve bcs ex m ?K (length results) = Some ret" "length ret = length results"
    "\<And>idx. idx < length results \<Longrightarrow> ret ! idx =
        concat (map (\<lambda>(key, sv). expected_write bcs ex (base key) key (tree_or_new m key) idx) ?K)"
    by auto
  have keys: "map fst (ret ! idx) = filter (\<lambda>k. \<exists>e d. mv_entry m k idx = Some e \<and> cell e = Delta d) (map fst ?K)"
    if "idx < length results" for idx
    unfolding ret(3)[OF that] by (rule expected_writes_keys[OF R wf])
  have "fst ` set (ret ! idx) = fst ` set (ext_deltas (results ! idx)) \<and>
        dcs_len (ext_deltas (results ! idx)) = wsm_len (wsm_new (ret ! idx))"
    if i: "idx < length results" and ne: "ext_deltas (results ! idx) \<noteq> []" for idx
  proof -
    have sub: "fst ` set (ext_deltas (results ! idx)) \<subseteq> set (delta_keys results)"
      using nth_mem[OF i] by (auto simp: delta_keys_def)
    have "fst ` set (ret ! idx) = set (map fst (ret ! idx))" by simp
    also have "\<dots> = fst ` set (ext_deltas (results ! idx))"
      unfolding keys[OF i] using own[OF i ne] Kdom sub by auto
    finally have eq: "fst ` set (ret ! idx) = fst ` set (ext_deltas (results ! idx))" .
    have d: "distinct (map fst (ret ! idx))" unfolding keys[OF i] using K by simp
    have "length (ret ! idx) = length (ext_deltas (results ! idx))"
      using distinct_card[OF d] distinct_card[OF bt.ents_distinct[OF bt[of "results ! idx"]]] eq i by simp
    with eq len[OF d] show ?thesis by (simp add: dcs_len_def)
  qed
  with ret show ?thesis by blast
qed


definition demo_bytes :: "write_op \<Rightarrow> bytes option" where
  "demo_bytes w = (case w of Creation b \<Rightarrow> Some b | Modification b \<Rightarrow> Some b | Deletion \<Rightarrow> None)"

definition demo_delta_store :: "(nat, write_op) mvhashmap" where
  "demo_delta_store = [0 \<mapsto> [(0, new_write_from FLAG_DONE 0 (Creation (le_encode 16 10))),
                        (1, new_delta_from FLAG_DONE (delta_add 5 100))]]"

definition demo_results :: "(nat, unit, unit) transaction_output_ext list" where
  "demo_results = map (\<lambda>deltas. output_ext_new deltas
      \<lparr>out_write_set = [], out_events = [], out_gas_used = 0, out_status = ()\<rparr>) [[], [(0, delta_add 5 100)]]"

theorem deltas_fully_materialised_witness:
  "\<exists>ret. resolve bcs_le128 demo_bytes demo_delta_store
       (aggregator_keys (\<lambda>_. Ok None :: (bytes option, unit) result) (delta_keys demo_results) []) 2 = Some ret \<and>
     fst ` set (ret ! 1) = {0}"
proof -
  let ?get = "\<lambda>_::nat. Ok None :: (bytes option, unit) result"
  have t: "tree_or_new demo_delta_store 0 = [(0, new_write_from FLAG_DONE 0 (Creation (le_encode 16 10))),
                        (1, new_delta_from FLAG_DONE (delta_add 5 100))]"
    by (simp add: demo_delta_store_def tree_or_new_def)
  have n: "length demo_results = 2" and k: "delta_keys demo_results = [0]"
    by (simp_all add: demo_results_def output_ext_new_def delta_keys_def)
  have fw: "from_write bcs_le128 demo_bytes (Creation (le_encode 16 10)) = Some (Some 10)"
    using bcs_le128_simps(2)[of 10] by (simp add: from_write_def deserialize_def demo_bytes_def)
  have h: "key_history bcs_le128 demo_bytes None (tree_or_new demo_delta_store 0) = KNum 15"
    unfolding t by (simp add: key_history_def key_step_def new_write_from_def new_delta_from_def key_value_def fw
        delta_add_def delta_new_def apply_to_def addition_def subtraction_def)
  have "demo_delta_store 0 \<noteq> None" by (simp add: demo_delta_store_def)
  with h have r: "resolvable bcs_le128 demo_bytes demo_delta_store 2 0 (?get 0) None"
    unfolding resolvable_def t
    by (auto simp: storage_latest_def writes_decode_def new_write_from_def new_delta_from_def fw
        append_eq_Cons_conv Cons_eq_append_conv)
  have "\<exists>ret. resolve bcs_le128 demo_bytes demo_delta_store (aggregator_keys ?get (delta_keys demo_results) [])
       (length demo_results) = Some ret \<and> length ret = length demo_results \<and>
     (\<forall>idx < length demo_results. ext_deltas (demo_results ! idx) = [] \<or>
        fst ` set (ret ! idx) = fst ` set (ext_deltas (demo_results ! idx)) \<and>
        dcs_len (ext_deltas (demo_results ! idx)) = length (ret ! idx))"
  proof (rule deltas_fully_materialised[where base = "\<lambda>_. None" and wsm_len = length and wsm_new = "\<lambda>ws. ws"])
    show "codec_ok bcs_le128" unfolding codec_ok_def using bcs_le128_roundtrip by blast
    show "mv_wf demo_delta_store" by (auto simp: mv_wf_def demo_delta_store_def bt_ok_def)
    show "k \<in> fst ` set (ext_deltas (demo_results ! idx)) \<longleftrightarrow>
        (\<exists>e d. mv_entry demo_delta_store k idx = Some e \<and> cell e = Delta d)"
      if "idx < length demo_results" "ext_deltas (demo_results ! idx) \<noteq> []" for idx k
      using that unfolding n by (auto simp: demo_results_def output_ext_new_def less_2_cases_iff mv_entry_def
          tree_or_new_def demo_delta_store_def new_delta_from_def)
    show "bt_ok (ext_deltas res)" if "res \<in> set demo_results" for res
      using that by (auto simp: demo_results_def output_ext_new_def bt_ok_def)
    show "resolvable bcs_le128 demo_bytes demo_delta_store (length demo_results) k (?get k) None"
      if "k \<in> set (delta_keys demo_results)" for k
      using that r unfolding k n by simp
  qed simp
  moreover have "ext_deltas (demo_results ! 1) = [(0, delta_add 5 100)]" by (simp add: demo_results_def output_ext_new_def)
  ultimately show ?thesis unfolding n by (metis (no_types, lifting) fst_conv image_insert image_is_empty list.discI
        list.simps(15) list.set(1) one_less_numeral_iff semiring_norm(76))
qed

end
