(* ===== verification/Data_Cache.thy ===== *)
theory Data_Cache
  imports Agg_Transaction Programs
begin

text \<open>
  The views of the state that the VM layers over storage: the block cache \<open>StateViewCache\<close> and the
  \<open>StorageAdapter\<close> around a view, from \<^verbatim>\<open>aptos-vm/src/data_cache.rs\<close>, and the view of the epilogue,
  \<open>DeltaStateView\<close>, from \<^verbatim>\<open>aptos-vm/src/delta_state_view.rs\<close>.  A view is the function
  \<open>get_state_value\<close>; the storage below is a parameter.  The logging of failed reads is left out.
\<close>

section \<open>Definitions\<close>

type_synonym ('k, 'er) state_view = "'k \<Rightarrow> (bytes option, 'er) result"

record ('k, 'er) state_view_cache =
  data_view :: "('k, 'er) state_view"
  data_map :: "('k, bytes option) btree"

definition state_view_cache_new :: "('k, 'er) state_view \<Rightarrow> ('k, 'er) state_view_cache" where
  "state_view_cache_new view = \<lparr>data_view = view, data_map = []\<rparr>"

fun push_write_ops ::
  "('k::linorder \<times> write_op) list \<Rightarrow> ('k, bytes option) btree \<Rightarrow> ('k, bytes option) btree" where
  "push_write_ops [] m = m"
| "push_write_ops ((ap, write_op) # rest) m =
     push_write_ops rest
       (case write_op of
          Modification blob \<Rightarrow> bt_insert ap (Some blob) m
        | Creation blob \<Rightarrow> bt_insert ap (Some blob) m
        | Deletion \<Rightarrow> bt_insert ap None (bt_remove ap m))"

definition push_write_set ::
  "('k::linorder, 'er) state_view_cache \<Rightarrow> 'k write_set \<Rightarrow> ('k, 'er) state_view_cache" where
  "push_write_set self write_set = self\<lparr>data_map := push_write_ops write_set (data_map self)\<rparr>"

definition cache_get_state_value :: "('k, 'er) state_view_cache \<Rightarrow> ('k, 'er) state_view" where
  "cache_get_state_value self state_key =
     (case map_of (data_map self) state_key of
        Some opt_data \<Rightarrow> Ok opt_data
      | None \<Rightarrow> (case data_view self state_key of Ok remote_data \<Rightarrow> Ok remote_data | Err e \<Rightarrow> Err e))"

definition delta_view_get :: "('k, 'er) state_view \<Rightarrow> 'k write_set \<Rightarrow> ('k, 'er) state_view" where
  "delta_view_get base write_set state_key =
     (case map_of write_set state_key of
        Some (Creation data) \<Rightarrow> Ok (Some data)
      | Some (Modification data) \<Rightarrow> Ok (Some data)
      | Some Deletion \<Rightarrow> Ok None
      | None \<Rightarrow> base state_key)"

text \<open>
  \<open>StorageAdapter\<close>: the key constructors are those of the types crate; \<open>PartialVMError::new\<close> carries
  neither message nor sub-status.
\<close>

definition storage_get ::
  "('path \<Rightarrow> 'k) \<Rightarrow> ('k, 'er) state_view \<Rightarrow> 'path \<Rightarrow> (bytes option, partial_vm_error) result" where
  "storage_get access_path_key view access_path =
     map_err (\<lambda>_. \<lparr>major_status = STORAGE_ERROR, message = None, sub_status = None\<rparr>) (view (access_path_key access_path))"

definition get_module ::
  "('path \<Rightarrow> 'k) \<Rightarrow> ('module \<Rightarrow> 'path) \<Rightarrow> (partial_vm_error \<Rightarrow> 'vmerr) \<Rightarrow> ('k, 'er) state_view \<Rightarrow> 'module \<Rightarrow>
   (bytes option, 'vmerr) result" where
  "get_module access_path_key module_access_path finish view module_id =
     map_err finish (storage_get access_path_key view (module_access_path module_id))"

definition get_resource ::
  "('path \<Rightarrow> 'k) \<Rightarrow> ('addr \<Rightarrow> 'tag \<Rightarrow> 'path) \<Rightarrow> (partial_vm_error \<Rightarrow> 'vmerr) \<Rightarrow> ('k, 'er) state_view \<Rightarrow> 'addr \<Rightarrow> 'tag \<Rightarrow>
   (bytes option, 'vmerr) result" where
  "get_resource access_path_key create_access_path finish view address struct_tag =
     map_err finish (storage_get access_path_key view (create_access_path address struct_tag))"

definition resolve_table_entry ::
  "('handle \<Rightarrow> bytes \<Rightarrow> 'k) \<Rightarrow> ('k, 'er) state_view \<Rightarrow> 'handle \<Rightarrow> bytes \<Rightarrow> (bytes option, 'er) result" where
  "resolve_table_entry table_item view handle key = view (table_item handle key)"

definition fetch_config :: "('path \<Rightarrow> 'k) \<Rightarrow> ('k, 'er) state_view \<Rightarrow> 'path \<Rightarrow> bytes option" where
  "fetch_config access_path_key view access_path =
     Option.bind (ok (storage_get access_path_key view access_path)) id"

section \<open>Layers of writes\<close>

text \<open>The bytes a write leaves at its key.\<close>

fun written :: "write_op \<Rightarrow> bytes option" where
  "written (Creation data) = Some data"
| "written (Modification data) = Some data"
| "written Deletion = None"

text \<open>
  What a client of either view relies on: a layer of writes hides what is below exactly at its keys.
\<close>

locale state_layer =
  fixes get :: "'s \<Rightarrow> ('k::linorder, 'er) state_view"
    and put :: "'s \<Rightarrow> 'k write_set \<Rightarrow> 's"
  assumes get_put: "bt_ok ws \<Longrightarrow>
    get (put s ws) k = (case map_of ws k of Some op \<Rightarrow> Ok (written op) | None \<Rightarrow> get s k)"
begin

text \<open>The last layer that writes a key decides it.\<close>

lemma get_layers:
  "(\<And>ws. ws \<in> set wss \<Longrightarrow> bt_ok ws) \<Longrightarrow>
   get (foldl put s wss) k =
     (case map_of (concat (rev wss)) k of Some op \<Rightarrow> Ok (written op) | None \<Rightarrow> get s k)"
proof (induction wss rule: rev_induct)
  case (snoc ws wss)
  then show ?case by (simp add: get_put map_add_def split: option.split)
qed simp

text \<open>Layers whose keys are disjoint may be exchanged.\<close>

lemma layers_commute:
  assumes "bt_ok a" "bt_ok b" "fst ` set a \<inter> fst ` set b = {}"
  shows "get (put (put s a) b) k = get (put (put s b) a) k"
proof -
  have "map_of a k = None \<or> map_of b k = None"
    using assms(3) by (metis IntI domIff dom_map_of_conv_image_fst empty_iff)
  with assms(1,2) show ?thesis by (auto simp: get_put split: option.split)
qed

end

lemma map_of_push_write_ops:
  "distinct (map fst ws) \<Longrightarrow>
   map_of (push_write_ops ws m) k = (case map_of ws k of Some op \<Rightarrow> Some (written op) | None \<Rightarrow> map_of m k)"
proof (induction ws m rule: push_write_ops.induct)
  case (2 ap op rest m)
  let ?m = "case op of Modification blob \<Rightarrow> bt_insert ap (Some blob) m | Creation blob \<Rightarrow> bt_insert ap (Some blob) m
     | Deletion \<Rightarrow> bt_insert ap None (bt_remove ap m)"
  have m: "map_of ?m = (map_of m)(ap \<mapsto> written op)"
    by (cases op) (simp_all add: map_of_bt_insert map_of_bt_remove)
  have "map_of rest ap = None" using 2(2) by (simp add: map_of_eq_None_iff)
  with 2 m show ?case by (cases "k = ap") (simp_all split: option.split)
qed simp

lemma cache_get_push:
  assumes "bt_ok ws"
  shows "cache_get_state_value (push_write_set c ws) k =
     (case map_of ws k of Some op \<Rightarrow> Ok (written op) | None \<Rightarrow> cache_get_state_value c k)"
  using map_of_push_write_ops[OF bt.ents_distinct[OF assms], of "data_map c" k]
  by (simp add: cache_get_state_value_def push_write_set_def split: option.split)

lemma delta_view_layer:
  "delta_view_get base ws k = (case map_of ws k of Some op \<Rightarrow> Ok (written op) | None \<Rightarrow> base k)"
  by (simp add: delta_view_get_def split: option.split write_op.split)

interpretation cache: state_layer cache_get_state_value push_write_set
  by unfold_locales (rule cache_get_push)

interpretation dsv: state_layer "\<lambda>view. view" delta_view_get
  by unfold_locales (rule delta_view_layer)

lemma cache_get_new [simp]: "cache_get_state_value (state_view_cache_new view) = view"
  by (auto simp: cache_get_state_value_def state_view_cache_new_def fun_eq_iff split: result.split)

text \<open>The invariant of the cache: its table is ordered, and pushing a write set keeps it so.\<close>

lemma push_write_ops_ok: "bt_ok m \<Longrightarrow> bt_ok (push_write_ops ws m)"
  by (induction ws m rule: push_write_ops.induct)
    (auto simp: bt_ok_insert bt_ok_remove split: write_op.split)

text \<open>
  A cache that received the write sets of a block and a delta view stacked for each of them show the same
  state: the two layered views of the VM are interchangeable.
\<close>

lemma cache_is_stacked_views:
  assumes "\<And>ws. ws \<in> set wss \<Longrightarrow> bt_ok ws"
  shows "cache_get_state_value (foldl push_write_set (state_view_cache_new view) wss) = foldl delta_view_get view wss"
proof
  fix k
  show "cache_get_state_value (foldl push_write_set (state_view_cache_new view) wss) k = foldl delta_view_get view wss k"
    using cache.get_layers[OF assms, of wss "state_view_cache_new view" k] dsv.get_layers[OF assms, of wss view k]
    by (simp split: option.split)
qed

end
