(* ===== verification/Seq_Adapter.thy ===== *)
theory Seq_Adapter
  imports Parallel_VM Data_Cache
begin

text \<open>
  The sequential execution of a block and the entry points around it, from
  \<^verbatim>\<open>aptos-vm/src/adapter_common.rs\<close> (signature checks, validation, \<open>execute_block_impl\<close>),
  \<^verbatim>\<open>aptos-vm/src/aptos_vm.rs\<close> (\<open>execute_block\<close>, the concurrency level) and
  \<^verbatim>\<open>aptos-vm/src/parallel_executor/mod.rs\<close> (\<open>ParallelAptosVM::execute_block\<close> with its sequential
  fallback).  The trait \<open>VMAdapter\<close> is a record; what runs a single transaction is a program that reads the
  state (\<open>Programs\<close>).  The operations of the types crate (\<open>WriteSetMut\<close>, \<open>TransactionStatus\<close>, \<open>VMStatus\<close>)
  are the fields of a record as well.
\<close>

section \<open>Definitions\<close>

datatype ('signed, 'ws, 'meta, 'cp) transaction =
    Transaction_UserTransaction 'signed
  | Transaction_GenesisTransaction 'ws
  | Transaction_BlockMetadata 'meta
  | Transaction_StateCheckpoint 'cp

datatype ('checked, 'ws, 'meta) preprocessed_transaction =
    UserTransaction 'checked
  | WaypointWriteSet 'ws
  | BlockMetadata 'meta
  | InvalidSignature
  | StateCheckpoint

text \<open>\<open>anyhow::Error\<close> of a state read, as the two kinds of views produce it, is a \<open>view_error\<close>.\<close>

type_synonym ('k, 'er, 'r) vm_prog = "('k, (bytes option, 'er view_error) result, 'r) prog"

record ('signed, 'checked, 'ws, 'meta, 'sess, 'k, 'er, 'ev, 'st, 'vs) vm_adapter =
  check_signature :: "'signed \<Rightarrow> ('checked, unit) result"
  new_txn_session :: "'checked \<Rightarrow> 'sess"
  check_transaction_format :: "'checked \<Rightarrow> (unit, 'vs) result"
  run_prologue :: "'sess \<Rightarrow> 'checked \<Rightarrow> ('k, 'er, (unit, 'vs) result \<times> 'sess) vm_prog"
  adapter_should_restart :: "('k, 'ev, 'st) transaction_output \<Rightarrow> bool"
  execute_single_transaction ::
    "('checked, 'ws, 'meta) preprocessed_transaction \<Rightarrow>
     ('k, 'er, ('vs \<times> ('k, 'ev, 'st) transaction_output_ext \<times> string option, 'vs) result) vm_prog"

record ('k, 'st, 'vs, 'wsm, 'wsm2, 'e1, 'e2) types_ops =
  vm_status_error :: "status_code \<Rightarrow> 'vs"
  into_vm_status :: "partial_vm_error \<Rightarrow> 'vs"
  vm_status_code :: "'vs \<Rightarrow> status_code"
  wsm_new :: "('k \<times> write_op) list \<Rightarrow> 'wsm"
  wsm_len :: "'wsm \<Rightarrow> nat"
  wsm_squash :: "'k write_set \<Rightarrow> 'wsm \<Rightarrow> ('wsm2, 'e1) result"
  wsm_freeze :: "'wsm2 \<Rightarrow> ('k write_set, 'e2) result"
  status_is_discarded :: "'st \<Rightarrow> bool"
  status_retry :: 'st

definition preprocess_transaction ::
  "('signed, 'checked, 'ws, 'meta, 'sess, 'k, 'er, 'ev, 'st, 'vs) vm_adapter \<Rightarrow> ('signed, 'ws, 'meta, 'cp) transaction \<Rightarrow>
   ('checked, 'ws, 'meta) preprocessed_transaction" where
  "preprocess_transaction A txn =
     (case txn of
        Transaction_BlockMetadata b \<Rightarrow> BlockMetadata b
      | Transaction_GenesisTransaction ws \<Rightarrow> WaypointWriteSet ws
      | Transaction_UserTransaction txn \<Rightarrow>
          (case check_signature A txn of Ok checked_txn \<Rightarrow> UserTransaction checked_txn | Err _ \<Rightarrow> InvalidSignature)
      | Transaction_StateCheckpoint _ \<Rightarrow> StateCheckpoint)"

definition validate_signature_checked_transaction ::
  "('vs \<Rightarrow> status_code) \<Rightarrow> ('checked \<Rightarrow> (unit, 'vs) result) \<Rightarrow>
   ('sess \<Rightarrow> 'checked \<Rightarrow> ('k, 'er, (unit, 'vs) result \<times> 'sess) vm_prog) \<Rightarrow> 'sess \<Rightarrow> 'checked \<Rightarrow> bool \<Rightarrow>
   ('k, 'er, (unit, 'vs) result \<times> 'sess) vm_prog" where
  "validate_signature_checked_transaction code_of check_format prologue session transaction allow_too_new =
     (case check_format transaction of
        Err e \<Rightarrow> Return (Err e, session)
      | Ok _ \<Rightarrow>
          prog_map (\<lambda>(prologue_status, session').
              (case prologue_status of
                 Err err \<Rightarrow>
                   if \<not> allow_too_new \<or> code_of err \<noteq> SEQUENCE_NUMBER_TOO_NEW then Err err else Ok ()
               | Ok _ \<Rightarrow> Ok (), session'))
            (prologue session transaction))"

text \<open>\<open>VMValidatorResult\<close>: the status, if rejected, and the score.\<close>

definition validate_signed_transaction ::
  "('k, 'st, 'vs, 'wsm, 'wsm2, 'e1, 'e2) types_ops \<Rightarrow>
   ('signed, 'checked, 'ws, 'meta, 'sess, 'k, 'er, 'ev, 'st, 'vs) vm_adapter \<Rightarrow> ('checked \<Rightarrow> u64) \<Rightarrow> 'signed \<Rightarrow>
   ('k, 'er) state_view \<Rightarrow> (status_code option \<times> u64) option" where
  "validate_signed_transaction T A gas_unit_price transaction state_view =
     (case check_signature A transaction of
        Err _ \<Rightarrow> Some (Some INVALID_SIGNATURE, 0)
      | Ok txn \<Rightarrow>
          (let remote_cache = state_view_cache_new state_view
           in case run_prog (\<lambda>k. Some (map_err StateError (cache_get_state_value remote_cache k)))
                     (validate_signature_checked_transaction (vm_status_code T) (check_transaction_format A) (run_prologue A)
                       (new_txn_session A txn) txn True) of
                None \<Rightarrow> None
              | Some (Ok _, _) \<Rightarrow> Some (None, gas_unit_price txn)
              | Some (Err err, _) \<Rightarrow> Some (Some (vm_status_code T err), 0)))"

definition retry_output :: "'st \<Rightarrow> ('k, 'ev, 'st) transaction_output" where
  "retry_output retry = \<lparr>out_write_set = [], out_events = [], out_gas_used = 0, out_status = retry\<rparr>"

text \<open>
  The loop of \<open>execute_block_impl\<close>.  It returns the results and the cache as it is then; the outer option
  is a panic.
\<close>

fun execute_block_loop ::
  "bcs_codec \<Rightarrow> ('k::linorder, 'st, 'vs, 'wsm, 'wsm2, 'e1, 'e2) types_ops \<Rightarrow>
   ('signed, 'checked, 'ws, 'meta, 'sess, 'k, 'er, 'ev, 'st, 'vs) vm_adapter \<Rightarrow>
   ('checked, 'ws, 'meta) preprocessed_transaction list \<Rightarrow> ('k, 'er) state_view_cache \<Rightarrow> bool \<Rightarrow>
   ('vs \<times> ('k, 'ev, 'st) transaction_output) list \<Rightarrow>
   ((('vs \<times> ('k, 'ev, 'st) transaction_output) list, 'vs) result \<times> ('k, 'er) state_view_cache) option" where
  "execute_block_loop bcs T A [] data_cache should_restart result = Some (Ok result, data_cache)"
| "execute_block_loop bcs T A (txn # txns) data_cache should_restart result =
     (if should_restart then
        execute_block_loop bcs T A txns data_cache should_restart
          (result @ [(vm_status_error T UNKNOWN_STATUS, retry_output (status_retry T))])
      else
        (case run_prog (\<lambda>k. Some (map_err StateError (cache_get_state_value data_cache k))) (execute_single_transaction A txn) of
           None \<Rightarrow> None
         | Some (Err e) \<Rightarrow> Some (Err e, data_cache)
         | Some (Ok (vm_status, output_ext, sender)) \<Rightarrow>
             (case into_transaction_output bcs (vm_status_error T) (into_vm_status T) (wsm_new T) (wsm_squash T) (wsm_freeze T)
                     (status_is_discarded T) output_ext (cache_get_state_value data_cache) of
                None \<Rightarrow> None
              | Some output \<Rightarrow>
                  execute_block_loop bcs T A txns
                    (if \<not> status_is_discarded T (out_status output) then push_write_set data_cache (out_write_set output)
                     else data_cache)
                    (adapter_should_restart A output) (result @ [(vm_status, output)]))))"

definition execute_block_impl ::
  "bcs_codec \<Rightarrow> ('k::linorder, 'st, 'vs, 'wsm, 'wsm2, 'e1, 'e2) types_ops \<Rightarrow>
   ('signed, 'checked, 'ws, 'meta, 'sess, 'k, 'er, 'ev, 'st, 'vs) vm_adapter \<Rightarrow>
   ('signed, 'ws, 'meta, 'cp) transaction list \<Rightarrow> ('k, 'er) state_view_cache \<Rightarrow>
   ((('vs \<times> ('k, 'ev, 'st) transaction_output) list, 'vs) result \<times> ('k, 'er) state_view_cache) option" where
  "execute_block_impl bcs T A transactions data_cache =
     execute_block_loop bcs T A (map (preprocess_transaction A) transactions) data_cache False []"

text \<open>The VM created for the block reads its configuration from the (empty) cache: the adapter \<open>A\<close> is that VM.\<close>

definition execute_block_and_keep_vm_status ::
  "bcs_codec \<Rightarrow> ('k::linorder, 'st, 'vs, 'wsm, 'wsm2, 'e1, 'e2) types_ops \<Rightarrow>
   ('signed, 'checked, 'ws, 'meta, 'sess, 'k, 'er, 'ev, 'st, 'vs) vm_adapter \<Rightarrow>
   ('signed, 'ws, 'meta, 'cp) transaction list \<Rightarrow> ('k, 'er) state_view \<Rightarrow>
   (('vs \<times> ('k, 'ev, 'st) transaction_output) list, 'vs) result option" where
  "execute_block_and_keep_vm_status bcs T A transactions state_view =
     map_option fst (execute_block_impl bcs T A transactions (state_view_cache_new state_view))"

text \<open>
  What \<open>ExecutorTask::execute_transaction\<close> runs for a transaction: \<open>execute_single_transaction\<close> and the
  classification of its result.
\<close>

definition vm_task ::
  "('ev \<Rightarrow> 'ek) \<Rightarrow> 'ek \<Rightarrow> ('signed, 'checked, 'ws, 'meta, 'sess, 'k, 'er, 'ev, 'st, 'vs) vm_adapter \<Rightarrow>
   ('checked, 'ws, 'meta) preprocessed_transaction \<Rightarrow>
   ('k, (bytes option, 'er view_error) result, ('k, 'ev, 'st) transaction_output_ext, 'vs) vm" where
  "vm_task event_key new_epoch_event_key A txn =
     prog_map (\<lambda>r. execute_transaction event_key new_epoch_event_key (map_ok (\<lambda>(vm_status, output_ext, sender). output_ext) r))
       (execute_single_transaction A txn)"

text \<open>
  \<open>ParallelAptosVM::execute_block\<close>, given the recorded outputs and the store that the parallel executor
  leaves for the preprocessed block.
\<close>

definition parallel_execute_block ::
  "bcs_codec \<Rightarrow> (write_op \<Rightarrow> bytes option) \<Rightarrow> ('k::linorder, 'st, 'vs, 'wsm, 'wsm2, 'e1, 'e2) types_ops \<Rightarrow>
   ('signed, 'checked, 'ws, 'meta, 'sess, 'k, 'er, 'ev, 'st, 'vs) vm_adapter \<Rightarrow>
   ('k, ('k, 'ev, 'st) transaction_output_ext, 'vs, 'p) last_io \<Rightarrow> ('k, write_op) mvhashmap \<Rightarrow>
   ('signed, 'ws, 'meta, 'cp) transaction list \<Rightarrow> ('k, 'er) state_view \<Rightarrow>
   (('k, 'ev, 'st) transaction_output list \<times> 'vs par_error option, 'vs) result option" where
  "parallel_execute_block bcs ex T A io m transactions state_view =
     (case block_result (aptos_ops (status_retry T)) (length transactions) io of
        None \<Rightarrow> None
      | Some (Ok results) \<Rightarrow>
          map_option (\<lambda>outputs. Ok (outputs, None))
            (assemble_outputs bcs ex state_view (wsm_new T) (wsm_len T) (wsm_squash T) (wsm_freeze T) (status_is_discarded T) m results)
      | Some (Err ModulePathReadWrite) \<Rightarrow>
          map_option (map_ok (\<lambda>output. (map snd output, Some ModulePathReadWrite)))
            (execute_block_and_keep_vm_status bcs T A transactions state_view)
      | Some (Err InvariantViolation) \<Rightarrow> Some (Err (vm_status_error T UNKNOWN_INVARIANT_VIOLATION_ERROR))
      | Some (Err (UserError err)) \<Rightarrow> Some (Err err))"

text \<open>
  The concurrency level is a \<open>OnceCell\<close>: only the first call of the setter has an effect.
\<close>

definition set_concurrency_level_once :: "nat \<Rightarrow> nat \<Rightarrow> nat option \<Rightarrow> nat option" where
  "set_concurrency_level_once num_cpus concurrency_level level_cell =
     (case level_cell of None \<Rightarrow> Some (min concurrency_level num_cpus) | Some v \<Rightarrow> Some v)"

definition get_concurrency_level :: "nat option \<Rightarrow> nat" where
  "get_concurrency_level level_cell = (case level_cell of Some concurrency_level \<Rightarrow> concurrency_level | None \<Rightarrow> 1)"

definition execute_block ::
  "bcs_codec \<Rightarrow> (write_op \<Rightarrow> bytes option) \<Rightarrow> ('k::linorder, 'st, 'vs, 'wsm, 'wsm2, 'e1, 'e2) types_ops \<Rightarrow>
   ('signed, 'checked, 'ws, 'meta, 'sess, 'k, 'er, 'ev, 'st, 'vs) vm_adapter \<Rightarrow> nat option \<Rightarrow>
   ('k, ('k, 'ev, 'st) transaction_output_ext, 'vs, 'p) last_io \<Rightarrow> ('k, write_op) mvhashmap \<Rightarrow>
   ('signed, 'ws, 'meta, 'cp) transaction list \<Rightarrow> ('k, 'er) state_view \<Rightarrow>
   (('k, 'ev, 'st) transaction_output list, 'vs) result option" where
  "execute_block bcs ex T A level_cell io m transactions state_view =
     (if get_concurrency_level level_cell > 1 then
        map_option (map_ok fst) (parallel_execute_block bcs ex T A io m transactions state_view)
      else
        map_option (map_ok (map snd)) (execute_block_and_keep_vm_status bcs T A transactions state_view))"

section \<open>The sequential loop settles the reference execution\<close>

text \<open>
  What the loop relies on in the types crate: a \<open>WriteSetMut\<close> built from distinct keys has as many entries,
  and squashing it onto a write set with other keys and freezing the result adds its entries.
\<close>

definition write_set_laws :: "('k::linorder, 'st, 'vs, 'wsm, 'wsm2, 'e1, 'e2) types_ops \<Rightarrow> bool" where
  "write_set_laws T \<longleftrightarrow>
     (\<forall>ws ds. bt_ok ws \<and> distinct (map fst ds) \<and> fst ` set ws \<inter> fst ` set ds = {} \<longrightarrow>
        wsm_len T (wsm_new T ds) = length ds \<and>
        (\<exists>w. wsm_squash T ws (wsm_new T ds) = Ok w \<and> wsm_freeze T w = Ok (bt_collect ds ws)))"

text \<open>What the adapter relies on in an output of the VM; a discarded output has no effect.\<close>

definition output_wf :: "('st \<Rightarrow> bool) \<Rightarrow> ('k::linorder, 'ev, 'st) transaction_output_ext \<Rightarrow> bool" where
  "output_wf is_discarded t \<longleftrightarrow>
     bt_ok (ext_deltas t) \<and> bt_ok (out_write_set (ext_output t)) \<and>
     fst ` set (out_write_set (ext_output t)) \<inter> fst ` set (ext_deltas t) = {} \<and>
     (is_discarded (out_status (ext_output t)) \<longrightarrow> ext_deltas t = [] \<and> out_write_set (ext_output t) = [])"

text \<open>The stored bytes of a key in a state of the reference execution.\<close>

definition seq_view :: "bcs_codec \<Rightarrow> ('k, 'er) state_view \<Rightarrow> ('k \<Rightarrow> write_op seq_value) \<Rightarrow> ('k, 'er) state_view" where
  "seq_view bcs base_get S k =
     (case S k of SBase \<Rightarrow> base_get k | SVal v \<Rightarrow> Ok (written v) | SNum n \<Rightarrow> Ok (serialize bcs n) | SFail \<Rightarrow> base_get k)"

definition cache_rel :: "bcs_codec \<Rightarrow> ('k, 'er) state_view \<Rightarrow> ('k \<Rightarrow> write_op seq_value) \<Rightarrow> ('k, 'er) state_view_cache \<Rightarrow> bool" where
  "cache_rel bcs base_get S cache \<longleftrightarrow> (\<forall>k. S k \<noteq> SFail \<and> cache_get_state_value cache k = seq_view bcs base_get S k)"

text \<open>The deltas of an output as writes, in a state; and the plain output made of it.\<close>

definition delta_result :: "bcs_codec \<Rightarrow> (write_op \<Rightarrow> bytes option) \<Rightarrow> ('k \<Rightarrow> u128 option) \<Rightarrow> ('k \<Rightarrow> write_op seq_value) \<Rightarrow> 'k \<Rightarrow> delta_op \<Rightarrow> u128 option" where
  "delta_result bcs ex base S k d = Option.bind (seq_number bcs ex (base k) (S k)) (\<lambda>v. ok (apply_to d v))"

definition delta_writes_in ::
  "bcs_codec \<Rightarrow> (write_op \<Rightarrow> bytes option) \<Rightarrow> ('k \<Rightarrow> u128 option) \<Rightarrow> ('k \<Rightarrow> write_op seq_value) \<Rightarrow> 'k delta_change_set \<Rightarrow> ('k \<times> write_op) list" where
  "delta_writes_in bcs ex base S ds =
     map (\<lambda>(k, d). (k, Modification (the (serialize bcs (the (delta_result bcs ex base S k d)))))) ds"

definition final_output ::
  "bcs_codec \<Rightarrow> (write_op \<Rightarrow> bytes option) \<Rightarrow> ('k::linorder \<Rightarrow> u128 option) \<Rightarrow> ('k \<Rightarrow> write_op seq_value) \<Rightarrow>
   ('k, 'ev, 'st) transaction_output_ext \<Rightarrow> ('k, 'ev, 'st) transaction_output" where
  "final_output bcs ex base S t =
     (ext_output t)\<lparr>out_write_set := bt_collect (delta_writes_in bcs ex base S (ext_deltas t)) (out_write_set (ext_output t))\<rparr>"

text \<open>The outputs of a block, from the statuses of its transactions in the reference execution.\<close>

fun block_outputs ::
  "bcs_codec \<Rightarrow> (write_op \<Rightarrow> bytes option) \<Rightarrow> ('k::linorder \<Rightarrow> u128 option) \<Rightarrow> 'st \<Rightarrow> ('k \<Rightarrow> write_op seq_value) \<Rightarrow>
   (('k, 'ev, 'st) transaction_output_ext, 'vs) execution_status list \<Rightarrow>
   (('k, 'ev, 'st) transaction_output list, 'vs) result" where
  "block_outputs bcs ex base retry S [] = Ok []"
| "block_outputs bcs ex base retry S (Success t # ss) =
     map_ok ((#) (final_output bcs ex base S t))
       (block_outputs bcs ex base retry (seq_update bcs ex base (aptos_ops retry) (Success t :: (_, 'vs) execution_status) S) ss)"
| "block_outputs bcs ex base retry S (SkipRest t # ss) =
     Ok (final_output bcs ex base S t # replicate (length ss) (retry_output retry))"
| "block_outputs bcs ex base retry S (Abort e # ss) = Err e"

lemma aptos_ops_sel [simp]:
  "get_writes (aptos_ops retry) t = out_write_set (ext_output t)" "get_deltas (aptos_ops retry) t = ext_deltas t"
  by (simp_all add: aptos_ops_def)

lemma seq_update_output:
  "seq_update bcs ex base (aptos_ops retry) (Success t :: (_, 'vs) execution_status) S k =
     (case map_of (ext_deltas t) k of
        Some d \<Rightarrow> (case delta_result bcs ex base S k d of Some n \<Rightarrow> SNum n | None \<Rightarrow> SFail)
      | None \<Rightarrow> (case map_of (out_write_set (ext_output t)) k of Some v \<Rightarrow> SVal v | None \<Rightarrow> S k))"
  by (simp add: seq_update_def delta_result_def split: option.split)

lemma map_of_delta_writes:
  "map_of (delta_writes_in bcs ex base S ds) k =
     map_option (\<lambda>d. Modification (the (serialize bcs (the (delta_result bcs ex base S k d))))) (map_of ds k)"
  unfolding delta_writes_in_def by (induction ds) auto

lemma fst_delta_writes: "map fst (delta_writes_in bcs ex base S ds) = map fst ds"
  unfolding delta_writes_in_def by (induction ds) auto

text \<open>A number of the reference state is stored in the view.\<close>

lemma seq_number_view:
  assumes "codec_ok bcs" "ex = written" "seq_number bcs ex (base_number bcs base_get k) (S k) = Some v"
  shows "\<exists>bs. seq_view bcs base_get S k = Ok (Some bs) \<and> deserialize bcs bs = Some v"
proof (cases "S k")
  case SBase
  with assms(3) show ?thesis
    by (auto simp: seq_number_def seq_view_def base_number_def split: result.splits option.splits)
next
  case (SVal w)
  with assms(2,3) show ?thesis
    by (auto simp: seq_number_def seq_view_def from_write_def bind_eq_Some_conv split: option.splits)
next
  case (SNum n)
  obtain bs where bs: "to_bytes bcs n = Some bs" "from_bytes bcs bs = Some n"
    using assms(1) unfolding codec_ok_def by blast
  with SNum assms(3) show ?thesis by (simp add: seq_number_def seq_view_def serialize_def deserialize_def)
next
  case SFail
  with assms(3) show ?thesis by (simp add: seq_number_def)
qed

lemma try_into_write_op_in:
  assumes "codec_ok bcs" "ex = written" "view = seq_view bcs base_get S"
    and "delta_result bcs ex (base_number bcs base_get) S k d = Some n"
  shows "try_into_write_op bcs vm_error into_status d view k = Some (Ok (Modification (the (serialize bcs n))))"
proof -
  from assms(4) obtain v where v: "seq_number bcs ex (base_number bcs base_get k) (S k) = Some v" "apply_to d v = Ok n"
    by (auto simp: delta_result_def bind_eq_Some_conv ok_eq_Some)
  from seq_number_view[where S = S and k = k, OF assms(1,2) v(1)] obtain bs where bs: "view k = Ok (Some bs)" "deserialize bcs bs = Some v"
    unfolding assms(3) by blast
  have "serialize bcs n \<noteq> None" unfolding serialize_def by (rule codec_ok_total[OF assms(1)])
  with v(2) bs show ?thesis by (auto simp: try_into_write_op_def)
qed

lemma materialize_in:
  assumes "codec_ok bcs" "ex = written" "view = seq_view bcs base_get S"
    and "\<And>k d. (k, d) \<in> set ds \<Longrightarrow> delta_result bcs ex (base_number bcs base_get) S k d \<noteq> None"
  shows "materialize_loop (\<lambda>key d. try_into_write_op bcs vm_error into_status d view key) ds acc =
     Some (Ok (acc @ delta_writes_in bcs ex (base_number bcs base_get) S ds))"
  using assms(4)
proof (induction ds arbitrary: acc)
  case Nil
  then show ?case by (simp add: delta_writes_in_def)
next
  case (Cons x ds)
  obtain k d where x: "x = (k, d)" by fastforce
  from Cons.prems[of k d] obtain n where n: "delta_result bcs ex (base_number bcs base_get) S k d = Some n" by (auto simp: x)
  from Cons.IH[OF Cons.prems] try_into_write_op_in[OF assms(1-3) n, of vm_error into_status] n show ?case
    by (simp add: x delta_writes_in_def)
qed

text \<open>One output, applied to the cache.\<close>

lemma output_in_cache:
  fixes t :: "('k::linorder, 'ev, 'st) transaction_output_ext" and bcs ex base_get
  defines "U \<equiv> \<lambda>retry S. seq_update bcs ex (base_number bcs base_get) (aptos_ops retry) (Success t :: (_, 'vs) execution_status) S"
  assumes hyps: "codec_ok bcs" "ex = written" "write_set_laws T" and wf: "output_wf (status_is_discarded T) t"
    and rel: "cache_rel bcs base_get S cache" and nofail: "\<And>k. U retry S k \<noteq> SFail"
  shows "into_transaction_output bcs (vm_status_error T) (into_vm_status T) (wsm_new T) (wsm_squash T) (wsm_freeze T)
       (status_is_discarded T) t (cache_get_state_value cache) = Some (final_output bcs ex (base_number bcs base_get) S t)"
    and "cache_rel bcs base_get (U retry S)
       (if \<not> status_is_discarded T (out_status (ext_output t))
        then push_write_set cache (out_write_set (final_output bcs ex (base_number bcs base_get) S t)) else cache)"
proof -
  let ?base = "base_number bcs base_get" and ?o = "ext_output t" and ?ds = "ext_deltas t"
  let ?dw = "delta_writes_in bcs ex ?base S ?ds"
  have view: "cache_get_state_value cache = seq_view bcs base_get S" using rel by (auto simp: cache_rel_def)
  have ok: "bt_ok ?ds" "bt_ok (out_write_set ?o)" "fst ` set (out_write_set ?o) \<inter> fst ` set ?ds = {}"
    using wf by (auto simp: output_wf_def)
  have some: "delta_result bcs ex ?base S k d \<noteq> None" if "(k, d) \<in> set ?ds" for k d
    using nofail[of k] bt.get_iff_ents[OF ok(1), of k d] that
    by (auto simp: U_def seq_update_output split: option.splits)
  have dw: "distinct (map fst ?dw)" "fst ` set ?dw = fst ` set ?ds"
    using bt.ents_distinct[OF ok(1)] by (simp_all add: fst_delta_writes) (metis fst_delta_writes image_set)
  have "try_into_write_set_mut bcs (vm_status_error T) (into_vm_status T) (wsm_new T) ?ds (cache_get_state_value cache) =
      Some (Ok (wsm_new T ?dw))"
    using materialize_in[where S = S and acc = "[]" and ds = ?ds
        and vm_error = "vm_status_error T" and into_status = "into_vm_status T", OF hyps(1,2) view some]
    by (simp add: try_into_write_set_mut_def)
  moreover obtain w where "wsm_squash T (out_write_set ?o) (wsm_new T ?dw) = Ok w" "wsm_freeze T w = Ok (bt_collect ?dw (out_write_set ?o))"
    using hyps(3) ok(2,3) dw unfolding write_set_laws_def by metis
  moreover have "final_output bcs ex ?base S t = ?o" if "?ds = []"
    using that by (simp add: final_output_def delta_writes_in_def)
  ultimately show "into_transaction_output bcs (vm_status_error T) (into_vm_status T) (wsm_new T) (wsm_squash T) (wsm_freeze T)
       (status_is_discarded T) t (cache_get_state_value cache) = Some (final_output bcs ex ?base S t)"
    using wf by (auto simp: into_transaction_output_def output_ext_into_def dcs_is_empty_def merge_delta_writes_def
        final_output_def output_wf_def)
  have okc: "bt_ok (bt_collect ?dw (out_write_set ?o))" by (rule bt_ok_collect[OF ok(2)])
  have ser: "serialize bcs n = Some (the (serialize bcs n))" for n
    using codec_ok_total[OF hyps(1), of n] by (simp add: serialize_def)
  show "cache_rel bcs base_get (U retry S)
       (if \<not> status_is_discarded T (out_status ?o)
        then push_write_set cache (out_write_set (final_output bcs ex ?base S t)) else cache)"
    unfolding cache_rel_def
  proof (intro allI conjI nofail)
    fix k
    have m: "map_of (bt_collect ?dw (out_write_set ?o)) k =
       (case map_of ?ds k of
          Some d \<Rightarrow> Some (Modification (the (serialize bcs (the (delta_result bcs ex ?base S k d)))))
        | None \<Rightarrow> map_of (out_write_set ?o) k)"
      by (simp add: map_of_collect_distinct[OF dw(1)] map_add_def map_of_delta_writes split: option.split)
    show "cache_get_state_value (if \<not> status_is_discarded T (out_status ?o)
        then push_write_set cache (out_write_set (final_output bcs ex ?base S t)) else cache) k = seq_view bcs base_get (U retry S) k"
    proof (cases "status_is_discarded T (out_status ?o)")
      case True
      with wf have "U retry S k = S k" by (simp add: U_def seq_update_output output_wf_def)
      with True show ?thesis by (simp add: view seq_view_def)
    next
      case False
      have "delta_result bcs ex ?base S k d \<noteq> None" if "map_of ?ds k = Some d" for d
        using some that map_of_SomeD by fast
      with False show ?thesis
        using ser by (auto simp: cache_get_push[OF okc] final_output_def m view seq_view_def U_def seq_update_output split: option.split)
    qed
  qed
qed

lemma seq_answer_view:
  assumes "codec_ok bcs" "S k \<noteq> SFail"
  shows "versioned_get bcs base_get k (seq_answer (S k)) = Some (map_err StateError (seq_view bcs base_get S k))"
proof -
  have "map_option (\<lambda>bs. Ok (Some bs)) (serialize bcs n) = Some (Ok (serialize bcs n))" for n
    using codec_ok_total[OF assms(1), of n] by (cases "serialize bcs n") (simp_all add: serialize_def)
  then show ?thesis
    using assms(2)
    by (cases "S k") (auto simp: versioned_get_def seq_view_def split: write_op.split)
qed

lemma task_in_cache:
  assumes codec: "codec_ok bcs" and rel: "cache_rel bcs base_get S cache"
    and st: "seq_vm (versioned_get bcs base_get) S (vm_task event_key new_epoch A txn) = Some status"
  obtains r where "run_prog (\<lambda>k. Some (map_err StateError (cache_get_state_value cache k))) (execute_single_transaction A txn) = Some r"
    "status = execute_transaction event_key new_epoch (map_ok (\<lambda>(vm_status, output_ext, sender). output_ext) r)"
proof -
  have "versioned_get bcs base_get k (seq_answer (S k)) = Some (map_err StateError (cache_get_state_value cache k))" for k
    using seq_answer_view[OF codec, of S k base_get] rel by (simp add: cache_rel_def)
  then have "run_prog (\<lambda>k. Some (map_err StateError (cache_get_state_value cache k))) (vm_task event_key new_epoch A txn) = Some status"
    using run_prog_cong[where f = "\<lambda>k. versioned_get bcs base_get k (seq_answer (S k))" and p = "vm_task event_key new_epoch A txn"
        and g = "\<lambda>k. Some (map_err StateError (cache_get_state_value cache k))"] st unfolding seq_vm_def by simp
  with that show ?thesis by (auto simp: vm_task_def)
qed

lemma execute_block_loop_restart:
  "execute_block_loop bcs T A txns cache True acc =
     Some (Ok (acc @ replicate (length txns) (vm_status_error T UNKNOWN_STATUS, retry_output (status_retry T))), cache)"
  by (induction txns arbitrary: acc) simp_all

lemma final_output_sel [simp]:
  "out_status (final_output bcs ex base S t) = out_status (ext_output t)"
  "should_restart_execution event_key new_epoch (final_output bcs ex base S t) = should_restart_execution event_key new_epoch (ext_output t)"
  by (simp_all add: final_output_def should_restart_execution_def)

definition vm_outputs_wf ::
  "('k::linorder, 'st, 'vs, 'wsm, 'wsm2, 'e1, 'e2) types_ops \<Rightarrow>
   ('signed, 'checked, 'ws, 'meta, 'sess, 'k, 'er, 'ev, 'st, 'vs) vm_adapter \<Rightarrow> ('checked, 'ws, 'meta) preprocessed_transaction list \<Rightarrow> bool" where
  "vm_outputs_wf T A txns \<longleftrightarrow> (\<forall>txn \<in> set txns. returns (\<lambda>r. \<forall>vm_status t sender. r = Ok (vm_status, t, sender) \<longrightarrow>
     output_wf (status_is_discarded T) t) (execute_single_transaction A txn))"

lemma execute_block_loop_from:
  fixes outs :: "nat \<Rightarrow> (('k::linorder, 'ev, 'st) transaction_output_ext, 'vs) execution_status"
  defines "S \<equiv> \<lambda>T bcs ex base_get. seq_state bcs ex (base_number bcs base_get) (aptos_ops (status_retry T)) outs"
  assumes hyps: "codec_ok bcs" "ex = written" "write_set_laws T" "vm_outputs_wf T A txns"
    and aptos: "adapter_should_restart A = should_restart_execution event_key new_epoch"
    and st: "\<And>j. j < length txns \<Longrightarrow>
        seq_vm (versioned_get bcs base_get) (S T bcs ex base_get j) (vm_task event_key new_epoch A (txns ! j)) = Some (outs j)"
    and nofail: "\<And>j k. j \<le> length txns \<Longrightarrow> S T bcs ex base_get j k \<noteq> SFail"
    and rel: "cache_rel bcs base_get (S T bcs ex base_get i) cache" and i: "i \<le> length txns"
  shows "\<exists>r cache'. execute_block_loop bcs T A (drop i txns) cache False acc = Some (r, cache') \<and>
     map_ok (map snd) r = map_ok ((@) (map snd acc))
       (block_outputs bcs ex (base_number bcs base_get) (status_retry T) (S T bcs ex base_get i) (map outs [i..<length txns]))"
  using i rel
proof (induction "length txns - i" arbitrary: i cache acc)
  case 0
  then show ?case by simp
next
  case (Suc x)
  let ?S = "S T bcs ex base_get" and ?base = "base_number bcs base_get"
  have i: "i < length txns" using Suc.hyps(2) by simp
  have d: "drop i txns = txns ! i # drop (Suc i) txns" using i by (simp add: Cons_nth_drop_Suc)
  have u: "[i..<length txns] = i # [Suc i..<length txns]" using i by (simp add: upt_conv_Cons)
  from task_in_cache[OF hyps(1) Suc.prems(2) st[OF i]] obtain r where
    r: "run_prog (\<lambda>k. Some (map_err StateError (cache_get_state_value cache k))) (execute_single_transaction A (txns ! i)) = Some r"
      "outs i = execute_transaction event_key new_epoch (map_ok (\<lambda>(vm_status, output_ext, sender). output_ext) r)" .
  show ?case
  proof (cases r)
    case (Err e)
    with r show ?thesis by (simp add: d u execute_transaction_def)
  next
    case (Ok y)
    obtain vs t sender where y: "y = (vs, t, sender)" by (cases y) auto
    have wf: "output_wf (status_is_discarded T) t"
      using run_returns[OF r(1)] hyps(4) nth_mem[OF i] unfolding vm_outputs_wf_def Ok y by blast
    let ?c = "if \<not> status_is_discarded T (out_status (ext_output t))
        then push_write_set cache (out_write_set (final_output bcs ex ?base (?S i) t)) else cache"
    have upd: "seq_update bcs ex ?base (aptos_ops (status_retry T)) (Success t :: (_, 'vs) execution_status) (?S i) = ?S (Suc i)"
      using r(2) by (auto simp: S_def Ok y execute_transaction_def seq_update_def fun_eq_iff)
    have nf: "seq_update bcs ex ?base (aptos_ops (status_retry T)) (Success t :: (_, 'vs) execution_status) (?S i) k \<noteq> SFail" for k
      unfolding upd using nofail[of "Suc i" k] i by simp
    note out = output_in_cache[OF hyps(1-3) wf Suc.prems(2) nf]
    show ?thesis
    proof (cases "should_restart_execution event_key new_epoch (ext_output t)")
      case True
      with r out(1) show ?thesis
        by (simp add: d u Ok y aptos execute_transaction_def execute_block_loop_restart)
    next
      case False
      have "x = length txns - Suc i" "Suc i \<le> length txns" using Suc.hyps(2) i by simp_all
      from Suc.hyps(1)[OF this out(2)[unfolded upd], where acc = "acc @ [(vs, final_output bcs ex ?base (?S i) t)]"]
      obtain r' cache' where ih: "execute_block_loop bcs T A (drop (Suc i) txns) ?c False (acc @ [(vs, final_output bcs ex ?base (?S i) t)]) = Some (r', cache')"
        "map_ok (map snd) r' = map_ok ((@) (map snd acc @ [final_output bcs ex ?base (?S i) t]))
          (block_outputs bcs ex ?base (status_retry T) (?S (Suc i)) (map outs [Suc i..<length txns]))"
        unfolding map_append list.map snd_conv by blast
      have oi: "outs i = Success t" using r(2) False by (simp add: Ok y execute_transaction_def)
      have "map_ok (map snd) r' = map_ok ((@) (map snd acc)) (block_outputs bcs ex ?base (status_retry T) (?S i) (map outs [i..<length txns]))"
        unfolding ih(2) u list.map oi block_outputs.simps upd
        by (cases "block_outputs bcs ex ?base (status_retry T) (?S (Suc i)) (map outs [Suc i..<length txns])") simp_all
      with ih(1) r(1) out(1) False show ?thesis by (simp add: d Ok y aptos)
    qed
  qed
qed

section \<open>The parallel assembly produces the same outputs\<close>

text \<open>Lists of at most one entry per key, put together.\<close>

lemma map_of_concat_entries:
  "map_of (concat (map (\<lambda>(k, sv). case g k of Some w \<Rightarrow> [(k, w)] | None \<Rightarrow> []) K)) k =
     (if k \<in> fst ` set K then g k else None)"
  by (induction K) (auto simp: map_add_def split: option.splits)

lemma distinct_concat_entries:
  "distinct (map fst K) \<Longrightarrow>
   distinct (map fst (concat (map (\<lambda>(k, sv). case g k of Some w \<Rightarrow> [(k, w)] | None \<Rightarrow> []) K)))"
  by (induction K) (auto split: option.splits, force)

text \<open>What transaction \<open>idx\<close> does to a key by a delta.\<close>

definition delta_at :: "(('k, 'ev, 'st) transaction_output_ext, 'vs) execution_status \<Rightarrow> 'k \<Rightarrow> delta_op option" where
  "delta_at status k = Option.bind (status_output status) (\<lambda>t. map_of (ext_deltas t) k)"

definition stored_numbers :: "bcs_codec \<Rightarrow> ('k, 'er) state_view \<Rightarrow> 'k set \<Rightarrow> bool" where
  "stored_numbers bcs base_get K \<longleftrightarrow> (\<forall>k \<in> K. \<forall>bs. base_get k = Ok (Some bs) \<longrightarrow> deserialize bcs bs \<noteq> None)"

lemma history_upto:
  assumes "mv_wf m" "holds_outputs ops n incs outs m" "idx < n"
  shows "abs_state (key_history bcs ex (base k) (filter (\<lambda>x. fst x \<le> idx) (tree_or_new m k))) =
     seq_state bcs ex base ops outs (Suc idx) k"
  using history_is_seq_state[OF assms(1,2), of "Suc idx" bcs ex base k] assms(3)
  by (simp add: bt_below_def less_Suc_eq_le)

lemma expected_write_delta:
  fixes outs :: "nat \<Rightarrow> (('k::linorder, 'ev, 'st) transaction_output_ext, 'vs) execution_status"
  assumes m: "mv_wf m" "holds_outputs (aptos_ops retry) n incs outs m" and idx: "idx < n"
    and nofail: "seq_state bcs ex base (aptos_ops retry) outs (Suc idx) k \<noteq> SFail"
  shows "expected_write bcs ex (base k) k (tree_or_new m k) idx =
     (case map_option (\<lambda>d. Modification (the (serialize bcs (the (delta_result bcs ex base
            (seq_state bcs ex base (aptos_ops retry) outs idx) k d))))) (delta_at (outs idx) k) of
        Some w \<Rightarrow> [(k, w)] | None \<Rightarrow> [])"
proof -
  let ?h = "key_history bcs ex (base k) (filter (\<lambda>x. fst x \<le> idx) (tree_or_new m k))"
  have e: "map_of (tree_or_new m k) idx = out_entry (aptos_ops retry) (incs idx) (outs idx) k"
    using m(2) idx by (simp add: holds_outputs_def mv_entry_def)
  have abs: "abs_state ?h = seq_state bcs ex base (aptos_ops retry) outs (Suc idx) k" by (rule history_upto[OF m idx])
  show ?thesis
  proof (cases "delta_at (outs idx) k")
    case None
    with e show ?thesis
      by (auto simp: expected_write_def delta_at_def out_entry_def new_write_from_def bind_eq_None_conv split: option.splits)
  next
    case (Some d)
    then obtain t where t: "status_output (outs idx) = Some t" "map_of (ext_deltas t) k = Some d"
      by (auto simp: delta_at_def bind_eq_Some_conv)
    then have s: "seq_state bcs ex base (aptos_ops retry) outs (Suc idx) k =
        (case delta_result bcs ex base (seq_state bcs ex base (aptos_ops retry) outs idx) k d of Some n \<Rightarrow> SNum n | None \<Rightarrow> SFail)"
      by (simp add: seq_update_def delta_result_def)
    with nofail obtain v where v: "delta_result bcs ex base (seq_state bcs ex base (aptos_ops retry) outs idx) k d = Some v"
      by (auto split: option.splits)
    with abs s have "?h = KNum v" by (cases ?h) auto
    with e t v Some show ?thesis by (simp add: expected_write_def out_entry_def new_delta_from_def)
  qed
qed

lemma delta_keys_resolvable:
  fixes outs :: "nat \<Rightarrow> (('k::linorder, 'ev, 'st) transaction_output_ext, 'vs) execution_status"
  assumes m: "mv_wf m" "holds_outputs (aptos_ops retry) n incs outs m" and agg: "aggregators_ok bcs ex limit m"
    and nofail: "\<And>i k. i \<le> n \<Longrightarrow> seq_state bcs ex (base_number bcs base_get) (aptos_ops retry) outs i k \<noteq> SFail"
    and idx: "idx < n" "delta_at (outs idx) k = Some d" and st: "stored_numbers bcs base_get {k}"
  shows "resolvable bcs ex m n k (base_get k) (base_number bcs base_get k)"
proof -
  let ?t = "tree_or_new m k"
  from idx have e: "map_of ?t idx = Some (new_delta_from FLAG_DONE d)"
    using m(2) by (auto simp: holds_outputs_def mv_entry_def out_entry_def delta_at_def bind_eq_Some_conv)
  then have "m k \<noteq> None" by (auto simp: tree_or_new_def split: option.splits)
  moreover have "aggregator_entries bcs ex (limit k) ?t"
    using agg map_of_SomeD[OF e] unfolding aggregators_ok_def new_delta_from_def by force
  then have "writes_decode bcs ex ?t" by (force simp: aggregator_entries_def writes_decode_def)
  moreover have "fst x < n" if "x \<in> set ?t" for x
    using m(2) bt.get_iff_ents[OF mv_wf_tree[OF m(1)], of k "fst x" "snd x"] that
    by (auto simp: holds_outputs_def mv_entry_def split: if_splits)
  moreover have "key_history bcs ex (base_number bcs base_get k) (p @ [x]) \<noteq> KFail" if t: "?t = p @ x # q" for p x q
  proof -
    obtain i e where x: "x = (i, e)" by fastforce
    have "i < n" using \<open>\<And>x. x \<in> set ?t \<Longrightarrow> fst x < n\<close>[of x] t x by simp
    have "filter (\<lambda>x. fst x \<le> i) ?t = p @ [x]"
      using filter_le_prefix[of p i e q] mv_wf_tree[OF m(1), of k] by (simp add: t x)
    then have "abs_state (key_history bcs ex (base_number bcs base_get k) (p @ [x])) =
        seq_state bcs ex (base_number bcs base_get) (aptos_ops retry) outs (Suc i) k"
      using history_upto[OF m \<open>i < n\<close>, where bcs = bcs and ex = ex and base = "base_number bcs base_get" and k = k] by simp
    with nofail[of "Suc i" k] \<open>i < n\<close> show ?thesis by (metis Suc_leI abs_state.simps(4))
  qed
  moreover have "storage_latest bcs (base_get k) = Some (base_number bcs base_get k)"
    using st by (auto simp: stored_numbers_def storage_latest_def base_number_def split: result.split option.split)
  ultimately show ?thesis by (simp add: resolvable_def)
qed

text \<open>The outputs of the reference, by position.\<close>

lemma block_outputs_nth:
  fixes outs :: "nat \<Rightarrow> (('k::linorder, 'ev, 'st) transaction_output_ext, 'vs) execution_status"
  assumes "settle (map outs [i..<n]) = Ok ts" "i \<le> n"
  shows "block_outputs bcs ex base retry (seq_state bcs ex base (aptos_ops retry) outs i) (map outs [i..<n]) =
       Ok (map (\<lambda>j. final_output bcs ex base (seq_state bcs ex base (aptos_ops retry) outs (i + j)) (ts ! j)) [0..<length ts] @
           replicate (n - i - length ts) (retry_output retry))"
    and "\<forall>j < length ts. status_output (outs (i + j)) = Some (ts ! j)" and "i + length ts \<le> n"
proof -
  have "block_outputs bcs ex base retry (seq_state bcs ex base (aptos_ops retry) outs i) (map outs [i..<n]) =
       Ok (map (\<lambda>j. final_output bcs ex base (seq_state bcs ex base (aptos_ops retry) outs (i + j)) (ts ! j)) [0..<length ts] @
           replicate (n - i - length ts) (retry_output retry)) \<and>
     (\<forall>j < length ts. status_output (outs (i + j)) = Some (ts ! j)) \<and> i + length ts \<le> n"
    using assms
  proof (induction "n - i" arbitrary: i ts)
    case 0
    then show ?case by simp
  next
    case (Suc x)
    let ?S = "seq_state bcs ex base (aptos_ops retry) outs"
    have i: "i < n" using Suc.hyps(2) by simp
    then have u: "[i..<n] = i # [Suc i..<n]" by (simp add: upt_conv_Cons)
    show ?case
    proof (cases "outs i")
      case (Success t)
      with Suc.prems(1) obtain ts' where ts': "settle (map outs [Suc i..<n]) = Ok ts'" "ts = t # ts'"
        by (auto simp: u map_ok_eq_Ok)
      have upd: "seq_update bcs ex base (aptos_ops retry) (Success t :: (_, 'vs) execution_status) (?S i) = ?S (Suc i)"
        using Success by simp
      have ih: "block_outputs bcs ex base retry (?S (Suc i)) (map outs [Suc i..<n]) =
           Ok (map (\<lambda>j. final_output bcs ex base (?S (Suc i + j)) (ts' ! j)) [0..<length ts'] @
               replicate (n - Suc i - length ts') (retry_output retry))"
        "\<forall>j < length ts'. status_output (outs (Suc i + j)) = Some (ts' ! j)" "Suc i + length ts' \<le> n"
        using Suc.hyps(1)[of "Suc i", OF _ ts'(1)] Suc.hyps(2) i by simp_all
      have "map (\<lambda>j. final_output bcs ex base (?S (i + j)) (ts ! j)) [0..<length ts] =
          final_output bcs ex base (?S i) t # map (\<lambda>j. final_output bcs ex base (?S (Suc i + j)) (ts' ! j)) [0..<length ts']"
        unfolding ts'(2) length_Cons upt_conv_Cons[OF zero_less_Suc] map_Suc_upt[symmetric] by simp
      moreover have "\<forall>j < length ts. status_output (outs (i + j)) = Some (ts ! j)"
        using ih(2) Success by (auto simp: ts'(2) nth_Cons split: nat.split)
      ultimately show ?thesis
        using ih(1,3) by (simp add: u Success upd ts'(2) del: seq_state.simps)
    next
      case (SkipRest t)
      with Suc.prems(1) have "ts = [t]" by (simp add: u)
      with SkipRest i show ?thesis by (simp add: u)
    next
      case (Abort e)
      with Suc.prems(1) show ?thesis by (simp add: u)
    qed
  qed
  then show "block_outputs bcs ex base retry (seq_state bcs ex base (aptos_ops retry) outs i) (map outs [i..<n]) =
       Ok (map (\<lambda>j. final_output bcs ex base (seq_state bcs ex base (aptos_ops retry) outs (i + j)) (ts ! j)) [0..<length ts] @
           replicate (n - i - length ts) (retry_output retry))"
    and "\<forall>j < length ts. status_output (outs (i + j)) = Some (ts ! j)" and "i + length ts \<le> n" by blast+
qed

lemma block_outputs_Err:
  "settle ss = Err e \<Longrightarrow> block_outputs bcs ex base retry S ss = Err e"
  by (induction bcs ex base retry S ss rule: block_outputs.induct) (auto simp: map_ok_eq_Err)

lemma sequence_opt_map: "(\<And>x. x \<in> set xs \<Longrightarrow> f x = Some (g x)) \<Longrightarrow> sequence_opt (map f xs) = Some (map g xs)"
  by (induction xs) auto

text \<open>One output, with the writes that the resolver hands it.\<close>

lemma output_with_resolved:
  assumes "write_set_laws T" and wf: "output_wf (status_is_discarded T) t"
    and dw: "distinct (map fst dw)" "map_of dw = map_of (delta_writes_in bcs ex base S (ext_deltas t))"
  shows "output_with_delta_writes (wsm_len T) (wsm_squash T) (wsm_freeze T) (status_is_discarded T) t (wsm_new T dw) =
     Some (final_output bcs ex base S t)"
proof -
  let ?d = "delta_writes_in bcs ex base S (ext_deltas t)" and ?w = "out_write_set (ext_output t)"
  have ok: "bt_ok (ext_deltas t)" "bt_ok ?w" "fst ` set ?w \<inter> fst ` set (ext_deltas t) = {}" using wf by (auto simp: output_wf_def)
  have dd: "distinct (map fst ?d)" using bt.ents_distinct[OF ok(1)] by (simp add: fst_delta_writes)
  have keys: "fst ` set dw = fst ` set (ext_deltas t)"
    using dw(2) fst_delta_writes[of bcs ex base S "ext_deltas t"] by (metis dom_map_of_conv_image_fst image_set)
  have "length dw = length (ext_deltas t)"
    using distinct_card[OF dw(1)] distinct_card[OF bt.ents_distinct[OF ok(1)]] keys by simp
  moreover have "bt_collect dw ?w = bt_collect ?d ?w"
    by (rule bt_ext) (simp_all add: bt_ok_collect ok map_of_collect_distinct dw dd)
  moreover obtain w where "wsm_len T (wsm_new T dw) = length dw"
    "wsm_squash T ?w (wsm_new T dw) = Ok w" "wsm_freeze T w = Ok (bt_collect dw ?w)"
    using assms(1) ok(2,3) dw(1) keys unfolding write_set_laws_def by metis
  moreover have "final_output bcs ex base S t = ext_output t" if "ext_deltas t = []"
    using that by (simp add: final_output_def delta_writes_in_def)
  ultimately show ?thesis
    using wf by (auto simp: output_with_delta_writes_def output_ext_into_def dcs_is_empty_def dcs_len_def merge_delta_writes_def
        final_output_def output_wf_def)
qed

lemma skip_output_resolved:
  "output_with_delta_writes wlen wsquash wfreeze is_discarded (skip_output (aptos_ops retry)) dw = Some (retry_output retry)"
  by (simp add: output_with_delta_writes_def output_ext_into_def aptos_ops_def output_ext_from_def dcs_empty_def
      dcs_is_empty_def retry_output_def)

lemma skip_no_deltas [simp]: "ext_deltas (skip_output (aptos_ops retry)) = []"
  by (simp add: aptos_ops_def output_ext_from_def dcs_empty_def)

text \<open>The resolver on the delta keys of the results: each transaction receives its own deltas as writes.\<close>

lemma resolve_block:
  fixes outs :: "nat \<Rightarrow> (('k::linorder, 'ev, 'st) transaction_output_ext, 'vs) execution_status"
    and base_get :: "('k, 'er) state_view"
  assumes codec: "codec_ok bcs" and m: "mv_wf m" "holds_outputs (aptos_ops retry) n incs outs m" and agg: "aggregators_ok bcs ex limit m"
    and nofail: "\<And>i k. i \<le> n \<Longrightarrow> seq_state bcs ex (base_number bcs base_get) (aptos_ops retry) outs i k \<noteq> SFail"
    and stored: "stored_numbers bcs base_get {k. \<exists>i < n. delta_at (outs i) k \<noteq> None}"
    and keys: "set keys \<subseteq> {k. \<exists>i < n. delta_at (outs i) k \<noteq> None}"
  shows "\<exists>ret. resolve bcs ex m (aggregator_keys base_get keys []) n = Some ret \<and> length ret = n \<and>
     (\<forall>j < n. distinct (map fst (ret ! j)) \<and>
        (\<forall>k. map_of (ret ! j) k = (if k \<in> set keys then map_option (\<lambda>d. Modification (the (serialize bcs
           (the (delta_result bcs ex (base_number bcs base_get) (seq_state bcs ex (base_number bcs base_get) (aptos_ops retry) outs j) k d)))))
           (delta_at (outs j) k) else None)))"
proof -
  let ?base = "base_number bcs base_get" and ?K = "aggregator_keys base_get keys []"
  let ?S = "seq_state bcs ex ?base (aptos_ops retry) outs"
  let ?g = "\<lambda>j k. map_option (\<lambda>d. Modification (the (serialize bcs (the (delta_result bcs ex ?base (?S j) k d))))) (delta_at (outs j) k)"
  have K: "distinct (map fst ?K)" by (rule aggregator_keys_distinct) simp
  have Kdom: "fst ` set ?K = set keys" by (simp add: aggregator_keys_domain)
  have R: "resolvable bcs ex m n k sv (?base k)" if "(k, sv) \<in> set ?K" for k sv
  proof -
    have sv: "sv = base_get k" using aggregator_keys_value[OF that] by simp
    have "k \<in> set keys" using that Kdom by force
    then obtain j d where j: "j < n" "delta_at (outs j) k = Some d" using keys by blast
    moreover from this have "stored_numbers bcs base_get {k}" using stored unfolding stored_numbers_def by blast
    ultimately show ?thesis unfolding sv using delta_keys_resolvable[OF m agg nofail] by blast
  qed
  have "\<exists>ret. resolve bcs ex m ?K n = Some ret \<and> length ret = n \<and> (\<forall>idx < n. ret ! idx =
      concat (map (\<lambda>(key, sv). expected_write bcs ex (?base key) key (tree_or_new m key) idx) ?K))"
    using resolve_keys_spec[where bcs = bcs and ex = ex and m = m and keys = ?K and base = ?base
        and ret = "replicate n []", OF codec m(1) K] R by (simp add: resolve_def)
  then obtain ret where ret: "resolve bcs ex m ?K n = Some ret" "length ret = n"
    "\<And>idx. idx < n \<Longrightarrow> ret ! idx = concat (map (\<lambda>(key, sv). expected_write bcs ex (?base key) key (tree_or_new m key) idx) ?K)"
    by auto
  have entries: "ret ! j = concat (map (\<lambda>(k, sv). case ?g j k of Some w \<Rightarrow> [(k, w)] | None \<Rightarrow> []) ?K)" if "j < n" for j
    unfolding ret(3)[OF that] using expected_write_delta[OF m that nofail] that by simp
  have "distinct (map fst (ret ! j))" "map_of (ret ! j) k = (if k \<in> set keys then ?g j k else None)" if "j < n" for j k
    unfolding entries[OF that] map_of_concat_entries[of "?g j"] Kdom by (rule distinct_concat_entries[OF K, of "?g j"] refl)+
  with ret show ?thesis by blast
qed

lemma assemble_is_sequential:
  fixes outs :: "nat \<Rightarrow> (('k::linorder, 'ev, 'st) transaction_output_ext, 'vs) execution_status"
    and T :: "('k, 'st, 'vs, 'wsm, 'wsm2, 'e1, 'e2) types_ops"
  assumes codec: "codec_ok bcs" and laws: "write_set_laws T"
    and m: "mv_wf m" "holds_outputs (aptos_ops (status_retry T)) n incs outs m" and agg: "aggregators_ok bcs ex limit m"
    and nofail: "\<And>i k. i \<le> n \<Longrightarrow> seq_state bcs ex (base_number bcs base_get) (aptos_ops (status_retry T)) outs i k \<noteq> SFail"
    and stored: "stored_numbers bcs base_get {k. \<exists>i < n. delta_at (outs i) k \<noteq> None}"
    and wf: "\<And>i t. i < n \<Longrightarrow> status_output (outs i) = Some t \<Longrightarrow> output_wf (status_is_discarded T) t"
    and ts: "settle (map outs [0..<n]) = Ok ts"
  shows "map_option Ok (assemble_outputs bcs ex base_get (wsm_new T) (wsm_len T) (wsm_squash T) (wsm_freeze T) (status_is_discarded T) m
       (ts @ replicate (n - length ts) (skip_output (aptos_ops (status_retry T))))) =
     Some (block_outputs bcs ex (base_number bcs base_get) (status_retry T) (\<lambda>_. SBase) (map outs [0..<n]))"
proof -
  let ?base = "base_number bcs base_get" and ?S = "seq_state bcs ex (base_number bcs base_get) (aptos_ops (status_retry T)) outs"
  let ?results = "ts @ replicate (n - length ts) (skip_output (aptos_ops (status_retry T)))"
  note nth1 = block_outputs_nth(1)[OF ts, where bcs = bcs and ex = ex and base = ?base and retry = "status_retry T", simplified]
  note nth2 = block_outputs_nth(2)[OF ts, simplified] and nth3 = block_outputs_nth(3)[OF ts, simplified]
  have at: "delta_at (outs j) k = map_of (ext_deltas (ts ! j)) k" if "j < length ts" for j k
    using nth2 that by (simp add: delta_at_def)
  have keys: "set (delta_keys ?results) = {k. \<exists>j < length ts. delta_at (outs j) k \<noteq> None}"
  proof -
    have "set (delta_keys ?results) = (\<Union>j < length ts. fst ` set (ext_deltas (ts ! j)))"
      by (auto simp: delta_keys_def set_conv_nth[of ts])
    moreover have "k \<in> fst ` set (ext_deltas (ts ! j)) \<longleftrightarrow> delta_at (outs j) k \<noteq> None" if "j < length ts" for j k
      unfolding at[OF that] by (simp add: map_of_eq_None_iff)
    then have "(\<Union>j < length ts. fst ` set (ext_deltas (ts ! j))) = {k. \<exists>j < length ts. delta_at (outs j) k \<noteq> None}"
      by blast
    ultimately show ?thesis by (rule trans)
  qed
  have sub: "set (delta_keys ?results) \<subseteq> {k. \<exists>i < n. delta_at (outs i) k \<noteq> None}"
    unfolding keys using nth3 less_le_trans by blast
  from resolve_block[where outs = outs and retry = "status_retry T", OF codec m agg nofail stored sub]
  obtain ret where ret: "resolve bcs ex m (aggregator_keys base_get (delta_keys ?results) []) n = Some ret" "length ret = n"
    "\<And>j. j < n \<Longrightarrow> distinct (map fst (ret ! j))"
    "\<And>j k. j < n \<Longrightarrow> map_of (ret ! j) k = (if k \<in> set (delta_keys ?results) then map_option (\<lambda>d. Modification (the (serialize bcs
         (the (delta_result bcs ex ?base (?S j) k d))))) (delta_at (outs j) k) else None)"
    by blast
  let ?owd = "\<lambda>(res, dw). output_with_delta_writes (wsm_len T) (wsm_squash T) (wsm_freeze T) (status_is_discarded T) res (wsm_new T dw)"
  define out where "out j = (if j < length ts then final_output bcs ex ?base (?S j) (ts ! j) else retry_output (status_retry T))" for j
  have one: "?owd (?results ! j, ret ! j) = Some (out j)" if j: "j < n" for j
  proof (cases "j < length ts")
    case True
    have "map_of (ret ! j) k = map_of (delta_writes_in bcs ex ?base (?S j) (ext_deltas (ts ! j))) k" for k
      unfolding ret(4)[OF j] map_of_delta_writes keys at[OF True, symmetric]
      using True by (cases "delta_at (outs j) k") auto
    then have eq: "map_of (ret ! j) = map_of (delta_writes_in bcs ex ?base (?S j) (ext_deltas (ts ! j)))" ..
    have "output_wf (status_is_discarded T) (ts ! j)" using wf[OF j] nth2 True by simp
    from output_with_resolved[OF laws this ret(3)[OF j] eq] True show ?thesis by (simp add: out_def nth_append)
  next
    case False
    with j nth3 show ?thesis by (simp add: out_def nth_append skip_output_resolved)
  qed
  have "zip ?results ret = map (\<lambda>j. (?results ! j, ret ! j)) [0..<n]"
    using nth3 ret(2) by (intro nth_equalityI) simp_all
  then have "sequence_opt (map ?owd (zip ?results ret)) = Some (map out [0..<n])"
    using sequence_opt_map[of "[0..<n]" "\<lambda>j. ?owd (?results ! j, ret ! j)" out] one by (simp add: comp_def)
  moreover have "map out [0..<n] = map (\<lambda>j. final_output bcs ex ?base (?S j) (ts ! j)) [0..<length ts] @
      replicate (n - length ts) (retry_output (status_retry T))"
    using nth3 by (intro nth_equalityI) (simp_all add: out_def nth_append)
  ultimately show ?thesis using ret(1) nth1 nth3 by (simp add: assemble_outputs_def)
qed

section \<open>Both executors of a block agree\<close>

lemma vm_task_wf:
  assumes "vm_outputs_wf T A txns" "txn \<in> set txns" "seq_vm client S (vm_task event_key new_epoch A txn) = Some status" "status_output status = Some t"
  shows "output_wf (status_is_discarded T) t"
proof -
  from assms(3) obtain r where r: "run_prog (\<lambda>key. client key (seq_answer (S key))) (execute_single_transaction A txn) = Some r"
    "status = execute_transaction event_key new_epoch (map_ok (\<lambda>(vm_status, output_ext, sender). output_ext) r)"
    by (auto simp: seq_vm_def vm_task_def)
  from r(2) assms(4) obtain vs sender where "r = Ok (vs, t, sender)"
    by (cases r) (auto simp: execute_transaction_def split: if_splits)
  then show ?thesis using run_returns[OF r(1)] assms(1,2) unfolding vm_outputs_wf_def by blast
qed

text \<open>What the parallel executor leaves behind for a block of the Move VM.\<close>

definition executed_block ::
  "bcs_codec \<Rightarrow> (write_op \<Rightarrow> bytes option) \<Rightarrow> ('k::linorder, 'st, 'vs, 'wsm, 'wsm2, 'e1, 'e2) types_ops \<Rightarrow>
   ('signed, 'checked, 'ws, 'meta, 'sess, 'k, 'er, 'ev, 'st, 'vs) vm_adapter \<Rightarrow> ('ev \<Rightarrow> 'ek) \<Rightarrow> 'ek \<Rightarrow> ('k, 'er) state_view \<Rightarrow>
   ('signed, 'ws, 'meta, 'cp) transaction list \<Rightarrow> ('k, write_op) mvhashmap \<Rightarrow> (nat \<Rightarrow> incarnation) \<Rightarrow>
   (nat \<Rightarrow> (('k, 'ev, 'st) transaction_output_ext, 'vs) execution_status) \<Rightarrow> (nat \<Rightarrow> 'k read_descriptor list) \<Rightarrow>
   ('k \<Rightarrow> version \<Rightarrow> write_op) \<Rightarrow> ('k, ('k, 'ev, 'st) transaction_output_ext, 'vs, 'p) last_io \<Rightarrow> bool" where
  "executed_block bcs ex T A event_key new_epoch state_view transactions m incs outs readss hist io \<longleftrightarrow>
     validated_block bcs ex (aptos_ops (status_retry T)) (versioned_get bcs state_view)
       (map (\<lambda>txn. vm_task event_key new_epoch A (preprocess_transaction A txn)) transactions) m incs outs readss hist \<and>
     outputs io = map (\<lambda>i. Some (wrap_abort (outs i))) [0..<length transactions]"

text \<open>
  C2. The two executors of a block agree, down to the bytes of the write sets.  Take the Move VM as an
  adapter whose outputs are well formed, a block that the parallel executor executed and validated, deltas
  on aggregator keys only that do not fail in block order, and the documented laws of the types crate.
  Then \<open>execute_block\<close> returns, and its outputs, including the materialised deltas, the retries after a
  reconfiguration, and the error of an aborting transaction, are those of the sequential
  \<open>execute_block_impl\<close>, at every concurrency level and also when the parallel run detected a module
  publishing race and fell back.
\<close>

theorem parallel_block_is_sequential_block:
  fixes T :: "('k::linorder, 'st, 'vs, 'wsm, 'wsm2, 'e1, 'e2) types_ops"
    and A :: "('signed, 'checked, 'ws, 'meta, 'sess, 'k, 'er, 'ev, 'st, 'vs) vm_adapter"
    and outs :: "nat \<Rightarrow> (('k, 'ev, 'st) transaction_output_ext, 'vs) execution_status"
  assumes codec: "codec_ok bcs" and ex: "ex = written" and laws: "write_set_laws T"
    and wf: "vm_outputs_wf T A (map (preprocess_transaction A) transactions)"
    and aptos: "adapter_should_restart A = should_restart_execution event_key new_epoch"
    and eb: "executed_block bcs ex T A event_key new_epoch state_view transactions m incs outs readss hist io"
    and agg: "aggregators_ok bcs ex limit m"
    and nofail: "\<And>i k. i \<le> length transactions \<Longrightarrow>
        seq_state bcs ex (base_number bcs state_view) (aptos_ops (status_retry T)) outs i k \<noteq> SFail"
    and stored: "stored_numbers bcs state_view {k. \<exists>i < length transactions. delta_at (outs i) k \<noteq> None}"
  shows "\<exists>r. execute_block_and_keep_vm_status bcs T A transactions state_view = Some r \<and>
     execute_block bcs ex T A level io m transactions state_view = Some (map_ok (map snd) r)"
proof -
  let ?n = "length transactions" and ?base = "base_number bcs state_view" and ?ops = "aptos_ops (status_retry T)"
  let ?S = "seq_state bcs ex ?base ?ops outs" and ?txns = "map (preprocess_transaction A) transactions"
  let ?vms = "map (\<lambda>txn. vm_task event_key new_epoch A (preprocess_transaction A txn)) transactions"
  let ?B = "block_outputs bcs ex ?base (status_retry T) (\<lambda>_. SBase) (map outs [0..<?n])"
  have vb: "validated_block bcs ex ?ops (versioned_get bcs state_view) ?vms m incs outs readss hist"
    and io: "outputs io = map (\<lambda>i. Some (wrap_abort (outs i))) [0..<?n]"
    using eb by (simp_all add: executed_block_def)
  have m: "mv_wf m" "holds_outputs ?ops ?n incs outs m" using vb by (simp_all add: validated_block_def)
  have st: "seq_vm (versioned_get bcs state_view) (?S j) (vm_task event_key new_epoch A (?txns ! j)) = Some (outs j)" if "j < ?n" for j
    using vv.validated_status[OF vb agg nofail, of j] that by simp
  have wfo: "output_wf (status_is_discarded T) t" if "i < ?n" "status_output (outs i) = Some t" for i t
    by (rule vm_task_wf[OF wf _ st]) (use that in simp_all)
  have app: "map_ok ((@) []) x = x" for x :: "(_, 'vs) result" by (cases x) simp_all
  have "cache_rel bcs state_view (?S 0) (state_view_cache_new state_view)" by (simp add: cache_rel_def seq_view_def)
  from execute_block_loop_from[where outs = outs and txns = ?txns and i = 0 and acc = "[]", OF codec ex laws wf aptos, OF _ _ this]
  obtain r where r: "execute_block_and_keep_vm_status bcs T A transactions state_view = Some r" "map_ok (map snd) r = ?B"
    using st nofail by (auto simp: app execute_block_and_keep_vm_status_def execute_block_impl_def)
  have "map_option (map_ok fst) (parallel_execute_block bcs ex T A io m transactions state_view) = Some ?B"
  proof (cases "?n = 0")
    case True
    then show ?thesis
      using assemble_is_sequential[OF codec laws m agg nofail stored wfo, where ts = "[]"]
      by (simp add: parallel_execute_block_def block_result_def option.map_comp comp_def)
  next
    case False
    show ?thesis
    proof (cases "module_publishing_may_race io")
      case True
      with False r show ?thesis
        by (cases r) (auto simp: parallel_execute_block_def block_result_def comp_def)
    next
      case race: False
      from block_result_settle[of ?n io outs ?ops] False race io
      have br: "block_result ?ops ?n io =
          Some (map_ok (\<lambda>ts. ts @ replicate (?n - length ts) (skip_output ?ops)) (wrap_result (settle (map outs [0..<?n]))))" by simp
      show ?thesis
      proof (cases "settle (map outs [0..<?n])")
        case (Ok ts)
        from assemble_is_sequential[OF codec laws m agg nofail stored wfo Ok] show ?thesis
          by (simp add: parallel_execute_block_def br Ok option.map_comp comp_def)
      next
        case (Err e)
        then show ?thesis by (simp add: parallel_execute_block_def br block_outputs_Err)
      qed
    qed
  qed
  with r show ?thesis by (auto simp: execute_block_def)
qed

text \<open>
  A block of two user transactions: the first adds 5 to the aggregator at key 0, which storage holds as 10,
  the second copies key 0 to key 1.
\<close>

definition demo_types :: "(nat, unit, status_code, (nat \<times> write_op) list, (nat, write_op) btree, unit, unit) types_ops" where
  "demo_types = \<lparr>vm_status_error = id, into_vm_status = (\<lambda>_. ABORTED), vm_status_code = id, wsm_new = id, wsm_len = length,
     wsm_squash = (\<lambda>ws ds. Ok (bt_collect ds ws)), wsm_freeze = Ok, status_is_discarded = (\<lambda>_. False), status_retry = ()\<rparr>"

definition demo_ext :: "(nat \<times> delta_op) list \<Rightarrow> (nat \<times> write_op) list \<Rightarrow> (nat, nat, unit) transaction_output_ext" where
  "demo_ext ds ws = output_ext_new ds \<lparr>out_write_set = ws, out_events = [], out_gas_used = 0, out_status = ()\<rparr>"

definition demo_run ::
  "(nat, unit, unit) preprocessed_transaction \<Rightarrow>
   (nat, unit, (status_code \<times> (nat, nat, unit) transaction_output_ext \<times> string option, status_code) result) vm_prog" where
  "demo_run txn =
     (case txn of
        UserTransaction 0 \<Rightarrow> Return (Ok (UNKNOWN_STATUS, demo_ext [(0, delta_add 5 100)] [], None))
      | UserTransaction _ \<Rightarrow> Read 0 (\<lambda>a. case a of
            Ok (Some b) \<Rightarrow> Return (Ok (UNKNOWN_STATUS, demo_ext [] [(1, Creation b)], None))
          | _ \<Rightarrow> Return (Err STORAGE_ERROR))
      | _ \<Rightarrow> Return (Err ABORTED))"

definition demo_adapter :: "(nat, nat, unit, unit, unit, nat, unit, nat, unit, status_code) vm_adapter" where
  "demo_adapter = \<lparr>check_signature = Ok, new_txn_session = (\<lambda>_. ()), check_transaction_format = (\<lambda>_. Ok ()),
     run_prologue = (\<lambda>session _. Return (Ok (), session)),
     adapter_should_restart = should_restart_execution id 9, execute_single_transaction = demo_run\<rparr>"

definition demo_txns :: "(nat, unit, unit, unit) transaction list" where
  "demo_txns = [Transaction_UserTransaction 0, Transaction_UserTransaction 1]"

definition demo_view :: "(nat, unit) state_view" where
  "demo_view k = Ok (if k = 0 then Some (le_encode 16 10) else None)"

definition demo_executed :: "(nat, write_op) mvhashmap" where
  "demo_executed = [0 \<mapsto> [(0, new_delta_from FLAG_DONE (delta_add 5 100))],
                    1 \<mapsto> [(1, new_write_from FLAG_DONE 0 (Creation (le_encode 16 15)))]]"

definition demo_statuses :: "nat \<Rightarrow> ((nat, nat, unit) transaction_output_ext, status_code) execution_status" where
  "demo_statuses i = Success (if i = 0 then demo_ext [(0, delta_add 5 100)] [] else demo_ext [] [(1, Creation (le_encode 16 15))])"

definition demo_captured :: "nat \<Rightarrow> nat read_descriptor list" where
  "demo_captured i = (if i = 1 then [from_unresolved 0 (delta_add 5 100)] else [])"

definition demo_recorded :: "(nat, (nat, nat, unit) transaction_output_ext, status_code, nat) last_io" where
  "demo_recorded = \<lparr>inputs = [Some [], Some (demo_captured 1)], outputs = map (\<lambda>i. Some (wrap_abort (demo_statuses i))) [0..<2],
     module_writes = {}, module_reads = {}, module_read_write_intersection = False\<rparr>"

lemma demo_decode: "deserialize bcs_le128 (le_encode 16 10) = Some 10" "serialize bcs_le128 15 = Some (le_encode 16 15)"
  "serialize bcs_le128 n \<noteq> None"
  using bcs_le128_simps(2)[of 10] by (simp_all add: deserialize_def serialize_def)

lemma demo_apply: "apply_to (delta_add 5 100) 10 = Ok 15"
  by (simp add: delta_add_def delta_new_def apply_to_def addition_def subtraction_def)

lemma demo_executed_entry:
  "mv_entry demo_executed k i = (if k = i \<and> i = 0 then Some (new_delta_from FLAG_DONE (delta_add 5 100))
     else if k = i \<and> i = 1 then Some (new_write_from FLAG_DONE 0 (Creation (le_encode 16 15))) else None)"
  by (auto simp: mv_entry_def demo_executed_def tree_or_new_def)

lemma demo_executed_block:
  "executed_block bcs_le128 written demo_types demo_adapter id 9 demo_view demo_txns demo_executed (\<lambda>_. 0) demo_statuses
     demo_captured (\<lambda>_ _. Creation (le_encode 16 15)) demo_recorded"
proof -
  let ?h = "\<lambda>(_::nat) (_::version). Creation (le_encode 16 15)"
  have wf: "mv_wf demo_executed" by (auto simp: mv_wf_def demo_executed_def bt_ok_def split: if_splits)
  have ag: "agrees ?h demo_executed"
    by (auto simp: agrees_def demo_executed_entry new_write_from_def new_delta_from_def split: if_splits)
  have ho: "holds_outputs (aptos_ops ()) 2 (\<lambda>_. 0) demo_statuses demo_executed"
    by (auto simp: holds_outputs_def demo_executed_entry out_entry_def demo_statuses_def demo_ext_def output_ext_new_def)
  have rd: "mv_read bcs_le128 written demo_executed 0 1 = Some (Err (Unresolved (delta_add 5 100)))"
    by (simp add: mv_read_def demo_executed_def bt_below_def new_delta_from_def FLAG_DONE_def FLAG_ESTIMATE_def)
  have rv: "reads_valid bcs_le128 written demo_executed i (demo_captured i) = Some True" if "i < 2" for i
    using that rd by (auto simp: demo_captured_def read_valid_def from_unresolved_def validate_unresolved_def)
  have run: "run_vm bcs_le128 written (versioned_get bcs_le128 demo_view) (\<lambda>_. demo_executed) i
      (vm_task id 9 demo_adapter (preprocess_transaction demo_adapter (demo_txns ! i))) 0 [] = Some (demo_statuses i, demo_captured i)"
    if "i < 2" for i
    using that rd demo_apply
    by (auto simp: less_2_cases_iff demo_txns_def demo_adapter_def preprocess_transaction_def vm_task_def demo_run_def prog_map_def
        execute_transaction_def should_restart_execution_def demo_ext_def output_ext_new_def demo_statuses_def demo_captured_def
        view_read_def versioned_get_def demo_view_def demo_decode)
  have "length demo_txns = 2" "status_retry demo_types = ()" by (simp_all add: demo_txns_def)
  with wf ag ho rv run show ?thesis
    unfolding executed_block_def validated_block_def demo_recorded_def by (auto simp: nth_map)
qed

theorem parallel_block_is_sequential_block_witness:
  "\<exists>r. execute_block_and_keep_vm_status bcs_le128 demo_types demo_adapter demo_txns demo_view = Some r \<and>
     execute_block bcs_le128 written demo_types demo_adapter (Some 4) demo_recorded demo_executed demo_txns demo_view =
       Some (map_ok (map snd) r)"
proof (rule parallel_block_is_sequential_block[OF _ refl _ _ _ demo_executed_block])
  let ?base = "base_number bcs_le128 demo_view"
  show "codec_ok bcs_le128" unfolding codec_ok_def using bcs_le128_roundtrip by blast
  show "write_set_laws demo_types" by (auto simp: write_set_laws_def demo_types_def)
  show "vm_outputs_wf demo_types demo_adapter (map (preprocess_transaction demo_adapter) demo_txns)"
    by (auto simp: vm_outputs_wf_def demo_types_def demo_adapter_def demo_run_def output_wf_def demo_ext_def output_ext_new_def bt_ok_def
        split: preprocessed_transaction.split nat.split result.split option.split)
  show "adapter_should_restart demo_adapter = should_restart_execution id 9" by (simp add: demo_adapter_def)
  show "aggregators_ok bcs_le128 written (\<lambda>_. 100) demo_executed"
    by (auto simp: aggregators_ok_def demo_executed_def tree_or_new_def new_write_from_def new_delta_from_def aggregator_entries_def
        delta_add_def delta_new_def split: if_splits option.splits)
  have b: "?base 0 = Some 10" by (simp add: base_number_def demo_view_def demo_decode)
  show "seq_state bcs_le128 written ?base (aptos_ops (status_retry demo_types)) demo_statuses i k \<noteq> SFail"
    if "i \<le> length demo_txns" for i k
  proof -
    have "i = 0 \<or> i = 1 \<or> i = 2" using that by (auto simp: demo_txns_def)
    then show ?thesis
      using b demo_apply
      by (auto simp: numeral_2_eq_2 seq_update_def demo_statuses_def demo_ext_def output_ext_new_def seq_number_def
          split: if_splits)
  qed
  show "stored_numbers bcs_le128 demo_view {k. \<exists>i < length demo_txns. delta_at (demo_statuses i) k \<noteq> None}"
    by (auto simp: stored_numbers_def demo_view_def demo_decode delta_at_def demo_statuses_def demo_ext_def output_ext_new_def
        split: if_splits)
qed

end
