(* ===== verification/Session_Output.thy ===== *)
theory Session_Output
  imports Agg_Natives Agg_Transaction Vm_Errors "HOL-Library.List_Lexorder"
begin

text \<open>
  The output of a VM session and its conversion to a change set, from
  \<^verbatim>\<open>aptos-vm/src/move_vm_ext/session.rs\<close>: the changes of the Move VM to resources and modules, of the
  table extension and of the aggregators become write operations and deltas under state keys.  The key
  constructors and the operations of \<open>WriteSetMut\<close>, \<open>ChangeSet\<close> and Move's own change set are parameters:
  \<open>freeze_inserted\<close> freezes the \<open>WriteSetMut\<close> that results from inserting a list of writes in order.
\<close>

section \<open>Definitions\<close>

datatype ('a, 'h) session_id =
    Txn (sid_sender: 'a) (sid_sequence_number: u64) (sid_script_hash: bytes)
  | BlockMeta 'h
  | Genesis 'h
  | Void

text \<open>\<open>Op\<close> of the Move VM.\<close>

datatype move_op = Delete | New bytes | Modify bytes

record 'ti table_change_set =
  new_tables :: "(address, 'ti) btree"
  removed_tables :: "address set"
  table_changes :: "(address, (bytes, move_op) btree) btree"

text \<open>The account changes are listed with their modules and their resources, as \<open>into_inner\<close> gives them.\<close>

record ('a, 'tag, 'ti) session_output =
  so_change_set :: "('a \<times> (string \<times> move_op) list \<times> ('tag \<times> move_op) list) list"
  so_events :: "(bytes \<times> u64 \<times> 'tag \<times> bytes) list"
  so_table_change_set :: "'ti table_change_set"
  so_aggregator_change_set :: aggregator_change_set

record ('a, 'tag, 'k) state_keys =
  resource_key :: "'a \<Rightarrow> 'tag \<Rightarrow> 'k"
  module_key :: "'a \<Rightarrow> string \<Rightarrow> 'k"
  table_item :: "address \<Rightarrow> bytes \<Rightarrow> 'k"
  aggregator_key_bytes :: "address \<Rightarrow> bytes"

fun extend_tables :: "(address \<times> (bytes, move_op) btree) list \<Rightarrow> (address, (bytes, move_op) btree) btree \<Rightarrow> (address, (bytes, move_op) btree) btree" where
  "extend_tables [] base = base"
| "extend_tables ((handle, entries) # rest) base =
     (let my_changes = (case map_of base handle of Some c \<Rightarrow> c | None \<Rightarrow> [])
      in extend_tables rest (bt_insert handle (bt_collect entries my_changes) base))"

definition squash_table_change_sets :: "'ti table_change_set \<Rightarrow> 'ti table_change_set \<Rightarrow> 'ti table_change_set" where
  "squash_table_change_sets base other =
     \<lparr>new_tables = filter (\<lambda>(h, _). h \<notin> removed_tables base) (bt_collect (new_tables other) (new_tables base)),
      removed_tables = removed_tables base \<union> removed_tables other,
      table_changes = extend_tables (table_changes other) (table_changes base)\<rparr>"

definition session_squash ::
  "(('a \<times> (string \<times> move_op) list \<times> ('tag \<times> move_op) list) list \<Rightarrow> ('a \<times> (string \<times> move_op) list \<times> ('tag \<times> move_op) list) list \<Rightarrow>
     (('a \<times> (string \<times> move_op) list \<times> ('tag \<times> move_op) list) list, 'x) result) \<Rightarrow>
   (partial_vm_error \<Rightarrow> ('loc, 'ef) vm_status) \<Rightarrow> ('a, 'tag, 'ti) session_output \<Rightarrow> ('a, 'tag, 'ti) session_output \<Rightarrow>
   (('a, 'tag, 'ti) session_output, ('loc, 'ef) vm_status) result option" where
  "session_squash change_set_squash into_vm_status self other =
     (case change_set_squash (so_change_set self) (so_change_set other) of
        Err _ \<Rightarrow> Some (Err (StatusError DATA_FORMAT_ERROR))
      | Ok cs \<Rightarrow>
          map_option (map_ok (\<lambda>ags.
              \<lparr>so_change_set = cs, so_events = so_events self @ so_events other,
               so_table_change_set = squash_table_change_sets (so_table_change_set self) (so_table_change_set other),
               so_aggregator_change_set = ags\<rparr>))
            (squash_changes into_vm_status (so_aggregator_change_set other) (so_aggregator_change_set self)))"

text \<open>
  \<open>SessionExt::finish\<close> after \<open>finish_with_extensions\<close>: the table context gives its change set or an error, the
  aggregator context always gives one (its unwraps are the panics).
\<close>

type_synonym ('a, 'tag, 'ti, 'e) finished_session =
  "('a \<times> (string \<times> move_op) list \<times> ('tag \<times> move_op) list) list \<times> (bytes \<times> u64 \<times> 'tag \<times> bytes) list \<times>
   ('ti table_change_set, partial_vm_error) result \<times> 'e native_context"

definition session_finish ::
  "(partial_vm_error \<Rightarrow> 'vmerr) \<Rightarrow> (('a, 'tag, 'ti, 'e) finished_session, 'vmerr) result \<Rightarrow>
   (('a, 'tag, 'ti) session_output, 'vmerr) result option" where
  "session_finish finish inner =
     (case inner of
        Err e \<Rightarrow> Some (Err e)
      | Ok (change_set, events, tables, aggregator_context) \<Rightarrow>
          (case tables of
             Err e \<Rightarrow> Some (Err (finish e))
           | Ok table_change_set \<Rightarrow>
               map_option (\<lambda>ags. Ok \<lparr>so_change_set = change_set, so_events = events, so_table_change_set = table_change_set,
                   so_aggregator_change_set = ags\<rparr>)
                 (into_change_set aggregator_context)))"

fun resource_op :: "u64 \<Rightarrow> move_op \<Rightarrow> write_op" where
  "resource_op gas_feature_version Delete = Deletion"
| "resource_op gas_feature_version (New blob) = (if gas_feature_version < 3 then Modification blob else Creation blob)"
| "resource_op gas_feature_version (Modify blob) = Modification blob"

fun plain_op :: "move_op \<Rightarrow> write_op" where
  "plain_op Delete = Deletion"
| "plain_op (New blob) = Creation blob"
| "plain_op (Modify blob) = Modification blob"

definition account_writes ::
  "('a, 'tag, 'k) state_keys \<Rightarrow> u64 \<Rightarrow> ('a \<times> (string \<times> move_op) list \<times> ('tag \<times> move_op) list) list \<Rightarrow> ('k \<times> write_op) list" where
  "account_writes K gas_feature_version accounts =
     concat (map (\<lambda>(addr, modules, resources).
       map (\<lambda>(struct_tag, blob_op). (resource_key K addr struct_tag, resource_op gas_feature_version blob_op)) resources @
       map (\<lambda>(name, blob_op). (module_key K addr name, plain_op blob_op)) modules) accounts)"

definition table_writes :: "('a, 'tag, 'k) state_keys \<Rightarrow> (address \<times> (bytes \<times> move_op) list) list \<Rightarrow> ('k \<times> write_op) list" where
  "table_writes K tcs =
     concat (map (\<lambda>(handle, entries). map (\<lambda>(key, value_op). (table_item K handle key, plain_op value_op)) entries) tcs)"

definition aggregator_item :: "('a, 'tag, 'k) state_keys \<Rightarrow> aggregator_id \<Rightarrow> 'k" where
  "aggregator_item K i = table_item K (aid_handle i) (aggregator_key_bytes K (aid_key i))"

text \<open>The loop over the aggregator changes; \<open>None\<close> is the panic of \<open>serialize\<close>.\<close>

fun aggregator_writes ::
  "bcs_codec \<Rightarrow> ('a, 'tag, 'k::linorder) state_keys \<Rightarrow> (aggregator_id \<times> aggregator_change) list \<Rightarrow>
   ('k \<times> write_op) list \<Rightarrow> 'k delta_change_set \<Rightarrow> (('k \<times> write_op) list \<times> 'k delta_change_set) option" where
  "aggregator_writes bcs K [] writes deltas = Some (writes, deltas)"
| "aggregator_writes bcs K ((i, change) # rest) writes deltas =
     (case change of
        ChWrite v \<Rightarrow>
          do { bs \<leftarrow> serialize bcs v;
               aggregator_writes bcs K rest (writes @ [(aggregator_item K i, Modification bs)]) deltas }
      | ChMerge delta_op \<Rightarrow> aggregator_writes bcs K rest writes (dcs_insert deltas (aggregator_item K i, delta_op))
      | ChDelete \<Rightarrow> aggregator_writes bcs K rest (writes @ [(aggregator_item K i, Deletion)]) deltas)"

fun convert_events ::
  "(bytes \<Rightarrow> 'ek option) \<Rightarrow> ('ek \<Rightarrow> u64 \<Rightarrow> 'tag \<Rightarrow> bytes \<Rightarrow> 'ev) \<Rightarrow> (bytes \<times> u64 \<times> 'tag \<times> bytes) list \<Rightarrow>
   ('ev list, ('loc, 'ef) vm_status) result" where
  "convert_events decode_key contract_event [] = Ok []"
| "convert_events decode_key contract_event ((guid, seq_num, ty_tag, blob) # rest) =
     (case decode_key guid of
        None \<Rightarrow> Err (StatusError EVENT_KEY_MISMATCH)
      | Some key \<Rightarrow> map_ok ((#) (contract_event key seq_num ty_tag blob)) (convert_events decode_key contract_event rest))"

record ('a, 'tag, 'k, 'ek, 'ev, 'loc, 'ef, 'x) change_set_ops =
  cs_keys :: "('a, 'tag, 'k) state_keys"
  freeze_inserted :: "('k \<times> write_op) list \<Rightarrow> ('k write_set, 'x) result"
  decode_event_key :: "bytes \<Rightarrow> 'ek option"
  contract_event :: "'ek \<Rightarrow> u64 \<Rightarrow> 'tag \<Rightarrow> bytes \<Rightarrow> 'ev"
  change_set_new :: "'k write_set \<Rightarrow> 'ev list \<Rightarrow> u64 \<Rightarrow> ('k write_set \<times> 'ev list, ('loc, 'ef) vm_status) result"

definition session_into_change_set ::
  "bcs_codec \<Rightarrow> ('a, 'tag, 'k::linorder, 'ek, 'ev, 'loc, 'ef, 'x) change_set_ops \<Rightarrow> ('a, 'tag, 'ti) session_output \<Rightarrow> u64 \<Rightarrow>
   (('k, 'ev) change_set_ext, ('loc, 'ef) vm_status) result option" where
  "session_into_change_set bcs C self gas_feature_version =
     (let K = cs_keys C;
          written = account_writes K gas_feature_version (so_change_set self) @ table_writes K (table_changes (so_table_change_set self))
      in do { (writes, delta_change_set) \<leftarrow> aggregator_writes bcs K (so_aggregator_change_set self) written dcs_empty;
              Some (bind_ok (map_err (\<lambda>_. StatusError DATA_FORMAT_ERROR) (freeze_inserted C writes)) (\<lambda>write_set.
                    bind_ok (convert_events (decode_event_key C) (contract_event C) (so_events self)) (\<lambda>events.
                    bind_ok (change_set_new C write_set events gas_feature_version) (\<lambda>change_set.
                    Ok (change_set_ext_new delta_change_set change_set gas_feature_version))))) })"

section \<open>The change set of a session\<close>

text \<open>
  What the conversion relies on: freezing gives the table of the inserted writes, \<open>ChangeSet::new\<close> only
  checks, aggregators have keys of their own, and no other change has one of these keys.
\<close>

definition change_set_laws :: "('a, 'tag, 'k::linorder, 'ek, 'ev, 'loc, 'ef, 'x) change_set_ops \<Rightarrow> bool" where
  "change_set_laws C \<longleftrightarrow>
     (\<forall>ws r. freeze_inserted C ws = Ok r \<longrightarrow> r = bt_collect ws []) \<and>
     (\<forall>ws ev v cs. change_set_new C ws ev v = Ok cs \<longrightarrow> cs = (ws, ev)) \<and>
     inj (aggregator_item (cs_keys C))"

definition aggregators_separate :: "('a, 'tag, 'k) state_keys \<Rightarrow> u64 \<Rightarrow> ('a, 'tag, 'ti) session_output \<Rightarrow> bool" where
  "aggregators_separate K fv so \<longleftrightarrow>
     (\<forall>i \<in> fst ` set (so_aggregator_change_set so).
        aggregator_item K i \<notin> fst ` set (account_writes K fv (so_change_set so) @ table_writes K (table_changes (so_table_change_set so))))"

lemma collect_changes_ok: "collect_changes ags acc = Some cs \<Longrightarrow> bt_ok acc \<Longrightarrow> bt_ok cs"
  by (induction ags acc rule: collect_changes.induct) (auto simp: bind_eq_Some_conv bt_ok_insert)

lemma into_change_set_ok: "into_change_set ctx = Some cs \<Longrightarrow> bt_ok cs"
proof -
  have del: "bt_ok acc \<Longrightarrow> bt_ok (fold (\<lambda>i. bt_insert i ChDelete) is acc)" for "is" and acc :: aggregator_change_set
    by (induction "is" arbitrary: acc) (simp_all add: bt_ok_insert)
  show "into_change_set ctx = Some cs \<Longrightarrow> bt_ok cs"
    by (auto simp: into_change_set_def bind_eq_Some_conv split: prod.splits intro!: del dest: collect_changes_ok)
qed

text \<open>The aggregators of a finished session are listed once each; the rest of its output is that of the Move VM.\<close>

lemma session_finish_Ok:
  assumes "session_finish finish inner = Some (Ok so)"
  obtains cs events tables ctx ags where "inner = Ok (cs, events, Ok tables, ctx)" "into_change_set ctx = Some ags" "bt_ok ags"
    "so = \<lparr>so_change_set = cs, so_events = events, so_table_change_set = tables, so_aggregator_change_set = ags\<rparr>"
  using assms by (auto simp: session_finish_def into_change_set_ok split: result.splits)

text \<open>The write of an aggregator change, if it is one.\<close>

fun change_write :: "bcs_codec \<Rightarrow> aggregator_change \<Rightarrow> write_op option" where
  "change_write bcs (ChWrite v) = map_option Modification (serialize bcs v)"
| "change_write bcs (ChMerge d) = None"
| "change_write bcs ChDelete = Some Deletion"

fun change_delta :: "aggregator_change \<Rightarrow> delta_op option" where
  "change_delta (ChMerge d) = Some d"
| "change_delta _ = None"

lemma aggregator_writes_spec:
  assumes "inj (aggregator_item K)" and "distinct (map fst cs)" and "aggregator_writes bcs K cs ws ds = Some (ws', ds')"
    and "bt_ok ds" and "\<And>i. i \<in> fst ` set cs \<Longrightarrow> aggregator_item K i \<notin> fst ` set ws \<union> fst ` set ds"
  shows "bt_ok ds' \<and>
     (\<forall>i c. map_of cs i = Some c \<longrightarrow>
        map_of ds' (aggregator_item K i) = change_delta c \<and> map_of (rev ws') (aggregator_item K i) = change_write bcs c) \<and>
     (\<forall>k. k \<notin> aggregator_item K ` fst ` set cs \<longrightarrow> map_of ds' k = map_of ds k \<and> map_of (rev ws') k = map_of (rev ws) k)"
  using assms
proof (induction bcs K cs ws ds rule: aggregator_writes.induct)
  case (1 bcs K writes deltas)
  then show ?case by simp
next
  case (2 bcs K i change rest writes deltas)
  let ?it = "aggregator_item K"
  obtain ws1 ds1 where s: "aggregator_writes bcs K rest ws1 ds1 = Some (ws', ds')"
    "ws1 = writes @ (case change_write bcs change of Some w \<Rightarrow> [(?it i, w)] | None \<Rightarrow> [])"
    "ds1 = (case change_delta change of Some d \<Rightarrow> dcs_insert deltas (?it i, d) | None \<Rightarrow> deltas)"
    using "2.prems"(3) by (cases change) (auto simp: bind_eq_Some_conv)
  have fresh: "?it j \<noteq> ?it i" if "j \<in> fst ` set rest" for j
    using that "2.prems"(1,2) by (auto simp: inj_eq)
  have i0: "?it i \<notin> fst ` set writes" "?it i \<notin> fst ` set deltas" using "2.prems"(5)[of i] by auto
  have ok1: "bt_ok ds1" using "2.prems"(4) by (auto simp: s dcs_insert_def bt_ok_insert split: option.split)
  have sep: "?it j \<notin> fst ` set ws1 \<union> fst ` set ds1" if "j \<in> fst ` set rest" for j
    using that "2.prems"(5)[of j] fresh[OF that]
    by (auto simp: s dcs_insert_def fst_set_bt_insert split: option.splits)
  have "distinct (map fst rest)" using "2.prems"(2) by simp
  have ih: "bt_ok ds' \<and> (\<forall>j c. map_of rest j = Some c \<longrightarrow>
        map_of ds' (?it j) = change_delta c \<and> map_of (rev ws') (?it j) = change_write bcs c) \<and>
      (\<forall>k. k \<notin> ?it ` fst ` set rest \<longrightarrow> map_of ds' k = map_of ds1 k \<and> map_of (rev ws') k = map_of (rev ws1) k)"
  proof (cases change)
    case (ChWrite v)
    with "2.prems"(3) obtain bs where bs: "serialize bcs v = Some bs" by (auto simp: bind_eq_Some_conv)
    with "2.IH"(1)[OF ChWrite bs] "2.prems"(1) \<open>distinct (map fst rest)\<close> s ok1 sep ChWrite show ?thesis by simp
  next
    case (ChMerge d)
    with "2.IH"(2)[OF ChMerge] "2.prems"(1) \<open>distinct (map fst rest)\<close> s ok1 sep show ?thesis by simp
  next
    case ChDelete
    with "2.IH"(3)[OF ChDelete] "2.prems"(1) \<open>distinct (map fst rest)\<close> s ok1 sep show ?thesis by simp
  qed
  have none: "map_of writes (?it i) = None" "map_of deltas (?it i) = None" "map_of (rev writes) (?it i) = None"
    using i0 by (simp_all add: map_of_eq_None_iff)
  have own: "map_of ds1 (?it i) = change_delta change" "map_of (rev ws1) (?it i) = change_write bcs change"
    using none by (simp_all add: s dcs_insert_def map_of_bt_insert map_add_def split: option.split)
  have other: "map_of ds1 k = map_of deltas k" "map_of (rev ws1) k = map_of (rev writes) k" if "k \<noteq> ?it i" for k
    using that by (simp_all add: s dcs_insert_def map_of_bt_insert map_add_def split: option.split)
  have "?it i \<notin> ?it ` fst ` set rest" using fresh by force
  with ih own have "map_of ds' (?it i) = change_delta change" "map_of (rev ws') (?it i) = change_write bcs change" by simp_all
  with ih other show ?case by auto
qed

text \<open>
  A change set made of a session keeps the invariant of change sets, and its tables hold exactly the
  changes of the session: every aggregator merge as a delta, everything else as a write.
\<close>

lemma session_change_set_wf:
  assumes laws: "change_set_laws C" and sep: "aggregators_separate (cs_keys C) fv so"
    and ok: "bt_ok (so_aggregator_change_set so)"
    and res: "session_into_change_set bcs C so fv = Some (Ok cs)"
  shows "cse_wf cs"
    and "map_of (so_aggregator_change_set so) i = Some (ChMerge d) \<Longrightarrow> map_of (cse_deltas cs) (aggregator_item (cs_keys C) i) = Some d"
    and "map_of (so_aggregator_change_set so) i = Some c \<Longrightarrow>
      map_of (cse_write_set cs) (aggregator_item (cs_keys C) i) = change_write bcs c"
proof -
  let ?K = "cs_keys C" and ?ags = "so_aggregator_change_set so"
  let ?w = "account_writes ?K fv (so_change_set so) @ table_writes ?K (table_changes (so_table_change_set so))"
  from res obtain writes deltas write_set events change_set where
    a: "aggregator_writes bcs ?K ?ags ?w dcs_empty = Some (writes, deltas)"
    and f: "freeze_inserted C writes = Ok write_set" and n: "change_set_new C write_set events fv = Ok change_set"
    and cs: "cs = change_set_ext_new deltas change_set fv"
    by (auto simp: session_into_change_set_def Let_def bind_eq_Some_conv bind_ok_eq_Ok map_err_eq_Ok)
  have ws: "write_set = bt_collect writes []" and c: "change_set = (write_set, events)"
    using laws f n unfolding change_set_laws_def by blast+
  have spec: "bt_ok deltas \<and> (\<forall>i c. map_of ?ags i = Some c \<longrightarrow>
        map_of deltas (aggregator_item ?K i) = change_delta c \<and> map_of (rev writes) (aggregator_item ?K i) = change_write bcs c) \<and>
      (\<forall>k. k \<notin> aggregator_item ?K ` fst ` set ?ags \<longrightarrow> map_of deltas k = map_of dcs_empty k \<and> map_of (rev writes) k = map_of (rev ?w) k)"
    by (rule aggregator_writes_spec[OF _ bt.ents_distinct[OF ok] a])
      (use laws sep in \<open>auto simp: change_set_laws_def aggregators_separate_def dcs_empty_def\<close>)
  have W: "map_of (cse_write_set cs) = map_of (rev writes)" and D: "cse_deltas cs = deltas"
    by (simp_all add: cs change_set_ext_new_def cse_write_set_def c ws map_of_bt_collect)
  have "map_of (cse_write_set cs) k = None \<or> map_of (cse_deltas cs) k = None" for k
  proof (cases "k \<in> aggregator_item ?K ` fst ` set ?ags")
    case True
    then obtain i where i: "k = aggregator_item ?K i" "i \<in> fst ` set ?ags" by blast
    then obtain ch where "map_of ?ags i = Some ch" by (metis domD dom_map_of_conv_image_fst)
    with spec i(1) show ?thesis unfolding W D by (cases ch) simp_all
  next
    case False
    with spec show ?thesis unfolding W D by (simp add: dcs_empty_def)
  qed
  with spec show "cse_wf cs"
    by (simp add: cse_wf_def D) (simp add: cs change_set_ext_new_def cse_write_set_def c ws bt_ok_collect)
  show "map_of ?ags i = Some (ChMerge d) \<Longrightarrow> map_of (cse_deltas cs) (aggregator_item ?K i) = Some d"
    using spec by (simp add: D)
  show "map_of ?ags i = Some c \<Longrightarrow> map_of (cse_write_set cs) (aggregator_item ?K i) = change_write bcs c"
    using spec by (simp add: W)
qed

text \<open>
  A table that one session creates and the next one removes stays listed as new after squashing: only the
  tables removed before are taken off the list.
\<close>

lemma squashed_table_still_new:
  assumes "map_of (new_tables base) h = Some ti" "h \<notin> removed_tables base"
    and "h \<in> removed_tables other" "new_tables other = []"
  shows "map_of (new_tables (squash_table_change_sets base other)) h = Some ti \<and>
    h \<in> removed_tables (squash_table_change_sets base other)"
proof -
  have "map_of (filter (\<lambda>(h, _). h \<notin> removed_tables base) xs) h = map_of xs h" for xs :: "(address, 'a) btree"
    using assms(2) by (induction xs) auto
  with assms show ?thesis by (simp add: squash_table_change_sets_def)
qed

end
