(* ===== verification/Txn_Prologue.thy ===== *)
theory Txn_Prologue
  imports Gas_Account Txn_Args Vm_Errors Seq_Adapter Session_Output
begin

text \<open>
  What a transaction must satisfy before it runs: its metadata (\<^verbatim>\<open>aptos-vm/src/transaction_metadata.rs\<close>),
  the configuration of the VM, the gas and size checks and the prologue
  (\<^verbatim>\<open>aptos-vm/src/aptos_vm_impl.rs\<close>, \<^verbatim>\<open>aptos-vm/src/aptos_vm.rs\<close>).  The accessors of
  \<open>SignedTransaction\<close>, the on-chain configuration readers and the sessions of the Move VM are parameters.
\<close>

section \<open>Definitions\<close>

subsection \<open>Transactions\<close>

type_synonym 'a module_id = "'a \<times> bytes"

datatype ('a, 'ty, 'ta) transaction_payload =
    Script (script_code: bytes) (script_ty_args: "'ty list") (script_args: "'ta list")
  | EntryFunction (fn_module: "'a module_id") (fn_function: string) (fn_ty_args: "'ty list") (fn_args: "bytes list")
  | ModuleBundle (bundle_modules: "bytes list")

record ('signed, 'a, 'ty, 'ta) signed_ops =
  txn_sender :: "'signed \<Rightarrow> 'a"
  txn_authentication_key :: "'signed \<Rightarrow> bytes"
  txn_secondary_signers :: "'signed \<Rightarrow> 'a list"
  txn_secondary_keys :: "'signed \<Rightarrow> bytes list"
  txn_sequence_number :: "'signed \<Rightarrow> u64"
  txn_max_gas_amount :: "'signed \<Rightarrow> u64"
  txn_gas_unit_price :: "'signed \<Rightarrow> u64"
  txn_raw_bytes_len :: "'signed \<Rightarrow> nat"
  txn_expiration :: "'signed \<Rightarrow> u64"
  txn_chain_id :: "'signed \<Rightarrow> u8"
  txn_payload :: "'signed \<Rightarrow> ('a, 'ty, 'ta) transaction_payload"
  txn_duplicate_signers :: "'signed \<Rightarrow> bool"
  sha3_256_of :: "bytes \<Rightarrow> bytes"

record 'a transaction_metadata =
  md_sender :: 'a
  md_authentication_key :: bytes
  md_secondary_signers :: "'a list"
  md_secondary_authentication_keys :: "bytes list"
  md_sequence_number :: u64
  md_max_gas_amount :: u64
  md_gas_unit_price :: u64
  md_transaction_size :: u64
  md_expiration_timestamp_secs :: u64
  md_chain_id :: u8
  md_script_hash :: bytes
  md_script_size :: u64

definition transaction_metadata_new :: "('signed, 'a, 'ty, 'ta) signed_ops \<Rightarrow> 'signed \<Rightarrow> 'a transaction_metadata" where
  "transaction_metadata_new S transaction =
     \<lparr>md_sender = txn_sender S transaction, md_authentication_key = txn_authentication_key S transaction,
      md_secondary_signers = txn_secondary_signers S transaction, md_secondary_authentication_keys = txn_secondary_keys S transaction,
      md_sequence_number = txn_sequence_number S transaction, md_max_gas_amount = txn_max_gas_amount S transaction,
      md_gas_unit_price = txn_gas_unit_price S transaction, md_transaction_size = of_nat (txn_raw_bytes_len S transaction),
      md_expiration_timestamp_secs = txn_expiration S transaction, md_chain_id = txn_chain_id S transaction,
      md_script_hash =
        (case txn_payload S transaction of
           Script code _ _ \<Rightarrow> sha3_256_of S code
         | EntryFunction _ _ _ _ \<Rightarrow> []
         | ModuleBundle _ \<Rightarrow> []),
      md_script_size =
        (case txn_payload S transaction of Script code _ _ \<Rightarrow> of_nat (length code) | _ \<Rightarrow> 0)\<rparr>"

definition is_multi_agent :: "'a transaction_metadata \<Rightarrow> bool" where
  "is_multi_agent md \<longleftrightarrow> md_secondary_signers md \<noteq> []"

definition session_id_txn_meta :: "'a transaction_metadata \<Rightarrow> ('a, 'h) session_id" where
  "session_id_txn_meta md = Txn (md_sender md) (md_sequence_number md) (md_script_hash md)"

definition session_id_txn :: "('signed, 'a, 'ty, 'ta) signed_ops \<Rightarrow> 'signed \<Rightarrow> ('a, 'h) session_id" where
  "session_id_txn S transaction = session_id_txn_meta (transaction_metadata_new S transaction)"

subsection \<open>The configuration of the VM\<close>

record ('a, 'loc) transaction_validation =
  tv_module_id :: "'a module_id"
  tv_script_prologue_name :: string
  tv_multi_agent_prologue_name :: string
  tv_module_prologue_name :: string
  tv_user_epilogue_name :: string
  is_account_module_abort :: "'loc \<Rightarrow> bool"

record ('a, 'loc) aptos_vm_impl =
  vm_gas_feature_version :: u64
  vm_gas_params :: "aptos_gas_parameters option"
  vm_storage_gas_params :: "storage_gas_parameters option"
  vm_transaction_validation :: "('a, 'loc) transaction_validation option"

text \<open>
  \<open>AptosVMImpl::new\<close>, from the on-chain configurations it fetches: the gas schedule with its feature
  version, the older schedule without one, the storage prices and the validation module.  The creation of
  the inner Move VM and the unused version number are left out.
\<close>

definition aptos_vm_impl_new ::
  "bool \<Rightarrow> u64 \<Rightarrow> (u64 \<times> gas_schedule) option \<Rightarrow> gas_schedule option \<Rightarrow> storage_gas_parameters option \<Rightarrow>
   ('a, 'loc) transaction_validation option \<Rightarrow> ('a, 'loc) aptos_vm_impl" where
  "aptos_vm_impl_new testing price schedule_v2 schedule storage_schedule validation =
     (let (params, version) =
            (case schedule_v2 of
               Some (fv, gs) \<Rightarrow> (aptos_from_on_chain testing price gs, fv)
             | None \<Rightarrow>
                 (case schedule of
                    Some gs \<Rightarrow> (aptos_from_on_chain testing price gs, 0)
                  | None \<Rightarrow> (None, 0)));
          storage = (if version = 0 then None else storage_schedule);
          params' =
            (if version \<ge> 2 then
               (case (params, storage) of
                  (Some gp, Some sp) \<Rightarrow>
                    Some (gp\<lparr>natives := natives gp\<lparr>table_ext := (table_ext (natives gp))
                       (''common.load_base'' := per_item_read sp, ''common.load_per_byte'' := per_byte_read sp,
                        ''common.load_failure'' := 0)\<rparr>\<rparr>)
                | _ \<Rightarrow> params)
             else params)
      in \<lparr>vm_gas_feature_version = version, vm_gas_params = params', vm_storage_gas_params = storage,
          vm_transaction_validation = validation\<rparr>)"

definition get_gas_parameters :: "('a, 'loc) aptos_vm_impl \<Rightarrow> (aptos_gas_parameters, ('loc, 'ef) vm_status) result" where
  "get_gas_parameters vm =
     (case vm_gas_params vm of Some p \<Rightarrow> Ok p | None \<Rightarrow> Err (StatusError VM_STARTUP_FAILURE))"

definition get_storage_gas_parameters ::
  "('a, 'loc) aptos_vm_impl \<Rightarrow> (storage_gas_parameters option, ('loc, 'ef) vm_status) result" where
  "get_storage_gas_parameters vm =
     (if vm_gas_feature_version vm = 0 then Ok None
      else (case vm_storage_gas_params vm of Some p \<Rightarrow> Ok (Some p) | None \<Rightarrow> Err (StatusError VM_STARTUP_FAILURE)))"

definition get_transaction_validation ::
  "('a, 'loc) transaction_validation \<Rightarrow> ('a, 'loc) aptos_vm_impl \<Rightarrow> ('a, 'loc) transaction_validation" where
  "get_transaction_validation default_validation vm =
     (case vm_transaction_validation vm of Some v \<Rightarrow> v | None \<Rightarrow> default_validation)"

subsection \<open>Gas and size checks\<close>

definition MAXIMUM_APPROVED_TRANSACTION_SIZE :: u64 where
  "MAXIMUM_APPROVED_TRANSACTION_SIZE = 1024 * 1024"

record ('k, 'er) gas_check_env =
  approved_hashes_key :: 'k
  decode_hashes :: "bytes \<Rightarrow> (u64 \<times> bytes) list option"
  round_up :: "u64 \<Rightarrow> u64 \<times> u64 \<Rightarrow> u64"

text \<open>A transaction above the size limit: it must be an approved script and leave the rest small.\<close>

definition approved_size ::
  "gas_ops \<Rightarrow> ('k, 'er) gas_check_env \<Rightarrow> params \<Rightarrow> 'a transaction_metadata \<Rightarrow> (bytes option, 'x) result \<Rightarrow> bool" where
  "approved_size q G p md resource =
     (case resource of
        Ok (Some bs) \<Rightarrow>
          (case decode_hashes G bs of
             Some entries \<Rightarrow> list_ex (\<lambda>(_, hash). hash = md_script_hash md) entries
           | None \<Rightarrow> False) \<and>
          gq_add q (md_script_size md) (p ''max_transaction_size_in_bytes'') > md_transaction_size md \<and>
          md_transaction_size md \<le> MAXIMUM_APPROVED_TRANSACTION_SIZE
      | _ \<Rightarrow> False)"

text \<open>The checks of \<open>check_gas\<close> after the size check; the outer option is the panic of \<open>calculate_intrinsic_gas\<close>.\<close>

definition check_gas_bounds ::
  "gas_ops \<Rightarrow> ('k, 'er) gas_check_env \<Rightarrow> params \<Rightarrow> 'a transaction_metadata \<Rightarrow> (unit, ('loc, 'ef) vm_status) result option" where
  "check_gas_bounds q G p md =
     (if md_max_gas_amount md > p ''maximum_number_of_gas_units'' then
        Some (Err (StatusError MAX_GAS_UNITS_EXCEEDS_MAX_GAS_UNITS_BOUND))
      else do {
        cost \<leftarrow> calculate_intrinsic_gas q p (md_transaction_size md);
        let intrinsic_gas = round_up G cost (ratio p);
        Some (if md_max_gas_amount md < intrinsic_gas then Err (StatusError MAX_GAS_UNITS_BELOW_MIN_TRANSACTION_GAS_UNITS)
              else if md_gas_unit_price md < p ''min_price_per_gas_unit'' then Err (StatusError GAS_UNIT_PRICE_BELOW_MIN_BOUND)
              else if md_gas_unit_price md > p ''max_price_per_gas_unit'' then Err (StatusError GAS_UNIT_PRICE_ABOVE_MAX_BOUND)
              else Ok ()) })"

definition check_gas ::
  "gas_ops \<Rightarrow> ('k, 'er) gas_check_env \<Rightarrow> ('a, 'loc) aptos_vm_impl \<Rightarrow> 'a transaction_metadata \<Rightarrow>
   ('k, 'er, (unit, ('loc, 'ef) vm_status) result) vm_prog" where
  "check_gas q G vm md =
     (case get_gas_parameters vm of
        Err e \<Rightarrow> Return (Err e)
      | Ok gp \<Rightarrow>
          (let p = txn gp
           in if md_transaction_size md > p ''max_transaction_size_in_bytes'' then
                Read (approved_hashes_key G) (\<lambda>resource.
                  if \<not> approved_size q G p md resource then Return (Err (StatusError EXCEEDED_MAX_TRANSACTION_SIZE))
                  else prog_of_option (check_gas_bounds q G p md))
              else prog_of_option (check_gas_bounds q G p md)))"

subsection \<open>The prologue\<close>

datatype 'a move_value =
    MVU8 u8
  | MVU64 u64
  | MVU128 u128
  | MVBool bool
  | MVAddress 'a
  | MVSigner 'a
  | MVVector "'a move_value list"

definition vector_u8 :: "bytes \<Rightarrow> 'a move_value" where
  "vector_u8 bs = MVVector (map MVU8 bs)"

definition vector_address :: "'a list \<Rightarrow> 'a move_value" where
  "vector_address as = MVVector (map MVAddress as)"

text \<open>Calls into a session of the Move VM without a gas meter, and the conversion of its errors.\<close>

record ('sess, 'k, 'er, 'a, 'vmerr, 'loc, 'ef) known_functions =
  execute_unmetered ::
    "'sess \<Rightarrow> 'a module_id \<Rightarrow> string \<Rightarrow> bytes list \<Rightarrow> ('k, 'er, (unit, 'vmerr) result \<times> 'sess) vm_prog"
  serialize_values :: "'a move_value list \<Rightarrow> bytes list"
  vmerr_into_status :: "'vmerr \<Rightarrow> ('loc, 'ef) vm_status"
  expect_no_verification_errors :: "'vmerr \<Rightarrow> 'vmerr"

definition script_prologue_args :: "'a transaction_metadata \<Rightarrow> 'a move_value list" where
  "script_prologue_args md =
     (if is_multi_agent md then
        [MVSigner (md_sender md), MVU64 (md_sequence_number md), vector_u8 (md_authentication_key md),
         vector_address (md_secondary_signers md), MVVector (map vector_u8 (md_secondary_authentication_keys md)),
         MVU64 (md_gas_unit_price md), MVU64 (md_max_gas_amount md), MVU64 (md_expiration_timestamp_secs md), MVU8 (md_chain_id md)]
      else
        [MVSigner (md_sender md), MVU64 (md_sequence_number md), vector_u8 (md_authentication_key md),
         MVU64 (md_gas_unit_price md), MVU64 (md_max_gas_amount md), MVU64 (md_expiration_timestamp_secs md), MVU8 (md_chain_id md),
         vector_u8 (md_script_hash md)])"

text \<open>A call whose error is converted.\<close>

definition call_known ::
  "('sess, 'k, 'er, 'a, 'vmerr, 'loc, 'ef) known_functions \<Rightarrow> 'sess \<Rightarrow> 'a module_id \<Rightarrow> string \<Rightarrow> 'a move_value list \<Rightarrow>
   (('loc, 'ef) vm_status \<Rightarrow> (unit, ('loc, 'ef) vm_status) result) \<Rightarrow>
   ('k, 'er, (unit, ('loc, 'ef) vm_status) result \<times> 'sess) vm_prog" where
  "call_known F session module_id name args convert =
     prog_map (\<lambda>(r, session').
         (case r of Ok _ \<Rightarrow> Ok () | Err e \<Rightarrow> convert (vmerr_into_status F (expect_no_verification_errors F e)), session'))
       (execute_unmetered F session module_id name (serialize_values F args))"

definition run_script_prologue ::
  "('sess, 'k, 'er, 'a, 'vmerr, 'loc, 'ef) known_functions \<Rightarrow> ('a, 'loc) transaction_validation \<Rightarrow> 'sess \<Rightarrow> 'a transaction_metadata \<Rightarrow>
   ('k, 'er, (unit, ('loc, 'ef) vm_status) result \<times> 'sess) vm_prog" where
  "run_script_prologue F tv session md =
     call_known F session (tv_module_id tv)
       (if is_multi_agent md then tv_multi_agent_prologue_name tv else tv_script_prologue_name tv)
       (script_prologue_args md) (convert_prologue_error (is_account_module_abort tv))"

definition run_module_prologue ::
  "('sess, 'k, 'er, 'a, 'vmerr, 'loc, 'ef) known_functions \<Rightarrow> ('a, 'loc) transaction_validation \<Rightarrow> 'sess \<Rightarrow> 'a transaction_metadata \<Rightarrow>
   ('k, 'er, (unit, ('loc, 'ef) vm_status) result \<times> 'sess) vm_prog" where
  "run_module_prologue F tv session md =
     call_known F session (tv_module_id tv) (tv_module_prologue_name tv)
       [MVSigner (md_sender md), MVU64 (md_sequence_number md), vector_u8 (md_authentication_key md),
        MVU64 (md_gas_unit_price md), MVU64 (md_max_gas_amount md), MVU64 (md_expiration_timestamp_secs md), MVU8 (md_chain_id md)]
       (convert_prologue_error (is_account_module_abort tv))"

definition epilogue_args :: "'a transaction_metadata \<Rightarrow> u64 \<Rightarrow> 'a move_value list" where
  "epilogue_args md gas_remaining =
     [MVSigner (md_sender md), MVU64 (md_sequence_number md), MVU64 (md_gas_unit_price md), MVU64 (md_max_gas_amount md), MVU64 gas_remaining]"

definition run_success_epilogue ::
  "('sess, 'k, 'er, 'a, 'vmerr, 'loc, 'ef) known_functions \<Rightarrow> ('a, 'loc) transaction_validation \<Rightarrow> 'sess \<Rightarrow> u64 \<Rightarrow> 'a transaction_metadata \<Rightarrow>
   ('k, 'er, (unit, ('loc, 'ef) vm_status) result \<times> 'sess) vm_prog" where
  "run_success_epilogue F tv session gas_remaining md =
     call_known F session (tv_module_id tv) (tv_user_epilogue_name tv) (epilogue_args md gas_remaining)
       (convert_epilogue_error (is_account_module_abort tv))"

definition run_failure_epilogue ::
  "('sess, 'k, 'er, 'a, 'vmerr, 'loc, 'ef) known_functions \<Rightarrow> ('a, 'loc) transaction_validation \<Rightarrow> 'sess \<Rightarrow> u64 \<Rightarrow> 'a transaction_metadata \<Rightarrow>
   ('k, 'er, (unit, ('loc, 'ef) vm_status) result \<times> 'sess) vm_prog" where
  "run_failure_epilogue F tv session gas_remaining md =
     call_known F session (tv_module_id tv) (tv_user_epilogue_name tv) (epilogue_args md gas_remaining)
       expect_only_successful_execution"

definition run_prologue_with_payload ::
  "gas_ops \<Rightarrow> ('k, 'er) gas_check_env \<Rightarrow> ('sess, 'k, 'er, 'a, 'vmerr, 'loc, 'ef) known_functions \<Rightarrow> ('a, 'loc) transaction_validation \<Rightarrow>
   bool \<Rightarrow> ('a, 'loc) aptos_vm_impl \<Rightarrow> 'sess \<Rightarrow> ('a, 'ty, 'ta) transaction_payload \<Rightarrow> 'a transaction_metadata \<Rightarrow>
   ('k, 'er, (unit, ('loc, 'ef) vm_status) result \<times> 'sess) vm_prog" where
  "run_prologue_with_payload q G F default_validation module_bundle_disallowed vm session payload md =
     (let tv = get_transaction_validation default_validation vm;
          checked = (\<lambda>rest. prog_bind (check_gas q G vm md) (\<lambda>r. case r of Ok _ \<Rightarrow> rest | Err e \<Rightarrow> Return (Err e, session)))
      in case payload of
           Script _ _ _ \<Rightarrow> checked (run_script_prologue F tv session md)
         | EntryFunction _ _ _ _ \<Rightarrow> checked (run_script_prologue F tv session md)
         | ModuleBundle _ \<Rightarrow>
             if module_bundle_disallowed then Return (Err (StatusError FEATURE_UNDER_GATING), session)
             else checked (run_module_prologue F tv session md))"

definition aptos_check_transaction_format ::
  "('signed, 'a, 'ty, 'ta) signed_ops \<Rightarrow> 'signed \<Rightarrow> (unit, ('loc, 'ef) vm_status) result" where
  "aptos_check_transaction_format S transaction =
     (if txn_duplicate_signers S transaction then Err (StatusError SIGNERS_CONTAIN_DUPLICATES) else Ok ())"

definition aptos_run_prologue ::
  "gas_ops \<Rightarrow> ('k, 'er) gas_check_env \<Rightarrow> ('sess, 'k, 'er, 'a, 'vmerr, 'loc, 'ef) known_functions \<Rightarrow> ('a, 'loc) transaction_validation \<Rightarrow>
   bool \<Rightarrow> ('a, 'loc) aptos_vm_impl \<Rightarrow> ('signed, 'a, 'ty, 'ta) signed_ops \<Rightarrow> 'sess \<Rightarrow> 'signed \<Rightarrow>
   ('k, 'er, (unit, ('loc, 'ef) vm_status) result \<times> 'sess) vm_prog" where
  "aptos_run_prologue q G F default_validation module_bundle_disallowed vm S session transaction =
     run_prologue_with_payload q G F default_validation module_bundle_disallowed vm session (txn_payload S transaction)
       (transaction_metadata_new S transaction)"

section \<open>Admission\<close>

text \<open>
  The conversion that \<open>check_gas\<close> uses rounds up, as documented in the gas algebra.
\<close>

definition round_up_ok :: "('k, 'er) gas_check_env \<Rightarrow> bool" where
  "round_up_ok G \<longleftrightarrow>
     (\<forall>a n d. n \<noteq> 0 \<longrightarrow> d \<noteq> 0 \<longrightarrow> unat (round_up G a (n, d)) = min ((unat a * unat n + unat d - 1) div unat d) MAX_U64)"

text \<open>The gas of a transaction's size, in internal units.\<close>

definition intrinsic_price :: "params \<Rightarrow> u64 \<Rightarrow> nat" where
  "intrinsic_price p sz =
     min (unat (p ''min_transaction_gas_units'') + (unat sz - unat (p ''large_transaction_cutoff'')) * unat (p ''intrinsic_gas_per_byte'')) MAX_U64"

lemma ceil_div_le_iff: "0 < d \<Longrightarrow> (a + d - 1) div d \<le> n \<longleftrightarrow> a \<le> n * (d::nat)"
  using div_le_mono[of "n * d + d - 1" "a + d - 1" d]
  by (auto simp: div_less_iff_less_mult less_Suc_eq_le[symmetric])

text \<open>The checks of \<open>check_gas\<close>, as one condition.\<close>

definition within_bounds :: "params \<Rightarrow> 'a transaction_metadata \<Rightarrow> bool" where
  "within_bounds p md \<longleftrightarrow>
     md_max_gas_amount md \<le> p ''maximum_number_of_gas_units'' \<and>
     intrinsic_price p (md_transaction_size md) \<le> unat (md_max_gas_amount md) * unat (scaling_factor p) \<and>
     p ''min_price_per_gas_unit'' \<le> md_gas_unit_price md \<and> md_gas_unit_price md \<le> p ''max_price_per_gas_unit''"

lemma check_gas_bounds_iff:
  assumes q: "gas_ops_ok q" and r: "round_up_ok G"
  shows "check_gas_bounds q G p md = Some (Ok ()) \<longleftrightarrow> within_bounds p md"
proof -
  obtain g where g: "calculate_intrinsic_gas q p (md_transaction_size md) = Some g"
    "unat g = intrinsic_price p (md_transaction_size md)"
    using intrinsic_gas_closed[OF q] unfolding intrinsic_price_def by blast
  let ?s = "scaling_factor p" and ?n = "unat (md_max_gas_amount md)"
  have s: "?s \<noteq> 0" "0 < unat ?s" using scaling_factor_pos[of p] by (simp_all add: unat_gt_0)
  have "unat (round_up G g (ratio p)) = min ((unat g + unat ?s - 1) div unat ?s) MAX_U64"
    using r s(1) by (simp add: round_up_ok_def ratio_def)
  then have "round_up G g (ratio p) \<le> md_max_gas_amount md \<longleftrightarrow> min ((unat g + unat ?s - 1) div unat ?s) MAX_U64 \<le> ?n"
    by (simp add: word_le_nat_alt)
  also have "\<dots> \<longleftrightarrow> (unat g + unat ?s - 1) div unat ?s \<le> ?n \<or> MAX_U64 \<le> ?n" by (simp add: min_le_iff_disj)
  also have "\<dots> \<longleftrightarrow> unat g \<le> ?n * unat ?s"
  proof -
    have "unat g \<le> ?n * unat ?s" if "MAX_U64 \<le> ?n"
      using that unat_le_MAX[of g] s(2) by (metis le_trans mult_le_mono2 nat_mult_1_right Suc_leI One_nat_def)
    then show ?thesis using ceil_div_le_iff[OF s(2), of "unat g" ?n] by blast
  qed
  finally show ?thesis
    by (auto simp: check_gas_bounds_def within_bounds_def g not_less Let_def)
qed

lemma approved_size_le: "approved_size q G p md resource \<Longrightarrow> md_transaction_size md \<le> MAXIMUM_APPROVED_TRANSACTION_SIZE"
  by (simp add: approved_size_def split: result.splits option.splits)

lemma check_gas_Ok:
  assumes "gas_ops_ok q" "round_up_ok G"
  shows "run_prog answer (check_gas q G vm md) = Some (Ok ()) \<longleftrightarrow>
    (\<exists>gp. vm_gas_params vm = Some gp \<and> within_bounds (txn gp) md \<and>
       (md_transaction_size md \<le> txn gp ''max_transaction_size_in_bytes'' \<or>
        (\<exists>a. answer (approved_hashes_key G) = Some a \<and> approved_size q G (txn gp) md a)))"
  using check_gas_bounds_iff[OF assms]
  by (auto simp: check_gas_def get_gas_parameters_def Let_def not_less split: option.splits)

text \<open>
  C5.  A transaction that passes the gas check can pay for its own size: the meter of its execution starts (no
  inconsistent configuration), the intrinsic charge succeeds and leaves exactly the declared gas minus the
  price of the size, both in internal units; and the check has bounded the declared gas and the price, and
  the size unless the transaction is an approved script.  So the rounding of the check and the
  conversions of the meter agree, saturation included.
\<close>

theorem admission_covers_intrinsic_gas:
  assumes q: "gas_ops_ok q" and r: "round_up_ok G"
    and ok: "run_prog answer (check_gas q G vm md) = Some (Ok ())"
    and sp: "get_storage_gas_parameters vm = (Ok sp :: (_, ('loc, 'ef) vm_status) result)"
  shows "\<exists>gp m m'. vm_gas_params vm = Some gp \<and>
     meter_new q (vm_gas_feature_version vm) gp sp (md_max_gas_amount md) = Some m \<and>
     charge_intrinsic_gas_for_transaction q (md_transaction_size md) m = Some (Ok (), m') \<and>
     unat (balance m') =
       min (unat (md_max_gas_amount md) * unat (scaling_factor (txn gp))) MAX_U64 - intrinsic_price (txn gp) (md_transaction_size md) \<and>
     md_max_gas_amount md \<le> txn gp ''maximum_number_of_gas_units'' \<and>
     txn gp ''min_price_per_gas_unit'' \<le> md_gas_unit_price md \<and> md_gas_unit_price md \<le> txn gp ''max_price_per_gas_unit'' \<and>
     (md_transaction_size md \<le> txn gp ''max_transaction_size_in_bytes'' \<or>
      md_transaction_size md \<le> MAXIMUM_APPROVED_TRANSACTION_SIZE)"
proof -
  from ok obtain gp where gp: "vm_gas_params vm = Some gp" "within_bounds (txn gp) md"
    "md_transaction_size md \<le> txn gp ''max_transaction_size_in_bytes'' \<or> md_transaction_size md \<le> MAXIMUM_APPROVED_TRANSACTION_SIZE"
    unfolding check_gas_Ok[OF q r] using approved_size_le by blast
  let ?s = "scaling_factor (txn gp)" and ?price = "intrinsic_price (txn gp) (md_transaction_size md)"
  obtain g where g: "calculate_intrinsic_gas q (txn gp) (md_transaction_size md) = Some g" "unat g = ?price"
    using intrinsic_gas_closed[OF q] unfolding intrinsic_price_def by blast
  have b: "unat (gq_to_unit q (md_max_gas_amount md) ?s) = min (unat (md_max_gas_amount md) * unat ?s) MAX_U64"
    using q scaling_factor_pos[of "txn gp"] by (simp add: gas_ops_ok_def)
  have "?price \<le> MAX_U64" by (simp add: intrinsic_price_def)
  then have le: "g \<le> gq_to_unit q (md_max_gas_amount md) ?s"
    using gp(2) by (simp add: word_le_nat_alt b g within_bounds_def)
  have "(vm_gas_feature_version vm = 0) = (sp = None)"
    using sp by (cases "vm_gas_feature_version vm = 0"; cases "vm_storage_gas_params vm") (auto simp: get_storage_gas_parameters_def)
  then obtain m where m: "meter_new q (vm_gas_feature_version vm) gp sp (md_max_gas_amount md) = Some m"
    "gas_params m = gp" "balance m = gq_to_unit q (md_max_gas_amount md) ?s"
    by (auto simp: meter_new_def multiplier_def word_gt_0)
  have "charge_intrinsic_gas_for_transaction q (md_transaction_size md) m = Some (Ok (), m\<lparr>balance := balance m - g\<rparr>)"
    using le q by (simp add: charge_intrinsic_gas_for_transaction_def m g charge_def gas_ops_ok_def)
  moreover have "unat (balance m - g) = min (unat (md_max_gas_amount md) * unat ?s) MAX_U64 - ?price"
    using le by (simp add: m unat_sub b g)
  ultimately show ?thesis using gp m(1) by (auto simp: within_bounds_def)
qed

definition demo_gas_params :: aptos_gas_parameters where
  "demo_gas_params = aptos_zeros\<lparr>txn := (\<lambda>_. 0)
     (''maximum_number_of_gas_units'' := 1000, ''min_transaction_gas_units'' := 250, ''large_transaction_cutoff'' := 600,
      ''intrinsic_gas_per_byte'' := 2, ''gas_unit_scaling_factor'' := 100, ''max_price_per_gas_unit'' := 90,
      ''max_transaction_size_in_bytes'' := 700)\<rparr>"

definition demo_vm :: "(nat, unit) aptos_vm_impl" where
  "demo_vm = \<lparr>vm_gas_feature_version = 3, vm_gas_params = Some demo_gas_params, vm_storage_gas_params = Some demo_storage,
     vm_transaction_validation = None\<rparr>"

definition demo_gas_check :: "(nat, unit) gas_check_env" where
  "demo_gas_check = \<lparr>approved_hashes_key = 0, decode_hashes = (\<lambda>_. None),
     round_up = (\<lambda>a (n, d). of_nat (min ((unat a * unat n + unat d - 1) div unat d) MAX_U64))\<rparr>"

lemma demo_round_up: "round_up_ok demo_gas_check"
  by (auto simp: round_up_ok_def demo_gas_check_def unat_of_len)

definition demo_metadata :: "nat transaction_metadata" where
  "demo_metadata = \<lparr>md_sender = 7, md_authentication_key = [], md_secondary_signers = [], md_secondary_authentication_keys = [],
     md_sequence_number = 4, md_max_gas_amount = 5, md_gas_unit_price = 1, md_transaction_size = 625, md_expiration_timestamp_secs = 0,
     md_chain_id = 1, md_script_hash = [], md_script_size = 0\<rparr>"

lemma demo_admitted:
  "run_prog answer (check_gas sat_ops demo_gas_check demo_vm demo_metadata) = Some (Ok () :: (unit, (unit, unit) vm_status) result)"
  unfolding check_gas_Ok[OF sat_ops_ok demo_round_up]
  by (auto simp: demo_vm_def demo_gas_params_def demo_metadata_def within_bounds_def intrinsic_price_def scaling_factor_def MAX_U64_def)

theorem admission_covers_intrinsic_gas_witness:
  "\<exists>m m'. meter_new sat_ops 3 demo_gas_params (Some demo_storage) 5 = Some m \<and>
     charge_intrinsic_gas_for_transaction sat_ops 625 m = Some (Ok (), m') \<and> unat (balance m') = 200"
proof -
  have "get_storage_gas_parameters demo_vm = (Ok (Some demo_storage) :: (_, (unit, unit) vm_status) result)"
    by (simp add: get_storage_gas_parameters_def demo_vm_def)
  from admission_covers_intrinsic_gas[OF sat_ops_ok demo_round_up demo_admitted this] show ?thesis
    by (auto simp: demo_vm_def demo_metadata_def intrinsic_price_def scaling_factor_def MAX_U64_def demo_gas_params_def)
qed

section \<open>Validation\<close>

text \<open>The call of the prologue for a transaction: its Move function and arguments.\<close>

definition prologue_name :: "('a, 'loc) transaction_validation \<Rightarrow> ('a, 'ty, 'ta) transaction_payload \<Rightarrow> 'a transaction_metadata \<Rightarrow> string" where
  "prologue_name tv payload md =
     (case payload of
        ModuleBundle _ \<Rightarrow> tv_module_prologue_name tv
      | _ \<Rightarrow> if is_multi_agent md then tv_multi_agent_prologue_name tv else tv_script_prologue_name tv)"

definition prologue_args :: "('a, 'ty, 'ta) transaction_payload \<Rightarrow> 'a transaction_metadata \<Rightarrow> 'a move_value list" where
  "prologue_args payload md =
     (case payload of
        ModuleBundle _ \<Rightarrow>
          [MVSigner (md_sender md), MVU64 (md_sequence_number md), vector_u8 (md_authentication_key md),
           MVU64 (md_gas_unit_price md), MVU64 (md_max_gas_amount md), MVU64 (md_expiration_timestamp_secs md), MVU8 (md_chain_id md)]
      | _ \<Rightarrow> script_prologue_args md)"

text \<open>An error of the prologue that says the sequence number is ahead of the account's.\<close>

definition sequence_number_too_new ::
  "('sess, 'k, 'er, 'a, 'vmerr, 'loc, 'ef) known_functions \<Rightarrow> ('a, 'loc) transaction_validation \<Rightarrow> 'vmerr \<Rightarrow> bool" where
  "sequence_number_too_new F tv e \<longleftrightarrow>
     (\<exists>location code. vmerr_into_status F (expect_no_verification_errors F e) = MoveAbort location code \<and>
        is_account_module_abort tv location \<and> error_split code = (INVALID_ARGUMENT, ESEQUENCE_NUMBER_TOO_NEW))"

text \<open>\<open>VMStatus::status_code\<close> on the statuses that matter here.\<close>

definition status_codes_ok :: "(('loc, 'ef) vm_status \<Rightarrow> status_code) \<Rightarrow> bool" where
  "status_codes_ok code_of \<longleftrightarrow> (\<forall>c. code_of (StatusError c) = c) \<and> code_of Executed \<noteq> SEQUENCE_NUMBER_TOO_NEW"

lemma convert_prologue_error_Err: "\<exists>st. convert_prologue_error acc status = Err st \<and> (status_codes_ok code_of \<longrightarrow>
    (code_of st = SEQUENCE_NUMBER_TOO_NEW \<longleftrightarrow> (\<exists>location code. status = MoveAbort location code \<and> acc location \<and>
        error_split code = (INVALID_ARGUMENT, ESEQUENCE_NUMBER_TOO_NEW))))"
  by (auto simp: convert_prologue_error_def status_codes_ok_def prologue_too_new_iff[symmetric] split: vm_status.split option.split)

text \<open>A call passes when it succeeds, or fails with an error that is allowed.\<close>

definition passes ::
  "('k \<Rightarrow> 'q option) \<Rightarrow> ('e \<Rightarrow> bool) \<Rightarrow> ('k, 'q, (unit, 'e) result \<times> 'sess) prog \<Rightarrow> bool" where
  "passes answer allowed p \<longleftrightarrow>
     (\<exists>r s'. run_prog answer p = Some (r, s') \<and> (case r of Ok _ \<Rightarrow> True | Err e \<Rightarrow> allowed e))"

lemma call_prologue:
  assumes "status_codes_ok code_of"
  shows "passes answer (\<lambda>e. allow \<and> code_of e = SEQUENCE_NUMBER_TOO_NEW)
      (call_known F session mid name args (convert_prologue_error (is_account_module_abort tv))) \<longleftrightarrow>
    passes answer (\<lambda>e. allow \<and> sequence_number_too_new F tv e) (execute_unmetered F session mid name (serialize_values F args))"
proof (cases "run_prog answer (execute_unmetered F session mid name (serialize_values F args))")
  case (Some x)
  obtain r s' where x: "x = (r, s')" by fastforce
  show ?thesis
  proof (cases r)
    case (Err e)
    from convert_prologue_error_Err[of "is_account_module_abort tv" "vmerr_into_status F (expect_no_verification_errors F e)" code_of] assms
    show ?thesis by (auto simp: Some x Err call_known_def passes_def sequence_number_too_new_def)
  qed (simp add: Some x call_known_def passes_def)
qed (simp add: call_known_def passes_def)

text \<open>When validation accepts a transaction, given the answers to its reads.\<close>

definition acceptable where
  "acceptable q G F default_validation module_bundle_disallowed vm S answer allow session transaction \<longleftrightarrow>
     (let md = transaction_metadata_new S transaction; payload = txn_payload S transaction;
          tv = get_transaction_validation default_validation vm
      in \<not> txn_duplicate_signers S transaction \<and>
         \<not> (module_bundle_disallowed \<and> (\<exists>modules. payload = ModuleBundle modules)) \<and>
         (\<exists>gp. vm_gas_params vm = Some gp \<and> within_bounds (txn gp) md \<and>
            (md_transaction_size md \<le> txn gp ''max_transaction_size_in_bytes'' \<or>
             (\<exists>a. answer (approved_hashes_key G) = Some a \<and> approved_size q G (txn gp) md a))) \<and>
         passes answer (\<lambda>e. allow \<and> sequence_number_too_new F tv e)
           (execute_unmetered F session (tv_module_id tv) (prologue_name tv payload md) (serialize_values F (prologue_args payload md))))"

lemma check_gas_not_too_new:
  "run_prog answer (check_gas q G vm md) = Some (Err e) \<Longrightarrow> status_codes_ok code_of \<Longrightarrow> code_of e \<noteq> SEQUENCE_NUMBER_TOO_NEW"
  by (auto simp: check_gas_def get_gas_parameters_def check_gas_bounds_def Let_def status_codes_ok_def bind_eq_Some_conv
      split: option.splits if_splits)

lemma prologue_passes_iff:
  fixes code_of :: "('loc, 'ef) vm_status \<Rightarrow> status_code"
  assumes codes: "status_codes_ok code_of" and q: "gas_ops_ok q" and r: "round_up_ok G" and "\<not> txn_duplicate_signers S transaction"
  shows "passes answer (\<lambda>e. allow \<and> code_of e = SEQUENCE_NUMBER_TOO_NEW)
      (aptos_run_prologue q G F default_validation disallowed vm S session transaction) \<longleftrightarrow>
    acceptable q G F default_validation disallowed vm S answer allow session transaction"
proof -
  let ?md = "transaction_metadata_new S transaction" and ?tv = "get_transaction_validation default_validation vm"
  let ?P = "passes answer (\<lambda>e. allow \<and> code_of e = SEQUENCE_NUMBER_TOO_NEW)"
  have checked: "?P (prog_bind (check_gas q G vm ?md) (\<lambda>r. case r of Ok _ \<Rightarrow> rest | Err e \<Rightarrow> Return (Err e, session))) \<longleftrightarrow>
      run_prog answer (check_gas q G vm ?md) = Some (Ok () :: (unit, ('loc, 'ef) vm_status) result) \<and> ?P rest" for rest
    using check_gas_not_too_new[OF _ codes, of answer q G vm ?md]
    by (cases "run_prog answer (check_gas q G vm ?md) :: (unit, ('loc, 'ef) vm_status) result option")
      (auto simp: passes_def split: result.split)
  have gate: "\<not> ?P (Return (Err (StatusError FEATURE_UNDER_GATING), session))"
    using codes by (simp add: passes_def status_codes_ok_def)
  show ?thesis
    using assms(4)
    by (cases "txn_payload S transaction"; cases disallowed)
      (simp_all add: aptos_run_prologue_def run_prologue_with_payload_def Let_def checked gate acceptable_def check_gas_Ok[OF q r]
        run_script_prologue_def run_module_prologue_def call_prologue[OF codes] prologue_name_def prologue_args_def)
qed

lemma validation_passes_iff:
  assumes "status_codes_ok code_of" "gas_ops_ok q" "round_up_ok G"
  shows "(\<exists>s'. run_prog answer (validate_signature_checked_transaction code_of (aptos_check_transaction_format S)
      (aptos_run_prologue q G F default_validation disallowed vm S) session transaction allow) = Some (Ok (), s')) \<longleftrightarrow>
    acceptable q G F default_validation disallowed vm S answer allow session transaction"
proof (cases "txn_duplicate_signers S transaction")
  case True
  then show ?thesis
    by (simp add: validate_signature_checked_transaction_def aptos_check_transaction_format_def acceptable_def Let_def)
next
  case False
  let ?p = "run_prog answer (aptos_run_prologue q G F default_validation disallowed vm S session transaction)"
  show ?thesis
  proof (cases ?p)
    case (Some x)
    obtain r s' where "x = (r, s')" by fastforce
    with Some False show ?thesis
      unfolding prologue_passes_iff[OF assms False, symmetric]
      by (cases r) (auto simp: validate_signature_checked_transaction_def aptos_check_transaction_format_def passes_def)
  qed (use False in \<open>simp add: prologue_passes_iff[OF assms False, symmetric] validate_signature_checked_transaction_def
        aptos_check_transaction_format_def passes_def\<close>)
qed

end
