(* ===== verification/Code_Publish.thy ===== *)
theory Code_Publish
  imports Gas_Params Utf8 "HOL-Library.List_Lexorder"
begin

text \<open>
  Publishing code: the request that the native functions record (\<^verbatim>\<open>framework/src/natives/code.rs\<close>) and its
  validation before the bundle is published (\<open>validate_publish_request\<close> in \<^verbatim>\<open>aptos-vm/src/aptos_vm.rs\<close>).
  A Rust \<open>String\<close> is its UTF-8 bytes.  The values of the Move VM and compiled modules are accessed through
  parameters.  The debug assertion on the number of arguments is left out.
\<close>

section \<open>Definitions\<close>

record 'x move_option =
  mo_value :: "'x list"

definition move_option_none :: "'x move_option" where "move_option_none = \<lparr>mo_value = []\<rparr>"
definition move_option_some :: "'x \<Rightarrow> 'x move_option" where "move_option_some x = \<lparr>mo_value = [x]\<rparr>"
definition move_option_is_none :: "'x move_option \<Rightarrow> bool" where "move_option_is_none m \<longleftrightarrow> mo_value m = []"
definition move_option_is_some :: "'x move_option \<Rightarrow> bool" where "move_option_is_some m \<longleftrightarrow> mo_value m \<noteq> []"

record upgrade_policy =
  policy :: u8

definition policy_arbitrary :: upgrade_policy where "policy_arbitrary = \<lparr>policy = 0\<rparr>"
definition policy_compat :: upgrade_policy where "policy_compat = \<lparr>policy = 1\<rparr>"
definition policy_immutable :: upgrade_policy where "policy_immutable = \<lparr>policy = 2\<rparr>"

definition policy_from_str :: "string \<Rightarrow> upgrade_policy option" where
  "policy_from_str s =
     (if s = ''arbitrary'' then Some policy_arbitrary
      else if s = ''compatible'' then Some policy_compat
      else if s = ''immutable'' then Some policy_immutable
      else None)"

definition policy_display :: "upgrade_policy \<Rightarrow> string" where
  "policy_display p = (if policy p = 0 then ''arbitrary'' else if policy p = 1 then ''compatible'' else ''immutable'')"

definition EALREADY_REQUESTED :: u64 where "EALREADY_REQUESTED = 0x030000"

definition CHECK_COMPAT_POLICY :: u8 where "CHECK_COMPAT_POLICY = 1"

type_synonym 'a allowed_deps = "('a, bytes set) btree"

record 'a publish_request =
  destination :: 'a
  request_bundle :: "bytes list"
  expected_modules :: "bytes set"
  allowed_deps :: "'a allowed_deps option"
  check_compat :: bool

record 'a native_code_context =
  requested_module_bundle :: "'a publish_request option"

record ('v, 'a) code_host =
  pop_back_value :: "'v list \<Rightarrow> ('v \<times> 'v list, partial_vm_error) result"
  value_u8 :: "'v \<Rightarrow> (u8, partial_vm_error) result"
  value_values :: "'v \<Rightarrow> ('v list, partial_vm_error) result"
  value_bytes :: "'v \<Rightarrow> (bytes, partial_vm_error) result"
  value_fields :: "'v \<Rightarrow> ('v list, partial_vm_error) result"
  value_address :: "'v \<Rightarrow> ('a, partial_vm_error) result"

definition internal_type_error :: partial_vm_error where
  "internal_type_error = \<lparr>major_status = INTERNAL_TYPE_ERROR, message = None, sub_status = None\<rparr>"

definition get_move_string :: "('v, 'a) code_host \<Rightarrow> 'v \<Rightarrow> (bytes, partial_vm_error) result" where
  "get_move_string H v =
     bind_ok (value_fields H v) (\<lambda>fs.
     case fs of
       [] \<Rightarrow> Err internal_type_error
     | f # _ \<Rightarrow> bind_ok (value_bytes H f) (\<lambda>bs. if from_utf8 bs then Ok bs else Err internal_type_error))"

definition unpack_allowed_dep :: "('v, 'a) code_host \<Rightarrow> 'v \<Rightarrow> ('a \<times> bytes, partial_vm_error) result" where
  "unpack_allowed_dep H v =
     bind_ok (value_fields H v) (\<lambda>fs.
     case fs of
       [f0, f1] \<Rightarrow>
         bind_ok (get_move_string H f1) (\<lambda>module_name.
         bind_ok (value_address H f0) (\<lambda>account. Ok (account, module_name)))
     | _ \<Rightarrow> Err internal_type_error)"

text \<open>A \<open>for\<close> loop that converts values one after the other.\<close>

fun convert_all :: "('v \<Rightarrow> ('b, 'e) result) \<Rightarrow> 'v list \<Rightarrow> ('b list, 'e) result" where
  "convert_all f [] = Ok []"
| "convert_all f (v # vs) = bind_ok (f v) (\<lambda>x. map_ok ((#) x) (convert_all f vs))"

text \<open>\<open>entry(account).or_default()\<close> followed by an extension of the set.\<close>

definition extend_entry :: "'a::linorder \<Rightarrow> bytes set \<Rightarrow> 'a allowed_deps \<Rightarrow> 'a allowed_deps" where
  "extend_entry account names m =
     bt_insert account ((case map_of m account of Some s \<Rightarrow> s | None \<Rightarrow> {}) \<union> names) m"

definition collect_allowed :: "('a::linorder \<times> bytes) list \<Rightarrow> 'a allowed_deps" where
  "collect_allowed deps = foldl (\<lambda>m (account, module_name). extend_entry account {module_name} m) [] deps"

definition num_bytes :: "gas_ops \<Rightarrow> u64 \<Rightarrow> bytes list \<Rightarrow> u64" where
  "num_bytes q acc xs = foldl (\<lambda>acc x. gq_add q acc (of_nat (length x))) acc xs"

definition request_publish_cost ::
  "gas_ops \<Rightarrow> u64 \<Rightarrow> u64 \<Rightarrow> bytes list \<Rightarrow> bytes set \<Rightarrow> 'a allowed_deps option \<Rightarrow> u64" where
  "request_publish_cost q base per_byte code expected allowed =
     gq_add q (gq_add q (gq_add q base
       (gq_mul q per_byte (num_bytes q 0 code)))
       (gq_mul q per_byte (num_bytes q 0 (sorted_list_of_set expected))))
       (gq_mul q per_byte
         (foldl (\<lambda>acc (_, deps). gq_add q (gq_add q acc 32) (num_bytes q 0 (sorted_list_of_set deps))) 0
           (case allowed of Some m \<Rightarrow> m | None \<Rightarrow> [])))"

text \<open>\<open>pop_arg!\<close>: the last argument, converted.\<close>

definition pop_arg :: "('v, 'a) code_host \<Rightarrow> ('v \<Rightarrow> ('b, partial_vm_error) result) \<Rightarrow> 'v list \<Rightarrow> ('b \<times> 'v list, partial_vm_error) result" where
  "pop_arg H conv args = bind_ok (pop_back_value H args) (\<lambda>(v, rest). map_ok (\<lambda>x. (x, rest)) (conv v))"

text \<open>The arguments in the order in which the native takes them: policy, code, allowed dependencies, names, destination.\<close>

definition publish_args ::
  "('v, 'a) code_host \<Rightarrow> 'v list \<Rightarrow>
   (u8 \<times> bytes list \<times> ('a \<times> bytes) list option \<times> bytes list \<times> 'a, partial_vm_error) result" where
  "publish_args H args =
     (let with_allowed_deps = (length args = 5)
      in bind_ok (pop_arg H (value_u8 H) args) (\<lambda>(pol, args).
         bind_ok (pop_arg H (value_values H) args) (\<lambda>(modules, args).
         bind_ok (convert_all (value_bytes H) modules) (\<lambda>code.
         bind_ok (if with_allowed_deps then
                    bind_ok (pop_arg H (value_values H) args) (\<lambda>(deps, args).
                    map_ok (\<lambda>ds. (Some ds, args)) (convert_all (unpack_allowed_dep H) deps))
                  else Ok (None, args)) (\<lambda>(allowed, args).
         bind_ok (pop_arg H (value_values H) args) (\<lambda>(names, args).
         bind_ok (convert_all (get_move_string H) names) (\<lambda>expected.
         bind_ok (pop_arg H (value_address H) args) (\<lambda>(dest, _).
         Ok (pol, code, allowed, expected, dest)))))))))"

text \<open>
  The native function returns its cost together with success or an abort code, or fails; the context is
  passed on.
\<close>

definition native_request_publish ::
  "gas_ops \<Rightarrow> ('v, 'a::linorder) code_host \<Rightarrow> u64 \<Rightarrow> u64 \<Rightarrow> 'a native_code_context \<Rightarrow> 'v list \<Rightarrow>
   (u64 \<times> (unit, u64) result, partial_vm_error) result \<times> 'a native_code_context" where
  "native_request_publish q H base per_byte ctx args =
     (case publish_args H args of
        Err e \<Rightarrow> (Err e, ctx)
      | Ok (pol, code, deps, names, dest) \<Rightarrow>
          (let allowed = map_option collect_allowed deps;
               expected = set names;
               cost = request_publish_cost q base per_byte code expected allowed;
               allowed' = map_option (extend_entry dest expected) allowed
           in if requested_module_bundle ctx \<noteq> None then (Ok (cost, Err EALREADY_REQUESTED), ctx)
              else (Ok (cost, Ok ()), \<lparr>requested_module_bundle =
                      Some \<lparr>destination = dest, request_bundle = code, expected_modules = expected, allowed_deps = allowed',
                            check_compat = (pol = CHECK_COMPAT_POLICY)\<rparr>\<rparr>)))"

text \<open>\<open>extract_publish_request\<close> of the session takes the request.\<close>

definition extract_publish_request :: "'a native_code_context \<Rightarrow> 'a publish_request option \<times> 'a native_code_context" where
  "extract_publish_request ctx = (requested_module_bundle ctx, ctx\<lparr>requested_module_bundle := None\<rparr>)"

subsection \<open>Validation\<close>

datatype signature_token = SigSigner | SigReference signature_token | SigOther

datatype visibility = VisPrivate | VisPublic | VisFriend

text \<open>A function definition of a module, with the name and the signatures its handle refers to.\<close>

record function_definition =
  fdef_name :: string
  fdef_visibility :: visibility
  fdef_parameters :: "signature_token list"
  fdef_return :: "signature_token list"

record ('cm, 'a) module_ops =
  function_defs :: "'cm \<Rightarrow> function_definition list"
  module_deserialize :: "bytes \<Rightarrow> ('cm, partial_vm_error) result"
  self_id :: "'cm \<Rightarrow> 'a \<times> bytes"
  immediate_dependencies :: "'cm \<Rightarrow> ('a \<times> bytes) list"
  show_module_id :: "'a \<times> bytes \<Rightarrow> string"

text \<open>The verification of a module initialiser, from \<^verbatim>\<open>aptos-module-verifier/src/module_init.rs\<close>.\<close>

fun is_signer_or_signer_reference :: "signature_token \<Rightarrow> bool" where
  "is_signer_or_signer_reference SigSigner = True"
| "is_signer_or_signer_reference (SigReference inner) = (inner = SigSigner)"
| "is_signer_or_signer_reference _ = False"

definition verification_error :: "string \<Rightarrow> partial_vm_error" where
  "verification_error msg = \<lparr>major_status = VERIFICATION_ERROR, message = Some msg, sub_status = None\<rparr>"

definition verify_module_init_function :: "('cm, 'a) module_ops \<Rightarrow> 'cm \<Rightarrow> (unit, partial_vm_error) result" where
  "verify_module_init_function M module =
     (case find (\<lambda>fdef. fdef_name fdef = ''init_module'') (function_defs M module) of
        None \<Rightarrow> Ok ()
      | Some fdef \<Rightarrow>
          if fdef_visibility fdef \<noteq> VisPrivate then Err (verification_error ''module_init_function is not private'')
          else if fdef_return fdef \<noteq> [] then Err (verification_error ''module_init_function should not return'')
          else if list_ex (\<lambda>e. \<not> is_signer_or_signer_reference e) (fdef_parameters fdef)
            then Err (verification_error ''module_init_function should not have no-signer arguments'')
          else Ok ())"

definition bytes_string :: "bytes \<Rightarrow> string" where
  "bytes_string bs = map (\<lambda>b. char_of (unat b)) bs"

definition metadata_validation_error :: "string \<Rightarrow> partial_vm_error" where
  "metadata_validation_error msg =
     \<lparr>major_status = CONSTRAINT_NOT_SATISFIED, message = Some (''metadata and code bundle mismatch: '' @ msg), sub_status = None\<rparr>"

definition dep_allowed :: "'a allowed_deps \<Rightarrow> 'a \<times> bytes \<Rightarrow> bool" where
  "dep_allowed allowed dep =
     (case map_of allowed (fst dep) of Some modules \<Rightarrow> [] \<in> modules \<or> snd dep \<in> modules | None \<Rightarrow> False)"

fun check_deps :: "('cm, 'a) module_ops \<Rightarrow> 'a allowed_deps \<Rightarrow> ('a \<times> bytes) list \<Rightarrow> (unit, partial_vm_error) result" where
  "check_deps M allowed [] = Ok ()"
| "check_deps M allowed (dep # deps) =
     (if \<not> dep_allowed allowed dep
      then Err (metadata_validation_error (''unregistered dependency: '' @ [CHR 0x27] @ show_module_id M dep @ [CHR 0x27]))
      else check_deps M allowed deps)"

fun validate_publish_request ::
  "('cm, 'a) module_ops \<Rightarrow> 'cm list \<Rightarrow> bytes set \<Rightarrow> 'a allowed_deps option \<Rightarrow> (unit, partial_vm_error) result" where
  "validate_publish_request M [] expected allowed =
     (if expected \<noteq> {} then Err (metadata_validation_error ''not all registered modules published'') else Ok ())"
| "validate_publish_request M (m # ms) expected allowed =
     (let name = snd (self_id M m)
      in if name \<notin> expected
         then Err (metadata_validation_error (''unregistered module: '' @ [CHR 0x27] @ bytes_string name @ [CHR 0x27]))
         else
           bind_ok (case allowed of Some a \<Rightarrow> check_deps M a (immediate_dependencies M m) | None \<Rightarrow> Ok ()) (\<lambda>_.
           validate_publish_request M ms (expected - {name}) allowed))"

fun deserialize_module_bundle :: "('cm, 'a) module_ops \<Rightarrow> bytes list \<Rightarrow> ('cm list, partial_vm_error) result" where
  "deserialize_module_bundle M [] = Ok []"
| "deserialize_module_bundle M (blob # blobs) =
     (case module_deserialize M blob of
        Err _ \<Rightarrow> Err \<lparr>major_status = CODE_DESERIALIZATION_ERROR, message = None, sub_status = None\<rparr>
      | Ok m \<Rightarrow> map_ok ((#) m) (deserialize_module_bundle M blobs))"

section \<open>What a request admits\<close>

text \<open>A policy is read back from its name.\<close>

lemma policy_roundtrip: "policy p \<le> 2 \<Longrightarrow> policy_from_str (policy_display p) = Some p"
proof -
  assume "policy p \<le> 2"
  then have "policy p = 0 \<or> policy p = 1 \<or> policy p = 2" by (simp add: word_le_nat_alt word_unat_eq_iff) linarith
  moreover have "p = \<lparr>policy = policy p\<rparr>" by simp
  ultimately show ?thesis
    by (auto simp: policy_display_def policy_from_str_def policy_arbitrary_def policy_compat_def policy_immutable_def)
qed

lemma policy_display_from_str: "policy_from_str s = Some p \<Longrightarrow> policy_display p = s"
  by (auto simp: policy_from_str_def policy_display_def policy_arbitrary_def policy_compat_def policy_immutable_def split: if_splits)

lemma extend_entry_get:
  "map_of (extend_entry account names m) x =
     (if x = account then Some ((case map_of m account of Some s \<Rightarrow> s | None \<Rightarrow> {}) \<union> names) else map_of m x)"
  by (simp add: extend_entry_def map_of_bt_insert)

definition dep_names :: "'a allowed_deps \<Rightarrow> 'a \<Rightarrow> bytes set" where
  "dep_names m x = (case map_of m x of Some s \<Rightarrow> s | None \<Rightarrow> {})"

lemma dep_names_extend: "dep_names (extend_entry account names m) x = dep_names m x \<union> (if x = account then names else {})"
  by (auto simp: dep_names_def extend_entry_get split: option.split)

lemma dep_names_collect: "dep_names (collect_allowed deps) x = {n. (x, n) \<in> set deps}"
proof -
  have "dep_names (foldl (\<lambda>m (account, module_name). extend_entry account {module_name} m) m deps) x =
      dep_names m x \<union> {n. (x, n) \<in> set deps}" for m
    by (induction deps arbitrary: m) (auto simp: dep_names_extend split: if_splits)
  from this[of "[]"] show ?thesis by (simp add: collect_allowed_def dep_names_def)
qed

lemma dep_allowed_names: "dep_allowed m dep \<longleftrightarrow> [] \<in> dep_names m (fst dep) \<or> snd dep \<in> dep_names m (fst dep)"
  by (auto simp: dep_allowed_def dep_names_def split: option.split)

lemma check_deps_Ok: "check_deps M a deps = Ok () \<longleftrightarrow> (\<forall>dep \<in> set deps. dep_allowed a dep)"
  by (induction deps) auto

lemma validate_publish_request_Ok:
  "validate_publish_request M ms expected allowed = Ok () \<longleftrightarrow>
     distinct (map (\<lambda>m. snd (self_id M m)) ms) \<and> set (map (\<lambda>m. snd (self_id M m)) ms) = expected \<and>
     (\<forall>a. allowed = Some a \<longrightarrow> (\<forall>m \<in> set ms. \<forall>dep \<in> set (immediate_dependencies M m). dep_allowed a dep))"
proof (induction M ms expected allowed rule: validate_publish_request.induct)
  case (1 M expected allowed)
  then show ?case by auto
next
  case (2 M m ms expected allowed)
  let ?n = "snd (self_id M m)"
  have d: "(case allowed of Some a \<Rightarrow> check_deps M a (immediate_dependencies M m) | None \<Rightarrow> Ok ()) = Ok () \<longleftrightarrow>
      (\<forall>a. allowed = Some a \<longrightarrow> (\<forall>dep \<in> set (immediate_dependencies M m). dep_allowed a dep))"
    by (auto simp: check_deps_Ok split: option.split)
  show ?case
  proof (cases "?n \<in> expected")
    case True
    let ?N = "set (map (\<lambda>m. snd (self_id M m)) ms)"
    have N: "?n \<notin> ?N \<and> insert ?n ?N = expected \<longleftrightarrow> ?N = expected - {?n}" using True by blast
    let ?deps = "\<lambda>xs. \<forall>a. allowed = Some a \<longrightarrow> (\<forall>m \<in> set xs. \<forall>dep \<in> set (immediate_dependencies M m). dep_allowed a dep)"
    have step: "validate_publish_request M (m # ms) expected allowed = Ok () \<longleftrightarrow>
        (\<forall>a. allowed = Some a \<longrightarrow> (\<forall>dep \<in> set (immediate_dependencies M m). dep_allowed a dep)) \<and>
        validate_publish_request M ms (expected - {?n}) allowed = Ok ()"
      unfolding d[symmetric] using True by (simp add: Let_def bind_ok_const_eq_Ok is_ok_iff)
    have ih: "validate_publish_request M ms (expected - {?n}) allowed = Ok () \<longleftrightarrow>
        distinct (map (\<lambda>m. snd (self_id M m)) ms) \<and> ?N = expected - {?n} \<and> ?deps ms"
      using 2[OF refl] True by simp
    have names: "distinct (map (\<lambda>m. snd (self_id M m)) (m # ms)) \<and> set (map (\<lambda>m. snd (self_id M m)) (m # ms)) = expected \<longleftrightarrow>
        distinct (map (\<lambda>m. snd (self_id M m)) ms) \<and> ?N = expected - {?n}"
      unfolding N[symmetric] by auto
    have deps: "?deps (m # ms) \<longleftrightarrow>
        (\<forall>a. allowed = Some a \<longrightarrow> (\<forall>dep \<in> set (immediate_dependencies M m). dep_allowed a dep)) \<and> ?deps ms"
      unfolding list.set(2) by blast
    show ?thesis unfolding step ih deps conj_assoc[symmetric] names by (simp only: conj_ac)
  next
    case False
    then show ?thesis by auto
  qed
qed

text \<open>
  C6. A publish request is honoured for exactly what was registered.  The first request of a transaction is
  recorded, every later one aborts and changes nothing; and the bundle passes validation if and only if its
  modules are the registered names, each published once, and, when dependencies were registered, every
  immediate dependency of a module is registered by name, or its account is registered as a whole, or it
  is one of the modules published together at the destination.
\<close>

theorem publish_request_exact:
  assumes args: "publish_args H args = Ok (pol, code, deps, names, dest)" and fresh: "requested_module_bundle ctx = None"
    and call: "native_request_publish q H base per_byte ctx args = (res, ctx')"
  shows "\<exists>cost r. res = Ok (cost, Ok ()) \<and> requested_module_bundle ctx' = Some r \<and> request_bundle r = code \<and>
     (\<forall>args2 pub. publish_args H args2 = Ok pub \<longrightarrow>
        (\<exists>cost2. native_request_publish q H base per_byte ctx' args2 = (Ok (cost2, Err EALREADY_REQUESTED), ctx'))) \<and>
     (validate_publish_request M ms (expected_modules r) (allowed_deps r) = Ok () \<longleftrightarrow>
        distinct (map (\<lambda>m. snd (self_id M m)) ms) \<and> set (map (\<lambda>m. snd (self_id M m)) ms) = set names \<and>
        (\<forall>ds. deps = Some ds \<longrightarrow> (\<forall>m \<in> set ms. \<forall>(account, name) \<in> set (immediate_dependencies M m).
           (account, name) \<in> set ds \<or> (account, []) \<in> set ds \<or> (account = dest \<and> (name \<in> set names \<or> [] \<in> set names)))))"
proof -
  let ?r = "\<lparr>destination = dest, request_bundle = code, expected_modules = set names,
     allowed_deps = map_option (\<lambda>ds. extend_entry dest (set names) (collect_allowed ds)) deps,
     check_compat = (pol = CHECK_COMPAT_POLICY)\<rparr>"
  from args fresh call obtain cost where res: "res = Ok (cost, Ok ())" and ctx': "ctx' = \<lparr>requested_module_bundle = Some ?r\<rparr>"
    by (auto simp: native_request_publish_def Let_def option.map_comp comp_def)
  have twice: "\<exists>cost2. native_request_publish q H base per_byte ctx' args2 = (Ok (cost2, Err EALREADY_REQUESTED), ctx')"
    if "publish_args H args2 = Ok pub" for args2 pub
    using that by (cases pub) (simp add: native_request_publish_def ctx' Let_def)
  have allow: "dep_allowed (extend_entry dest (set names) (collect_allowed ds)) dep \<longleftrightarrow> (case dep of (account, name) \<Rightarrow>
      (account, name) \<in> set ds \<or> (account, []) \<in> set ds \<or> (account = dest \<and> (name \<in> set names \<or> [] \<in> set names)))" for ds dep
    by (cases dep) (auto simp: dep_allowed_names dep_names_extend dep_names_collect)
  have "validate_publish_request M ms (expected_modules ?r) (allowed_deps ?r) = Ok () \<longleftrightarrow>
        distinct (map (\<lambda>m. snd (self_id M m)) ms) \<and> set (map (\<lambda>m. snd (self_id M m)) ms) = set names \<and>
        (\<forall>ds. deps = Some ds \<longrightarrow> (\<forall>m \<in> set ms. \<forall>(account, name) \<in> set (immediate_dependencies M m).
           (account, name) \<in> set ds \<or> (account, []) \<in> set ds \<or> (account = dest \<and> (name \<in> set names \<or> [] \<in> set names))))"
    unfolding validate_publish_request_Ok allow[symmetric] by simp blast
  moreover have "requested_module_bundle ctx' = Some ?r" "request_bundle ?r = code" by (simp_all add: ctx')
  ultimately show ?thesis using res twice by blast
qed

text \<open>A request to publish one module at account 1, with no registered dependencies.\<close>

datatype demo_move_value = DU8 u8 | DAddress nat | DBytes bytes | DVector "demo_move_value list" | DStruct "demo_move_value list"

definition demo_code_host :: "(demo_move_value, nat) code_host" where
  "demo_code_host =
     \<lparr>pop_back_value = (\<lambda>args. if args = [] then Err internal_type_error else Ok (last args, butlast args)),
      value_u8 = (\<lambda>v. case v of DU8 x \<Rightarrow> Ok x | _ \<Rightarrow> Err internal_type_error),
      value_values = (\<lambda>v. case v of DVector x \<Rightarrow> Ok x | _ \<Rightarrow> Err internal_type_error),
      value_bytes = (\<lambda>v. case v of DBytes x \<Rightarrow> Ok x | _ \<Rightarrow> Err internal_type_error),
      value_fields = (\<lambda>v. case v of DStruct x \<Rightarrow> Ok x | _ \<Rightarrow> Err internal_type_error),
      value_address = (\<lambda>v. case v of DAddress x \<Rightarrow> Ok x | _ \<Rightarrow> Err internal_type_error)\<rparr>"

definition demo_modules :: "((nat \<times> bytes) \<times> (nat \<times> bytes) list, nat) module_ops" where
  "demo_modules = \<lparr>function_defs = (\<lambda>_. []), module_deserialize = (\<lambda>_. Err internal_type_error), self_id = fst, immediate_dependencies = snd, show_module_id = (\<lambda>_. [])\<rparr>"

definition demo_publish_args :: "demo_move_value list" where
  "demo_publish_args = [DAddress 1, DVector [DStruct [DBytes [97]]], DVector [], DVector [DBytes [1, 2]], DU8 1]"

definition demo_gas :: gas_ops where
  "demo_gas = \<lparr>gq_add = (+), gq_mul = (*), gq_checked_sub = (\<lambda>a b. Some (a - b)), gq_to_unit = (*), gq_round_down = (\<lambda>a _. a)\<rparr>"

theorem publish_request_exact_witness:
  "\<exists>ctx' r. snd (native_request_publish demo_gas demo_code_host 7 2 \<lparr>requested_module_bundle = None\<rparr> demo_publish_args) = ctx' \<and>
     requested_module_bundle ctx' = Some r \<and>
     validate_publish_request demo_modules [((1, [97]), [(1, [97])])] (expected_modules r) (allowed_deps r) = Ok () \<and>
     validate_publish_request demo_modules [((1, [97]), [(2, [98])])] (expected_modules r) (allowed_deps r) \<noteq> Ok ()"
proof -
  let ?call = "native_request_publish demo_gas demo_code_host 7 2 \<lparr>requested_module_bundle = None\<rparr> demo_publish_args"
  have u: "from_utf8 [97]" by simp
  have args: "publish_args demo_code_host demo_publish_args = Ok (1, [[1, 2]], Some [], [[97]], 1)"
    by (simp add: publish_args_def demo_publish_args_def demo_code_host_def pop_arg_def get_move_string_def u)
  have fresh: "requested_module_bundle \<lparr>requested_module_bundle = None\<rparr> = None" by simp
  note ex = publish_request_exact[where M = demo_modules, OF args fresh surjective_pairing[of ?call]]
  from ex[of "[((1, [97]), [(1, [97])])]"] obtain r where r: "requested_module_bundle (snd ?call) = Some r"
    "validate_publish_request demo_modules [((1, [97]), [(1, [97])])] (expected_modules r) (allowed_deps r) = Ok ()"
    by (auto simp: demo_modules_def)
  from ex[of "[((1, [97]), [(2, [98])])]"] r(1)
  have "validate_publish_request demo_modules [((1, [97]), [(2, [98])])] (expected_modules r) (allowed_deps r) \<noteq> Ok ()"
    by (auto simp: demo_modules_def)
  with r show ?thesis by blast
qed

end
