(* ===== verification/Aptos_VM.thy ===== *)
theory Aptos_VM
  imports Txn_Prologue Code_Publish
begin

text \<open>
  The execution of one transaction by the Aptos VM, from \<^verbatim>\<open>aptos-vm/src/aptos_vm.rs\<close> (and
  \<open>get_transaction_output\<close> of \<^verbatim>\<open>aptos-vm/src/aptos_vm_impl.rs\<close>): validation, the payload with its gas
  charges, pending code publication, the epilogue on top of the payload's changes, the clean-up of a failed
  payload, waypoint and block-metadata transactions, and the dispatch \<open>execute_single_transaction\<close>, all as
  programs that read the state.  The sessions of the Move VM are parameters, as are the conversions of the
  types crate between statuses.  Left out: logging and counters, fail points, and the invalidation of the
  loader cache after a failed publication.
\<close>

section \<open>Definitions\<close>

subsection \<open>Steps on a session and a gas meter\<close>

type_synonym ('k, 'er, 's, 'r, 'e) vm_step = "'s \<Rightarrow> ('k, 'er, ('r, 'e) result \<times> 's) vm_prog"

definition vm_return :: "'r \<Rightarrow> ('k, 'er, 's, 'r, 'e) vm_step" where
  "vm_return r s = Return (Ok r, s)"

definition step_err :: "'e \<Rightarrow> ('k, 'er, 's, 'r, 'e) vm_step" where
  "step_err e s = Return (Err e, s)"

definition step_result :: "('r, 'e) result \<Rightarrow> ('k, 'er, 's, 'r, 'e) vm_step" where
  "step_result r s = Return (r, s)"

definition step_option :: "('r, 'e) result option \<Rightarrow> ('k, 'er, 's, 'r, 'e) vm_step" where
  "step_option x s = (case x of Some r \<Rightarrow> Return (r, s) | None \<Rightarrow> Panic)"

definition step_bind ::
  "('k, 'er, 's, 'r, 'e) vm_step \<Rightarrow> ('r \<Rightarrow> ('k, 'er, 's, 't, 'e) vm_step) \<Rightarrow> ('k, 'er, 's, 't, 'e) vm_step" where
  "step_bind f g s = prog_bind (f s) (\<lambda>(r, s'). case r of Ok x \<Rightarrow> g x s' | Err e \<Rightarrow> Return (Err e, s'))"

definition step_map_err :: "('e \<Rightarrow> 'f) \<Rightarrow> ('k, 'er, 's, 'r, 'e) vm_step \<Rightarrow> ('k, 'er, 's, 'r, 'f) vm_step" where
  "step_map_err h f s = prog_map (\<lambda>(r, s'). (map_err h r, s')) (f s)"

definition on_session :: "('sess \<Rightarrow> ('k, 'er, 'r \<times> 'sess) vm_prog) \<Rightarrow> 'sess \<times> gas_meter \<Rightarrow> ('k, 'er, 'r \<times> 'sess \<times> gas_meter) vm_prog" where
  "on_session f s = prog_map (\<lambda>(r, sess). (r, sess, snd s)) (f (fst s))"

definition on_meter :: "(gas_meter \<Rightarrow> charged option) \<Rightarrow> ('k, 'er, 'sess \<times> gas_meter, unit, status_code) vm_step" where
  "on_meter f s = (case f (snd s) of Some (r, m) \<Rightarrow> Return (r, fst s, m) | None \<Rightarrow> Panic)"

text \<open>A program whose reads go through a layer of writes, as with \<open>DeltaStateView\<close>.\<close>

primrec layered :: "'k write_set \<Rightarrow> ('k, (bytes option, 'e) result, 'r) prog \<Rightarrow> ('k, (bytes option, 'e) result, 'r) prog" where
  "layered ws (Return r) = Return r"
| "layered ws Panic = Panic"
| "layered ws (Read key f) =
     (case map_of ws key of
        Some (Creation data) \<Rightarrow> layered ws (f (Ok (Some data)))
      | Some (Modification data) \<Rightarrow> layered ws (f (Ok (Some data)))
      | Some Deletion \<Rightarrow> layered ws (f (Ok None))
      | None \<Rightarrow> Read key (\<lambda>a. layered ws (f a)))"

text \<open>\<open>try_into_write_set_mut\<close> as a program: each delta reads its key.\<close>

fun materialize_reading ::
  "bcs_codec \<Rightarrow> (status_code \<Rightarrow> 's) \<Rightarrow> (partial_vm_error \<Rightarrow> 's) \<Rightarrow> ('k \<times> delta_op) list \<Rightarrow> ('k \<times> write_op) list \<Rightarrow>
   ('k, 'er, (('k \<times> write_op) list, 's) result) vm_prog" where
  "materialize_reading bcs vm_error to_status [] acc = Return (Ok acc)"
| "materialize_reading bcs vm_error to_status ((key, d) # rest) acc =
     Read key (\<lambda>a.
       case try_into_write_op bcs vm_error to_status d (\<lambda>_. a) key of
         None \<Rightarrow> Panic
       | Some (Err e) \<Rightarrow> Return (Err e)
       | Some (Ok w) \<Rightarrow> materialize_reading bcs vm_error to_status rest (acc @ [(key, w)]))"

subsection \<open>The environment\<close>

datatype 'es vm_transaction_status = Status_Keep 'es | Status_Discard status_code | Status_Retry

datatype ('a, 'ty, 'ta, 'k, 'ev) write_set_payload =
    Direct "'k write_set \<times> 'ev list"
  | WriteSetScript (ws_code: bytes) (ws_ty_args: "'ty list") (ws_args: "'ta list") (execute_as: 'a)

text \<open>Sessions of the Move VM.\<close>

record ('sess, 'k, 'er, 'a, 'ty, 'vmerr, 'tag, 'ti, 'h) move_vm =
  vm_new_session :: "('a, 'h) session_id \<Rightarrow> 'sess"
  vm_load_script :: "bytes \<Rightarrow> 'ty list \<Rightarrow> 'sess \<Rightarrow> ('k, 'er, (loaded_function, 'vmerr) result \<times> 'sess) vm_prog"
  vm_load_function :: "'a module_id \<Rightarrow> string \<Rightarrow> 'ty list \<Rightarrow> 'sess \<Rightarrow> ('k, 'er, (loaded_function, 'vmerr) result \<times> 'sess) vm_prog"
  vm_execute_script :: "bytes \<Rightarrow> 'ty list \<Rightarrow> bytes list \<Rightarrow> ('k, 'er, 'sess \<times> gas_meter, unit, 'vmerr) vm_step"
  vm_execute_entry_function ::
    "'a module_id \<Rightarrow> string \<Rightarrow> 'ty list \<Rightarrow> bytes list \<Rightarrow> ('k, 'er, 'sess \<times> gas_meter, unit, 'vmerr) vm_step"
  vm_execute_bypass :: "'a module_id \<Rightarrow> string \<Rightarrow> bytes list \<Rightarrow> ('k, 'er, 'sess \<times> gas_meter, unit, 'vmerr) vm_step"
  vm_execute_script_unmetered :: "bytes \<Rightarrow> 'ty list \<Rightarrow> bytes list \<Rightarrow> 'sess \<Rightarrow> ('k, 'er, (unit, 'vmerr) result \<times> 'sess) vm_prog"
  vm_publish_module_bundle :: "bytes list \<Rightarrow> 'a \<Rightarrow> ('k, 'er, 'sess \<times> gas_meter, unit, 'vmerr) vm_step"
  vm_module_loads :: "'a module_id \<Rightarrow> 'sess \<Rightarrow> ('k, 'er, bool \<times> 'sess) vm_prog"
  vm_exists_module :: "'a module_id \<Rightarrow> 'sess \<Rightarrow> ('k, 'er, (bool, 'vmerr) result \<times> 'sess) vm_prog"
  vm_code_context :: "'sess \<Rightarrow> 'a native_code_context"
  vm_set_code_context :: "'a native_code_context \<Rightarrow> 'sess \<Rightarrow> 'sess"
  vm_arg_env :: "'sess \<Rightarrow> 'a arg_env"
  vm_finish_with_extensions :: "'sess \<Rightarrow> ('k, 'er, (('a, 'tag, 'ti, 'er) finished_session, 'vmerr) result) vm_prog"

text \<open>Conversions of the types crate and small external functions.\<close>

record ('vmerr, 'loc, 'ef, 'es, 'cm, 'ta, 'meta, 'a, 'h) vm_conversions =
  status_from :: "('loc, 'ef) vm_status \<Rightarrow> 'es vm_transaction_status"
  keep_or_discard :: "('loc, 'ef) vm_status \<Rightarrow> ('es, status_code) result"
  vm_code_of :: "('loc, 'ef) vm_status \<Rightarrow> status_code"
  is_discarded_status :: "'es vm_transaction_status \<Rightarrow> bool"
  execution_success :: 'es
  with_abort_info :: "'es \<Rightarrow> 'es"
  meter_error_status :: "status_code \<Rightarrow> ('loc, 'ef) vm_status"
  partial_error_status :: "partial_vm_error \<Rightarrow> ('loc, 'ef) vm_status"
  finish_error :: "partial_vm_error \<Rightarrow> 'vmerr"
  duplicate_module_error :: "'cm \<Rightarrow> 'vmerr"
  convert_txn_args :: "'ta list \<Rightarrow> bytes list"
  reserved_vm_address :: 'a
  genesis_id :: 'h
  block_id :: "'meta \<Rightarrow> 'h"
  block_module :: "'a module_id"
  block_prologue_args :: "'meta \<Rightarrow> 'a \<Rightarrow> 'a move_value list"
  default_metadata :: "'a transaction_metadata"
  sender_string :: "'a \<Rightarrow> string"

record ('signed, 'sess, 'k, 'er, 'a, 'ty, 'ta, 'vmerr, 'tag, 'ti, 'h, 'loc, 'ef, 'es, 'cm, 'meta, 'ek, 'ev, 'x) aptos_env =
  codec :: bcs_codec
  gas_arith_ops :: gas_ops
  state_key_ops :: "'k key_ops"
  signed :: "('signed, 'a, 'ty, 'ta) signed_ops"
  known :: "('sess, 'k, 'er, 'a, 'vmerr, 'loc, 'ef) known_functions"
  move :: "('sess, 'k, 'er, 'a, 'ty, 'vmerr, 'tag, 'ti, 'h) move_vm"
  modules_of :: "('cm, 'a) module_ops"
  change_sets :: "('a, 'tag, 'k, 'ek, 'ev, 'loc, 'ef, 'x) change_set_ops"
  gas_check :: "('k, 'er) gas_check_env"
  conv :: "('vmerr, 'loc, 'ef, 'es, 'cm, 'ta, 'meta, 'a, 'h) vm_conversions"
  default_validation :: "('a, 'loc) transaction_validation"
  module_bundle_disallowed :: bool
  vm_impl :: "('a, 'loc) aptos_vm_impl"
  epoch_event_key :: 'ek
  block_event_key :: 'ek
  event_key :: "'ev \<Rightarrow> 'ek"
  check_txn_signature :: "'signed \<Rightarrow> ('signed, unit) result"

definition validation_of where
  "validation_of E = get_transaction_validation (default_validation E) (vm_impl E)"

subsection \<open>Outputs\<close>

definition discard_error_output :: "status_code \<Rightarrow> ('k::linorder, 'ev, 'es vm_transaction_status) transaction_output_ext" where
  "discard_error_output err =
     output_ext_from \<lparr>out_write_set = [], out_events = [], out_gas_used = 0, out_status = Status_Discard err\<rparr>"

text \<open>
  Discarding an error that should have been kept is a \<^verbatim>\<open>debug_assert!(false)\<close> of
  \<^verbatim>\<open>adapter_common.rs\<close>; the model is the release build, which goes on with the code of the status.
\<close>

definition discard_error_vm_status where
  "discard_error_vm_status E err =
     (let error_code = (case keep_or_discard (conv E) err of Ok _ \<Rightarrow> vm_code_of (conv E) err | Err code \<Rightarrow> code)
      in (err, discard_error_output error_code))"

definition finish_session where
  "finish_session E session =
     prog_bind (vm_finish_with_extensions (move E) session) (\<lambda>inner. prog_of_option (session_finish (finish_error (conv E)) inner))"

text \<open>\<open>session.finish()\<close> followed by \<open>into_change_set\<close>.\<close>

definition finish_change_set where
  "finish_change_set E session fv =
     prog_bind (finish_session E session) (\<lambda>r.
     case r of
       Err e \<Rightarrow> Return (Err (vmerr_into_status (known E) e))
     | Ok so \<Rightarrow> prog_of_option (session_into_change_set (codec E) (change_sets E) so fv))"

definition get_transaction_output where
  "get_transaction_output E session gas_left md status fv =
     (case gq_checked_sub (gas_arith_ops E) (md_max_gas_amount md) gas_left of
        None \<Rightarrow> Panic
      | Some gas_used \<Rightarrow>
          prog_map (map_ok (\<lambda>cs.
              let (delta_change_set, write_set, events) = cse_into_inner cs
              in output_ext_new delta_change_set
                   \<lparr>out_write_set = write_set, out_events = events, out_gas_used = gas_used, out_status = Status_Keep status\<rparr>))
            (finish_change_set E session fv))"

definition failed_transaction_cleanup_and_keep_vm_status where
  "failed_transaction_cleanup_and_keep_vm_status E error_code gas_meter md =
     (let session = vm_new_session (move E) (session_id_txn_meta md);
          gas_left = balance_of (gas_arith_ops E) gas_meter
      in case status_from (conv E) error_code of
           Status_Keep status \<Rightarrow>
             prog_bind (run_failure_epilogue (known E) (validation_of E) session gas_left md) (\<lambda>(r, session').
             case r of
               Err e \<Rightarrow> Return (discard_error_vm_status E e)
             | Ok _ \<Rightarrow>
                 prog_map (\<lambda>output. (error_code, case output of Ok t \<Rightarrow> t | Err e \<Rightarrow> snd (discard_error_vm_status E e)))
                   (get_transaction_output E session' gas_left md (with_abort_info (conv E) status) (feature_version gas_meter)))
         | Status_Discard status \<Rightarrow> Return (StatusError status, discard_error_output status)
         | Status_Retry \<Rightarrow> Panic)"

definition success_transaction_cleanup where
  "success_transaction_cleanup E user_cs gas_meter md =
     prog_bind (materialize_reading (codec E) StatusError (partial_error_status (conv E)) (cse_deltas user_cs) []) (\<lambda>deltas.
     case deltas of
       Err _ \<Rightarrow> Panic
     | Ok delta_writes \<Rightarrow>
         (case freeze_inserted (change_sets E) delta_writes of
            Err _ \<Rightarrow> Return (Err (StatusError UNKNOWN_INVARIANT_VIOLATION_ERROR))
          | Ok delta_write_set \<Rightarrow>
              (let session = vm_new_session (move E) (session_id_txn_meta md)
               in prog_bind (layered (cse_write_set user_cs) (layered delta_write_set
                    (prog_bind (run_success_epilogue (known E) (validation_of E) session (balance_of (gas_arith_ops E) gas_meter) md) (\<lambda>(r, session').
                     case r of
                       Err e \<Rightarrow> Return (Err e)
                     | Ok _ \<Rightarrow> finish_change_set E session' (feature_version gas_meter))))) (\<lambda>epilogue.
                  case epilogue of
                    Err e \<Rightarrow> Return (Err e)
                  | Ok epilogue_cs \<Rightarrow>
                      (case squash (codec E) (change_set_new (change_sets E)) user_cs epilogue_cs of
                         Err _ \<Rightarrow> Return (Err (StatusError UNKNOWN_INVARIANT_VIOLATION_ERROR))
                       | Ok cs \<Rightarrow>
                           (let (delta_change_set, write_set, events) = cse_into_inner cs
                            in case gq_checked_sub (gas_arith_ops E) (md_max_gas_amount md) (balance_of (gas_arith_ops E) gas_meter) of
                                 None \<Rightarrow> Panic
                               | Some gas_used \<Rightarrow>
                                   Return (Ok (Executed, output_ext_new delta_change_set
                                     \<lparr>out_write_set = write_set, out_events = events, out_gas_used = gas_used,
                                      out_status = Status_Keep (execution_success (conv E))\<rparr>))))))))"

subsection \<open>Publishing modules\<close>

definition INIT_MODULE :: string where "INIT_MODULE = ''init_module''"

fun execute_module_initialization where
  "execute_module_initialization E [] exists senders = vm_return ()"
| "execute_module_initialization E (m # ms) exists senders =
     (let id = self_id (modules_of E) m
      in if id \<in> exists then execute_module_initialization E ms exists senders
         else (\<lambda>s. prog_bind (on_session (vm_load_function (move E) id INIT_MODULE []) s) (\<lambda>(init_function, s').
           if is_ok init_function then
             if is_ok (verify_module_init_function (modules_of E) m) then
               (case sequence_opt (map (serialize_signer (vm_arg_env (move E) (fst s'))) senders) of
                  None \<Rightarrow> Panic
                | Some args \<Rightarrow>
                    step_bind (vm_execute_bypass (move E) id INIT_MODULE args)
                      (\<lambda>_. execute_module_initialization E ms exists senders) s')
             else Return (Err (finish_error (conv E) \<lparr>major_status = CONSTRAINT_NOT_SATISFIED, message = None, sub_status = None\<rparr>), s')
           else execute_module_initialization E ms exists senders s')))"

fun existing_modules where
  "existing_modules E [] exists = vm_return exists"
| "existing_modules E (m # ms) exists =
     (let id = self_id (modules_of E) m
      in step_bind (on_session (vm_exists_module (move E) id)) (\<lambda>b. existing_modules E ms (if b then insert id exists else exists)))"

definition resolve_pending_code_publish where
  "resolve_pending_code_publish E s =
     (let (request, ctx) = extract_publish_request (vm_code_context (move E) (fst s));
          s' = (vm_set_code_context (move E) ctx (fst s), snd s)
      in case request of
           None \<Rightarrow> Return (Ok (), s')
         | Some r \<Rightarrow>
             step_bind (step_result (map_err (finish_error (conv E)) (deserialize_module_bundle (modules_of E) (request_bundle r)))) (\<lambda>ms.
             step_bind (step_result (map_err (finish_error (conv E))
               (validate_publish_request (modules_of E) ms (expected_modules r) (allowed_deps r)))) (\<lambda>_.
             step_bind (existing_modules E ms {}) (\<lambda>exists.
             step_bind (vm_publish_module_bundle (move E) (request_bundle r) (destination r)) (\<lambda>_.
             execute_module_initialization E ms exists [destination r])))) s')"

fun verify_module_bundle where
  "verify_module_bundle E [] = vm_return ()"
| "verify_module_bundle E (blob # blobs) =
     (case module_deserialize (modules_of E) blob of
        Err err \<Rightarrow> step_err (finish_error (conv E) err)
      | Ok m \<Rightarrow> (\<lambda>s. prog_bind (on_session (vm_module_loads (move E) (self_id (modules_of E) m)) s) (\<lambda>(loads, s').
          if loads then Return (Err (duplicate_module_error (conv E) m), s') else verify_module_bundle E blobs s')))"

subsection \<open>Payloads\<close>

text \<open>The end of both kinds of payloads: the change set of the session, its gas, and the epilogue.\<close>

definition finish_payload where
  "finish_payload E md s =
     prog_bind (finish_change_set E (fst s) (feature_version (snd s))) (\<lambda>r.
     case r of
       Err e \<Rightarrow> Return (Err e, s)
     | Ok cs \<Rightarrow>
         step_bind (step_map_err (meter_error_status (conv E))
             (on_meter (charge_write_set_gas (gas_arith_ops E) (state_key_ops E) (cse_write_set cs)))) (\<lambda>_ s'.
           prog_map (\<lambda>r. (r, s')) (success_transaction_cleanup E cs (snd s') md)) s)"

definition validated_args where
  "validated_args E senders args func s =
     step_option (map_option (map_err StatusError)
       (validate_combine_signer_and_txn_args (vm_arg_env (move E) (fst s)) senders args func)) s"

definition execute_payload_function where
  "execute_payload_function E md payload =
     (let senders = md_sender md # md_secondary_signers md; to_status = vmerr_into_status (known E)
      in case payload of
           Script code ty_args args \<Rightarrow>
             step_bind (step_map_err to_status (on_session (vm_load_script (move E) code ty_args))) (\<lambda>func.
             step_bind (validated_args E senders (convert_txn_args (conv E) args) func) (\<lambda>vargs.
             step_map_err to_status (vm_execute_script (move E) code ty_args vargs)))
         | EntryFunction mid function ty_args args \<Rightarrow>
             step_bind (step_map_err to_status (on_session (vm_load_function (move E) mid function ty_args))) (\<lambda>func.
             step_bind (validated_args E senders args func) (\<lambda>vargs.
             step_map_err to_status (vm_execute_entry_function (move E) mid function ty_args vargs)))
         | ModuleBundle _ \<Rightarrow> step_err (StatusError UNREACHABLE))"

definition charge_intrinsic where
  "charge_intrinsic E md =
     step_map_err (meter_error_status (conv E))
       (on_meter (charge_intrinsic_gas_for_transaction (gas_arith_ops E) (md_transaction_size md)))"

definition execute_script_or_entry_function where
  "execute_script_or_entry_function E md payload =
     step_bind (charge_intrinsic E md) (\<lambda>_.
     step_bind (execute_payload_function E md payload) (\<lambda>_.
     step_bind (step_map_err (vmerr_into_status (known E)) (resolve_pending_code_publish E)) (\<lambda>_.
     finish_payload E md)))"

definition execute_modules where
  "execute_modules E md blobs =
     (let to_status = vmerr_into_status (known E)
      in if module_bundle_disallowed E then step_err (StatusError FEATURE_UNDER_GATING)
         else
           step_bind (charge_intrinsic E md) (\<lambda>_.
           step_bind (step_map_err to_status (verify_module_bundle E blobs)) (\<lambda>_.
           step_bind (step_map_err to_status (vm_publish_module_bundle (move E) blobs (md_sender md))) (\<lambda>_.
           step_bind (step_result (map_err (\<lambda>e. to_status (finish_error (conv E) e)) (deserialize_module_bundle (modules_of E) blobs))) (\<lambda>ms.
           step_bind (step_map_err to_status (execute_module_initialization E ms {} [md_sender md])) (\<lambda>_.
           finish_payload E md))))))"

subsection \<open>User transactions\<close>

definition execute_payload where
  "execute_payload E md payload =
     (case payload of
        Script _ _ _ \<Rightarrow> execute_script_or_entry_function E md payload
      | EntryFunction _ _ _ _ \<Rightarrow> execute_script_or_entry_function E md payload
      | ModuleBundle blobs \<Rightarrow> execute_modules E md blobs)"

text \<open>The final match on the result of a payload.\<close>

definition settle_payload where
  "settle_payload E md result gas_meter =
     (case result of
        Ok output \<Rightarrow> Return output
      | Err err \<Rightarrow>
          if is_discarded_status (conv E) (status_from (conv E) err) then Return (discard_error_vm_status E err)
          else failed_transaction_cleanup_and_keep_vm_status E err gas_meter md)"

definition validate_user_transaction where
  "validate_user_transaction E =
     validate_signature_checked_transaction (vm_code_of (conv E)) (aptos_check_transaction_format (signed E))
       (aptos_run_prologue (gas_arith_ops E) (gas_check E) (known E) (default_validation E) (module_bundle_disallowed E)
         (vm_impl E) (signed E))"

definition execute_user_transaction where
  "execute_user_transaction E transaction =
     (let fv = vm_gas_feature_version (vm_impl E);
          new_session = vm_new_session (move E) (session_id_txn (signed E) transaction);
          discard = (\<lambda>e. Return (discard_error_vm_status E e))
      in prog_bind (validate_user_transaction E new_session transaction False) (\<lambda>(r, session).
         case r of
           Err err \<Rightarrow> discard err
         | Ok _ \<Rightarrow>
             (let session' = (if fv \<ge> 1 then new_session else session)
              in case get_gas_parameters (vm_impl E) of
                   Err e \<Rightarrow> discard e
                 | Ok gp \<Rightarrow>
                     (case get_storage_gas_parameters (vm_impl E) of
                        Err e \<Rightarrow> discard e
                      | Ok sp \<Rightarrow>
                          (let md = transaction_metadata_new (signed E) transaction
                           in case meter_new (gas_arith_ops E) fv gp sp (md_max_gas_amount md) of
                                None \<Rightarrow> Panic
                              | Some gas_meter \<Rightarrow>
                                  prog_bind (execute_payload E md (txn_payload (signed E) transaction) (session', gas_meter)) (\<lambda>(result, s).
                                  case gq_checked_sub (gas_arith_ops E) (md_max_gas_amount md) (balance_of (gas_arith_ops E) (snd s)) of
                                    None \<Rightarrow> Panic
                                  | Some gas_usage \<Rightarrow> settle_payload E md result (snd s)))))))"

text \<open>Simulation: no valid signature is accepted, and the session of the prologue is kept.\<close>

definition simulate_signed_transaction where
  "simulate_signed_transaction E signature_is_valid transaction =
     (let fv = vm_gas_feature_version (vm_impl E);
          md = transaction_metadata_new (signed E) transaction;
          new_session = vm_new_session (move E) (session_id_txn_meta md);
          discard = (\<lambda>e. Return (discard_error_vm_status E e))
      in if signature_is_valid transaction then discard (StatusError INVALID_SIGNATURE)
         else
           prog_bind (case aptos_check_transaction_format (signed E) transaction of
                Err e \<Rightarrow> Return (Err e, new_session)
              | Ok _ \<Rightarrow> run_prologue_with_payload (gas_arith_ops E) (gas_check E) (known E) (default_validation E) (module_bundle_disallowed E)
                          (vm_impl E) new_session (txn_payload (signed E) transaction) md) (\<lambda>(r, session).
           case r of
             Err err \<Rightarrow> discard err
           | Ok _ \<Rightarrow>
               (case get_gas_parameters (vm_impl E) of
                  Err e \<Rightarrow> discard e
                | Ok gp \<Rightarrow>
                    (case get_storage_gas_parameters (vm_impl E) of
                       Err e \<Rightarrow> discard e
                     | Ok sp \<Rightarrow>
                         (case meter_new (gas_arith_ops E) fv gp sp (md_max_gas_amount md) of
                            None \<Rightarrow> Panic
                          | Some gas_meter \<Rightarrow>
                              prog_bind (execute_payload E md (txn_payload (signed E) transaction) (session, gas_meter)) (\<lambda>(result, s).
                              settle_payload E md result (snd s)))))))"

subsection \<open>Waypoints, block metadata and the dispatch\<close>

text \<open>The error of \<open>execute_writeset\<close> is the result to return.\<close>

definition execute_writeset where
  "execute_writeset E payload sender_opt sid =
     (let fv = vm_gas_feature_version (vm_impl E)
      in case payload of
           Direct change_set \<Rightarrow> Return (Ok (change_set_ext_new dcs_empty change_set fv))
         | WriteSetScript code ty_args args exec_as \<Rightarrow>
             (let senders = (case sender_opt of None \<Rightarrow> [exec_as] | Some sender \<Rightarrow> [sender, exec_as]);
                  to_status = vmerr_into_status (known E)
              in prog_bind (vm_load_script (move E) code ty_args (vm_new_session (move E) sid)) (\<lambda>(loaded, session).
                 case loaded of
                   Err e \<Rightarrow> Return (Err (Err (to_status e)))
                 | Ok func \<Rightarrow>
                     (case validate_combine_signer_and_txn_args (vm_arg_env (move E) session) senders (convert_txn_args (conv E) args) func of
                        None \<Rightarrow> Panic
                      | Some (Err e) \<Rightarrow> Return (Err (Err (StatusError e)))
                      | Some (Ok vargs) \<Rightarrow>
                          prog_bind (vm_execute_script_unmetered (move E) code ty_args vargs session) (\<lambda>(r, session').
                          prog_bind (case r of Err e \<Rightarrow> Return (Err e) | Ok _ \<Rightarrow> finish_session E session') (\<lambda>fin.
                          case fin of
                            Err e \<Rightarrow> Return (Err (Ok (to_status e, discard_error_output INVALID_WRITE_SET)))
                          | Ok session_out \<Rightarrow>
                              prog_map (map_err Err) (prog_of_option (session_into_change_set (codec E) (change_sets E) session_out fv))))))))"

fun read_writeset :: "('k \<times> write_op) list \<Rightarrow> ('k, 'er, (unit, ('loc, 'ef) vm_status) result) vm_prog" where
  "read_writeset [] = Return (Ok ())"
| "read_writeset ((state_key, _) # rest) =
     Read state_key (\<lambda>a. case a of Err _ \<Rightarrow> Return (Err (StatusError STORAGE_ERROR)) | Ok _ \<Rightarrow> read_writeset rest)"

definition validate_waypoint_change_set where
  "validate_waypoint_change_set E events =
     (let has_new_block_event = list_ex (\<lambda>e. event_key E e = block_event_key E) events;
          has_new_epoch_event = list_ex (\<lambda>e. event_key E e = epoch_event_key E) events
      in if has_new_block_event \<and> has_new_epoch_event then Ok () else Err (StatusError INVALID_WRITE_SET))"

definition process_waypoint_change_set where
  "process_waypoint_change_set E payload =
     prog_bind (execute_writeset E payload (Some (reserved_vm_address (conv E))) (Genesis (genesis_id (conv E)))) (\<lambda>r.
     case r of
       Err e \<Rightarrow> Return e
     | Ok cs \<Rightarrow>
         (let (delta_change_set, write_set, events) = cse_into_inner cs
          in case validate_waypoint_change_set E events of
               Err e \<Rightarrow> Return (Err e)
             | Ok _ \<Rightarrow>
                 prog_map (map_ok (\<lambda>_. (Executed, output_ext_new delta_change_set
                     \<lparr>out_write_set = write_set, out_events = events, out_gas_used = 0, out_status = status_from (conv E) Executed\<rparr>)))
                   (read_writeset write_set)))"

definition BLOCK_PROLOGUE :: string where "BLOCK_PROLOGUE = ''block_prologue''"

definition process_block_prologue where
  "process_block_prologue E block_metadata =
     (let md = (default_metadata (conv E))\<lparr>md_sender := reserved_vm_address (conv E), md_max_gas_amount := 0\<rparr>;
          session = vm_new_session (move E) (BlockMeta (block_id (conv E) block_metadata));
          args = serialize_values (known E) (block_prologue_args (conv E) block_metadata (md_sender md))
      in prog_bind (execute_unmetered (known E) session (block_module (conv E)) BLOCK_PROLOGUE args) (\<lambda>(r, session').
         case (case r of Ok _ \<Rightarrow> Ok () | Err e \<Rightarrow> expect_only_successful_execution (vmerr_into_status (known E) e)) of
           Err e \<Rightarrow> Return (Err e)
         | Ok _ \<Rightarrow>
             prog_map (map_ok (\<lambda>output. (Executed, output)))
               (get_transaction_output E session' 0 md (execution_success (conv E)) (vm_gas_feature_version (vm_impl E)))))"

definition aptos_execute_single_transaction where
  "aptos_execute_single_transaction E transaction =
     (case transaction of
        BlockMetadata block_metadata \<Rightarrow>
          prog_map (map_ok (\<lambda>(vm_status, output). (vm_status, output, Some ''block_prologue''))) (process_block_prologue E block_metadata)
      | WaypointWriteSet payload \<Rightarrow>
          prog_map (map_ok (\<lambda>(vm_status, output). (vm_status, output, Some ''waypoint_write_set''))) (process_waypoint_change_set E payload)
      | UserTransaction user_txn \<Rightarrow>
          prog_map (\<lambda>(vm_status, output). Ok (vm_status, output, Some (sender_string (conv E) (txn_sender (signed E) user_txn))))
            (execute_user_transaction E user_txn)
      | InvalidSignature \<Rightarrow>
          (let (vm_status, output) = discard_error_vm_status E (StatusError INVALID_SIGNATURE)
           in Return (Ok (vm_status, output, None)))
      | StateCheckpoint \<Rightarrow>
          Return (Ok (Executed, output_ext_from
            \<lparr>out_write_set = [], out_events = [], out_gas_used = 0, out_status = Status_Keep (execution_success (conv E))\<rparr>,
            Some ''state_checkpoint'')))"

text \<open>The Aptos VM as an adapter.\<close>

definition aptos_adapter where
  "aptos_adapter E =
     \<lparr>check_signature = check_txn_signature E,
      new_txn_session = (\<lambda>transaction. vm_new_session (move E) (session_id_txn (signed E) transaction)),
      check_transaction_format = aptos_check_transaction_format (signed E),
      run_prologue = aptos_run_prologue (gas_arith_ops E) (gas_check E) (known E) (default_validation E) (module_bundle_disallowed E)
        (vm_impl E) (signed E),
      adapter_should_restart = should_restart_execution (event_key E) (epoch_event_key E),
      execute_single_transaction = aptos_execute_single_transaction E\<rparr>"

section \<open>The outputs of the VM are well formed\<close>

text \<open>
  What the VM relies on in the Move VM and the types crate: a session changes the slot of an aggregator
  through the aggregator natives only, and neither a kept status nor the status of \<open>Executed\<close> is discarded.
\<close>

definition session_separate where
  "session_separate E inner \<longleftrightarrow>
     (\<forall>cs events tables ctx ags fv. inner = Ok (cs, events, Ok tables, ctx) \<longrightarrow> into_change_set ctx = Some ags \<longrightarrow>
        aggregators_separate (cs_keys (change_sets E)) fv
          \<lparr>so_change_set = cs, so_events = events, so_table_change_set = tables, so_aggregator_change_set = ags\<rparr>)"

definition sessions_lawful where
  "sessions_lawful E \<longleftrightarrow> (\<forall>s. returns (session_separate E) (vm_finish_with_extensions (move E) s))"

definition statuses_lawful where
  "statuses_lawful E \<longleftrightarrow>
     (\<forall>s. \<not> is_discarded_status (conv E) (Status_Keep s)) \<and> \<not> is_discarded_status (conv E) (status_from (conv E) Executed)"

definition vm_laws where
  "vm_laws E \<longleftrightarrow> change_set_laws (change_sets E) \<and> sessions_lawful E \<and> statuses_lawful E"

fun pred_ok :: "('r \<Rightarrow> bool) \<Rightarrow> ('r, 'e) result \<Rightarrow> bool" where
  "pred_ok P (Ok r) = P r"
| "pred_ok P (Err e) = True"

lemma pred_ok_map_ok [simp]: "pred_ok P (map_ok f r) = pred_ok (\<lambda>x. P (f x)) r"
  by (cases r) simp_all

lemma pred_ok_map_err [simp]: "pred_ok P (map_err h r) = pred_ok P r"
  by (cases r) simp_all

lemma pred_ok_True [simp]: "pred_ok (\<lambda>x. True) r"
  by (cases r) simp_all

definition session_output_ok where
  "session_output_ok E so \<longleftrightarrow>
     bt_ok (so_aggregator_change_set so) \<and> (\<forall>fv. aggregators_separate (cs_keys (change_sets E)) fv so)"

lemma returns_layered: "returns P p \<Longrightarrow> returns P (layered ws p)"
  by (induction p) (auto split: option.split write_op.split)

text \<open>A step that ends well ends in a good result.\<close>

definition steps_to :: "('r \<Rightarrow> bool) \<Rightarrow> ('k, 'a, ('r, 'e) result \<times> 's) prog \<Rightarrow> bool" where
  "steps_to P p \<longleftrightarrow> returns (\<lambda>x. pred_ok P (fst x)) p"

lemma steps_to_bind: "(\<And>x s'. steps_to P (g x s')) \<Longrightarrow> steps_to P (step_bind f g s)"
  unfolding step_bind_def steps_to_def by (rule returns_bind_any) (auto split: result.split)

lemma steps_to_err [simp]: "steps_to P (step_err e s)"
  by (simp add: steps_to_def step_err_def)

definition good_output where
  "good_output E x \<longleftrightarrow> output_wf (is_discarded_status (conv E)) (snd x)"

lemma output_wf_of_change_set:
  assumes "cse_wf cs" "cse_into_inner cs = (deltas, write_set, events)" "\<not> discarded st"
  shows "output_wf discarded (output_ext_new deltas
    \<lparr>out_write_set = write_set, out_events = events, out_gas_used = gas, out_status = st\<rparr>)"
proof -
  have "fst ` set write_set \<inter> fst ` set deltas = {}"
    using assms(1,2) unfolding cse_wf_def cse_into_inner_def cse_write_set_def map_of_eq_None_iff by auto
  with assms show ?thesis by (auto simp: cse_wf_def cse_into_inner_def cse_write_set_def output_wf_def output_ext_new_def)
qed

lemma output_wf_of_inner:
  assumes "cse_wf cs" "\<not> discarded st"
  shows "output_wf discarded (case cse_into_inner cs of (deltas, write_set, events) \<Rightarrow>
    output_ext_new deltas \<lparr>out_write_set = write_set, out_events = events, out_gas_used = gas, out_status = st\<rparr>)"
  using assms by (cases "cse_into_inner cs") (auto intro: output_wf_of_change_set)

lemma discarded_wf [simp]: "output_wf discarded (discard_error_output code)"
  by (simp add: output_wf_def discard_error_output_def output_ext_from_def dcs_empty_def)

lemma discarded_error_wf [simp]: "output_wf discarded (snd (discard_error_vm_status E err))"
  by (simp add: discard_error_vm_status_def Let_def)

lemma discarded_error_good [simp]: "good_output E (discard_error_vm_status E' err)"
  by (simp add: good_output_def)

lemma session_change_set_good:
  assumes "vm_laws E" "session_output_ok E so" "session_into_change_set (codec E) (change_sets E) so fv = Some r"
  shows "pred_ok cse_wf r"
  using assms by (cases r) (auto simp: session_output_ok_def vm_laws_def intro: session_change_set_wf(1))

lemma finish_session_ok:
  assumes "vm_laws E"
  shows "returns (pred_ok (session_output_ok E)) (finish_session E session)"
proof -
  have "returns (session_separate E) (vm_finish_with_extensions (move E) session)"
    using assms by (simp add: vm_laws_def sessions_lawful_def)
  moreover have "pred_ok (session_output_ok E) r"
    if "session_separate E inner" "session_finish (finish_error (conv E)) inner = Some r" for inner r
    using that by (cases r) (auto simp: session_separate_def session_output_ok_def elim!: session_finish_Ok)
  ultimately show ?thesis
    unfolding finish_session_def by (intro returns_bind returns_of_option)
qed

lemma finish_change_set_wf:
  assumes "vm_laws E"
  shows "returns (pred_ok cse_wf) (finish_change_set E session fv)"
  unfolding finish_change_set_def
  by (rule returns_bind[OF finish_session_ok[OF assms]])
    (auto intro!: returns_of_option intro: session_change_set_good[OF assms] elim!: pred_ok.elims)

lemma get_transaction_output_wf:
  assumes "vm_laws E"
  shows "returns (pred_ok (output_wf (is_discarded_status (conv E))))
    (get_transaction_output E session gas_left md status fv)"
proof -
  have "returns (pred_ok (output_wf (is_discarded_status (conv E)))) (prog_map (map_ok (\<lambda>cs.
      let (delta_change_set, write_set, events) = cse_into_inner cs
      in output_ext_new delta_change_set
           \<lparr>out_write_set = write_set, out_events = events, out_gas_used = g, out_status = Status_Keep status\<rparr>))
      (finish_change_set E session fv))" for g
    using assms by (intro returns_map returns_mono[OF finish_change_set_wf[OF assms]])
      (auto simp: vm_laws_def statuses_lawful_def output_wf_of_inner elim!: pred_ok.elims)
  then show ?thesis by (simp add: get_transaction_output_def split: option.split)
qed

lemma failed_cleanup_wf:
  assumes "vm_laws E"
  shows "returns (good_output E)
    (failed_transaction_cleanup_and_keep_vm_status E err gas_meter md)"
proof -
  have keep: "returns (good_output E)
      (prog_map (\<lambda>output. (err, case output of Ok t \<Rightarrow> t | Err e \<Rightarrow> snd (discard_error_vm_status E e)))
        (get_transaction_output E session g md status fv))" for session g status fv
    by (rule returns_map, rule returns_mono[OF get_transaction_output_wf[OF assms]]) (auto simp: good_output_def elim!: pred_ok.elims)
  show ?thesis
    unfolding failed_transaction_cleanup_and_keep_vm_status_def
    by (auto simp: Let_def keep good_output_def[of E "(a, b)" for a b]
        intro!: returns_bind_any split: vm_transaction_status.split result.split)
qed

lemma success_cleanup_wf:
  assumes "vm_laws E" "cse_wf user_cs"
  shows "returns (pred_ok (good_output E))
    (success_transaction_cleanup E user_cs gas_meter md)"
proof -
  have new: "change_set_new (change_sets E) ws ev v = Ok cs \<Longrightarrow> cs = (ws, ev)" for ws ev v cs
    using assms(1) unfolding vm_laws_def change_set_laws_def by blast
  have st: "\<not> is_discarded_status (conv E) (Status_Keep s)" for s using assms(1) by (simp add: vm_laws_def statuses_lawful_def)
  show ?thesis
    unfolding success_transaction_cleanup_def
    by (auto simp: Let_def st good_output_def intro!: returns_bind_any output_wf_of_change_set squash_keeps_wf[OF _ assms(2) new]
        split: result.split option.split prod.split)
qed

lemma finish_payload_wf:
  assumes "vm_laws E"
  shows "steps_to (good_output E) (finish_payload E md s)"
proof -
  have "steps_to (good_output E) (prog_map (\<lambda>r. (r, s'')) (success_transaction_cleanup E cs (snd s'') md))"
    if "cse_wf cs" for cs s''
    unfolding steps_to_def by (rule returns_map) (simp add: success_cleanup_wf[OF assms that])
  then have "steps_to (good_output E)
      (step_bind f (\<lambda>_ s'. prog_map (\<lambda>r. (r, s')) (success_transaction_cleanup E cs (snd s') md)) s)"
    if "cse_wf cs" for f cs using that by (blast intro: steps_to_bind)
  then show ?thesis
    unfolding finish_payload_def steps_to_def
    by (intro returns_bind[OF finish_change_set_wf[OF assms]]) (auto split: result.split)
qed

lemma execute_payload_wf:
  assumes "vm_laws E"
  shows "steps_to (good_output E) (execute_payload E md payload s)"
proof (cases payload)
  case (ModuleBundle blobs)
  show ?thesis
    unfolding ModuleBundle execute_payload_def execute_modules_def Let_def
    by (cases "module_bundle_disallowed E") (simp_all add: steps_to_bind finish_payload_wf[OF assms])
qed (simp_all add: execute_payload_def execute_script_or_entry_function_def steps_to_bind finish_payload_wf[OF assms])

lemma settle_payload_wf:
  assumes "vm_laws E" "pred_ok (good_output E) result"
  shows "returns (good_output E) (settle_payload E md result gas_meter)"
  using assms(2) failed_cleanup_wf[OF assms(1)] by (cases result) (simp_all add: settle_payload_def)

lemma execute_user_transaction_wf:
  assumes "vm_laws E"
  shows "returns (good_output E) (execute_user_transaction E transaction)"
proof -
  have "returns (good_output E)
      (prog_bind (execute_payload E md payload s) (\<lambda>(result, s).
         case gq_checked_sub q max (balance_of q' (snd s)) of None \<Rightarrow> Panic | Some _ \<Rightarrow> settle_payload E md result (snd s)))"
    for md payload s q q' max
    by (rule returns_bind[OF execute_payload_wf[OF assms, unfolded steps_to_def]])
      (auto intro!: settle_payload_wf[OF assms] split: option.split)
  then show ?thesis
    unfolding execute_user_transaction_def Let_def
    by (intro returns_bind_any) (auto split: result.split option.split)
qed

definition good_writeset where
  "good_writeset E r \<longleftrightarrow> (case r of Ok cs \<Rightarrow> cse_wf cs | Err e \<Rightarrow> pred_ok (good_output E) e)"

lemma good_writeset_simps [simp]:
  "good_writeset E (Ok cs) = cse_wf cs" "good_writeset E (Err e) = pred_ok (good_output E) e"
  by (simp_all add: good_writeset_def)

lemma execute_writeset_wf:
  assumes "vm_laws E" "\<And>ws events. payload = Direct (ws, events) \<Longrightarrow> bt_ok ws"
  shows "returns (good_writeset E) (execute_writeset E payload sender_opt sid)"
proof (cases payload)
  case (Direct cs)
  with assms(2) show ?thesis
    by (cases cs) (simp add: execute_writeset_def cse_wf_def change_set_ext_new_def cse_write_set_def dcs_empty_def)
next
  case (WriteSetScript code ty_args args exec_as)
  have fin: "returns (pred_ok (session_output_ok E))
      (case r of Err e \<Rightarrow> Return (Err e) | Ok _ \<Rightarrow> finish_session E s)" for r s
    using finish_session_ok[OF assms(1)] by (simp split: result.split)
  have conv: "returns (good_writeset E)
      (prog_map (map_err Err) (prog_of_option (session_into_change_set (codec E) (change_sets E) so fv)))"
    if "session_output_ok E so" for so fv
    by (intro returns_map returns_of_option) (auto dest!: session_change_set_good[OF assms(1) that] elim!: pred_ok.elims)
  show ?thesis
    unfolding execute_writeset_def WriteSetScript Let_def
    by (auto simp: good_output_def[of E "(a, b)" for a b] intro!: returns_bind_any returns_bind[OF fin] conv split: result.split option.split)
qed

lemma process_waypoint_change_set_wf:
  assumes "vm_laws E" "\<And>ws events. payload = Direct (ws, events) \<Longrightarrow> bt_ok ws"
  shows "returns (pred_ok (good_output E)) (process_waypoint_change_set E payload)"
proof -
  have st: "\<not> is_discarded_status (conv E) (status_from (conv E) Executed)"
    using assms(1) by (simp add: vm_laws_def statuses_lawful_def)
  have ok: "returns (pred_ok (good_output E)) (prog_map (map_ok (\<lambda>_. (Executed, output_ext_new deltas
      \<lparr>out_write_set = ws, out_events = events, out_gas_used = 0, out_status = status_from (conv E) Executed\<rparr>))) p)"
    if "cse_wf cs" "cse_into_inner cs = (deltas, ws, events)" for cs deltas ws events p
    unfolding prog_map_def by (rule returns_bind_any)
      (auto simp: good_output_def output_wf_of_change_set[where discarded = "is_discarded_status (conv E)", OF that st])
  show ?thesis
    unfolding process_waypoint_change_set_def
    by (rule returns_bind[OF execute_writeset_wf[OF assms]]) (auto intro!: ok split: result.split prod.split)
qed

lemma process_block_prologue_wf:
  assumes "vm_laws E"
  shows "returns (pred_ok (good_output E)) (process_block_prologue E meta)"
proof -
  have "returns (pred_ok (good_output E)) (prog_map (map_ok (\<lambda>output. (Executed, output)))
      (get_transaction_output E session g md status fv))" for session g md status fv
    by (rule returns_map, rule returns_mono[OF get_transaction_output_wf[OF assms]]) (auto simp: good_output_def elim!: pred_ok.elims)
  then show ?thesis
    unfolding process_block_prologue_def Let_def
    by (intro returns_bind_any) (auto split: result.split)
qed

text \<open>
  C4.  Every output the VM returns for a transaction is one the block executors can merge: its write set and
  its deltas are ordered tables, no key has both a write and a delta, and a discarded output changes
  nothing.  This holds for user transactions on every path (success with the epilogue squashed onto the
  payload's changes, failure with its clean-up, validation errors), waypoints, block metadata and
  checkpoints.
\<close>

theorem aptos_outputs_wf:
  assumes laws: "vm_laws E" and discarded: "status_is_discarded T = is_discarded_status (conv E)"
    and direct: "\<And>ws events. WaypointWriteSet (Direct (ws, events)) \<in> set txns \<Longrightarrow> bt_ok ws"
  shows "vm_outputs_wf T (aptos_adapter E) txns"
proof -
  have good: "returns (pred_ok (\<lambda>(_, t, _). output_wf (is_discarded_status (conv E)) t)) (aptos_execute_single_transaction E t)"
    if t: "t \<in> set txns" for t
  proof (cases t)
    case (UserTransaction user_txn)
    show ?thesis
      unfolding aptos_execute_single_transaction_def UserTransaction
      by (simp, rule returns_map, rule returns_mono[OF execute_user_transaction_wf[OF laws]]) (auto simp: good_output_def)
  next
    case (WaypointWriteSet payload)
    have "returns (pred_ok (good_output E)) (process_waypoint_change_set E payload)"
      using laws direct t WaypointWriteSet by (intro process_waypoint_change_set_wf) auto
    then show ?thesis
      unfolding aptos_execute_single_transaction_def WaypointWriteSet
      by (simp, intro returns_map, elim returns_mono) (auto simp: good_output_def elim!: pred_ok.elims)
  next
    case (BlockMetadata meta)
    show ?thesis
      unfolding aptos_execute_single_transaction_def BlockMetadata
      by (simp, rule returns_map, rule returns_mono[OF process_block_prologue_wf[OF laws]]) (auto simp: good_output_def elim!: pred_ok.elims)
  next
    case InvalidSignature
    show ?thesis
      unfolding aptos_execute_single_transaction_def InvalidSignature by (simp add: case_prod_unfold Let_def)
  next
    case StateCheckpoint
    show ?thesis
      unfolding aptos_execute_single_transaction_def StateCheckpoint
      by (simp add: output_wf_def output_ext_from_def dcs_empty_def)
  qed
  have "returns (\<lambda>r. \<forall>vm_status out sender. r = Ok (vm_status, out, sender) \<longrightarrow> output_wf (is_discarded_status (conv E)) out)
      (aptos_execute_single_transaction E t)" if "t \<in> set txns" for t
    by (rule returns_mono[OF good[OF that]]) auto
  then show ?thesis by (simp add: vm_outputs_wf_def discarded aptos_adapter_def)
qed

section \<open>Validation and execution\<close>

definition accepts where
  "accepts E answer allow_too_new transaction \<longleftrightarrow>
     acceptable (gas_arith_ops E) (gas_check E) (known E) (default_validation E) (module_bundle_disallowed E) (vm_impl E) (signed E)
       answer allow_too_new (vm_new_session (move E) (session_id_txn (signed E) transaction)) transaction"

lemma rejected_is_discarded:
  assumes "\<nexists>s'. run_prog answer (validate_user_transaction E (vm_new_session (move E) (session_id_txn (signed E) t)) t False) = Some (Ok (), s')"
    and "run_prog answer (execute_user_transaction E t) = Some out"
  shows "\<exists>err. out = discard_error_vm_status E err"
proof (cases "run_prog answer (validate_user_transaction E (vm_new_session (move E) (session_id_txn (signed E) t)) t False)")
  case None
  with assms(2) show ?thesis by (simp add: execute_user_transaction_def Let_def)
next
  case (Some x)
  obtain r s' where "x = (r, s')" by fastforce
  with Some assms show ?thesis by (cases r) (auto simp: execute_user_transaction_def Let_def)
qed

text \<open>
  C3.  What the VM lets in.  Validation for the mempool accepts a transaction, with its gas price as the score,
  exactly when its signature checks, its signers are distinct, its payload is not gated, it fits the gas
  bounds (and the size limit, unless approved), and its prologue succeeds or aborts in the account module
  with a sequence number that is still too new.  Execution repeats these checks without the tolerance
  for the sequence number, and a transaction that fails them ends discarded: it writes nothing and pays
  nothing.
\<close>

theorem validation_accepts_iff:
  assumes q: "gas_ops_ok (gas_arith_ops E)" and r: "round_up_ok (gas_check E)"
    and codes: "status_codes_ok (vm_code_of (conv E))" and T: "vm_status_code T = vm_code_of (conv E)"
  shows "(validate_signed_transaction T (aptos_adapter E) gas_unit_price transaction view = Some (None, score) \<longleftrightarrow>
      (\<exists>checked. check_txn_signature E transaction = Ok checked \<and> score = gas_unit_price checked \<and>
         accepts E (\<lambda>k. Some (map_err StateError (view k))) True checked)) \<and>
    (\<not> accepts E answer False user_txn \<longrightarrow>
       (\<forall>out. run_prog answer (execute_user_transaction E user_txn) = Some out \<longrightarrow> (\<exists>err. out = discard_error_vm_status E err)))"
proof
  note accepted = validation_passes_iff[OF codes q r, where S = "signed E" and F = "known E" and vm = "vm_impl E"
      and default_validation = "default_validation E" and disallowed = "module_bundle_disallowed E"]
  have view: "cache_get_state_value (state_view_cache_new view) k = view k" for k
    by (simp add: cache_get_state_value_def state_view_cache_new_def split: result.split)
  show "validate_signed_transaction T (aptos_adapter E) gas_unit_price transaction view = Some (None, score) \<longleftrightarrow>
      (\<exists>checked. check_txn_signature E transaction = Ok checked \<and> score = gas_unit_price checked \<and>
         accepts E (\<lambda>k. Some (map_err StateError (view k))) True checked)"
    unfolding accepts_def accepted[symmetric]
    by (auto simp: validate_signed_transaction_def aptos_adapter_def T view split: result.splits option.splits prod.splits)
  show "\<not> accepts E answer False user_txn \<longrightarrow>
      (\<forall>out. run_prog answer (execute_user_transaction E user_txn) = Some out \<longrightarrow> (\<exists>err. out = discard_error_vm_status E err))"
    unfolding accepts_def accepted[symmetric] validate_user_transaction_def[symmetric]
    by (intro impI allI) (rule rejected_is_discarded)
qed

section \<open>An example\<close>

text \<open>
  A Move VM whose sessions count the calls made on top of the sequence number, and change one resource
  and one aggregator; its prologue rejects the sequence number 9 as too new.
\<close>

definition demo_context :: "unit native_context" where
  "demo_context =
     \<lparr>txn_hash = [], resolver = (\<lambda>_ _. Ok None),
      ctx_data = \<lparr>new_aggregators = {}, destroyed_aggregators = {},
        aggregators = [(AggregatorID 1 2, \<lparr>agg_value = 5, agg_state = PositiveDelta, agg_limit = 100,
          agg_history = Some \<lparr>hist_max_positive = 5, hist_min_negative = 0\<rparr>\<rparr>)]\<rparr>\<rparr>"

definition demo_finished :: "nat \<Rightarrow> (nat, unit, unit, unit) finished_session" where
  "demo_finished s =
     ([(7, [], [((), Modify [of_nat s])])], [], Ok \<lparr>new_tables = [], removed_tables = {}, table_changes = []\<rparr>, demo_context)"

definition demo_move_vm :: "(nat, nat, unit, nat, unit, unit, unit, unit, unit) move_vm" where
  "demo_move_vm =
     \<lparr>vm_new_session = (\<lambda>sid. case sid of Txn _ n _ \<Rightarrow> unat n | _ \<Rightarrow> 0),
      vm_load_script = (\<lambda>_ _ s. Return (Err (), s)),
      vm_load_function = (\<lambda>_ _ _ s. Return (Ok \<lparr>fn_parameters = [], fn_return = []\<rparr>, s)),
      vm_execute_script = (\<lambda>_ _ _ s. Return (Err (), s)),
      vm_execute_entry_function = (\<lambda>_ _ _ _ s. Return (Ok (), Suc (fst s), snd s)),
      vm_execute_bypass = (\<lambda>_ _ _ s. Return (Ok (), s)),
      vm_execute_script_unmetered = (\<lambda>_ _ _ s. Return (Err (), s)),
      vm_publish_module_bundle = (\<lambda>_ _ s. Return (Ok (), s)),
      vm_module_loads = (\<lambda>_ s. Return (False, s)),
      vm_exists_module = (\<lambda>_ s. Return (Ok False, s)),
      vm_code_context = (\<lambda>_. \<lparr>requested_module_bundle = None\<rparr>),
      vm_set_code_context = (\<lambda>_ s. s),
      vm_arg_env = (\<lambda>_. demo_env),
      vm_finish_with_extensions = (\<lambda>s. Return (Ok (demo_finished s)))\<rparr>"

definition demo_known :: "(nat, nat, unit, nat, unit, unit, unit) known_functions" where
  "demo_known =
     \<lparr>execute_unmetered = (\<lambda>s _ name _. if name = ''prologue'' \<and> s = 9 then Return (Err (), s) else Return (Ok (), Suc s)),
      serialize_values = (\<lambda>_. []), vmerr_into_status = (\<lambda>_. MoveAbort () 0x103EB), expect_no_verification_errors = id\<rparr>"

definition demo_change_set_ops :: "(nat, unit, nat, nat, nat, unit, unit, unit) change_set_ops" where
  "demo_change_set_ops =
     \<lparr>cs_keys = \<lparr>resource_key = (\<lambda>_ _. 0), module_key = (\<lambda>_ _. 1),
        table_item = (\<lambda>h key. 2 + unat h * 2 ^ 256 + length key), aggregator_key_bytes = (\<lambda>a. replicate (unat a) 0)\<rparr>,
      freeze_inserted = (\<lambda>ws. Ok (bt_collect ws [])), decode_event_key = (\<lambda>_. None), contract_event = (\<lambda>k _ _ _. k),
      change_set_new = (\<lambda>ws ev _. Ok (ws, ev))\<rparr>"

definition demo_signed :: "(nat, nat, unit, unit) signed_ops" where
  "demo_signed =
     \<lparr>txn_sender = (\<lambda>_. 7), txn_authentication_key = (\<lambda>_. []), txn_secondary_signers = (\<lambda>_. []), txn_secondary_keys = (\<lambda>_. []),
      txn_sequence_number = of_nat, txn_max_gas_amount = (\<lambda>_. 5), txn_gas_unit_price = (\<lambda>_. 1), txn_raw_bytes_len = (\<lambda>_. 625),
      txn_expiration = (\<lambda>_. 0), txn_chain_id = (\<lambda>_. 1), txn_payload = (\<lambda>_. EntryFunction (1, [97]) ''run'' [] []),
      txn_duplicate_signers = (\<lambda>_. False), sha3_256_of = id\<rparr>"

definition demo_validation :: "(nat, unit) transaction_validation" where
  "demo_validation = \<lparr>tv_module_id = (1, [98]), tv_script_prologue_name = ''prologue'', tv_multi_agent_prologue_name = ''multi'',
     tv_module_prologue_name = ''module'', tv_user_epilogue_name = ''epilogue'', is_account_module_abort = (\<lambda>_. True)\<rparr>"

definition demo_conversions :: "(unit, unit, unit, unit, (nat \<times> bytes) \<times> (nat \<times> bytes) list, unit, unit, nat, unit) vm_conversions" where
  "demo_conversions =
     \<lparr>status_from = (\<lambda>st. case st of StatusError c \<Rightarrow> Status_Discard c | _ \<Rightarrow> Status_Keep ()),
      keep_or_discard = (\<lambda>st. case st of StatusError c \<Rightarrow> Err c | _ \<Rightarrow> Ok ()),
      vm_code_of = (\<lambda>st. case st of StatusError c \<Rightarrow> c | MoveAbort _ _ \<Rightarrow> ABORTED | _ \<Rightarrow> UNKNOWN_STATUS),
      is_discarded_status = (\<lambda>st. case st of Status_Discard _ \<Rightarrow> True | _ \<Rightarrow> False),
      execution_success = (), with_abort_info = id, meter_error_status = (\<lambda>_. ExecutionFailure ()),
      partial_error_status = (\<lambda>_. ExecutionFailure ()), finish_error = (\<lambda>_. ()), duplicate_module_error = (\<lambda>_. ()),
      convert_txn_args = (\<lambda>_. []), reserved_vm_address = 0, genesis_id = (),
      block_id = id, block_module = (1, [99]), block_prologue_args = (\<lambda>_ _. []), default_metadata = demo_metadata, sender_string = (\<lambda>_. [])\<rparr>"

definition demo_aptos where
  "demo_aptos =
     \<lparr>codec = bcs_le128, gas_arith_ops = sat_ops, state_key_ops = demo_keys, signed = demo_signed, known = demo_known, move = demo_move_vm,
      modules_of = demo_modules, change_sets = demo_change_set_ops, gas_check = demo_gas_check, conv = demo_conversions,
      default_validation = demo_validation, module_bundle_disallowed = True, vm_impl = demo_vm, epoch_event_key = 0, block_event_key = 1,
      event_key = id, check_txn_signature = Ok\<rparr>"

definition demo_vm_types :: "(nat, unit vm_transaction_status, (unit, unit) vm_status, (nat \<times> write_op) list, (nat, write_op) btree, unit, unit) types_ops" where
  "demo_vm_types = \<lparr>vm_status_error = StatusError, into_vm_status = (\<lambda>_. ExecutionFailure ()), vm_status_code = vm_code_of demo_conversions,
     wsm_new = id, wsm_len = length, wsm_squash = (\<lambda>ws ds. Ok (bt_collect ds ws)), wsm_freeze = Ok,
     status_is_discarded = is_discarded_status demo_conversions, status_retry = Status_Retry\<rparr>"

lemmas demo_vm_defs = demo_aptos_def demo_conversions_def demo_validation_def demo_signed_def demo_known_def demo_move_vm_def
  demo_vm_def demo_modules_def

lemma demo_aggregator_item: "inj (aggregator_item (cs_keys demo_change_set_ops))"
proof (rule injI)
  fix i j :: aggregator_id
  assume "aggregator_item (cs_keys demo_change_set_ops) i = aggregator_item (cs_keys demo_change_set_ops) j"
  then have eq: "unat (aid_handle i) * 2 ^ 256 + unat (aid_key i) = unat (aid_handle j) * 2 ^ 256 + unat (aid_key j)"
    by (simp add: aggregator_item_def demo_change_set_ops_def)
  have lt: "unat a < 2 ^ 256" for a :: address using unsigned_less[of a] by simp
  have "unat (aid_key i) = unat (aid_key j)" "unat (aid_handle i) = unat (aid_handle j)"
    using arg_cong[OF eq, of "\<lambda>n. n mod 2 ^ 256"] arg_cong[OF eq, of "\<lambda>n. n div 2 ^ 256"] lt by simp_all
  then show "i = j" by (cases i; cases j) (simp add: word_unat_eq_iff)
qed

lemma demo_laws: "vm_laws demo_aptos"
proof -
  have env: "move demo_aptos = demo_move_vm" "change_sets demo_aptos = demo_change_set_ops" "conv demo_aptos = demo_conversions"
    by (simp_all add: demo_aptos_def)
  have "change_set_laws demo_change_set_ops"
    using demo_aggregator_item by (simp add: change_set_laws_def) (simp add: demo_change_set_ops_def)
  moreover have "session_separate demo_aptos (Ok (demo_finished s) :: (_, unit) result)" for s
    by (auto simp: session_separate_def env demo_finished_def aggregators_separate_def
        account_writes_def table_writes_def demo_change_set_ops_def aggregator_item_def)
  then have "sessions_lawful demo_aptos" by (simp add: sessions_lawful_def env demo_move_vm_def)
  moreover have "statuses_lawful demo_aptos" by (simp add: statuses_lawful_def env demo_conversions_def)
  ultimately show ?thesis by (simp add: vm_laws_def env)
qed

theorem aptos_outputs_wf_witness:
  "vm_laws demo_aptos \<and> vm_outputs_wf demo_vm_types (aptos_adapter demo_aptos)
     [UserTransaction 4, BlockMetadata (), WaypointWriteSet (Direct ([(3, Deletion)], [])), InvalidSignature, StateCheckpoint]"
  using demo_laws
  by (intro conjI aptos_outputs_wf) (simp_all add: demo_vm_types_def demo_aptos_def bt_ok_def)

theorem validation_accepts_iff_witness:
  "validate_signed_transaction demo_vm_types (aptos_adapter demo_aptos) (\<lambda>_. 1) 9 (\<lambda>_. Ok None) = Some (None, 1) \<and>
   (\<exists>err. run_prog (\<lambda>_. None) (execute_user_transaction demo_aptos 9) = Some (discard_error_vm_status demo_aptos err))"
proof -
  have codes: "status_codes_ok (vm_code_of (conv demo_aptos))" by (simp add: status_codes_ok_def demo_vm_defs)
  have ops: "gas_ops_ok (gas_arith_ops demo_aptos)" "round_up_ok (gas_check demo_aptos)"
    using sat_ops_ok demo_round_up by (simp_all add: demo_aptos_def)
  have T: "vm_status_code demo_vm_types = vm_code_of (conv demo_aptos)" by (simp add: demo_vm_types_def demo_aptos_def)
  have split: "error_split 0x103EB = (INVALID_ARGUMENT, ESEQUENCE_NUMBER_TOO_NEW)"
    by (simp add: error_split_def prologue_codes)
  have md: "within_bounds (txn demo_gas_params) (transaction_metadata_new demo_signed 9)"
    by (simp add: within_bounds_def demo_gas_params_def transaction_metadata_new_def demo_signed_def intrinsic_price_def scaling_factor_def MAX_U64_def)
  have acc: "accepts demo_aptos answer allow 9 \<longleftrightarrow> allow" for answer allow
    using md by (simp add: accepts_def acceptable_def Let_def demo_vm_defs get_transaction_validation_def passes_def prologue_name_def
        is_multi_agent_def transaction_metadata_new_def session_id_txn_def session_id_txn_meta_def sequence_number_too_new_def split
        demo_gas_params_def)
  note ok = validation_accepts_iff[OF ops codes T]
  have gas: "run_prog answer (check_gas sat_ops demo_gas_check demo_vm (transaction_metadata_new demo_signed 9)) =
      Some (Ok () :: (unit, (unit, unit) vm_status) result)" for answer
    unfolding check_gas_Ok[OF sat_ops_ok demo_round_up] using md
    by (simp add: demo_vm_def) (simp add: transaction_metadata_new_def demo_signed_def demo_gas_params_def)
  have env: "vm_impl demo_aptos = demo_vm" "gas_arith_ops demo_aptos = sat_ops" "gas_check demo_aptos = demo_gas_check"
    "signed demo_aptos = demo_signed" "known demo_aptos = demo_known" "module_bundle_disallowed demo_aptos"
    "default_validation demo_aptos = demo_validation" "move demo_aptos = demo_move_vm" by (simp_all add: demo_aptos_def)
  have "get_transaction_validation demo_validation demo_vm = demo_validation" "txn_payload demo_signed 9 = EntryFunction (1, [97]) ''run'' [] []"
    "\<not> txn_duplicate_signers demo_signed 9" "\<not> is_multi_agent (transaction_metadata_new demo_signed 9)"
    "vm_new_session demo_move_vm (session_id_txn demo_signed 9) = 9"
    by (simp_all add: get_transaction_validation_def demo_vm_def demo_signed_def is_multi_agent_def transaction_metadata_new_def
        demo_move_vm_def session_id_txn_def session_id_txn_meta_def)
  then have "run_prog (\<lambda>_. None) (execute_user_transaction demo_aptos 9) \<noteq> None"
    by (simp add: execute_user_transaction_def validate_user_transaction_def validate_signature_checked_transaction_def env Let_def gas
        aptos_check_transaction_format_def aptos_run_prologue_def run_prologue_with_payload_def run_script_prologue_def call_known_def)
      (simp add: demo_known_def demo_validation_def convert_prologue_error_def)
  with ok[of "\<lambda>_. 1" 9 "\<lambda>_. Ok None" 1 "\<lambda>_. None" 9] acc show ?thesis
    by (auto simp: demo_aptos_def)
qed

end
