(* ===== verification/Natives.thy ===== *)
theory Natives
  imports Gas_Txn Code_Publish
begin

text \<open>
  The native functions of the framework that keep no state of their own, from
  \<^verbatim>\<open>framework/src/natives\<close>: \<^verbatim>\<open>util.rs\<close>, \<^verbatim>\<open>account.rs\<close>, \<^verbatim>\<open>any.rs\<close>, \<^verbatim>\<open>event.rs\<close>,
  \<^verbatim>\<open>hash.rs\<close>, \<^verbatim>\<open>state_storage.rs\<close>, \<^verbatim>\<open>transaction_context.rs\<close> and \<^verbatim>\<open>type_info.rs\<close>.  The values
  of the Move VM belong to an external library: their conversions and constructors are the fields of
  \<open>val_ops\<close>, and the other library calls are arguments.  A native function pops its arguments from the
  end of the argument list and returns its cost together with values or an abort code.  Debug assertions
  are left out; a real assertion or \<open>unwrap\<close> that fails is \<open>None\<close>.
\<close>

section \<open>Values, arguments and outcomes\<close>

record ('v, 'st, 'a) val_ops =
  val_bytes :: "'v \<Rightarrow> (bytes, partial_vm_error) result"
  val_u8 :: "'v \<Rightarrow> (u8, partial_vm_error) result"
  val_u64 :: "'v \<Rightarrow> (u64, partial_vm_error) result"
  val_u128 :: "'v \<Rightarrow> (u128, partial_vm_error) result"
  val_bool :: "'v \<Rightarrow> (bool, partial_vm_error) result"
  val_address :: "'v \<Rightarrow> ('a, partial_vm_error) result"
  val_values :: "'v \<Rightarrow> ('v list, partial_vm_error) result"
  val_struct :: "'v \<Rightarrow> ('st, partial_vm_error) result"
  struct_unpack :: "'st \<Rightarrow> ('v list, partial_vm_error) result"
  struct_pack :: "'v list \<Rightarrow> 'st"
  bytes_val :: "bytes \<Rightarrow> 'v"
  bool_val :: "bool \<Rightarrow> 'v"
  u64_val :: "u64 \<Rightarrow> 'v"
  address_val :: "'a \<Rightarrow> 'v"
  signer_val :: "'a \<Rightarrow> 'v"
  struct_val :: "'st \<Rightarrow> 'v"

type_synonym 'v call_outcome = "(u64 \<times> ('v list, u64) result, partial_vm_error) result"

abbreviation native_ok :: "u64 \<Rightarrow> 'v list \<Rightarrow> 'v call_outcome" where
  "native_ok cost values \<equiv> Ok (cost, Ok values)"

abbreviation native_err :: "u64 \<Rightarrow> u64 \<Rightarrow> 'v call_outcome" where
  "native_err cost abort_code \<equiv> Ok (cost, Err abort_code)"

definition invariant_violation :: partial_vm_error where
  "invariant_violation = \<lparr>major_status = UNKNOWN_INVARIANT_VIOLATION_ERROR, message = None, sub_status = None\<rparr>"

text \<open>\<open>pop_arg!\<close> as \<open>pop_vec_arg!\<close> replicates it: the last argument, converted.\<close>

definition pop_arg_as :: "('v \<Rightarrow> ('b, partial_vm_error) result) \<Rightarrow> 'v list \<Rightarrow> ('b \<times> 'v list, partial_vm_error) result" where
  "pop_arg_as conv args =
     (if args = [] then Err invariant_violation
      else map_ok (\<lambda>x. (x, butlast args)) (conv (last args)))"

definition pop_vec_arg ::
  "('v, 'st, 'a, 'z) val_ops_scheme \<Rightarrow> ('v \<Rightarrow> ('b, partial_vm_error) result) \<Rightarrow> 'v list \<Rightarrow>
   ('b list \<times> 'v list, partial_vm_error) result" where
  "pop_vec_arg V conv args =
     bind_ok (pop_arg_as (val_values V) args) (\<lambda>(value_vec, args).
     map_ok (\<lambda>vec_vec. (vec_vec, args)) (convert_all conv value_vec))"

section \<open>util.rs and account.rs\<close>

definition EFROM_BYTES :: u64 where "EFROM_BYTES = 0x010001"

definition native_from_bytes ::
  "gas_ops \<Rightarrow> params \<Rightarrow> ('v, 'st, 'a, 'z) val_ops_scheme \<Rightarrow> ('ty \<Rightarrow> ('ly option, partial_vm_error) result) \<Rightarrow> ('ty \<Rightarrow> string) \<Rightarrow>
   (bytes \<Rightarrow> 'ly \<Rightarrow> 'v option) \<Rightarrow> 'ty list \<Rightarrow> 'v list \<Rightarrow> 'v call_outcome option" where
  "native_from_bytes q p V type_to_type_layout show_type simple_deserialize ty_args args =
     (case ty_args of
        [] \<Rightarrow> None
      | ty # _ \<Rightarrow> Some (
          bind_ok (type_to_type_layout ty) (\<lambda>lo.
          bind_ok (case lo of
                     Some layout \<Rightarrow> Ok layout
                   | None \<Rightarrow> Err (invariant_violation\<lparr>message :=
                       Some (''Failed to get layout of type '' @ show_type ty @ '' -- this should not happen'')\<rparr>)) (\<lambda>layout.
          bind_ok (pop_arg_as (val_bytes V) args) (\<lambda>(bytes, _).
          let cost = gq_add q (p ''util.from_bytes.base'') (gq_mul q (p ''util.from_bytes.per_byte'') (len_u64 bytes))
          in case simple_deserialize bytes layout of
               Some val \<Rightarrow> native_ok cost [val]
             | None \<Rightarrow> native_err cost EFROM_BYTES)))))"

definition NFE_EXPECTED_STRUCT_TYPE_TAG :: u64 where "NFE_EXPECTED_STRUCT_TYPE_TAG = 1"
definition NFE_UNABLE_TO_PARSE_ADDRESS :: u64 where "NFE_UNABLE_TO_PARSE_ADDRESS = 2"

definition native_create_address ::
  "params \<Rightarrow> ('v, 'st, 'a, 'z) val_ops_scheme \<Rightarrow> (bytes \<Rightarrow> 'a option) \<Rightarrow> 'v list \<Rightarrow> 'v call_outcome" where
  "native_create_address p V account_address_from_bytes args =
     (let cost = p ''account.create_address.base''
      in bind_ok (pop_arg_as (val_bytes V) args) (\<lambda>(bytes, _).
         case account_address_from_bytes bytes of
           Some address \<Rightarrow> native_ok cost [address_val V address]
         | None \<Rightarrow> native_err cost NFE_UNABLE_TO_PARSE_ADDRESS))"

definition native_create_signer ::
  "params \<Rightarrow> ('v, 'st, 'a, 'z) val_ops_scheme \<Rightarrow> 'v list \<Rightarrow> 'v call_outcome" where
  "native_create_signer p V args =
     bind_ok (pop_arg_as (val_address V) args) (\<lambda>(address, _).
     native_ok (p ''account.create_signer.base'') [signer_val V address])"

section \<open>any.rs\<close>

record any =
  any_type_name :: bytes
  any_data :: bytes

text \<open>Serialization is unwrapped; the error of \<open>unpack\<close> is its message.\<close>

definition any_pack :: "('x \<Rightarrow> bytes option) \<Rightarrow> bytes \<Rightarrow> 'x \<Rightarrow> any option" where
  "any_pack bcs_to_bytes move_name x =
     do { data \<leftarrow> bcs_to_bytes x; Some \<lparr>any_type_name = move_name, any_data = data\<rparr> }"

definition any_unpack :: "(bytes \<Rightarrow> ('x, string) result) \<Rightarrow> bytes \<Rightarrow> any \<Rightarrow> ('x, string) result" where
  "any_unpack bcs_from_bytes move_name x =
     (if any_type_name x = move_name then bcs_from_bytes (any_data x) else Err ''type mismatch'')"

section \<open>event.rs\<close>

text \<open>
  \<open>save_event\<close> of the VM context appends the event unless its type cannot be resolved; the context is
  passed on.
\<close>

definition native_write_to_event_store ::
  "gas_ops \<Rightarrow> params \<Rightarrow> ('v, 'st, 'a, 'z) val_ops_scheme \<Rightarrow> ('v \<Rightarrow> u64) \<Rightarrow>
   ('cx \<Rightarrow> bytes \<Rightarrow> u64 \<Rightarrow> 'ty \<Rightarrow> 'v \<Rightarrow> (bool, partial_vm_error) result \<times> 'cx) \<Rightarrow>
   'cx \<Rightarrow> 'ty list \<Rightarrow> 'v list \<Rightarrow> ('v call_outcome \<times> 'cx) option" where
  "native_write_to_event_store q p V calc_abstract_val_size save_event cx ty_args args =
     (if ty_args = [] \<or> args = [] then None
      else Some (
        let ty = last ty_args; msg = last args
        in case bind_ok (pop_arg_as (val_u64 V) (butlast args)) (\<lambda>(seq_num, args).
                bind_ok (pop_arg_as (val_bytes V) args) (\<lambda>(guid, _). Ok (seq_num, guid))) of
             Err e \<Rightarrow> (Err e, cx)
           | Ok (seq_num, guid) \<Rightarrow>
               (let cost = gq_add q (p ''event.write_to_event_store.base'')
                             (gq_mul q (p ''event.write_to_event_store.per_abstract_value_unit'') (calc_abstract_val_size msg))
                in case save_event cx guid seq_num ty msg of
                     (Err e, cx) \<Rightarrow> (Err e, cx)
                   | (Ok saved, cx) \<Rightarrow> (if \<not> saved then native_err cost 0 else native_ok cost [], cx))))"

section \<open>hash.rs\<close>

definition native_sip_hash ::
  "gas_ops \<Rightarrow> params \<Rightarrow> ('v, 'st, 'a, 'z) val_ops_scheme \<Rightarrow> (bytes \<Rightarrow> u64) \<Rightarrow> 'v list \<Rightarrow> 'v call_outcome" where
  "native_sip_hash q p V sip_hash args =
     bind_ok (pop_arg_as (val_bytes V) args) (\<lambda>(bytes, _).
     let cost = gq_add q (p ''hash.sip_hash.base'') (gq_mul q (p ''hash.sip_hash.per_byte'') (len_u64 bytes))
     in native_ok cost [u64_val V (sip_hash bytes)])"

definition native_keccak256 ::
  "gas_ops \<Rightarrow> params \<Rightarrow> ('v, 'st, 'a, 'z) val_ops_scheme \<Rightarrow> (bytes \<Rightarrow> bytes) \<Rightarrow> 'v list \<Rightarrow> 'v call_outcome" where
  "native_keccak256 q p V keccak256 args =
     bind_ok (pop_arg_as (val_bytes V) args) (\<lambda>(bytes, _).
     let cost = gq_add q (p ''hash.keccak256.base'') (gq_mul q (p ''hash.keccak256.per_byte'') (len_u64 bytes))
     in native_ok cost [bytes_val V (keccak256 bytes)])"

section \<open>state_storage.rs and transaction_context.rs\<close>

record state_storage_usage =
  usage_items :: nat
  usage_bytes :: nat

record native_state_storage_context =
  get_state_storage_usage :: "(state_storage_usage, string) result"

definition native_get_usage ::
  "params \<Rightarrow> ('v, 'st, 'a, 'z) val_ops_scheme \<Rightarrow> native_state_storage_context \<Rightarrow> 'ty list \<Rightarrow> 'v list \<Rightarrow> 'v call_outcome option" where
  "native_get_usage p V ctx ty_args args =
     (if ty_args \<noteq> [] \<or> args \<noteq> [] then None
      else Some (
        case get_state_storage_usage ctx of
          Err err \<Rightarrow> Err \<lparr>major_status = VM_EXTENSION_ERROR,
                      message = Some (''Failed to get state storage usage: '' @ err), sub_status = None\<rparr>
        | Ok usage \<Rightarrow>
            native_ok (p ''state_storage.get_usage.base_cost'')
              [struct_val V (struct_pack V [u64_val V (of_nat (usage_items usage)), u64_val V (of_nat (usage_bytes usage))])]))"

record native_transaction_context =
  script_hash :: bytes

definition native_transaction_context_new :: "bytes \<Rightarrow> native_transaction_context" where
  "native_transaction_context_new h = \<lparr>script_hash = h\<rparr>"

definition native_get_script_hash ::
  "params \<Rightarrow> ('v, 'st, 'a, 'z) val_ops_scheme \<Rightarrow> native_transaction_context \<Rightarrow> 'v call_outcome" where
  "native_get_script_hash p V transaction_context =
     native_ok (p ''transaction_context.get_script_hash.base'') [bytes_val V (script_hash transaction_context)]"

section \<open>type_info.rs\<close>

record ('a, 'tag) struct_tag =
  tag_address :: 'a
  tag_module :: bytes
  tag_name :: bytes
  tag_type_params :: "'tag list"

text \<open>The name with its type arguments between angle brackets, separated by a comma and a space.\<close>

definition type_of_name :: "('tag \<Rightarrow> bytes) \<Rightarrow> ('a, 'tag) struct_tag \<Rightarrow> bytes" where
  "type_of_name show_tag st =
     (case tag_type_params st of
        [] \<Rightarrow> tag_name st
      | first_ty # rest \<Rightarrow> tag_name st @ [60] @ show_tag first_ty @ concat (map (\<lambda>ty. [44, 32] @ show_tag ty) rest) @ [62])"

definition type_of_internal ::
  "('v, 'st, 'a, 'z) val_ops_scheme \<Rightarrow> ('tag \<Rightarrow> bytes) \<Rightarrow> ('a, 'tag) struct_tag \<Rightarrow> 'v list" where
  "type_of_internal V show_tag st =
     [struct_val V (struct_pack V
        [address_val V (tag_address st), bytes_val V (tag_module st), bytes_val V (type_of_name show_tag st)])]"

definition native_type_of ::
  "gas_ops \<Rightarrow> params \<Rightarrow> ('v, 'st, 'a, 'z) val_ops_scheme \<Rightarrow> ('ty \<Rightarrow> ('tag, partial_vm_error) result) \<Rightarrow> ('tag \<Rightarrow> bytes) \<Rightarrow>
   ('tag \<Rightarrow> ('a, 'tag) struct_tag option) \<Rightarrow> 'ty list \<Rightarrow> 'v call_outcome option" where
  "native_type_of q p V type_to_type_tag show_tag as_struct_tag ty_args =
     (case ty_args of
        [] \<Rightarrow> None
      | ty # _ \<Rightarrow> Some (
          bind_ok (type_to_type_tag ty) (\<lambda>type_tag.
          let per_byte = p ''type_info.type_of.per_byte_in_str'';
              cost = (if per_byte > 0
                      then gq_add q (p ''type_info.type_of.base'') (gq_mul q per_byte (len_u64 (show_tag type_tag)))
                      else p ''type_info.type_of.base'')
          in case as_struct_tag type_tag of
               Some st \<Rightarrow> native_ok cost (type_of_internal V show_tag st)
             | None \<Rightarrow> native_err cost NFE_EXPECTED_STRUCT_TYPE_TAG)))"

definition native_type_name ::
  "gas_ops \<Rightarrow> params \<Rightarrow> ('v, 'st, 'a, 'z) val_ops_scheme \<Rightarrow> ('ty \<Rightarrow> ('tag, partial_vm_error) result) \<Rightarrow> ('tag \<Rightarrow> bytes) \<Rightarrow>
   'ty list \<Rightarrow> 'v call_outcome option" where
  "native_type_name q p V type_to_type_tag show_tag ty_args =
     (case ty_args of
        [] \<Rightarrow> None
      | ty # _ \<Rightarrow> Some (
          bind_ok (type_to_type_tag ty) (\<lambda>type_tag.
          let type_name = show_tag type_tag;
              cost = gq_add q (p ''type_info.type_name.base'') (gq_mul q (p ''type_info.type_name.per_byte_in_str'') (len_u64 type_name))
          in native_ok cost [struct_val V (struct_pack V [bytes_val V type_name])])))"

section \<open>Lemmas\<close>

lemma pop_arg_as_Ok [result_rules]:
  "pop_arg_as conv args = Ok (x, rest) \<longleftrightarrow> (\<exists>v. args = rest @ [v] \<and> conv v = Ok x)"
  by (cases args rule: rev_cases) (auto simp: pop_arg_as_def result_rules)

lemma pop_arg_as_snoc [simp]: "pop_arg_as conv (rest @ [v]) = map_ok (\<lambda>x. (x, rest)) (conv v)"
  by (simp add: pop_arg_as_def)

lemma pop_arg_as_Nil [simp]: "pop_arg_as conv [] = Err invariant_violation"
  by (simp add: pop_arg_as_def)

lemma pop_arg_as_Cons [simp]:
  "pop_arg_as conv (v # vs) = map_ok (\<lambda>x. (x, butlast (v # vs))) (conv (last (v # vs)))"
  by (simp add: pop_arg_as_def)

text \<open>A price per byte in closed form.\<close>

lemma unat_per_byte:
  assumes "gas_ops_ok q" "length xs \<le> MAX_U64"
  shows "unat (gq_add q base (gq_mul q per (len_u64 xs))) = min (unat base + unat per * length xs) MAX_U64"
  using assms by (simp add: gas_ops_ok_def unat_len_u64 add.commute[of "unat base"] sat_add_left)

text \<open>Packing and unpacking under the same name returns the value, under another name an error.\<close>

lemma any_roundtrip:
  assumes "\<And>x bs. ser x = Some bs \<Longrightarrow> de bs = Ok x" and "any_pack ser n x = Some a"
  shows "any_unpack de m a = (if m = n then Ok x else Err ''type mismatch'')"
  using assms by (auto simp: any_pack_def any_unpack_def bind_eq_Some_conv)

text \<open>\<open>type_of\<close> succeeds exactly on structs and both natives on types are priced by the printed tag.\<close>

lemma native_type_of_cost:
  assumes q: "gas_ops_ok q" and t: "type_to_type_tag ty = Ok tag" and l: "length (show_tag tag) \<le> MAX_U64"
  shows "\<exists>cost. native_type_of q p V type_to_type_tag show_tag as_struct_tag (ty # tys) =
      Some (case as_struct_tag tag of Some st \<Rightarrow> native_ok cost (type_of_internal V show_tag st)
            | None \<Rightarrow> native_err cost NFE_EXPECTED_STRUCT_TYPE_TAG) \<and>
    unat cost = min (unat (p ''type_info.type_of.base'') + unat (p ''type_info.type_of.per_byte_in_str'') * length (show_tag tag)) MAX_U64"
  using t unat_per_byte[OF q l, of "p ''type_info.type_of.base''" "p ''type_info.type_of.per_byte_in_str''"]
  by (auto simp: native_type_of_def Let_def word_gt_0 unat_le_MAX min.absorb1 split: option.splits)

text \<open>An event is saved at most once per call, and only when the call succeeds.\<close>

lemma write_to_event_store_saves:
  assumes r: "native_write_to_event_store q p V sz save_event cx ty_args args = Some (native_ok cost vs, cx')"
  shows "vs = [] \<and> (\<exists>rest guid_v seq_v msg guid seq_num. args = rest @ [guid_v, seq_v, msg] \<and>
      val_bytes V guid_v = Ok guid \<and> val_u64 V seq_v = Ok seq_num \<and>
      save_event cx guid seq_num (last ty_args) msg = (Ok True, cx'))"
proof -
  from r have "args \<noteq> []" by (simp add: native_write_to_event_store_def split: if_splits)
  then obtain xs msg where a: "args = xs @ [msg]" by (cases args rule: rev_cases) auto
  with r show ?thesis
    by (auto simp: native_write_to_event_store_def Let_def result_rules split: if_splits result.splits prod.splits)
qed

section \<open>A concrete representation of Move values\<close>

text \<open>The instance at which the properties of the natives are evaluated.\<close>

datatype native_value = NBytes bytes | NBool bool | NU8 u8 | NU64 u64 | NU128 u128 | NAddress nat | NSigner nat
  | NVector "native_value list" | NStruct "native_value list"

definition demo_vals :: "(native_value, native_value list, nat) val_ops" where
  "demo_vals =
     \<lparr>val_bytes = (\<lambda>v. case v of NBytes x \<Rightarrow> Ok x | _ \<Rightarrow> Err internal_type_error),
      val_u8 = (\<lambda>v. case v of NU8 x \<Rightarrow> Ok x | _ \<Rightarrow> Err internal_type_error),
      val_u64 = (\<lambda>v. case v of NU64 x \<Rightarrow> Ok x | _ \<Rightarrow> Err internal_type_error),
      val_u128 = (\<lambda>v. case v of NU128 x \<Rightarrow> Ok x | _ \<Rightarrow> Err internal_type_error),
      val_bool = (\<lambda>v. case v of NBool x \<Rightarrow> Ok x | _ \<Rightarrow> Err internal_type_error),
      val_address = (\<lambda>v. case v of NAddress x \<Rightarrow> Ok x | _ \<Rightarrow> Err internal_type_error),
      val_values = (\<lambda>v. case v of NVector x \<Rightarrow> Ok x | _ \<Rightarrow> Err internal_type_error),
      val_struct = (\<lambda>v. case v of NStruct x \<Rightarrow> Ok x | _ \<Rightarrow> Err internal_type_error),
      struct_unpack = Ok, struct_pack = (\<lambda>x. x),
      bytes_val = NBytes, bool_val = NBool, u64_val = NU64, address_val = NAddress, signer_val = NSigner, struct_val = NStruct\<rparr>"

end
