(* ===== verification/Signature_Natives.thy ===== *)
theory Signature_Natives
  imports Natives
begin

text \<open>
  The native functions on signatures, from \<^verbatim>\<open>framework/src/natives/cryptography\<close>: \<^verbatim>\<open>ed25519.rs\<close>,
  \<^verbatim>\<open>multi_ed25519.rs\<close>, \<^verbatim>\<open>secp256k1.rs\<close> and \<^verbatim>\<open>bls12381.rs\<close>.  The cryptographic libraries are
  external: parsing, group checks and verification are the fields of \<open>ed_lib\<close>, \<open>secp_lib\<close> and
  \<open>bls_lib\<close>, with the fallible ones returning an option.  The source documents a cost as a sum with
  \<open>+?\<close>, which stops after the first step that fails; \<open>stage_cost\<close> is that notation, and the lemmas
  show which formula each native really charges.
\<close>

section \<open>ed25519.rs and multi_ed25519.rs\<close>

record ('pt, 'pk, 'sg, 'mpk, 'msg) ed_lib =
  ED25519_PUBLIC_KEY_LENGTH :: nat
  ED25519_SIGNATURE_LENGTH :: nat
  MAX_NUM_OF_KEYS :: nat
  edwards_decompress :: "bytes \<Rightarrow> 'pt option"
  is_small_order :: "'pt \<Rightarrow> bool"
  ed_pk_parse :: "bytes \<Rightarrow> 'pk option"
  ed_sig_parse :: "bytes \<Rightarrow> 'sg option"
  ed_verify :: "'sg \<Rightarrow> bytes \<Rightarrow> 'pk \<Rightarrow> bool"
  multi_pk_parse :: "bytes \<Rightarrow> 'mpk option"
  multi_sig_parse :: "bytes \<Rightarrow> 'msg option"
  multi_verify :: "'msg \<Rightarrow> bytes \<Rightarrow> 'mpk \<Rightarrow> bool"

definition E_WRONG_PUBKEY_SIZE :: u64 where "E_WRONG_PUBKEY_SIZE = 1"
definition E_WRONG_SIGNATURE_SIZE :: u64 where "E_WRONG_SIGNATURE_SIZE = 2"

definition native_public_key_validate ::
  "gas_ops \<Rightarrow> params \<Rightarrow> ('v, 'st, 'a, 'z) val_ops_scheme \<Rightarrow> ('pt, 'pk, 'sg, 'mpk, 'msg) ed_lib \<Rightarrow> 'v list \<Rightarrow> 'v call_outcome" where
  "native_public_key_validate q p V L args =
     bind_ok (pop_arg_as (val_bytes V) args) (\<lambda>(key_bytes, _).
     let cost = gq_add q (p ''ed25519.base'') (gq_mul q (p ''ed25519.per_pubkey_deserialize'') 1)
     in if length key_bytes \<noteq> ED25519_PUBLIC_KEY_LENGTH L then native_err cost E_WRONG_PUBKEY_SIZE
        else case edwards_decompress L key_bytes of
               None \<Rightarrow> native_ok cost [bool_val V False]
             | Some point \<Rightarrow>
                 let cost = gq_add q cost (gq_mul q (p ''ed25519.per_pubkey_small_order_check'') 1);
                     valid = (\<not> is_small_order L point)
                 in native_ok cost [bool_val V valid])"

definition native_signature_verify_strict ::
  "gas_ops \<Rightarrow> params \<Rightarrow> ('v, 'st, 'a, 'z) val_ops_scheme \<Rightarrow> ('pt, 'pk, 'sg, 'mpk, 'msg) ed_lib \<Rightarrow> 'v list \<Rightarrow> 'v call_outcome" where
  "native_signature_verify_strict q p V L args =
     bind_ok (pop_arg_as (val_bytes V) args) (\<lambda>(msg, args).
     bind_ok (pop_arg_as (val_bytes V) args) (\<lambda>(pubkey, args).
     bind_ok (pop_arg_as (val_bytes V) args) (\<lambda>(signature, _).
     let cost = p ''ed25519.base'';
         cost = gq_add q cost (gq_mul q (p ''ed25519.per_pubkey_deserialize'') 1)
     in case ed_pk_parse L pubkey of
          None \<Rightarrow> native_ok cost [bool_val V False]
        | Some pk \<Rightarrow>
            let cost = gq_add q cost (gq_mul q (p ''ed25519.per_sig_deserialize'') 1)
            in case ed_sig_parse L signature of
                 None \<Rightarrow> native_ok cost [bool_val V False]
               | Some sig \<Rightarrow>
                   let cost = gq_add q cost (gq_add q (gq_add q
                         (gq_mul q (p ''ed25519.per_sig_strict_verify'') 1)
                         (gq_mul q (p ''ed25519.per_msg_hashing_base'') 1))
                         (gq_mul q (p ''ed25519.per_msg_byte_hashing'') (len_u64 msg)))
                   in native_ok cost [bool_val V (ed_verify L sig msg pk)])))"

text \<open>\<open>chunks_exact\<close>: the pieces of full length, the remainder is left out.\<close>

definition chunks_exact :: "nat \<Rightarrow> 'b list \<Rightarrow> 'b list list" where
  "chunks_exact n xs = map (\<lambda>i. take n (drop (i * n) xs)) [0..<length xs div n]"

definition sub_key_valid :: "('pt, 'pk, 'sg, 'mpk, 'msg) ed_lib \<Rightarrow> bytes \<Rightarrow> bool" where
  "sub_key_valid L pk_bytes \<longleftrightarrow>
     length pk_bytes = ED25519_PUBLIC_KEY_LENGTH L \<and>
     (case edwards_decompress L pk_bytes of None \<Rightarrow> False | Some point \<Rightarrow> \<not> is_small_order L point)"

definition native_multi_public_key_validate ::
  "gas_ops \<Rightarrow> params \<Rightarrow> ('v, 'st, 'a, 'z) val_ops_scheme \<Rightarrow> ('pt, 'pk, 'sg, 'mpk, 'msg) ed_lib \<Rightarrow> 'v list \<Rightarrow> 'v call_outcome" where
  "native_multi_public_key_validate q p V L args =
     bind_ok (pop_arg_as (val_bytes V) args) (\<lambda>(pks_bytes, _).
     let num_sub_pks = length pks_bytes div ED25519_PUBLIC_KEY_LENGTH L;
         cost = p ''ed25519.base''
     in if num_sub_pks > MAX_NUM_OF_KEYS L then native_ok cost [bool_val V False]
        else
          let num_valid = length (filter (sub_key_valid L) (chunks_exact (ED25519_PUBLIC_KEY_LENGTH L) pks_bytes));
              all_valid = (num_valid = num_sub_pks);
              num_checked = (if \<not> all_valid then num_valid + 1 else num_valid);
              num_checked = of_nat num_checked;
              cost = gq_add q cost (gq_add q
                (gq_mul q (p ''ed25519.per_pubkey_deserialize'') num_checked)
                (gq_mul q (p ''ed25519.per_pubkey_small_order_check'') num_checked))
          in native_ok cost [bool_val V all_valid])"

definition native_multi_signature_verify_strict ::
  "gas_ops \<Rightarrow> params \<Rightarrow> ('v, 'st, 'a, 'z) val_ops_scheme \<Rightarrow> ('pt, 'pk, 'sg, 'mpk, 'msg) ed_lib \<Rightarrow> 'v list \<Rightarrow> 'v call_outcome" where
  "native_multi_signature_verify_strict q p V L args =
     bind_ok (pop_arg_as (val_bytes V) args) (\<lambda>(msg, args).
     bind_ok (pop_arg_as (val_bytes V) args) (\<lambda>(pubkey, args).
     bind_ok (pop_arg_as (val_bytes V) args) (\<lambda>(signature, _).
     let cost = p ''ed25519.base'';
         num_sub_pks = of_nat (length pubkey div ED25519_PUBLIC_KEY_LENGTH L);
         num_sub_sigs = of_nat (length signature div ED25519_SIGNATURE_LENGTH L);
         cost = gq_add q cost (gq_mul q (p ''ed25519.per_pubkey_deserialize'') num_sub_pks)
     in case multi_pk_parse L pubkey of
          None \<Rightarrow> native_ok cost [bool_val V False]
        | Some pk \<Rightarrow>
            let cost = gq_add q cost (gq_mul q (p ''ed25519.per_sig_deserialize'') num_sub_sigs)
            in case multi_sig_parse L signature of
                 None \<Rightarrow> native_ok cost [bool_val V False]
               | Some sig \<Rightarrow>
                   let cost = gq_add q cost (gq_add q (gq_add q
                         (gq_mul q (p ''ed25519.per_sig_strict_verify'') num_sub_sigs)
                         (gq_mul q (p ''ed25519.per_msg_hashing_base'') num_sub_sigs))
                         (gq_mul q (gq_mul q (p ''ed25519.per_msg_byte_hashing'') (len_u64 msg)) num_sub_sigs))
                   in native_ok cost [bool_val V (multi_verify L sig msg pk)])))"

section \<open>secp256k1.rs\<close>

record ('m, 'ri, 's, 'k) secp_lib =
  message_parse_slice :: "bytes \<Rightarrow> 'm option"
  recovery_id_parse :: "u8 \<Rightarrow> 'ri option"
  signature_parse_standard_slice :: "bytes \<Rightarrow> 's option"
  secp_recover :: "'m \<Rightarrow> 's \<Rightarrow> 'ri \<Rightarrow> 'k option"
  secp_serialize :: "'k \<Rightarrow> bytes"

definition NFE_DESERIALIZE :: u64 where "NFE_DESERIALIZE = 0x010001"

definition native_ecdsa_recover ::
  "gas_ops \<Rightarrow> params \<Rightarrow> ('v, 'st, 'a, 'z) val_ops_scheme \<Rightarrow> ('m, 'ri, 's, 'k) secp_lib \<Rightarrow> 'v list \<Rightarrow> 'v call_outcome" where
  "native_ecdsa_recover q p V L args =
     bind_ok (pop_arg_as (val_bytes V) args) (\<lambda>(signature, args).
     bind_ok (pop_arg_as (val_u8 V) args) (\<lambda>(recovery_id, args).
     bind_ok (pop_arg_as (val_bytes V) args) (\<lambda>(msg, _).
     let cost = p ''secp256k1.base''
     in case message_parse_slice L msg of
          None \<Rightarrow> native_err cost NFE_DESERIALIZE
        | Some msg \<Rightarrow>
     case recovery_id_parse L recovery_id of
          None \<Rightarrow> native_err cost NFE_DESERIALIZE
        | Some rid \<Rightarrow>
     case signature_parse_standard_slice L signature of
          None \<Rightarrow> native_err cost NFE_DESERIALIZE
        | Some sig \<Rightarrow>
     let cost = gq_add q cost (gq_mul q (p ''secp256k1.ecdsa_recover'') 1)
     in case secp_recover L msg sig rid of
          Some pk \<Rightarrow> native_ok cost [bytes_val V (drop 1 (secp_serialize L pk)), bool_val V True]
        | None \<Rightarrow> native_ok cost [bytes_val V [], bool_val V False])))"

section \<open>bls12381.rs\<close>

record ('pk, 'sg, 'pp) bls_lib =
  bls_pk_parse :: "bytes \<Rightarrow> 'pk option"
  bls_sig_parse :: "bytes \<Rightarrow> 'sg option"
  bls_pop_parse :: "bytes \<Rightarrow> 'pp option"
  bls_pk_in_subgroup :: "'pk \<Rightarrow> bool"
  bls_sig_in_subgroup :: "'sg \<Rightarrow> bool"
  bls_verify :: "'sg \<Rightarrow> bytes \<Rightarrow> 'pk \<Rightarrow> bool"
  bls_verify_aggregate :: "'sg \<Rightarrow> bytes list \<Rightarrow> 'pk list \<Rightarrow> bool"
  bls_pop_verify :: "'pp \<Rightarrow> 'pk \<Rightarrow> bool"
  bls_aggregate_pks :: "'pk list \<Rightarrow> 'pk option"
  bls_aggregate_sigs :: "'sg list \<Rightarrow> 'sg option"
  bls_pk_bytes :: "'pk \<Rightarrow> bytes"
  bls_sig_bytes :: "'sg \<Rightarrow> bytes"

subsection \<open>Helpers; the cost is passed along\<close>

definition struct_first_bytes :: "('v, 'st, 'a, 'z) val_ops_scheme \<Rightarrow> 'st \<Rightarrow> (bytes, partial_vm_error) result" where
  "struct_first_bytes V s =
     bind_ok (struct_unpack V s) (\<lambda>fields.
     case fields of [] \<Rightarrow> Err internal_type_error | field # _ \<Rightarrow> val_bytes V field)"

definition pop_vec_of_vec_u8 ::
  "('v, 'st, 'a, 'z) val_ops_scheme \<Rightarrow> 'v list \<Rightarrow> (bytes list \<times> 'v list, partial_vm_error) result" where
  "pop_vec_of_vec_u8 V args =
     bind_ok (pop_vec_arg V (val_struct V) args) (\<lambda>(structs, args).
     map_ok (\<lambda>v. (v, args)) (convert_all (struct_first_bytes V) structs))"

definition bls12381_deserialize_pk ::
  "gas_ops \<Rightarrow> params \<Rightarrow> ('pk, 'sg, 'pp) bls_lib \<Rightarrow> bytes \<Rightarrow> u64 \<Rightarrow> 'pk option \<times> u64" where
  "bls12381_deserialize_pk q p L pk_bytes cost =
     (bls_pk_parse L pk_bytes, gq_add q cost (gq_mul q (p ''bls12381.per_pubkey_deserialize'') 1))"

fun bls12381_deserialize_pks ::
  "gas_ops \<Rightarrow> params \<Rightarrow> ('pk, 'sg, 'pp) bls_lib \<Rightarrow> bytes list \<Rightarrow> u64 \<Rightarrow> 'pk list \<times> u64" where
  "bls12381_deserialize_pks q p L [] cost = ([], cost)"
| "bls12381_deserialize_pks q p L (pk_bytes # rest) cost =
     (case bls12381_deserialize_pk q p L pk_bytes cost of
        (None, cost) \<Rightarrow> ([], cost)
      | (Some pk, cost) \<Rightarrow> (let (pks, cost) = bls12381_deserialize_pks q p L rest cost in (pk # pks, cost)))"

definition bls12381_deserialize_sig ::
  "gas_ops \<Rightarrow> params \<Rightarrow> ('pk, 'sg, 'pp) bls_lib \<Rightarrow> bytes \<Rightarrow> u64 \<Rightarrow> 'sg option \<times> u64" where
  "bls12381_deserialize_sig q p L sig_bytes cost =
     (bls_sig_parse L sig_bytes, gq_add q cost (gq_mul q (p ''bls12381.per_sig_deserialize'') 1))"

fun bls12381_deserialize_sigs ::
  "gas_ops \<Rightarrow> params \<Rightarrow> ('pk, 'sg, 'pp) bls_lib \<Rightarrow> bytes list \<Rightarrow> u64 \<Rightarrow> 'sg list \<times> u64" where
  "bls12381_deserialize_sigs q p L [] cost = ([], cost)"
| "bls12381_deserialize_sigs q p L (sig_bytes # rest) cost =
     (case bls12381_deserialize_sig q p L sig_bytes cost of
        (None, cost) \<Rightarrow> ([], cost)
      | (Some sig, cost) \<Rightarrow> (let (sigs, cost) = bls12381_deserialize_sigs q p L rest cost in (sig # sigs, cost)))"

definition bls12381_deserialize_pop ::
  "gas_ops \<Rightarrow> params \<Rightarrow> ('pk, 'sg, 'pp) bls_lib \<Rightarrow> bytes \<Rightarrow> u64 \<Rightarrow> 'pp option \<times> u64" where
  "bls12381_deserialize_pop q p L pop_bytes cost =
     (bls_pop_parse L pop_bytes, gq_add q cost (gq_mul q (p ''bls12381.per_sig_deserialize'') 1))"

definition bls12381_pk_subgroub_check ::
  "gas_ops \<Rightarrow> params \<Rightarrow> ('pk, 'sg, 'pp) bls_lib \<Rightarrow> 'pk \<Rightarrow> u64 \<Rightarrow> bool \<times> u64" where
  "bls12381_pk_subgroub_check q p L pk cost =
     (bls_pk_in_subgroup L pk, gq_add q cost (gq_mul q (p ''bls12381.per_pubkey_deserialize'') 1))"

definition bls12381_sig_subgroub_check ::
  "gas_ops \<Rightarrow> params \<Rightarrow> ('pk, 'sg, 'pp) bls_lib \<Rightarrow> 'sg \<Rightarrow> u64 \<Rightarrow> bool \<times> u64" where
  "bls12381_sig_subgroub_check q p L sig cost =
     (bls_sig_in_subgroup L sig, gq_add q cost (gq_mul q (p ''bls12381.per_sig_subgroup_check'') 1))"

definition signature_verify ::
  "gas_ops \<Rightarrow> params \<Rightarrow> ('pk, 'sg, 'pp) bls_lib \<Rightarrow> 'sg \<Rightarrow> 'pk \<Rightarrow> bytes \<Rightarrow> u64 \<Rightarrow> bool \<times> u64" where
  "signature_verify q p L sig pk msg cost =
     (bls_verify L sig msg pk,
      gq_add q cost (gq_add q (gq_add q
        (gq_mul q (p ''bls12381.per_sig_verify'') 1)
        (gq_mul q (p ''bls12381.per_msg_hashing'') 1))
        (gq_mul q (p ''bls12381.per_byte_hashing'') (len_u64 msg))))"

definition bls12381_verify_signature_helper ::
  "gas_ops \<Rightarrow> params \<Rightarrow> ('v, 'st, 'a, 'z) val_ops_scheme \<Rightarrow> ('pk, 'sg, 'pp) bls_lib \<Rightarrow> 'v list \<Rightarrow> bool \<Rightarrow> 'v call_outcome" where
  "bls12381_verify_signature_helper q p V L args check_pk_subgroup =
     (let cost = p ''bls12381.base''
      in bind_ok (pop_arg_as (val_bytes V) args) (\<lambda>(msg_bytes, args).
         bind_ok (pop_arg_as (val_bytes V) args) (\<lambda>(aggpk_bytes, args).
         bind_ok (pop_arg_as (val_bytes V) args) (\<lambda>(multisig_bytes, _).
         case bls12381_deserialize_pk q p L aggpk_bytes cost of
           (None, cost) \<Rightarrow> native_ok cost [bool_val V False]
         | (Some pk, cost) \<Rightarrow>
             (case (if check_pk_subgroup then bls12381_pk_subgroub_check q p L pk cost else (True, cost)) of
                (in_subgroup, cost) \<Rightarrow>
                  if \<not> in_subgroup then native_ok cost [bool_val V False]
                  else case bls12381_deserialize_sig q p L multisig_bytes cost of
                         (None, cost) \<Rightarrow> native_ok cost [bool_val V False]
                       | (Some sig, cost) \<Rightarrow>
                           (case signature_verify q p L sig pk msg_bytes cost of
                              (verify_result, cost) \<Rightarrow> native_ok cost [bool_val V verify_result]))))))"

subsection \<open>The native functions\<close>

definition native_bls12381_aggregate_pubkeys ::
  "gas_ops \<Rightarrow> params \<Rightarrow> ('v, 'st, 'a, 'z) val_ops_scheme \<Rightarrow> ('pk, 'sg, 'pp) bls_lib \<Rightarrow> 'v list \<Rightarrow> 'v call_outcome" where
  "native_bls12381_aggregate_pubkeys q p V L args =
     bind_ok (pop_vec_of_vec_u8 V args) (\<lambda>(pks_bytes, _).
     let num_pks = length pks_bytes; cost = p ''bls12381.base''
     in if pks_bytes = [] then native_ok cost [bytes_val V [], bool_val V False]
        else case bls12381_deserialize_pks q p L pks_bytes cost of (pks, cost) \<Rightarrow>
          if length pks \<noteq> num_pks then native_ok cost [bytes_val V [], bool_val V False]
          else
            let cost = gq_add q cost (gq_mul q (p ''bls12381.per_pubkey_aggregate'') (of_nat num_pks))
            in case bls_aggregate_pks L pks of
                 None \<Rightarrow> native_ok cost [bytes_val V [], bool_val V False]
               | Some aggpk \<Rightarrow> native_ok cost [bytes_val V (bls_pk_bytes L aggpk), bool_val V True])"

definition native_bls12381_aggregate_signatures ::
  "gas_ops \<Rightarrow> params \<Rightarrow> ('v, 'st, 'a, 'z) val_ops_scheme \<Rightarrow> ('pk, 'sg, 'pp) bls_lib \<Rightarrow> 'v list \<Rightarrow> 'v call_outcome" where
  "native_bls12381_aggregate_signatures q p V L args =
     bind_ok (pop_vec_of_vec_u8 V args) (\<lambda>(sigs_serialized, _).
     let num_sigs = length sigs_serialized; cost = p ''bls12381.base''
     in if sigs_serialized = [] then native_ok cost [bytes_val V [], bool_val V False]
        else case bls12381_deserialize_sigs q p L sigs_serialized cost of (sigs, cost) \<Rightarrow>
          if length sigs \<noteq> num_sigs then native_ok cost [bytes_val V [], bool_val V False]
          else
            let cost = gq_add q cost (gq_mul q (p ''bls12381.per_sig_aggregate'') (len_u64 sigs))
            in case bls_aggregate_sigs L sigs of
                 None \<Rightarrow> native_ok cost [bytes_val V [], bool_val V False]
               | Some aggsig \<Rightarrow> native_ok cost [bytes_val V (bls_sig_bytes L aggsig), bool_val V True])"

definition native_bls12381_signature_subgroup_check ::
  "gas_ops \<Rightarrow> params \<Rightarrow> ('v, 'st, 'a, 'z) val_ops_scheme \<Rightarrow> ('pk, 'sg, 'pp) bls_lib \<Rightarrow> 'v list \<Rightarrow> 'v call_outcome" where
  "native_bls12381_signature_subgroup_check q p V L args =
     (let cost = p ''bls12381.base''
      in bind_ok (pop_arg_as (val_bytes V) args) (\<lambda>(sig_bytes, _).
         case bls12381_deserialize_sig q p L sig_bytes cost of
           (None, cost) \<Rightarrow> native_ok cost [bool_val V False]
         | (Some sig, cost) \<Rightarrow>
             (case bls12381_sig_subgroub_check q p L sig cost of
                (valid, cost) \<Rightarrow> native_ok cost [bool_val V valid])))"

definition native_bls12381_validate_pubkey ::
  "gas_ops \<Rightarrow> params \<Rightarrow> ('v, 'st, 'a, 'z) val_ops_scheme \<Rightarrow> ('pk, 'sg, 'pp) bls_lib \<Rightarrow> 'v list \<Rightarrow> 'v call_outcome" where
  "native_bls12381_validate_pubkey q p V L args =
     (let cost = p ''bls12381.base''
      in bind_ok (pop_arg_as (val_bytes V) args) (\<lambda>(pk_bytes, _).
         case bls12381_deserialize_pk q p L pk_bytes cost of
           (None, cost) \<Rightarrow> native_ok cost [bool_val V False]
         | (Some pk, cost) \<Rightarrow>
             (case bls12381_pk_subgroub_check q p L pk cost of
                (valid, cost) \<Rightarrow> native_ok cost [bool_val V valid])))"

definition native_bls12381_verify_aggregate_signature ::
  "gas_ops \<Rightarrow> params \<Rightarrow> ('v, 'st, 'a, 'z) val_ops_scheme \<Rightarrow> ('pk, 'sg, 'pp) bls_lib \<Rightarrow> 'v list \<Rightarrow> 'v call_outcome" where
  "native_bls12381_verify_aggregate_signature q p V L args =
     (let cost = p ''bls12381.base''
      in bind_ok (pop_vec_arg V (val_bytes V) args) (\<lambda>(messages, args).
         bind_ok (pop_vec_of_vec_u8 V args) (\<lambda>(pks_serialized, args).
         bind_ok (pop_arg_as (val_bytes V) args) (\<lambda>(aggsig_bytes, _).
         if length pks_serialized \<noteq> length messages then native_ok cost [bool_val V False]
         else case bls12381_deserialize_pks q p L pks_serialized cost of (pks, cost) \<Rightarrow>
           if length pks \<noteq> length pks_serialized then native_ok cost [bool_val V False]
           else case bls12381_deserialize_sig q p L aggsig_bytes cost of
                  (None, cost) \<Rightarrow> native_ok cost [bool_val V False]
                | (Some aggsig, cost) \<Rightarrow>
                    let cost = gq_add q cost (gq_add q (gq_add q
                          (gq_mul q (p ''bls12381.per_pairing'') (of_nat (length messages + 1)))
                          (gq_mul q (p ''bls12381.per_msg_hashing'') (len_u64 messages)))
                          (gq_mul q (p ''bls12381.per_byte_hashing'') (num_bytes q 0 messages)))
                    in native_ok cost [bool_val V (bls_verify_aggregate L aggsig messages pks)]))))"

definition native_bls12381_verify_multisignature ::
  "gas_ops \<Rightarrow> params \<Rightarrow> ('v, 'st, 'a, 'z) val_ops_scheme \<Rightarrow> ('pk, 'sg, 'pp) bls_lib \<Rightarrow> 'v list \<Rightarrow> 'v call_outcome" where
  "native_bls12381_verify_multisignature q p V L args = bls12381_verify_signature_helper q p V L args False"

definition native_bls12381_verify_normal_signature ::
  "gas_ops \<Rightarrow> params \<Rightarrow> ('v, 'st, 'a, 'z) val_ops_scheme \<Rightarrow> ('pk, 'sg, 'pp) bls_lib \<Rightarrow> 'v list \<Rightarrow> 'v call_outcome" where
  "native_bls12381_verify_normal_signature q p V L args = bls12381_verify_signature_helper q p V L args True"

definition native_bls12381_verify_proof_of_possession ::
  "gas_ops \<Rightarrow> params \<Rightarrow> ('v, 'st, 'a, 'z) val_ops_scheme \<Rightarrow> ('pk, 'sg, 'pp) bls_lib \<Rightarrow> 'v list \<Rightarrow> 'v call_outcome" where
  "native_bls12381_verify_proof_of_possession q p V L args =
     (let cost = p ''bls12381.base''
      in bind_ok (pop_arg_as (val_bytes V) args) (\<lambda>(pop_bytes, args).
         bind_ok (pop_arg_as (val_bytes V) args) (\<lambda>(key_bytes, _).
         case bls12381_deserialize_pk q p L key_bytes cost of
           (None, cost) \<Rightarrow> native_ok cost [bool_val V False]
         | (Some pk, cost) \<Rightarrow>
             (case bls12381_deserialize_pop q p L pop_bytes cost of
                (None, cost) \<Rightarrow> native_ok cost [bool_val V False]
              | (Some pop, cost) \<Rightarrow>
                  let cost = gq_add q cost (gq_mul q (p ''bls12381.per_pop_verify'') 1)
                  in native_ok cost [bool_val V (bls_pop_verify L pop pk)]))))"

definition native_bls12381_verify_signature_share ::
  "gas_ops \<Rightarrow> params \<Rightarrow> ('v, 'st, 'a, 'z) val_ops_scheme \<Rightarrow> ('pk, 'sg, 'pp) bls_lib \<Rightarrow> 'v list \<Rightarrow> 'v call_outcome" where
  "native_bls12381_verify_signature_share q p V L args = bls12381_verify_signature_helper q p V L args False"

section \<open>Costs as the documentation writes them\<close>

text \<open>
  \<open>c +? (c' +? ...)\<close>: the price of each step up to and including the first that fails.
\<close>

fun stage_cost :: "(nat \<times> bool) list \<Rightarrow> nat" where
  "stage_cost [] = 0"
| "stage_cost ((c, passed) # stages) = c + (if passed then stage_cost stages else 0)"

definition stages_pass :: "(nat \<times> bool) list \<Rightarrow> bool" where
  "stages_pass stages = list_all snd stages"

lemma stages_pass_simps [simp]:
  "stages_pass []"
  "stages_pass ((c, passed) # stages) \<longleftrightarrow> passed \<and> stages_pass stages"
  "stages_pass (xs @ ys) \<longleftrightarrow> stages_pass xs \<and> stages_pass ys"
  by (simp_all add: stages_pass_def)

lemma stage_cost_append: "stage_cost (xs @ ys) = stage_cost xs + (if stages_pass xs then stage_cost ys else 0)"
  by (induction xs rule: stage_cost.induct) auto

text \<open>A step repeated for each of several inputs: the failing one is paid for, the ones after it are not.\<close>

lemma stage_cost_repeat:
  "stage_cost (map (\<lambda>x. (c, ok_at x)) xs) = c * min (length (takeWhile ok_at xs) + 1) (length xs)"
  by (induction xs) (auto simp: min_def)

lemma stages_pass_repeat: "stages_pass (map (\<lambda>x. (c, ok_at x)) xs) \<longleftrightarrow> list_all ok_at xs"
  by (induction xs) auto

text \<open>A gas quantity that reads as a number, saturated.\<close>

definition saturates_to :: "u64 \<Rightarrow> nat \<Rightarrow> bool" where
  "saturates_to cost n \<longleftrightarrow> unat cost = min n MAX_U64"

lemma sat_add_right: "min (a + min b MAX_U64) MAX_U64 = min (a + b) MAX_U64"
  by (auto simp: min_def)

lemma unat_num_bytes:
  assumes "gas_ops_ok q" "\<And>m. m \<in> set ms \<Longrightarrow> length m \<le> MAX_U64"
  shows "unat (num_bytes q acc ms) = min (unat acc + sum_list (map length ms)) MAX_U64"
  using assms(2)
proof (induction ms arbitrary: acc)
  case Nil then show ?case by (simp add: num_bytes_def unat_le_MAX min.absorb1)
next
  case (Cons m ms)
  have "unat (gq_add q acc (of_nat (length m))) = min (unat acc + length m) MAX_U64"
    using Cons.prems assms(1) by (simp add: gas_arith unat_of_len)
  with Cons.IH[of "gq_add q acc (of_nat (length m))"] Cons.prems show ?case
    by (simp add: num_bytes_def sat_add_left add.assoc)
qed

text \<open>Evaluate a gas expression: read every operation as a saturated number, then flatten.\<close>

lemmas saturates_to_simps = saturates_to_def gq_add_unat gq_mul_unat unat_len_u64 unat_of_len unat_num_bytes unat_le_MAX
  sat_mult sat_mult' sat_add sat_add_left sat_add_right min.absorb1

text \<open>A condition on two inputs that both have to exist.\<close>

definition opt_both :: "('b \<Rightarrow> 'c \<Rightarrow> bool) \<Rightarrow> 'b option \<Rightarrow> 'c option \<Rightarrow> bool" where
  "opt_both P a b = (case (a, b) of (Some x, Some y) \<Rightarrow> P x y | _ \<Rightarrow> False)"

text \<open>An outcome that is one truth value: all steps passed, at the staged price.\<close>

definition staged_check :: "('v, 'st, 'a, 'z) val_ops_scheme \<Rightarrow> u64 \<Rightarrow> (nat \<times> bool) list \<Rightarrow> 'v call_outcome \<Rightarrow> bool" where
  "staged_check V base stages r \<longleftrightarrow>
     (\<exists>cost. r = native_ok cost [bool_val V (stages_pass stages)] \<and> saturates_to cost (unat base + stage_cost stages))"

text \<open>The same for an outcome with a byte string, which is empty unless all steps passed.\<close>

definition staged_bytes :: "('v, 'st, 'a, 'z) val_ops_scheme \<Rightarrow> u64 \<Rightarrow> (nat \<times> bool) list \<Rightarrow> bytes \<Rightarrow> 'v call_outcome \<Rightarrow> bool" where
  "staged_bytes V base stages bs r \<longleftrightarrow>
     (\<exists>cost. r = native_ok cost [bytes_val V (if stages_pass stages then bs else []), bool_val V (stages_pass stages)] \<and>
        saturates_to cost (unat base + stage_cost stages))"

section \<open>What the natives charge and return\<close>

lemmas staged_defs = staged_check_def staged_bytes_def Let_def opt_both_def
lemmas bls_step_defs = bls12381_deserialize_pk_def bls12381_deserialize_sig_def bls12381_deserialize_pop_def
  bls12381_pk_subgroub_check_def bls12381_sig_subgroub_check_def signature_verify_def

lemma ed25519_validate_staged:
  assumes q: "gas_ops_ok q" and k: "val_bytes V kv = Ok key" and l: "length key = ED25519_PUBLIC_KEY_LENGTH L"
  shows "staged_check V (p ''ed25519.base'')
      [(unat (p ''ed25519.per_pubkey_deserialize''), edwards_decompress L key \<noteq> None),
       (unat (p ''ed25519.per_pubkey_small_order_check''), sub_key_valid L key)]
      (native_public_key_validate q p V L [kv])"
  using k l
  by (auto simp: staged_defs native_public_key_validate_def sub_key_valid_def saturates_to_simps q add.assoc split: option.splits)


lemma ed25519_verify_staged:
  assumes q: "gas_ops_ok q" and a: "val_bytes V sv = Ok sig" "val_bytes V kv = Ok key" "val_bytes V mv = Ok msg"
    and l: "length msg \<le> MAX_U64"
  shows "staged_check V (p ''ed25519.base'')
      [(unat (p ''ed25519.per_pubkey_deserialize''), ed_pk_parse L key \<noteq> None),
       (unat (p ''ed25519.per_sig_deserialize''), ed_sig_parse L sig \<noteq> None),
       (unat (p ''ed25519.per_sig_strict_verify'') + unat (p ''ed25519.per_msg_hashing_base'') +
          unat (p ''ed25519.per_msg_byte_hashing'') * length msg,
        opt_both (\<lambda>s k. ed_verify L s msg k) (ed_sig_parse L sig) (ed_pk_parse L key))]
      (native_signature_verify_strict q p V L [sv, kv, mv])"
  using a l
  by (cases "ed_pk_parse L key"; cases "ed_sig_parse L sig")
    (simp_all add: staged_defs native_signature_verify_strict_def saturates_to_simps q add.assoc)

subsection \<open>The steps of a BLS verification\<close>

definition pk_stage :: "params \<Rightarrow> ('pk, 'sg, 'pp) bls_lib \<Rightarrow> bytes \<Rightarrow> nat \<times> bool" where
  "pk_stage p L key = (unat (p ''bls12381.per_pubkey_deserialize''), bls_pk_parse L key \<noteq> None)"

definition subgroup_stage :: "u64 \<Rightarrow> ('pk, 'sg, 'pp) bls_lib \<Rightarrow> bytes \<Rightarrow> nat \<times> bool" where
  "subgroup_stage price L key = (unat price, bls_pk_in_subgroup L (the (bls_pk_parse L key)))"

definition sig_stage :: "params \<Rightarrow> ('pk, 'sg, 'pp) bls_lib \<Rightarrow> bytes \<Rightarrow> nat \<times> bool" where
  "sig_stage p L sig = (unat (p ''bls12381.per_sig_deserialize''), bls_sig_parse L sig \<noteq> None)"

definition verify_stage :: "params \<Rightarrow> ('pk, 'sg, 'pp) bls_lib \<Rightarrow> bytes \<Rightarrow> bytes \<Rightarrow> bytes \<Rightarrow> nat \<times> bool" where
  "verify_stage p L key sig msg =
     (unat (p ''bls12381.per_sig_verify'') + unat (p ''bls12381.per_msg_hashing'') +
        unat (p ''bls12381.per_byte_hashing'') * length msg,
      opt_both (\<lambda>s k. bls_verify L s msg k) (bls_sig_parse L sig) (bls_pk_parse L key))"

lemmas stage_defs = pk_stage_def subgroup_stage_def sig_stage_def verify_stage_def

lemma bls_verify_staged:
  assumes q: "gas_ops_ok q" and a: "val_bytes V sv = Ok sig" "val_bytes V kv = Ok key" "val_bytes V mv = Ok msg"
    and l: "length msg \<le> MAX_U64"
  shows "staged_check V (p ''bls12381.base'')
      (pk_stage p L key # (if check then [subgroup_stage (p ''bls12381.per_pubkey_deserialize'') L key] else []) @
       [sig_stage p L sig, verify_stage p L key sig msg])
      (bls12381_verify_signature_helper q p V L [sv, kv, mv] check)"
  using a l
  by (cases "bls_pk_parse L key"; cases "bls_sig_parse L sig"; cases check)
    (simp_all add: stage_defs staged_defs bls12381_verify_signature_helper_def bls_step_defs saturates_to_simps q add.assoc)

lemma bls_pop_staged:
  assumes q: "gas_ops_ok q" and a: "val_bytes V kv = Ok key" "val_bytes V pv = Ok pop"
  shows "staged_check V (p ''bls12381.base'')
      [(unat (p ''bls12381.per_pubkey_deserialize''), bls_pk_parse L key \<noteq> None),
       (unat (p ''bls12381.per_sig_deserialize''), bls_pop_parse L pop \<noteq> None),
       (unat (p ''bls12381.per_pop_verify''), opt_both (bls_pop_verify L) (bls_pop_parse L pop) (bls_pk_parse L key))]
      (native_bls12381_verify_proof_of_possession q p V L [kv, pv])"
  using a
  by (cases "bls_pk_parse L key"; cases "bls_pop_parse L pop")
    (simp_all add: staged_defs native_bls12381_verify_proof_of_possession_def bls_step_defs saturates_to_simps q add.assoc)

subsection \<open>Deserializing until the first failure\<close>

text \<open>
  The contract the two deserialization loops of \<^verbatim>\<open>bls12381.rs\<close> share: each input is charged for and
  parsed, and the loop breaks at the first input that does not parse.
\<close>

locale breaking_loop =
  fixes parse :: "'i \<Rightarrow> 'x option"
    and charge :: "u64 \<Rightarrow> u64"
    and loop :: "'i list \<Rightarrow> u64 \<Rightarrow> 'x list \<times> u64"
  assumes loop_Nil: "loop [] cost = ([], cost)"
    and loop_break: "parse i = None \<Longrightarrow> loop (i # is) cost = ([], charge cost)"
    and loop_push: "parse i = Some x \<Longrightarrow> loop (i # is) cost = (x # fst (loop is (charge cost)), snd (loop is (charge cost)))"
begin

definition parses :: "'i \<Rightarrow> bool" where
  "parses i \<longleftrightarrow> parse i \<noteq> None"

lemma loop_values: "fst (loop is cost) = map (\<lambda>i. the (parse i)) (takeWhile parses is)"
  by (induction "is" arbitrary: cost) (auto simp: parses_def loop_Nil loop_break loop_push split: option.splits
      dest: loop_break loop_push)

lemma loop_complete: "length (fst (loop is cost)) = length is \<longleftrightarrow> list_all parses is"
proof -
  have "length (takeWhile parses is) = length is \<longleftrightarrow> list_all parses is"
    by (induction "is") auto
  then show ?thesis by (simp add: loop_values)
qed

lemma loop_all: "list_all parses is \<Longrightarrow> fst (loop is cost) = map (\<lambda>i. the (parse i)) is"
  by (induction "is" arbitrary: cost) (auto simp: loop_values)

lemma loop_saturates:
  assumes charge: "\<And>cost n. saturates_to cost n \<Longrightarrow> saturates_to (charge cost) (n + c)"
  shows "saturates_to cost n \<Longrightarrow> saturates_to (snd (loop is cost)) (n + stage_cost (map (\<lambda>i. (c, parse i \<noteq> None)) is))"
proof (induction "is" arbitrary: cost n)
  case Nil then show ?case by (simp add: loop_Nil)
next
  case (Cons i "is")
  from charge[OF Cons.prems] Cons.IH[OF charge[OF Cons.prems]] show ?case
    by (cases "parse i") (simp_all add: loop_break loop_push add.assoc)
qed

end

interpretation pks: breaking_loop "bls_pk_parse L" "\<lambda>cost. gq_add q cost (gq_mul q (p ''bls12381.per_pubkey_deserialize'') 1)"
    "bls12381_deserialize_pks q p L" for q p L
  by unfold_locales (simp_all add: bls12381_deserialize_pk_def split: prod.splits)

interpretation sigs: breaking_loop "bls_sig_parse L" "\<lambda>cost. gq_add q cost (gq_mul q (p ''bls12381.per_sig_deserialize'') 1)"
    "bls12381_deserialize_sigs q p L" for q p L
  by unfold_locales (simp_all add: bls12381_deserialize_sig_def split: prod.splits)

lemma charge_step: "gas_ops_ok q \<Longrightarrow> saturates_to cost n \<Longrightarrow> saturates_to (gq_add q cost (gq_mul q c 1)) (n + unat c)"
  by (simp add: saturates_to_simps)

lemma saturates_to_self: "saturates_to c (unat c)"
  by (simp add: saturates_to_def unat_le_MAX min.absorb1)

text \<open>The steps of parsing a list of inputs at a price each.\<close>

definition parse_stages :: "u64 \<Rightarrow> ('i \<Rightarrow> 'x option) \<Rightarrow> 'i list \<Rightarrow> (nat \<times> bool) list" where
  "parse_stages c parse is = map (\<lambda>i. (unat c, parse i \<noteq> None)) is"

lemma parse_stages_cost:
  "stage_cost (parse_stages c parse is) = unat c * min (length (takeWhile (\<lambda>i. parse i \<noteq> None) is) + 1) (length is)"
  unfolding parse_stages_def by (rule stage_cost_repeat)

lemma parse_stages_pass: "stages_pass (parse_stages c parse is) \<longleftrightarrow> list_all (\<lambda>i. parse i \<noteq> None) is"
  unfolding parse_stages_def by (rule stages_pass_repeat)

lemma saturates_to_add_mul:
  "gas_ops_ok q \<Longrightarrow> saturates_to cost n \<Longrightarrow> unat k = m \<Longrightarrow> saturates_to (gq_add q cost (gq_mul q c k)) (n + unat c * m)"
  by (simp add: saturates_to_simps)

lemma deserialize_pks_spec:
  assumes q: "gas_ops_ok q"
  obtains pks cost where "bls12381_deserialize_pks q p L keys base = (pks, cost)"
    and "saturates_to cost (unat base + stage_cost (parse_stages (p ''bls12381.per_pubkey_deserialize'') (bls_pk_parse L) keys))"
    and "length pks = length keys \<longleftrightarrow> stages_pass (parse_stages (p ''bls12381.per_pubkey_deserialize'') (bls_pk_parse L) keys)"
    and "stages_pass (parse_stages (p ''bls12381.per_pubkey_deserialize'') (bls_pk_parse L) keys) \<Longrightarrow>
      pks = map (\<lambda>k. the (bls_pk_parse L k)) keys"
proof
  let ?d = "bls12381_deserialize_pks q p L keys base"
  show "?d = (fst ?d, snd ?d)" by simp
  show "saturates_to (snd ?d) (unat base + stage_cost (parse_stages (p ''bls12381.per_pubkey_deserialize'') (bls_pk_parse L) keys))"
    unfolding parse_stages_def by (rule pks.loop_saturates[OF charge_step[OF q] saturates_to_self])
qed (simp_all add: parse_stages_pass pks.loop_complete pks.loop_all pks.parses_def[abs_def])

lemma bls_aggregate_staged:
  assumes q: "gas_ops_ok q" and a: "pop_vec_of_vec_u8 V args = Ok (keys, rest)" and l: "length keys \<le> MAX_U64"
    and agg: "agg = bls_aggregate_pks L (map (\<lambda>k. the (bls_pk_parse L k)) keys)"
  shows "staged_bytes V (p ''bls12381.base'')
      ((0, keys \<noteq> []) # parse_stages (p ''bls12381.per_pubkey_deserialize'') (bls_pk_parse L) keys @
       [(unat (p ''bls12381.per_pubkey_aggregate'') * length keys, agg \<noteq> None)])
      (bls_pk_bytes L (the agg)) (native_bls12381_aggregate_pubkeys q p V L args)"
proof -
  let ?base = "p ''bls12381.base''" and ?st = "parse_stages (p ''bls12381.per_pubkey_deserialize'') (bls_pk_parse L) keys"
  obtain pks cost where d: "bls12381_deserialize_pks q p L keys ?base = (pks, cost)"
    and c: "saturates_to cost (unat ?base + stage_cost ?st)" and len: "length pks = length keys \<longleftrightarrow> stages_pass ?st"
    and all: "stages_pass ?st \<Longrightarrow> pks = map (\<lambda>k. the (bls_pk_parse L k)) keys"
    using deserialize_pks_spec[OF q] by blast
  have c': "saturates_to (gq_add q cost (gq_mul q (p ''bls12381.per_pubkey_aggregate'') (of_nat (length keys))))
      (unat ?base + stage_cost ?st + unat (p ''bls12381.per_pubkey_aggregate'') * length keys)"
    using q c l by (intro saturates_to_add_mul) (simp_all add: unat_of_len)
  show ?thesis
  proof (cases "keys = [] \<or> \<not> stages_pass ?st")
    case True with a d c len saturates_to_self[of ?base] show ?thesis
      by (auto simp: staged_bytes_def native_bls12381_aggregate_pubkeys_def Let_def stage_cost_append)
  next
    case False with a d c' len all show ?thesis
      by (cases agg) (simp_all add: staged_bytes_def native_bls12381_aggregate_pubkeys_def Let_def stage_cost_append agg add.assoc)
  qed
qed

lemma bls_verify_aggregate_staged:
  assumes q: "gas_ops_ok q" and a: "pop_vec_arg V (val_bytes V) args = Ok (msgs, args')"
      "pop_vec_of_vec_u8 V args' = Ok (keys, args'')" "pop_arg_as (val_bytes V) args'' = Ok (sig, args3)"
    and l: "length msgs < MAX_U64" "\<And>m. m \<in> set msgs \<Longrightarrow> length m \<le> MAX_U64"
  shows "staged_check V (p ''bls12381.base'')
      ((0, length keys = length msgs) # parse_stages (p ''bls12381.per_pubkey_deserialize'') (bls_pk_parse L) keys @
       [(unat (p ''bls12381.per_sig_deserialize''), bls_sig_parse L sig \<noteq> None),
        (unat (p ''bls12381.per_pairing'') * (length msgs + 1) + unat (p ''bls12381.per_msg_hashing'') * length msgs +
           unat (p ''bls12381.per_byte_hashing'') * sum_list (map length msgs),
         opt_both (\<lambda>s ks. bls_verify_aggregate L s msgs ks) (bls_sig_parse L sig) (Some (map (\<lambda>k. the (bls_pk_parse L k)) keys)))])
      (native_bls12381_verify_aggregate_signature q p V L args)"
proof -
  let ?base = "p ''bls12381.base''" and ?st = "parse_stages (p ''bls12381.per_pubkey_deserialize'') (bls_pk_parse L) keys"
  obtain pks cost where d: "bls12381_deserialize_pks q p L keys ?base = (pks, cost)"
    and c: "saturates_to cost (unat ?base + stage_cost ?st)" and len: "length pks = length keys \<longleftrightarrow> stages_pass ?st"
    and all: "stages_pass ?st \<Longrightarrow> pks = map (\<lambda>k. the (bls_pk_parse L k)) keys"
    using deserialize_pks_spec[OF q] by blast
  have n: "unat (of_nat (Suc (length msgs)) :: u64) = Suc (length msgs)" using l(1) by (intro unat_of_len) simp
  show ?thesis
  proof (cases "length keys = length msgs \<and> stages_pass ?st")
    case False with a d c len saturates_to_self[of ?base] show ?thesis
      by (auto simp: staged_check_def native_bls12381_verify_aggregate_signature_def Let_def stage_cost_append)
  next
    case True with a d c len all l n show ?thesis
      by (cases "bls_sig_parse L sig") (simp_all add: staged_defs native_bls12381_verify_aggregate_signature_def bls_step_defs
          stage_cost_append saturates_to_simps q add.assoc del: of_nat_Suc)
  qed
qed

section \<open>Properties\<close>

text \<open>
  C8. BLS signature checks: verifying a normal signature returns true exactly if the key parses, lies in the
  prime-order subgroup, the signature parses and verifies; a multisignature or a signature share is
  checked in the same way without the subgroup step.  The cost is the base plus, saturating, the price of
  each step up to and including the first that fails, where the subgroup step is charged at the price of
  deserializing a key.
\<close>

theorem bls_signatures_staged:
  assumes q: "gas_ops_ok q" and a: "val_bytes V sv = Ok sig" "val_bytes V kv = Ok key" "val_bytes V mv = Ok msg"
    and l: "length msg \<le> MAX_U64"
  shows "staged_check V (p ''bls12381.base'')
      [pk_stage p L key, subgroup_stage (p ''bls12381.per_pubkey_deserialize'') L key, sig_stage p L sig, verify_stage p L key sig msg]
      (native_bls12381_verify_normal_signature q p V L [sv, kv, mv]) \<and>
    staged_check V (p ''bls12381.base'') [pk_stage p L key, sig_stage p L sig, verify_stage p L key sig msg]
      (native_bls12381_verify_multisignature q p V L [sv, kv, mv]) \<and>
    native_bls12381_verify_signature_share q p V L [sv, kv, mv] = native_bls12381_verify_multisignature q p V L [sv, kv, mv]"
  using bls_verify_staged[OF q a l, of p L True] bls_verify_staged[OF q a l, of p L False]
  by (simp add: native_bls12381_verify_normal_signature_def native_bls12381_verify_multisignature_def
      native_bls12381_verify_signature_share_def)

text \<open>
  Aggregating BLS keys: the aggregate is returned, with true, exactly if there is at least one key, all
  keys parse and the library aggregates them; otherwise the result is empty and false.  The base is
  charged, the parsing of every key up to and including the first that fails, and the aggregation of
  all keys only if all of them parse.
\<close>

theorem bls_aggregate_keys_exact:
  assumes q: "gas_ops_ok q" and a: "pop_vec_of_vec_u8 V args = Ok (keys, rest)" and l: "length keys \<le> MAX_U64"
  shows "\<exists>cost. native_bls12381_aggregate_pubkeys q p V L args =
      native_ok cost (case (if keys \<noteq> [] \<and> list_all (\<lambda>k. bls_pk_parse L k \<noteq> None) keys
                            then bls_aggregate_pks L (map (\<lambda>k. the (bls_pk_parse L k)) keys) else None) of
        Some aggpk \<Rightarrow> [bytes_val V (bls_pk_bytes L aggpk), bool_val V True]
      | None \<Rightarrow> [bytes_val V [], bool_val V False]) \<and>
    unat cost = min (unat (p ''bls12381.base'') +
      unat (p ''bls12381.per_pubkey_deserialize'') * min (length (takeWhile (\<lambda>k. bls_pk_parse L k \<noteq> None) keys) + 1) (length keys) +
      (if list_all (\<lambda>k. bls_pk_parse L k \<noteq> None) keys then unat (p ''bls12381.per_pubkey_aggregate'') * length keys else 0)) MAX_U64"
proof -
  from bls_aggregate_staged[OF q a l refl, of p L] show ?thesis
    by (cases "keys = []")
      (auto simp: staged_bytes_def saturates_to_def stage_cost_append parse_stages_cost parse_stages_pass add.assoc split: option.splits)
qed

lemma filter_all_length: "length (filter P xs) = length xs \<longleftrightarrow> list_all P xs"
  by (metis filter_id_conv length_filter_less list_all_iff nat_less_le)

lemma length_chunks_exact [simp]: "length (chunks_exact n xs) = length xs div n"
  by (simp add: chunks_exact_def)

text \<open>
  C9. Validation of a multi-key: true exactly if there are not too many sub-keys and each piece of key length is
  a point that is not of small order; a remainder after the last full piece is ignored, and a byte string
  with no full piece is accepted.  Every piece is checked, but only the valid ones and one more are
  charged for.
\<close>

theorem multi_key_validation:
  assumes q: "gas_ops_ok q" and a: "val_bytes V kv = Ok bs" and m: "MAX_NUM_OF_KEYS L < MAX_U64"
  defines "keys \<equiv> chunks_exact (ED25519_PUBLIC_KEY_LENGTH L) bs"
  shows "\<exists>cost. native_multi_public_key_validate q p V L [kv] =
      native_ok cost [bool_val V (length keys \<le> MAX_NUM_OF_KEYS L \<and> list_all (sub_key_valid L) keys)] \<and>
    unat cost = min (unat (p ''ed25519.base'') +
      (if length keys > MAX_NUM_OF_KEYS L then 0
       else (unat (p ''ed25519.per_pubkey_deserialize'') + unat (p ''ed25519.per_pubkey_small_order_check'')) *
         (length (filter (sub_key_valid L) keys) + (if list_all (sub_key_valid L) keys then 0 else 1)))) MAX_U64"
proof (cases "length keys > MAX_NUM_OF_KEYS L")
  case True with a show ?thesis
    by (simp add: native_multi_public_key_validate_def keys_def Let_def saturates_to_simps)
next
  case False
  let ?n = "length (filter (sub_key_valid L) keys)"
  have le: "?n \<le> length keys" by simp
  with False m have n: "?n \<le> MAX_U64" "Suc ?n \<le> MAX_U64" by linarith+
  have u: "unat (of_nat ?n :: u64) = ?n" "unat (of_nat (Suc ?n) :: u64) = Suc ?n" by (rule n[THEN unat_of_len])+
  have all: "?n = length bs div ED25519_PUBLIC_KEY_LENGTH L \<longleftrightarrow> list_all (sub_key_valid L) keys"
    using filter_all_length[of "sub_key_valid L" keys] by (simp add: keys_def)
  from False a u all show ?thesis
    by (simp add: native_multi_public_key_validate_def keys_def[symmetric] Let_def saturates_to_simps q distrib_right add.assoc
        del: of_nat_Suc) (simp add: keys_def)
qed

section \<open>Witnesses\<close>

text \<open>Libraries that accept the strings that start with the byte 1.\<close>

definition demo_parse :: "bytes \<Rightarrow> bytes option" where
  "demo_parse bs = (case bs of x # _ \<Rightarrow> if x = 1 then Some bs else None | [] \<Rightarrow> None)"

definition demo_bls :: "(bytes, bytes, bytes) bls_lib" where
  "demo_bls =
     \<lparr>bls_pk_parse = demo_parse, bls_sig_parse = demo_parse, bls_pop_parse = demo_parse,
      bls_pk_in_subgroup = (\<lambda>k. length k = 1), bls_sig_in_subgroup = (\<lambda>s. length s = 1),
      bls_verify = (\<lambda>s m k. s = k), bls_verify_aggregate = (\<lambda>s ms ks. True), bls_pop_verify = (=),
      bls_aggregate_pks = (\<lambda>ks. Some (concat ks)), bls_aggregate_sigs = (\<lambda>ss. Some (concat ss)),
      bls_pk_bytes = (\<lambda>k. k), bls_sig_bytes = (\<lambda>s. s)\<rparr>"

definition demo_ed :: "(bytes, bytes, bytes, bytes, bytes) ed_lib" where
  "demo_ed =
     \<lparr>ED25519_PUBLIC_KEY_LENGTH = 2, ED25519_SIGNATURE_LENGTH = 2, MAX_NUM_OF_KEYS = 3,
      edwards_decompress = demo_parse, is_small_order = (\<lambda>k. k = [1, 0]), ed_pk_parse = demo_parse, ed_sig_parse = demo_parse,
      ed_verify = (\<lambda>s m k. s = k), multi_pk_parse = demo_parse, multi_sig_parse = demo_parse, multi_verify = (\<lambda>s m k. s = k)\<rparr>"

lemmas demo_native_defs = demo_vals_def demo_bls_def demo_ed_def demo_parse_def

theorem bls_signatures_staged_witness:
  "staged_check demo_vals 5 [(5, True), (5, False), (5, True), (15, True)]
     (native_bls12381_verify_normal_signature sat_ops (\<lambda>_. 5) demo_vals demo_bls [NBytes [1, 7], NBytes [1, 7], NBytes [9]]) \<and>
   staged_check demo_vals 5 [(5, True), (5, True), (15, True)]
     (native_bls12381_verify_multisignature sat_ops (\<lambda>_. 5) demo_vals demo_bls [NBytes [1, 7], NBytes [1, 7], NBytes [9]])"
  using bls_signatures_staged[OF sat_ops_ok, of demo_vals "NBytes [1, 7]" "[1, 7]" "NBytes [1, 7]" "[1, 7]" "NBytes [9]" "[9]" "\<lambda>_. 5" demo_bls]
  by (simp add: demo_native_defs stage_defs opt_both_def MAX_U64_def)

theorem bls_aggregate_keys_exact_witness:
  "\<exists>cost. native_bls12381_aggregate_pubkeys sat_ops (\<lambda>_. 5) demo_vals demo_bls
       [NVector [NStruct [NBytes [1, 3]], NStruct [NBytes [2]], NStruct [NBytes [1]]]] =
     native_ok cost [NBytes [], NBool False] \<and> unat cost = 15"
proof -
  have a: "pop_vec_of_vec_u8 demo_vals [NVector [NStruct [NBytes [1, 3]], NStruct [NBytes [2]], NStruct [NBytes [1]]]] =
      Ok ([[1, 3], [2], [1]], [])"
    by (simp add: pop_vec_of_vec_u8_def pop_vec_arg_def struct_first_bytes_def demo_native_defs)
  show ?thesis
    using bls_aggregate_keys_exact[OF sat_ops_ok a, of "\<lambda>_. 5" demo_bls] by (simp add: demo_native_defs MAX_U64_def)
qed

theorem multi_key_validation_witness:
  "\<exists>cost. native_multi_public_key_validate sat_ops (\<lambda>_. 5) demo_vals demo_ed [NBytes [2, 2, 1, 2, 1, 0, 4]] =
     native_ok cost [NBool False] \<and> unat cost = 25"
  using multi_key_validation[OF sat_ops_ok, of demo_vals "NBytes [2, 2, 1, 2, 1, 0, 4]" "[2, 2, 1, 2, 1, 0, 4]" demo_ed "\<lambda>_. 5"]
  by (simp add: demo_native_defs chunks_exact_def sub_key_valid_def upt_rec MAX_U64_def)

end
