(* ===== verification/Ristretto.thy ===== *)
theory Ristretto
  imports Natives
begin

text \<open>
  The native functions on the Ristretto group, from \<^verbatim>\<open>framework/src/natives/cryptography\<close>:
  \<^verbatim>\<open>ristretto255.rs\<close>, \<^verbatim>\<open>ristretto255_scalar.rs\<close> and \<^verbatim>\<open>ristretto255_point.rs\<close>.  A Move program holds
  points by handles; the points themselves live in the \<open>PointStore\<close> of the session, a vector that only
  grows and whose indices are the handles.  The curve library, the references of the Move VM and the
  floating point operations are parameters.  \<open>None\<close> is a panic: a failed \<open>assert_eq!\<close>, a dangling handle,
  or two mutable borrows of one point.
\<close>

section \<open>Libraries\<close>

record ('v, 'st, 'a, 'sr, 'rf, 'vr, 'ty) ref_ops = "('v, 'st, 'a) val_ops" +
  val_struct_ref :: "'v \<Rightarrow> ('sr, partial_vm_error) result"
  val_reference :: "'v \<Rightarrow> ('rf, partial_vm_error) result"
  val_vector_ref :: "'v \<Rightarrow> ('vr, partial_vm_error) result"
  borrow_struct_field :: "'sr \<Rightarrow> nat \<Rightarrow> ('v, partial_vm_error) result"
  read_reference :: "'rf \<Rightarrow> ('v, partial_vm_error) result"
  vector_len :: "'vr \<Rightarrow> 'ty \<Rightarrow> ('v, partial_vm_error) result"
  borrow_elem :: "'vr \<Rightarrow> nat \<Rightarrow> 'ty \<Rightarrow> ('v, partial_vm_error) result"

record ('pt, 'sc) ristretto_lib =
  ris_identity :: 'pt
  ris_decompress :: "bytes \<Rightarrow> 'pt option"
  ris_compress :: "'pt \<Rightarrow> bytes"
  ris_mul :: "'pt \<Rightarrow> 'sc \<Rightarrow> 'pt"
  ris_eq :: "'pt \<Rightarrow> 'pt \<Rightarrow> bool"
  ris_neg :: "'pt \<Rightarrow> 'pt"
  ris_add :: "'pt \<Rightarrow> 'pt \<Rightarrow> 'pt"
  ris_sub :: "'pt \<Rightarrow> 'pt \<Rightarrow> 'pt"
  ris_basepoint_mul :: "'sc \<Rightarrow> 'pt"
  ris_double_mul :: "'sc \<Rightarrow> 'pt \<Rightarrow> 'sc \<Rightarrow> 'pt"
  ris_hash_sha512 :: "bytes \<Rightarrow> 'pt"
  ris_from_uniform_bytes :: "bytes \<Rightarrow> 'pt"
  ris_multiscalar_mul :: "'sc list \<Rightarrow> 'pt list \<Rightarrow> 'pt"
  sc_from_bits :: "bytes \<Rightarrow> 'sc"
  sc_from_canonical_bytes :: "bytes \<Rightarrow> 'sc option"
  sc_from_bytes_mod_order :: "bytes \<Rightarrow> 'sc"
  sc_from_bytes_mod_order_wide :: "bytes \<Rightarrow> 'sc"
  sc_hash_sha512 :: "bytes \<Rightarrow> 'sc"
  sc_from_u64 :: "u64 \<Rightarrow> 'sc"
  sc_from_u128 :: "u128 \<Rightarrow> 'sc"
  sc_invert :: "'sc \<Rightarrow> 'sc"
  sc_mul :: "'sc \<Rightarrow> 'sc \<Rightarrow> 'sc"
  sc_add :: "'sc \<Rightarrow> 'sc \<Rightarrow> 'sc"
  sc_sub :: "'sc \<Rightarrow> 'sc \<Rightarrow> 'sc"
  sc_neg :: "'sc \<Rightarrow> 'sc"
  sc_to_bytes :: "'sc \<Rightarrow> bytes"

record 'f f64_ops =
  f64_of_usize :: "nat \<Rightarrow> 'f"
  f64_log2 :: "'f \<Rightarrow> 'f"
  f64_div :: "'f \<Rightarrow> 'f \<Rightarrow> 'f"
  f64_ceil :: "'f \<Rightarrow> 'f"
  f64_as_u64 :: "'f \<Rightarrow> u64"

section \<open>ristretto255.rs: arguments\<close>

definition pop_slice :: "nat \<Rightarrow> ('v, 'st, 'a, 'z) val_ops_scheme \<Rightarrow> 'v list \<Rightarrow> (bytes \<times> 'v list, partial_vm_error) result" where
  "pop_slice n V args =
     bind_ok (pop_arg_as (val_bytes V) args) (\<lambda>(bytes, args).
     if length bytes = n then Ok (bytes, args) else Err internal_type_error)"

definition pop_32_byte_slice :: "('v, 'st, 'a, 'z) val_ops_scheme \<Rightarrow> 'v list \<Rightarrow> (bytes \<times> 'v list, partial_vm_error) result" where
  "pop_32_byte_slice = pop_slice 32"

definition pop_64_byte_slice :: "('v, 'st, 'a, 'z) val_ops_scheme \<Rightarrow> 'v list \<Rightarrow> (bytes \<times> 'v list, partial_vm_error) result" where
  "pop_64_byte_slice = pop_slice 64"

definition scalar_from_valid_bytes :: "('pt, 'sc) ristretto_lib \<Rightarrow> bytes \<Rightarrow> ('sc, partial_vm_error) result" where
  "scalar_from_valid_bytes L bytes =
     (if length bytes = 32 then Ok (sc_from_bits L bytes) else Err internal_type_error)"

definition pop_scalar_from_bytes ::
  "('v, 'st, 'a, 'z) val_ops_scheme \<Rightarrow> ('pt, 'sc) ristretto_lib \<Rightarrow> 'v list \<Rightarrow> ('sc \<times> 'v list, partial_vm_error) result" where
  "pop_scalar_from_bytes V L args =
     bind_ok (pop_arg_as (val_bytes V) args) (\<lambda>(bytes, args).
     map_ok (\<lambda>s. (s, args)) (scalar_from_valid_bytes L bytes))"

definition DATA_FIELD_INDEX :: nat where "DATA_FIELD_INDEX = 0"

definition scalar_from_struct ::
  "('v, 'st, 'a, 'sr, 'rf, 'vr, 'ty) ref_ops \<Rightarrow> ('pt, 'sc) ristretto_lib \<Rightarrow> 'v \<Rightarrow> ('sc, partial_vm_error) result" where
  "scalar_from_struct V L move_scalar =
     bind_ok (val_struct_ref V move_scalar) (\<lambda>move_struct.
     bind_ok (borrow_struct_field V move_struct DATA_FIELD_INDEX) (\<lambda>field.
     bind_ok (val_reference V field) (\<lambda>bytes_field_ref.
     bind_ok (read_reference V bytes_field_ref) (\<lambda>value.
     bind_ok (val_bytes V value) (scalar_from_valid_bytes L)))))"

section \<open>Natives on scalars\<close>

definition native_scalar_is_canonical ::
  "gas_ops \<Rightarrow> params \<Rightarrow> ('v, 'st, 'a, 'z) val_ops_scheme \<Rightarrow> ('pt, 'sc) ristretto_lib \<Rightarrow> 'v list \<Rightarrow> 'v call_outcome" where
  "native_scalar_is_canonical q p V L args =
     (let cost = gq_mul q (p ''ristretto255.scalar_is_canonical'') 1
      in bind_ok (pop_arg_as (val_bytes V) args) (\<lambda>(bytes, _).
         if length bytes \<noteq> 32 then native_ok cost [bool_val V False]
         else native_ok cost [bool_val V (sc_from_canonical_bytes L bytes \<noteq> None)]))"

definition native_scalar_invert ::
  "gas_ops \<Rightarrow> params \<Rightarrow> ('v, 'st, 'a, 'z) val_ops_scheme \<Rightarrow> ('pt, 'sc) ristretto_lib \<Rightarrow> 'v list \<Rightarrow> 'v call_outcome" where
  "native_scalar_invert q p V L args =
     (let cost = gq_mul q (p ''ristretto255.scalar_invert'') 1
      in bind_ok (pop_scalar_from_bytes V L args) (\<lambda>(s, _).
         native_ok cost [bytes_val V (sc_to_bytes L (sc_invert L s))]))"

definition native_scalar_from_sha512 ::
  "gas_ops \<Rightarrow> params \<Rightarrow> ('v, 'st, 'a, 'z) val_ops_scheme \<Rightarrow> ('pt, 'sc) ristretto_lib \<Rightarrow> 'v list \<Rightarrow> 'v call_outcome" where
  "native_scalar_from_sha512 q p V L args =
     bind_ok (pop_arg_as (val_bytes V) args) (\<lambda>(bytes, _).
     let cost = gq_add q (gq_add q
           (gq_mul q (p ''ristretto255.scalar_uniform_from_64_bytes'') 1)
           (gq_mul q (p ''ristretto255.sha512_per_hash'') 1))
           (gq_mul q (p ''ristretto255.sha512_per_byte'') (len_u64 bytes))
     in native_ok cost [bytes_val V (sc_to_bytes L (sc_hash_sha512 L bytes))])"

definition native_scalar_mul ::
  "gas_ops \<Rightarrow> params \<Rightarrow> ('v, 'st, 'a, 'z) val_ops_scheme \<Rightarrow> ('pt, 'sc) ristretto_lib \<Rightarrow> 'v list \<Rightarrow> 'v call_outcome" where
  "native_scalar_mul q p V L args =
     (let cost = gq_mul q (p ''ristretto255.scalar_mul'') 1
      in bind_ok (pop_scalar_from_bytes V L args) (\<lambda>(b, args).
         bind_ok (pop_scalar_from_bytes V L args) (\<lambda>(a, _).
         native_ok cost [bytes_val V (sc_to_bytes L (sc_mul L a b))])))"

definition native_scalar_add ::
  "gas_ops \<Rightarrow> params \<Rightarrow> ('v, 'st, 'a, 'z) val_ops_scheme \<Rightarrow> ('pt, 'sc) ristretto_lib \<Rightarrow> 'v list \<Rightarrow> 'v call_outcome" where
  "native_scalar_add q p V L args =
     (let cost = gq_mul q (p ''ristretto255.scalar_add'') 1
      in bind_ok (pop_scalar_from_bytes V L args) (\<lambda>(b, args).
         bind_ok (pop_scalar_from_bytes V L args) (\<lambda>(a, _).
         native_ok cost [bytes_val V (sc_to_bytes L (sc_add L a b))])))"

definition native_scalar_sub ::
  "gas_ops \<Rightarrow> params \<Rightarrow> ('v, 'st, 'a, 'z) val_ops_scheme \<Rightarrow> ('pt, 'sc) ristretto_lib \<Rightarrow> 'v list \<Rightarrow> 'v call_outcome" where
  "native_scalar_sub q p V L args =
     (let cost = gq_mul q (p ''ristretto255.scalar_sub'') 1
      in bind_ok (pop_scalar_from_bytes V L args) (\<lambda>(b, args).
         bind_ok (pop_scalar_from_bytes V L args) (\<lambda>(a, _).
         native_ok cost [bytes_val V (sc_to_bytes L (sc_sub L a b))])))"

definition native_scalar_neg ::
  "gas_ops \<Rightarrow> params \<Rightarrow> ('v, 'st, 'a, 'z) val_ops_scheme \<Rightarrow> ('pt, 'sc) ristretto_lib \<Rightarrow> 'v list \<Rightarrow> 'v call_outcome" where
  "native_scalar_neg q p V L args =
     bind_ok (pop_scalar_from_bytes V L args) (\<lambda>(a, _).
     let cost = gq_mul q (p ''ristretto255.scalar_neg'') 1
     in native_ok cost [bytes_val V (sc_to_bytes L (sc_neg L a))])"

definition native_scalar_from_u64 ::
  "gas_ops \<Rightarrow> params \<Rightarrow> ('v, 'st, 'a, 'z) val_ops_scheme \<Rightarrow> ('pt, 'sc) ristretto_lib \<Rightarrow> 'v list \<Rightarrow> 'v call_outcome" where
  "native_scalar_from_u64 q p V L args =
     bind_ok (pop_arg_as (val_u64 V) args) (\<lambda>(num, _).
     let cost = gq_mul q (p ''ristretto255.scalar_from_u64'') 1
     in native_ok cost [bytes_val V (sc_to_bytes L (sc_from_u64 L num))])"

definition native_scalar_from_u128 ::
  "gas_ops \<Rightarrow> params \<Rightarrow> ('v, 'st, 'a, 'z) val_ops_scheme \<Rightarrow> ('pt, 'sc) ristretto_lib \<Rightarrow> 'v list \<Rightarrow> 'v call_outcome" where
  "native_scalar_from_u128 q p V L args =
     bind_ok (pop_arg_as (val_u128 V) args) (\<lambda>(num, _).
     let cost = gq_mul q (p ''ristretto255.scalar_from_u128'') 1
     in native_ok cost [bytes_val V (sc_to_bytes L (sc_from_u128 L num))])"

definition native_scalar_reduced_from_32_bytes ::
  "gas_ops \<Rightarrow> params \<Rightarrow> ('v, 'st, 'a, 'z) val_ops_scheme \<Rightarrow> ('pt, 'sc) ristretto_lib \<Rightarrow> 'v list \<Rightarrow> 'v call_outcome" where
  "native_scalar_reduced_from_32_bytes q p V L args =
     bind_ok (pop_32_byte_slice V args) (\<lambda>(bytes_slice, _).
     let cost = gq_mul q (p ''ristretto255.scalar_reduced_from_32_bytes'') 1
     in native_ok cost [bytes_val V (sc_to_bytes L (sc_from_bytes_mod_order L bytes_slice))])"

definition native_scalar_uniform_from_64_bytes ::
  "gas_ops \<Rightarrow> params \<Rightarrow> ('v, 'st, 'a, 'z) val_ops_scheme \<Rightarrow> ('pt, 'sc) ristretto_lib \<Rightarrow> 'v list \<Rightarrow> 'v call_outcome" where
  "native_scalar_uniform_from_64_bytes q p V L args =
     bind_ok (pop_64_byte_slice V args) (\<lambda>(bytes_slice, _).
     let cost = gq_mul q (p ''ristretto255.scalar_uniform_from_64_bytes'') 1
     in native_ok cost [bytes_val V (sc_to_bytes L (sc_from_bytes_mod_order_wide L bytes_slice))])"

section \<open>The point store\<close>

record 'pt point_store =
  points :: "'pt list"

definition point_store_new :: "'pt point_store" where
  "point_store_new = \<lparr>points = []\<rparr>"

definition set_point :: "'pt point_store \<Rightarrow> u64 \<Rightarrow> 'pt \<Rightarrow> 'pt point_store option" where
  "set_point s handle point =
     (if unat handle < length (points s) then Some (s\<lparr>points := (points s)[unat handle := point]\<rparr>) else None)"

definition get_point :: "'pt point_store \<Rightarrow> u64 \<Rightarrow> 'pt option" where
  "get_point s handle = (if unat handle < length (points s) then Some (points s ! unat handle) else None)"

text \<open>A mutable reference is the index it refers to.\<close>

definition get_point_mut :: "'pt point_store \<Rightarrow> u64 \<Rightarrow> nat option" where
  "get_point_mut s handle = (if unat handle < length (points s) then Some (unat handle) else None)"

definition get_two_muts :: "'pt point_store \<Rightarrow> u64 \<Rightarrow> u64 \<Rightarrow> (nat \<times> nat) option" where
  "get_two_muts s a b =
     (if a = b then None
      else
        let (sw, a, b) = (if a < b then (False, unat a, unat b) else (True, unat b, unat a))
        in if a + 1 > length (points s) then None
           else
             let right_len = length (points s) - (a + 1)
             in if b - (a + 1) < right_len
                then let a_ref = a; b_ref = (a + 1) + (b - (a + 1))
                     in Some (if sw then (b_ref, a_ref) else (a_ref, b_ref))
                else None)"

text \<open>Reading and assigning through a reference.\<close>

definition deref :: "'pt point_store \<Rightarrow> nat \<Rightarrow> 'pt" where
  "deref s r = points s ! r"

definition assign :: "'pt point_store \<Rightarrow> nat \<Rightarrow> 'pt \<Rightarrow> 'pt point_store" where
  "assign s r point = s\<lparr>points := (points s)[r := point]\<rparr>"

definition add_point :: "'pt point_store \<Rightarrow> 'pt \<Rightarrow> u64 \<times> 'pt point_store" where
  "add_point s point = (of_nat (length (points s)), s\<lparr>points := points s @ [point]\<rparr>)"

section \<open>Natives on points\<close>

text \<open>An outcome with the store; \<open>?\<close> on a result leaves the store as it is.\<close>

type_synonym ('v, 'pt) point_outcome = "('v call_outcome \<times> 'pt point_store) option"

definition try_at :: "'pt point_store \<Rightarrow> ('x, partial_vm_error) result \<Rightarrow> ('x \<Rightarrow> ('v, 'pt) point_outcome) \<Rightarrow> ('v, 'pt) point_outcome" where
  "try_at s r f = (case r of Err e \<Rightarrow> Some (Err e, s) | Ok x \<Rightarrow> f x)"

definition POINT_HANDLE_FIELD_INDEX :: nat where "POINT_HANDLE_FIELD_INDEX = 0"

definition get_point_handle ::
  "('v, 'st, 'a, 'sr, 'rf, 'vr, 'ty) ref_ops \<Rightarrow> 'sr \<Rightarrow> (u64, partial_vm_error) result" where
  "get_point_handle V move_point =
     bind_ok (borrow_struct_field V move_point POINT_HANDLE_FIELD_INDEX) (\<lambda>field.
     bind_ok (val_reference V field) (\<lambda>field_ref.
     bind_ok (read_reference V field_ref) (val_u64 V)))"

definition get_point_handle_from_struct ::
  "('v, 'st, 'a, 'sr, 'rf, 'vr, 'ty) ref_ops \<Rightarrow> 'v \<Rightarrow> (u64, partial_vm_error) result" where
  "get_point_handle_from_struct V move_point =
     bind_ok (val_struct_ref V move_point) (get_point_handle V)"

definition pop_ristretto_handle ::
  "('v, 'st, 'a, 'sr, 'rf, 'vr, 'ty) ref_ops \<Rightarrow> 'v list \<Rightarrow> (u64 \<times> 'v list, partial_vm_error) result" where
  "pop_ristretto_handle V args =
     bind_ok (pop_arg_as (val_struct_ref V) args) (\<lambda>(r, args). map_ok (\<lambda>h. (h, args)) (get_point_handle V r))"

definition compressed_point_from_bytes :: "bytes \<Rightarrow> bytes option" where
  "compressed_point_from_bytes bytes = (if length bytes = 32 then Some bytes else None)"

definition decompress_maybe_non_canonical_point_bytes ::
  "gas_ops \<Rightarrow> params \<Rightarrow> ('pt, 'sc) ristretto_lib \<Rightarrow> u64 \<Rightarrow> bytes \<Rightarrow> 'pt option \<times> u64" where
  "decompress_maybe_non_canonical_point_bytes q p L cumulative_cost bytes =
     (case compressed_point_from_bytes bytes of
        None \<Rightarrow> (None, cumulative_cost)
      | Some compressed \<Rightarrow>
          (ris_decompress L compressed, gq_add q cumulative_cost (gq_mul q (p ''ristretto255.point_decompress'') 1)))"

text \<open>The last step of most natives: store a new point and return its handle.\<close>

definition return_new :: "('v, 'st, 'a, 'z) val_ops_scheme \<Rightarrow> u64 \<Rightarrow> 'pt point_store \<Rightarrow> 'pt \<Rightarrow> ('v, 'pt) point_outcome" where
  "return_new V cost s point =
     (let (result_handle, s) = add_point s point in Some (native_ok cost [u64_val V result_handle], s))"

definition native_point_identity ::
  "gas_ops \<Rightarrow> params \<Rightarrow> ('v, 'st, 'a, 'sr, 'rf, 'vr, 'ty) ref_ops \<Rightarrow> ('pt, 'sc) ristretto_lib \<Rightarrow>
   'ty list \<Rightarrow> 'v list \<Rightarrow> 'pt point_store \<Rightarrow> ('v, 'pt) point_outcome" where
  "native_point_identity q p V L ty_args args s =
     (if length ty_args \<noteq> 0 \<or> length args \<noteq> 0 then None
      else return_new V (gq_mul q (p ''ristretto255.point_identity'') 1) s (ris_identity L))"

definition native_point_is_canonical ::
  "gas_ops \<Rightarrow> params \<Rightarrow> ('v, 'st, 'a, 'sr, 'rf, 'vr, 'ty) ref_ops \<Rightarrow> ('pt, 'sc) ristretto_lib \<Rightarrow>
   'ty list \<Rightarrow> 'v list \<Rightarrow> 'pt point_store \<Rightarrow> ('v, 'pt) point_outcome" where
  "native_point_is_canonical q p V L ty_args args s =
     (if length ty_args \<noteq> 0 \<or> length args \<noteq> 1 then None
      else try_at s (pop_arg_as (val_bytes V) args) (\<lambda>(bytes, _).
        let (opt_point, cost) = decompress_maybe_non_canonical_point_bytes q p L 0 bytes
        in Some (native_ok cost [bool_val V (opt_point \<noteq> None)], s)))"

definition native_point_decompress ::
  "gas_ops \<Rightarrow> params \<Rightarrow> ('v, 'st, 'a, 'sr, 'rf, 'vr, 'ty) ref_ops \<Rightarrow> ('pt, 'sc) ristretto_lib \<Rightarrow>
   'ty list \<Rightarrow> 'v list \<Rightarrow> 'pt point_store \<Rightarrow> ('v, 'pt) point_outcome" where
  "native_point_decompress q p V L ty_args args s =
     (if length ty_args \<noteq> 0 \<or> length args \<noteq> 1 then None
      else try_at s (pop_arg_as (val_bytes V) args) (\<lambda>(bytes, _).
        case decompress_maybe_non_canonical_point_bytes q p L 0 bytes of
          (None, cost) \<Rightarrow> Some (native_ok cost [u64_val V (- 1), bool_val V False], s)
        | (Some point, cost) \<Rightarrow>
            (let (i, s) = add_point s point in Some (native_ok cost [u64_val V i, bool_val V True], s))))"

definition native_point_compress ::
  "gas_ops \<Rightarrow> params \<Rightarrow> ('v, 'st, 'a, 'sr, 'rf, 'vr, 'ty) ref_ops \<Rightarrow> ('pt, 'sc) ristretto_lib \<Rightarrow>
   'ty list \<Rightarrow> 'v list \<Rightarrow> 'pt point_store \<Rightarrow> ('v, 'pt) point_outcome" where
  "native_point_compress q p V L ty_args args s =
     (if length ty_args \<noteq> 0 \<or> length args \<noteq> 1 then None
      else try_at s (pop_ristretto_handle V args) (\<lambda>(handle, _).
        let cost = gq_mul q (p ''ristretto255.point_compress'') 1
        in do { point \<leftarrow> get_point s handle; Some (native_ok cost [bytes_val V (ris_compress L point)], s) }))"

definition native_point_mul ::
  "gas_ops \<Rightarrow> params \<Rightarrow> ('v, 'st, 'a, 'sr, 'rf, 'vr, 'ty) ref_ops \<Rightarrow> ('pt, 'sc) ristretto_lib \<Rightarrow>
   'ty list \<Rightarrow> 'v list \<Rightarrow> 'pt point_store \<Rightarrow> ('v, 'pt) point_outcome" where
  "native_point_mul q p V L ty_args args s =
     (if length ty_args \<noteq> 0 \<or> length args \<noteq> 3 then None
      else try_at s (pop_arg_as (val_bool V) args) (\<lambda>(in_place, args).
        try_at s (pop_scalar_from_bytes V L args) (\<lambda>(scalar, args).
        try_at s (pop_ristretto_handle V args) (\<lambda>(point_handle, _).
        let cost = gq_mul q (p ''ristretto255.point_mul'') 1
        in if \<not> in_place then
             do { point \<leftarrow> get_point s point_handle; return_new V cost s (ris_mul L point scalar) }
           else
             do { r \<leftarrow> get_point_mut s point_handle;
                  Some (native_ok cost [u64_val V point_handle], assign s r (ris_mul L (deref s r) scalar)) }))))"

definition native_point_equals ::
  "gas_ops \<Rightarrow> params \<Rightarrow> ('v, 'st, 'a, 'sr, 'rf, 'vr, 'ty) ref_ops \<Rightarrow> ('pt, 'sc) ristretto_lib \<Rightarrow>
   'ty list \<Rightarrow> 'v list \<Rightarrow> 'pt point_store \<Rightarrow> ('v, 'pt) point_outcome" where
  "native_point_equals q p V L ty_args args s =
     (if length ty_args \<noteq> 0 \<or> length args \<noteq> 2 then None
      else try_at s (pop_ristretto_handle V args) (\<lambda>(b_handle, args).
        try_at s (pop_ristretto_handle V args) (\<lambda>(a_handle, _).
        let cost = gq_mul q (p ''ristretto255.point_equals'') 1
        in do { a \<leftarrow> get_point s a_handle; b \<leftarrow> get_point s b_handle;
                Some (native_ok cost [bool_val V (ris_eq L a b)], s) })))"

definition native_point_neg ::
  "gas_ops \<Rightarrow> params \<Rightarrow> ('v, 'st, 'a, 'sr, 'rf, 'vr, 'ty) ref_ops \<Rightarrow> ('pt, 'sc) ristretto_lib \<Rightarrow>
   'ty list \<Rightarrow> 'v list \<Rightarrow> 'pt point_store \<Rightarrow> ('v, 'pt) point_outcome" where
  "native_point_neg q p V L ty_args args s =
     (if length ty_args \<noteq> 0 \<or> length args \<noteq> 2 then None
      else try_at s (pop_arg_as (val_bool V) args) (\<lambda>(in_place, args).
        try_at s (pop_ristretto_handle V args) (\<lambda>(point_handle, _).
        let cost = gq_mul q (p ''ristretto255.point_neg'') 1
        in if \<not> in_place then
             do { point \<leftarrow> get_point s point_handle; return_new V cost s (ris_neg L point) }
           else
             do { r \<leftarrow> get_point_mut s point_handle;
                  s' \<leftarrow> set_point s point_handle (ris_neg L (deref s r));
                  Some (native_ok cost [u64_val V point_handle], s') })))"

definition native_point_add ::
  "gas_ops \<Rightarrow> params \<Rightarrow> ('v, 'st, 'a, 'sr, 'rf, 'vr, 'ty) ref_ops \<Rightarrow> ('pt, 'sc) ristretto_lib \<Rightarrow>
   'ty list \<Rightarrow> 'v list \<Rightarrow> 'pt point_store \<Rightarrow> ('v, 'pt) point_outcome" where
  "native_point_add q p V L ty_args args s =
     (if length ty_args \<noteq> 0 \<or> length args \<noteq> 3 then None
      else try_at s (pop_arg_as (val_bool V) args) (\<lambda>(in_place, args).
        try_at s (pop_ristretto_handle V args) (\<lambda>(b_handle, args).
        try_at s (pop_ristretto_handle V args) (\<lambda>(a_handle, _).
        let cost = gq_mul q (p ''ristretto255.point_add'') 1
        in if \<not> in_place then
             do { a \<leftarrow> get_point s a_handle; b \<leftarrow> get_point s b_handle; return_new V cost s (ris_add L a b) }
           else
             do { (a, b) \<leftarrow> get_two_muts s a_handle b_handle;
                  Some (native_ok cost [u64_val V a_handle], assign s a (ris_add L (deref s a) (deref s b))) }))))"

definition native_point_sub ::
  "gas_ops \<Rightarrow> params \<Rightarrow> ('v, 'st, 'a, 'sr, 'rf, 'vr, 'ty) ref_ops \<Rightarrow> ('pt, 'sc) ristretto_lib \<Rightarrow>
   'ty list \<Rightarrow> 'v list \<Rightarrow> 'pt point_store \<Rightarrow> ('v, 'pt) point_outcome" where
  "native_point_sub q p V L ty_args args s =
     (if length ty_args \<noteq> 0 \<or> length args \<noteq> 3 then None
      else try_at s (pop_arg_as (val_bool V) args) (\<lambda>(in_place, args).
        try_at s (pop_ristretto_handle V args) (\<lambda>(b_handle, args).
        try_at s (pop_ristretto_handle V args) (\<lambda>(a_handle, _).
        let cost = gq_mul q (p ''ristretto255.point_sub'') 1
        in if \<not> in_place then
             do { a \<leftarrow> get_point s a_handle; b \<leftarrow> get_point s b_handle; return_new V cost s (ris_sub L a b) }
           else
             do { (a, b) \<leftarrow> get_two_muts s a_handle b_handle;
                  Some (native_ok cost [u64_val V a_handle], assign s a (ris_sub L (deref s a) (deref s b))) }))))"

definition native_basepoint_mul ::
  "gas_ops \<Rightarrow> params \<Rightarrow> ('v, 'st, 'a, 'sr, 'rf, 'vr, 'ty) ref_ops \<Rightarrow> ('pt, 'sc) ristretto_lib \<Rightarrow>
   'ty list \<Rightarrow> 'v list \<Rightarrow> 'pt point_store \<Rightarrow> ('v, 'pt) point_outcome" where
  "native_basepoint_mul q p V L ty_args args s =
     (if length ty_args \<noteq> 0 \<or> length args \<noteq> 1 then None
      else try_at s (pop_scalar_from_bytes V L args) (\<lambda>(a, _).
        return_new V (gq_mul q (p ''ristretto255.basepoint_mul'') 1) s (ris_basepoint_mul L a)))"

definition native_basepoint_double_mul ::
  "gas_ops \<Rightarrow> params \<Rightarrow> ('v, 'st, 'a, 'sr, 'rf, 'vr, 'ty) ref_ops \<Rightarrow> ('pt, 'sc) ristretto_lib \<Rightarrow>
   'ty list \<Rightarrow> 'v list \<Rightarrow> 'pt point_store \<Rightarrow> ('v, 'pt) point_outcome" where
  "native_basepoint_double_mul q p V L ty_args args s =
     (if length ty_args \<noteq> 0 \<or> length args \<noteq> 3 then None
      else try_at s (pop_scalar_from_bytes V L args) (\<lambda>(b, args).
        try_at s (pop_ristretto_handle V args) (\<lambda>(A_handle, args).
        try_at s (pop_scalar_from_bytes V L args) (\<lambda>(a, _).
        let cost = gq_mul q (p ''ristretto255.basepoint_double_mul'') 1
        in do { A_ref \<leftarrow> get_point s A_handle; return_new V cost s (ris_double_mul L a A_ref b) }))))"

definition native_new_point_from_sha512 ::
  "gas_ops \<Rightarrow> params \<Rightarrow> ('v, 'st, 'a, 'sr, 'rf, 'vr, 'ty) ref_ops \<Rightarrow> ('pt, 'sc) ristretto_lib \<Rightarrow>
   'ty list \<Rightarrow> 'v list \<Rightarrow> 'pt point_store \<Rightarrow> ('v, 'pt) point_outcome" where
  "native_new_point_from_sha512 q p V L ty_args args s =
     (if length ty_args \<noteq> 0 \<or> length args \<noteq> 1 then None
      else try_at s (pop_arg_as (val_bytes V) args) (\<lambda>(bytes, _).
        let cost = gq_add q (gq_add q
              (gq_mul q (p ''ristretto255.point_from_64_uniform_bytes'') 1)
              (gq_mul q (p ''ristretto255.sha512_per_hash'') 1))
              (gq_mul q (p ''ristretto255.sha512_per_byte'') (len_u64 bytes))
        in return_new V cost s (ris_hash_sha512 L bytes)))"

definition native_new_point_from_64_uniform_bytes ::
  "gas_ops \<Rightarrow> params \<Rightarrow> ('v, 'st, 'a, 'sr, 'rf, 'vr, 'ty) ref_ops \<Rightarrow> ('pt, 'sc) ristretto_lib \<Rightarrow>
   'ty list \<Rightarrow> 'v list \<Rightarrow> 'pt point_store \<Rightarrow> ('v, 'pt) point_outcome" where
  "native_new_point_from_64_uniform_bytes q p V L ty_args args s =
     (if length ty_args \<noteq> 0 \<or> length args \<noteq> 1 then None
      else try_at s (pop_64_byte_slice V args) (\<lambda>(slice, _).
        return_new V (gq_mul q (p ''ristretto255.point_from_64_uniform_bytes'') 1) s (ris_from_uniform_bytes L slice)))"

subsection \<open>Multi-scalar multiplication\<close>

text \<open>The loop over the points panics on a dangling handle and fails on a value that is no point.\<close>

fun parse_points ::
  "('v, 'st, 'a, 'sr, 'rf, 'vr, 'ty) ref_ops \<Rightarrow> 'pt point_store \<Rightarrow> 'vr \<Rightarrow> 'ty \<Rightarrow> nat list \<Rightarrow> ('pt list, partial_vm_error) result option" where
  "parse_points V s points_ref point_type [] = Some (Ok [])"
| "parse_points V s points_ref point_type (i # is) =
     (case bind_ok (borrow_elem V points_ref i point_type) (get_point_handle_from_struct V) of
        Err e \<Rightarrow> Some (Err e)
      | Ok point_handle \<Rightarrow>
          do { point \<leftarrow> get_point s point_handle;
               map_option (map_ok ((#) point)) (parse_points V s points_ref point_type is) })"

definition msm_weight :: "'f f64_ops \<Rightarrow> nat \<Rightarrow> u64" where
  "msm_weight F num = f64_as_u64 F (f64_ceil F (f64_div F (f64_of_usize F num) (f64_log2 F (f64_of_usize F num))))"

definition native_multi_scalar_mul ::
  "'f f64_ops \<Rightarrow> gas_ops \<Rightarrow> params \<Rightarrow> ('v, 'st, 'a, 'sr, 'rf, 'vr, 'ty) ref_ops \<Rightarrow> ('pt, 'sc) ristretto_lib \<Rightarrow>
   'ty list \<Rightarrow> 'v list \<Rightarrow> 'pt point_store \<Rightarrow> ('v, 'pt) point_outcome" where
  "native_multi_scalar_mul F q p V L ty_args args s =
     (if length ty_args \<noteq> 2 \<or> length args \<noteq> 2 then None
      else
        let scalar_type = ty_args ! 1; point_type = ty_args ! 0
        in try_at s (pop_arg_as (val_vector_ref V) args) (\<lambda>(scalars_ref, args).
           try_at s (pop_arg_as (val_vector_ref V) args) (\<lambda>(points_ref, _).
           try_at s (bind_ok (vector_len V scalars_ref scalar_type) (val_u64 V)) (\<lambda>len.
           let num = unat len
           in try_at s (convert_all (\<lambda>i. bind_ok (borrow_elem V scalars_ref i scalar_type) (scalar_from_struct V L)) [0..<num]) (\<lambda>scalars.
              do { parsed \<leftarrow> parse_points V s points_ref point_type [0..<num];
                   try_at s parsed (\<lambda>pts.
                     let cost = gq_add q (gq_add q
                           (gq_mul q (p ''ristretto255.scalar_parse_arg'') (of_nat num))
                           (gq_mul q (p ''ristretto255.point_parse_arg'') (of_nat num)))
                           (gq_mul q (p ''ristretto255.point_mul'') (msm_weight F num))
                     in return_new V cost s (ris_multiscalar_mul L scalars pts)) })))))"

section \<open>Sequences of calls\<close>

datatype point_native = Point_Identity | Point_Is_Canonical | Point_Decompress | Point_Compress | Point_Mul | Point_Equals
  | Point_Neg | Point_Add | Point_Sub | Basepoint_Mul | Basepoint_Double_Mul | New_Point_From_Sha512
  | New_Point_From_64_Uniform_Bytes | Multi_Scalar_Mul

definition run_point_native ::
  "'f f64_ops \<Rightarrow> gas_ops \<Rightarrow> params \<Rightarrow> ('v, 'st, 'a, 'sr, 'rf, 'vr, 'ty) ref_ops \<Rightarrow> ('pt, 'sc) ristretto_lib \<Rightarrow> point_native \<Rightarrow>
   'ty list \<Rightarrow> 'v list \<Rightarrow> 'pt point_store \<Rightarrow> ('v, 'pt) point_outcome" where
  "run_point_native F q p V L native =
     (case native of
        Point_Identity \<Rightarrow> native_point_identity q p V L
      | Point_Is_Canonical \<Rightarrow> native_point_is_canonical q p V L
      | Point_Decompress \<Rightarrow> native_point_decompress q p V L
      | Point_Compress \<Rightarrow> native_point_compress q p V L
      | Point_Mul \<Rightarrow> native_point_mul q p V L
      | Point_Equals \<Rightarrow> native_point_equals q p V L
      | Point_Neg \<Rightarrow> native_point_neg q p V L
      | Point_Add \<Rightarrow> native_point_add q p V L
      | Point_Sub \<Rightarrow> native_point_sub q p V L
      | Basepoint_Mul \<Rightarrow> native_basepoint_mul q p V L
      | Basepoint_Double_Mul \<Rightarrow> native_basepoint_double_mul q p V L
      | New_Point_From_Sha512 \<Rightarrow> native_new_point_from_sha512 q p V L
      | New_Point_From_64_Uniform_Bytes \<Rightarrow> native_new_point_from_64_uniform_bytes q p V L
      | Multi_Scalar_Mul \<Rightarrow> native_multi_scalar_mul F q p V L)"

text \<open>Calls in order on one store; an error ends the run.\<close>

fun point_run ::
  "'f f64_ops \<Rightarrow> gas_ops \<Rightarrow> params \<Rightarrow> ('v, 'st, 'a, 'sr, 'rf, 'vr, 'ty) ref_ops \<Rightarrow> ('pt, 'sc) ristretto_lib \<Rightarrow>
   (point_native \<times> 'ty list \<times> 'v list) list \<Rightarrow> 'pt point_store \<Rightarrow>
   (((u64 \<times> ('v list, u64) result) list, partial_vm_error) result \<times> 'pt point_store) option" where
  "point_run F q p V L [] s = Some (Ok [], s)"
| "point_run F q p V L ((native, ty_args, args) # calls) s =
     do { (r, s) \<leftarrow> run_point_native F q p V L native ty_args args s;
          case r of
            Err e \<Rightarrow> Some (Err e, s)
          | Ok out \<Rightarrow> do { (outs, s) \<leftarrow> point_run F q p V L calls s; Some (map_ok ((#) out) outs, s) } }"

section \<open>The specification: a heap of points\<close>

text \<open>
  A call, once its arguments are read, is one of three commands: allocate a point computed from some
  others, overwrite a point, or ask about points.
\<close>

datatype ('pt, 'v) point_cmd =
    Fresh "u64 list" "'pt list \<Rightarrow> 'pt" "u64 \<Rightarrow> 'v list"
  | In_Place "u64 list" "'pt list \<Rightarrow> 'pt" "'v list"
  | Query "u64 list" "'pt list \<Rightarrow> 'v list"

record 'pt point_heap =
  heap_next :: u64
  heap_at :: "u64 \<Rightarrow> 'pt option"

definition heap_add :: "'pt point_heap \<Rightarrow> 'pt \<Rightarrow> 'pt point_heap" where
  "heap_add H pt = \<lparr>heap_next = heap_next H + 1, heap_at = (heap_at H)(heap_next H \<mapsto> pt)\<rparr>"

definition heap_set :: "'pt point_heap \<Rightarrow> u64 \<Rightarrow> 'pt \<Rightarrow> 'pt point_heap" where
  "heap_set H h pt = H\<lparr>heap_at := (heap_at H)(h \<mapsto> pt)\<rparr>"

fun heap_step :: "('pt, 'v) point_cmd \<Rightarrow> 'pt point_heap \<Rightarrow> ('v list \<times> 'pt point_heap) option" where
  "heap_step (Fresh hs f ret) H =
     do { pts \<leftarrow> sequence_opt (map (heap_at H) hs); Some (ret (heap_next H), heap_add H (f pts)) }"
| "heap_step (In_Place hs f ret) H =
     do { pts \<leftarrow> sequence_opt (map (heap_at H) hs);
          if distinct hs then Some (ret, heap_set H (hd hs) (f pts)) else None }"
| "heap_step (Query hs f) H =
     do { pts \<leftarrow> sequence_opt (map (heap_at H) hs); Some (f pts, H) }"

fun heap_run :: "(u64 \<times> ('pt, 'v) point_cmd) list \<Rightarrow> 'pt point_heap \<Rightarrow> ((u64 \<times> ('v list, u64) result) list \<times> 'pt point_heap) option" where
  "heap_run [] H = Some ([], H)"
| "heap_run ((cost, cmd) # cmds) H =
     do { (vs, H) \<leftarrow> heap_step cmd H; (outs, H) \<leftarrow> heap_run cmds H; Some ((cost, Ok vs) # outs, H) }"

subsection \<open>Reading a call as a command\<close>

definition handle_of :: "('v, 'st, 'a, 'sr, 'rf, 'vr, 'ty) ref_ops \<Rightarrow> 'v \<Rightarrow> u64 option" where
  "handle_of V v = ok (get_point_handle_from_struct V v)"

definition scalar_of :: "('v, 'st, 'a, 'z) val_ops_scheme \<Rightarrow> ('pt, 'sc) ristretto_lib \<Rightarrow> 'v \<Rightarrow> 'sc option" where
  "scalar_of V L v = ok (bind_ok (val_bytes V v) (scalar_from_valid_bytes L))"

definition unary_cmd :: "('v, 'st, 'a, 'z) val_ops_scheme \<Rightarrow> bool \<Rightarrow> u64 \<Rightarrow> ('pt \<Rightarrow> 'pt) \<Rightarrow> ('pt, 'v) point_cmd" where
  "unary_cmd V in_place h f =
     (if in_place then In_Place [h] (\<lambda>pts. f (pts ! 0)) [u64_val V h] else Fresh [h] (\<lambda>pts. f (pts ! 0)) (\<lambda>r. [u64_val V r]))"

definition binary_cmd ::
  "('v, 'st, 'a, 'z) val_ops_scheme \<Rightarrow> bool \<Rightarrow> u64 \<Rightarrow> u64 \<Rightarrow> ('pt \<Rightarrow> 'pt \<Rightarrow> 'pt) \<Rightarrow> ('pt, 'v) point_cmd" where
  "binary_cmd V in_place a b f =
     (if in_place then In_Place [a, b] (\<lambda>pts. f (pts ! 0) (pts ! 1)) [u64_val V a]
      else Fresh [a, b] (\<lambda>pts. f (pts ! 0) (pts ! 1)) (\<lambda>r. [u64_val V r]))"

definition point_cmd_of ::
  "'f f64_ops \<Rightarrow> gas_ops \<Rightarrow> params \<Rightarrow> ('v, 'st, 'a, 'sr, 'rf, 'vr, 'ty) ref_ops \<Rightarrow> ('pt, 'sc) ristretto_lib \<Rightarrow> point_native \<Rightarrow>
   'ty list \<Rightarrow> 'v list \<Rightarrow> (u64 \<times> ('pt, 'v) point_cmd) option" where
  "point_cmd_of F q p V L native ty_args args =
     (case native of
        Point_Identity \<Rightarrow>
          (if length ty_args = 0 \<and> length args = 0 then
           Some (gq_mul q (p ''ristretto255.point_identity'') 1, Fresh [] (\<lambda>_. ris_identity L) (\<lambda>r. [u64_val V r]))
           else None)
      | Point_Is_Canonical \<Rightarrow>
          (if length ty_args = 0 \<and> length args = 1 then
           do { bs \<leftarrow> ok (val_bytes V (args ! 0));
                let (pt, cost) = decompress_maybe_non_canonical_point_bytes q p L 0 bs
                in Some (cost, Query [] (\<lambda>_. [bool_val V (pt \<noteq> None)])) }
           else None)
      | Point_Decompress \<Rightarrow>
          (if length ty_args = 0 \<and> length args = 1 then
           do { bs \<leftarrow> ok (val_bytes V (args ! 0));
                case decompress_maybe_non_canonical_point_bytes q p L 0 bs of
                  (None, cost) \<Rightarrow> Some (cost, Query [] (\<lambda>_. [u64_val V (- 1), bool_val V False]))
                | (Some pt, cost) \<Rightarrow> Some (cost, Fresh [] (\<lambda>_. pt) (\<lambda>r. [u64_val V r, bool_val V True])) }
           else None)
      | Point_Compress \<Rightarrow>
          (if length ty_args = 0 \<and> length args = 1 then
           do { h \<leftarrow> handle_of V (args ! 0);
                Some (gq_mul q (p ''ristretto255.point_compress'') 1, Query [h] (\<lambda>pts. [bytes_val V (ris_compress L (pts ! 0))])) }
           else None)
      | Point_Mul \<Rightarrow>
          (if length ty_args = 0 \<and> length args = 3 then
           do { in_place \<leftarrow> ok (val_bool V (args ! 2)); sc \<leftarrow> scalar_of V L (args ! 1); h \<leftarrow> handle_of V (args ! 0);
                Some (gq_mul q (p ''ristretto255.point_mul'') 1, unary_cmd V in_place h (\<lambda>pt. ris_mul L pt sc)) }
           else None)
      | Point_Equals \<Rightarrow>
          (if length ty_args = 0 \<and> length args = 2 then
           do { b \<leftarrow> handle_of V (args ! 1); a \<leftarrow> handle_of V (args ! 0);
                Some (gq_mul q (p ''ristretto255.point_equals'') 1, Query [a, b] (\<lambda>pts. [bool_val V (ris_eq L (pts ! 0) (pts ! 1))])) }
           else None)
      | Point_Neg \<Rightarrow>
          (if length ty_args = 0 \<and> length args = 2 then
           do { in_place \<leftarrow> ok (val_bool V (args ! 1)); h \<leftarrow> handle_of V (args ! 0);
                Some (gq_mul q (p ''ristretto255.point_neg'') 1, unary_cmd V in_place h (ris_neg L)) }
           else None)
      | Point_Add \<Rightarrow>
          (if length ty_args = 0 \<and> length args = 3 then
           do { in_place \<leftarrow> ok (val_bool V (args ! 2)); b \<leftarrow> handle_of V (args ! 1); a \<leftarrow> handle_of V (args ! 0);
                Some (gq_mul q (p ''ristretto255.point_add'') 1, binary_cmd V in_place a b (ris_add L)) }
           else None)
      | Point_Sub \<Rightarrow>
          (if length ty_args = 0 \<and> length args = 3 then
           do { in_place \<leftarrow> ok (val_bool V (args ! 2)); b \<leftarrow> handle_of V (args ! 1); a \<leftarrow> handle_of V (args ! 0);
                Some (gq_mul q (p ''ristretto255.point_sub'') 1, binary_cmd V in_place a b (ris_sub L)) }
           else None)
      | Basepoint_Mul \<Rightarrow>
          (if length ty_args = 0 \<and> length args = 1 then
           do { sc \<leftarrow> scalar_of V L (args ! 0);
                Some (gq_mul q (p ''ristretto255.basepoint_mul'') 1, Fresh [] (\<lambda>_. ris_basepoint_mul L sc) (\<lambda>r. [u64_val V r])) }
           else None)
      | Basepoint_Double_Mul \<Rightarrow>
          (if length ty_args = 0 \<and> length args = 3 then
           do { b \<leftarrow> scalar_of V L (args ! 2); h \<leftarrow> handle_of V (args ! 1); a \<leftarrow> scalar_of V L (args ! 0);
                Some (gq_mul q (p ''ristretto255.basepoint_double_mul'') 1,
                      Fresh [h] (\<lambda>pts. ris_double_mul L a (pts ! 0) b) (\<lambda>r. [u64_val V r])) }
           else None)
      | New_Point_From_Sha512 \<Rightarrow>
          (if length ty_args = 0 \<and> length args = 1 then
           do { bs \<leftarrow> ok (val_bytes V (args ! 0));
                Some (gq_add q (gq_add q
                    (gq_mul q (p ''ristretto255.point_from_64_uniform_bytes'') 1)
                    (gq_mul q (p ''ristretto255.sha512_per_hash'') 1))
                    (gq_mul q (p ''ristretto255.sha512_per_byte'') (len_u64 bs)),
                  Fresh [] (\<lambda>_. ris_hash_sha512 L bs) (\<lambda>r. [u64_val V r])) }
           else None)
      | New_Point_From_64_Uniform_Bytes \<Rightarrow>
          (if length ty_args = 0 \<and> length args = 1 then
           do { bs \<leftarrow> ok (val_bytes V (args ! 0));
                if length bs = 64
                then Some (gq_mul q (p ''ristretto255.point_from_64_uniform_bytes'') 1, Fresh [] (\<lambda>_. ris_from_uniform_bytes L bs) (\<lambda>r. [u64_val V r]))
                else None }
           else None)
      | Multi_Scalar_Mul \<Rightarrow>
          (if length ty_args = 2 \<and> length args = 2 then
           do { sr \<leftarrow> ok (val_vector_ref V (args ! 1)); pr \<leftarrow> ok (val_vector_ref V (args ! 0));
                len \<leftarrow> ok (bind_ok (vector_len V sr (ty_args ! 1)) (val_u64 V));
                scalars \<leftarrow> ok (convert_all (\<lambda>i. bind_ok (borrow_elem V sr i (ty_args ! 1)) (scalar_from_struct V L)) [0..<unat len]);
                hs \<leftarrow> ok (convert_all (\<lambda>i. bind_ok (borrow_elem V pr i (ty_args ! 0)) (get_point_handle_from_struct V)) [0..<unat len]);
                Some (gq_add q (gq_add q
                    (gq_mul q (p ''ristretto255.scalar_parse_arg'') len)
                    (gq_mul q (p ''ristretto255.point_parse_arg'') len))
                    (gq_mul q (p ''ristretto255.point_mul'') (msm_weight F (unat len))),
                  Fresh hs (ris_multiscalar_mul L scalars) (\<lambda>r. [u64_val V r])) }
           else None))"

section \<open>The store implements the heap\<close>

text \<open>
  What the natives rely on: lookups, allocation and overwriting in the store are those of an abstract heap,
  as long as there is room for one more handle.
\<close>

locale point_arena =
  fixes lookup :: "'s \<Rightarrow> u64 \<Rightarrow> 'pt option"
    and alloc :: "'s \<Rightarrow> 'pt \<Rightarrow> u64 \<times> 's"
    and update :: "'s \<Rightarrow> u64 \<Rightarrow> 'pt \<Rightarrow> 's option"
    and abs :: "'s \<Rightarrow> 'pt point_heap"
    and room :: "'s \<Rightarrow> bool"
  assumes lookup_abs: "lookup s = heap_at (abs s)"
    and alloc_abs: "room s \<Longrightarrow> fst (alloc s pt) = heap_next (abs s) \<and> abs (snd (alloc s pt)) = heap_add (abs s) pt"
    and update_abs: "heap_at (abs s) h \<noteq> None \<Longrightarrow> \<exists>s'. update s h pt = Some s' \<and> abs s' = heap_set (abs s) h pt"
begin

fun arena_step :: "('pt, 'v) point_cmd \<Rightarrow> 's \<Rightarrow> ('v list \<times> 's) option" where
  "arena_step (Fresh hs f ret) s =
     do { pts \<leftarrow> sequence_opt (map (lookup s) hs); Some (ret (fst (alloc s (f pts))), snd (alloc s (f pts))) }"
| "arena_step (In_Place hs f ret) s =
     do { pts \<leftarrow> sequence_opt (map (lookup s) hs);
          if distinct hs then do { s' \<leftarrow> update s (hd hs) (f pts); Some (ret, s') } else None }"
| "arena_step (Query hs f) s =
     do { pts \<leftarrow> sequence_opt (map (lookup s) hs); Some (f pts, s) }"

text \<open>A command overwrites one of the points it reads.\<close>

definition cmd_ok :: "('pt, 'v) point_cmd \<Rightarrow> bool" where
  "cmd_ok cmd \<longleftrightarrow> (case cmd of In_Place hs _ _ \<Rightarrow> hs \<noteq> [] | _ \<Rightarrow> True)"

lemma sequence_opt_hd: "sequence_opt (map g hs) = Some pts \<Longrightarrow> hs \<noteq> [] \<Longrightarrow> g (hd hs) \<noteq> None"
  by (cases hs) (auto simp: bind_eq_Some_conv)

lemma arena_step_refines:
  assumes "room s" "cmd_ok cmd"
  shows "map_option (\<lambda>(vs, s'). (vs, abs s')) (arena_step cmd s) = heap_step cmd (abs s)"
proof (cases cmd)
  case (Fresh hs f ret)
  with alloc_abs[OF assms(1)] show ?thesis by (cases "sequence_opt (map (heap_at (abs s)) hs)") (simp_all add: lookup_abs)
next
  case (In_Place hs f ret)
  show ?thesis
  proof (cases "sequence_opt (map (heap_at (abs s)) hs)")
    case (Some pts)
    with In_Place assms(2) have "heap_at (abs s) (hd hs) \<noteq> None" by (intro sequence_opt_hd) (auto simp: cmd_ok_def)
    from update_abs[OF this, of "f pts"] In_Place Some show ?thesis by (auto simp: lookup_abs)
  qed (simp add: In_Place lookup_abs)
next
  case (Query hs f)
  then show ?thesis by (cases "sequence_opt (map (heap_at (abs s)) hs)") (simp_all add: lookup_abs)
qed

end

text \<open>The heap of a store; a handle is a 64-bit number, so there is room below two to the 64 points.\<close>

definition heap_of :: "'pt point_store \<Rightarrow> 'pt point_heap" where
  "heap_of s = \<lparr>heap_next = of_nat (length (points s)), heap_at = get_point s\<rparr>"

definition store_room :: "'pt point_store \<Rightarrow> bool" where
  "store_room s \<longleftrightarrow> length (points s) < 2 ^ 64"

lemma heap_of_simps [simp]: "heap_at (heap_of s) = get_point s" "heap_next (heap_of s) = of_nat (length (points s))"
  by (simp_all add: heap_of_def)

lemma unat_len_points: "store_room s \<Longrightarrow> unat (of_nat (length (points s)) :: u64) = length (points s)"
  by (simp add: store_room_def unat_of_nat take_bit_nat_eq_self)

lemma get_point_add:
  assumes "store_room s"
  shows "get_point (snd (add_point s pt)) = (get_point s)(of_nat (length (points s)) \<mapsto> pt)"
proof
  fix h :: u64
  have "h = of_nat (length (points s)) \<longleftrightarrow> unat h = length (points s)"
    using unat_len_points[OF assms] by (metis word_unat_eq_iff)
  then show "get_point (snd (add_point s pt)) h = ((get_point s)(of_nat (length (points s)) \<mapsto> pt)) h"
    by (auto simp: get_point_def add_point_def nth_append)
qed

lemma get_point_set:
  "set_point s h pt = Some s' \<Longrightarrow> get_point s' = (get_point s)(h \<mapsto> pt) \<and> length (points s') = length (points s)"
  by (auto simp: set_point_def get_point_def fun_eq_iff nth_list_update word_unat_eq_iff split: if_splits)

lemma set_point_defined: "set_point s h pt = None \<longleftrightarrow> get_point s h = None"
  by (simp add: set_point_def get_point_def)

interpretation pstore: point_arena get_point add_point set_point heap_of store_room
proof
  show "get_point s = heap_at (heap_of s)" for s :: "'a point_store" by simp
  show "fst (add_point s pt) = heap_next (heap_of s) \<and> heap_of (snd (add_point s pt)) = heap_add (heap_of s) pt"
    if "store_room s" for s :: "'a point_store" and pt
    using get_point_add[OF that] by (simp add: heap_add_def heap_of_def) (simp add: add_point_def)
  show "\<exists>s'. set_point s h pt = Some s' \<and> heap_of s' = heap_set (heap_of s) h pt"
    if "heap_at (heap_of s) h \<noteq> None" for s :: "'a point_store" and h pt
    using that set_point_defined[of s h pt] get_point_set[of s h pt]
    by (cases "set_point s h pt") (auto simp: heap_set_def heap_of_def)
qed

section \<open>Each native is its command\<close>

lemma try_at_Ok [simp]: "try_at s (Ok x) f = f x"
  by (simp add: try_at_def)

lemma pop_handle_eq:
  "args \<noteq> [] \<Longrightarrow> pop_ristretto_handle V args = map_ok (\<lambda>h. (h, butlast args)) (get_point_handle_from_struct V (last args))"
  by (cases "val_struct_ref V (last args)") (simp_all add: pop_ristretto_handle_def pop_arg_as_def get_point_handle_from_struct_def)

lemma pop_scalar_eq:
  "args \<noteq> [] \<Longrightarrow> pop_scalar_from_bytes V L args =
     map_ok (\<lambda>s. (s, butlast args)) (bind_ok (val_bytes V (last args)) (scalar_from_valid_bytes L))"
  by (cases "val_bytes V (last args)") (simp_all add: pop_scalar_from_bytes_def pop_arg_as_def)

text \<open>Two mutable references exist exactly for two different allocated handles.\<close>

lemma get_two_muts_eq:
  "get_two_muts s a b =
     (if a \<noteq> b \<and> get_point s a \<noteq> None \<and> get_point s b \<noteq> None then Some (unat a, unat b) else None)"
proof -
  have "a < b \<longleftrightarrow> unat a < unat b" "a = b \<longleftrightarrow> unat a = unat b"
    by (simp_all add: word_less_nat_alt word_unat_eq_iff)
  then show ?thesis by (auto simp: get_two_muts_def get_point_def Let_def)
qed

lemma deref_get_point: "get_point s h = Some pt \<Longrightarrow> deref s (unat h) = pt"
  by (simp add: deref_def get_point_def split: if_splits)

lemma assign_set_point: "get_point s h = Some pt' \<Longrightarrow> set_point s h pt = Some (assign s (unat h) pt)"
  by (simp add: assign_def set_point_def get_point_def split: if_splits)

lemma get_point_mut_eq: "get_point_mut s h = map_option (\<lambda>_. unat h) (get_point s h)"
  by (simp add: get_point_mut_def get_point_def)

lemma parse_points_eq:
  "convert_all (\<lambda>i. bind_ok (borrow_elem V r i ty) (get_point_handle_from_struct V)) is = Ok hs \<Longrightarrow>
   parse_points V s r ty is = map_option Ok (sequence_opt (map (get_point s) hs))"
proof (induction "is" arbitrary: hs)
  case (Cons i "is")
  from Cons.prems obtain h hs' where h: "bind_ok (borrow_elem V r i ty) (get_point_handle_from_struct V) = Ok h"
    "convert_all (\<lambda>i. bind_ok (borrow_elem V r i ty) (get_point_handle_from_struct V)) is = Ok hs'" "hs = h # hs'"
    by (auto simp: result_rules)
  with Cons.IH[OF h(2)] show ?case
    by (cases "get_point s h"; cases "sequence_opt (map (get_point s) hs')") simp_all
qed simp

lemmas point_native_defs = run_point_native_def native_point_identity_def native_point_is_canonical_def native_point_decompress_def
  native_point_compress_def native_point_mul_def native_point_equals_def native_point_neg_def native_point_add_def
  native_point_sub_def native_basepoint_mul_def native_basepoint_double_mul_def native_new_point_from_sha512_def
  native_new_point_from_64_uniform_bytes_def native_multi_scalar_mul_def

definition cmd_result :: "u64 \<Rightarrow> ('v list \<times> 'pt point_store) option \<Rightarrow> ('v, 'pt) point_outcome" where
  "cmd_result cost r = map_option (\<lambda>(vs, s). (native_ok cost vs, s)) r"

lemma return_new_step:
  "return_new V cost s pt = cmd_result cost (Some ([u64_val V (fst (add_point s pt))], snd (add_point s pt)))"
  by (simp add: return_new_def cmd_result_def split: prod.split)

lemma length_args: "length args = Suc n \<longleftrightarrow> (\<exists>v vs. args = v # vs \<and> length vs = n)"
  by (rule length_Suc_conv)

lemma unary_step:
  "cmd_result cost (pstore.arena_step (unary_cmd V in_place h f) s) =
    (if \<not> in_place then do { pt \<leftarrow> get_point s h; return_new V cost s (f pt) }
     else do { r \<leftarrow> get_point_mut s h; Some (native_ok cost [u64_val V h], assign s r (f (deref s r))) })"
  by (cases "get_point s h")
    (simp_all add: unary_cmd_def cmd_result_def return_new_step get_point_mut_eq deref_get_point assign_set_point)

lemma binary_step:
  "cmd_result cost (pstore.arena_step (binary_cmd V in_place a b f) s) =
    (if \<not> in_place then do { x \<leftarrow> get_point s a; y \<leftarrow> get_point s b; return_new V cost s (f x y) }
     else do { (x, y) \<leftarrow> get_two_muts s a b; Some (native_ok cost [u64_val V a], assign s x (f (deref s x) (deref s y))) })"
  by (cases "get_point s a"; cases "get_point s b")
    (auto simp: binary_cmd_def cmd_result_def return_new_step get_two_muts_eq deref_get_point assign_set_point)

lemma in_place_neg:
  "do { r \<leftarrow> get_point_mut s h; s' \<leftarrow> set_point s h (f (deref s r)); Some (x, s') } =
   do { r \<leftarrow> get_point_mut s h; Some (x, assign s r (f (deref s r))) }"
  by (cases "get_point s h") (simp_all add: get_point_mut_eq assign_set_point)

lemma native_is_command:
  assumes "point_cmd_of F q p V L native ty_args args = Some (cost, cmd)"
  shows "run_point_native F q p V L native ty_args args s = cmd_result cost (pstore.arena_step cmd s)"
proof (cases native)
  case Multi_Scalar_Mul
  with assms show ?thesis
    by (auto simp: point_cmd_of_def point_native_defs numeral_2_eq_2 length_args bind_eq_Some_conv result_rules
        parse_points_eq return_new_step cmd_result_def Let_def split: if_splits option.splits bind_splits)
next
  case Point_Decompress
  with assms obtain v bs where a: "ty_args = []" "args = [v]" "val_bytes V v = Ok bs"
    by (auto simp: point_cmd_of_def length_args bind_eq_Some_conv result_rules split: if_splits)
  obtain r c where "decompress_maybe_non_canonical_point_bytes q p L 0 bs = (r, c)" by fastforce
  with assms Point_Decompress a show ?thesis
    by (cases r) (auto simp: point_cmd_of_def point_native_defs cmd_result_def split: prod.splits)
next
  case Point_Neg
  with assms show ?thesis
    by (auto simp: point_cmd_of_def point_native_defs numeral_2_eq_2 length_args bind_eq_Some_conv result_rules Let_def
        handle_of_def pop_handle_eq unary_step in_place_neg split: if_splits)
next
  case Point_Mul
  with assms show ?thesis
    by (auto simp: point_cmd_of_def point_native_defs numeral_3_eq_3 length_args bind_eq_Some_conv result_rules Let_def
        handle_of_def scalar_of_def pop_handle_eq pop_scalar_eq unary_step split: if_splits)
next
  case Point_Add
  with assms show ?thesis
    by (auto simp: point_cmd_of_def point_native_defs numeral_3_eq_3 length_args bind_eq_Some_conv result_rules Let_def
        handle_of_def pop_handle_eq binary_step split: if_splits)
next
  case Point_Sub
  with assms show ?thesis
    by (auto simp: point_cmd_of_def point_native_defs numeral_3_eq_3 length_args bind_eq_Some_conv result_rules Let_def
        handle_of_def pop_handle_eq binary_step split: if_splits)
qed (use assms in \<open>auto simp: point_cmd_of_def point_native_defs numeral_2_eq_2 numeral_3_eq_3 length_args bind_eq_Some_conv result_rules
        handle_of_def scalar_of_def pop_handle_eq pop_scalar_eq pop_64_byte_slice_def pop_slice_def
        return_new_step cmd_result_def Let_def case_prod_beta split: if_splits option.splits bind_splits\<close>)


lemma point_cmd_ok: "point_cmd_of F q p V L native ty_args args = Some (cost, cmd) \<Longrightarrow> pstore.cmd_ok cmd"
  by (cases native) (auto simp: point_cmd_of_def pstore.cmd_ok_def unary_cmd_def binary_cmd_def bind_eq_Some_conv
      case_prod_beta Let_def split: if_splits option.splits)

text \<open>One call and one command, with the store read as a heap.\<close>

lemma native_refines_step:
  assumes c: "point_cmd_of F q p V L native ty_args args = Some (cost, cmd)" and r: "store_room s"
  shows "map_option (\<lambda>(r, s'). (r, heap_of s')) (run_point_native F q p V L native ty_args args s) =
     map_option (\<lambda>(vs, H). (native_ok cost vs, H)) (heap_step cmd (heap_of s))"
proof -
  have "map_option (\<lambda>(r, s'). (r, heap_of s')) (cmd_result cost (pstore.arena_step cmd s)) =
      map_option (\<lambda>(vs, H). (native_ok cost vs, H)) (map_option (\<lambda>(vs, s'). (vs, heap_of s')) (pstore.arena_step cmd s))"
    by (cases "pstore.arena_step cmd s") (auto simp: cmd_result_def)
  then show ?thesis unfolding native_is_command[OF c] pstore.arena_step_refines[OF r point_cmd_ok[OF c]] .
qed

lemma step_grows:
  "pstore.arena_step cmd s = Some (vs, s') \<Longrightarrow> length (points s') \<le> Suc (length (points s))"
  by (cases cmd) (auto simp: bind_eq_Some_conv add_point_def dest: get_point_set split: if_splits)

lemma run_grows:
  assumes "point_cmd_of F q p V L native ty_args args = Some (cost, cmd)"
    "run_point_native F q p V L native ty_args args s = Some (r, s')"
  shows "length (points s') \<le> Suc (length (points s)) \<and> (\<exists>vs. r = native_ok cost vs)"
  using assms(2) native_is_command[OF assms(1), of s] by (auto simp: cmd_result_def dest: step_grows)

section \<open>Properties\<close>

definition decodes_to ::
  "'f f64_ops \<Rightarrow> gas_ops \<Rightarrow> params \<Rightarrow> ('v, 'st, 'a, 'sr, 'rf, 'vr, 'ty) ref_ops \<Rightarrow> ('pt, 'sc) ristretto_lib \<Rightarrow>
   (point_native \<times> 'ty list \<times> 'v list) list \<Rightarrow> (u64 \<times> ('pt, 'v) point_cmd) list \<Rightarrow> bool" where
  "decodes_to F q p V L calls cmds \<longleftrightarrow>
     map (\<lambda>(native, ty_args, args). point_cmd_of F q p V L native ty_args args) calls = map Some cmds"

lemma decodes_to_Cons:
  "decodes_to F q p V L ((native, ty_args, args) # calls) cmds \<longleftrightarrow>
     (\<exists>cost cmd rest. cmds = (cost, cmd) # rest \<and> point_cmd_of F q p V L native ty_args args = Some (cost, cmd) \<and>
        decodes_to F q p V L calls rest)"
  by (cases cmds) (auto simp: decodes_to_def)

lemma decodes_to_Nil: "decodes_to F q p V L [] cmds \<longleftrightarrow> cmds = []"
  by (auto simp: decodes_to_def)

lemma point_run_refines:
  assumes "decodes_to F q p V L calls cmds" and "length (points s) + length calls \<le> 2 ^ 64"
  shows "map_option (\<lambda>(outs, s'). (outs, heap_of s')) (point_run F q p V L calls s) =
     map_option (\<lambda>(outs, H). (Ok outs, H)) (heap_run cmds (heap_of s))"
  using assms
proof (induction calls arbitrary: s cmds)
  case Nil then show ?case by (simp add: decodes_to_Nil)
next
  case (Cons call calls)
  obtain native ty_args args where call: "call = (native, ty_args, args)" by (cases call)
  with Cons.prems obtain cost cmd rest where d: "cmds = (cost, cmd) # rest"
    "point_cmd_of F q p V L native ty_args args = Some (cost, cmd)" "decodes_to F q p V L calls rest"
    by (auto simp: decodes_to_Cons)
  have room: "store_room s" using Cons.prems(2) by (simp add: store_room_def)
  note st = native_refines_step[OF d(2) room]
  show ?case
  proof (cases "run_point_native F q p V L native ty_args args s")
    case None with st d show ?thesis by (simp add: call)
  next
    case (Some rs)
    then obtain vs s' where rs: "rs = (native_ok cost vs, s')" and g: "length (points s') \<le> Suc (length (points s))"
      using run_grows[OF d(2)] by (cases rs) blast
    with st Some have "heap_step cmd (heap_of s) = Some (vs, heap_of s')" by (cases "heap_step cmd (heap_of s)") auto
    moreover have "map_option (\<lambda>(outs, s'). (outs, heap_of s')) (point_run F q p V L calls s') =
        map_option (\<lambda>(outs, H). (Ok outs, H)) (heap_run rest (heap_of s'))"
      using Cons.IH[OF d(3), of s'] Cons.prems(2) g by simp
    ultimately show ?thesis using Some rs d(1)
      by (cases "point_run F q p V L calls s'"; cases "heap_run rest (heap_of s')") (auto simp: call)
  qed
qed

text \<open>
  C7. The point natives implement a heap of points: on every sequence of calls whose arguments have the right
  types, the run on the point store has the same costs, return values and panics as the run of the
  corresponding commands on an abstract heap, and leaves a store that represents the heap left there.  In
  particular a call panics exactly if a handle is dangling, or a point is to be added to itself in place.
\<close>

theorem point_natives_implement_heap:
  assumes "decodes_to F q p V L calls cmds" and "length (points s) + length calls \<le> 2 ^ 64"
  shows "map_option (\<lambda>(outs, s'). (outs, heap_of s')) (point_run F q p V L calls s) =
     map_option (\<lambda>(outs, H). (Ok outs, H)) (heap_run cmds (heap_of s))"
  using assms by (rule point_run_refines)

fun overwritten :: "('pt, 'v) point_cmd \<Rightarrow> u64 set" where
  "overwritten (In_Place hs f ret) = {hd hs}"
| "overwritten _ = {}"

fun allocates :: "('pt, 'v) point_cmd \<Rightarrow> nat" where
  "allocates (Fresh hs f ret) = 1"
| "allocates _ = 0"

lemma step_frame:
  assumes "pstore.arena_step cmd s = Some (vs, s')"
  shows "length (points s') = length (points s) + allocates cmd \<and>
    (get_point s h \<noteq> None \<longrightarrow> h \<notin> overwritten cmd \<longrightarrow> get_point s' h = get_point s h)"
proof (cases cmd)
  case (Fresh hs f ret) with assms show ?thesis
    by (auto simp: bind_eq_Some_conv add_point_def get_point_def nth_append split: if_splits)
next
  case (In_Place hs f ret) with assms show ?thesis
    by (auto simp: bind_eq_Some_conv dest!: get_point_set split: if_splits)
next
  case (Query hs f) with assms show ?thesis by (auto simp: bind_eq_Some_conv)
qed

text \<open>
  Handles never alias: a run of point natives adds exactly one point per allocating call, each at the next
  unused handle, and a point whose handle is not overwritten in place keeps its value whatever else is
  computed.
\<close>

theorem point_handles_stable:
  assumes "decodes_to F q p V L calls cmds" and "point_run F q p V L calls s = Some (r, s')"
    and "get_point s h = Some pt" and "h \<notin> (\<Union>(_, cmd) \<in> set cmds. overwritten cmd)"
  shows "get_point s' h = Some pt \<and> length (points s') = length (points s) + sum_list (map (\<lambda>(_, cmd). allocates cmd) cmds) \<and> is_ok r"
  using assms
proof (induction calls arbitrary: s cmds r)
  case Nil then show ?case by (auto simp: decodes_to_Nil)
next
  case (Cons call calls)
  obtain native ty_args args where call: "call = (native, ty_args, args)" by (cases call)
  with Cons.prems(1) obtain cost cmd rest where d: "cmds = (cost, cmd) # rest"
    "point_cmd_of F q p V L native ty_args args = Some (cost, cmd)" "decodes_to F q p V L calls rest"
    by (auto simp: decodes_to_Cons)
  from Cons.prems(2) native_is_command[OF d(2)] obtain vs s1 r1 where a: "pstore.arena_step cmd s = Some (vs, s1)"
    and r: "point_run F q p V L calls s1 = Some (r1, s')" "r = map_ok ((#) (cost, Ok vs)) r1"
    by (auto simp: call cmd_result_def bind_eq_Some_conv)
  from step_frame[OF a, of h] Cons.prems(3,4) d(1) have "get_point s1 h = Some pt" by auto
  from Cons.IH[OF d(3) r(1) this] Cons.prems(4) step_frame[OF a] r(2) d(1) show ?case by auto
qed

text \<open>
  A multi-scalar multiplication of one point divides by the binary logarithm of one: with the division, rounding
  and conversion of IEEE numbers the weight is the largest number, so the charge saturates.
\<close>

lemma single_msm_saturates:
  assumes q: "gas_ops_ok q" and pos: "p ''ristretto255.point_mul'' \<noteq> 0"
    and f: "f64_log2 F (f64_of_usize F 1) = f64_of_usize F 0"
      "f64_as_u64 F (f64_ceil F (f64_div F (f64_of_usize F 1) (f64_of_usize F 0))) = - 1"
    and v: "val_vector_ref V sv = Ok sr" "vector_len V sr (ty_args ! 1) = Ok len" "val_u64 V len = Ok 1"
    and c: "point_cmd_of F q p V L Multi_Scalar_Mul ty_args [pv, sv] = Some (cost, cmd)"
  shows "unat cost = MAX_U64"
proof -
  have "unat (p ''ristretto255.point_mul'') \<ge> 1" using pos by (simp add: Suc_le_eq unat_gt_0)
  moreover have "unat (- 1 :: u64) = MAX_U64" by (simp add: MAX_U64_def unsigned_minus_1_eq_mask mask_eq_exp_minus_1)
  ultimately have "unat (gq_mul q (p ''ristretto255.point_mul'') (- 1)) = MAX_U64"
    using q by (simp add: gas_arith)
  with c v f q show ?thesis
    by (auto simp: point_cmd_of_def bind_eq_Some_conv msm_weight_def gas_arith min.absorb2 split: if_splits)
qed

section \<open>Witnesses\<close>

text \<open>The integers as a group, with structs as lists of their fields and references as values.\<close>

definition demo_refs ::
  "(native_value, native_value list, nat, native_value list, native_value, native_value list, unit) ref_ops" where
  "demo_refs = val_ops.extend demo_vals (ref_ops.fields
     (\<lambda>v. case v of NStruct x \<Rightarrow> Ok x | _ \<Rightarrow> Err internal_type_error) Ok
     (\<lambda>v. case v of NVector x \<Rightarrow> Ok x | _ \<Rightarrow> Err internal_type_error)
     (\<lambda>fs i. if i < length fs then Ok (fs ! i) else Err internal_type_error) Ok
     (\<lambda>xs _. Ok (NU64 (of_nat (length xs)))) (\<lambda>xs i _. if i < length xs then Ok (xs ! i) else Err internal_type_error))"

definition demo_group :: "(int, int) ristretto_lib" where
  "demo_group =
     \<lparr>ris_identity = 0, ris_decompress = (\<lambda>bs. case bs of [] \<Rightarrow> None | b # _ \<Rightarrow> Some (uint b)), ris_compress = (\<lambda>_. []),
      ris_mul = (*), ris_eq = (=), ris_neg = uminus, ris_add = (+), ris_sub = (-), ris_basepoint_mul = (\<lambda>a. a),
      ris_double_mul = (\<lambda>a A b. a * A + b), ris_hash_sha512 = (\<lambda>bs. int (length bs)),
      ris_from_uniform_bytes = (\<lambda>bs. int (length bs)), ris_multiscalar_mul = (\<lambda>as As. sum_list (map2 (*) as As)),
      sc_from_bits = (\<lambda>bs. uint (hd bs)), sc_from_canonical_bytes = (\<lambda>bs. Some (uint (hd bs))),
      sc_from_bytes_mod_order = (\<lambda>bs. uint (hd bs)), sc_from_bytes_mod_order_wide = (\<lambda>bs. uint (hd bs)),
      sc_hash_sha512 = (\<lambda>bs. int (length bs)), sc_from_u64 = uint, sc_from_u128 = uint, sc_invert = (\<lambda>a. a),
      sc_mul = (*), sc_add = (+), sc_sub = (-), sc_neg = uminus, sc_to_bytes = (\<lambda>_. [])\<rparr>"

definition demo_f64 :: "nat f64_ops" where
  "demo_f64 = \<lparr>f64_of_usize = (\<lambda>n. n), f64_log2 = (\<lambda>n. n), f64_div = (div), f64_ceil = (\<lambda>n. n), f64_as_u64 = of_nat\<rparr>"

text \<open>Two multiples of the base point, the second added to the first in place, and a comparison of the two.\<close>

definition demo_point_calls :: "(point_native \<times> unit list \<times> native_value list) list" where
  "demo_point_calls =
     [(Basepoint_Mul, [], [NBytes (7 # replicate 31 0)]), (Basepoint_Mul, [], [NBytes (5 # replicate 31 0)]),
      (Point_Add, [], [NStruct [NU64 0], NStruct [NU64 1], NBool True]), (Point_Equals, [], [NStruct [NU64 0], NStruct [NU64 1]])]"

definition demo_point_cmds :: "(u64 \<times> (int, native_value) point_cmd) list" where
  "demo_point_cmds =
     [(gq_mul sat_ops 3 1, Fresh [] (\<lambda>_. 7) (\<lambda>r. [NU64 r])), (gq_mul sat_ops 3 1, Fresh [] (\<lambda>_. 5) (\<lambda>r. [NU64 r])),
      (gq_mul sat_ops 3 1, In_Place [0, 1] (\<lambda>pts. pts ! 0 + pts ! 1) [NU64 0]),
      (gq_mul sat_ops 3 1, Query [0, 1] (\<lambda>pts. [NBool (pts ! 0 = pts ! 1)]))]"

lemma demo_calls_decode: "decodes_to demo_f64 sat_ops (\<lambda>_. 3) demo_refs demo_group demo_point_calls demo_point_cmds"
  by (simp add: decodes_to_def demo_point_calls_def demo_point_cmds_def point_cmd_of_def demo_refs_def val_ops.defs ref_ops.defs
      demo_vals_def demo_group_def scalar_of_def scalar_from_valid_bytes_def handle_of_def get_point_handle_from_struct_def
      get_point_handle_def POINT_HANDLE_FIELD_INDEX_def binary_cmd_def fun_eq_iff)

theorem point_natives_implement_heap_witness:
  "\<exists>outs s'. point_run demo_f64 sat_ops (\<lambda>_. 3) demo_refs demo_group demo_point_calls point_store_new = Some (Ok outs, s') \<and>
     map (ok \<circ> snd) outs = [Some [NU64 0], Some [NU64 1], Some [NU64 0], Some [NBool False]] \<and>
     get_point s' 0 = Some 12 \<and> get_point s' 1 = Some 5"
  using point_natives_implement_heap[OF demo_calls_decode, of point_store_new]
  by (cases "point_run demo_f64 sat_ops (\<lambda>_. 3) demo_refs demo_group demo_point_calls point_store_new")
    (auto simp: demo_point_calls_def demo_point_cmds_def point_store_new_def heap_of_def heap_add_def heap_set_def fun_eq_iff)

theorem point_handles_stable_witness:
  "\<exists>r s'. point_run demo_f64 sat_ops (\<lambda>_. 3) demo_refs demo_group demo_point_calls \<lparr>points = [1, 1, 9]\<rparr> = Some (r, s') \<and>
     get_point s' 2 = Some 9 \<and> length (points s') = 5"
proof -
  let ?s = "\<lparr>points = [1, 1, 9]\<rparr> :: int point_store"
  have "heap_run demo_point_cmds (heap_of ?s) \<noteq> None"
    by (simp add: demo_point_cmds_def heap_of_def heap_add_def heap_set_def get_point_def)
  with point_run_refines[OF demo_calls_decode, of ?s]
  obtain r s' where run: "point_run demo_f64 sat_ops (\<lambda>_. 3) demo_refs demo_group demo_point_calls ?s = Some (r, s')"
    by (cases "point_run demo_f64 sat_ops (\<lambda>_. 3) demo_refs demo_group demo_point_calls ?s") (auto simp: demo_point_calls_def)
  have h: "get_point ?s 2 = Some 9" by (simp add: get_point_def)
  have "2 \<notin> (\<Union>(_, cmd) \<in> set demo_point_cmds. overwritten cmd)" by (simp add: demo_point_cmds_def)
  from point_handles_stable[OF demo_calls_decode run h this] run show ?thesis by (auto simp: demo_point_cmds_def)
qed

end
