(* ===== verification/Native_Table.thy ===== *)
theory Native_Table
  imports Signature_Natives Ristretto
begin

text \<open>
  The table of native functions: which names the framework registers (\<open>make_all\<close> of each file of
  \<^verbatim>\<open>framework/src/natives\<close>, \<open>all_natives\<close> in \<^verbatim>\<open>mod.rs\<close>) and how \<^verbatim>\<open>aptos-vm/src/natives.rs\<close> puts them
  together with the natives of the external libraries.  A native function is represented by a label; the
  labels stand for the definitions of the same names in the theories \<open>Natives\<close>, \<open>Signature_Natives\<close>,
  \<open>Ristretto\<close>, \<open>Code_Publish\<close> and \<open>Agg_Natives\<close>.
\<close>

section \<open>Definitions\<close>

datatype scalar_native = Scalar_Is_Canonical | Scalar_Invert | Scalar_From_Sha512 | Scalar_Mul | Scalar_Add | Scalar_Sub
  | Scalar_Neg | Scalar_From_U64 | Scalar_From_U128 | Scalar_Reduced_From_32_Bytes | Scalar_Uniform_From_64_Bytes

datatype bls_native = Aggregate_Pubkeys | Aggregate_Signatures | Signature_Subgroup_Check | Validate_Pubkey
  | Verify_Aggregate_Signature | Verify_Multisignature | Verify_Normal_Signature | Verify_Proof_Of_Possession
  | Verify_Signature_Share

datatype framework_native =
    Create_Address | Create_Signer
  | Public_Key_Validate | Signature_Verify_Strict | Multi_Public_Key_Validate | Multi_Signature_Verify_Strict
  | Bls bls_native | Ecdsa_Recover | Sip_Hash | Keccak256
  | Point point_native | Scalar scalar_native
  | Type_Of | Type_Name | From_Bytes | Get_Script_Hash | Request_Publish | Write_To_Event_Store | Get_Usage
  | Aggregator_Add | Aggregator_Read | Aggregator_Sub | Aggregator_Destroy | New_Aggregator

type_synonym module_natives = "(string \<times> framework_native) list"

definition make_module_natives :: "(string \<times> 'n) list \<Rightarrow> (string \<times> 'n) list" where
  "make_module_natives fns = map (\<lambda>(func_name, func). (func_name, func)) fns"

definition account_make_all :: module_natives where
  "account_make_all = make_module_natives [(''create_address'', Create_Address), (''create_signer'', Create_Signer)]"

definition ed25519_make_all :: module_natives where
  "ed25519_make_all = make_module_natives
     [(''public_key_validate_internal'', Public_Key_Validate), (''signature_verify_strict_internal'', Signature_Verify_Strict)]"

definition multi_ed25519_make_all :: module_natives where
  "multi_ed25519_make_all = make_module_natives
     [(''public_key_validate_internal'', Multi_Public_Key_Validate),
      (''signature_verify_strict_internal'', Multi_Signature_Verify_Strict)]"

definition bls12381_make_all :: module_natives where
  "bls12381_make_all = make_module_natives
     [(''aggregate_pubkeys_internal'', Bls Aggregate_Pubkeys),
      (''aggregate_signatures_internal'', Bls Aggregate_Signatures),
      (''signature_subgroup_check_internal'', Bls Signature_Subgroup_Check),
      (''validate_pubkey_internal'', Bls Validate_Pubkey),
      (''verify_aggregate_signature_internal'', Bls Verify_Aggregate_Signature),
      (''verify_multisignature_internal'', Bls Verify_Multisignature),
      (''verify_normal_signature_internal'', Bls Verify_Normal_Signature),
      (''verify_proof_of_possession_internal'', Bls Verify_Proof_Of_Possession),
      (''verify_signature_share_internal'', Bls Verify_Signature_Share)]"

definition secp256k1_make_all :: module_natives where
  "secp256k1_make_all = make_module_natives [(''ecdsa_recover_internal'', Ecdsa_Recover)]"

definition hash_make_all :: module_natives where
  "hash_make_all = make_module_natives [(''sip_hash'', Sip_Hash), (''keccak256'', Keccak256)]"

definition ristretto255_make_all :: module_natives where
  "ristretto255_make_all = make_module_natives
     [(''point_is_canonical_internal'', Point Point_Is_Canonical),
      (''point_identity_internal'', Point Point_Identity),
      (''point_decompress_internal'', Point Point_Decompress),
      (''point_compress_internal'', Point Point_Compress),
      (''point_mul_internal'', Point Point_Mul),
      (''point_equals'', Point Point_Equals),
      (''point_neg_internal'', Point Point_Neg),
      (''point_add_internal'', Point Point_Add),
      (''point_sub_internal'', Point Point_Sub),
      (''basepoint_mul_internal'', Point Basepoint_Mul),
      (''basepoint_double_mul_internal'', Point Basepoint_Double_Mul),
      (''new_point_from_sha512_internal'', Point New_Point_From_Sha512),
      (''new_point_from_64_uniform_bytes_internal'', Point New_Point_From_64_Uniform_Bytes),
      (''multi_scalar_mul_internal'', Point Multi_Scalar_Mul),
      (''scalar_is_canonical_internal'', Scalar Scalar_Is_Canonical),
      (''scalar_invert_internal'', Scalar Scalar_Invert),
      (''scalar_from_sha512_internal'', Scalar Scalar_From_Sha512),
      (''scalar_mul_internal'', Scalar Scalar_Mul),
      (''scalar_add_internal'', Scalar Scalar_Add),
      (''scalar_sub_internal'', Scalar Scalar_Sub),
      (''scalar_neg_internal'', Scalar Scalar_Neg),
      (''scalar_from_u64_internal'', Scalar Scalar_From_U64),
      (''scalar_from_u128_internal'', Scalar Scalar_From_U128),
      (''scalar_reduced_from_32_bytes_internal'', Scalar Scalar_Reduced_From_32_Bytes),
      (''scalar_uniform_from_64_bytes_internal'', Scalar Scalar_Uniform_From_64_Bytes)]"

definition type_info_make_all :: module_natives where
  "type_info_make_all = make_module_natives [(''type_of'', Type_Of), (''type_name'', Type_Name)]"

definition util_make_all :: module_natives where
  "util_make_all = make_module_natives [(''from_bytes'', From_Bytes)]"

definition transaction_context_make_all :: module_natives where
  "transaction_context_make_all = make_module_natives [(''get_script_hash'', Get_Script_Hash)]"

definition code_make_all :: module_natives where
  "code_make_all = make_module_natives
     [(''request_publish'', Request_Publish), (''request_publish_with_allowed_deps'', Request_Publish)]"

definition event_make_all :: module_natives where
  "event_make_all = make_module_natives [(''write_to_event_store'', Write_To_Event_Store)]"

definition state_storage_make_all :: module_natives where
  "state_storage_make_all = make_module_natives [(''get_state_storage_usage_only_at_epoch_beginning'', Get_Usage)]"

definition aggregator_make_all :: module_natives where
  "aggregator_make_all = make_module_natives
     [(''add'', Aggregator_Add), (''read'', Aggregator_Read), (''sub'', Aggregator_Sub), (''destroy'', Aggregator_Destroy)]"

definition aggregator_factory_make_all :: module_natives where
  "aggregator_factory_make_all = make_module_natives [(''new_aggregator'', New_Aggregator)]"

text \<open>A table has rows of address, module, function and native; \<open>make_table_from_iter\<close> is external.\<close>

type_synonym ('a, 'n) native_table = "('a \<times> string \<times> string \<times> 'n) list"

definition add_natives_from_module :: "string \<Rightarrow> (string \<times> 'n) list \<Rightarrow> (string \<times> string \<times> 'n) list \<Rightarrow> (string \<times> string \<times> 'n) list" where
  "add_natives_from_module module_name ns acc =
     acc @ map (\<lambda>(func_name, func). (module_name, func_name, func)) ns"

definition all_natives :: "('a \<Rightarrow> (string \<times> string \<times> framework_native) list \<Rightarrow> ('a, framework_native) native_table) \<Rightarrow> 'a \<Rightarrow> ('a, framework_native) native_table" where
  "all_natives make_table_from_iter framework_addr =
     (let acc = [];
          acc = add_natives_from_module ''account'' account_make_all acc;
          acc = add_natives_from_module ''ed25519'' ed25519_make_all acc;
          acc = add_natives_from_module ''genesis'' account_make_all acc;
          acc = add_natives_from_module ''multi_ed25519'' multi_ed25519_make_all acc;
          acc = add_natives_from_module ''bls12381'' bls12381_make_all acc;
          acc = add_natives_from_module ''secp256k1'' secp256k1_make_all acc;
          acc = add_natives_from_module ''aptos_hash'' hash_make_all acc;
          acc = add_natives_from_module ''ristretto255'' ristretto255_make_all acc;
          acc = add_natives_from_module ''type_info'' type_info_make_all acc;
          acc = add_natives_from_module ''util'' util_make_all acc;
          acc = add_natives_from_module ''from_bcs'' util_make_all acc;
          acc = add_natives_from_module ''transaction_context'' transaction_context_make_all acc;
          acc = add_natives_from_module ''code'' code_make_all acc;
          acc = add_natives_from_module ''event'' event_make_all acc;
          acc = add_natives_from_module ''state_storage'' state_storage_make_all acc;
          acc = add_natives_from_module ''aggregator'' aggregator_make_all acc;
          acc = add_natives_from_module ''aggregator_factory'' aggregator_factory_make_all acc
      in make_table_from_iter framework_addr acc)"

definition patch_table_module :: "('a, 'n) native_table \<Rightarrow> ('a, 'n) native_table" where
  "patch_table_module table = map (\<lambda>(m, _, f, i). (m, ''table'', f, i)) table"

definition natives_gas_zeros :: params where
  "natives_gas_zeros = (\<lambda>_. 0)"

text \<open>The libraries provide the standard, table and nursery natives.\<close>

record ('a, 'n) native_libs =
  make_table_from_iter :: "'a \<Rightarrow> (string \<times> string \<times> 'n) list \<Rightarrow> ('a, 'n) native_table"
  stdlib_natives :: "'a \<Rightarrow> ('a, 'n) native_table"
  table_natives :: "'a \<Rightarrow> ('a, 'n) native_table"
  nursery_natives :: "'a \<Rightarrow> ('a, 'n) native_table"

definition aptos_natives :: "('a, framework_native) native_libs \<Rightarrow> 'a \<Rightarrow> ('a, framework_native) native_table" where
  "aptos_natives N CORE_CODE_ADDRESS =
     filter (\<lambda>(_, name, _, _). name \<noteq> ''vector'') (stdlib_natives N CORE_CODE_ADDRESS) @
     all_natives (make_table_from_iter N) CORE_CODE_ADDRESS @
     table_natives N CORE_CODE_ADDRESS @
     filter (\<lambda>(addr, module_name, _, _). \<not> (addr = CORE_CODE_ADDRESS \<and> module_name = ''event''))
       (nursery_natives N CORE_CODE_ADDRESS)"

text \<open>The assertion at start-up; \<open>None\<close> if it fails.\<close>

definition assert_no_test_natives :: "('a, framework_native) native_libs \<Rightarrow> 'a \<Rightarrow> unit option" where
  "assert_no_test_natives N core =
     (if list_all (\<lambda>(_, module_name, func_name, _). module_name \<noteq> ''unit_test'' \<and> func_name \<noteq> ''create_signers_for_testing'')
           (aptos_natives N core)
      then Some () else None)"

section \<open>Lemmas\<close>

lemmas make_all_defs = account_make_all_def ed25519_make_all_def multi_ed25519_make_all_def bls12381_make_all_def secp256k1_make_all_def
  hash_make_all_def ristretto255_make_all_def type_info_make_all_def util_make_all_def transaction_context_make_all_def
  code_make_all_def event_make_all_def state_storage_make_all_def aggregator_make_all_def aggregator_factory_make_all_def

definition row_name :: "'a \<times> string \<times> string \<times> 'n \<Rightarrow> string \<times> string" where
  "row_name row = (case row of (_, m, f, _) \<Rightarrow> (m, f))"

text \<open>The law of \<open>make_table_from_iter\<close>: one row per native, under the given address.\<close>

definition plain_table :: "'a \<Rightarrow> (string \<times> string \<times> 'n) list \<Rightarrow> ('a, 'n) native_table" where
  "plain_table addr fns = map (\<lambda>(m, f, n). (addr, m, f, n)) fns"

definition framework_names :: "(string \<times> string) list" where
  "framework_names = map row_name (all_natives plain_table ())"

lemma framework_names_distinct: "distinct framework_names"
  by code_simp

lemma framework_names_no_test:
  "list_all (\<lambda>(m, f). m \<noteq> ''unit_test'' \<and> f \<noteq> ''create_signers_for_testing'') framework_names"
  by code_simp

lemma map_row_name: "map row_name (all_natives plain_table core) = framework_names"
  by (simp add: framework_names_def all_natives_def plain_table_def Let_def row_name_def case_prod_beta comp_def)

lemma filter_distinct_key: "distinct (map g xs) \<Longrightarrow> x \<in> set xs \<Longrightarrow> filter (\<lambda>y. g y = g x) xs = [x]"
proof (induction xs)
  case (Cons y xs)
  then show ?case
    by (cases "x = y") (auto simp: image_iff intro!: filter_False)
qed simp

definition is_test_native :: "'a \<times> string \<times> string \<times> 'n \<Rightarrow> bool" where
  "is_test_native row \<longleftrightarrow> fst (row_name row) = ''unit_test'' \<or> snd (row_name row) = ''create_signers_for_testing''"

lemma framework_no_test: "r \<in> set (all_natives plain_table core) \<Longrightarrow> \<not> is_test_native r"
  using framework_names_no_test unfolding map_row_name[symmetric, of core] by (auto simp: list_all_iff is_test_native_def)

section \<open>Property\<close>

text \<open>
  The specification: the native functions that the Move sources of the framework declare (under
  \<^verbatim>\<open>framework/aptos-framework/sources\<close> and \<^verbatim>\<open>framework/aptos-stdlib/sources\<close>), file by file, each with the
  native that has to implement it.  The natives of \<^verbatim>\<open>table.move\<close> and \<^verbatim>\<open>debug.move\<close> come from the libraries.
\<close>

definition declared_natives :: "(string \<times> string \<times> framework_native) list" where
  "declared_natives =
     map (\<lambda>(f, n). (''account'', f, n)) [(''create_signer'', Create_Signer)] @
     map (\<lambda>(f, n). (''genesis'', f, n)) [(''create_signer'', Create_Signer)] @
     map (\<lambda>(f, n). (''code'', f, n))
       [(''request_publish'', Request_Publish), (''request_publish_with_allowed_deps'', Request_Publish)] @
     map (\<lambda>(f, n). (''util'', f, n)) [(''from_bytes'', From_Bytes)] @
     map (\<lambda>(f, n). (''transaction_context'', f, n)) [(''get_script_hash'', Get_Script_Hash)] @
     map (\<lambda>(f, n). (''state_storage'', f, n)) [(''get_state_storage_usage_only_at_epoch_beginning'', Get_Usage)] @
     map (\<lambda>(f, n). (''aggregator'', f, n))
       [(''add'', Aggregator_Add), (''sub'', Aggregator_Sub), (''read'', Aggregator_Read), (''destroy'', Aggregator_Destroy)] @
     map (\<lambda>(f, n). (''aggregator_factory'', f, n)) [(''new_aggregator'', New_Aggregator)] @
     map (\<lambda>(f, n). (''event'', f, n)) [(''write_to_event_store'', Write_To_Event_Store)] @
     map (\<lambda>(f, n). (''type_info'', f, n)) [(''type_of'', Type_Of), (''type_name'', Type_Name)] @
     map (\<lambda>(f, n). (''from_bcs'', f, n)) [(''from_bytes'', From_Bytes)] @
     map (\<lambda>(f, n). (''aptos_hash'', f, n)) [(''sip_hash'', Sip_Hash), (''keccak256'', Keccak256)] @
     map (\<lambda>(f, n). (''ed25519'', f, n))
       [(''public_key_validate_internal'', Public_Key_Validate), (''signature_verify_strict_internal'', Signature_Verify_Strict)] @
     map (\<lambda>(f, n). (''ristretto255'', f, Point n))
       [(''point_equals'', Point_Equals), (''new_point_from_sha512_internal'', New_Point_From_Sha512),
        (''new_point_from_64_uniform_bytes_internal'', New_Point_From_64_Uniform_Bytes),
        (''point_is_canonical_internal'', Point_Is_Canonical), (''point_identity_internal'', Point_Identity),
        (''point_decompress_internal'', Point_Decompress), (''point_compress_internal'', Point_Compress),
        (''point_mul_internal'', Point_Mul), (''basepoint_mul_internal'', Basepoint_Mul),
        (''basepoint_double_mul_internal'', Basepoint_Double_Mul), (''point_add_internal'', Point_Add),
        (''point_sub_internal'', Point_Sub), (''point_neg_internal'', Point_Neg), (''multi_scalar_mul_internal'', Multi_Scalar_Mul)] @
     map (\<lambda>(f, n). (''ristretto255'', f, Scalar n))
       [(''scalar_is_canonical_internal'', Scalar_Is_Canonical), (''scalar_from_u64_internal'', Scalar_From_U64),
        (''scalar_from_u128_internal'', Scalar_From_U128), (''scalar_reduced_from_32_bytes_internal'', Scalar_Reduced_From_32_Bytes),
        (''scalar_uniform_from_64_bytes_internal'', Scalar_Uniform_From_64_Bytes), (''scalar_invert_internal'', Scalar_Invert),
        (''scalar_from_sha512_internal'', Scalar_From_Sha512), (''scalar_mul_internal'', Scalar_Mul),
        (''scalar_add_internal'', Scalar_Add), (''scalar_sub_internal'', Scalar_Sub), (''scalar_neg_internal'', Scalar_Neg)] @
     map (\<lambda>(f, n). (''secp256k1'', f, n)) [(''ecdsa_recover_internal'', Ecdsa_Recover)] @
     map (\<lambda>(f, n). (''bls12381'', f, Bls n))
       [(''aggregate_pubkeys_internal'', Aggregate_Pubkeys), (''aggregate_signatures_internal'', Aggregate_Signatures),
        (''validate_pubkey_internal'', Validate_Pubkey), (''signature_subgroup_check_internal'', Signature_Subgroup_Check),
        (''verify_aggregate_signature_internal'', Verify_Aggregate_Signature), (''verify_multisignature_internal'', Verify_Multisignature),
        (''verify_normal_signature_internal'', Verify_Normal_Signature),
        (''verify_proof_of_possession_internal'', Verify_Proof_Of_Possession), (''verify_signature_share_internal'', Verify_Signature_Share)] @
     map (\<lambda>(f, n). (''multi_ed25519'', f, n))
       [(''public_key_validate_internal'', Multi_Public_Key_Validate), (''signature_verify_strict_internal'', Multi_Signature_Verify_Strict)]"

definition declared_names :: "(string \<times> string) set" where
  "declared_names = set (map (\<lambda>(m, f, _). (m, f)) declared_natives)"

lemma declared_registered: "list_all (\<lambda>(m, f, n). ((), m, f, n) \<in> set (all_natives plain_table ())) declared_natives"
  by code_simp

lemma registered_declared:
  "list_all (\<lambda>(_, m, f, n). (m, f, n) \<in> set declared_natives \<or> (m, f) \<in> {(''account'', ''create_address''), (''genesis'', ''create_address'')})
     (all_natives plain_table ())"
  by code_simp

text \<open>The rows do not depend on the address.\<close>

lemma all_natives_address: "all_natives plain_table core = map (\<lambda>(_, m, f, n). (core, m, f, n)) (all_natives plain_table ())"
  by (simp add: all_natives_def plain_table_def Let_def case_prod_beta comp_def)

lemma declared_row: "(m, f, n) \<in> set declared_natives \<Longrightarrow> (core, m, f, n) \<in> set (all_natives plain_table core)"
  unfolding all_natives_address[of core] using declared_registered by (force simp: list_all_iff)

lemma declared_row_once:
  assumes "(m, f, n) \<in> set declared_natives"
  shows "filter (\<lambda>r. row_name r = (m, f)) (all_natives plain_table core) = [(core, m, f, n)]"
proof -
  have "filter (\<lambda>r. row_name r = row_name (core, m, f, n)) (all_natives plain_table core) = [(core, m, f, n)]"
    using framework_names_distinct declared_row[OF assms] by (intro filter_distinct_key) (simp_all add: map_row_name)
  then show ?thesis by (simp add: row_name_def)
qed


definition demo_native_libs :: "(nat, framework_native) native_libs" where
  "demo_native_libs =
     \<lparr>make_table_from_iter = plain_table,
      stdlib_natives = (\<lambda>a. [(a, ''vector'', ''length'', Type_Of), (a, ''unit_test'', ''run'', Type_Of)]),
      table_natives = (\<lambda>a. [(a, ''table'', ''add_box'', Type_Of)]),
      nursery_natives = (\<lambda>a. [(a, ''event'', ''write_to_event_store'', Type_Of)])\<rparr>"


end
