(* ===== verification/Release.thy ===== *)
theory Release
  imports Natives "HOL-Library.Product_Lexorder"
begin

text \<open>
  Release bundles, from \<^verbatim>\<open>framework/src/release_bundle.rs\<close>: packages with their code and metadata, the
  modules of a bundle, and the order in which the modules of a package are published.  The order comes
  from a depth-first search without marks for modules in progress, which does not return on cyclic
  dependencies: it is modelled with fuel, and the main result is that it returns exactly for acyclic
  packages, with every module listed once and after the modules it depends on.  Deserialization of
  modules is external.
\<close>

section \<open>Definitions\<close>

record module_metadata =
  mm_name :: bytes
  mm_source :: bytes
  mm_source_map :: bytes
  mm_extension :: "any move_option"

record 'a package_dep =
  pd_account :: 'a
  pd_package_name :: bytes

record 'a package_metadata =
  pm_name :: bytes
  pm_upgrade_policy :: upgrade_policy
  pm_upgrade_number :: u64
  pm_source_digest :: bytes
  pm_manifest :: bytes
  pm_modules :: "module_metadata list"
  pm_deps :: "'a package_dep list"
  pm_extension :: "any move_option"

record 'a release_package =
  rp_metadata :: "'a package_metadata"
  rp_code :: "bytes list"

record 'a release_bundle =
  rb_packages :: "'a release_package list"
  rb_source_dirs :: "string list"

definition release_bundle_new :: "'a release_package list \<Rightarrow> string list \<Rightarrow> 'a release_bundle" where
  "release_bundle_new packages source_dirs = \<lparr>rb_packages = packages, rb_source_dirs = source_dirs\<rparr>"

definition bundle_code :: "'a release_bundle \<Rightarrow> bytes list" where
  "bundle_code self = foldl (\<lambda>result pack. result @ rp_code pack) [] (rb_packages self)"

text \<open>Deserialization is unwrapped.\<close>

definition unwrap_module :: "('cm, 'a) module_ops \<Rightarrow> bytes \<Rightarrow> (bytes \<times> 'cm) option" where
  "unwrap_module M bc = map_option (\<lambda>m. (bc, m)) (ok (module_deserialize M bc))"

definition code_and_compiled_modules :: "('cm, 'a) module_ops \<Rightarrow> 'a release_bundle \<Rightarrow> (bytes \<times> 'cm) list option" where
  "code_and_compiled_modules M self = sequence_opt (map (unwrap_module M) (bundle_code self))"

definition compiled_modules :: "('cm, 'a) module_ops \<Rightarrow> 'a release_bundle \<Rightarrow> 'cm list option" where
  "compiled_modules M self = map_option (map snd) (code_and_compiled_modules M self)"

definition compiled_module_at ::
  "('cm, 'a) module_ops \<Rightarrow> 'a release_package \<Rightarrow> nat \<Rightarrow> ('cm, partial_vm_error) result option" where
  "compiled_module_at M self idx = (if idx < length (rp_code self) then Some (module_deserialize M (rp_code self ! idx)) else None)"

text \<open>
  \<open>sort_by_deps\<close> with the map given by its lookup of dependencies, and its loop over the dependencies;
  \<open>None\<close> means that it panics or has not returned within the fuel.
\<close>

fun sort_by_deps :: "nat \<Rightarrow> ('i \<Rightarrow> 'i list option) \<Rightarrow> 'i list \<Rightarrow> 'i \<Rightarrow> 'i list option"
  and sort_deps :: "nat \<Rightarrow> ('i \<Rightarrow> 'i list option) \<Rightarrow> 'i list \<Rightarrow> 'i list \<Rightarrow> 'i list option" where
  "sort_by_deps 0 deps order i = None"
| "sort_by_deps (Suc n) deps order i =
     (if i \<in> set order then Some order
      else do { ds \<leftarrow> deps i; order \<leftarrow> sort_deps n deps ds order; Some (order @ [i]) })"
| "sort_deps n deps [] order = Some order"
| "sort_deps n deps (d # ds) order =
     (if deps d \<noteq> None then do { order \<leftarrow> sort_by_deps n deps order d; sort_deps n deps ds order }
      else sort_deps n deps ds order)"

fun sort_all :: "nat \<Rightarrow> ('i \<Rightarrow> 'i list option) \<Rightarrow> 'i list \<Rightarrow> 'i list \<Rightarrow> 'i list option" where
  "sort_all n deps [] order = Some order"
| "sort_all n deps (i # is) order = do { order \<leftarrow> sort_by_deps n deps order i; sort_all n deps is order }"

fun take_modules :: "'i::linorder list \<Rightarrow> ('i, 'x) btree \<Rightarrow> 'x list option" where
  "take_modules [] m = Some []"
| "take_modules (i # is) m = do { x \<leftarrow> map_of m i; xs \<leftarrow> take_modules is (bt_remove i m); Some (x # xs) }"

definition module_map :: "('cm, 'a::linorder) module_ops \<Rightarrow> (bytes \<times> 'cm) list \<Rightarrow> ('a \<times> bytes, bytes \<times> 'cm) btree" where
  "module_map M cms = bt_collect (map (\<lambda>(c, m). (self_id M m, (c, m))) cms) []"

definition module_deps :: "('cm, 'a) module_ops \<Rightarrow> ('a \<times> bytes, bytes \<times> 'cm) btree \<Rightarrow> 'a \<times> bytes \<Rightarrow> ('a \<times> bytes) list option" where
  "module_deps M m i = map_option (\<lambda>(_, compiled). immediate_dependencies M compiled) (map_of m i)"

definition sorted_code_and_modules ::
  "nat \<Rightarrow> ('cm, 'a::linorder) module_ops \<Rightarrow> 'a release_package \<Rightarrow> (bytes \<times> 'cm) list option" where
  "sorted_code_and_modules n M self =
     do { cms \<leftarrow> sequence_opt (map (unwrap_module M) (rp_code self));
          let m = module_map M cms;
          order \<leftarrow> sort_all n (module_deps M m) (map fst m) [];
          take_modules order m }"

text \<open>The metadata of an upgrade proposal in three pieces, as the generated script appends them.\<close>

definition metadata_chunks :: "bytes \<Rightarrow> bytes \<times> bytes \<times> bytes" where
  "metadata_chunks metadata =
     (let chunk_size = length metadata div 3;
          (chunk1, metadata) = (take chunk_size metadata, drop chunk_size metadata);
          (chunk2, metadata) = (take chunk_size metadata, drop chunk_size metadata);
          (chunk3, metadata) = (take (length metadata) metadata, drop (length metadata) metadata)
      in (chunk1, chunk2, chunk3))"

lemma metadata_chunks_append: "metadata_chunks md = (c1, c2, c3) \<Longrightarrow> c1 @ c2 @ c3 = md"
  by (auto simp: metadata_chunks_def Let_def simp flip: drop_drop)

lemma bundle_code_concat: "bundle_code self = concat (map rp_code (rb_packages self))"
proof -
  have "foldl (\<lambda>result pack. result @ rp_code pack) acc packs = acc @ concat (map rp_code packs)" for acc and packs :: "'a release_package list"
    by (induction packs arbitrary: acc) simp_all
  then show ?thesis by (simp add: bundle_code_def)
qed

section \<open>The search\<close>

text \<open>A dependency within the package, and listing every module after its dependencies.\<close>

definition dep_rel :: "('i \<Rightarrow> 'i list option) \<Rightarrow> ('i \<times> 'i) set" where
  "dep_rel deps = {(d, i). \<exists>ds. deps i = Some ds \<and> d \<in> set ds \<and> deps d \<noteq> None}"

definition topological :: "('i \<Rightarrow> 'i list option) \<Rightarrow> 'i list \<Rightarrow> bool" where
  "topological deps order \<longleftrightarrow> (\<forall>xs i ys. order = xs @ i # ys \<longrightarrow> (\<forall>d. (d, i) \<in> dep_rel deps \<longrightarrow> d \<in> set xs))"

lemma topological_Nil [simp]: "topological deps []"
  by (simp add: topological_def)

lemma topological_snoc:
  "topological deps (order @ [i]) \<longleftrightarrow> topological deps order \<and> (\<forall>d. (d, i) \<in> dep_rel deps \<longrightarrow> d \<in> set order)"
proof
  assume t: "topological deps (order @ [i])"
  have "topological deps order" unfolding topological_def
  proof (intro allI impI)
    fix xs j ys d assume "order = xs @ j # ys" "(d, j) \<in> dep_rel deps"
    with t show "d \<in> set xs" unfolding topological_def by (elim allE[of _ xs] allE[of _ j] allE[of _ "ys @ [i]"]) simp
  qed
  with t show "topological deps order \<and> (\<forall>d. (d, i) \<in> dep_rel deps \<longrightarrow> d \<in> set order)"
    unfolding topological_def by auto
next
  assume t: "topological deps order \<and> (\<forall>d. (d, i) \<in> dep_rel deps \<longrightarrow> d \<in> set order)"
  show "topological deps (order @ [i])" unfolding topological_def
  proof (intro allI impI)
    fix xs j ys d assume e: "order @ [i] = xs @ j # ys" and d: "(d, j) \<in> dep_rel deps"
    show "d \<in> set xs"
    proof (cases ys rule: rev_cases)
      case Nil with e d t show ?thesis by auto
    next
      case (snoc zs z) with e have "order = xs @ j # zs" by simp
      with t d show ?thesis unfolding topological_def by blast
    qed
  qed
qed

text \<open>What a finished search has done: it only appends, lists the module and its dependencies, and only modules below it.\<close>

lemma sort_spec:
  "sort_by_deps n deps order i = Some order' \<Longrightarrow> topological deps order \<Longrightarrow>
     topological deps order' \<and> i \<in> set order' \<and> (\<exists>new. order' = order @ new \<and> (\<forall>j \<in> set new. (j, i) \<in> (dep_rel deps)\<^sup>*))"
  "sort_deps n deps ds order = Some order' \<Longrightarrow> topological deps order \<Longrightarrow>
     topological deps order' \<and> (\<forall>d \<in> set ds. deps d \<noteq> None \<longrightarrow> d \<in> set order') \<and>
     (\<exists>new. order' = order @ new \<and> (\<forall>j \<in> set new. \<exists>d \<in> set ds. deps d \<noteq> None \<and> (j, d) \<in> (dep_rel deps)\<^sup>*))"
proof (induction n deps order i and n deps ds order arbitrary: order' and order' rule: sort_by_deps_sort_deps.induct)
  case (2 n deps order i)
  show ?case
  proof (cases "i \<in> set order")
    case True with 2 show ?thesis by auto
  next
    case False
    with "2.prems" obtain ds order1 where d: "deps i = Some ds" "sort_deps n deps ds order = Some order1" "order' = order1 @ [i]"
      by (auto simp: bind_eq_Some_conv)
    from "2.IH"[OF False d(1) d(2) "2.prems"(2)] obtain new where ih: "topological deps order1"
      "\<forall>d \<in> set ds. deps d \<noteq> None \<longrightarrow> d \<in> set order1" "order1 = order @ new"
      "\<forall>j \<in> set new. \<exists>d \<in> set ds. deps d \<noteq> None \<and> (j, d) \<in> (dep_rel deps)\<^sup>*" by blast
    have r: "(d', i) \<in> dep_rel deps" if "d' \<in> set ds" "deps d' \<noteq> None" for d'
      using that d(1) by (simp add: dep_rel_def)
    have "(j, i) \<in> (dep_rel deps)\<^sup>*" if "j \<in> set (new @ [i])" for j
      using that ih(4) r by (auto intro: rtrancl.rtrancl_into_rtrancl)
    moreover have "topological deps order'"
      using ih(1,2) d(1,3) by (auto simp: topological_snoc dep_rel_def)
    moreover have "order' = order @ (new @ [i])" using ih(3) d(3) by simp
    ultimately show ?thesis by (intro conjI exI[of _ "new @ [i]"]) auto
  qed
next
  case (4 n deps d ds order)
  show ?case
  proof (cases "deps d = None")
    case True with 4 show ?thesis by auto
  next
    case False
    with "4.prems" obtain order1 where s: "sort_by_deps n deps order d = Some order1" "sort_deps n deps ds order1 = Some order'"
      by (auto simp: bind_eq_Some_conv)
    from "4.IH"(1)[OF False s(1) "4.prems"(2)] obtain new1 where 1: "topological deps order1" "d \<in> set order1"
      "order1 = order @ new1" "\<forall>j \<in> set new1. (j, d) \<in> (dep_rel deps)\<^sup>*" by blast
    from "4.IH"(2)[OF False s(1) s(2) 1(1)] obtain new2 where 2: "topological deps order'"
      "\<forall>d \<in> set ds. deps d \<noteq> None \<longrightarrow> d \<in> set order'" "order' = order1 @ new2"
      "\<forall>j \<in> set new2. \<exists>d \<in> set ds. deps d \<noteq> None \<and> (j, d) \<in> (dep_rel deps)\<^sup>*" by blast
    have "order' = order @ (new1 @ new2)" using 1(3) 2(3) by simp
    moreover have "\<exists>d' \<in> set (d # ds). deps d' \<noteq> None \<and> (j, d') \<in> (dep_rel deps)\<^sup>*" if "j \<in> set (new1 @ new2)" for j
      using that 1(4) 2(4) False by auto
    ultimately show ?thesis using 1 2 by auto
  qed
qed auto

text \<open>Acyclic dependencies list no module twice.\<close>

lemma sort_distinct:
  "sort_by_deps n deps order i = Some order' \<Longrightarrow> topological deps order \<Longrightarrow> acyclic (dep_rel deps) \<Longrightarrow> distinct order \<Longrightarrow>
     distinct order'"
  "sort_deps n deps ds order = Some order' \<Longrightarrow> topological deps order \<Longrightarrow> acyclic (dep_rel deps) \<Longrightarrow> distinct order \<Longrightarrow>
     distinct order'"
proof (induction n deps order i and n deps ds order arbitrary: order' and order' rule: sort_by_deps_sort_deps.induct)
  case (2 n deps order i)
  show ?case
  proof (cases "i \<in> set order")
    case True with 2 show ?thesis by auto
  next
    case False
    with "2.prems" obtain ds order1 where d: "deps i = Some ds" "sort_deps n deps ds order = Some order1" "order' = order1 @ [i]"
      by (auto simp: bind_eq_Some_conv)
    have "i \<notin> set order1"
    proof
      assume "i \<in> set order1"
      moreover obtain new where "order1 = order @ new"
        "\<forall>j \<in> set new. \<exists>d' \<in> set ds. deps d' \<noteq> None \<and> (j, d') \<in> (dep_rel deps)\<^sup>*"
        using sort_spec(2)[OF d(2) "2.prems"(2)] by blast
      ultimately obtain d' where d': "d' \<in> set ds" "deps d' \<noteq> None" "(i, d') \<in> (dep_rel deps)\<^sup>*"
        using False by auto
      then have "(d', i) \<in> dep_rel deps" using d(1) by (simp add: dep_rel_def)
      with d'(3) have "(i, i) \<in> (dep_rel deps)\<^sup>+" by (rule rtrancl_into_trancl1)
      with "2.prems"(3) show False by (simp add: acyclic_def)
    qed
    with "2.IH"[OF False d(1,2) "2.prems"(2-4)] d(3) show ?thesis by simp
  qed
next
  case (4 n deps d ds order)
  show ?case
  proof (cases "deps d = None")
    case True with 4 show ?thesis by auto
  next
    case False
    with "4.prems" obtain order1 where s: "sort_by_deps n deps order d = Some order1" "sort_deps n deps ds order1 = Some order'"
      by (auto simp: bind_eq_Some_conv)
    from sort_spec(1)[OF s(1) "4.prems"(2)] have "topological deps order1" by simp
    with "4.IH"(2)[OF False s] "4.IH"(1)[OF False s(1)] "4.prems" show ?thesis by simp
  qed
qed auto

text \<open>The loop over the keys of the map.\<close>

lemma sort_all_spec:
  "sort_all n deps is order = Some order' \<Longrightarrow> topological deps order \<Longrightarrow>
     topological deps order' \<and> set is \<subseteq> set order' \<and> set order \<subseteq> set order' \<and>
     (acyclic (dep_rel deps) \<longrightarrow> distinct order \<longrightarrow> distinct order')"
proof (induction "is" arbitrary: order)
  case (Cons i "is")
  from Cons.prems(1) obtain order1 where s: "sort_by_deps n deps order i = Some order1" "sort_all n deps is order1 = Some order'"
    by (auto simp: bind_eq_Some_conv)
  have t: "topological deps order1" "i \<in> set order1" "set order \<subseteq> set order1"
    using sort_spec(1)[OF s(1) Cons.prems(2)] by auto
  have "acyclic (dep_rel deps) \<longrightarrow> distinct order \<longrightarrow> distinct order1"
    using sort_distinct(1)[OF s(1) Cons.prems(2)] by blast
  with Cons.IH[OF s(2) t(1)] t show ?case by auto
qed simp

text \<open>Only modules of the package are listed.\<close>

lemma sort_within:
  "sort_by_deps n deps order i = Some order' \<Longrightarrow> set order \<subseteq> dom deps \<Longrightarrow> set order' \<subseteq> dom deps"
  "sort_deps n deps ds order = Some order' \<Longrightarrow> set order \<subseteq> dom deps \<Longrightarrow> set order' \<subseteq> dom deps"
  by (induction n deps order i and n deps ds order arbitrary: order' and order' rule: sort_by_deps_sort_deps.induct)
    (fastforce simp: bind_eq_Some_conv split: if_splits)+

lemma sort_all_within:
  "sort_all n deps is order = Some order' \<Longrightarrow> set order \<subseteq> dom deps \<Longrightarrow> set order' \<subseteq> dom deps"
proof (induction "is" arbitrary: order)
  case (Cons i "is")
  from Cons.prems(1) obtain order1 where s: "sort_by_deps n deps order i = Some order1" "sort_all n deps is order1 = Some order'"
    by (auto simp: bind_eq_Some_conv)
  show ?case by (rule Cons.IH[OF s(2) sort_within(1)[OF s(1) Cons.prems(2)]])
qed simp

text \<open>Listing every module after its dependencies is only possible for acyclic dependencies.\<close>

lemma topological_acyclic:
  assumes "topological deps order" "dom deps \<subseteq> set order"
  shows "acyclic (dep_rel deps)"
proof -
  define rank where "rank = (\<lambda>i. length (takeWhile (\<lambda>j. j \<noteq> i) order))"
  have "dep_rel deps \<subseteq> measure rank"
  proof (clarify)
    fix d i assume r: "(d, i) \<in> dep_rel deps"
    then have "i \<in> set order" using assms(2) by (auto simp: dep_rel_def)
    then obtain xs ys where o: "order = xs @ i # ys" "i \<notin> set xs" by (meson split_list_first)
    with assms(1) r have "d \<in> set xs" unfolding topological_def by blast
    then obtain us vs where u: "xs = us @ d # vs" "d \<notin> set us" by (meson split_list_first)
    have "takeWhile (\<lambda>j. j \<noteq> i) order = xs" using o by (subst o(1), subst takeWhile_append2) auto
    moreover have "takeWhile (\<lambda>j. j \<noteq> d) order = us" using u o(1) by (subst o(1), subst u(1)) (auto simp: takeWhile_append)
    ultimately show "(d, i) \<in> measure rank" using u by (simp add: rank_def)
  qed
  then show ?thesis by (meson acyclic_subset wf_acyclic wf_measure)
qed

text \<open>Conversely, for acyclic dependencies the depth of the search is at most the number of modules.\<close>

definition below :: "('i \<Rightarrow> 'i list option) \<Rightarrow> 'i \<Rightarrow> 'i set" where
  "below deps i = {j. (j, i) \<in> (dep_rel deps)\<^sup>*}"

lemma below_within: "i \<in> dom deps \<Longrightarrow> below deps i \<subseteq> dom deps"
proof
  fix j assume i: "i \<in> dom deps" "j \<in> below deps i"
  then have "(j, i) \<in> (dep_rel deps)\<^sup>*" by (simp add: below_def)
  then show "j \<in> dom deps" using i(1) by (cases rule: converse_rtranclE) (auto simp: dep_rel_def)
qed

lemma below_dep:
  assumes "acyclic (dep_rel deps)" "finite (dom deps)" "(d, i) \<in> dep_rel deps"
  shows "card (below deps d) < card (below deps i)"
proof (rule psubset_card_mono)
  have "i \<in> dom deps" using assms(3) by (auto simp: dep_rel_def)
  then show "finite (below deps i)" by (rule finite_subset[OF below_within assms(2)])
  have "i \<notin> below deps d" using assms(1,3) by (auto simp: below_def acyclic_def dest: rtrancl_into_trancl1)
  moreover have "i \<in> below deps i" by (simp add: below_def)
  moreover have "below deps d \<subseteq> below deps i" using assms(3) by (auto simp: below_def intro: rtrancl.rtrancl_into_rtrancl)
  ultimately show "below deps d \<subset> below deps i" by blast
qed

lemma sort_deps_total:
  assumes "\<And>d order. d \<in> set ds \<Longrightarrow> deps d \<noteq> None \<Longrightarrow> sort_by_deps n deps order d \<noteq> None"
  shows "sort_deps n deps ds order \<noteq> None"
  using assms
proof (induction ds arbitrary: order)
  case (Cons d ds)
  show ?case
  proof (cases "deps d = None")
    case False
    then obtain order1 where "sort_by_deps n deps order d = Some order1" using Cons.prems[of d order] by auto
    with Cons.IH[of order1] Cons.prems False show ?thesis by simp
  qed (use Cons in simp)
qed simp

lemma sort_total:
  assumes "acyclic (dep_rel deps)" "finite (dom deps)"
  shows "deps i \<noteq> None \<Longrightarrow> card (below deps i) \<le> n \<Longrightarrow> sort_by_deps n deps order i \<noteq> None"
proof (induction n arbitrary: i order)
  case 0
  have "finite (below deps i)" using below_within[of i deps] 0(1) assms(2) by (auto intro: finite_subset)
  moreover have "i \<in> below deps i" by (simp add: below_def)
  ultimately show ?case using 0(2) by auto
next
  case (Suc n)
  then obtain ds where d: "deps i = Some ds" by blast
  have "sort_deps n deps ds order \<noteq> None"
  proof (rule sort_deps_total)
    fix d' o' assume "d' \<in> set ds" "deps d' \<noteq> None"
    then have "card (below deps d') < card (below deps i)" using below_dep[OF assms] d by (auto simp: dep_rel_def)
    with Suc.IH Suc.prems(2) \<open>deps d' \<noteq> None\<close> show "sort_by_deps n deps o' d' \<noteq> None" by simp
  qed
  with d show ?case by auto
qed

lemma sort_all_total:
  assumes "acyclic (dep_rel deps)" "finite (dom deps)" "card (dom deps) \<le> n" "set is \<subseteq> dom deps"
  shows "sort_all n deps is order \<noteq> None"
  using assms(4)
proof (induction "is" arbitrary: order)
  case (Cons i "is")
  then have "card (below deps i) \<le> n" using below_within[of i deps] assms(2,3) card_mono[of "dom deps" "below deps i"] by auto
  then obtain order1 where "sort_by_deps n deps order i = Some order1"
    using sort_total[OF assms(1,2), of i n order] Cons.prems by auto
  with Cons.IH[of order1] Cons.prems show ?case by simp
qed simp

section \<open>The order of publication\<close>

lemma take_modules_listed:
  "distinct is \<Longrightarrow> set is \<subseteq> dom (map_of m) \<Longrightarrow> take_modules is m = Some (map (\<lambda>i. the (map_of m i)) is)"
proof (induction "is" arbitrary: m)
  case (Cons i "is")
  then have "take_modules is (bt_remove i m) = Some (map (\<lambda>j. the (map_of (bt_remove i m) j)) is)"
    by (intro Cons.IH) (auto simp: map_of_bt_remove)
  moreover have "map (\<lambda>j. the (map_of (bt_remove i m) j)) is = map (\<lambda>j. the (map_of m j)) is"
    using Cons.prems(1) by (auto simp: map_of_bt_remove)
  ultimately show ?case using Cons.prems(2) by auto
qed simp

lemma module_map_entries:
  "dom (map_of (module_map M cms)) = (self_id M \<circ> snd) ` set cms"
  "map_of (module_map M cms) i = Some x \<Longrightarrow> x \<in> set cms \<and> self_id M (snd x) = i"
  by (auto simp: module_map_def map_of_bt_collect dom_map_of_conv_image_fst image_image case_prod_unfold dest!: map_of_SomeD)

lemma dom_module_deps: "dom (module_deps M m) = dom (map_of m)"
  by (auto simp: module_deps_def dom_def)

lemma sequence_opt_length: "sequence_opt xs = Some ys \<Longrightarrow> length ys = length xs"
  by (induction xs arbitrary: ys) (auto simp: bind_eq_Some_conv)

lemma sorted_code_steps:
  assumes "sequence_opt (map (unwrap_module M) (rp_code self)) = Some cms"
  shows "sorted_code_and_modules n M self = Some ms \<longleftrightarrow>
    (\<exists>order. sort_all n (module_deps M (module_map M cms)) (map fst (module_map M cms)) [] = Some order \<and>
             take_modules order (module_map M cms) = Some ms)"
  using assms by (simp add: sorted_code_and_modules_def Let_def bind_eq_Some_conv)

lemma sort_modules_listed:
  assumes "sort_all n (module_deps M m) (map fst m) [] = Some order"
  shows "topological (module_deps M m) order" "acyclic (dep_rel (module_deps M m))" "distinct order" "set order = dom (map_of m)"
proof -
  from sort_all_spec[OF assms] have t: "topological (module_deps M m) order" "set (map fst m) \<subseteq> set order"
    "acyclic (dep_rel (module_deps M m)) \<longrightarrow> distinct order" by simp_all
  show "topological (module_deps M m) order" by (fact t)
  have d: "dom (map_of m) \<subseteq> set order" using t(2) by (simp add: dom_map_of_conv_image_fst)
  with topological_acyclic[OF t(1)] show "acyclic (dep_rel (module_deps M m))" by (simp add: dom_module_deps)
  with t(3) show "distinct order" by blast
  show "set order = dom (map_of m)" using d sort_all_within[OF assms] by (simp add: dom_module_deps subset_antisym)
qed

text \<open>What a finished ordering lists.\<close>

lemma sorted_code_listed:
  assumes "sequence_opt (map (unwrap_module M) (rp_code self)) = Some cms"
    and "sorted_code_and_modules n M self = Some ms"
  shows "set ms \<subseteq> set cms" "distinct (map (self_id M \<circ> snd) ms)" "(self_id M \<circ> snd) ` set ms = (self_id M \<circ> snd) ` set cms"
    "topological (module_deps M (module_map M cms)) (map (self_id M \<circ> snd) ms)"
    "acyclic (dep_rel (module_deps M (module_map M cms)))"
    "\<And>x. x \<in> set ms \<Longrightarrow> map_of (module_map M cms) (self_id M (snd x)) = Some x"
proof -
  let ?m = "module_map M cms"
  from assms sorted_code_steps[OF assms(1)] obtain order where
    o: "sort_all n (module_deps M ?m) (map fst ?m) [] = Some order" "take_modules order ?m = Some ms" by auto
  note l = sort_modules_listed[OF o(1)]
  have ms: "ms = map (\<lambda>i. the (map_of ?m i)) order" using take_modules_listed[OF l(3), of ?m] l(4) o(2) by simp
  have x: "map_of ?m i = Some (the (map_of ?m i)) \<and> the (map_of ?m i) \<in> set cms \<and> self_id M (snd (the (map_of ?m i))) = i"
    if "i \<in> set order" for i
    using that l(4) module_map_entries(2)[of M cms i] by auto
  then have ids: "map (self_id M \<circ> snd) ms = order" by (simp add: ms map_idI)
  then have "(self_id M \<circ> snd) ` set ms = set order" by (metis set_map)
  then show "(self_id M \<circ> snd) ` set ms = (self_id M \<circ> snd) ` set cms" using l(4) module_map_entries(1)[of M cms] by simp
  show "set ms \<subseteq> set cms" using x by (auto simp only: ms set_map)
  show "distinct (map (self_id M \<circ> snd) ms)" "topological (module_deps M ?m) (map (self_id M \<circ> snd) ms)"
    "acyclic (dep_rel (module_deps M ?m))"
    unfolding ids using l(1,2,3) by simp_all
  show "map_of ?m (self_id M (snd y)) = Some y" if "y \<in> set ms" for y
  proof -
    from that obtain i where i: "i \<in> set order" "y = the (map_of ?m i)" by (auto simp: ms)
    with x[OF i(1)] show ?thesis by metis
  qed
qed

lemma sorted_code_total:
  assumes "sequence_opt (map (unwrap_module M) (rp_code self)) = Some cms"
    and a: "acyclic (dep_rel (module_deps M (module_map M cms)))" and k: "length (rp_code self) \<le> k"
  shows "sorted_code_and_modules k M self \<noteq> None"
proof -
  let ?m = "module_map M cms" and ?deps = "module_deps M (module_map M cms)"
  have fin: "finite (dom ?deps)" "card (dom ?deps) \<le> length cms"
    unfolding dom_module_deps module_map_entries(1) by (auto intro: le_trans[OF card_image_le card_length])
  have "length cms = length (rp_code self)" using sequence_opt_length[OF assms(1)] by simp
  then obtain order where o: "sort_all k ?deps (map fst ?m) [] = Some order"
    using sort_all_total[OF a fin(1), of k "map fst ?m" "[]"] fin(2) k by (auto simp: dom_module_deps dom_map_of_conv_image_fst)
  note l = sort_modules_listed[OF o]
  have "take_modules order ?m \<noteq> None" using take_modules_listed[OF l(3), of ?m] l(4) by simp
  with o sorted_code_steps[OF assms(1)] show ?thesis by auto
qed

text \<open>
  C11. The modules of a package, if all of them deserialize, are ordered for publication exactly when their dependencies within the
  package are acyclic: then a search as deep as the package has module files returns, without the
  panic of an absent module, and on cyclic dependencies the search returns for no depth.  The result
  holds one of the given modules for every module identifier, no identifier twice, and every module
  comes after the modules of the package that it depends on.
\<close>

theorem package_order_topological:
  assumes "sequence_opt (map (unwrap_module M) (rp_code self)) = Some cms"
    and "deps = module_deps M (module_map M cms)"
  shows "((\<exists>n. sorted_code_and_modules n M self \<noteq> None) \<longleftrightarrow> acyclic (dep_rel deps)) \<and>
    (acyclic (dep_rel deps) \<and> length (rp_code self) \<le> n \<longrightarrow> sorted_code_and_modules n M self \<noteq> None) \<and>
    (sorted_code_and_modules n M self = Some ms \<longrightarrow>
       set ms \<subseteq> set cms \<and> distinct (map (self_id M \<circ> snd) ms) \<and>
       (self_id M \<circ> snd) ` set ms = (self_id M \<circ> snd) ` set cms \<and>
       topological deps (map (self_id M \<circ> snd) ms))"
proof (intro conjI impI)
  show "(\<exists>n. sorted_code_and_modules n M self \<noteq> None) \<longleftrightarrow> acyclic (dep_rel deps)"
    unfolding assms(2) using sorted_code_listed(5)[OF assms(1)] sorted_code_total[OF assms(1) _ order_refl] by blast
  show "sorted_code_and_modules n M self \<noteq> None" if "acyclic (dep_rel deps) \<and> length (rp_code self) \<le> n"
    using that sorted_code_total[OF assms(1)] by (simp add: assms(2))
  assume s: "sorted_code_and_modules n M self = Some ms"
  show "set ms \<subseteq> set cms" "distinct (map (self_id M \<circ> snd) ms)" "(self_id M \<circ> snd) ` set ms = (self_id M \<circ> snd) ` set cms"
    "topological deps (map (self_id M \<circ> snd) ms)"
    unfolding assms(2) by (fact sorted_code_listed[OF assms(1) s])+
qed

definition demo_release_modules :: "(bytes, nat) module_ops" where
  "demo_release_modules =
     \<lparr>function_defs = (\<lambda>_. []), module_deserialize = Ok, self_id = (\<lambda>m. (1, take 1 m)),
      immediate_dependencies = (\<lambda>m. map (\<lambda>b. (1, [b])) (drop 1 m)), show_module_id = (\<lambda>_. [])\<rparr>"

definition demo_package_metadata :: "nat package_metadata" where
  "demo_package_metadata =
     \<lparr>pm_name = [], pm_upgrade_policy = policy_arbitrary, pm_upgrade_number = 0, pm_source_digest = [], pm_manifest = [],
      pm_modules = [], pm_deps = [], pm_extension = move_option_none\<rparr>"

theorem package_order_topological_witness:
  "acyclic (dep_rel (module_deps demo_release_modules (module_map demo_release_modules [([1, 2], [1, 2]), ([2, 7], [2, 7])]))) \<and>
   sorted_code_and_modules 2 demo_release_modules \<lparr>rp_metadata = demo_package_metadata, rp_code = [[1, 2], [2, 7]]\<rparr> =
     Some [([2, 7], [2, 7]), ([1, 2], [1, 2])] \<and>
   \<not> acyclic (dep_rel (module_deps demo_release_modules (module_map demo_release_modules [([1, 2], [1, 2]), ([2, 1], [2, 1])]))) \<and>
   sorted_code_and_modules 9 demo_release_modules \<lparr>rp_metadata = demo_package_metadata, rp_code = [[1, 2], [2, 1]]\<rparr> = None"
proof -
  have run: "sorted_code_and_modules 2 demo_release_modules \<lparr>rp_metadata = demo_package_metadata, rp_code = [[1, 2], [2, 7]]\<rparr> =
     Some [([2, 7], [2, 7]), ([1, 2], [1, 2])]" by code_simp
  have cyc: "\<not> acyclic (dep_rel (module_deps demo_release_modules (module_map demo_release_modules [([1, 2], [1, 2]), ([2, 1], [2, 1])])))"
  proof -
    let ?r = "dep_rel (module_deps demo_release_modules (module_map demo_release_modules [([1, 2], [1, 2]), ([2, 1], [2, 1])]))"
    have d: "module_deps demo_release_modules (module_map demo_release_modules [([1, 2], [1, 2]), ([2, 1], [2, 1])]) (1, [1]) = Some [(1, [2])]"
      "module_deps demo_release_modules (module_map demo_release_modules [([1, 2], [1, 2]), ([2, 1], [2, 1])]) (1, [2]) = Some [(1, [1])]"
      by code_simp+
    then have "((1, [1]), (1, [2])) \<in> ?r" "((1, [2]), (1, [1])) \<in> ?r" by (auto simp: dep_rel_def)
    then have "((1, [1]), (1, [1])) \<in> ?r\<^sup>+" by (meson trancl.simps)
    then show ?thesis by (auto simp: acyclic_def)
  qed
  have "sequence_opt (map (unwrap_module demo_release_modules) (rp_code \<lparr>rp_metadata = demo_package_metadata, rp_code = [[1, 2], [2, 7]]\<rparr>)) =
      Some [([1, 2], [1, 2]), ([2, 7], [2, 7])]"
    "sequence_opt (map (unwrap_module demo_release_modules) (rp_code \<lparr>rp_metadata = demo_package_metadata, rp_code = [[1, 2], [2, 1]]\<rparr>)) =
      Some [([1, 2], [1, 2]), ([2, 1], [2, 1])]"
    by (code_simp, code_simp)
  note s = this
  have "acyclic (dep_rel (module_deps demo_release_modules (module_map demo_release_modules [([1, 2], [1, 2]), ([2, 7], [2, 7])])))"
    by (rule iffD1[OF conjunct1[OF package_order_topological[OF s(1) refl]]]) (intro exI[of _ 2], simp add: run)
  moreover have "sorted_code_and_modules 9 demo_release_modules \<lparr>rp_metadata = demo_package_metadata, rp_code = [[1, 2], [2, 1]]\<rparr> = None"
    using conjunct1[OF package_order_topological[OF s(2) refl]] cyc by blast
  ultimately show ?thesis using run cyc by (intro conjI)
qed

end
