(* ===== verification/Vm_Ext.thy ===== *)
theory Vm_Ext
  imports Native_Table Agg_Natives Session_Output Data_Cache Code_Publish
begin

text \<open>
  The Move VM with its Aptos configuration, from \<^verbatim>\<open>aptos-vm/src/move_vm_ext/vm.rs\<close> (and the runtime
  configuration of \<^verbatim>\<open>aptos-vm/src/aptos_vm.rs\<close>): the table of natives and the configurations it is made
  with, and the native contexts every session starts with.  The VM itself, the table context and the
  hash of a session identifier are external.
\<close>

section \<open>Definitions\<close>

record runtime_config =
  paranoid_type_checks :: bool
  paranoid_hot_potato_checks :: bool

text \<open>The cell keeps the first configuration it is set to.\<close>

definition set_runtime_config :: "bool \<Rightarrow> bool \<Rightarrow> runtime_config option \<Rightarrow> runtime_config option" where
  "set_runtime_config type_checks hot_potato_checks cell =
     (case cell of
        Some config \<Rightarrow> Some config
      | None \<Rightarrow> Some \<lparr>paranoid_type_checks = type_checks, paranoid_hot_potato_checks = hot_potato_checks\<rparr>)"

definition get_runtime_config :: "runtime_config option \<Rightarrow> runtime_config" where
  "get_runtime_config cell =
     (case cell of
        Some config \<Rightarrow> config
      | None \<Rightarrow> \<lparr>paranoid_type_checks = True, paranoid_hot_potato_checks = True\<rparr>)"

text \<open>The number of threads that read proofs, in a cell of the same kind.\<close>

definition set_num_proof_reading_threads_once :: "nat \<Rightarrow> nat option \<Rightarrow> nat option" where
  "set_num_proof_reading_threads_once num_threads cell =
     (case cell of Some n \<Rightarrow> Some n | None \<Rightarrow> Some (min num_threads 256))"

definition get_num_proof_reading_threads :: "nat option \<Rightarrow> nat" where
  "get_num_proof_reading_threads cell = (case cell of Some n \<Rightarrow> n | None \<Rightarrow> 32)"

record verifier_config =
  max_loop_depth :: "nat option"
  treat_friend_as_private :: bool

text \<open>What a session reads from: values by key and the usage of the storage.\<close>

record ('k, 'er) remote_view =
  remote_get :: "('k, 'er) state_view"
  remote_usage :: "(state_storage_usage, string) result"

record ('tbl, 'pt, 'er, 'a) native_extensions =
  ext_table :: 'tbl
  ext_ristretto :: "'pt point_store"
  ext_aggregator :: "'er native_context"
  ext_transaction :: native_transaction_context
  ext_code :: "'a native_code_context"
  ext_state_storage :: native_state_storage_context

record ('vm, 'sess, 'tbl, 'pt, 'k, 'er, 'a, 'h, 'vmerr) move_runtime =
  new_with_configs ::
    "('a, framework_native) native_table \<Rightarrow> native_gas_parameters \<times> params \<times> u64 \<Rightarrow> verifier_config \<Rightarrow> runtime_config \<Rightarrow>
     ('vm, 'vmerr) result"
  flush_loader_cache_if_invalidated :: "'vm \<Rightarrow> 'vm"
  new_session_with_extensions :: "'vm \<Rightarrow> ('k, 'er) remote_view \<Rightarrow> ('tbl, 'pt, 'er, 'a) native_extensions \<Rightarrow> 'sess"
  table_context_new :: "bytes \<Rightarrow> ('k, 'er) remote_view \<Rightarrow> 'tbl"
  session_id_hash :: "('a, 'h) session_id \<Rightarrow> bytes"
  table_item_key :: "address \<Rightarrow> bytes \<Rightarrow> 'k"

definition move_vm_ext_new ::
  "('vm, 'sess, 'tbl, 'pt, 'k, 'er, 'a, 'h, 'vmerr) move_runtime \<Rightarrow> ('a, framework_native) native_libs \<Rightarrow> 'a \<Rightarrow> runtime_config option \<Rightarrow>
   native_gas_parameters \<Rightarrow> params \<Rightarrow> u64 \<Rightarrow> bool \<Rightarrow> ('vm, 'vmerr) result" where
  "move_vm_ext_new R N core_code_address runtime_checks native_gas_params abs_val_size_gas_params gas_feature_version treat_friend =
     new_with_configs R (aptos_natives N core_code_address)
       (native_gas_params, abs_val_size_gas_params, gas_feature_version)
       \<lparr>max_loop_depth = Some 5, treat_friend_as_private = treat_friend\<rparr>
       (get_runtime_config runtime_checks)"

text \<open>The expected length of the hash is 32; \<open>None\<close> is the panic otherwise.\<close>

definition session_txn_hash :: "('vm, 'sess, 'tbl, 'pt, 'k, 'er, 'a, 'h, 'vmerr) move_runtime \<Rightarrow> ('a, 'h) session_id \<Rightarrow> bytes option" where
  "session_txn_hash R session_id =
     (let uuid = session_id_hash R session_id in if length uuid = 32 then Some uuid else None)"

definition new_session_extensions ::
  "('vm, 'sess, 'tbl, 'pt, 'k, 'er, 'a, 'h, 'vmerr) move_runtime \<Rightarrow> ('k, 'er) remote_view \<Rightarrow> ('a, 'h) session_id \<Rightarrow> bytes \<Rightarrow>
   ('tbl, 'pt, 'er, 'a) native_extensions" where
  "new_session_extensions R remote session_id hash =
     \<lparr>ext_table = table_context_new R hash remote,
      ext_ristretto = point_store_new,
      ext_aggregator = native_context_new hash (resolve_table_entry (table_item_key R) (remote_get remote)),
      ext_transaction = native_transaction_context_new
        (case session_id of Txn _ _ sh \<Rightarrow> sh | _ \<Rightarrow> []),
      ext_code = \<lparr>requested_module_bundle = None\<rparr>,
      ext_state_storage = \<lparr>get_state_storage_usage = remote_usage remote\<rparr>\<rparr>"

text \<open>The session, and the VM with its loader cache flushed.\<close>

definition vm_ext_new_session ::
  "('vm, 'sess, 'tbl, 'pt, 'k, 'er, 'a, 'h, 'vmerr) move_runtime \<Rightarrow> 'vm \<Rightarrow> ('k, 'er) remote_view \<Rightarrow> ('a, 'h) session_id \<Rightarrow>
   ('sess \<times> 'vm) option" where
  "vm_ext_new_session R vm remote session_id =
     do { hash \<leftarrow> session_txn_hash R session_id;
          let vm = flush_loader_cache_if_invalidated R vm;
          Some (new_session_with_extensions R vm remote (new_session_extensions R remote session_id hash), vm) }"

subsection \<open>The description of abort codes\<close>

text \<open>The metadata of a module, from \<^verbatim>\<open>framework/src/module_metadata.rs\<close>, and its cache in \<^verbatim>\<open>aptos_vm_impl.rs\<close>.\<close>

record error_description =
  code_name :: string
  code_description :: string

record abort_info =
  reason_name :: string
  abort_description :: string

record runtime_module_metadata =
  error_map :: "(u64, error_description) btree"

definition metadata_extract_abort_info :: "runtime_module_metadata \<Rightarrow> u64 \<Rightarrow> abort_info option" where
  "metadata_extract_abort_info self code =
     map_option (\<lambda>descr. \<lparr>reason_name = code_name descr, abort_description = code_description descr\<rparr>)
       (case map_of (error_map self) (and code 0xfff) of Some descr \<Rightarrow> Some descr | None \<Rightarrow> map_of (error_map self) code)"

text \<open>The metadata as the VM and the decoder give it, and the look-up through the cache.\<close>

definition fetch_metadata :: "('m \<Rightarrow> bytes option) \<Rightarrow> (bytes \<Rightarrow> runtime_module_metadata option) \<Rightarrow> 'm \<Rightarrow> runtime_module_metadata option" where
  "fetch_metadata get_module_metadata decode module_id = Option.bind (get_module_metadata module_id) decode"

definition extract_abort_info ::
  "('m \<Rightarrow> bytes option) \<Rightarrow> (bytes \<Rightarrow> runtime_module_metadata option) \<Rightarrow> ('m \<rightharpoonup> runtime_module_metadata option) \<Rightarrow> 'm \<Rightarrow> u64 \<Rightarrow>
   abort_info option \<times> ('m \<rightharpoonup> runtime_module_metadata option)" where
  "extract_abort_info get_module_metadata decode metadata_cache module_id abort_code =
     (let entry = (case metadata_cache module_id of Some e \<Rightarrow> e | None \<Rightarrow> fetch_metadata get_module_metadata decode module_id)
      in (Option.bind entry (\<lambda>m. metadata_extract_abort_info m abort_code), metadata_cache(module_id \<mapsto> entry)))"

section \<open>Lemmas\<close>

text \<open>
  As long as the metadata of modules does not change, the cache is unobservable; codes that differ only in
  their category have the same description when their reason has one.
\<close>

lemma metadata_cache_transparent:
  assumes "\<forall>m e. cache m = Some e \<longrightarrow> e = fetch_metadata get decode m" "extract_abort_info get decode cache m code = (info, cache')"
  shows "info = Option.bind (fetch_metadata get decode m) (\<lambda>md. metadata_extract_abort_info md code)"
    "\<forall>m e. cache' m = Some e \<longrightarrow> e = fetch_metadata get decode m"
  using assms by (auto simp: extract_abort_info_def Let_def split: option.splits if_splits)

lemma abort_category_ignored:
  assumes "map_of (error_map md) (and code 0xfff) \<noteq> None" "and code' 0xfff = and code 0xfff"
  shows "metadata_extract_abort_info md code' = metadata_extract_abort_info md code"
  using assms by (auto simp: metadata_extract_abort_info_def)

text \<open>
  A session starts with nothing pending: no points, no aggregators, no requested modules, so that
  finishing it at once gives the empty aggregator change set.
\<close>

lemma new_session_starts_empty:
  "points (ext_ristretto (new_session_extensions R remote sid h)) = []"
  "requested_module_bundle (ext_code (new_session_extensions R remote sid h)) = None"
  "into_change_set (ext_aggregator (new_session_extensions R remote sid h)) = Some []"
  by (simp_all add: new_session_extensions_def point_store_new_def native_context_new_def into_change_set_def
      aggregator_data_default_def aggregator_data_into_def)

lemma runtime_config_set_once:
  "get_runtime_config (set_runtime_config c d (set_runtime_config a b None)) =
     \<lparr>paranoid_type_checks = a, paranoid_hot_potato_checks = b\<rparr>"
  by (simp add: get_runtime_config_def set_runtime_config_def)

end
