(* ===== verification/Genesis.thy ===== *)
theory Genesis
  imports Release Vm_Ext Txn_Prologue
begin

text \<open>
  The genesis change set, from \<^verbatim>\<open>vm-genesis/src/lib.rs\<close> and \<^verbatim>\<open>genesis_context.rs\<close>: the checks of the
  configuration, the calls into the framework that set up the chain in a first session on a state that
  holds only the modules, the publication of the framework in a second session on the empty state, and
  the checks of the combined change set.  A panic is \<open>None\<close>.  Sessions of the Move VM, serialization,
  keys and the random generator are external.  Products of configuration values are taken modulo
  \<open>2 ^ 64\<close>; it is shown below that none of them overflows.
\<close>

section \<open>Definitions\<close>

definition NUM_SECONDS_PER_YEAR :: u64 where "NUM_SECONDS_PER_YEAR = 365 * 24 * 60 * 60"
definition MICRO_SECONDS_PER_SECOND :: u64 where "MICRO_SECONDS_PER_SECOND = 1000000"
definition APTOS_COINS_BASE_WITH_DECIMALS :: u64 where "APTOS_COINS_BASE_WITH_DECIMALS = 10 ^ 8"

record genesis_configuration =
  allow_new_validators :: bool
  epoch_duration_secs :: u64
  is_test :: bool
  max_stake :: u64
  min_stake :: u64
  min_voting_threshold :: u128
  recurring_lockup_duration_secs :: u64
  required_proposer_stake :: u64
  rewards_apy_percentage :: u64
  voting_duration_secs :: u64
  voting_power_increase_limit :: u64
  employee_vesting_start :: u64
  employee_vesting_period_duration :: u64

record 'a validator =
  owner_address :: 'a
  operator_address :: 'a
  voter_address :: 'a
  stake_amount :: u64
  consensus_pubkey :: bytes
  proof_of_possession :: bytes
  network_addresses :: bytes
  full_node_network_addresses :: bytes

record 'a validator_with_commission_rate =
  vc_validator :: "'a validator"
  validator_commission_percentage :: u64
  join_during_genesis :: bool

record 'a account_balance =
  account_address :: 'a
  account_balance_amount :: u64

record 'a employee_pool =
  pool_accounts :: "'a list"
  pool_validator :: "'a validator_with_commission_rate"
  vesting_schedule_numerators :: "u64 list"
  vesting_schedule_denominator :: u64
  beneficiary_resetter :: 'a

text \<open>The state genesis starts from.\<close>

record 'k genesis_state_view =
  state_data :: "'k \<rightharpoonup> bytes"

definition genesis_state_view_new :: "'k genesis_state_view" where
  "genesis_state_view_new = \<lparr>state_data = Map.empty\<rparr>"

definition add_module :: "('id \<Rightarrow> 'k) \<Rightarrow> 'id \<Rightarrow> bytes \<Rightarrow> 'k genesis_state_view \<Rightarrow> 'k genesis_state_view" where
  "add_module key module_id blob self = self\<lparr>state_data := (state_data self)(key module_id \<mapsto> blob)\<rparr>"

definition genesis_get_state_value :: "'k genesis_state_view \<Rightarrow> ('k, 'er) state_view" where
  "genesis_get_state_value self state_key = Ok (state_data self state_key)"

definition genesis_get_usage :: "'k genesis_state_view \<Rightarrow> (state_storage_usage, string) result" where
  "genesis_get_usage self = Ok \<lparr>usage_items = 0, usage_bytes = 0\<rparr>"

text \<open>What the genesis code calls.\<close>

record ('sess, 'a, 'ty, 'tag, 'ti, 'er, 'vmerr) session_ops =
  execute_function_bypass_visibility ::
    "'a module_id \<Rightarrow> string \<Rightarrow> 'ty list \<Rightarrow> bytes list \<Rightarrow> 'sess \<Rightarrow> (unit, 'vmerr) result \<times> 'sess"
  publish_module_bundle :: "bytes list \<Rightarrow> 'a \<Rightarrow> 'sess \<Rightarrow> (unit, 'vmerr) result \<times> 'sess"
  finish_with_extensions :: "'sess \<Rightarrow> (('a, 'tag, 'ti, 'er) finished_session, 'vmerr) result"
  finish_vm_error :: "partial_vm_error \<Rightarrow> 'vmerr"

record ('a, 'cc) genesis_codec =
  g_serialize_values :: "'a move_value list \<Rightarrow> bytes list"
  g_simple_serialize :: "'a move_value \<Rightarrow> bytes option"
  gas_schedule_bytes :: "u64 \<times> (string \<times> u64) list \<Rightarrow> bytes option"
  consensus_bytes :: "'cc \<Rightarrow> bytes option"
  u64s_bytes :: "u64 list \<Rightarrow> bytes option"
  accounts_bytes :: "'a account_balance list \<Rightarrow> bytes option"
  employees_bytes :: "'a employee_pool list \<Rightarrow> bytes option"
  validators_bytes :: "'a validator list \<Rightarrow> bytes option"
  commissioned_bytes :: "'a validator_with_commission_rate list \<Rightarrow> bytes option"
  metadata_bytes :: "'a package_metadata \<Rightarrow> bytes option"

record ('a, 'h, 'cc, 'pk, 'ek, 'ev) genesis_types =
  core_code_address :: 'a
  genesis_vm_address :: 'a
  aptos_test_root_address :: 'a
  max_known_version :: u64
  default_consensus_v1 :: 'cc
  default_on_chain_consensus :: 'cc
  test_chain_id :: u8
  ed25519_authentication_key :: "'pk \<Rightarrow> bytes"
  hash_value :: "bytes \<Rightarrow> 'h"
  treat_friend_by_default :: bool
  new_epoch_event_key :: 'ek
  contract_event_key :: "'ev \<Rightarrow> 'ek"
  event_sequence_number :: "'ev \<Rightarrow> u64"

record ('vm, 'sess, 'tbl, 'pt, 'k, 'er, 'a, 'h, 'vmerr, 'ty, 'tag, 'ti, 'cc, 'pk, 'cm, 'ek, 'ev, 'loc, 'ef, 'x, 'y) genesis_env =
  runtime :: "('vm, 'sess, 'tbl, 'pt, 'k, 'er, 'a, 'h, 'vmerr) move_runtime"
  runtime_checks :: "runtime_config option"
  native_libraries :: "('a, framework_native) native_libs"
  sessions :: "('sess, 'a, 'ty, 'tag, 'ti, 'er, 'vmerr) session_ops"
  genesis_bcs :: "('a, 'cc) genesis_codec"
  types :: "('a, 'h, 'cc, 'pk, 'ek, 'ev) genesis_types"
  genesis_modules :: "('cm, 'a) module_ops"
  module_state_key :: "'a \<times> bytes \<Rightarrow> 'k"
  aggregator_codec :: bcs_codec
  genesis_change_sets :: "('a, 'tag, 'k, 'ek, 'ev, 'loc, 'ef, 'x) change_set_ops"
  move_change_set_squash ::
    "('a \<times> (string \<times> move_op) list \<times> ('tag \<times> move_op) list) list \<Rightarrow> ('a \<times> (string \<times> move_op) list \<times> ('tag \<times> move_op) list) list \<Rightarrow>
     (('a \<times> (string \<times> move_op) list \<times> ('tag \<times> move_op) list) list, 'y) result"
  partial_error_into_status :: "partial_vm_error \<Rightarrow> ('loc, 'ef) vm_status"
  testing_build :: bool
  initial_gas_price :: u64

subsection \<open>The configuration\<close>

definition validate_genesis_config :: "genesis_configuration \<Rightarrow> unit option" where
  "validate_genesis_config c =
     (if min_stake c \<le> max_stake c \<and>
         0 < epoch_duration_secs c \<and>
         0 < recurring_lockup_duration_secs c \<and>
         epoch_duration_secs c \<le> recurring_lockup_duration_secs c \<and>
         (0 < rewards_apy_percentage c \<and> rewards_apy_percentage c < 100) \<and>
         0 < voting_duration_secs c \<and>
         voting_duration_secs c < recurring_lockup_duration_secs c \<and>
         (0 < voting_power_increase_limit c \<and> voting_power_increase_limit c \<le> 50)
      then Some () else None)"

text \<open>The rewards rate of an epoch as numerator and denominator; division by zero panics.\<close>

definition rewards_rate :: "genesis_configuration \<Rightarrow> (u64 \<times> u64) option" where
  "rewards_rate c =
     (let rewards_rate_denominator = 1000000000 in
      if epoch_duration_secs c = 0 then None
      else let num_epochs_in_a_year = NUM_SECONDS_PER_YEAR div epoch_duration_secs c in
           if num_epochs_in_a_year = 0 then None
           else Some ((rewards_apy_percentage c * rewards_rate_denominator div 100) div num_epochs_in_a_year,
                      rewards_rate_denominator))"

definition epoch_interval_usecs :: "genesis_configuration \<Rightarrow> u64" where
  "epoch_interval_usecs c = epoch_duration_secs c * MICRO_SECONDS_PER_SECOND"

subsection \<open>Calls into the framework\<close>

definition exec_function where
  "exec_function E module_name function_name ty_args args session =
     (case execute_function_bypass_visibility (sessions E) (core_code_address (types E), map of_char module_name)
             function_name ty_args args session of
        (Ok _, session) \<Rightarrow> Some session
      | (Err _, _) \<Rightarrow> None)"

definition initialize where
  "initialize E consensus_config chain_id c session =
     do { gas_schedule_blob \<leftarrow> gas_schedule_bytes (genesis_bcs E) (current_gas_schedule (testing_build E) (initial_gas_price E));
          consensus_config_bytes \<leftarrow> consensus_bytes (genesis_bcs E) consensus_config;
          (rewards_rate_numerator, rewards_rate_denominator) \<leftarrow> rewards_rate c;
          exec_function E ''genesis'' ''initialize'' []
            (g_serialize_values (genesis_bcs E)
              [vector_u8 gas_schedule_blob, MVU8 chain_id, MVU64 (max_known_version (types E)), vector_u8 consensus_config_bytes,
               MVU64 (epoch_interval_usecs c), MVU64 (min_stake c), MVU64 (max_stake c), MVU64 (recurring_lockup_duration_secs c),
               MVBool (allow_new_validators c), MVU64 rewards_rate_numerator, MVU64 rewards_rate_denominator,
               MVU64 (voting_power_increase_limit c)])
            session }"

definition core_signer where
  "core_signer E = MVSigner (core_code_address (types E))"

definition initialize_features where
  "initialize_features E session =
     do { features \<leftarrow> u64s_bytes (genesis_bcs E) [1, 2];
          none \<leftarrow> u64s_bytes (genesis_bcs E) [];
          exec_function E ''features'' ''change_feature_flags'' []
            (g_serialize_values (genesis_bcs E) [core_signer E] @ [features] @ [none]) session }"

definition initialize_aptos_coin where
  "initialize_aptos_coin E session =
     exec_function E ''genesis'' ''initialize_aptos_coin'' [] (g_serialize_values (genesis_bcs E) [core_signer E]) session"

definition set_genesis_end where
  "set_genesis_end E session =
     exec_function E ''genesis'' ''set_genesis_end'' [] (g_serialize_values (genesis_bcs E) [core_signer E]) session"

definition initialize_core_resources_and_aptos_coin where
  "initialize_core_resources_and_aptos_coin E core_resources_key session =
     exec_function E ''genesis'' ''initialize_core_resources_and_aptos_coin'' []
       (g_serialize_values (genesis_bcs E) [core_signer E, vector_u8 (ed25519_authentication_key (types E) core_resources_key)]) session"

definition initialize_on_chain_governance where
  "initialize_on_chain_governance E c session =
     exec_function E ''aptos_governance'' ''initialize'' []
       (g_serialize_values (genesis_bcs E)
         [core_signer E, MVU128 (min_voting_threshold c), MVU64 (required_proposer_stake c), MVU64 (voting_duration_secs c)]) session"

definition create_accounts where
  "create_accounts E accounts session =
     do { bs \<leftarrow> accounts_bytes (genesis_bcs E) accounts;
          exec_function E ''genesis'' ''create_accounts'' [] (g_serialize_values (genesis_bcs E) [core_signer E] @ [bs]) session }"

definition create_employee_validators where
  "create_employee_validators E employees c session =
     do { bs \<leftarrow> employees_bytes (genesis_bcs E) employees;
          exec_function E ''genesis'' ''create_employee_validators'' []
            (g_serialize_values (genesis_bcs E)
              [MVU64 (employee_vesting_start c), MVU64 (employee_vesting_period_duration c)] @ [bs]) session }"

definition create_and_initialize_validators where
  "create_and_initialize_validators E validators session =
     do { bs \<leftarrow> validators_bytes (genesis_bcs E) validators;
          exec_function E ''genesis'' ''create_initialize_validators'' [] (g_serialize_values (genesis_bcs E) [core_signer E] @ [bs]) session }"

definition create_and_initialize_validators_with_commission where
  "create_and_initialize_validators_with_commission E validators session =
     do { bs \<leftarrow> commissioned_bytes (genesis_bcs E) validators;
          exec_function E ''genesis'' ''create_initialize_validators_with_commission'' []
            (g_serialize_values (genesis_bcs E) [core_signer E, MVBool True] @ [bs]) session }"

definition allow_core_resources_to_set_version where
  "allow_core_resources_to_set_version E session =
     exec_function E ''version'' ''initialize_for_test'' []
       (g_serialize_values (genesis_bcs E) [MVSigner (aptos_test_root_address (types E))]) session"

definition emit_new_block_and_epoch_event where
  "emit_new_block_and_epoch_event E session =
     do { session \<leftarrow> exec_function E ''block'' ''emit_genesis_block_event'' []
            (g_serialize_values (genesis_bcs E) [MVSigner (genesis_vm_address (types E))]) session;
          exec_function E ''reconfiguration'' ''emit_genesis_reconfiguration_event'' [] [] session }"

subsection \<open>Publication of the framework\<close>

definition publish_package where
  "publish_package n E pack session =
     do { modules \<leftarrow> sorted_code_and_modules n (genesis_modules E) pack;
          first \<leftarrow> (case modules of [] \<Rightarrow> None | m # _ \<Rightarrow> Some m);
          let addr = fst (self_id (genesis_modules E) (snd first));
          let code = map fst modules;
          session \<leftarrow> (case publish_module_bundle (sessions E) code addr session of
                        (Ok _, session) \<Rightarrow> Some session
                      | (Err _, _) \<Rightarrow> None);
          core \<leftarrow> g_simple_serialize (genesis_bcs E) (core_signer E);
          owner \<leftarrow> g_simple_serialize (genesis_bcs E) (MVSigner addr);
          metadata \<leftarrow> metadata_bytes (genesis_bcs E) (rp_metadata pack);
          exec_function E ''code'' ''initialize'' [] [core, owner, metadata] session }"

fun publish_framework where
  "publish_framework n E [] session = Some session"
| "publish_framework n E (pack # packs) session =
     do { session \<leftarrow> publish_package n E pack session; publish_framework n E packs session }"

subsection \<open>The change set\<close>

definition verify_genesis_write_set where
  "verify_genesis_write_set T events =
     (let new_epoch_events = filter (\<lambda>e. contract_event_key T e = new_epoch_event_key T) events in
      case new_epoch_events of
        [e] \<Rightarrow> if event_sequence_number T e = 0 then Some () else None
      | _ \<Rightarrow> None)"

definition genesis_remote :: "'k genesis_state_view \<Rightarrow> ('k, 'er) remote_view" where
  "genesis_remote view =
     \<lparr>remote_get = cache_get_state_value (state_view_cache_new (genesis_get_state_value view)), remote_usage = genesis_get_usage view\<rparr>"

definition genesis_session_finish where
  "genesis_session_finish E session =
     Option.bind (session_finish (finish_vm_error (sessions E)) (finish_with_extensions (sessions E) session)) ok"

text \<open>The part before the calls: the VM, and the first session on the modules of the framework.\<close>

definition genesis_open where
  "genesis_open E framework =
     do { modules \<leftarrow> code_and_compiled_modules (genesis_modules E) framework;
          let state_view = fold (\<lambda>(module_bytes, m) view.
                add_module (module_state_key E) (self_id (genesis_modules E) m) module_bytes view) modules genesis_state_view_new;
          move_vm \<leftarrow> ok (move_vm_ext_new (runtime E) (native_libraries E) (core_code_address (types E)) (runtime_checks E)
                       native_zeros zeros LATEST_GAS_FEATURE_VERSION (treat_friend_by_default (types E)));
          vm_ext_new_session (runtime E) move_vm (genesis_remote state_view)
            (Genesis (hash_value (types E) (replicate 32 0))) }"

text \<open>The part after the calls: the second session, and the checks of the two outputs together.\<close>

definition genesis_close where
  "genesis_close n E framework session move_vm =
     do { session1_out \<leftarrow> genesis_session_finish E session;
          (session, move_vm) \<leftarrow> vm_ext_new_session (runtime E) move_vm (genesis_remote genesis_state_view_new)
            (Genesis (hash_value (types E) ((replicate 32 0)[31 := 1])));
          session \<leftarrow> publish_framework n E (rb_packages framework) session;
          session2_out \<leftarrow> genesis_session_finish E session;
          session1_out \<leftarrow> Option.bind (session_squash (move_change_set_squash E) (partial_error_into_status E) session1_out session2_out) ok;
          change_set_ext \<leftarrow> Option.bind (session_into_change_set (aggregator_codec E) (genesis_change_sets E) session1_out LATEST_GAS_FEATURE_VERSION) ok;
          let (delta_change_set, change_set) = cse_into_inner change_set_ext;
          if delta_change_set \<noteq> [] then None
          else if list_ex (\<lambda>(_, op). op = Deletion) (fst change_set) then None
          else do { verify_genesis_write_set (types E) (snd change_set); Some change_set } }"

text \<open>The transaction, with a direct payload.\<close>

datatype ('k, 'ev) genesis_transaction = GenesisTransaction "'k write_set \<times> 'ev list"

definition encode_aptos_mainnet_genesis_transaction where
  "encode_aptos_mainnet_genesis_transaction n E accounts employees validators framework chain_id c =
     (if is_test c then None
      else do {
        validate_genesis_config c;
        (session, move_vm) \<leftarrow> genesis_open E framework;
        session \<leftarrow> initialize E (default_consensus_v1 (types E)) chain_id c session;
        session \<leftarrow> initialize_features E session;
        session \<leftarrow> initialize_aptos_coin E session;
        session \<leftarrow> initialize_on_chain_governance E c session;
        session \<leftarrow> create_accounts E accounts session;
        session \<leftarrow> create_employee_validators E employees c session;
        session \<leftarrow> create_and_initialize_validators_with_commission E validators session;
        session \<leftarrow> set_genesis_end E session;
        session \<leftarrow> emit_new_block_and_epoch_event E session;
        map_option GenesisTransaction (genesis_close n E framework session move_vm) })"

definition encode_genesis_change_set where
  "encode_genesis_change_set n E core_resources_key validators framework consensus_config chain_id c =
     do { validate_genesis_config c;
          (session, move_vm) \<leftarrow> genesis_open E framework;
          session \<leftarrow> initialize E consensus_config chain_id c session;
          session \<leftarrow> initialize_features E session;
          session \<leftarrow> (if is_test c then initialize_core_resources_and_aptos_coin E core_resources_key session
                      else initialize_aptos_coin E session);
          session \<leftarrow> initialize_on_chain_governance E c session;
          session \<leftarrow> create_and_initialize_validators E validators session;
          session \<leftarrow> (if is_test c then allow_core_resources_to_set_version E session else Some session);
          session \<leftarrow> set_genesis_end E session;
          session \<leftarrow> emit_new_block_and_epoch_event E session;
          genesis_close n E framework session move_vm }"

definition encode_genesis_transaction where
  "encode_genesis_transaction n E aptos_root_key validators framework chain_id c =
     map_option GenesisTransaction
       (encode_genesis_change_set n E aptos_root_key validators framework (default_consensus_v1 (types E)) chain_id c)"

subsection \<open>Test networks\<close>

record ('rng, 'sk, 'csk, 'pk, 'a) key_generation =
  seeded_rng :: "bytes \<Rightarrow> 'rng"
  ed25519_generate :: "'rng \<Rightarrow> 'sk \<times> 'rng"
  ed25519_public_key :: "'sk \<Rightarrow> 'pk"
  derived_address :: "'pk \<Rightarrow> 'a"
  bls_generate :: "'rng \<Rightarrow> 'csk \<times> 'rng"
  bls_public_key_bytes :: "'csk \<Rightarrow> bytes"
  bls_possession_bytes :: "'csk \<Rightarrow> bytes"

definition genesis_keypair :: "('rng, 'sk, 'csk, 'pk, 'a) key_generation \<Rightarrow> 'sk \<times> 'pk" where
  "genesis_keypair K =
     (let rng = seeded_rng K (replicate 32 42); private_key = fst (ed25519_generate K rng)
      in (private_key, ed25519_public_key K private_key))"

record ('sk, 'csk, 'a) test_validator =
  test_key :: 'sk
  test_consensus_key :: 'csk
  test_data :: "'a validator"

definition test_validator_gen ::
  "('rng, 'sk, 'csk, 'pk, 'a) key_generation \<Rightarrow> 'rng \<Rightarrow> u64 option \<Rightarrow> ('sk, 'csk, 'a) test_validator \<times> 'rng" where
  "test_validator_gen K rng initial_stake =
     (let (key, rng) = ed25519_generate K rng;
          owner = derived_address K (ed25519_public_key K key);
          (consensus_key, rng) = bls_generate K rng;
          data = \<lparr>owner_address = owner, operator_address = owner, voter_address = owner,
                  stake_amount = (case initial_stake of Some amount \<Rightarrow> amount | None \<Rightarrow> 1),
                  consensus_pubkey = bls_public_key_bytes K consensus_key,
                  proof_of_possession = bls_possession_bytes K consensus_key,
                  network_addresses = [], full_node_network_addresses = []\<rparr>
      in (\<lparr>test_key = key, test_consensus_key = consensus_key, test_data = data\<rparr>, rng))"

fun gen_test_validators ::
  "('rng, 'sk, 'csk, 'pk, 'a) key_generation \<Rightarrow> nat \<Rightarrow> 'rng \<Rightarrow> u64 option \<Rightarrow> ('sk, 'csk, 'a) test_validator list" where
  "gen_test_validators K 0 rng initial_stake = []"
| "gen_test_validators K (Suc n) rng initial_stake =
     (let (v, rng) = test_validator_gen K rng initial_stake in v # gen_test_validators K n rng initial_stake)"

definition new_test_set ::
  "('rng, 'sk, 'csk, 'pk, 'a) key_generation \<Rightarrow> nat option \<Rightarrow> u64 option \<Rightarrow> ('sk, 'csk, 'a) test_validator list" where
  "new_test_set K count initial_stake =
     gen_test_validators K (case count of Some n \<Rightarrow> n | None \<Rightarrow> 10) (seeded_rng K (replicate 32 1)) initial_stake"

definition test_genesis_config :: genesis_configuration where
  "test_genesis_config =
     \<lparr>allow_new_validators = True, epoch_duration_secs = 3600, is_test = True, max_stake = 100000000000000, min_stake = 0,
      min_voting_threshold = 0, recurring_lockup_duration_secs = 7200, required_proposer_stake = 0, rewards_apy_percentage = 10,
      voting_duration_secs = 3600, voting_power_increase_limit = 50, employee_vesting_start = 1663456089,
      employee_vesting_period_duration = 5 * 60\<rparr>"

definition mainnet_genesis_config :: genesis_configuration where
  "mainnet_genesis_config =
     \<lparr>allow_new_validators = True, epoch_duration_secs = 2 * 3600, is_test = False,
      max_stake = 50000000 * APTOS_COINS_BASE_WITH_DECIMALS, min_stake = 1000000 * APTOS_COINS_BASE_WITH_DECIMALS,
      min_voting_threshold = 400000000 * ucast APTOS_COINS_BASE_WITH_DECIMALS, recurring_lockup_duration_secs = 30 * 24 * 3600,
      required_proposer_stake = 1000000 * APTOS_COINS_BASE_WITH_DECIMALS, rewards_apy_percentage = 10,
      voting_duration_secs = 7 * 24 * 3600, voting_power_increase_limit = 30, employee_vesting_start = 1663456089,
      employee_vesting_period_duration = 5 * 60\<rparr>"

definition generate_test_genesis where
  "generate_test_genesis n E K framework count =
     (let test_validators = new_test_set K count (Some 100000000)
      in map_option (\<lambda>genesis. (genesis, test_validators))
           (encode_genesis_change_set n E (snd (genesis_keypair K)) (map test_data test_validators) framework
             (default_on_chain_consensus (types E)) (test_chain_id (types E)) test_genesis_config))"

definition generate_mainnet_genesis where
  "generate_mainnet_genesis n E K framework count =
     (let test_validators = new_test_set K count (Some 1000000000000000)
      in map_option (\<lambda>genesis. (genesis, test_validators))
           (encode_genesis_change_set n E (snd (genesis_keypair K)) (map test_data test_validators) framework
             (default_on_chain_consensus (types E)) (test_chain_id (types E)) mainnet_genesis_config))"

datatype genesis_options = Head | Testnet | Mainnet

definition genesis_framework :: "'b \<Rightarrow> 'b \<Rightarrow> genesis_options \<Rightarrow> 'b" where
  "genesis_framework head_release_bundle testnet_release_bundle options =
     (case options of Head \<Rightarrow> head_release_bundle | Testnet \<Rightarrow> testnet_release_bundle | Mainnet \<Rightarrow> testnet_release_bundle)"

definition generate_genesis_change_set_for_testing_with_count where
  "generate_genesis_change_set_for_testing_with_count n E K head testnet options count =
     map_option fst (generate_test_genesis n E K (genesis_framework head testnet options) (Some count))"

definition generate_genesis_change_set_for_testing where
  "generate_genesis_change_set_for_testing n E K head testnet options =
     generate_genesis_change_set_for_testing_with_count n E K head testnet options 1"

definition generate_genesis_change_set_for_mainnet where
  "generate_genesis_change_set_for_mainnet n E K head testnet options =
     map_option fst (generate_mainnet_genesis n E K (genesis_framework head testnet options) (Some 1))"

definition test_genesis_change_set_and_validators where
  "test_genesis_change_set_and_validators n E K head count = generate_test_genesis n E K head count"

definition test_genesis_transaction where
  "test_genesis_transaction n E K head =
     map_option (GenesisTransaction \<circ> fst) (test_genesis_change_set_and_validators n E K head None)"

section \<open>The arithmetic of the configuration\<close>

lemma validate_genesis_config_iff:
  "validate_genesis_config c = Some () \<longleftrightarrow>
     min_stake c \<le> max_stake c \<and> 0 < epoch_duration_secs c \<and> epoch_duration_secs c \<le> recurring_lockup_duration_secs c \<and>
     0 < rewards_apy_percentage c \<and> rewards_apy_percentage c < 100 \<and> 0 < voting_duration_secs c \<and>
     voting_duration_secs c < recurring_lockup_duration_secs c \<and>
     0 < voting_power_increase_limit c \<and> voting_power_increase_limit c \<le> 50"
  by (auto simp: validate_genesis_config_def word_less_nat_alt word_le_nat_alt)

lemma rewards_rate_None:
  assumes "validate_genesis_config c = Some ()"
  shows "rewards_rate c = None \<longleftrightarrow> NUM_SECONDS_PER_YEAR < epoch_duration_secs c"
proof -
  let ?e = "unat (epoch_duration_secs c)"
  have y: "unat NUM_SECONDS_PER_YEAR = 31536000" by (simp add: NUM_SECONDS_PER_YEAR_def)
  have e: "0 < ?e" using assms by (simp add: validate_genesis_config_iff word_less_nat_alt)
  have "NUM_SECONDS_PER_YEAR div epoch_duration_secs c = 0 \<longleftrightarrow> 31536000 div ?e = 0"
    by (metis unat_div unat_eq_zero y)
  also have "\<dots> \<longleftrightarrow> 31536000 < ?e" using e by (auto simp: div_eq_0_iff)
  finally show ?thesis using e by (auto simp: rewards_rate_def Let_def word_less_nat_alt y unat_eq_zero)
qed

lemma initialize_within_year:
  "validate_genesis_config c = Some () \<Longrightarrow> initialize E cc cid c s \<noteq> None \<Longrightarrow> epoch_duration_secs c \<le> NUM_SECONDS_PER_YEAR"
  using rewards_rate_None[of c] by (auto simp: initialize_def bind_eq_Some_conv not_less)

lemma rewards_rate_closed:
  assumes "validate_genesis_config c = Some ()" and r: "rewards_rate c = Some (num, den)"
  shows "unat num = unat (rewards_apy_percentage c) * 10 ^ 7 div (31536000 div unat (epoch_duration_secs c))" "unat den = 10 ^ 9"
    "unat (epoch_interval_usecs c) = unat (epoch_duration_secs c) * 10 ^ 6"
proof -
  let ?e = "unat (epoch_duration_secs c)" and ?a = "unat (rewards_apy_percentage c)"
  have y: "unat NUM_SECONDS_PER_YEAR = 31536000" by (simp add: NUM_SECONDS_PER_YEAR_def)
  have a: "?a < 100" using assms(1) by (simp add: validate_genesis_config_iff word_less_nat_alt)
  have le: "?e \<le> 31536000" using rewards_rate_None[OF assms(1)] r by (auto simp: word_less_nat_alt y)
  have p: "unat (rewards_apy_percentage c * 1000000000) = ?a * 1000000000"
    using a by (subst unat_mult_lem[THEN iffD1]) (simp_all)
  show "unat num = ?a * 10 ^ 7 div (31536000 div ?e)" "unat den = 10 ^ 9"
    using r by (auto simp: rewards_rate_def Let_def unat_div y p mult.commute split: if_splits)
  show "unat (epoch_interval_usecs c) = ?e * 10 ^ 6"
    unfolding epoch_interval_usecs_def MICRO_SECONDS_PER_SECOND_def using le by (subst unat_mult_lem[THEN iffD1]) simp_all
qed

text \<open>
  C13. For a configuration that passes its validation, the rewards rate of an epoch can be computed
  exactly if the epoch is not longer than a year; the setup panics on longer epochs, which the
  validation does not reject.  Otherwise nothing overflows: the numerator is the yearly percentage in
  billionths divided, rounding down, by the number of epochs of a year, it is below the denominator,
  and all the epochs of a year together pay at most the yearly percentage; the epoch interval is the
  exact number of microseconds.
\<close>

theorem genesis_rewards_exact:
  assumes "validate_genesis_config c = Some ()"
  shows "(rewards_rate c = None \<longleftrightarrow> NUM_SECONDS_PER_YEAR < epoch_duration_secs c) \<and>
    (initialize E cc cid c s \<noteq> None \<longrightarrow> epoch_duration_secs c \<le> NUM_SECONDS_PER_YEAR) \<and>
    (rewards_rate c = Some (num, den) \<longrightarrow>
       unat num = unat (rewards_apy_percentage c) * 10 ^ 7 div (31536000 div unat (epoch_duration_secs c)) \<and>
       unat den = 10 ^ 9 \<and> num < den \<and>
       unat num * (31536000 div unat (epoch_duration_secs c)) * 100 \<le> unat (rewards_apy_percentage c) * unat den \<and>
       unat (epoch_interval_usecs c) = unat (epoch_duration_secs c) * 10 ^ 6)"
proof -
  let ?e = "unat (epoch_duration_secs c)" and ?a = "unat (rewards_apy_percentage c)"
  have a: "?a < 100" using assms by (simp add: validate_genesis_config_iff word_less_nat_alt)
  note none = rewards_rate_None[OF assms]
  moreover note initialize_within_year[OF assms, of E cc cid s]
  moreover have "unat num = ?a * 10 ^ 7 div (31536000 div ?e) \<and> unat den = 10 ^ 9 \<and> num < den \<and>
      unat num * (31536000 div ?e) * 100 \<le> ?a * unat den \<and> unat (epoch_interval_usecs c) = ?e * 10 ^ 6"
    if r: "rewards_rate c = Some (num, den)"
  proof -
    note num = rewards_rate_closed[OF assms r]
    have "unat num \<le> ?a * 10 ^ 7" unfolding num(1) by (rule div_le_dividend)
    then have "num < den" using a num(2) by (simp add: word_less_nat_alt)
    moreover have "unat num * (31536000 div ?e) * 100 \<le> ?a * 10 ^ 7 * 100"
      unfolding num(1) by (rule mult_le_mono1[OF div_times_less_eq_dividend])
    then have "unat num * (31536000 div ?e) * 100 \<le> ?a * unat den" unfolding num(2) by simp
    ultimately show ?thesis using num by blast
  qed
  ultimately show ?thesis by blast
qed

text \<open>The two configurations of the repository, a validated one with a longer epoch, and the yearly one.\<close>

theorem genesis_rewards_exact_witness:
  "validate_genesis_config mainnet_genesis_config = Some () \<and> rewards_rate mainnet_genesis_config = Some (22831, 1000000000) \<and>
   unat (epoch_interval_usecs mainnet_genesis_config) = 7200 * 10 ^ 6 \<and> (22831::nat) * 4380 * 100 \<le> 10 * 10 ^ 9 \<and>
   validate_genesis_config (mainnet_genesis_config\<lparr>epoch_duration_secs := 40000000, recurring_lockup_duration_secs := 40000000\<rparr>) = Some () \<and>
   rewards_rate (mainnet_genesis_config\<lparr>epoch_duration_secs := 40000000, recurring_lockup_duration_secs := 40000000\<rparr>) = None"
proof -
  let ?long = "mainnet_genesis_config\<lparr>epoch_duration_secs := 40000000, recurring_lockup_duration_secs := 40000000\<rparr>"
  note cfg = mainnet_genesis_config_def APTOS_COINS_BASE_WITH_DECIMALS_def NUM_SECONDS_PER_YEAR_def
  have v: "validate_genesis_config mainnet_genesis_config = Some ()" "validate_genesis_config ?long = Some ()"
    by (simp_all add: validate_genesis_config_def cfg)
  have r: "rewards_rate mainnet_genesis_config = Some (22831, 1000000000)"
    by (simp add: rewards_rate_def cfg)
  have e: "unat (epoch_duration_secs mainnet_genesis_config) = 7200" by (simp add: cfg)
  from genesis_rewards_exact[OF v(1), of undefined undefined undefined undefined 22831 1000000000] r
  have "unat (epoch_interval_usecs mainnet_genesis_config) = 7200 * 10 ^ 6" by (auto simp: e)
  moreover have "NUM_SECONDS_PER_YEAR < epoch_duration_secs ?long" by (simp add: cfg)
  with conjunct1[OF genesis_rewards_exact[OF v(2)]] have "rewards_rate ?long = None" by blast
  ultimately show ?thesis using v r by simp
qed

lemma test_genesis_config_valid:
  "validate_genesis_config test_genesis_config = Some ()" "rewards_rate test_genesis_config = Some (11415, 1000000000)"
  by (simp_all add: validate_genesis_config_def rewards_rate_def test_genesis_config_def NUM_SECONDS_PER_YEAR_def)

section \<open>Genesis as a script\<close>

text \<open>A session driven by a list of calls.\<close>

datatype ('a, 'ty) genesis_call =
    Exec string string "'ty list" "bytes list"
  | Publish "bytes list" 'a

fun run_call where
  "run_call E (Exec m f ty_args args) s = exec_function E m f ty_args args s"
| "run_call E (Publish code addr) s =
     (case publish_module_bundle (sessions E) code addr s of (Ok _, s') \<Rightarrow> Some s' | (Err _, _) \<Rightarrow> None)"

primrec run_session_calls where
  "run_session_calls E [] s = Some s"
| "run_session_calls E (c # cs) s = Option.bind (run_call E c s) (run_session_calls E cs)"

lemma run_session_calls_append: "run_session_calls E (xs @ ys) s = Option.bind (run_session_calls E xs s) (run_session_calls E ys)"
  by (induction xs arbitrary: s) (auto split: bind_splits)

text \<open>
  The specification of the setup: the calls with their arguments, the configuration entering with the
  closed form of its numbers.  The byte strings are the serialized gas schedule, consensus configuration,
  features and validators.
\<close>

definition setup_script where
  "setup_script E key cid c gas consensus features none validators =
     (let ser = g_serialize_values (genesis_bcs E);
          core = MVSigner (core_code_address (types E));
          e = unat (epoch_duration_secs c)
      in [Exec ''genesis'' ''initialize'' []
            (ser [vector_u8 gas, MVU8 cid, MVU64 (max_known_version (types E)), vector_u8 consensus,
                  MVU64 (of_nat (e * 10 ^ 6)), MVU64 (min_stake c), MVU64 (max_stake c), MVU64 (recurring_lockup_duration_secs c),
                  MVBool (allow_new_validators c), MVU64 (of_nat (unat (rewards_apy_percentage c) * 10 ^ 7 div (31536000 div e))),
                  MVU64 (10 ^ 9), MVU64 (voting_power_increase_limit c)]),
          Exec ''features'' ''change_feature_flags'' [] (ser [core] @ [features, none]),
          (if is_test c
           then Exec ''genesis'' ''initialize_core_resources_and_aptos_coin'' []
                  (ser [core, vector_u8 (ed25519_authentication_key (types E) key)])
           else Exec ''genesis'' ''initialize_aptos_coin'' [] (ser [core])),
          Exec ''aptos_governance'' ''initialize'' []
            (ser [core, MVU128 (min_voting_threshold c), MVU64 (required_proposer_stake c), MVU64 (voting_duration_secs c)]),
          Exec ''genesis'' ''create_initialize_validators'' [] (ser [core] @ [validators])] @
         (if is_test c then [Exec ''version'' ''initialize_for_test'' [] (ser [MVSigner (aptos_test_root_address (types E))])] else []) @
         [Exec ''genesis'' ''set_genesis_end'' [] (ser [core]),
          Exec ''block'' ''emit_genesis_block_event'' [] (ser [MVSigner (genesis_vm_address (types E))]),
          Exec ''reconfiguration'' ''emit_genesis_reconfiguration_event'' [] []])"

lemmas setup_defs = initialize_def initialize_features_def initialize_aptos_coin_def initialize_core_resources_and_aptos_coin_def
  initialize_on_chain_governance_def create_and_initialize_validators_def allow_core_resources_to_set_version_def set_genesis_end_def
  emit_new_block_and_epoch_event_def core_signer_def

lemma setup_run:
  assumes "encode_genesis_change_set n E key validators framework cc cid c = Some cs"
  obtains s1 vm s1' gas consensus features none vs where
    "validate_genesis_config c = Some ()" "epoch_duration_secs c \<le> NUM_SECONDS_PER_YEAR" "genesis_open E framework = Some (s1, vm)"
    "gas_schedule_bytes (genesis_bcs E) (current_gas_schedule (testing_build E) (initial_gas_price E)) = Some gas"
    "consensus_bytes (genesis_bcs E) cc = Some consensus" "u64s_bytes (genesis_bcs E) [1, 2] = Some features"
    "u64s_bytes (genesis_bcs E) [] = Some none" "validators_bytes (genesis_bcs E) validators = Some vs"
    "run_session_calls E (setup_script E key cid c gas consensus features none vs) s1 = Some s1'"
    "genesis_close n E framework s1' vm = Some cs"
proof -
  from assms obtain s1 vm a1 a2 a3 a4 a5 a6 a7 s1' where
    v: "validate_genesis_config c = Some ()" and o: "genesis_open E framework = Some (s1, vm)"
    and s: "initialize E cc cid c s1 = Some a1" "initialize_features E a1 = Some a2"
      "(if is_test c then initialize_core_resources_and_aptos_coin E key a2 else initialize_aptos_coin E a2) = Some a3"
      "initialize_on_chain_governance E c a3 = Some a4" "create_and_initialize_validators E validators a4 = Some a5"
      "(if is_test c then allow_core_resources_to_set_version E a5 else Some a5) = Some a6"
      "set_genesis_end E a6 = Some a7" "emit_new_block_and_epoch_event E a7 = Some s1'"
    and cl: "genesis_close n E framework s1' vm = Some cs"
    unfolding encode_genesis_change_set_def by (auto simp: bind_eq_Some_conv simp del: option.case)
  from s(1) obtain num den where r: "rewards_rate c = Some (num, den)" by (auto simp: initialize_def bind_eq_Some_conv)
  note cf = rewards_rate_closed[OF v r]
  have w: "x = of_nat k" if "unat x = k" for x :: u64 and k using that by (simp flip: that)
  note n = w[OF cf(1)] w[OF cf(3)]
  have den: "den = 10 ^ 9" using cf(2) by (simp add: word_unat_eq_iff)
  from s(1) r obtain gas consensus where b: "gas_schedule_bytes (genesis_bcs E) (current_gas_schedule (testing_build E) (initial_gas_price E)) = Some gas"
    "consensus_bytes (genesis_bcs E) cc = Some consensus" by (auto simp: initialize_def bind_eq_Some_conv)
  from s(2) obtain features none where f: "u64s_bytes (genesis_bcs E) [1, 2] = Some features" "u64s_bytes (genesis_bcs E) [] = Some none"
    by (auto simp: initialize_features_def bind_eq_Some_conv)
  from s(5) obtain vs where vs: "validators_bytes (genesis_bcs E) validators = Some vs"
    by (auto simp: create_and_initialize_validators_def bind_eq_Some_conv)
  have "run_session_calls E (setup_script E key cid c gas consensus features none vs) s1 = Some s1'"
    using s r b f vs by (auto simp: setup_defs setup_script_def Let_def n den bind_eq_Some_conv split: if_splits)
  moreover have "epoch_duration_secs c \<le> NUM_SECONDS_PER_YEAR" using rewards_rate_None[OF v] r by (simp add: not_less)
  ultimately show thesis using that v o b f vs cl by blast
qed

text \<open>The state of the first session: the code of the bundle under the keys of its modules, the last one for a key.\<close>

lemma genesis_open_state:
  assumes "genesis_open E framework = Some (s1, vm)"
  obtains vm0 remote modules where "code_and_compiled_modules (genesis_modules E) framework = Some modules"
    "vm_ext_new_session (runtime E) vm0 remote (Genesis (hash_value (types E) (replicate 32 0))) = Some (s1, vm)"
    "\<And>k. remote_get remote k = Ok (map_of (rev (map (\<lambda>(code, m). (module_state_key E (self_id (genesis_modules E) m), code)) modules)) k)"
proof -
  let ?add = "\<lambda>(module_bytes, m) view. add_module (module_state_key E) (self_id (genesis_modules E) m) module_bytes view"
  have data: "state_data (fold ?add ms view) =
      state_data view ++ map_of (rev (map (\<lambda>(code, m). (module_state_key E (self_id (genesis_modules E) m), code)) ms))" for ms view
    by (induction ms arbitrary: view) (auto simp: add_module_def fun_eq_iff map_add_def split: option.splits)
  from assms obtain modules vm0 where m: "code_and_compiled_modules (genesis_modules E) framework = Some modules"
    "vm_ext_new_session (runtime E) vm0 (genesis_remote (fold ?add modules genesis_state_view_new))
       (Genesis (hash_value (types E) (replicate 32 0))) = Some (s1, vm)"
    by (auto simp: genesis_open_def bind_eq_Some_conv Let_def)
  have "remote_get (genesis_remote (fold ?add modules genesis_state_view_new)) k =
      Ok (map_of (rev (map (\<lambda>(code, m). (module_state_key E (self_id (genesis_modules E) m), code)) modules)) k)" for k
    by (simp add: genesis_remote_def cache_get_state_value_def state_view_cache_new_def genesis_get_state_value_def data
        genesis_state_view_new_def)
  with m that show thesis by blast
qed

subsection \<open>The order of the framework\<close>

definition package_calls where
  "package_calls n E pack =
     do { modules \<leftarrow> sorted_code_and_modules n (genesis_modules E) pack;
          first \<leftarrow> (case modules of [] \<Rightarrow> None | m # _ \<Rightarrow> Some m);
          let addr = fst (self_id (genesis_modules E) (snd first));
          core \<leftarrow> g_simple_serialize (genesis_bcs E) (core_signer E);
          owner \<leftarrow> g_simple_serialize (genesis_bcs E) (MVSigner addr);
          metadata \<leftarrow> metadata_bytes (genesis_bcs E) (rp_metadata pack);
          Some [Publish (map fst modules) addr, Exec ''code'' ''initialize'' [] [core, owner, metadata]] }"

fun framework_calls where
  "framework_calls n E [] = Some []"
| "framework_calls n E (pack # packs) =
     do { cs \<leftarrow> package_calls n E pack; rest \<leftarrow> framework_calls n E packs; Some (cs @ rest) }"

lemma publish_package_calls:
  "publish_package n E pack s = Some s' \<Longrightarrow> \<exists>calls. package_calls n E pack = Some calls \<and> run_session_calls E calls s = Some s'"
  by (auto simp: publish_package_def package_calls_def bind_eq_Some_conv Let_def)

lemma publish_framework_calls:
  "publish_framework n E packs s = Some s' \<Longrightarrow> \<exists>calls. framework_calls n E packs = Some calls \<and> run_session_calls E calls s = Some s'"
proof (induction packs arbitrary: s)
  case (Cons pack packs)
  from Cons.prems obtain s1 where s: "publish_package n E pack s = Some s1" "publish_framework n E packs s1 = Some s'"
    by (auto simp: bind_eq_Some_conv)
  from publish_package_calls[OF s(1)] obtain cs where "package_calls n E pack = Some cs" "run_session_calls E cs s = Some s1" by blast
  with Cons.IH[OF s(2)] show ?case by (auto simp: run_session_calls_append)
qed simp

text \<open>The modules published by a script, in order.\<close>

definition published :: "('a, 'ty) genesis_call list \<Rightarrow> bytes list" where
  "published calls = concat (map (\<lambda>c. case c of Exec _ _ _ _ \<Rightarrow> [] | Publish code _ \<Rightarrow> code) calls)"

lemma framework_calls_published:
  "framework_calls n E packs = Some calls \<Longrightarrow>
     \<exists>mss. list_all2 (\<lambda>p ms. sorted_code_and_modules n (genesis_modules E) p = Some ms) packs mss \<and>
           published calls = concat (map (map fst) mss)"
proof (induction packs arbitrary: calls)
  case (Cons p packs)
  from Cons.prems obtain cs rest where c: "package_calls n E p = Some cs" "framework_calls n E packs = Some rest" "calls = cs @ rest"
    by (auto simp: bind_eq_Some_conv)
  from c(1) obtain ms where m: "sorted_code_and_modules n (genesis_modules E) p = Some ms" "published cs = map fst ms"
    by (auto simp: package_calls_def bind_eq_Some_conv Let_def published_def)
  from Cons.IH[OF c(2)] obtain mss where "list_all2 (\<lambda>p ms. sorted_code_and_modules n (genesis_modules E) p = Some ms) packs mss"
    "published rest = concat (map (map fst) mss)" by blast
  with m c(3) show ?case by (intro exI[of _ "ms # mss"]) (simp add: published_def)
qed (simp add: published_def)

text \<open>
  The identifiers of a list of code, a list of code in which every module comes after the listed
  modules it depends on, and the order of packages that bundles promise.
\<close>

definition code_ids :: "('cm, 'a) module_ops \<Rightarrow> bytes list \<Rightarrow> ('a \<times> bytes) set" where
  "code_ids M code = {self_id M m | c m. c \<in> set code \<and> module_deserialize M c = Ok m}"

definition in_dependency_order :: "('cm, 'a) module_ops \<Rightarrow> bytes list \<Rightarrow> bool" where
  "in_dependency_order M code \<longleftrightarrow>
     (\<forall>xs c ys m d. code = xs @ c # ys \<longrightarrow> module_deserialize M c = Ok m \<longrightarrow> d \<in> set (immediate_dependencies M m) \<longrightarrow>
        d \<in> code_ids M code \<longrightarrow> d \<in> code_ids M xs)"

definition bottom_up :: "('cm, 'a) module_ops \<Rightarrow> 'a release_package list \<Rightarrow> bool" where
  "bottom_up M packs \<longleftrightarrow>
     (\<forall>ps p qs c m d. packs = ps @ p # qs \<longrightarrow> c \<in> set (rp_code p) \<longrightarrow> module_deserialize M c = Ok m \<longrightarrow>
        d \<in> set (immediate_dependencies M m) \<longrightarrow> d \<in> code_ids M (concat (map rp_code packs)) \<longrightarrow>
        d \<in> code_ids M (concat (map rp_code (ps @ [p]))))"

lemma code_ids_append: "code_ids M (xs @ ys) = code_ids M xs \<union> code_ids M ys"
  by (auto simp: code_ids_def)

lemma code_ids_concat: "code_ids M (concat xss) = (\<Union>xs \<in> set xss. code_ids M xs)"
  by (auto simp: code_ids_def)

lemma unwrapped: "sequence_opt (map (unwrap_module M) code) = Some cms \<Longrightarrow> (c, m) \<in> set cms \<longleftrightarrow> c \<in> set code \<and> module_deserialize M c = Ok m"
proof (induction code arbitrary: cms)
  case (Cons c' code)
  then obtain x rest where x: "unwrap_module M c' = Some x" "sequence_opt (map (unwrap_module M) code) = Some rest" "cms = x # rest"
    by (auto simp: bind_eq_Some_conv)
  from x(1) obtain m' where "module_deserialize M c' = Ok m'" "x = (c', m')"
    by (cases "module_deserialize M c'") (auto simp: unwrap_module_def)
  with Cons.IH[OF x(2)] x(3) show ?case by auto
qed simp

text \<open>A package lists its own modules, each after those of the package that it depends on.\<close>

lemma package_in_order:
  assumes "sorted_code_and_modules n M p = Some ms"
  shows "code_ids M (map fst ms) = code_ids M (rp_code p)" "set (map fst ms) \<subseteq> set (rp_code p)"
    "in_dependency_order M (map fst ms)"
proof -
  from assms obtain cms where c: "sequence_opt (map (unwrap_module M) (rp_code p)) = Some cms"
    by (auto simp: sorted_code_and_modules_def bind_eq_Some_conv)
  note l = sorted_code_listed[OF c assms]
  have d: "module_deserialize M (fst x) = Ok (snd x) \<and> fst x \<in> set (rp_code p)" if "x \<in> set ms" for x
    using that l(1) unwrapped[OF c, of "fst x" "snd x"] by auto
  have ids: "code_ids M (map fst xs) = (self_id M \<circ> snd) ` set xs" if "set xs \<subseteq> set ms" for xs
  proof -
    have "code_ids M (map fst xs) = {self_id M m | x m. x \<in> set xs \<and> module_deserialize M (fst x) = Ok m}"
      unfolding code_ids_def set_map by blast
    also have "\<dots> = {self_id M (snd x) | x. x \<in> set xs}"
      using that d by (intro Collect_cong) (metis result.inject(1) subsetD)
    finally show ?thesis unfolding Setcompr_eq_image comp_def .
  qed
  have "code_ids M (rp_code p) = (self_id M \<circ> snd) ` set cms"
    using unwrapped[OF c] by (force simp: code_ids_def)
  with ids[OF order_refl] l(3) show i: "code_ids M (map fst ms) = code_ids M (rp_code p)" by simp
  show "set (map fst ms) \<subseteq> set (rp_code p)" using d by auto
  show "in_dependency_order M (map fst ms)" unfolding in_dependency_order_def
  proof (intro allI impI)
    fix xs c' ys m e
    assume a: "map fst ms = xs @ c' # ys" "module_deserialize M c' = Ok m" "e \<in> set (immediate_dependencies M m)" "e \<in> code_ids M (map fst ms)"
    then obtain us x vs where u: "ms = us @ x # vs" "map fst us = xs" "fst x = c'" by (auto simp: map_eq_append_conv map_eq_Cons_conv)
    have x: "x \<in> set ms" "snd x = m" using u d[of x] a(2) by auto
    have "module_deps M (module_map M cms) (self_id M m) = Some (immediate_dependencies M m)"
      using l(6)[OF x(1)] x(2) by (auto simp: module_deps_def case_prod_unfold)
    moreover have "e \<in> dom (map_of (module_map M cms))" using a(4) ids[OF order_refl] l(3) module_map_entries(1)[of M cms] by simp
    then have "module_deps M (module_map M cms) e \<noteq> None" by (metis dom_module_deps domIff)
    ultimately have "(e, self_id M m) \<in> dep_rel (module_deps M (module_map M cms))" using a(3) by (simp add: dep_rel_def)
    moreover have "map (self_id M \<circ> snd) ms = map (self_id M \<circ> snd) us @ self_id M m # map (self_id M \<circ> snd) vs" by (simp add: u(1) x(2))
    ultimately have "e \<in> set (map (self_id M \<circ> snd) us)" using l(4) unfolding topological_def by blast
    then show "e \<in> code_ids M xs" using ids[of us] u by auto
  qed
qed

lemma concat_split:
  "concat xss = xs @ x # ys \<Longrightarrow> \<exists>as zs bs us vs. xss = as @ zs # bs \<and> zs = us @ x # vs \<and> xs = concat as @ us"
proof (induction xss arbitrary: xs)
  case (Cons zs xss)
  from Cons.prems have "zs @ concat xss = xs @ x # ys" by simp
  then consider (in_head) us where "zs = xs @ us" "us @ concat xss = x # ys" | (later) us where "xs = zs @ us" "concat xss = us @ x # ys"
    by (auto simp: append_eq_append_conv2)
  then show ?case
  proof cases
    case in_head
    then show ?thesis
    proof (cases us)
      case Nil
      with in_head Cons.IH[of "[]"] obtain as zs' bs us' vs where "xss = as @ zs' # bs" "zs' = us' @ x # vs" "[] = concat as @ us'" by auto
      with in_head Nil show ?thesis by (intro exI[of _ "zs # as"] exI[of _ zs'] exI[of _ bs] exI[of _ us'] exI[of _ vs]) simp
    next
      case (Cons y us')
      with in_head show ?thesis by (intro exI[of _ "[]"] exI[of _ zs] exI[of _ xss] exI[of _ xs] exI[of _ us']) simp
    qed
  next
    case later
    from Cons.IH[OF later(2)] obtain as zs' bs us' vs where "xss = as @ zs' # bs" "zs' = us' @ x # vs" "us = concat as @ us'" by blast
    with later show ?thesis by (intro exI[of _ "zs # as"] exI[of _ zs'] exI[of _ bs] exI[of _ us'] exI[of _ vs]) simp
  qed
qed simp

lemma sorted_packages_ids:
  "list_all2 (\<lambda>p ms. sorted_code_and_modules n M p = Some ms) packs mss \<Longrightarrow>
     code_ids M (concat (map (map fst) mss)) = code_ids M (concat (map rp_code packs))"
  by (induction packs mss rule: list_all2_induct) (simp_all add: code_ids_append package_in_order(1))

lemma framework_in_order:
  assumes "list_all2 (\<lambda>p ms. sorted_code_and_modules n M p = Some ms) packs mss" "bottom_up M packs"
  shows "in_dependency_order M (concat (map (map fst) mss))"
  unfolding in_dependency_order_def
proof (intro allI impI)
  fix xs c ys m d
  assume a: "concat (map (map fst) mss) = xs @ c # ys" "module_deserialize M c = Ok m" "d \<in> set (immediate_dependencies M m)"
    "d \<in> code_ids M (concat (map (map fst) mss))"
  from concat_split[OF a(1)] obtain as0 zs0 bs0 us vs where
    0: "map (map fst) mss = as0 @ zs0 # bs0" "zs0 = us @ c # vs" "xs = concat as0 @ us" by blast
  then obtain as r where r: "mss = as @ r" "map (map fst) as = as0" "map (map fst) r = zs0 # bs0" by (auto simp: map_eq_append_conv)
  then obtain ms bs where "r = ms # bs" "map fst ms = zs0" by auto
  with 0 r have s: "mss = as @ ms # bs" "map fst ms = us @ c # vs" "xs = concat (map (map fst) as) @ us" by simp_all
  from assms(1)[unfolded s(1)] obtain ps p qs where p: "packs = ps @ p # qs"
    "list_all2 (\<lambda>p ms. sorted_code_and_modules n M p = Some ms) ps as" "sorted_code_and_modules n M p = Some ms"
    by (auto simp: list_all2_append2 list_all2_Cons2)
  note pk = package_in_order[OF p(3)]
  have "c \<in> set (rp_code p)" using pk(2) s(2) by auto
  with assms(2) p(1) a(2-4) sorted_packages_ids[OF assms(1)]
  have "d \<in> code_ids M (concat (map rp_code (ps @ [p])))" unfolding bottom_up_def by metis
  then consider "d \<in> code_ids M (concat (map rp_code ps))" | "d \<in> code_ids M (rp_code p)" by (auto simp: code_ids_append)
  then show "d \<in> code_ids M xs"
  proof cases
    case 1 with sorted_packages_ids[OF p(2)] show ?thesis by (simp add: s(3) code_ids_append)
  next
    case 2
    with pk(1,3) s(2) a(2,3) have "d \<in> code_ids M us" unfolding in_dependency_order_def by metis
    then show ?thesis by (simp add: s(3) code_ids_append)
  qed
qed

text \<open>Without deltas no aggregator change is a merge.\<close>

lemma bt_insert_nonempty: "bt_insert k v m \<noteq> []"
  by (cases m) (auto split: if_splits)

lemma aggregator_writes_no_delta:
  "aggregator_writes bcs K cs ws ds = Some (ws', []) \<Longrightarrow> ds = [] \<and> (\<forall>d. ChMerge d \<notin> snd ` set cs)"
proof (induction bcs K cs ws ds rule: aggregator_writes.induct)
  case (2 bcs K i change rest writes deltas)
  then show ?case
    by (cases change) (force simp: bind_eq_Some_conv dcs_insert_def bt_insert_nonempty)+
qed simp

text \<open>The closing part: what it ran, what became of the two outputs, and what it checked.\<close>

lemma genesis_close_run:
  assumes "genesis_close n E framework s1' vm = Some (ws, events)"
  obtains s2 vm2 calls s2' out1 out2 out cse where
    "vm_ext_new_session (runtime E) vm (genesis_remote genesis_state_view_new)
       (Genesis (hash_value (types E) ((replicate 32 0)[31 := 1]))) = Some (s2, vm2)"
    "framework_calls n E (rb_packages framework) = Some calls" "run_session_calls E calls s2 = Some s2'"
    "genesis_session_finish E s1' = Some out1" "genesis_session_finish E s2' = Some out2"
    "session_squash (move_change_set_squash E) (partial_error_into_status E) out1 out2 = Some (Ok out)"
    "session_into_change_set (aggregator_codec E) (genesis_change_sets E) out LATEST_GAS_FEATURE_VERSION = Some (Ok cse)"
    "cse_deltas cse = []" "cse_change_set cse = (ws, events)" "Deletion \<notin> snd ` set ws"
    "length (filter (\<lambda>e. contract_event_key (types E) e = new_epoch_event_key (types E)) events) = 1"
proof -
  from assms obtain out1 s2 vm2 s2' out2 r out r' cse where
    n: "genesis_session_finish E s1' = Some out1"
       "vm_ext_new_session (runtime E) vm (genesis_remote genesis_state_view_new)
          (Genesis (hash_value (types E) ((replicate 32 0)[31 := 1]))) = Some (s2, vm2)"
       "publish_framework n E (rb_packages framework) s2 = Some s2'" "genesis_session_finish E s2' = Some out2"
       "session_squash (move_change_set_squash E) (partial_error_into_status E) out1 out2 = Some r" "ok r = Some out"
       "session_into_change_set (aggregator_codec E) (genesis_change_sets E) out LATEST_GAS_FEATURE_VERSION = Some r'" "ok r' = Some cse"
       "cse_deltas cse = []" "cse_change_set cse = (ws, events)"
    and v: "\<not> list_ex (\<lambda>(_, op). op = Deletion) ws" "verify_genesis_write_set (types E) events = Some ()"
    unfolding genesis_close_def Let_def cse_into_inner_def by (auto simp: bind_eq_Some_conv split: if_splits)
  have "Deletion \<notin> snd ` set ws" using v(1) by (auto simp: list_ex_iff)
  moreover have "length (filter (\<lambda>e. contract_event_key (types E) e = new_epoch_event_key (types E)) events) = 1"
    using v(2) by (auto simp: verify_genesis_write_set_def Let_def split: list.splits if_splits)
  ultimately show thesis using that n publish_framework_calls[OF n(3)] n(6,8)[unfolded ok_eq_Some] by blast
qed

lemma squash_events: "session_squash f g a b = Some (Ok out) \<Longrightarrow> so_events out = so_events a @ so_events b"
  by (auto simp: session_squash_def map_ok_eq_Ok split: result.splits)

lemma change_set_parts:
  fixes C :: "('a, 'tag, 'k::linorder, 'ek, 'ev, 'loc, 'ef, 'x) change_set_ops"
  assumes "session_into_change_set bcs C out fv = Some (Ok cse)" "cse_deltas cse = []" "cse_change_set cse = (ws, events)"
  shows "\<forall>d. ChMerge d \<notin> snd ` set (so_aggregator_change_set out)"
    and "(\<forall>ws ev v cs. change_set_new C ws ev v = Ok cs \<longrightarrow> cs = (ws, ev)) \<Longrightarrow>
      convert_events (decode_event_key C) (contract_event C) (so_events out) = (Ok events :: (_, ('loc, 'ef) vm_status) result)"
proof -
  from assms obtain writes deltas write_set ev cs where
    a: "aggregator_writes bcs (cs_keys C) (so_aggregator_change_set out)
          (account_writes (cs_keys C) fv (so_change_set out) @ table_writes (cs_keys C) (table_changes (so_table_change_set out))) dcs_empty =
        Some (writes, deltas)"
    and e: "convert_events (decode_event_key C) (contract_event C) (so_events out) = (Ok ev :: (_, ('loc, 'ef) vm_status) result)"
    and c: "change_set_new C write_set ev fv = Ok cs" "cse = change_set_ext_new deltas cs fv"
    by (auto simp: session_into_change_set_def Let_def bind_eq_Some_conv bind_ok_eq_Ok map_err_eq_Ok)
  show "\<forall>d. ChMerge d \<notin> snd ` set (so_aggregator_change_set out)"
    using aggregator_writes_no_delta[of bcs "cs_keys C"] a assms(2) c(2) by (auto simp: change_set_ext_new_def)
  show "convert_events (decode_event_key C) (contract_event C) (so_events out) = (Ok events :: (_, ('loc, 'ef) vm_status) result)"
    if "\<forall>ws ev v cs. change_set_new C ws ev v = Ok cs \<longrightarrow> cs = (ws, ev)"
    using that c e assms(3) by (force simp: change_set_ext_new_def)
qed

text \<open>The converted events do not depend on the type of the errors.\<close>

lemma convert_events_any:
  assumes "convert_events dk ce evs = (Ok events :: (_, ('loc, 'ef) vm_status) result)"
  shows "Ok events = map_err (\<lambda>_. ()) (convert_events dk ce evs :: (_, (unit, unit) vm_status) result)"
proof -
  have "convert_events dk ce evs = (Ok events :: (_, (unit, unit) vm_status) result)"
    using assms by (induction evs arbitrary: events) (auto simp: map_ok_eq_Ok split: option.splits)
  then show ?thesis by simp
qed

lemma framework_order:
  assumes "framework_calls n E (rb_packages framework) = Some calls"
  shows "code_ids (genesis_modules E) (published calls) = code_ids (genesis_modules E) (bundle_code framework)"
    "bottom_up (genesis_modules E) (rb_packages framework) \<longrightarrow> in_dependency_order (genesis_modules E) (published calls)"
proof -
  from framework_calls_published[OF assms] obtain mss where
    m: "list_all2 (\<lambda>p ms. sorted_code_and_modules n (genesis_modules E) p = Some ms) (rb_packages framework) mss"
      "published calls = concat (map (map fst) mss)" by blast
  show "code_ids (genesis_modules E) (published calls) = code_ids (genesis_modules E) (bundle_code framework)"
    using sorted_packages_ids[OF m(1)] m(2) by (simp add: bundle_code_concat)
  show "bottom_up (genesis_modules E) (rb_packages framework) \<longrightarrow> in_dependency_order (genesis_modules E) (published calls)"
    using framework_in_order[OF m(1)] m(2) by simp
qed

text \<open>
  C12. When the genesis change set is returned, the configuration passed its checks, with an epoch of at
  most a year.  A first session, on a state that holds exactly the modules of the bundle, made the calls of
  the setup script with their arguments, in order; a second session, on the empty state, published every
  package of the bundle, each with its metadata.  The change set is the conversion of the squash of the two
  outputs: no aggregator change is left as a merge, nothing is deleted, its events are those of the
  first session followed by those of the second (if \<open>ChangeSet::new\<close> keeps what it is given), and exactly one
  of them is a new epoch event.  If moreover the packages of the bundle are ordered bottom up, every module
  was published after all modules of the bundle that it depends on.
\<close>

theorem genesis_runs_in_order:
  assumes "encode_genesis_change_set n E key validators framework cc cid c = Some (ws, events)"
  shows "validate_genesis_config c = Some () \<and> epoch_duration_secs c \<le> NUM_SECONDS_PER_YEAR \<and>
    (\<exists>modules vm0 remote s1 vm gas consensus features none vs s1' out1 s2 vm2 calls s2' out2 out cse.
       code_and_compiled_modules (genesis_modules E) framework = Some modules \<and>
       vm_ext_new_session (runtime E) vm0 remote (Genesis (hash_value (types E) (replicate 32 0))) = Some (s1, vm) \<and>
       (\<forall>k. remote_get remote k = Ok (map_of (rev (map (\<lambda>(code, m). (module_state_key E (self_id (genesis_modules E) m), code)) modules)) k)) \<and>
       gas_schedule_bytes (genesis_bcs E) (current_gas_schedule (testing_build E) (initial_gas_price E)) = Some gas \<and>
       consensus_bytes (genesis_bcs E) cc = Some consensus \<and> u64s_bytes (genesis_bcs E) [1, 2] = Some features \<and>
       u64s_bytes (genesis_bcs E) [] = Some none \<and> validators_bytes (genesis_bcs E) validators = Some vs \<and>
       run_session_calls E (setup_script E key cid c gas consensus features none vs) s1 = Some s1' \<and>
       genesis_session_finish E s1' = Some out1 \<and>
       vm_ext_new_session (runtime E) vm (genesis_remote genesis_state_view_new)
         (Genesis (hash_value (types E) ((replicate 32 0)[31 := 1]))) = Some (s2, vm2) \<and>
       framework_calls n E (rb_packages framework) = Some calls \<and>
       run_session_calls E calls s2 = Some s2' \<and> genesis_session_finish E s2' = Some out2 \<and>
       code_ids (genesis_modules E) (published calls) = code_ids (genesis_modules E) (bundle_code framework) \<and>
       (bottom_up (genesis_modules E) (rb_packages framework) \<longrightarrow> in_dependency_order (genesis_modules E) (published calls)) \<and>
       session_squash (move_change_set_squash E) (partial_error_into_status E) out1 out2 = Some (Ok out) \<and>
       session_into_change_set (aggregator_codec E) (genesis_change_sets E) out LATEST_GAS_FEATURE_VERSION = Some (Ok cse) \<and>
       cse_change_set cse = (ws, events) \<and>
       (\<forall>d. ChMerge d \<notin> snd ` set (so_aggregator_change_set out)) \<and>
       ((\<forall>ws ev v cs. change_set_new (genesis_change_sets E) ws ev v = Ok cs \<longrightarrow> cs = (ws, ev)) \<longrightarrow>
          Ok events = map_err (\<lambda>_. ()) (convert_events (decode_event_key (genesis_change_sets E)) (contract_event (genesis_change_sets E))
            (so_events out1 @ so_events out2) :: (_, (unit, unit) vm_status) result))) \<and>
    Deletion \<notin> snd ` set ws \<and>
    length (filter (\<lambda>e. contract_event_key (types E) e = new_epoch_event_key (types E)) events) = 1"
proof -
  let ?M = "genesis_modules E" and ?packs = "rb_packages framework" and ?C = "genesis_change_sets E"
  from assms show ?thesis
  proof (rule setup_run)
    fix s1 vm s1' gas consensus features none vs
    assume v: "validate_genesis_config c = Some ()" "epoch_duration_secs c \<le> NUM_SECONDS_PER_YEAR"
      and o: "genesis_open E framework = Some (s1, vm)"
      and b: "gas_schedule_bytes (genesis_bcs E) (current_gas_schedule (testing_build E) (initial_gas_price E)) = Some gas"
        "consensus_bytes (genesis_bcs E) cc = Some consensus" "u64s_bytes (genesis_bcs E) [1, 2] = Some features"
        "u64s_bytes (genesis_bcs E) [] = Some none" "validators_bytes (genesis_bcs E) validators = Some vs"
      and r: "run_session_calls E (setup_script E key cid c gas consensus features none vs) s1 = Some s1'"
      and cl: "genesis_close n E framework s1' vm = Some (ws, events)"
    from genesis_open_state[OF o] obtain vm0 remote modules where st:
      "code_and_compiled_modules ?M framework = Some modules"
      "vm_ext_new_session (runtime E) vm0 remote (Genesis (hash_value (types E) (replicate 32 0))) = Some (s1, vm)"
      "\<And>k. remote_get remote k = Ok (map_of (rev (map (\<lambda>(code, m). (module_state_key E (self_id ?M m), code)) modules)) k)" by metis
    from genesis_close_run[OF cl] obtain s2 vm2 calls s2' out1 out2 out cse where g:
      "vm_ext_new_session (runtime E) vm (genesis_remote genesis_state_view_new)
         (Genesis (hash_value (types E) ((replicate 32 0)[31 := 1]))) = Some (s2, vm2)"
      "framework_calls n E ?packs = Some calls" "run_session_calls E calls s2 = Some s2'"
      "genesis_session_finish E s1' = Some out1" "genesis_session_finish E s2' = Some out2"
      "session_squash (move_change_set_squash E) (partial_error_into_status E) out1 out2 = Some (Ok out)"
      "session_into_change_set (aggregator_codec E) ?C out LATEST_GAS_FEATURE_VERSION = Some (Ok cse)"
      "cse_deltas cse = []" "cse_change_set cse = (ws, events)" "Deletion \<notin> snd ` set ws"
      "length (filter (\<lambda>e. contract_event_key (types E) e = new_epoch_event_key (types E)) events) = 1"
      by (rule genesis_close_run[OF cl], rule that; assumption)
    note order = framework_order[OF g(2)]
    note parts = change_set_parts[OF g(7-9)]
    have ev: "(\<forall>ws ev v cs. change_set_new ?C ws ev v = Ok cs \<longrightarrow> cs = (ws, ev)) \<longrightarrow>
        Ok events = map_err (\<lambda>_. ()) (convert_events (decode_event_key ?C) (contract_event ?C)
            (so_events out1 @ so_events out2) :: (_, (unit, unit) vm_status) result)"
      using parts(2) unfolding squash_events[OF g(6)] by (blast intro: convert_events_any)
    have remote: "\<forall>k. remote_get remote k =
        Ok (map_of (rev (map (\<lambda>(code, m). (module_state_key E (self_id ?M m), code)) modules)) k)" using st(3) by blast
    show ?thesis by (intro conjI exI) (fact v st remote b r g order parts(1) ev)+
  qed
qed

text \<open>A session that logs its calls and emits the new epoch event of the setup.\<close>

definition demo_bundle :: "nat release_bundle" where
  "demo_bundle = release_bundle_new
     [\<lparr>rp_metadata = demo_package_metadata, rp_code = [[1, 2], [2]]\<rparr>, \<lparr>rp_metadata = demo_package_metadata, rp_code = [[3, 1]]\<rparr>] []"

definition demo_sessions :: "((string \<times> string) list \<times> (nat \<times> bytes list) list, nat, unit, unit, unit, unit, unit) session_ops" where
  "demo_sessions =
     \<lparr>execute_function_bypass_visibility = (\<lambda>_ f _ _ (names, pubs). (Ok (), names @ [([], f)], pubs)),
      publish_module_bundle = (\<lambda>code addr (names, pubs). (Ok (), names, pubs @ [(addr, code)])),
      finish_with_extensions = (\<lambda>(names, pubs).
        Ok (map (\<lambda>(a, code). (a, map (\<lambda>c. (map (char_of \<circ> unat) c, New c)) code, [])) pubs,
            if pubs = [] then [([7], 0, (), [])] else [],
            Ok \<lparr>new_tables = [], removed_tables = {}, table_changes = []\<rparr>,
            native_context_new [] (\<lambda>_ _. Ok None))),
      finish_vm_error = (\<lambda>_. ())\<rparr>"

definition demo_runtime :: "(unit, (string \<times> string) list \<times> (nat \<times> bytes list) list, unit, unit, nat, unit, nat, bytes, unit) move_runtime" where
  "demo_runtime =
     \<lparr>new_with_configs = (\<lambda>_ _ _ _. Ok ()), flush_loader_cache_if_invalidated = id, new_session_with_extensions = (\<lambda>_ _ _. ([], [])),
      table_context_new = (\<lambda>_ _. ()), session_id_hash = (\<lambda>_. replicate 32 9), table_item_key = (\<lambda>_ _. 0)\<rparr>"

definition demo_genesis_bcs :: "(nat, unit) genesis_codec" where
  "demo_genesis_bcs =
     \<lparr>g_serialize_values = map (\<lambda>_. []), g_simple_serialize = (\<lambda>_. Some []), gas_schedule_bytes = (\<lambda>_. Some []),
      consensus_bytes = (\<lambda>_. Some []), u64s_bytes = (\<lambda>_. Some []), accounts_bytes = (\<lambda>_. Some []), employees_bytes = (\<lambda>_. Some []),
      validators_bytes = (\<lambda>_. Some []), commissioned_bytes = (\<lambda>_. Some []), metadata_bytes = (\<lambda>_. Some [])\<rparr>"

definition demo_genesis_types :: "(nat, bytes, unit, unit, bytes, bytes \<times> u64) genesis_types" where
  "demo_genesis_types =
     \<lparr>core_code_address = 1, genesis_vm_address = 0, aptos_test_root_address = 10, max_known_version = 2, default_consensus_v1 = (),
      default_on_chain_consensus = (), test_chain_id = 4, ed25519_authentication_key = (\<lambda>_. []), hash_value = id,
      treat_friend_by_default = False, new_epoch_event_key = [7], contract_event_key = fst, event_sequence_number = snd\<rparr>"

definition demo_genesis_change_sets :: "(nat, unit, nat, bytes, bytes \<times> u64, unit, unit, unit) change_set_ops" where
  "demo_genesis_change_sets =
     \<lparr>cs_keys = \<lparr>resource_key = (\<lambda>a _. a), module_key = (\<lambda>a name. a + length name), table_item = (\<lambda>_ _. 0), aggregator_key_bytes = (\<lambda>_. [])\<rparr>,
      freeze_inserted = (\<lambda>ws. Ok (bt_collect ws [])), decode_event_key = Some, contract_event = (\<lambda>k n _ _. (k, n)),
      change_set_new = (\<lambda>ws ev _. Ok (ws, ev))\<rparr>"

definition demo_genesis where
  "demo_genesis =
     \<lparr>runtime = demo_runtime, runtime_checks = None, native_libraries = demo_native_libs, sessions = demo_sessions,
      genesis_bcs = demo_genesis_bcs, types = demo_genesis_types, genesis_modules = demo_release_modules,
      module_state_key = (\<lambda>(a, n). a + length n), aggregator_codec = \<lparr>to_bytes = (\<lambda>_. None), from_bytes = (\<lambda>_. None)\<rparr>,
      genesis_change_sets = demo_genesis_change_sets, move_change_set_squash = (\<lambda>a b. (Ok (a @ b) :: (_, unit) result)),
      partial_error_into_status = (\<lambda>_. StatusError DATA_FORMAT_ERROR), testing_build = False, initial_gas_price = 100\<rparr>"

lemma demo_packages_sorted:
  "sorted_code_and_modules 2 demo_release_modules \<lparr>rp_metadata = demo_package_metadata, rp_code = [[1, 2], [2]]\<rparr> =
     Some [([2], [2]), ([1, 2], [1, 2])]"
  "sorted_code_and_modules 2 demo_release_modules \<lparr>rp_metadata = demo_package_metadata, rp_code = [[3, 1]]\<rparr> = Some [([3, 1], [3, 1])]"
  "code_and_compiled_modules demo_release_modules demo_bundle = Some [([1, 2], [1, 2]), ([2], [2]), ([3, 1], [3, 1])]"
  by code_simp+

lemma demo_bottom_up: "bottom_up demo_release_modules (rb_packages demo_bundle)"
  unfolding bottom_up_def demo_bundle_def release_bundle_new_def
  by (auto simp: Cons_eq_append_conv code_ids_def demo_release_modules_def append_eq_Cons_conv)

lemma demo_opened: "genesis_open demo_genesis demo_bundle = Some (([], []), ())"
  by (simp add: genesis_open_def demo_genesis_def demo_packages_sorted demo_runtime_def demo_genesis_types_def Let_def
      move_vm_ext_new_def vm_ext_new_session_def session_txn_hash_def)

lemma demo_exec: "exec_function demo_genesis m f ty_args args (names, pubs) = Some (names @ [([], f)], pubs)"
  by (simp add: exec_function_def demo_genesis_def demo_sessions_def demo_genesis_types_def)

lemma demo_published:
  "publish_framework 2 demo_genesis (rb_packages demo_bundle) ([], []) =
     Some ([([], ''initialize''), ([], ''initialize'')], [(1, [[2], [1, 2]]), (1, [[3, 1]])])"
proof -
  have g: "genesis_modules demo_genesis = demo_release_modules" "genesis_bcs demo_genesis = demo_genesis_bcs" "sessions demo_genesis = demo_sessions"
    "self_id demo_release_modules m = (1, take 1 m)" for m
    by (simp_all add: demo_genesis_def demo_release_modules_def)
  show ?thesis
    by (simp add: demo_bundle_def release_bundle_new_def publish_package_def g demo_packages_sorted demo_exec demo_sessions_def demo_genesis_bcs_def
        Let_def)
qed

lemma demo_closed:
  "genesis_close 2 demo_genesis demo_bundle (names, []) () =
     Some ([(2, Creation [2]), (3, Creation [3, 1])], [([7], 0)])"
proof -
  have g: "types demo_genesis = demo_genesis_types" "genesis_change_sets demo_genesis = demo_genesis_change_sets"
    "sessions demo_genesis = demo_sessions" "runtime demo_genesis = demo_runtime"
    "move_change_set_squash demo_genesis = (\<lambda>a b. Ok (a @ b))"
    by (simp_all add: demo_genesis_def)
  have f: "genesis_session_finish demo_genesis (names, pubs) =
      Some \<lparr>so_change_set = map (\<lambda>(a, code). (a, map (\<lambda>c. (map (char_of \<circ> unat) c, New c)) code, [])) pubs,
            so_events = (if pubs = [] then [([7], 0, (), [])] else []),
            so_table_change_set = \<lparr>new_tables = [], removed_tables = {}, table_changes = []\<rparr>, so_aggregator_change_set = []\<rparr>" for names pubs
    by (simp add: genesis_session_finish_def g demo_sessions_def session_finish_def native_context_new_def into_change_set_def
        aggregator_data_default_def aggregator_data_into_def)
  have n: "vm_ext_new_session demo_runtime () remote sid = Some (([], []), ())" for remote sid
    by (simp add: vm_ext_new_session_def session_txn_hash_def demo_runtime_def Let_def)
  show ?thesis
    by (simp add: genesis_close_def g f n demo_published session_squash_def squash_table_change_sets_def session_into_change_set_def
        demo_genesis_change_sets_def account_writes_def table_writes_def change_set_ext_new_def cse_into_inner_def dcs_empty_def
        verify_genesis_write_set_def demo_genesis_types_def Let_def LATEST_GAS_FEATURE_VERSION_def)
qed

lemma demo_encoded:
  "encode_genesis_change_set 2 demo_genesis () [] demo_bundle () 4 test_genesis_config =
     Some ([(2, Creation [2]), (3, Creation [3, 1])], [([7], 0)])"
proof -
  have t: "is_test test_genesis_config" by (simp add: test_genesis_config_def)
  have b: "genesis_bcs demo_genesis = demo_genesis_bcs" by (simp add: demo_genesis_def)
  show ?thesis
    by (simp add: encode_genesis_change_set_def test_genesis_config_valid demo_opened t setup_defs emit_new_block_and_epoch_event_def b
        demo_exec demo_closed) (simp add: demo_genesis_bcs_def demo_exec demo_closed)
qed

theorem genesis_runs_in_order_witness:
  "encode_genesis_change_set 2 demo_genesis () [] demo_bundle () 4 test_genesis_config =
     Some ([(2, Creation [2]), (3, Creation [3, 1])], [([7], 0)]) \<and>
   bottom_up demo_release_modules (rb_packages demo_bundle) \<and>
   (\<exists>s1 s1'. run_session_calls demo_genesis (setup_script demo_genesis () 4 test_genesis_config [] [] [] [] []) s1 = Some s1') \<and>
   (\<exists>calls s2 s2'. framework_calls 2 demo_genesis (rb_packages demo_bundle) = Some calls \<and>
      run_session_calls demo_genesis calls s2 = Some s2' \<and> in_dependency_order demo_release_modules (published calls) \<and>
      code_ids demo_release_modules (published calls) = code_ids demo_release_modules (bundle_code demo_bundle))"
proof -
  have m: "genesis_modules demo_genesis = demo_release_modules" by (simp add: demo_genesis_def)
  have b: "gas_schedule_bytes (genesis_bcs demo_genesis) x = Some y \<Longrightarrow> y = []"
    "consensus_bytes (genesis_bcs demo_genesis) z = Some y \<Longrightarrow> y = []" "u64s_bytes (genesis_bcs demo_genesis) u = Some y \<Longrightarrow> y = []"
    "validators_bytes (genesis_bcs demo_genesis) w = Some y \<Longrightarrow> y = []" for x y z u w
    by (simp_all add: demo_genesis_def demo_genesis_bcs_def)
  from genesis_runs_in_order[OF demo_encoded] obtain s1 gas consensus features none vs s1' calls s2 s2' where w:
    "gas_schedule_bytes (genesis_bcs demo_genesis) (current_gas_schedule (testing_build demo_genesis) (initial_gas_price demo_genesis)) = Some gas"
    "consensus_bytes (genesis_bcs demo_genesis) () = Some consensus" "u64s_bytes (genesis_bcs demo_genesis) [1, 2] = Some features"
    "u64s_bytes (genesis_bcs demo_genesis) [] = Some none" "validators_bytes (genesis_bcs demo_genesis) [] = Some vs"
    "run_session_calls demo_genesis (setup_script demo_genesis () 4 test_genesis_config gas consensus features none vs) s1 = Some s1'"
    "framework_calls 2 demo_genesis (rb_packages demo_bundle) = Some calls" "run_session_calls demo_genesis calls s2 = Some s2'"
    "code_ids (genesis_modules demo_genesis) (published calls) = code_ids (genesis_modules demo_genesis) (bundle_code demo_bundle)"
    "bottom_up (genesis_modules demo_genesis) (rb_packages demo_bundle) \<longrightarrow> in_dependency_order (genesis_modules demo_genesis) (published calls)"
    by (elim conjE exE) (rule that; assumption)
  have bytes: "gas = []" "consensus = []" "features = []" "none = []" "vs = []"
    using b(1)[OF w(1)] b(2)[OF w(2)] b(3)[OF w(3)] b(3)[OF w(4)] b(4)[OF w(5)] by simp_all
  note run = w(6)[unfolded bytes]
  note order = mp[OF w(10)[unfolded m] demo_bottom_up]
  show ?thesis by (intro conjI exI) (fact demo_encoded demo_bottom_up run w(7,8) order w(9)[unfolded m])+
qed

end
