(* ===== verification/Writeset_Builder.thy ===== *)
theory Writeset_Builder
  imports Genesis
begin

text \<open>
  Change sets built by administrators, from \<^verbatim>\<open>writeset-transaction-generator/src/writeset_builder.rs\<close>: a
  procedure runs in a genesis session on the current state, with reconfiguration disabled around it.
  Functions are called as by \<open>exec_function\<close> of \<open>Genesis\<close>.
\<close>

section \<open>Definitions\<close>

definition test_root_signer where
  "test_root_signer E = MVSigner (aptos_test_root_address (types E))"

definition exec_script where
  "exec_script execute_script sender_bytes convert_args sender code ty_args args session =
     (let temp = [sender_bytes sender] @ convert_args args
      in case execute_script code ty_args temp session of
           (Ok values, session) \<Rightarrow> Some (values, session)
         | (Err _, _) \<Rightarrow> None)"

definition disable_reconfiguration where
  "disable_reconfiguration E session =
     exec_function E ''Reconfiguration'' ''disable_reconfiguration'' [] (g_serialize_values (genesis_bcs E) [test_root_signer E]) session"

definition enable_reconfiguration where
  "enable_reconfiguration E session =
     exec_function E ''Reconfiguration'' ''enable_reconfiguration'' [] (g_serialize_values (genesis_bcs E) [test_root_signer E]) session"

definition set_aptos_version where
  "set_aptos_version E version session =
     exec_function E ''AptosVersion'' ''set_version'' [] (g_serialize_values (genesis_bcs E) [test_root_signer E, MVU64 version]) session"

definition build_changeset where
  "build_changeset E remote procedure =
     do { move_vm \<leftarrow> ok (move_vm_ext_new (runtime E) (native_libraries E) (core_code_address (types E)) (runtime_checks E)
                       native_zeros zeros LATEST_GAS_FEATURE_VERSION (treat_friend_by_default (types E)));
          (session, move_vm) \<leftarrow> vm_ext_new_session (runtime E) move_vm remote (Genesis (hash_value (types E) (replicate 32 0)));
          session \<leftarrow> disable_reconfiguration E session;
          session \<leftarrow> procedure session;
          session \<leftarrow> enable_reconfiguration E session;
          session_out \<leftarrow> genesis_session_finish E session;
          change_set_ext \<leftarrow> Option.bind (session_into_change_set (aggregator_codec E) (genesis_change_sets E) session_out LATEST_GAS_FEATURE_VERSION) ok;
          let (_, change_set) = cse_into_inner change_set_ext;
          Some change_set }"

section \<open>Lemmas\<close>

text \<open>
  The module is called with a capital letter; where the chain has no module of that name, nothing can be
  built.
\<close>

lemma build_changeset_needs_module:
  assumes "\<And>f ty_args args s. fst (execute_function_bypass_visibility (sessions E)
      (core_code_address (types E), map of_char ''Reconfiguration'') f ty_args args s) = Err e"
  shows "build_changeset E remote procedure = None"
proof -
  have "disable_reconfiguration E s = None" for s
    using assms by (auto simp: disable_reconfiguration_def exec_function_def split: prod.split result.split)
      (metis fst_conv result.distinct(1))
  then show ?thesis by (simp add: build_changeset_def split: bind_splits prod.splits)
qed

text \<open>
  The procedure runs between the two calls, and the deltas of the session are dropped: the result is the
  change set alone, whatever aggregator changes were merged.
\<close>

lemma build_changeset_run:
  assumes "build_changeset E remote procedure = Some cs"
  obtains s1 s2 s3 s4 out cse where
    "run_session_calls E [Exec ''Reconfiguration'' ''disable_reconfiguration'' [] (g_serialize_values (genesis_bcs E) [test_root_signer E])] s1 = Some s2"
    "procedure s2 = Some s3"
    "run_session_calls E [Exec ''Reconfiguration'' ''enable_reconfiguration'' [] (g_serialize_values (genesis_bcs E) [test_root_signer E])] s3 = Some s4"
    "genesis_session_finish E s4 = Some out"
    "Option.bind (session_into_change_set (aggregator_codec E) (genesis_change_sets E) out LATEST_GAS_FEATURE_VERSION) ok = Some cse"
    "cs = cse_change_set cse"
proof -
  from assms obtain s1 s2 s3 s4 out cse where s: "disable_reconfiguration E s1 = Some s2" "procedure s2 = Some s3"
    "enable_reconfiguration E s3 = Some s4" "genesis_session_finish E s4 = Some out"
    "Option.bind (session_into_change_set (aggregator_codec E) (genesis_change_sets E) out LATEST_GAS_FEATURE_VERSION) ok = Some cse"
    "cs = cse_change_set cse"
    unfolding build_changeset_def Let_def cse_into_inner_def by (auto simp: bind_eq_Some_conv)
  from that[OF _ s(2) _ s(4-6), of s1] s(1,3) show thesis
    by (simp add: disable_reconfiguration_def enable_reconfiguration_def)
qed

end
