(* ===== verification/Read_Write_Set.thy ===== *)
theory Read_Write_Set
  imports Txn_Prologue Seq_Adapter
begin

text \<open>
  The resources a transaction may touch, from \<^verbatim>\<open>aptos-vm/src/read_write_set_analysis.rs\<close>: the summaries of
  prologue, payload and epilogue, bound to the arguments of the transaction, are made concrete and
  united.  The summaries come from an external analysis (\<open>rw_analysis\<close>).
\<close>

section \<open>Definitions\<close>

record ('a, 'ty, 'cf, 'ca, 'rk, 'tag, 'signed, 'meta) rw_analysis =
  get_partially_concretized_summary :: "'a module_id \<Rightarrow> string \<Rightarrow> 'a list \<Rightarrow> bytes list \<Rightarrow> 'ty list \<Rightarrow> ('cf, string) result"
  concretize_formals :: "'cf \<Rightarrow> 'ca option"
  formals_keys_read :: "'cf \<Rightarrow> 'rk list option"
  formals_keys_written :: "'cf \<Rightarrow> 'rk list option"
  accesses_keys_read :: "'ca \<Rightarrow> 'rk list option"
  accesses_keys_written :: "'ca \<Rightarrow> 'rk list option"
  formals_empty :: 'cf
  resource_type :: "'rk \<Rightarrow> 'tag"
  tx_fees_tag :: 'tag
  transaction_validation_module :: "'a module_id"
  rw_block_module :: "'a module_id"
  rw_reserved_vm_address :: 'a
  rw_serialize_values :: "'a move_value list \<Rightarrow> bytes list"
  sender_public_key_bytes :: "'signed \<Rightarrow> bytes"
  get_prologue_move_args :: "'meta \<Rightarrow> 'a \<Rightarrow> 'a move_value list"

type_synonym 'rk keys_result = "('rk list \<times> 'rk list, string) result"

definition add_on_functions_list :: "('a, 'ty, 'cf, 'ca, 'rk, 'tag, 'signed, 'meta) rw_analysis \<Rightarrow> ('a module_id \<times> string) list" where
  "add_on_functions_list A =
     [(rw_block_module A, ''block_prologue''), (transaction_validation_module A, ''script_prologue''),
      (transaction_validation_module A, ''epilogue'')]"

fun ok_or :: "string \<Rightarrow> 'x option \<Rightarrow> ('x, string) result" where
  "ok_or msg None = Err msg"
| "ok_or msg (Some x) = Ok x"

definition concretize_secondary_indexes :: "('a, 'ty, 'cf, 'ca, 'rk, 'tag, 'signed, 'meta) rw_analysis \<Rightarrow> 'cf \<Rightarrow> bool \<Rightarrow> 'rk keys_result" where
  "concretize_secondary_indexes A binded_result concretize =
     (if concretize then
        bind_ok (ok_or ''Failed to concretize read/write set'' (concretize_formals A binded_result)) (\<lambda>concretized_accesses.
        bind_ok (ok_or ''Failed to get read set'' (accesses_keys_read A concretized_accesses)) (\<lambda>reads.
        bind_ok (ok_or ''Failed to get write set'' (accesses_keys_written A concretized_accesses)) (\<lambda>writes.
        Ok (reads, writes))))
      else
        bind_ok (ok_or ''Failed to get read set'' (formals_keys_read A binded_result)) (\<lambda>reads.
        bind_ok (ok_or ''Failed to get write set'' (formals_keys_written A binded_result)) (\<lambda>writes.
        Ok (reads, writes))))"

definition rw_prologue_args :: "('signed, 'a, 'ty, 'ta) signed_ops \<Rightarrow> ('a, 'ty, 'cf, 'ca, 'rk, 'tag, 'signed, 'meta) rw_analysis \<Rightarrow> 'signed \<Rightarrow> 'a move_value list" where
  "rw_prologue_args S A tx =
     [MVU64 (txn_sequence_number S tx), vector_u8 (sender_public_key_bytes A tx), MVU64 (txn_gas_unit_price S tx),
      MVU64 (txn_max_gas_amount S tx), MVU64 (txn_expiration S tx), MVU8 (txn_chain_id S tx), vector_u8 []]"

definition rw_epilogue_args :: "('signed, 'a, 'ty, 'ta) signed_ops \<Rightarrow> 'signed \<Rightarrow> 'a move_value list" where
  "rw_epilogue_args S tx =
     [MVU64 (txn_sequence_number S tx), MVU64 (txn_gas_unit_price S tx), MVU64 (txn_max_gas_amount S tx), MVU64 0]"

text \<open>The loop over the three summaries.\<close>

fun collect_keys :: "('a, 'ty, 'cf, 'ca, 'rk, 'tag, 'signed, 'meta) rw_analysis \<Rightarrow> bool \<Rightarrow> 'cf list \<Rightarrow> 'rk list \<Rightarrow> 'rk list \<Rightarrow> 'rk keys_result" where
  "collect_keys A concretize [] keys_read keys_written = Ok (keys_read, keys_written)"
| "collect_keys A concretize (accesses # rest) keys_read keys_written =
     bind_ok (concretize_secondary_indexes A accesses concretize) (\<lambda>(reads, writes).
       collect_keys A concretize rest (keys_read @ reads) (keys_written @ writes))"

definition get_concretized_keys_entry_function ::
  "('signed, 'a, 'ty, 'ta) signed_ops \<Rightarrow> ('a, 'ty, 'cf, 'ca, 'rk::linorder, 'tag, 'signed, 'meta) rw_analysis \<Rightarrow> 'signed \<Rightarrow>
   'a module_id \<Rightarrow> string \<Rightarrow> bytes list \<Rightarrow> 'ty list \<Rightarrow> bool \<Rightarrow> 'rk keys_result" where
  "get_concretized_keys_entry_function S A tx module_name script_name actuals type_actuals concretize =
     (let signers = [txn_sender S tx] in
      bind_ok (get_partially_concretized_summary A (transaction_validation_module A) ''script_prologue'' signers
                 (rw_serialize_values A (rw_prologue_args S A tx)) []) (\<lambda>prologue_accesses.
      bind_ok (get_partially_concretized_summary A (transaction_validation_module A) ''epilogue'' signers
                 (rw_serialize_values A (rw_epilogue_args S tx)) []) (\<lambda>epilogue_accesses.
      let script_accesses =
            (case get_partially_concretized_summary A module_name script_name signers actuals type_actuals of
               Ok accesses \<Rightarrow> accesses
             | Err _ \<Rightarrow> formals_empty A) in
      bind_ok (collect_keys A concretize [prologue_accesses, script_accesses, epilogue_accesses] [] []) (\<lambda>(keys_read, keys_written).
      let keys_read = remdups_adj (sort keys_read);
          keys_written = remdups_adj (sort keys_written);
          keys_written = (if txn_gas_unit_price S tx = 0 then filter (\<lambda>r. resource_type A r \<noteq> tx_fees_tag A) keys_written
                          else keys_written)
      in Ok (keys_read, keys_written)))))"

definition get_keys_user_transaction_impl ::
  "('signed, 'a, 'ty, 'ta) signed_ops \<Rightarrow> ('a, 'ty, 'cf, 'ca, 'rk::linorder, 'tag, 'signed, 'meta) rw_analysis \<Rightarrow> 'signed \<Rightarrow> bool \<Rightarrow> 'rk keys_result" where
  "get_keys_user_transaction_impl S A tx concretize =
     (case txn_payload S tx of
        EntryFunction m f ty_args args \<Rightarrow> get_concretized_keys_entry_function S A tx m f args ty_args concretize
      | Script _ _ _ \<Rightarrow> Err ''Unsupported transaction script type''
      | ModuleBundle _ \<Rightarrow> Err ''Unsupported transaction payload type'')"

definition get_keys_user_transaction where
  "get_keys_user_transaction S A tx = get_keys_user_transaction_impl S A tx True"

definition get_partial_keys_user_transaction where
  "get_partial_keys_user_transaction S A tx = get_keys_user_transaction_impl S A tx False"

definition get_keys_written where
  "get_keys_written S A tx = map_ok snd (get_keys_user_transaction S A tx)"

definition get_keys_read where
  "get_keys_read S A tx = map_ok fst (get_keys_user_transaction S A tx)"

definition get_keys_transaction ::
  "('signed, 'a, 'ty, 'ta) signed_ops \<Rightarrow> ('a, 'ty, 'cf, 'ca, 'rk::linorder, 'tag, 'signed, 'meta) rw_analysis \<Rightarrow>
   ('signed, 'ws, 'meta) preprocessed_transaction \<Rightarrow> bool \<Rightarrow> 'rk keys_result" where
  "get_keys_transaction S A tx concretize =
     (case tx of
        UserTransaction tx \<Rightarrow> get_keys_user_transaction_impl S A tx concretize
      | BlockMetadata block_metadata \<Rightarrow>
          bind_ok (get_partially_concretized_summary A (rw_block_module A) ''block_prologue'' []
                     (rw_serialize_values A (get_prologue_move_args A block_metadata (rw_reserved_vm_address A))) [])
            (\<lambda>metadata_access. concretize_secondary_indexes A metadata_access concretize)
      | InvalidSignature \<Rightarrow> Ok ([], [])
      | StateCheckpoint \<Rightarrow> Ok ([], [])
      | WaypointWriteSet _ \<Rightarrow> Err ''Unsupported writeset transaction'')"

section \<open>The keys of a transaction\<close>

lemma sorted_dedup: "remdups_adj (sort xs) = sorted_list_of_set (set xs)"
proof (rule sorted_distinct_set_unique)
  show "distinct (remdups_adj (sort xs))"
  proof -
    have "sorted ys \<Longrightarrow> distinct (remdups_adj ys)" for ys :: "'a list"
      by (induction ys rule: remdups_adj.induct) auto
    then show ?thesis by simp
  qed
qed simp_all

text \<open>The arguments the analysis binds are those of the calls of the VM, apart from the signer, the
  sender's key, the script hash and the unused gas.\<close>

lemma rw_args_agree:
  assumes "\<not> is_multi_agent (transaction_metadata_new S tx)"
  shows "script_prologue_args (transaction_metadata_new S tx) =
      MVSigner (txn_sender S tx) #
      (rw_prologue_args S A tx)[1 := vector_u8 (txn_authentication_key S tx), 6 := vector_u8 (md_script_hash (transaction_metadata_new S tx))]"
    and "epilogue_args (transaction_metadata_new S tx) gas_remaining =
      MVSigner (txn_sender S tx) # (rw_epilogue_args S tx)[3 := MVU64 gas_remaining]"
  using assms by (simp_all add: script_prologue_args_def rw_prologue_args_def epilogue_args_def rw_epilogue_args_def transaction_metadata_new_def)

lemma collect_keys_sets:
  "collect_keys A cz parts r w = Ok (r', w') \<longleftrightarrow>
     (\<exists>ks. list_all2 (\<lambda>p k. concretize_secondary_indexes A p cz = Ok k) parts ks \<and>
           r' = r @ concat (map fst ks) \<and> w' = w @ concat (map snd ks))"
proof (induction parts arbitrary: r w)
  case (Cons p parts)
  show ?case
  proof (cases "concretize_secondary_indexes A p cz")
    case (Ok k)
    then show ?thesis
      by (cases k) (force simp: Cons.IH list_all2_Cons1)
  next
    case (Err e)
    then show ?thesis by (auto simp: list_all2_Cons1)
  qed
qed auto

text \<open>
  The keys of an entry function: the analysis fails exactly if prologue or epilogue cannot be summarised or
  one of the three summaries cannot be made concrete, a payload without a summary counting as empty;
  otherwise both lists are sorted, without duplicates, and hold exactly the keys of the three parts, where
  the fee resource is left out of the writes of a transaction that pays no gas.
\<close>

lemma rw_keys_exact:
  assumes "get_partially_concretized_summary A (transaction_validation_module A) ''script_prologue'' [txn_sender S tx]
      (rw_serialize_values A (rw_prologue_args S A tx)) [] = Ok pro"
    and "get_partially_concretized_summary A (transaction_validation_module A) ''epilogue'' [txn_sender S tx]
      (rw_serialize_values A (rw_epilogue_args S tx)) [] = Ok epi"
    and "body = (case get_partially_concretized_summary A m f [txn_sender S tx] args tys of Ok a \<Rightarrow> a | Err _ \<Rightarrow> formals_empty A)"
  shows "get_concretized_keys_entry_function S A tx m f args tys cz = Ok (r, w) \<longleftrightarrow>
     (\<exists>kp kb ke. concretize_secondary_indexes A pro cz = Ok kp \<and> concretize_secondary_indexes A body cz = Ok kb \<and>
        concretize_secondary_indexes A epi cz = Ok ke \<and>
        r = sorted_list_of_set (set (fst kp) \<union> set (fst kb) \<union> set (fst ke)) \<and>
        w = filter (\<lambda>k. txn_gas_unit_price S tx = 0 \<longrightarrow> resource_type A k \<noteq> tx_fees_tag A)
              (sorted_list_of_set (set (snd kp) \<union> set (snd kb) \<union> set (snd ke))))"
proof -
  have "get_concretized_keys_entry_function S A tx m f args tys cz = Ok (r, w) \<longleftrightarrow>
      (\<exists>rs ws. collect_keys A cz [pro, body, epi] [] [] = Ok (rs, ws) \<and> r = sorted_list_of_set (set rs) \<and>
         w = filter (\<lambda>k. txn_gas_unit_price S tx = 0 \<longrightarrow> resource_type A k \<noteq> tx_fees_tag A) (sorted_list_of_set (set ws)))"
    using assms(1,2) unfolding get_concretized_keys_entry_function_def Let_def assms(3)[symmetric]
    by (cases "collect_keys A cz [pro, body, epi] [] []") (auto simp: sorted_dedup simp del: collect_keys.simps)
  also have "\<dots> \<longleftrightarrow> (\<exists>kp kb ke. concretize_secondary_indexes A pro cz = Ok kp \<and> concretize_secondary_indexes A body cz = Ok kb \<and>
        concretize_secondary_indexes A epi cz = Ok ke \<and>
        r = sorted_list_of_set (set (fst kp) \<union> set (fst kb) \<union> set (fst ke)) \<and>
        w = filter (\<lambda>k. txn_gas_unit_price S tx = 0 \<longrightarrow> resource_type A k \<noteq> tx_fees_tag A)
              (sorted_list_of_set (set (snd kp) \<union> set (snd kb) \<union> set (snd ke))))"
    unfolding collect_keys_sets list_all2_Cons1 list_all2_Nil by (auto simp: Un_assoc)
  finally show ?thesis .
qed

end
